(* ===== verification/Prelude.thy ===== *)
theory Prelude
  imports Main "HOL-Library.Word"
begin

text \<open>
  Shared vocabulary of the development: panics as values of a sum type with a bind, the Rust
  collection operations the sources use (\<^verbatim>\<open>Vec::insert\<close>, \<^verbatim>\<open>Vec::remove\<close>,
  \<^verbatim>\<open>slice::get\<close>, \<^verbatim>\<open>dedup\<close>), and the generic list lemmas the component
  theories rely on.
\<close>

named_theorems content_simps \<open>how an operation acts on the styled content of a run list\<close>
named_theorems kind_simps \<open>how an operation acts on the kind of a block\<close>

section \<open>Panics\<close>

text \<open>
  A Rust panic (a failed \<^verbatim>\<open>assert!\<close>, \<^verbatim>\<open>expect\<close> or slice index) is the left
  summand. The string is the message, or the library call that panics.
\<close>

datatype panic = Panic string

type_synonym 'a res = "panic + 'a"

definition res_bind :: "'a res \<Rightarrow> ('a \<Rightarrow> 'b res) \<Rightarrow> 'b res" where
  "res_bind m f = (case m of Inl p \<Rightarrow> Inl p | Inr x \<Rightarrow> f x)"

definition expect :: "string \<Rightarrow> 'a option \<Rightarrow> 'a res" where
  "expect msg x = (case x of None \<Rightarrow> Inl (Panic msg) | Some y \<Rightarrow> Inr y)"

definition rust_assert :: "string \<Rightarrow> bool \<Rightarrow> unit res" where
  "rust_assert msg b = (if b then Inr () else Inl (Panic msg))"

lemma res_bind_simps [simp]:
  "res_bind (Inl p) f = Inl p"
  "res_bind (Inr x) f = f x"
  by (simp_all add: res_bind_def)

lemma expect_simps [simp]:
  "expect msg None = Inl (Panic msg)"
  "expect msg (Some y) = Inr y"
  by (simp_all add: expect_def)

lemma rust_assert_simps [simp]:
  "rust_assert msg True = Inr ()"
  "rust_assert msg False = Inl (Panic msg)"
  by (simp_all add: rust_assert_def)

lemma res_bind_eq_Inr [simp]:
  "res_bind m f = Inr y \<longleftrightarrow> (\<exists>x. m = Inr x \<and> f x = Inr y)"
  by (cases m) auto

lemma expect_eq_Inr [simp]: "expect msg x = Inr y \<longleftrightarrow> x = Some y"
  by (cases x) auto

lemma rust_assert_eq_Inr [simp]: "rust_assert msg b = Inr u \<longleftrightarrow> b"
  by (cases b) (auto simp: rust_assert_def)

section \<open>Vectors\<close>

definition get :: "'a list \<Rightarrow> nat \<Rightarrow> 'a option" where
  "get xs i = (if i < length xs then Some (xs ! i) else None)"

text \<open>\<^verbatim>\<open>Vec::insert\<close> panics beyond the length, \<^verbatim>\<open>Vec::remove\<close> at or beyond it.\<close>

definition insert_at :: "nat \<Rightarrow> 'a \<Rightarrow> 'a list \<Rightarrow> 'a list" where
  "insert_at i x xs = take i xs @ x # drop i xs"

definition remove_at :: "nat \<Rightarrow> 'a list \<Rightarrow> 'a list" where
  "remove_at i xs = take i xs @ drop (Suc i) xs"

definition vec_insert :: "nat \<Rightarrow> 'a \<Rightarrow> 'a list \<Rightarrow> 'a list res" where
  "vec_insert i x xs =
     (if i \<le> length xs then Inr (insert_at i x xs) else Inl (Panic ''Vec::insert''))"

definition vec_remove :: "nat \<Rightarrow> 'a list \<Rightarrow> 'a list res" where
  "vec_remove i xs =
     (if i < length xs then Inr (remove_at i xs) else Inl (Panic ''Vec::remove''))"

text \<open>\<open>n\<close> successive removals at the same index.\<close>

fun vec_remove_n :: "nat \<Rightarrow> nat \<Rightarrow> 'a list \<Rightarrow> 'a list res" where
  "vec_remove_n 0 i xs = Inr xs"
| "vec_remove_n (Suc n) i xs = res_bind (vec_remove i xs) (vec_remove_n n i)"

text \<open>Successive insertions at consecutive indices.\<close>

fun vec_insert_all :: "nat \<Rightarrow> 'a list \<Rightarrow> 'a list \<Rightarrow> 'a list res" where
  "vec_insert_all i [] xs = Inr xs"
| "vec_insert_all i (y # ys) xs = res_bind (vec_insert i y xs) (vec_insert_all (Suc i) ys)"

lemma get_simps [simp]:
  "get [] i = None"
  "get (x # xs) 0 = Some x"
  "get (x # xs) (Suc i) = get xs i"
  by (auto simp: get_def)

lemma get_Some_iff: "get xs i = Some x \<longleftrightarrow> i < length xs \<and> xs ! i = x"
  by (auto simp: get_def)

lemma get_None_iff: "get xs i = None \<longleftrightarrow> length xs \<le> i"
  by (auto simp: get_def)

lemma get_Some_less: "get xs i = Some x \<Longrightarrow> i < length xs"
  by (simp add: get_Some_iff)

lemma get_list_update [simp]:
  "get (xs[i := x]) j = (if j = i \<and> i < length xs then Some x else get xs j)"
  by (auto simp: get_def)

lemma length_insert_at [simp]: "i \<le> length xs \<Longrightarrow> length (insert_at i x xs) = Suc (length xs)"
  by (simp add: insert_at_def)

lemma length_remove_at [simp]: "i < length xs \<Longrightarrow> length (remove_at i xs) = length xs - 1"
  by (simp add: remove_at_def)

lemma remove_at_insert_at [simp]: "i \<le> length xs \<Longrightarrow> remove_at i (insert_at i x xs) = xs"
  by (simp add: remove_at_def insert_at_def)

lemma insert_at_remove_at: "i < length xs \<Longrightarrow> insert_at i (xs ! i) (remove_at i xs) = xs"
  by (simp add: remove_at_def insert_at_def min_def id_take_nth_drop [symmetric])

lemma get_insert_at_eq [simp]: "i \<le> length xs \<Longrightarrow> get (insert_at i x xs) i = Some x"
  by (simp add: get_def insert_at_def nth_append)

lemma get_insert_at_less: "j < i \<Longrightarrow> i \<le> length xs \<Longrightarrow> get (insert_at i x xs) j = get xs j"
  by (simp add: get_def insert_at_def nth_append)

lemma map_insert_at: "map f (insert_at i x xs) = insert_at i (f x) (map f xs)"
  by (simp add: insert_at_def take_map drop_map)

lemma map_remove_at: "map f (remove_at i xs) = remove_at i (map f xs)"
  by (simp add: remove_at_def take_map drop_map)

lemma vec_insert_eq_Inr [simp]:
  "vec_insert i x xs = Inr ys \<longleftrightarrow> i \<le> length xs \<and> ys = insert_at i x xs"
  by (auto simp: vec_insert_def)

lemma vec_remove_eq_Inr [simp]:
  "vec_remove i xs = Inr ys \<longleftrightarrow> i < length xs \<and> ys = remove_at i xs"
  by (auto simp: vec_remove_def)

lemma vec_remove_n_eq:
  "i + n \<le> length xs \<Longrightarrow> vec_remove_n n i xs = Inr (take i xs @ drop (i + n) xs)"
proof (induction n arbitrary: xs)
  case 0
  then show ?case by simp
next
  case (Suc n)
  then have i: "i < length xs" by simp
  have "vec_remove_n (Suc n) i xs = vec_remove_n n i (remove_at i xs)"
    using i by (simp add: vec_remove_def)
  also have "\<dots> = Inr (take i (remove_at i xs) @ drop (i + n) (remove_at i xs))"
    using Suc by simp
  also have "take i (remove_at i xs) = take i xs"
    using i by (simp add: remove_at_def)
  also have "drop (i + n) (remove_at i xs) = drop (i + Suc n) xs"
    using i by (simp add: remove_at_def add.commute)
  finally show ?case .
qed

lemma vec_insert_all_eq:
  "i \<le> length xs \<Longrightarrow> vec_insert_all i ys xs = Inr (take i xs @ ys @ drop i xs)"
proof (induction ys arbitrary: i xs)
  case Nil
  then show ?case by simp
next
  case (Cons y ys)
  then show ?case by (simp add: vec_insert_def insert_at_def)
qed

section \<open>Lists\<close>

lemma take_drop_append_mid:
  "s \<le> e \<Longrightarrow> take s xs @ take (e - s) (drop s xs) @ drop e xs = xs"
  by (metis append_assoc append_take_drop_id le_add_diff_inverse take_add)

lemma concat_take_drop: "concat (take n xss) @ concat (drop n xss) = concat xss"
  by (metis append_take_drop_id concat_append)

lemma concat_eq_Nil_nonempty: "[] \<notin> set xss \<Longrightarrow> concat xss = [] \<longleftrightarrow> xss = []"
  by (cases xss) auto

lemma list_update_take_drop: "i < length xs \<Longrightarrow> xs[i := x] = take i xs @ x # drop (Suc i) xs"
  by (rule upd_conv_take_nth_drop)

lemma drop_append_take:
  assumes "s < e" "take e xs = take s xs @ ys"
  shows "ys = drop s (take e xs)"
proof (cases "s \<le> length xs")
  case True
  with assms(2) show ?thesis by simp
next
  case False
  with assms show ?thesis by simp
qed

text \<open>\<^verbatim>\<open>Vec::dedup\<close> after a sort: adjacent duplicates collapse.\<close>

definition sort_dedup :: "nat list \<Rightarrow> nat list" where
  "sort_dedup xs = remdups_adj (sort xs)"

lemma set_sort_dedup [simp]: "set (sort_dedup xs) = set xs"
  by (simp add: sort_dedup_def)

end
