(* ===== verification/RteText.thy ===== *)
theory RteText
  imports Prelude
begin

text \<open>
  Text of the rich text editor and its segmentation into grapheme clusters
  (\<^verbatim>\<open>crates/rte/src/document.rs\<close>, \<open>text_len\<close> and \<open>text_to_byte_offset\<close>).
  A Rust \<^verbatim>\<open>String\<close> is the list of its UTF-8 bytes, so that byte offsets are list offsets.
  The third-party crate \<^verbatim>\<open>unicode-segmentation\<close> is a parameter \<open>g\<close> of every
  definition that measures text; the locale \<open>segmentation\<close> states what the editor relies on.
\<close>

type_synonym segmenter = "string \<Rightarrow> string list"

definition text_len :: "segmenter \<Rightarrow> string \<Rightarrow> nat" where
  "text_len g t = length (g t)"

definition text_to_byte_offset :: "segmenter \<Rightarrow> string \<Rightarrow> nat \<Rightarrow> nat" where
  "text_to_byte_offset g t n =
     (if n < length (g t) then length (concat (take n (g t))) else length t)"

section \<open>What the editor relies on\<close>

text \<open>
  \<open>graphemes\<close> partitions the text into non-empty clusters, and cutting a text at a cluster
  boundary leaves the clusters on both sides as they were (the boundary rules of UAX 29 look only
  at the cluster they are in, or at whole pairs of regional indicators before it).
\<close>

locale segmentation =
  fixes g :: segmenter
  assumes concat_clusters: "concat (g t) = t"
    and clusters_nonempty: "[] \<notin> set (g t)"
    and clusters_take: "g (concat (take n (g t))) = take n (g t)"
    and clusters_drop: "g (concat (drop n (g t))) = drop n (g t)"
begin

lemma clusters_Nil [simp]: "g [] = []"
  by (metis concat_clusters clusters_nonempty concat_eq_Nil_nonempty)

lemma clusters_eq_Nil [simp]: "g t = [] \<longleftrightarrow> t = []"
  using concat_clusters [of t] by (cases "g t") auto

lemma text_len_eq_0 [simp]: "text_len g t = 0 \<longleftrightarrow> t = []"
  by (simp add: text_len_def)

lemma byte_offset_eq: "text_to_byte_offset g t n = length (concat (take n (g t)))"
  by (simp add: text_to_byte_offset_def concat_clusters)

lemma take_byte_offset: "take (text_to_byte_offset g t n) t = concat (take n (g t))"
proof -
  have "t = concat (take n (g t)) @ concat (drop n (g t))"
    by (simp add: concat_take_drop concat_clusters)
  then show ?thesis by (metis append_eq_conv_conj byte_offset_eq)
qed

lemma drop_byte_offset: "drop (text_to_byte_offset g t n) t = concat (drop n (g t))"
proof -
  have "t = concat (take n (g t)) @ concat (drop n (g t))"
    by (simp add: concat_take_drop concat_clusters)
  then show ?thesis by (metis append_eq_conv_conj byte_offset_eq)
qed

lemma clusters_take_byte: "g (take (text_to_byte_offset g t n) t) = take n (g t)"
  by (simp add: take_byte_offset clusters_take)

lemma clusters_drop_byte: "g (drop (text_to_byte_offset g t n) t) = drop n (g t)"
  by (simp add: drop_byte_offset clusters_drop)

text \<open>The bytes between two cluster offsets are the clusters between them.\<close>

lemma clusters_slice_byte:
  assumes "s \<le> e"
  shows "g (drop (text_to_byte_offset g t s) (take (text_to_byte_offset g t e) t))
    = drop s (take e (g t))"
proof -
  let ?u = "take (text_to_byte_offset g t e) t"
  have u: "g ?u = take e (g t)" by (rule clusters_take_byte)
  have "text_to_byte_offset g ?u s = text_to_byte_offset g t s"
    using assms by (simp add: byte_offset_eq [of ?u s] byte_offset_eq [of t s] u min_def)
  then have "g (drop (text_to_byte_offset g t s) ?u) = drop s (g ?u)"
    by (metis clusters_drop_byte)
  then show ?thesis by (simp add: u)
qed

lemma clusters_inj: "g s = g t \<Longrightarrow> s = t"
  by (metis concat_clusters)

end

text \<open>
  Clusters can join across a concatenation (a base letter and a combining accent). A class of
  texts on which this does not happen, closed under concatenation and under cuts at cluster
  boundaries, is what the operations that concatenate texts need.
\<close>

locale plain_segmentation = segmentation g for g :: segmenter +
  fixes plain :: "string \<Rightarrow> bool"
  assumes plain_Nil: "plain []"
    and plain_append: "plain a \<Longrightarrow> plain b \<Longrightarrow> plain (a @ b)"
    and clusters_append: "plain a \<Longrightarrow> plain b \<Longrightarrow> g (a @ b) = g a @ g b"
    and plain_take: "plain t \<Longrightarrow> plain (concat (take n (g t)))"
    and plain_drop: "plain t \<Longrightarrow> plain (concat (drop n (g t)))"
begin

lemma plain_take_byte: "plain t \<Longrightarrow> plain (take (text_to_byte_offset g t n) t)"
  by (simp add: take_byte_offset plain_take)

lemma plain_drop_byte: "plain t \<Longrightarrow> plain (drop (text_to_byte_offset g t n) t)"
  by (simp add: drop_byte_offset plain_drop)

lemma plain_concat: "(\<And>t. t \<in> set ts \<Longrightarrow> plain t) \<Longrightarrow> plain (concat ts)"
  by (induction ts) (simp_all add: plain_Nil plain_append)

end

section \<open>A segmenter\<close>

text \<open>
  A concrete segmenter: a cluster is a byte followed by the bytes that extend it. With
  \<open>utf8_extends\<close> these are the UTF-8 continuation bytes and the lead byte \<open>0xCC\<close> of the
  combining marks U+0300 to U+033F, so a base letter and its combining accents are one cluster,
  as they are for \<^verbatim>\<open>unicode-segmentation\<close>.
\<close>

function (sequential) extend_segments :: "(char \<Rightarrow> bool) \<Rightarrow> string \<Rightarrow> string list" where
  "extend_segments ext [] = []"
| "extend_segments ext (c # cs) =
     (c # takeWhile ext cs) # extend_segments ext (dropWhile ext cs)"
  by pat_completeness auto
termination
  by (relation "measure (\<lambda>(ext, cs). length cs)") (auto simp: length_dropWhile_le le_imp_less_Suc)

definition utf8_extends :: "char \<Rightarrow> bool" where
  "utf8_extends c \<longleftrightarrow> (let n = of_char c :: nat in (128 \<le> n \<and> n < 192) \<or> n = 204)"

definition utf8_segments :: segmenter where
  "utf8_segments = extend_segments utf8_extends"

lemma concat_extend_segments: "concat (extend_segments ext t) = t"
  by (induction ext t rule: extend_segments.induct) auto

lemma extend_segments_nonempty: "[] \<notin> set (extend_segments ext t)"
  by (induction ext t rule: extend_segments.induct) auto

text \<open>Appending a text that does not start with an extending byte adds its clusters.\<close>

definition starts_extending :: "(char \<Rightarrow> bool) \<Rightarrow> string \<Rightarrow> bool" where
  "starts_extending ext t = (case t of [] \<Rightarrow> False | c # _ \<Rightarrow> ext c)"

lemma takeWhile_append_fresh:
  "\<not> starts_extending ext b \<Longrightarrow> takeWhile ext (cs @ b) = takeWhile ext cs"
  by (induction cs) (auto simp: starts_extending_def split: list.splits)

lemma dropWhile_append_fresh:
  "\<not> starts_extending ext b \<Longrightarrow> dropWhile ext (cs @ b) = dropWhile ext cs @ b"
  by (induction cs) (auto simp: starts_extending_def split: list.splits)

lemma extend_segments_append:
  "\<not> starts_extending ext b \<Longrightarrow>
    extend_segments ext (a @ b) = extend_segments ext a @ extend_segments ext b"
  by (induction ext a rule: extend_segments.induct)
    (simp_all add: takeWhile_append_fresh dropWhile_append_fresh)

lemma starts_extending_drop:
  "0 < n \<Longrightarrow> \<not> starts_extending ext (concat (drop n (extend_segments ext t)))"
proof (induction ext t arbitrary: n rule: extend_segments.induct)
  case (1 ext)
  then show ?case by (simp add: starts_extending_def)
next
  case (2 ext c cs)
  show ?case
  proof (cases "n = 1")
    case True
    have "\<not> starts_extending ext (dropWhile ext cs)"
      by (metis dropWhile_eq_Cons_conv list.case_eq_if list.collapse starts_extending_def)
    with True show ?thesis by (simp add: concat_extend_segments)
  next
    case False
    with 2 obtain m where "n = Suc m" "0 < m" by (cases n) auto
    with 2 show ?thesis by simp
  qed
qed

lemma extend_segments_split:
  "extend_segments ext (concat (take n (extend_segments ext t))) = take n (extend_segments ext t)
   \<and> extend_segments ext (concat (drop n (extend_segments ext t))) = drop n (extend_segments ext t)"
proof (cases "n = 0")
  case True
  then show ?thesis by (simp add: concat_extend_segments)
next
  case False
  let ?s = "extend_segments ext t"
  let ?a = "concat (take n ?s)" and ?b = "concat (drop n ?s)"
  have ab: "?s = extend_segments ext ?a @ extend_segments ext ?b"
    using extend_segments_append [of ext ?b ?a] starts_extending_drop [of n ext t] False
    by (simp add: concat_take_drop concat_extend_segments)
  have drop_eq: "extend_segments ext ?b = drop n ?s"
    using False
  proof (induction ext t arbitrary: n rule: extend_segments.induct)
    case (1 ext)
    then show ?case by simp
  next
    case (2 ext c cs)
    then show ?case by (cases n; cases "n = 1") (auto simp: concat_extend_segments)
  qed
  with ab have "extend_segments ext ?a @ drop n ?s = take n ?s @ drop n ?s" by simp
  then have "extend_segments ext ?a = take n ?s" by (simp only: append_same_eq)
  with drop_eq show ?thesis by simp
qed

text \<open>The texts that do not start with an extending byte never join with what precedes them.\<close>

definition utf8_plain :: "string \<Rightarrow> bool" where
  "utf8_plain t \<longleftrightarrow> \<not> starts_extending utf8_extends t"

lemma utf8_plain_take: "utf8_plain t \<Longrightarrow> utf8_plain (concat (take n (extend_segments utf8_extends t)))"
  by (cases t; cases n) (simp_all add: utf8_plain_def starts_extending_def)

lemma utf8_plain_drop: "utf8_plain t \<Longrightarrow> utf8_plain (concat (drop n (extend_segments utf8_extends t)))"
  using starts_extending_drop [of n utf8_extends t]
  by (cases "n = 0") (simp_all add: utf8_plain_def concat_extend_segments)

interpretation utf8: plain_segmentation utf8_segments utf8_plain
proof unfold_locales
  fix t n
  show "concat (utf8_segments t) = t"
    by (simp add: utf8_segments_def concat_extend_segments)
  show "[] \<notin> set (utf8_segments t)"
    by (simp add: utf8_segments_def extend_segments_nonempty)
  show "utf8_segments (concat (take n (utf8_segments t))) = take n (utf8_segments t)"
    and "utf8_segments (concat (drop n (utf8_segments t))) = drop n (utf8_segments t)"
    by (simp_all add: utf8_segments_def extend_segments_split)
next
  show "utf8_plain []"
    by (simp add: utf8_plain_def starts_extending_def)
next
  fix a b
  assume "utf8_plain a" "utf8_plain b"
  then show "utf8_plain (a @ b)"
    by (cases a) (simp_all add: utf8_plain_def starts_extending_def)
  show "utf8_segments (a @ b) = utf8_segments a @ utf8_segments b"
    using \<open>utf8_plain b\<close> by (simp add: utf8_segments_def utf8_plain_def extend_segments_append)
next
  fix t n
  assume "utf8_plain t"
  then show "utf8_plain (concat (take n (utf8_segments t)))"
    and "utf8_plain (concat (drop n (utf8_segments t)))"
    by (simp_all add: utf8_segments_def utf8_plain_take utf8_plain_drop)
qed

end
