(* ===== verification/RteDocument.thy ===== *)
theory RteDocument
  imports RteText
begin

text \<open>
  The document model of the rich text editor (\<^verbatim>\<open>crates/rte/src/document.rs\<close>): styled runs,
  blocks, positions, selections, slices, and the run-splitting utilities. \<^verbatim>\<open>Arc\<close> sharing is
  invisible to these functions, so a block list holds the blocks themselves. Offsets and indices
  are \<^verbatim>\<open>usize\<close> counts of things held in memory and are natural numbers here.
  After the definitions come the abstraction of a run list to its styled clusters
  (\<open>runs_content\<close>) and the lemmas that say what each utility does to it.
\<close>

unbundle bit_operations_syntax

section \<open>Inline style\<close>

text \<open>\<^verbatim>\<open>InlineStyle\<close> is a bit set over \<^verbatim>\<open>u8\<close> (\<^verbatim>\<open>bitflags!\<close>).\<close>

type_synonym inline_style = "8 word"

definition BOLD :: inline_style where "BOLD = 1"
definition ITALIC :: inline_style where "ITALIC = 2"
definition UNDERLINE :: inline_style where "UNDERLINE = 4"
definition STRIKETHROUGH :: inline_style where "STRIKETHROUGH = 8"

definition style_contains :: "inline_style \<Rightarrow> inline_style \<Rightarrow> bool" where
  "style_contains s b \<longleftrightarrow> s AND b = b"

definition style_insert :: "inline_style \<Rightarrow> inline_style \<Rightarrow> inline_style" where
  "style_insert b s = s OR b"

definition style_remove :: "inline_style \<Rightarrow> inline_style \<Rightarrow> inline_style" where
  "style_remove b s = s AND NOT b"

definition style_toggle :: "inline_style \<Rightarrow> inline_style \<Rightarrow> inline_style" where
  "style_toggle b s = s XOR b"

text \<open>The declared flags a value contains, in declaration order; then any undeclared rest.\<close>

definition style_iter :: "inline_style \<Rightarrow> inline_style list" where
  "style_iter s =
     filter (style_contains s) [BOLD, ITALIC, UNDERLINE, STRIKETHROUGH] @
     (let rest = s AND NOT 15 in if rest = 0 then [] else [rest])"

section \<open>Styled runs\<close>

record styled_run =
  run_text :: string
  run_style :: inline_style
  run_link :: "string option"

definition run_plain :: "string \<Rightarrow> styled_run" where
  "run_plain t = \<lparr>run_text = t, run_style = 0, run_link = None\<rparr>"

definition run_styled :: "string \<Rightarrow> inline_style \<Rightarrow> styled_run" where
  "run_styled t s = \<lparr>run_text = t, run_style = s, run_link = None\<rparr>"

definition run_linked :: "string \<Rightarrow> inline_style \<Rightarrow> string \<Rightarrow> styled_run" where
  "run_linked t s href = \<lparr>run_text = t, run_style = s, run_link = Some href\<rparr>"

definition run_char_len :: "segmenter \<Rightarrow> styled_run \<Rightarrow> nat" where
  "run_char_len g r = text_len g (run_text r)"

definition same_formatting :: "styled_run \<Rightarrow> styled_run \<Rightarrow> bool" where
  "same_formatting r r' \<longleftrightarrow> run_style r = run_style r' \<and> run_link r = run_link r'"

definition run_is_empty :: "styled_run \<Rightarrow> bool" where
  "run_is_empty r \<longleftrightarrow> run_text r = []"

definition char_to_byte_offset :: "segmenter \<Rightarrow> styled_run \<Rightarrow> nat \<Rightarrow> nat" where
  "char_to_byte_offset g r n = text_to_byte_offset g (run_text r) n"

definition run_split_at :: "segmenter \<Rightarrow> styled_run \<Rightarrow> nat \<Rightarrow> styled_run \<times> styled_run" where
  "run_split_at g r n =
     (let b = char_to_byte_offset g r n
      in (r\<lparr>run_text := take b (run_text r)\<rparr>, r\<lparr>run_text := drop b (run_text r)\<rparr>))"

section \<open>Blocks\<close>

datatype heading_level = H1 | H2 | H3

fun heading_as_u8 :: "heading_level \<Rightarrow> 8 word" where
  "heading_as_u8 H1 = 1"
| "heading_as_u8 H2 = 2"
| "heading_as_u8 H3 = 3"

definition heading_from_u8 :: "8 word \<Rightarrow> heading_level option" where
  "heading_from_u8 n =
     (if n = 1 then Some H1 else if n = 2 then Some H2 else if n = 3 then Some H3 else None)"

datatype text_alignment = AlignLeft | AlignCenter | AlignRight

record block_attrs =
  alignment :: text_alignment
  indent_level :: "8 word"

definition block_attrs_default :: block_attrs where
  "block_attrs_default = \<lparr>alignment = AlignLeft, indent_level = 0\<rparr>"

datatype block =
    Paragraph "styled_run list"
  | Heading heading_level "styled_run list"
  | ListItem bool "8 word" "styled_run list"
  | BlockQuote "block list"
  | HorizontalRule
  | Image string string "32 word option" "32 word option"

datatype block_kind =
    KParagraph
  | KHeading heading_level
  | KListItem bool
  | KBlockQuote
  | KHorizontalRule
  | KImage

definition empty_paragraph :: block where
  "empty_paragraph = Paragraph [run_plain []]"

definition paragraph_of :: "string \<Rightarrow> block" where
  "paragraph_of t = Paragraph [run_plain t]"

definition list_item :: "string \<Rightarrow> bool \<Rightarrow> block" where
  "list_item t ordered = ListItem ordered 0 [run_plain t]"

definition list_item_with_indent :: "string \<Rightarrow> bool \<Rightarrow> 8 word \<Rightarrow> block" where
  "list_item_with_indent t ordered ind = ListItem ordered ind [run_plain t]"

fun block_runs :: "block \<Rightarrow> styled_run list option" where
  "block_runs (Paragraph runs) = Some runs"
| "block_runs (Heading _ runs) = Some runs"
| "block_runs (ListItem _ _ runs) = Some runs"
| "block_runs _ = None"

text \<open>Writing through \<^verbatim>\<open>runs_mut\<close>: the block with its runs replaced, if it has runs.\<close>

fun set_runs :: "block \<Rightarrow> styled_run list \<Rightarrow> block" where
  "set_runs (Paragraph _) runs = Paragraph runs"
| "set_runs (Heading l _) runs = Heading l runs"
| "set_runs (ListItem ord ind _) runs = ListItem ord ind runs"
| "set_runs b _ = b"

definition join_lines :: "string list \<Rightarrow> string" where
  "join_lines ls = (case ls of [] \<Rightarrow> [] | l # rest \<Rightarrow> l @ concat (map (\<lambda>m. CHR 0x0A # m) rest))"

fun flattened_text :: "block \<Rightarrow> string" where
  "flattened_text (Image _ alt _ _) = alt"
| "flattened_text (BlockQuote bs) = join_lines (map flattened_text bs)"
| "flattened_text (Paragraph runs) = concat (map run_text runs)"
| "flattened_text (Heading _ runs) = concat (map run_text runs)"
| "flattened_text (ListItem _ _ runs) = concat (map run_text runs)"
| "flattened_text HorizontalRule = []"

definition block_char_len :: "segmenter \<Rightarrow> block \<Rightarrow> nat" where
  "block_char_len g b =
     (case block_runs b of Some runs \<Rightarrow> sum_list (map (run_char_len g) runs) | None \<Rightarrow> 1)"

fun is_inline_block :: "block \<Rightarrow> bool" where
  "is_inline_block (Paragraph _) = True"
| "is_inline_block (Heading _ _) = True"
| "is_inline_block (ListItem _ _ _) = True"
| "is_inline_block _ = False"

fun is_container :: "block \<Rightarrow> bool" where
  "is_container (BlockQuote _) = True"
| "is_container _ = False"

definition is_atomic_block :: "block \<Rightarrow> bool" where
  "is_atomic_block b \<longleftrightarrow> \<not> is_inline_block b"

fun block_attrs_of :: "block \<Rightarrow> block_attrs" where
  "block_attrs_of (ListItem _ ind _) = \<lparr>alignment = AlignLeft, indent_level = ind\<rparr>"
| "block_attrs_of _ = block_attrs_default"

fun with_attrs :: "block \<Rightarrow> block_attrs \<Rightarrow> block option" where
  "with_attrs (ListItem ord _ runs) a = Some (ListItem ord (indent_level a) runs)"
| "with_attrs (Paragraph runs) a = Some (Paragraph runs)"
| "with_attrs (Heading l runs) a = Some (Heading l runs)"
| "with_attrs (BlockQuote bs) a = Some (BlockQuote bs)"
| "with_attrs HorizontalRule a = None"
| "with_attrs (Image s alt w h) a = None"

fun kind :: "block \<Rightarrow> block_kind" where
  "kind (Paragraph _) = KParagraph"
| "kind (Heading l _) = KHeading l"
| "kind (ListItem ord _ _) = KListItem ord"
| "kind (BlockQuote _) = KBlockQuote"
| "kind HorizontalRule = KHorizontalRule"
| "kind (Image _ _ _ _) = KImage"

text \<open>The loop of \<^verbatim>\<open>resolve_offset\<close>, from run index \<open>i\<close>.\<close>

fun resolve_offset_from ::
  "segmenter \<Rightarrow> nat \<Rightarrow> nat \<Rightarrow> styled_run list \<Rightarrow> (nat \<times> nat) option" where
  "resolve_offset_from g i remaining [] = None"
| "resolve_offset_from g i remaining (r # rs) =
     (let len = run_char_len g r
      in if remaining < len \<or> (remaining = len \<and> rs = []) then Some (i, remaining)
         else resolve_offset_from g (Suc i) (remaining - len) rs)"

definition resolve_offset :: "segmenter \<Rightarrow> block \<Rightarrow> nat \<Rightarrow> (nat \<times> nat) option" where
  "resolve_offset g b n =
     (case block_runs b of None \<Rightarrow> None | Some runs \<Rightarrow> resolve_offset_from g 0 n runs)"

section \<open>Positions and selections\<close>

datatype doc_position = DocPosition (block_index: nat) (offset: nat)

definition position_zero :: doc_position where
  "position_zero = DocPosition 0 0"

instantiation doc_position :: linorder
begin

definition less_eq_doc_position :: "doc_position \<Rightarrow> doc_position \<Rightarrow> bool" where
  "less_eq_doc_position p q \<longleftrightarrow>
     block_index p < block_index q \<or> (block_index p = block_index q \<and> offset p \<le> offset q)"

definition less_doc_position :: "doc_position \<Rightarrow> doc_position \<Rightarrow> bool" where
  "less_doc_position p q \<longleftrightarrow>
     block_index p < block_index q \<or> (block_index p = block_index q \<and> offset p < offset q)"

instance
  by standard (auto simp: less_eq_doc_position_def less_doc_position_def intro: doc_position.expand)

end

record doc_selection =
  anchor :: doc_position
  focus :: doc_position

definition caret :: "doc_position \<Rightarrow> doc_selection" where
  "caret p = \<lparr>anchor = p, focus = p\<rparr>"

definition sel_range :: "doc_position \<Rightarrow> doc_position \<Rightarrow> doc_selection" where
  "sel_range a f = \<lparr>anchor = a, focus = f\<rparr>"

definition is_collapsed :: "doc_selection \<Rightarrow> bool" where
  "is_collapsed sel \<longleftrightarrow> anchor sel = focus sel"

definition sel_start :: "doc_selection \<Rightarrow> doc_position" where
  "sel_start sel = min (anchor sel) (focus sel)"

definition sel_end :: "doc_selection \<Rightarrow> doc_position" where
  "sel_end sel = max (anchor sel) (focus sel)"

definition sel_block_range :: "doc_selection \<Rightarrow> nat list" where
  "sel_block_range sel = [block_index (sel_start sel)..<block_index (sel_end sel) + 1]"

section \<open>Run utilities\<close>

fun block_with_runs_like :: "block \<Rightarrow> styled_run list \<Rightarrow> block" where
  "block_with_runs_like (Heading l _) runs = Heading l runs"
| "block_with_runs_like (ListItem ord ind _) runs = ListItem ord ind runs"
| "block_with_runs_like _ runs = Paragraph runs"

text \<open>
  The extraction loop from position \<open>pos\<close>: runs before the range are skipped, the loop stops at
  the first run behind it, and the overlap of each run in between is copied.
\<close>

fun extract_runs_from :: "segmenter \<Rightarrow> nat \<Rightarrow> nat \<Rightarrow> nat \<Rightarrow> styled_run list \<Rightarrow> styled_run list" where
  "extract_runs_from g pos s e [] = []"
| "extract_runs_from g pos s e (r # rs) =
     (let run_end = pos + run_char_len g r
      in if run_end \<le> s then extract_runs_from g run_end s e rs
         else if e \<le> pos then []
         else
           let bs = char_to_byte_offset g r (max s pos - pos);
               be = char_to_byte_offset g r (min e run_end - pos)
           in r\<lparr>run_text := drop bs (take be (run_text r))\<rparr> # extract_runs_from g run_end s e rs)"

definition extract_runs :: "segmenter \<Rightarrow> styled_run list \<Rightarrow> nat \<Rightarrow> nat \<Rightarrow> styled_run list" where
  "extract_runs g runs s e =
     (if s \<ge> e then [run_plain []]
      else let result = extract_runs_from g 0 s e runs
           in if result = [] then [run_plain []] else result)"

text \<open>The splitting loop from run index \<open>i\<close> at position \<open>pos\<close>; the index of the run that starts
  at the offset is returned with the runs.\<close>

fun split_runs_at_from ::
  "segmenter \<Rightarrow> nat \<Rightarrow> nat \<Rightarrow> styled_run list \<Rightarrow> nat \<Rightarrow> styled_run list \<times> nat" where
  "split_runs_at_from g i pos [] off = ([], i)"
| "split_runs_at_from g i pos (r # rs) off =
     (let len = run_char_len g r
      in if pos = off then (r # rs, i)
         else if pos + len > off then
           (let (l, rt) = run_split_at g r (off - pos) in (l # rt # rs, Suc i))
         else (let (rs', k) = split_runs_at_from g (Suc i) (pos + len) rs off in (r # rs', k)))"

definition split_runs_at :: "segmenter \<Rightarrow> styled_run list \<Rightarrow> nat \<Rightarrow> styled_run list \<times> nat" where
  "split_runs_at g runs off = split_runs_at_from g 0 0 runs off"

definition isolate_runs ::
  "segmenter \<Rightarrow> styled_run list \<Rightarrow> nat \<Rightarrow> nat \<Rightarrow> (styled_run list \<times> nat \<times> nat) res" where
  "isolate_runs g runs s e =
     res_bind (rust_assert ''isolate_runs: start > end'' (s \<le> e)) (\<lambda>_.
       if runs = [] \<or> s = e then Inr (runs, 0, 0)
       else
         let (runs1, si) = split_runs_at g runs s;
             (runs2, ei) = split_runs_at g runs1 e
         in Inr (runs2, si, ei))"

section \<open>Documents\<close>

record doc_slice =
  slice_blocks :: "block list"
  open_start :: bool
  open_end :: bool

definition slice_single :: "block \<Rightarrow> doc_slice" where
  "slice_single b = \<lparr>slice_blocks = [b], open_start = False, open_end = False\<rparr>"

definition inline_fragment :: "styled_run list \<Rightarrow> doc_slice" where
  "inline_fragment runs = \<lparr>slice_blocks = [Paragraph runs], open_start = True, open_end = True\<rparr>"

record document =
  blocks :: "block list"

definition document_new :: document where
  "document_new = \<lparr>blocks = [empty_paragraph]\<rparr>"

definition from_blocks :: "block list \<Rightarrow> document" where
  "from_blocks bs = (if bs = [] then document_new else \<lparr>blocks = bs\<rparr>)"

definition block_count :: "document \<Rightarrow> nat" where
  "block_count d = length (blocks d)"

definition doc_block :: "document \<Rightarrow> nat \<Rightarrow> block option" where
  "doc_block d i = get (blocks d) i"

text \<open>\<^verbatim>\<open>replace_block\<close>: the new document and the replaced block, if the index is in range.\<close>

definition replace_block :: "document \<Rightarrow> nat \<Rightarrow> block \<Rightarrow> document \<times> block option" where
  "replace_block d i b =
     (case get (blocks d) i of
        None \<Rightarrow> (d, None)
      | Some old \<Rightarrow> (d\<lparr>blocks := (blocks d)[i := b]\<rparr>, Some old))"

definition insert_block :: "document \<Rightarrow> nat \<Rightarrow> block \<Rightarrow> document res" where
  "insert_block d i b = res_bind (vec_insert i b (blocks d)) (\<lambda>bs. Inr (d\<lparr>blocks := bs\<rparr>))"

definition remove_block :: "document \<Rightarrow> nat \<Rightarrow> (document \<times> block option) res" where
  "remove_block d i =
     (if length (blocks d) \<le> 1 then Inr (d, None)
      else res_bind (vec_remove i (blocks d)) (\<lambda>bs.
             Inr (d\<lparr>blocks := bs\<rparr>, get (blocks d) i)))"

definition total_char_len :: "segmenter \<Rightarrow> document \<Rightarrow> nat" where
  "total_char_len g d = sum_list (map (block_char_len g) (blocks d))"

definition doc_flattened_text :: "document \<Rightarrow> string" where
  "doc_flattened_text d = join_lines (map flattened_text (blocks d))"

definition doc_slice_of :: "segmenter \<Rightarrow> document \<Rightarrow> doc_position \<Rightarrow> doc_position \<Rightarrow> doc_slice option" where
  "doc_slice_of g d s e =
     (if s \<ge> e then None
      else case (doc_block d (block_index s), doc_block d (block_index e)) of
        (Some sb, Some eb) \<Rightarrow>
          (if block_index s = block_index e then
             (if offset s = 0 \<and> offset e \<ge> block_char_len g sb then
                Some \<lparr>slice_blocks = [sb], open_start = False, open_end = False\<rparr>
              else case block_runs sb of
                Some runs \<Rightarrow>
                  Some \<lparr>slice_blocks =
                          [block_with_runs_like sb (extract_runs g runs (offset s) (offset e))],
                        open_start = True, open_end = True\<rparr>
              | None \<Rightarrow> None)
           else
             let first = (case block_runs sb of
                   Some runs \<Rightarrow>
                     [block_with_runs_like sb
                        (extract_runs g runs (offset s) (block_char_len g sb))]
                 | None \<Rightarrow> if offset s = 0 then [sb] else []);
                 middle = List.map_filter (doc_block d) [block_index s + 1..<block_index e];
                 last = (case block_runs eb of
                   Some runs \<Rightarrow> [block_with_runs_like eb (extract_runs g runs 0 (offset e))]
                 | None \<Rightarrow> if offset e > 0 then [eb] else [])
             in Some \<lparr>slice_blocks = first @ middle @ last,
                      open_start = offset s > 0,
                      open_end = offset e < block_char_len g eb\<rparr>)
      | _ \<Rightarrow> None)"

definition is_valid_position :: "segmenter \<Rightarrow> document \<Rightarrow> doc_position \<Rightarrow> bool" where
  "is_valid_position g d p =
     (case doc_block d (block_index p) of
        Some b \<Rightarrow> offset p \<le> block_char_len g b
      | None \<Rightarrow> False)"

definition clamp_position :: "segmenter \<Rightarrow> document \<Rightarrow> doc_position \<Rightarrow> doc_position" where
  "clamp_position g d p =
     (let bi = min (block_index p) (length (blocks d) - 1);
          max_offset = (case doc_block d bi of None \<Rightarrow> 0 | Some b \<Rightarrow> block_char_len g b)
      in DocPosition bi (min (offset p) max_offset))"

definition end_position :: "segmenter \<Rightarrow> document \<Rightarrow> doc_position" where
  "end_position g d =
     (let li = length (blocks d) - 1
      in DocPosition li (case doc_block d li of None \<Rightarrow> 0 | Some b \<Rightarrow> block_char_len g b))"

end
