(* ===== verification/RteContent.thy ===== *)
theory RteContent
  imports RteDocument
begin

text \<open>
  The abstract view of a document: a block is its shape and the list of its styled grapheme
  clusters. Offsets of the editor index this list. The lemmas state what the run utilities of
  \<open>RteDocument\<close> do to it, under the laws of the segmenter; how a run list is cut into runs is
  not visible in it.
\<close>

type_synonym styled_cluster = "string \<times> inline_style \<times> string option"

definition run_content :: "segmenter \<Rightarrow> styled_run \<Rightarrow> styled_cluster list" where
  "run_content g r = map (\<lambda>c. (c, run_style r, run_link r)) (g (run_text r))"

definition runs_content :: "segmenter \<Rightarrow> styled_run list \<Rightarrow> styled_cluster list" where
  "runs_content g rs = concat (map (run_content g) rs)"

datatype shape = SParagraph | SHeading heading_level | SListItem bool "8 word"

datatype ablock =
    AInline shape "styled_cluster list"
  | AQuote "ablock list"
  | ARule
  | AImage string string "32 word option" "32 word option"

fun abs_block :: "segmenter \<Rightarrow> block \<Rightarrow> ablock" where
  "abs_block g (Paragraph runs) = AInline SParagraph (runs_content g runs)"
| "abs_block g (Heading l runs) = AInline (SHeading l) (runs_content g runs)"
| "abs_block g (ListItem ord ind runs) = AInline (SListItem ord ind) (runs_content g runs)"
| "abs_block g (BlockQuote bs) =
     AQuote (if bs = [] then [AInline SParagraph []] else map (abs_block g) bs)"
| "abs_block g HorizontalRule = ARule"
| "abs_block g (Image s alt w h) = AImage s alt w h"

definition abs_doc :: "segmenter \<Rightarrow> document \<Rightarrow> ablock list" where
  "abs_doc g d = map (abs_block g) (blocks d)"

text \<open>The shape of a block with runs; \<open>mk_inline\<close> builds the block of a shape.\<close>

fun shape_of :: "block \<Rightarrow> shape" where
  "shape_of (Heading l _) = SHeading l"
| "shape_of (ListItem ord ind _) = SListItem ord ind"
| "shape_of _ = SParagraph"

fun mk_inline :: "shape \<Rightarrow> styled_run list \<Rightarrow> block" where
  "mk_inline SParagraph runs = Paragraph runs"
| "mk_inline (SHeading l) runs = Heading l runs"
| "mk_inline (SListItem ord ind) runs = ListItem ord ind runs"

section \<open>Blocks\<close>

lemma runs_content_simps [simp]:
  "runs_content g [] = []"
  "runs_content g (r # rs) = run_content g r @ runs_content g rs"
  "runs_content g (rs @ rs') = runs_content g rs @ runs_content g rs'"
  by (simp_all add: runs_content_def)

lemma length_run_content [simp]: "length (run_content g r) = run_char_len g r"
  by (simp add: run_content_def run_char_len_def text_len_def)

lemma length_runs_content: "length (runs_content g rs) = sum_list (map (run_char_len g) rs)"
  by (induction rs) auto

lemma is_inline_block_iff: "is_inline_block b \<longleftrightarrow> (\<exists>runs. block_runs b = Some runs)"
  by (cases b) auto

lemma block_runs_None_iff [simp]: "block_runs b = None \<longleftrightarrow> is_atomic_block b"
  by (cases b) (auto simp: is_atomic_block_def)

lemma block_runs_SomeD: "block_runs b = Some runs \<Longrightarrow> b = mk_inline (shape_of b) runs"
  by (cases b) auto

lemma mk_inline_simps [simp]:
  "block_runs (mk_inline s runs) = Some runs"
  "shape_of (mk_inline s runs) = s"
  "abs_block g (mk_inline s runs) = AInline s (runs_content g runs)"
  "is_inline_block (mk_inline s runs)"
  "block_with_runs_like (mk_inline s runs) runs' = mk_inline s runs'"
  "set_runs (mk_inline s runs) runs' = mk_inline s runs'"
  by (cases s; simp)+

lemma shape_empty_paragraph [simp]: "block_runs empty_paragraph = Some [run_plain []]"
  by (simp add: empty_paragraph_def)

lemma block_with_runs_like_runs [simp]: "block_runs (block_with_runs_like b runs) = Some runs"
  by (cases b) auto

lemma block_with_runs_like_eq: "block_with_runs_like b runs = mk_inline (shape_of b) runs"
  by (cases b) auto

lemma set_runs_inline: "block_runs b = Some runs \<Longrightarrow> set_runs b runs' = mk_inline (shape_of b) runs'"
  by (cases b) auto

lemma shape_of_atomic: "is_atomic_block b \<Longrightarrow> shape_of b = SParagraph"
  by (cases b) (auto simp: is_atomic_block_def)

lemma abs_block_inline:
  "block_runs b = Some runs \<Longrightarrow> abs_block g b = AInline (shape_of b) (runs_content g runs)"
  by (cases b) auto

lemma inline_cases:
  assumes "is_inline_block b"
  obtains s runs where "b = mk_inline s runs"
  using assms block_runs_SomeD by (auto simp: is_inline_block_iff)

lemma block_char_len_inline [simp]:
  "block_char_len g (mk_inline s runs) = length (runs_content g runs)"
  by (simp add: block_char_len_def length_runs_content)

lemma block_char_len_runs:
  "block_runs b = Some runs \<Longrightarrow> block_char_len g b = length (runs_content g runs)"
  by (simp add: block_char_len_def length_runs_content)

lemma block_char_len_atomic: "is_atomic_block b \<Longrightarrow> block_char_len g b = 1"
  by (cases b) (auto simp: block_char_len_def is_atomic_block_def)

text \<open>The length of a block can be read off its abstraction.\<close>

fun abs_len :: "ablock \<Rightarrow> nat" where
  "abs_len (AInline _ c) = length c"
| "abs_len _ = 1"

lemma abs_len_abs_block [simp]: "abs_len (abs_block g b) = block_char_len g b"
  by (cases b) (simp_all add: block_char_len_def length_runs_content)

lemma length_abs_doc [simp]: "length (abs_doc g d) = block_count d"
  by (simp add: abs_doc_def block_count_def)

lemma get_abs_doc: "get (abs_doc g d) i = map_option (abs_block g) (doc_block d i)"
  by (simp add: abs_doc_def doc_block_def get_def)

section \<open>Splitting and extracting runs\<close>

context segmentation
begin

lemma run_content_empty [simp]: "run_content g r = [] \<longleftrightarrow> run_text r = []"
  by (simp add: run_content_def)

lemma run_char_len_0 [simp]: "run_char_len g r = 0 \<longleftrightarrow> run_text r = []"
  by (simp add: run_char_len_def)

lemma run_content_plain_Nil [simp]: "run_content g (run_plain []) = []"
  by (simp add: run_content_def run_plain_def)

lemma run_split_at_content:
  assumes "run_split_at g r n = (a, b)"
  shows "run_content g a = take n (run_content g r)" "run_content g b = drop n (run_content g r)"
  using assms
  by (auto simp: run_split_at_def Let_def run_content_def char_to_byte_offset_def
      clusters_take_byte clusters_drop_byte take_map drop_map)

lemma split_runs_at_from_content:
  assumes "split_runs_at_from g i pos rs off = (rs', k)" "pos \<le> off"
  shows "i \<le> k \<and> k - i \<le> length rs'
    \<and> runs_content g (take (k - i) rs') = take (off - pos) (runs_content g rs)
    \<and> runs_content g (drop (k - i) rs') = drop (off - pos) (runs_content g rs)"
  using assms
proof (induction rs arbitrary: i pos rs' k)
  case Nil
  then show ?case by simp
next
  case (Cons r rs)
  consider (eq) "pos = off" | (inside) "pos < off" "pos + run_char_len g r > off"
    | (past) "pos < off" "pos + run_char_len g r \<le> off"
    using Cons.prems by linarith
  then show ?case
  proof cases
    case eq
    with Cons.prems show ?thesis by auto
  next
    case inside
    obtain a b where ab: "run_split_at g r (off - pos) = (a, b)" by fastforce
    with inside Cons.prems have "rs' = a # b # rs" "k = Suc i" by auto
    with inside show ?thesis by (simp add: run_split_at_content [OF ab])
  next
    case past
    with Cons.prems obtain rs1 where
      rec: "split_runs_at_from g (Suc i) (pos + run_char_len g r) rs off = (rs1, k)"
      and rs': "rs' = r # rs1"
      by (auto simp: Let_def split: prod.splits if_splits)
    from Cons.IH [OF rec past(2)] rs' past show ?thesis
      by (auto simp: Suc_diff_le take_Cons' drop_Cons')
  qed
qed

text \<open>Splitting keeps the content and returns the run index of the offset.\<close>

lemma split_runs_at_content:
  assumes "split_runs_at g rs off = (rs', k)"
  shows "k \<le> length rs'"
    and "runs_content g (take k rs') = take off (runs_content g rs)"
    and "runs_content g (drop k rs') = drop off (runs_content g rs)"
  using split_runs_at_from_content [OF assms [unfolded split_runs_at_def]] by simp_all

lemma split_runs_at_keeps_content:
  "split_runs_at g rs off = (rs', k) \<Longrightarrow> runs_content g rs' = runs_content g rs"
  by (metis append_take_drop_id runs_content_simps(3) split_runs_at_content(2,3))

text \<open>A split strictly behind the first \<open>j\<close> runs leaves them alone.\<close>

lemma split_runs_at_from_prefix:
  assumes "split_runs_at_from g i pos rs off = (rs', k)" "j \<le> length rs"
    and "pos + length (runs_content g (take j rs)) < off"
  shows "take j rs' = take j rs \<and> i + j \<le> k"
  using assms
proof (induction rs arbitrary: i pos rs' k j)
  case Nil
  then show ?case by simp
next
  case (Cons r rs)
  show ?case
  proof (cases j)
    case 0
    with Cons.prems show ?thesis
      by (auto simp: Let_def dest: split_runs_at_from_content split: prod.splits if_splits)
  next
    case (Suc j')
    with Cons.prems have past: "pos + run_char_len g r < off" by simp
    with Cons.prems obtain rs1 where
      rec: "split_runs_at_from g (Suc i) (pos + run_char_len g r) rs off = (rs1, k)"
      and rs': "rs' = r # rs1"
      by (auto simp: Let_def split: prod.splits if_splits)
    have "take j' rs1 = take j' rs \<and> Suc i + j' \<le> k"
      using Cons.prems Suc by (intro Cons.IH [OF rec]) (simp_all add: add.assoc)
    with Suc rs' show ?thesis by simp
  qed
qed

text \<open>Isolating \<open>[s, e)\<close> cuts the runs into content before, inside and behind the range.\<close>

lemma isolate_runs_content:
  assumes "isolate_runs g rs s e = Inr (rs', si, ei)" "s < e" "rs \<noteq> []"
  shows "si \<le> ei" "ei \<le> length rs'"
    and "runs_content g (take si rs') = take s (runs_content g rs)"
    and "runs_content g (drop si (take ei rs')) = drop s (take e (runs_content g rs))"
    and "runs_content g (drop ei rs') = drop e (runs_content g rs)"
proof -
  from assms obtain rs1 where s1: "split_runs_at g rs s = (rs1, si)"
    and s2: "split_runs_at g rs1 e = (rs', ei)"
    by (auto simp: isolate_runs_def split: prod.splits)
  note c1 = split_runs_at_content [OF s1] and c2 = split_runs_at_content [OF s2]
  have keep: "runs_content g rs1 = runs_content g rs" by (rule split_runs_at_keeps_content [OF s1])
  have pre: "take si rs' = take si rs1 \<and> 0 + si \<le> ei"
    using s2 [unfolded split_runs_at_def] c1(1)
    by (rule split_runs_at_from_prefix) (use c1(2) assms(2) in simp)
  then show "si \<le> ei" by simp
  show "ei \<le> length rs'" by (rule c2(1))
  show pre_c: "runs_content g (take si rs') = take s (runs_content g rs)" using pre c1(2) by simp
  show "runs_content g (drop ei rs') = drop e (runs_content g rs)" using c2(3) keep by simp
  have "take ei rs' = take si rs' @ drop si (take ei rs')"
    using pre by (metis append_take_drop_id min.absorb1 take_take add_0)
  then have "take e (runs_content g rs) =
      take s (runs_content g rs) @ runs_content g (drop si (take ei rs'))"
    using c2(2) keep pre_c by (metis runs_content_simps(3))
  then show "runs_content g (drop si (take ei rs')) = drop s (take e (runs_content g rs))"
    using assms(2) drop_append_take [of s e "runs_content g rs"] by simp
qed

lemma isolate_runs_total: "s \<le> e \<Longrightarrow> \<exists>rs' si ei. isolate_runs g rs s e = Inr (rs', si, ei)"
  by (auto simp: isolate_runs_def split: prod.splits)

lemma extract_run_content:
  assumes "s \<le> e"
  shows "run_content g (r\<lparr>run_text := drop (char_to_byte_offset g r s)
      (take (char_to_byte_offset g r e) (run_text r))\<rparr>) = drop s (take e (run_content g r))"
  using assms
  by (simp add: run_content_def char_to_byte_offset_def clusters_slice_byte drop_map take_map)

lemma extract_runs_from_content:
  assumes "s < e"
  shows "runs_content g (extract_runs_from g pos s e rs)
    = drop (s - pos) (take (e - pos) (runs_content g rs))"
proof (induction rs arbitrary: pos)
  case Nil
  then show ?case by simp
next
  case (Cons r rs)
  let ?run_end = "pos + run_char_len g r"
  consider (before) "?run_end \<le> s" | (behind) "s < ?run_end" "e \<le> pos"
    | (overlap) "s < ?run_end" "pos < e"
    by linarith
  then show ?case
  proof cases
    case before
    with assms Cons show ?thesis by (simp add: drop_append take_append)
  next
    case behind
    then show ?thesis by simp
  next
    case overlap
    have "max s pos - pos = s - pos" "s - pos \<le> min e ?run_end - pos"
      using overlap assms by auto
    with overlap Cons assms show ?thesis
      by (simp add: extract_run_content drop_append take_append min_def Let_def)
  qed
qed

lemma extract_runs_content [content_simps]:
  "runs_content g (extract_runs g rs s e) = drop s (take e (runs_content g rs))"
  using extract_runs_from_content [of s e 0 rs]
  by (auto simp: extract_runs_def Let_def)

lemma extract_runs_nonempty [simp]: "extract_runs g rs s e \<noteq> []"
  by (simp add: extract_runs_def Let_def)

end

end
