(* ===== verification/RteNormalize.thy ===== *)
theory RteNormalize
  imports RteContent
begin

text \<open>
  The normalization pass (\<^verbatim>\<open>crates/rte/src/normalize.rs\<close>): adjacent runs of the same
  formatting are merged, empty runs dropped, every inline block keeps a run, every block quote a
  block and the document a block. The lemmas show that the pass establishes these invariants, that
  it changes nothing the reader can see, and that normal forms are unique.
\<close>

definition SAFETY_MULTIPLIER :: nat where "SAFETY_MULTIPLIER = 42"

text \<open>One step of the merging loop.\<close>

definition push_merge :: "styled_run list \<Rightarrow> styled_run \<Rightarrow> styled_run list" where
  "push_merge merged run =
     (if merged \<noteq> [] \<and> same_formatting (last merged) run
      then butlast merged @ [(last merged)\<lparr>run_text := run_text (last merged) @ run_text run\<rparr>]
      else merged @ [run])"

definition normalize_runs :: "styled_run list \<Rightarrow> styled_run list" where
  "normalize_runs runs =
     (if runs = [] then [run_plain []]
      else
        let non_empty = filter (\<lambda>r. \<not> run_is_empty r) runs
        in if non_empty = [] then [run_plain []]
           else
             let merged = foldl push_merge [] non_empty
             in if merged = [] then [run_plain []] else merged)"

lemma size_list_member: "x \<in> set xs \<Longrightarrow> f x \<le> size_list f xs"
  by (induction xs) auto

function (sequential) normalize_block :: "block \<Rightarrow> block"
  and normalize_child_blocks :: "block list \<Rightarrow> block list" where
  "normalize_block (Paragraph runs) = Paragraph (normalize_runs runs)"
| "normalize_block (Heading l runs) = Heading l (normalize_runs runs)"
| "normalize_block (ListItem ord ind runs) = ListItem ord ind (normalize_runs runs)"
| "normalize_block (BlockQuote bs) = BlockQuote (normalize_child_blocks bs)"
| "normalize_block HorizontalRule = HorizontalRule"
| "normalize_block (Image s alt w h) = Image s alt w h"
| "normalize_child_blocks bs =
     map normalize_block (if bs = [] then [empty_paragraph] else bs)"
  by pat_completeness auto
termination
  by (relation "measure (case_sum (\<lambda>b. 2 * size b) (\<lambda>bs. 2 * size_list size bs + 1))")
    (auto simp: empty_paragraph_def less_Suc_eq_le size_list_member split: if_splits)

text \<open>
  The dirty-block loop. A batch visits the pending indices in order; out-of-range indices are
  skipped without counting, and the batch breaks off when the counter passes the limit. No index
  is ever put back, so the outer loop takes an empty pending list after one batch.
\<close>

fun normalize_batch :: "nat \<Rightarrow> nat \<Rightarrow> nat list \<Rightarrow> block list \<Rightarrow> nat \<times> block list" where
  "normalize_batch max_iter it [] bs = (it, bs)"
| "normalize_batch max_iter it (idx # rest) bs =
     (if idx \<ge> length bs then normalize_batch max_iter it rest bs
      else if Suc it > max_iter then (Suc it, bs)
      else normalize_batch max_iter (Suc it) rest (bs[idx := normalize_block (bs ! idx)]))"

function normalize_while :: "nat \<Rightarrow> nat \<Rightarrow> nat list \<Rightarrow> block list \<Rightarrow> block list" where
  "normalize_while max_iter it pending bs =
     (if pending \<noteq> [] \<and> it < max_iter
      then let (it', bs') = normalize_batch max_iter it pending bs
           in normalize_while max_iter it' [] bs'
      else bs)"
  by pat_completeness auto
termination
  by (relation "measure (\<lambda>(m, it, pending, bs). length pending)") auto

definition ensure_block :: "block list \<Rightarrow> block list" where
  "ensure_block bs = (if bs = [] then [empty_paragraph] else bs)"

definition normalize_blocks :: "document \<Rightarrow> nat list \<Rightarrow> document" where
  "normalize_blocks d dirty =
     (let bs = ensure_block (blocks d);
          max_iter = max (length dirty * SAFETY_MULTIPLIER) 1
      in d\<lparr>blocks := ensure_block (normalize_while max_iter 0 dirty bs)\<rparr>)"

definition normalize :: "document \<Rightarrow> document" where
  "normalize d =
     (let bs = ensure_block (blocks d)
      in normalize_blocks (d\<lparr>blocks := bs\<rparr>) [0..<length bs])"

section \<open>Normal forms\<close>

definition norm_runs :: "styled_run list \<Rightarrow> bool" where
  "norm_runs rs \<longleftrightarrow>
     rs = [run_plain []] \<or>
     (rs \<noteq> [] \<and> (\<forall>r \<in> set rs. run_text r \<noteq> []) \<and> successively (\<lambda>a b. \<not> same_formatting a b) rs)"

fun norm_block :: "block \<Rightarrow> bool" where
  "norm_block (Paragraph runs) = norm_runs runs"
| "norm_block (Heading _ runs) = norm_runs runs"
| "norm_block (ListItem _ _ runs) = norm_runs runs"
| "norm_block (BlockQuote bs) = (bs \<noteq> [] \<and> list_all norm_block bs)"
| "norm_block HorizontalRule = True"
| "norm_block (Image _ _ _ _) = True"

definition norm_doc :: "document \<Rightarrow> bool" where
  "norm_doc d \<longleftrightarrow> blocks d \<noteq> [] \<and> list_all norm_block (blocks d)"

text \<open>The styled bytes of a run list: independent of any segmentation.\<close>

definition run_bytes :: "styled_run \<Rightarrow> (char \<times> inline_style \<times> string option) list" where
  "run_bytes r = map (\<lambda>c. (c, run_style r, run_link r)) (run_text r)"

definition runs_bytes :: "styled_run list \<Rightarrow> (char \<times> inline_style \<times> string option) list" where
  "runs_bytes rs = concat (map run_bytes rs)"

lemma runs_bytes_simps [simp]:
  "runs_bytes [] = []"
  "runs_bytes (r # rs) = run_bytes r @ runs_bytes rs"
  "runs_bytes (rs @ rs') = runs_bytes rs @ runs_bytes rs'"
  by (simp_all add: runs_bytes_def)

lemma run_bytes_eq_Nil [simp]: "run_bytes r = [] \<longleftrightarrow> run_text r = []"
  by (simp add: run_bytes_def)

lemma runs_bytes_filter: "runs_bytes (filter (\<lambda>r. \<not> run_is_empty r) rs) = runs_bytes rs"
  by (induction rs) (auto simp: run_is_empty_def)

section \<open>Merging\<close>

text \<open>The accumulator invariant of the merging loop.\<close>

definition merge_inv :: "styled_run list \<Rightarrow> bool" where
  "merge_inv rs \<longleftrightarrow> (\<forall>r \<in> set rs. run_text r \<noteq> []) \<and> successively (\<lambda>a b. \<not> same_formatting a b) rs"

lemma push_merge_nonempty [simp]: "push_merge m r \<noteq> []"
  by (simp add: push_merge_def)

lemma successively_last_upd:
  assumes "successively P (xs @ [x])" "\<And>a. P a x \<Longrightarrow> P a y"
  shows "successively P (xs @ [y])"
  using assms by (auto simp: successively_append_iff)

lemma push_merge_inv: "merge_inv m \<Longrightarrow> run_text r \<noteq> [] \<Longrightarrow> merge_inv (push_merge m r)"
proof (cases m rule: rev_cases)
  case Nil
  then show "run_text r \<noteq> [] \<Longrightarrow> merge_inv (push_merge m r)"
    by (simp add: push_merge_def merge_inv_def)
next
  case (snoc m' l)
  assume "merge_inv m" "run_text r \<noteq> []"
  with snoc show ?thesis
    by (auto simp: push_merge_def merge_inv_def successively_append_iff same_formatting_def)
qed

lemma push_merge_bytes: "runs_bytes (push_merge m r) = runs_bytes m @ run_bytes r"
  by (cases m rule: rev_cases)
    (auto simp: push_merge_def same_formatting_def run_bytes_def)

lemma foldl_push_merge:
  assumes "merge_inv m" "\<forall>r \<in> set rs. run_text r \<noteq> []"
  shows "merge_inv (foldl push_merge m rs)
    \<and> runs_bytes (foldl push_merge m rs) = runs_bytes m @ runs_bytes rs
    \<and> (foldl push_merge m rs = [] \<longleftrightarrow> m = [] \<and> rs = [])"
  using assms
  by (induction rs arbitrary: m) (simp_all add: push_merge_inv push_merge_bytes)

lemma merge_inv_Nil [simp]: "merge_inv []"
  by (simp add: merge_inv_def)

abbreviation non_empty_runs :: "styled_run list \<Rightarrow> styled_run list" where
  "non_empty_runs rs \<equiv> filter (\<lambda>r. \<not> run_is_empty r) rs"

lemma foldl_push_merge_non_empty:
  shows "merge_inv (foldl push_merge [] (non_empty_runs rs))"
    and "runs_bytes (foldl push_merge [] (non_empty_runs rs)) = runs_bytes rs"
    and "foldl push_merge [] (non_empty_runs rs) = [] \<longleftrightarrow> non_empty_runs rs = []"
  using foldl_push_merge [of "[]" "non_empty_runs rs"] runs_bytes_filter [of rs]
  by (simp_all add: run_is_empty_def)

lemma normalize_runs_eq:
  "normalize_runs rs =
    (if non_empty_runs rs = [] then [run_plain []] else foldl push_merge [] (non_empty_runs rs))"
  using foldl_push_merge_non_empty(3) [of rs] by (simp add: normalize_runs_def Let_def)

lemma norm_runs_iff: "norm_runs rs \<longleftrightarrow> rs = [run_plain []] \<or> (rs \<noteq> [] \<and> merge_inv rs)"
  by (simp add: norm_runs_def merge_inv_def)

lemma normalize_runs_norm: "norm_runs (normalize_runs rs)"
  using foldl_push_merge_non_empty [of rs] by (simp add: normalize_runs_eq norm_runs_iff)

lemma run_bytes_plain_Nil [simp]: "run_bytes (run_plain []) = []"
  by (simp add: run_plain_def)

lemma normalize_runs_bytes: "runs_bytes (normalize_runs rs) = runs_bytes rs"
  using foldl_push_merge_non_empty [of rs] runs_bytes_filter [of rs]
  by (auto simp: normalize_runs_eq)

section \<open>Uniqueness of normal forms\<close>

lemma merge_inv_Cons: "merge_inv (r # rs) \<longleftrightarrow>
    run_text r \<noteq> [] \<and> merge_inv rs \<and> (rs \<noteq> [] \<longrightarrow> \<not> same_formatting r (hd rs))"
  by (cases rs) (auto simp: merge_inv_def)

text \<open>The first run of a merged list is the longest prefix of bytes with its formatting.\<close>

lemma merge_inv_first:
  assumes "merge_inv (r # rs)"
  shows "takeWhile (\<lambda>(c, f). f = (run_style r, run_link r)) (runs_bytes (r # rs)) = run_bytes r"
    and "dropWhile (\<lambda>(c, f). f = (run_style r, run_link r)) (runs_bytes (r # rs)) = runs_bytes rs"
proof -
  let ?P = "\<lambda>(c, f). f = (run_style r, run_link r)"
  have all: "\<forall>x \<in> set (run_bytes r). ?P x" by (auto simp: run_bytes_def)
  have rest: "takeWhile ?P (runs_bytes rs) = [] \<and> dropWhile ?P (runs_bytes rs) = runs_bytes rs"
  proof (cases rs)
    case Nil
    then show ?thesis by simp
  next
    case (Cons r' rs')
    with assms have "run_text r' \<noteq> []" "\<not> same_formatting r r'"
      by (auto simp: merge_inv_Cons)
    then obtain c cs where "run_text r' = c # cs" by (cases "run_text r'") auto
    with Cons \<open>\<not> same_formatting r r'\<close> show ?thesis
      by (auto simp: run_bytes_def same_formatting_def)
  qed
  show "takeWhile ?P (runs_bytes (r # rs)) = run_bytes r"
    "dropWhile ?P (runs_bytes (r # rs)) = runs_bytes rs"
    using all rest by (simp_all add: takeWhile_append dropWhile_append)
qed

lemma run_bytes_inj:
  assumes "run_bytes r = run_bytes r'" "run_text r \<noteq> []"
  shows "r = r'"
proof -
  have "map fst (run_bytes x) = run_text x" for x by (simp add: run_bytes_def comp_def)
  with assms(1) have t: "run_text r = run_text r'" by metis
  obtain c cs where r: "run_text r = c # cs" using assms(2) by (cases "run_text r") auto
  with t have r': "run_text r' = c # cs" by simp
  have "run_style r = run_style r'" "run_link r = run_link r'"
    using assms(1) unfolding run_bytes_def r r' by simp_all
  with t show ?thesis by (intro styled_run.equality) simp_all
qed

lemma merge_inv_unique:
  assumes "merge_inv rs" "merge_inv rs'" "runs_bytes rs = runs_bytes rs'"
  shows "rs = rs'"
  using assms
proof (induction rs arbitrary: rs')
  case Nil
  then show ?case by (cases rs') (auto simp: merge_inv_Cons)
next
  case (Cons r rs)
  from Cons.prems obtain c cs where rt: "run_text r = c # cs"
    by (cases "run_text r") (auto simp: merge_inv_Cons)
  with Cons.prems obtain r' rs1 where rs': "rs' = r' # rs1"
    by (cases rs') (auto simp: run_bytes_def)
  with Cons.prems obtain c' cs' where rt': "run_text r' = c' # cs'"
    by (cases "run_text r'") (auto simp: merge_inv_Cons)
  have fmt: "run_style r = run_style r' \<and> run_link r = run_link r'"
    using Cons.prems(3) rs' rt rt' by (simp add: run_bytes_def)
  then have "run_bytes r = run_bytes r'" "runs_bytes rs = runs_bytes rs1"
    using merge_inv_first [OF Cons.prems(1)] merge_inv_first [of r' rs1] Cons.prems(2,3) rs'
    by simp_all
  moreover have "rs = rs1"
    using Cons.prems rs' \<open>runs_bytes rs = runs_bytes rs1\<close>
    by (intro Cons.IH) (auto simp: merge_inv_Cons)
  ultimately show ?case using run_bytes_inj rs' rt by auto
qed

lemma merge_inv_bytes_Nil: "merge_inv rs \<Longrightarrow> runs_bytes rs = [] \<Longrightarrow> rs = []"
  by (cases rs) (simp_all add: merge_inv_Cons)

lemma norm_runs_unique:
  assumes "norm_runs rs" "norm_runs rs'" "runs_bytes rs = runs_bytes rs'"
  shows "rs = rs'"
  using assms merge_inv_unique merge_inv_bytes_Nil
  unfolding norm_runs_iff by (metis append_Nil run_bytes_plain_Nil runs_bytes_simps(1,2))

lemma normalize_runs_id: "norm_runs rs \<Longrightarrow> normalize_runs rs = rs"
  by (rule norm_runs_unique) (simp_all add: normalize_runs_norm normalize_runs_bytes)

section \<open>Blocks\<close>

lemma norm_empty_paragraph [simp]: "norm_block empty_paragraph"
  by (simp add: empty_paragraph_def norm_runs_def)

lemma normalize_block_norm: "norm_block (normalize_block b)"
  by (induction b) (auto simp: normalize_runs_norm list_all_iff empty_paragraph_def)

lemma normalize_block_id: "norm_block b \<Longrightarrow> normalize_block b = b"
  by (induction b) (auto simp: normalize_runs_id list_all_iff map_idI)

lemma normalize_block_idem [simp]: "normalize_block (normalize_block b) = normalize_block b"
  by (simp add: normalize_block_id normalize_block_norm)

lemma runs_text_bytes: "concat (map run_text rs) = map fst (runs_bytes rs)"
  by (induction rs) (simp_all add: run_bytes_def comp_def)

lemma normalize_runs_text: "concat (map run_text (normalize_runs rs)) = concat (map run_text rs)"
  by (simp add: runs_text_bytes normalize_runs_bytes)

lemma normalize_block_text: "flattened_text (normalize_block b) = flattened_text b"
proof (induction b)
  case (BlockQuote bs)
  have "flattened_text (normalize_block empty_paragraph) = []"
    by (simp add: empty_paragraph_def normalize_runs_text run_plain_def)
  with BlockQuote show ?case
    by (cases "bs = []") (simp_all add: join_lines_def comp_def cong: map_cong)
qed (simp_all add: normalize_runs_text)

section \<open>Normalization and the abstract view\<close>

text \<open>The blocks all of whose run texts are in a class of texts.\<close>

definition plain_runs :: "(string \<Rightarrow> bool) \<Rightarrow> styled_run list \<Rightarrow> bool" where
  "plain_runs plain rs \<longleftrightarrow> (\<forall>r \<in> set rs. plain (run_text r))"

fun plain_block :: "(string \<Rightarrow> bool) \<Rightarrow> block \<Rightarrow> bool" where
  "plain_block plain (Paragraph runs) = plain_runs plain runs"
| "plain_block plain (Heading _ runs) = plain_runs plain runs"
| "plain_block plain (ListItem _ _ runs) = plain_runs plain runs"
| "plain_block plain (BlockQuote bs) = list_all (plain_block plain) bs"
| "plain_block plain _ = True"

definition plain_doc :: "(string \<Rightarrow> bool) \<Rightarrow> document \<Rightarrow> bool" where
  "plain_doc plain d \<longleftrightarrow> list_all (plain_block plain) (blocks d)"

lemma plain_runs_simps [simp]:
  "plain_runs plain []"
  "plain_runs plain (r # rs) \<longleftrightarrow> plain (run_text r) \<and> plain_runs plain rs"
  "plain_runs plain (rs @ rs') \<longleftrightarrow> plain_runs plain rs \<and> plain_runs plain rs'"
  by (auto simp: plain_runs_def)

lemma plain_block_mk_inline [simp]: "plain_block plain (mk_inline s rs) = plain_runs plain rs"
  by (cases s) simp_all

lemma runs_bytes_content:
  assumes "segmentation g"
  shows "runs_bytes rs = concat (map (\<lambda>(c, f). map (\<lambda>x. (x, f)) c) (runs_content g rs))"
proof (induction rs)
  case Nil
  then show ?case by simp
next
  case (Cons r rs)
  have "concat (map (\<lambda>(c, f). map (\<lambda>x. (x, f)) c) (run_content g r))
      = map (\<lambda>x. (x, run_style r, run_link r)) (concat (g (run_text r)))"
    by (simp add: run_content_def comp_def map_concat)
  also have "\<dots> = run_bytes r"
    by (simp add: run_bytes_def segmentation.concat_clusters [OF assms])
  finally show ?case using Cons by simp
qed

text \<open>Two normal blocks with the same abstraction are equal.\<close>

lemma norm_block_unique:
  assumes "segmentation g"
  shows "norm_block b \<Longrightarrow> norm_block b' \<Longrightarrow> abs_block g b = abs_block g b' \<Longrightarrow> b = b'"
proof (induction b arbitrary: b')
  case (BlockQuote bs)
  then obtain bs' where b': "b' = BlockQuote bs'" by (cases b') auto
  with BlockQuote.prems have m: "map (abs_block g) bs = map (abs_block g) bs'"
    and n: "list_all norm_block bs" "list_all norm_block bs'" by auto
  have "bs = bs'"
  proof (rule nth_equalityI)
    show len: "length bs = length bs'" using m by (metis length_map)
    fix i assume i: "i < length bs"
    with m len have "abs_block g (bs ! i) = abs_block g (bs' ! i)" by (metis nth_map)
    then show "bs ! i = bs' ! i"
      using BlockQuote.IH [of "bs ! i" "bs' ! i"] n i len by (simp add: list_all_length)
  qed
  with b' show ?case by simp
qed (case_tac b'; use runs_bytes_content [OF assms] in \<open>auto intro: norm_runs_unique\<close>)+

context plain_segmentation
begin

lemma push_merge_content:
  assumes "plain_runs plain m" "plain (run_text r)"
  shows "runs_content g (push_merge m r) = runs_content g m @ run_content g r"
    and "plain_runs plain (push_merge m r)"
proof -
  have "runs_content g (push_merge m r) = runs_content g m @ run_content g r
      \<and> plain_runs plain (push_merge m r)"
  proof (cases m rule: rev_cases)
    case Nil
    with assms show ?thesis by (simp add: push_merge_def)
  next
    case (snoc m' l)
    with assms show ?thesis
      by (auto simp: push_merge_def run_content_def same_formatting_def clusters_append plain_append)
  qed
  then show "runs_content g (push_merge m r) = runs_content g m @ run_content g r"
    and "plain_runs plain (push_merge m r)" by simp_all
qed

lemma foldl_push_merge_content:
  assumes "plain_runs plain m" "plain_runs plain rs"
  shows "runs_content g (foldl push_merge m rs) = runs_content g m @ runs_content g rs
    \<and> plain_runs plain (foldl push_merge m rs)"
  using assms
  by (induction rs arbitrary: m) (simp_all add: push_merge_content)

lemma runs_content_filter: "runs_content g (non_empty_runs rs) = runs_content g rs"
  by (induction rs) (auto simp: run_is_empty_def)

lemma plain_runs_filter: "plain_runs plain rs \<Longrightarrow> plain_runs plain (filter P rs)"
  by (simp add: plain_runs_def)

lemma normalize_runs_content:
  assumes "plain_runs plain rs"
  shows "runs_content g (normalize_runs rs) = runs_content g rs"
    and "plain_runs plain (normalize_runs rs)"
proof -
  note f = foldl_push_merge_content [of "[]" "non_empty_runs rs", OF _ plain_runs_filter [OF assms]]
  show "runs_content g (normalize_runs rs) = runs_content g rs"
    using f runs_content_filter [of rs] by (auto simp: normalize_runs_eq)
  show "plain_runs plain (normalize_runs rs)"
    using f plain_Nil by (auto simp: normalize_runs_eq run_plain_def)
qed

lemma plain_empty_paragraph [simp]: "plain_block plain empty_paragraph"
  by (simp add: empty_paragraph_def run_plain_def plain_Nil)

lemma abs_empty_paragraph [simp]: "abs_block g empty_paragraph = AInline SParagraph []"
  by (simp add: empty_paragraph_def)

lemma normalize_block_abs:
  "plain_block plain b \<Longrightarrow>
    abs_block g (normalize_block b) = abs_block g b \<and> plain_block plain (normalize_block b)"
proof (induction b)
  case (BlockQuote bs)
  have "normalize_block empty_paragraph = empty_paragraph" by (simp add: normalize_block_id)
  with BlockQuote show ?case by (auto simp: list_all_iff)
qed (simp_all add: normalize_runs_content)

end

section \<open>Documents\<close>

text \<open>
  The counter never reaches the limit: it is at most the number of dirty indices, and the limit is
  42 times that number. So a batch is the map that normalizes the dirty blocks.
\<close>

lemma normalize_batch_nth:
  assumes "it + length dirty \<le> max_iter"
  shows "length (snd (normalize_batch max_iter it dirty bs)) = length bs
    \<and> (\<forall>i < length bs. snd (normalize_batch max_iter it dirty bs) ! i =
         (if i \<in> set dirty then normalize_block (bs ! i) else bs ! i))"
  using assms
  by (induction dirty arbitrary: it bs) (auto simp: nth_list_update)

lemma normalize_blocks_nth:
  assumes "blocks d \<noteq> []"
  shows "length (blocks (normalize_blocks d dirty)) = length (blocks d)"
    and "i < length (blocks d) \<Longrightarrow> blocks (normalize_blocks d dirty) ! i =
      (if i \<in> set dirty then normalize_block (blocks d ! i) else blocks d ! i)"
proof -
  define m where "m = max (length dirty * SAFETY_MULTIPLIER) 1"
  have m: "0 + length dirty \<le> m" "0 < m" by (simp_all add: m_def SAFETY_MULTIPLIER_def)
  note batch = normalize_batch_nth [OF m(1), of "blocks d"]
  have w: "normalize_while m 0 dirty (blocks d) = snd (normalize_batch m 0 dirty (blocks d))"
    using m(2) by (cases dirty) (simp_all add: split_def)
  have "snd (normalize_batch m 0 dirty (blocks d)) \<noteq> []" using batch assms by force
  then have "blocks (normalize_blocks d dirty) = snd (normalize_batch m 0 dirty (blocks d))"
    using assms unfolding normalize_blocks_def Let_def m_def [symmetric]
    by (simp add: ensure_block_def w del: normalize_while.simps)
  with batch
  show "length (blocks (normalize_blocks d dirty)) = length (blocks d)"
    and "i < length (blocks d) \<Longrightarrow> blocks (normalize_blocks d dirty) ! i =
      (if i \<in> set dirty then normalize_block (blocks d ! i) else blocks d ! i)"
    by simp_all
qed

lemma normalize_eq: "blocks (normalize d) = map normalize_block (ensure_block (blocks d))"
proof (rule nth_equalityI)
  let ?d = "d\<lparr>blocks := ensure_block (blocks d)\<rparr>"
  have ne: "blocks ?d \<noteq> []" by (simp add: ensure_block_def)
  note n = normalize_blocks_nth [OF ne]
  show len: "length (blocks (normalize d)) = length (map normalize_block (ensure_block (blocks d)))"
    using n(1) by (simp add: normalize_def Let_def)
  fix i assume "i < length (blocks (normalize d))"
  with len n(2) [of i] show "blocks (normalize d) ! i =
      map normalize_block (ensure_block (blocks d)) ! i"
    by (simp add: normalize_def Let_def)
qed

lemma normalize_norm: "norm_doc (normalize d)"
  by (simp add: norm_doc_def normalize_eq ensure_block_def list_all_iff normalize_block_norm)

lemma normalize_id: "norm_doc d \<Longrightarrow> normalize d = d"
  by (intro document.equality)
    (simp_all add: norm_doc_def normalize_eq ensure_block_def list_all_iff normalize_block_id map_idI)

lemma norm_doc_unique:
  assumes "segmentation g" "norm_doc d" "norm_doc d'" "abs_doc g d = abs_doc g d'"
  shows "d = d'"
proof -
  have "blocks d = blocks d'"
  proof (rule nth_equalityI)
    show len: "length (blocks d) = length (blocks d')"
      using assms(4) by (metis abs_doc_def length_map)
    fix i assume i: "i < length (blocks d)"
    then have "abs_block g (blocks d ! i) = abs_block g (blocks d' ! i)"
      using assms(4) len unfolding abs_doc_def by (metis nth_map)
    then show "blocks d ! i = blocks d' ! i"
      using norm_block_unique [OF assms(1)] assms(2,3) i len by (simp add: norm_doc_def list_all_length)
  qed
  then show ?thesis by (intro document.equality) simp_all
qed

context plain_segmentation
begin

lemma normalize_abs:
  assumes "plain_doc plain d" "blocks d \<noteq> []"
  shows "abs_doc g (normalize d) = abs_doc g d" "plain_doc plain (normalize d)"
  using assms normalize_block_abs
  by (simp_all add: abs_doc_def normalize_eq ensure_block_def plain_doc_def list_all_iff)

lemma normalize_blocks_abs:
  assumes "plain_doc plain d" "blocks d \<noteq> []"
  shows "abs_doc g (normalize_blocks d dirty) = abs_doc g d"
    and "plain_doc plain (normalize_blocks d dirty)"
  using assms normalize_block_abs normalize_blocks_nth [of d]
  by (auto simp: abs_doc_def plain_doc_def list_all_length intro!: nth_equalityI)

end

end
