(* ===== verification/RteOperations.thy ===== *)
theory RteOperations
  imports RteNormalize
begin

text \<open>
  The editing operations (\<^verbatim>\<open>crates/rte/src/operations.rs\<close>): the operation type, position
  maps, applying an operation to a document and inverting it. An \<open>apply\<close> function takes the
  document and returns the new one with its position map, or the panic.
\<close>

section \<open>Position maps\<close>

record pos_map_entry =
  old_offset :: nat
  old_len :: nat
  new_len :: nat

datatype structural_change =
    Split nat nat \<comment> \<open>block index, split offset\<close>
  | Merge nat nat \<comment> \<open>block index, merge offset\<close>
  | Insert nat nat \<comment> \<open>block index, count\<close>
  | Remove nat \<comment> \<open>block index\<close>
  | RemoveRange nat nat \<comment> \<open>block index, count\<close>
  | CrossBlockDelete nat nat nat \<comment> \<open>start block, removed count, start offset\<close>

record pos_map =
  pm_block_index :: nat
  pm_entries :: "pos_map_entry list"
  pm_structural :: "structural_change option"

definition pos_map_identity :: pos_map where
  "pos_map_identity = \<lparr>pm_block_index = 0, pm_entries = [], pm_structural = None\<rparr>"

fun map_structural :: "structural_change option \<Rightarrow> doc_position \<Rightarrow> doc_position" where
  "map_structural None p = p"
| "map_structural (Some (Split bi so)) p =
     (if block_index p = bi \<and> offset p > so then DocPosition (bi + 1) (offset p - so)
      else if block_index p > bi then DocPosition (block_index p + 1) (offset p)
      else p)"
| "map_structural (Some (Merge bi mo)) p =
     (if block_index p = bi then DocPosition (bi - 1) (offset p + mo)
      else if block_index p > bi then DocPosition (block_index p - 1) (offset p)
      else p)"
| "map_structural (Some (Insert bi n)) p =
     (if block_index p \<ge> bi then DocPosition (block_index p + n) (offset p) else p)"
| "map_structural (Some (Remove bi)) p =
     (if block_index p = bi then DocPosition bi 0
      else if block_index p > bi then DocPosition (block_index p - 1) (offset p)
      else p)"
| "map_structural (Some (RemoveRange bi n)) p =
     (if block_index p \<ge> bi \<and> block_index p < bi + n then DocPosition bi 0
      else if block_index p \<ge> bi + n then DocPosition (block_index p - n) (offset p)
      else p)"
| "map_structural (Some (CrossBlockDelete sb n so)) p =
     (if block_index p > sb \<and> block_index p \<le> sb + n then DocPosition sb so
      else if block_index p > sb + n then DocPosition (block_index p - n) (offset p)
      else p)"

fun map_entries_loop :: "pos_map_entry list \<Rightarrow> nat \<Rightarrow> nat" where
  "map_entries_loop [] off = off"
| "map_entries_loop (e # es) off =
     (if off \<le> old_offset e then off
      else if off < old_offset e + old_len e then old_offset e + new_len e
      else if new_len e \<ge> old_len e then map_entries_loop es (off + (new_len e - old_len e))
      else map_entries_loop es (off - (old_len e - new_len e)))"

definition map_entries :: "pos_map \<Rightarrow> doc_position \<Rightarrow> doc_position" where
  "map_entries m p =
     (if block_index p \<noteq> pm_block_index m \<or> pm_entries m = [] then p
      else DocPosition (block_index p) (map_entries_loop (pm_entries m) (offset p)))"

definition pos_map_map :: "pos_map \<Rightarrow> doc_position \<Rightarrow> doc_position" where
  "pos_map_map m p = map_entries m (map_structural (pm_structural m) p)"

section \<open>Operations\<close>

record deleted_content =
  del_blocks :: "block list"
  end_tail :: "block option"

datatype edit_op =
    InsertText doc_position string
  | DeleteRange doc_position doc_position deleted_content
  | SplitBlock doc_position
  | MergeBlocks nat block nat
  | ToggleInlineStyle doc_position doc_position inline_style
  | SetBlockType nat block_kind block_kind
  | SetBlockAttrs nat block_attrs block_attrs
  | InsertBlock nat block
  | RemoveBlock nat block
  | ReplaceBlock nat block block
  | RestoreMergedBlock nat block nat

type_synonym applied = "(document \<times> pos_map) res"

text \<open>A position map with no structural change.\<close>

definition flat_map :: "nat \<Rightarrow> pos_map_entry list \<Rightarrow> pos_map" where
  "flat_map bi es = \<lparr>pm_block_index = bi, pm_entries = es, pm_structural = None\<rparr>"

definition replaced :: "document \<Rightarrow> nat \<Rightarrow> block \<Rightarrow> document" where
  "replaced d i b = fst (replace_block d i b)"

text \<open>\<^verbatim>\<open>runs().unwrap_or(&[])\<close>\<close>

definition runs_or_empty :: "block \<Rightarrow> styled_run list" where
  "runs_or_empty b = (case block_runs b of None \<Rightarrow> [] | Some runs \<Rightarrow> runs)"

definition or_plain :: "styled_run list \<Rightarrow> styled_run list" where
  "or_plain runs = (if runs = [] then [run_plain []] else runs)"

subsection \<open>Run utilities\<close>

fun extract_runs_from_offset_loop :: "segmenter \<Rightarrow> nat \<Rightarrow> styled_run list \<Rightarrow> nat \<Rightarrow> styled_run list" where
  "extract_runs_from_offset_loop g pos [] off = []"
| "extract_runs_from_offset_loop g pos (r # rs) off =
     (let run_end = pos + run_char_len g r;
          rest = extract_runs_from_offset_loop g run_end rs off
      in if run_end \<le> off then rest
         else if pos \<ge> off then r # rest
         else let right = snd (run_split_at g r (off - pos))
              in if run_is_empty right then rest else right # rest)"

definition extract_runs_from_offset :: "segmenter \<Rightarrow> styled_run list \<Rightarrow> nat \<Rightarrow> styled_run list" where
  "extract_runs_from_offset g runs off = extract_runs_from_offset_loop g 0 runs off"

fun extract_runs_up_to_loop :: "segmenter \<Rightarrow> nat \<Rightarrow> styled_run list \<Rightarrow> nat \<Rightarrow> styled_run list" where
  "extract_runs_up_to_loop g pos [] off = []"
| "extract_runs_up_to_loop g pos (r # rs) off =
     (let len = run_char_len g r
      in if pos \<ge> off then []
         else
           let rest = extract_runs_up_to_loop g (pos + len) rs off
           in if pos + len \<le> off then r # rest
              else let left = fst (run_split_at g r (off - pos))
                   in if run_is_empty left then rest else left # rest)"

definition extract_runs_up_to :: "segmenter \<Rightarrow> styled_run list \<Rightarrow> nat \<Rightarrow> styled_run list" where
  "extract_runs_up_to g runs off = extract_runs_up_to_loop g 0 runs off"

fun truncate_runs_loop :: "segmenter \<Rightarrow> nat \<Rightarrow> styled_run list \<Rightarrow> nat \<Rightarrow> styled_run list" where
  "truncate_runs_loop g pos [] off = []"
| "truncate_runs_loop g pos (r # rs) off =
     (let len = run_char_len g r
      in if pos + len \<le> off then r # truncate_runs_loop g (pos + len) rs off
         else if pos \<ge> off then []
         else [fst (run_split_at g r (off - pos))])"

definition truncate_runs :: "segmenter \<Rightarrow> styled_run list \<Rightarrow> nat \<Rightarrow> styled_run list" where
  "truncate_runs g runs off = truncate_runs_loop g 0 runs off"

text \<open>The same loop as \<open>extract_runs\<close> in \<^verbatim>\<open>document.rs\<close>, repeated in \<^verbatim>\<open>operations.rs\<close>.\<close>

definition extract_runs_from_range :: "segmenter \<Rightarrow> styled_run list \<Rightarrow> nat \<Rightarrow> nat \<Rightarrow> styled_run list" where
  "extract_runs_from_range g runs s e =
     (if s \<ge> e then [run_plain []] else or_plain (extract_runs_from g 0 s e runs))"

fun split_runs_at_offset_loop ::
  "segmenter \<Rightarrow> nat \<Rightarrow> styled_run list \<Rightarrow> nat \<Rightarrow> styled_run list \<times> styled_run list" where
  "split_runs_at_offset_loop g pos [] off = ([], [])"
| "split_runs_at_offset_loop g pos (r # rs) off =
     (let len = run_char_len g r
      in if pos + len \<le> off then
           (let (left, right) = split_runs_at_offset_loop g (pos + len) rs off in (r # left, right))
         else if pos \<ge> off then ([], r # rs)
         else (let (l, rt) = run_split_at g r (off - pos) in ([l], rt # rs)))"

definition split_runs_at_offset ::
  "segmenter \<Rightarrow> styled_run list \<Rightarrow> nat \<Rightarrow> styled_run list \<times> styled_run list" where
  "split_runs_at_offset g runs off =
     (let (left, right) = split_runs_at_offset_loop g 0 runs off in (or_plain left, or_plain right))"

subsection \<open>InsertText\<close>

definition insert_str :: "string \<Rightarrow> nat \<Rightarrow> string \<Rightarrow> string" where
  "insert_str s b t = take b s @ t @ drop b s"

text \<open>The loop over run indices; \<open>done\<close> holds the runs already passed.\<close>

fun insert_text_loop ::
  "segmenter \<Rightarrow> styled_run list \<Rightarrow> nat \<Rightarrow> styled_run list \<Rightarrow> nat \<Rightarrow> string \<Rightarrow> styled_run list" where
  "insert_text_loop g done pos [] off t =
     (if done = [] then []
      else butlast done @ [(last done)\<lparr>run_text := run_text (last done) @ t\<rparr>])"
| "insert_text_loop g done pos (r # rs) off t =
     (let len = run_char_len g r
      in if off = pos \<and> done = [] \<and> run_link r \<noteq> None then
           \<lparr>run_text = t, run_style = run_style r, run_link = None\<rparr> # r # rs
         else if off = pos \<and> done \<noteq> [] then
           (if run_link (last done) \<noteq> None \<or> run_link r \<noteq> None then
              done @ \<lparr>run_text = t, run_style = run_style (last done), run_link = None\<rparr> # r # rs
            else butlast done @ (last done)\<lparr>run_text := run_text (last done) @ t\<rparr> # r # rs)
         else if off < pos + len then
           done @ r\<lparr>run_text :=
             insert_str (run_text r) (char_to_byte_offset g r (off - pos)) t\<rparr> # rs
         else if off = pos + len then
           (if run_link r \<noteq> None then
              done @ r # \<lparr>run_text = t, run_style = run_style r, run_link = None\<rparr> # rs
            else done @ r\<lparr>run_text := run_text r @ t\<rparr> # rs)
         else insert_text_loop g (done @ [r]) (pos + len) rs off t)"

definition insert_text_into_runs :: "segmenter \<Rightarrow> styled_run list \<Rightarrow> nat \<Rightarrow> string \<Rightarrow> styled_run list" where
  "insert_text_into_runs g runs off t = insert_text_loop g [] 0 runs off t"

definition apply_insert_text :: "segmenter \<Rightarrow> document \<Rightarrow> doc_position \<Rightarrow> string \<Rightarrow> applied" where
  "apply_insert_text g d p t =
     res_bind (expect ''InsertText: block_index out of bounds'' (doc_block d (block_index p))) (\<lambda>b.
       case block_runs b of
         None \<Rightarrow> Inr (d, flat_map (block_index p) [])
       | Some runs \<Rightarrow>
           Inr (replaced d (block_index p) (set_runs b (insert_text_into_runs g runs (offset p) t)),
                flat_map (block_index p)
                  [\<lparr>old_offset = offset p, old_len = 0, new_len = text_len g t\<rparr>]))"

subsection \<open>DeleteRange\<close>

definition apply_single_block_delete ::
  "segmenter \<Rightarrow> document \<Rightarrow> doc_position \<Rightarrow> doc_position \<Rightarrow> applied" where
  "apply_single_block_delete g d s e =
     (let bi = block_index s
      in res_bind (expect ''DeleteRange: block_index out of bounds'' (doc_block d bi)) (\<lambda>b.
           case block_runs b of
             None \<Rightarrow>
               (if offset s = 0 \<and> offset e \<ge> block_char_len g b then
                  (if block_count d = 1 then Inr (replaced d bi empty_paragraph, flat_map bi [])
                   else res_bind (vec_remove bi (blocks d)) (\<lambda>bs.
                     Inr (d\<lparr>blocks := bs\<rparr>,
                          \<lparr>pm_block_index = bi, pm_entries = [], pm_structural = Some (Remove bi)\<rparr>)))
                else Inr (d, flat_map bi []))
           | Some runs \<Rightarrow>
               res_bind (isolate_runs g runs (offset s) (offset e)) (\<lambda>(runs', si, ei).
                 let kept = (if si < ei then take si runs' @ drop ei runs' else runs')
                 in Inr (replaced d bi (set_runs b (or_plain kept)),
                         flat_map bi [\<lparr>old_offset = offset s, old_len = offset e - offset s,
                                       new_len = 0\<rparr>]))))"

definition build_cross_delete_replacement ::
  "segmenter \<Rightarrow> block \<Rightarrow> nat \<Rightarrow> block \<Rightarrow> nat \<Rightarrow> block option" where
  "build_cross_delete_replacement g sb so eb eo =
     (case block_runs sb of
        Some runs \<Rightarrow>
          let kept = truncate_runs g runs so;
              tail = (case block_runs eb of
                        Some end_runs \<Rightarrow> extract_runs_from_offset g end_runs eo
                      | None \<Rightarrow> [])
          in Some (set_runs sb (or_plain (kept @ tail)))
      | None \<Rightarrow>
          (case block_runs eb of
             None \<Rightarrow> None
           | Some end_runs \<Rightarrow>
               let tail = extract_runs_from_offset g end_runs eo
               in if tail = [] then None else Some (block_with_runs_like eb tail)))"

definition apply_cross_block_delete ::
  "segmenter \<Rightarrow> document \<Rightarrow> doc_position \<Rightarrow> doc_position \<Rightarrow> applied" where
  "apply_cross_block_delete g d s e =
     res_bind (expect ''DeleteRange: end block out of bounds'' (doc_block d (block_index e))) (\<lambda>eb.
     res_bind (expect ''DeleteRange: start block out of bounds'' (doc_block d (block_index s))) (\<lambda>sb.
       let include_end = is_inline_block eb \<or> offset e > 0;
           last_removed = (if include_end then block_index e else block_index e - 1)
       in case build_cross_delete_replacement g sb (offset s) eb (offset e) of
            Some new_block \<Rightarrow>
              let n = last_removed - block_index s
              in res_bind (vec_remove_n n (block_index s + 1)
                             (blocks (replaced d (block_index s) new_block))) (\<lambda>bs.
                   Inr (d\<lparr>blocks := bs\<rparr>,
                        \<lparr>pm_block_index = block_index s,
                         pm_entries = [\<lparr>old_offset = offset s, old_len = 0, new_len = 0\<rparr>],
                         pm_structural =
                           (if n > 0 then Some (CrossBlockDelete (block_index s) n (offset s))
                            else None)\<rparr>))
          | None \<Rightarrow>
              let n = last_removed - block_index s + 1
              in res_bind (vec_remove_n n (block_index s) (blocks d)) (\<lambda>bs.
                   Inr (d\<lparr>blocks := (if bs = [] then [empty_paragraph] else bs)\<rparr>,
                        \<lparr>pm_block_index = block_index s, pm_entries = [],
                         pm_structural = Some (RemoveRange (block_index s) n)\<rparr>))))"

text \<open>\<^verbatim>\<open>matches!(doc.block(0), Some(Block::Paragraph { runs }) if runs.iter().all(StyledRun::is_empty))\<close>\<close>

definition first_is_empty_paragraph :: "document \<Rightarrow> bool" where
  "first_is_empty_paragraph d =
     (case doc_block d 0 of Some (Paragraph runs) \<Rightarrow> list_all run_is_empty runs | _ \<Rightarrow> False)"

definition insert_map :: "nat \<Rightarrow> nat \<Rightarrow> nat \<Rightarrow> pos_map" where
  "insert_map bi at n = \<lparr>pm_block_index = bi, pm_entries = [], pm_structural = Some (Insert at n)\<rparr>"

definition apply_restore_deleted_from_atomic_start ::
  "document \<Rightarrow> doc_position \<Rightarrow> deleted_content \<Rightarrow> applied" where
  "apply_restore_deleted_from_atomic_start d p del =
     (let n = length (del_blocks del);
          insert_index = min (block_index p) (block_count d);
          last_deleted = last (del_blocks del);
          restored_end = (case end_tail del of
              Some tail \<Rightarrow>
                block_with_runs_like last_deleted (runs_or_empty last_deleted @ runs_or_empty tail)
            | None \<Rightarrow> last_deleted);
          restored = hd (del_blocks del) # butlast (tl (del_blocks del)) @ [restored_end];
          consumed = (end_tail del \<noteq> None)
      in res_bind (if consumed \<and> insert_index < block_count d
                   then vec_remove insert_index (blocks d) else Inr (blocks d)) (\<lambda>bs1.
         let d1 = d\<lparr>blocks := bs1\<rparr>;
             bs2 = (if block_count d1 = 1 \<and> first_is_empty_paragraph d1 \<and> insert_index = 0
                    then [] else bs1)
         in res_bind (vec_insert_all insert_index restored bs2) (\<lambda>bs3.
              Inr (d\<lparr>blocks := bs3\<rparr>, insert_map insert_index insert_index n))))"

definition apply_restore_deleted ::
  "segmenter \<Rightarrow> document \<Rightarrow> doc_position \<Rightarrow> deleted_content \<Rightarrow> applied" where
  "apply_restore_deleted g d p del =
     (let n = length (del_blocks del); first = hd (del_blocks del); bi = block_index p
      in if n = 1 then
           (if \<not> is_inline_block first then
              let insert_index = min bi (block_count d)
              in if block_count d = 1 \<and> insert_index = 0 \<and> first_is_empty_paragraph d
                 then Inr (replaced d 0 first, flat_map 0 [])
                 else res_bind (vec_insert insert_index first (blocks d)) (\<lambda>bs.
                        Inr (d\<lparr>blocks := bs\<rparr>, insert_map insert_index insert_index 1))
            else
              res_bind (expect ''RestoreDeleted: block out of bounds'' (doc_block d bi)) (\<lambda>b.
                let deleted_runs = runs_or_empty first;
                    b' = (case block_runs b of
                        None \<Rightarrow> b
                      | Some runs \<Rightarrow>
                          set_runs b (or_plain (extract_runs_up_to g runs (offset p) @ deleted_runs @
                            extract_runs_from_offset g runs (offset p))))
                in Inr (replaced d bi b',
                        flat_map bi [\<lparr>old_offset = offset p, old_len = 0,
                          new_len = sum_list (map (run_char_len g) deleted_runs)\<rparr>])))
         else if \<not> is_inline_block first then apply_restore_deleted_from_atomic_start d p del
         else
           res_bind (expect ''RestoreDeleted: block out of bounds'' (doc_block d bi)) (\<lambda>merged.
             let head_runs = extract_runs_up_to g (runs_or_empty merged) (offset p);
                 tail_runs = (case end_tail del of None \<Rightarrow> [] | Some t \<Rightarrow> runs_or_empty t);
                 start_block = block_with_runs_like first (or_plain (head_runs @ runs_or_empty first));
                 last_deleted = last (del_blocks del);
                 end_block = (if is_inline_block last_deleted
                   then block_with_runs_like last_deleted
                          (or_plain (runs_or_empty last_deleted @ tail_runs))
                   else last_deleted);
                 new_blocks = start_block # butlast (tl (del_blocks del)) @ [end_block]
             in res_bind (vec_remove bi (blocks d)) (\<lambda>bs.
                res_bind (vec_insert_all bi new_blocks bs) (\<lambda>bs'.
                  Inr (d\<lparr>blocks := bs'\<rparr>, insert_map bi bi n)))))"

definition apply_delete_range ::
  "segmenter \<Rightarrow> document \<Rightarrow> doc_position \<Rightarrow> doc_position \<Rightarrow> deleted_content \<Rightarrow> applied" where
  "apply_delete_range g d s e del =
     res_bind (rust_assert ''DeleteRange: start > end'' (s \<le> e)) (\<lambda>_.
       if s = e \<and> del_blocks del \<noteq> [] then apply_restore_deleted g d s del
       else if block_index s = block_index e then apply_single_block_delete g d s e
       else apply_cross_block_delete g d s e)"

subsection \<open>SplitBlock\<close>

fun split_block_at :: "segmenter \<Rightarrow> block \<Rightarrow> nat \<Rightarrow> block \<times> block" where
  "split_block_at g (Paragraph runs) off =
     (let (left, right) = split_runs_at_offset g runs off in (Paragraph left, Paragraph right))"
| "split_block_at g (Heading l runs) off =
     (let (left, right) = split_runs_at_offset g runs off in (Heading l left, Heading l right))"
| "split_block_at g (ListItem ord ind runs) off =
     (let (left, right) = split_runs_at_offset g runs off
      in (ListItem ord ind left, ListItem ord ind right))"
| "split_block_at g b off = (b, empty_paragraph)"

definition apply_split_block :: "segmenter \<Rightarrow> document \<Rightarrow> doc_position \<Rightarrow> applied" where
  "apply_split_block g d p =
     res_bind (expect ''SplitBlock: block out of bounds'' (doc_block d (block_index p))) (\<lambda>b.
       let (first, second) = split_block_at g b (offset p)
       in res_bind (vec_insert (block_index p + 1) second
                      (blocks (replaced d (block_index p) first))) (\<lambda>bs.
            Inr (d\<lparr>blocks := bs\<rparr>,
                 \<lparr>pm_block_index = block_index p, pm_entries = [],
                  pm_structural = Some (Split (block_index p) (offset p))\<rparr>)))"

subsection \<open>MergeBlocks and its restoration\<close>

fun merge_two_blocks :: "block \<Rightarrow> block \<Rightarrow> block" where
  "merge_two_blocks (Heading l runs) second = Heading l (or_plain (runs @ runs_or_empty second))"
| "merge_two_blocks (ListItem ord ind runs) second =
     ListItem ord ind (or_plain (runs @ runs_or_empty second))"
| "merge_two_blocks first second = Paragraph (or_plain (runs_or_empty first @ runs_or_empty second))"

definition apply_merge_blocks :: "segmenter \<Rightarrow> document \<Rightarrow> nat \<Rightarrow> nat \<Rightarrow> applied" where
  "apply_merge_blocks g d bi merge_offset =
     res_bind (rust_assert ''MergeBlocks: cannot merge block 0 (no previous block)'' (bi > 0)) (\<lambda>_.
     res_bind (rust_assert ''MergeBlocks: block_index out of bounds'' (bi < block_count d)) (\<lambda>_.
     res_bind (expect ''MergeBlocks: prev block out of bounds'' (doc_block d (bi - 1))) (\<lambda>prev.
     res_bind (expect ''MergeBlocks: block out of bounds'' (doc_block d bi)) (\<lambda>current.
       res_bind (vec_remove bi (blocks (replaced d (bi - 1) (merge_two_blocks prev current)))) (\<lambda>bs.
         Inr (d\<lparr>blocks := bs\<rparr>,
              \<lparr>pm_block_index = bi - 1,
               pm_entries = [\<lparr>old_offset = block_char_len g prev, old_len = 0, new_len = 0\<rparr>],
               pm_structural = Some (Merge bi (block_char_len g prev))\<rparr>))))))"

definition apply_restore_merged_block ::
  "segmenter \<Rightarrow> document \<Rightarrow> nat \<Rightarrow> block \<Rightarrow> nat \<Rightarrow> applied" where
  "apply_restore_merged_block g d bi saved merge_offset =
     (let mi = bi - 1
      in res_bind (expect ''RestoreMergedBlock: merged block out of bounds'' (doc_block d mi)) (\<lambda>merged.
           let left = block_with_runs_like merged
                 (extract_runs_up_to g (runs_or_empty merged) merge_offset)
           in res_bind (vec_insert bi saved (blocks (replaced d mi left))) (\<lambda>bs.
                Inr (d\<lparr>blocks := bs\<rparr>, insert_map mi bi 1))))"

subsection \<open>ToggleInlineStyle\<close>

fun runs_have_style ::
  "segmenter \<Rightarrow> inline_style \<Rightarrow> nat \<Rightarrow> nat \<Rightarrow> nat \<Rightarrow> styled_run list \<Rightarrow> bool" where
  "runs_have_style g flag bs be pos [] = True"
| "runs_have_style g flag bs be pos (r # rs) =
     (let len = run_char_len g r; run_end = pos + len
      in if run_end \<le> bs then runs_have_style g flag bs be run_end rs
         else if pos \<ge> be then True
         else if len > 0 \<and> \<not> style_contains (run_style r) flag then False
         else runs_have_style g flag bs be run_end rs)"

text \<open>The part of block \<open>bi\<close> that a range covers.\<close>

definition range_in_block :: "segmenter \<Rightarrow> doc_position \<Rightarrow> doc_position \<Rightarrow> nat \<Rightarrow> block \<Rightarrow> nat \<times> nat" where
  "range_in_block g s e bi b =
     (if bi = block_index s then offset s else 0,
      if bi = block_index e then offset e else block_char_len g b)"

definition block_has_style ::
  "segmenter \<Rightarrow> doc_position \<Rightarrow> doc_position \<Rightarrow> inline_style \<Rightarrow> nat \<Rightarrow> block \<Rightarrow> bool" where
  "block_has_style g s e flag bi b =
     (case block_runs b of
        None \<Rightarrow> True
      | Some runs \<Rightarrow>
          let (bs, be) = range_in_block g s e bi b in runs_have_style g flag bs be 0 runs)"

definition all_text_has_style ::
  "segmenter \<Rightarrow> document \<Rightarrow> doc_position \<Rightarrow> doc_position \<Rightarrow> inline_style \<Rightarrow> bool" where
  "all_text_has_style g d s e flag =
     list_all (\<lambda>bi.
       case doc_block d bi of
         None \<Rightarrow> True
       | Some b \<Rightarrow> block_has_style g s e flag bi b)
       [block_index s..<block_index e + 1]"

definition restyle :: "bool \<Rightarrow> inline_style \<Rightarrow> styled_run \<Rightarrow> styled_run" where
  "restyle should_remove flag r =
     r\<lparr>run_style := (if should_remove then style_remove flag (run_style r)
                     else style_insert flag (run_style r))\<rparr>"

definition toggle_block ::
  "segmenter \<Rightarrow> doc_position \<Rightarrow> doc_position \<Rightarrow> inline_style \<Rightarrow> bool \<Rightarrow> nat \<Rightarrow> document \<Rightarrow> document res" where
  "toggle_block g s e flag should_remove bi d =
     (case doc_block d bi of
        None \<Rightarrow> Inr d
      | Some b \<Rightarrow>
          (case block_runs b of
             None \<Rightarrow> Inr d
           | Some runs \<Rightarrow>
               let (bs, be) = range_in_block g s e bi b
               in if bs \<ge> be then Inr d
                  else res_bind (isolate_runs g runs bs be) (\<lambda>(runs', si, ei).
                         Inr (replaced d bi (set_runs b
                           (take si runs' @ map (restyle should_remove flag) (drop si (take ei runs')) @
                            drop ei runs'))))))"

fun toggle_blocks ::
  "segmenter \<Rightarrow> doc_position \<Rightarrow> doc_position \<Rightarrow> inline_style \<Rightarrow> bool \<Rightarrow> nat list \<Rightarrow> document \<Rightarrow> document res" where
  "toggle_blocks g s e flag should_remove [] d = Inr d"
| "toggle_blocks g s e flag should_remove (bi # bis) d =
     res_bind (toggle_block g s e flag should_remove bi d) (toggle_blocks g s e flag should_remove bis)"

definition apply_toggle_inline_style ::
  "segmenter \<Rightarrow> document \<Rightarrow> doc_position \<Rightarrow> doc_position \<Rightarrow> inline_style \<Rightarrow> applied" where
  "apply_toggle_inline_style g d s e flag =
     res_bind (rust_assert ''ToggleInlineStyle: empty range'' (s < e)) (\<lambda>_.
       let should_remove = all_text_has_style g d s e flag
       in res_bind (toggle_blocks g s e flag should_remove [block_index s..<block_index e + 1] d) (\<lambda>d'.
            Inr (d', flat_map (block_index s) [])))"

subsection \<open>SetBlockType, SetBlockAttrs, InsertBlock, RemoveBlock, ReplaceBlock\<close>

fun set_type_runs :: "block \<Rightarrow> styled_run list" where
  "set_type_runs (BlockQuote bs) = (case bs of [] \<Rightarrow> [] | b # _ \<Rightarrow> runs_or_empty b)"
| "set_type_runs b = runs_or_empty b"

fun block_of_kind :: "block_kind \<Rightarrow> styled_run list \<Rightarrow> string \<Rightarrow> block" where
  "block_of_kind KParagraph runs flat = Paragraph runs"
| "block_of_kind (KHeading l) runs flat = Heading l runs"
| "block_of_kind (KListItem ord) runs flat = ListItem ord 0 runs"
| "block_of_kind KBlockQuote runs flat = BlockQuote [Paragraph runs]"
| "block_of_kind KHorizontalRule runs flat = HorizontalRule"
| "block_of_kind KImage runs flat = Image [] flat None None"

definition apply_set_block_type :: "document \<Rightarrow> nat \<Rightarrow> block_kind \<Rightarrow> applied" where
  "apply_set_block_type d bi new =
     res_bind (expect ''SetBlockType: block out of bounds'' (doc_block d bi)) (\<lambda>b.
       Inr (replaced d bi (block_of_kind new (or_plain (set_type_runs b)) (flattened_text b)),
            flat_map bi []))"

definition apply_set_block_attrs :: "document \<Rightarrow> nat \<Rightarrow> block_attrs \<Rightarrow> applied" where
  "apply_set_block_attrs d bi new =
     res_bind (expect ''SetBlockAttrs: block out of bounds'' (doc_block d bi)) (\<lambda>b.
       Inr (case with_attrs b new of Some b' \<Rightarrow> replaced d bi b' | None \<Rightarrow> d, flat_map bi []))"

definition apply_insert_block :: "document \<Rightarrow> nat \<Rightarrow> block \<Rightarrow> applied" where
  "apply_insert_block d i b = res_bind (insert_block d i b) (\<lambda>d'. Inr (d', insert_map i i 1))"

definition apply_remove_block :: "document \<Rightarrow> nat \<Rightarrow> applied" where
  "apply_remove_block d i =
     res_bind (if i < block_count d then remove_block d i else Inr (d, None)) (\<lambda>(d', removed).
       Inr (d', \<lparr>pm_block_index = i, pm_entries = [],
                 pm_structural = (if removed \<noteq> None then Some (Remove i) else None)\<rparr>))"

definition apply_replace_block :: "document \<Rightarrow> nat \<Rightarrow> block \<Rightarrow> applied" where
  "apply_replace_block d i b =
     (case replace_block d i b of
        (d', old) \<Rightarrow>
          res_bind (expect ''ReplaceBlock: block out of bounds'' old) (\<lambda>_. Inr (d', flat_map i [])))"

subsection \<open>Apply and invert\<close>

fun apply_op :: "segmenter \<Rightarrow> edit_op \<Rightarrow> document \<Rightarrow> applied" where
  "apply_op g (InsertText p t) d = apply_insert_text g d p t"
| "apply_op g (DeleteRange s e del) d = apply_delete_range g d s e del"
| "apply_op g (SplitBlock p) d = apply_split_block g d p"
| "apply_op g (MergeBlocks bi saved mo) d = apply_merge_blocks g d bi mo"
| "apply_op g (ToggleInlineStyle s e flag) d = apply_toggle_inline_style g d s e flag"
| "apply_op g (SetBlockType bi old new) d = apply_set_block_type d bi new"
| "apply_op g (SetBlockAttrs bi old new) d = apply_set_block_attrs d bi new"
| "apply_op g (InsertBlock i b) d = apply_insert_block d i b"
| "apply_op g (RemoveBlock i saved) d = apply_remove_block d i"
| "apply_op g (ReplaceBlock i old new) d = apply_replace_block d i new"
| "apply_op g (RestoreMergedBlock bi saved mo) d = apply_restore_merged_block g d bi saved mo"

definition invert_delete_range :: "doc_position \<Rightarrow> doc_position \<Rightarrow> deleted_content \<Rightarrow> edit_op" where
  "invert_delete_range s e del = DeleteRange s s del"

fun invert_inner :: "segmenter \<Rightarrow> document option \<Rightarrow> edit_op \<Rightarrow> edit_op" where
  "invert_inner g doc (InsertText p t) =
     (let n = text_len g t;
          e = DocPosition (block_index p) (offset p + n);
          deleted_runs =
            (case Option.bind (Option.bind doc (\<lambda>d. doc_block d (block_index p))) block_runs of
               Some runs \<Rightarrow> extract_runs_from_range g runs (offset p) (offset p + n)
             | None \<Rightarrow> [run_plain t])
      in DeleteRange p e \<lparr>del_blocks = [Paragraph deleted_runs], end_tail = None\<rparr>)"
| "invert_inner g doc (DeleteRange s e del) = invert_delete_range s e del"
| "invert_inner g doc (SplitBlock p) = MergeBlocks (block_index p + 1) empty_paragraph (offset p)"
| "invert_inner g doc (MergeBlocks bi saved mo) = RestoreMergedBlock bi saved mo"
| "invert_inner g doc (ToggleInlineStyle s e flag) = ToggleInlineStyle s e flag"
| "invert_inner g doc (SetBlockType bi old new) = SetBlockType bi new old"
| "invert_inner g doc (SetBlockAttrs bi old new) = SetBlockAttrs bi new old"
| "invert_inner g doc (InsertBlock i b) = RemoveBlock i b"
| "invert_inner g doc (RemoveBlock i saved) = InsertBlock i saved"
| "invert_inner g doc (ReplaceBlock i old new) = ReplaceBlock i new old"
| "invert_inner g doc (RestoreMergedBlock bi saved mo) = MergeBlocks bi saved mo"

definition invert :: "segmenter \<Rightarrow> edit_op \<Rightarrow> edit_op" where
  "invert g op = invert_inner g None op"

definition invert_with_doc :: "segmenter \<Rightarrow> document \<Rightarrow> edit_op \<Rightarrow> edit_op" where
  "invert_with_doc g d op = invert_inner g (Some d) op"

end
