(* ===== verification/RustStr.thy ===== *)
theory RustStr
  imports RteText
begin

text \<open>
  The part of Rust's \<^verbatim>\<open>str\<close> API the sources use, on the UTF-8 bytes of the string:
  characters, \<^verbatim>\<open>trim\<close> with the Unicode White_Space characters, and the lemmas about them.
\<close>

definition is_continuation :: "char \<Rightarrow> bool" where
  "is_continuation c \<longleftrightarrow> (let n = of_char c :: nat in 128 \<le> n \<and> n < 192)"

text \<open>\<^verbatim>\<open>str::chars\<close>, each character as its bytes.\<close>

definition utf8_chars :: "string \<Rightarrow> string list" where
  "utf8_chars s = extend_segments is_continuation s"

text \<open>\<^verbatim>\<open>char::is_whitespace\<close>: the White_Space property.\<close>

definition is_whitespace :: "string \<Rightarrow> bool" where
  "is_whitespace c \<longleftrightarrow>
     (case map of_char c :: nat list of
        [n] \<Rightarrow> (9 \<le> n \<and> n \<le> 13) \<or> n = 32
      | [m, n] \<Rightarrow> m = 0xC2 \<and> (n = 0x85 \<or> n = 0xA0)
      | [l, m, n] \<Rightarrow>
          (l = 0xE1 \<and> m = 0x9A \<and> n = 0x80) \<or>
          (l = 0xE2 \<and> m = 0x80 \<and> ((0x80 \<le> n \<and> n \<le> 0x8A) \<or> n = 0xA8 \<or> n = 0xA9 \<or> n = 0xAF)) \<or>
          (l = 0xE2 \<and> m = 0x81 \<and> n = 0x9F) \<or>
          (l = 0xE3 \<and> m = 0x80 \<and> n = 0x80)
      | _ \<Rightarrow> False)"

definition trim_start :: "string \<Rightarrow> string" where
  "trim_start s = concat (dropWhile is_whitespace (utf8_chars s))"

definition trim_end :: "string \<Rightarrow> string" where
  "trim_end s = concat (rev (dropWhile is_whitespace (rev (utf8_chars s))))"

definition trim :: "string \<Rightarrow> string" where
  "trim s = trim_end (trim_start s)"

text \<open>ASCII lower-casing of a byte.\<close>

definition ascii_lower_char :: "char \<Rightarrow> char" where
  "ascii_lower_char c =
     (let n = of_char c :: nat in if 65 \<le> n \<and> n \<le> 90 then char_of (n + 32) else c)"

text \<open>\<^verbatim>\<open>char::is_control\<close>: the general category Cc.\<close>

definition is_control :: "string \<Rightarrow> bool" where
  "is_control c \<longleftrightarrow>
     (case map of_char c :: nat list of
        [n] \<Rightarrow> n < 32 \<or> n = 127
      | [m, n] \<Rightarrow> m = 0xC2 \<and> 0x80 \<le> n \<and> n < 0xA0
      | _ \<Rightarrow> False)"

text \<open>\<^verbatim>\<open>str::split_whitespace\<close>, on the characters.\<close>

function white_tokens :: "string list \<Rightarrow> string list list" where
  "white_tokens cs =
     (let rest = dropWhile is_whitespace cs
      in if rest = [] then []
         else takeWhile (\<lambda>c. \<not> is_whitespace c) rest #
              white_tokens (dropWhile (\<lambda>c. \<not> is_whitespace c) rest))"
  by pat_completeness auto
termination
proof (relation "measure length")
  fix cs rest :: "string list"
  assume rest: "rest = dropWhile is_whitespace cs" "rest \<noteq> []"
  then have "\<not> is_whitespace (hd rest)" by (metis hd_dropWhile)
  then have "length (dropWhile (\<lambda>c. \<not> is_whitespace c) rest) < length rest"
    using rest(2) by (cases rest) (auto simp: length_dropWhile_le le_imp_less_Suc)
  then show "(dropWhile (\<lambda>c. \<not> is_whitespace c) rest, cs) \<in> measure length"
    using rest(1) length_dropWhile_le [of is_whitespace cs] by simp
qed simp

declare white_tokens.simps [simp del]

text \<open>\<^verbatim>\<open>str::starts_with\<close>, \<^verbatim>\<open>str::strip_prefix\<close> and \<^verbatim>\<open>str::strip_suffix\<close>.\<close>

definition starts_with :: "string \<Rightarrow> string \<Rightarrow> bool" where
  "starts_with p s \<longleftrightarrow> take (length p) s = p"

definition strip_prefix :: "string \<Rightarrow> string \<Rightarrow> string option" where
  "strip_prefix p s = (if take (length p) s = p then Some (drop (length p) s) else None)"

definition strip_suffix :: "string \<Rightarrow> string \<Rightarrow> string option" where
  "strip_suffix p s = map_option rev (strip_prefix (rev p) (rev s))"

text \<open>\<^verbatim>\<open>str::split\<close> at a character, and \<^verbatim>\<open>str::split_once\<close> at a string.\<close>

fun split_char :: "char \<Rightarrow> string \<Rightarrow> string list" where
  "split_char sep [] = [[]]"
| "split_char sep (c # cs) =
     (if c = sep then [] # split_char sep cs
      else case split_char sep cs of p # ps \<Rightarrow> (c # p) # ps | [] \<Rightarrow> [[c]])"

fun split_once :: "string \<Rightarrow> string \<Rightarrow> (string \<times> string) option" where
  "split_once sep s =
     (case strip_prefix sep s of
        Some r \<Rightarrow> Some ([], r)
      | None \<Rightarrow>
          (case s of
             [] \<Rightarrow> None
           | c # cs \<Rightarrow> map_option (\<lambda>(a, b). (c # a, b)) (split_once sep cs)))"

declare split_once.simps [simp del]

lemma split_char_none: "sep \<notin> set s \<Longrightarrow> split_char sep s = [s]"
  by (induction s) auto

lemma split_char_append: "sep \<notin> set a \<Longrightarrow> split_char sep (a @ sep # b) = a # split_char sep b"
  by (induction a) auto

lemma concat_utf8_chars [simp]: "concat (utf8_chars s) = s"
  by (simp add: utf8_chars_def concat_extend_segments)

lemma length_trim_start: "length (trim_start s) \<le> length s"
proof -
  have "s = concat (takeWhile is_whitespace (utf8_chars s)) @ trim_start s"
    by (simp add: trim_start_def flip: concat_append)
  then show ?thesis by (metis le_add2 length_append)
qed

lemma length_trim_end: "length (trim_end s) \<le> length s"
proof -
  let ?r = "rev (utf8_chars s)"
  have "concat (rev (dropWhile is_whitespace ?r)) @ concat (rev (takeWhile is_whitespace ?r))
      = concat (rev (takeWhile is_whitespace ?r @ dropWhile is_whitespace ?r))"
    by (simp del: takeWhile_dropWhile_id)
  then have "trim_end s @ concat (rev (takeWhile is_whitespace ?r)) = s"
    by (simp add: trim_end_def)
  then show ?thesis by (metis le_add1 length_append)
qed

lemma length_trim: "length (trim s) \<le> length s"
  using length_trim_start length_trim_end le_trans unfolding trim_def by blast

lemma trim_Nil [simp]: "trim [] = []" "trim_start [] = []"
  by (simp_all add: trim_def trim_start_def trim_end_def utf8_chars_def)

lemma starts_with_append [simp]: "starts_with p (p @ s)"
  by (simp add: starts_with_def)

lemma strip_prefix_Some [simp]: "strip_prefix p s = Some r \<longleftrightarrow> s = p @ r"
  by (auto simp: strip_prefix_def) (metis append_take_drop_id)

lemma strip_prefix_append [simp]: "strip_prefix p (p @ r) = Some r"
  by simp

lemma strip_prefix_None: "strip_prefix p s = None \<longleftrightarrow> (\<forall>r. s \<noteq> p @ r)"
  by (metis not_None_eq strip_prefix_Some)

section \<open>Trimming\<close>

text \<open>Dropping from both ends, on lists.\<close>

definition drop_ends :: "('a \<Rightarrow> bool) \<Rightarrow> 'a list \<Rightarrow> 'a list" where
  "drop_ends P xs = rev (dropWhile P (rev (dropWhile P xs)))"

lemma dropWhile_hd: "xs = [] \<or> \<not> P (hd xs) \<Longrightarrow> dropWhile P xs = xs"
  by (cases xs) auto

lemma rev_dropWhile_prefix: "\<exists>zs. xs = rev (dropWhile P (rev xs)) @ zs"
  by (metis rev_append rev_rev_ident takeWhile_dropWhile_id)

lemma drop_ends_start: "dropWhile P (drop_ends P xs) = drop_ends P xs"
proof (rule dropWhile_hd)
  let ?ys = "dropWhile P xs"
  obtain zs where "?ys = drop_ends P xs @ zs"
    using rev_dropWhile_prefix [of ?ys P] by (auto simp: drop_ends_def)
  then show "drop_ends P xs = [] \<or> \<not> P (hd (drop_ends P xs))"
    by (metis append_is_Nil_conv hd_append2 hd_dropWhile)
qed

lemma drop_ends_end: "rev (dropWhile P (rev (drop_ends P xs))) = drop_ends P xs"
  by (simp add: drop_ends_def)

lemma drop_ends_swap: "dropWhile P (rev (dropWhile P (rev xs))) = drop_ends P xs"
proof (cases "dropWhile P xs = []")
  case True
  then have "\<forall>x \<in> set xs. P x" by simp
  then have r: "dropWhile P (rev xs) = []" by simp
  show ?thesis unfolding drop_ends_def True r by simp
next
  case False
  let ?t = "takeWhile P xs" and ?ys = "dropWhile P xs"
  from False have "hd ?ys \<in> set ?ys" "\<not> P (hd ?ys)" by (simp_all add: hd_dropWhile)
  then have ex: "\<exists>x \<in> set (rev ?ys). \<not> P x" by auto
  have "dropWhile P (rev xs) = dropWhile P (rev ?ys @ rev ?t)"
    by (metis rev_append takeWhile_dropWhile_id)
  also have "\<dots> = dropWhile P (rev ?ys) @ rev ?t" using ex by (meson dropWhile_append1)
  finally have "rev (dropWhile P (rev xs)) = ?t @ drop_ends P xs" by (simp add: drop_ends_def)
  moreover have "dropWhile P (?t @ drop_ends P xs) = dropWhile P (drop_ends P xs)"
    by (metis dropWhile_append2 set_takeWhileD)
  ultimately show ?thesis by (simp add: drop_ends_start)
qed

lemma drop_ends_append:
  "(\<exists>x \<in> set ys. \<not> P x) \<Longrightarrow> rev (dropWhile P (rev (xs @ ys))) = xs @ rev (dropWhile P (rev ys))"
  by (metis dropWhile_append1 rev_append rev_rev_ident set_rev)

lemma utf8_chars_trim_start: "utf8_chars (trim_start s) = dropWhile is_whitespace (utf8_chars s)"
  unfolding trim_start_def utf8_chars_def by (metis dropWhile_eq_drop extend_segments_split)

lemma utf8_chars_trim_end: "utf8_chars (trim_end s) = rev (dropWhile is_whitespace (rev (utf8_chars s)))"
proof -
  obtain zs where "utf8_chars s = rev (dropWhile is_whitespace (rev (utf8_chars s))) @ zs"
    using rev_dropWhile_prefix by blast
  then have "rev (dropWhile is_whitespace (rev (utf8_chars s))) =
      take (length (rev (dropWhile is_whitespace (rev (utf8_chars s))))) (utf8_chars s)"
    by (metis append_eq_conv_conj)
  then show ?thesis unfolding trim_end_def utf8_chars_def by (metis extend_segments_split)
qed

lemma utf8_chars_trim: "utf8_chars (trim s) = drop_ends is_whitespace (utf8_chars s)"
  by (simp add: trim_def utf8_chars_trim_end utf8_chars_trim_start drop_ends_def)

lemma utf8_chars_inj: "utf8_chars s = utf8_chars t \<Longrightarrow> s = t"
  by (metis concat_utf8_chars)

lemma trim_start_idem [simp]: "trim_start (trim_start s) = trim_start s"
  by (rule utf8_chars_inj) (simp add: utf8_chars_trim_start)

lemma trim_start_trim [simp]: "trim_start (trim s) = trim s"
  by (rule utf8_chars_inj) (simp add: utf8_chars_trim_start utf8_chars_trim drop_ends_start)

lemma trim_idem [simp]: "trim (trim s) = trim s"
  by (rule utf8_chars_inj)
    (simp add: utf8_chars_trim drop_ends_def [of _ "drop_ends _ _"] drop_ends_start drop_ends_end)

lemma trim_start_trim_end: "trim_start (trim_end s) = trim s"
  by (rule utf8_chars_inj) (simp add: utf8_chars_trim utf8_chars_trim_start utf8_chars_trim_end drop_ends_swap)

lemma trim_end_prefix: "\<exists>z. s = trim_end s @ z"
proof -
  obtain zs where "utf8_chars s = rev (dropWhile is_whitespace (rev (utf8_chars s))) @ zs"
    using rev_dropWhile_prefix by blast
  then have "s = trim_end s @ concat zs" unfolding trim_end_def by (metis concat_append concat_utf8_chars)
  then show ?thesis ..
qed

section \<open>ASCII\<close>

definition is_ascii :: "string \<Rightarrow> bool" where
  "is_ascii s \<longleftrightarrow> list_all (\<lambda>c. (of_char c :: nat) < 128) s"

lemma utf8_chars_ascii: "is_ascii s \<Longrightarrow> utf8_chars s = map (\<lambda>c. [c]) s"
proof (induction s)
  case (Cons c s)
  then have "takeWhile is_continuation s = []" "dropWhile is_continuation s = s"
    by (cases s; simp add: is_ascii_def is_continuation_def)+
  with Cons show ?case by (simp add: utf8_chars_def is_ascii_def)
qed (simp add: utf8_chars_def)

lemma utf8_chars_append:
  "\<not> starts_extending is_continuation b \<Longrightarrow> utf8_chars (a @ b) = utf8_chars a @ utf8_chars b"
  by (simp add: utf8_chars_def extend_segments_append)

lemma is_ascii_append [simp]: "is_ascii (a @ b) \<longleftrightarrow> is_ascii a \<and> is_ascii b"
  by (simp add: is_ascii_def)

lemma trim_ascii:
  assumes "is_ascii s" "s \<noteq> []" "\<not> is_whitespace [hd s]" "\<not> is_whitespace [last s]"
  shows "trim s = s"
proof (rule utf8_chars_inj)
  have "dropWhile is_whitespace (map (\<lambda>c. [c]) s) = map (\<lambda>c. [c]) s"
    by (rule dropWhile_hd) (use assms in \<open>simp add: hd_map\<close>)
  moreover have "dropWhile is_whitespace (rev (map (\<lambda>c. [c]) s)) = rev (map (\<lambda>c. [c]) s)"
    by (rule dropWhile_hd) (use assms in \<open>simp add: hd_rev last_map\<close>)
  ultimately show "utf8_chars (trim s) = utf8_chars s"
    using assms(1) by (simp add: utf8_chars_trim drop_ends_def utf8_chars_ascii)
qed

end
