(* ===== verification/RteRules.thy ===== *)
theory RteRules
  imports RteOperations RustStr
begin

text \<open>
  The rules engine (\<^verbatim>\<open>crates/rte/src/rules.rs\<close>): what a user action means at a selection, as a
  list of operations. \<open>resolve\<close> returns a result because \<open>resolve_insert\<close> applies the deletion of
  the selection to a scratch copy of the document, which can panic on an invalid selection.
\<close>

unbundle bit_operations_syntax

datatype edit_action =
    AInsertText string
  | ADeleteBackward
  | ADeleteForward
  | ADeleteSelection
  | ASplitBlock
  | AToggleInlineStyle inline_style
  | ASetBlockType block_kind

section \<open>Helpers\<close>

text \<open>The extraction loop once more, as \<^verbatim>\<open>rules.rs\<close> repeats it.\<close>

definition extract_deleted_runs :: "segmenter \<Rightarrow> styled_run list \<Rightarrow> nat \<Rightarrow> nat \<Rightarrow> styled_run list" where
  "extract_deleted_runs g runs s e =
     (if s \<ge> e then [run_plain []] else or_plain (extract_runs_from g 0 s e runs))"

definition runs_are_effectively_empty :: "styled_run list \<Rightarrow> bool" where
  "runs_are_effectively_empty runs = list_all run_is_empty runs"

definition block_is_atomic_at :: "document \<Rightarrow> nat \<Rightarrow> bool" where
  "block_is_atomic_at d bi =
     (case doc_block d bi of None \<Rightarrow> False | Some b \<Rightarrow> is_atomic_block b)"

definition remove_or_clear_block :: "document \<Rightarrow> nat \<Rightarrow> edit_op" where
  "remove_or_clear_block d bi =
     (let b = (case doc_block d bi of None \<Rightarrow> empty_paragraph | Some b \<Rightarrow> b)
      in if block_count d \<le> 1 then ReplaceBlock bi b empty_paragraph else RemoveBlock bi b)"

text \<open>The two walks of \<^verbatim>\<open>find_link_boundaries\<close>, from the anchor run outwards.\<close>

fun link_start_idx :: "styled_run list \<Rightarrow> string \<Rightarrow> nat \<Rightarrow> nat" where
  "link_start_idx runs href 0 = 0"
| "link_start_idx runs href (Suc i) =
     (if run_link (runs ! i) = Some href then link_start_idx runs href i else Suc i)"

function link_end_idx :: "styled_run list \<Rightarrow> string \<Rightarrow> nat \<Rightarrow> nat" where
  "link_end_idx runs href i =
     (if i + 1 < length runs \<and> run_link (runs ! (i + 1)) = Some href
      then link_end_idx runs href (i + 1) else i)"
  by pat_completeness auto

termination
  by (relation "measure (\<lambda>(runs, href, i). length runs - i)") auto

declare link_end_idx.simps [simp del]

definition runs_len :: "segmenter \<Rightarrow> styled_run list \<Rightarrow> nat" where
  "runs_len g runs = sum_list (map (run_char_len g) runs)"

definition find_link_boundaries ::
  "segmenter \<Rightarrow> document \<Rightarrow> doc_position \<Rightarrow> (doc_position \<times> doc_position) option" where
  "find_link_boundaries g d p =
     Option.bind (doc_block d (block_index p)) (\<lambda>b.
     Option.bind (block_runs b) (\<lambda>runs.
       if runs = [] then None
       else Option.bind (resolve_offset g b (offset p)) (\<lambda>(run_idx, offset_in_run).
         let run = runs ! run_idx
         in Option.bind
              (case run_link run of
                 Some h \<Rightarrow> Some h
               | None \<Rightarrow>
                   if offset_in_run = 0 \<and> run_idx > 0 then run_link (runs ! (run_idx - 1)) else None)
              (\<lambda>href.
                let anchor_idx = (if run_link run = Some href then run_idx else run_idx - 1);
                    si = link_start_idx runs href anchor_idx;
                    ei = link_end_idx runs href anchor_idx;
                    so = runs_len g (take si runs);
                    eo = so + runs_len g (drop si (take (ei + 1) runs))
                in Some (DocPosition (block_index p) so, DocPosition (block_index p) eo)))))"

section \<open>Deleting a selection\<close>

definition post_delete_position :: "document \<Rightarrow> doc_selection \<Rightarrow> doc_position" where
  "post_delete_position d sel =
     (let start = sel_start sel
      in if offset start > 0 \<and> block_index start + 1 < block_count d \<and>
            block_is_atomic_at d (block_index start)
         then DocPosition (block_index start + 1) 0
         else start)"

definition build_deleted_content ::
  "segmenter \<Rightarrow> document \<Rightarrow> doc_position \<Rightarrow> doc_position \<Rightarrow> deleted_content" where
  "build_deleted_content g d s e =
     (if block_index s = block_index e then
        \<lparr>del_blocks =
           [case doc_block d (block_index s) of
              None \<Rightarrow> empty_paragraph
            | Some b \<Rightarrow>
                (case block_runs b of
                   Some runs \<Rightarrow> block_with_runs_like b (extract_deleted_runs g runs (offset s) (offset e))
                 | None \<Rightarrow>
                     if offset s = 0 \<and> offset e \<ge> block_char_len g b then b else empty_paragraph)],
         end_tail = None\<rparr>
      else
        let first = (case doc_block d (block_index s) of
              None \<Rightarrow> []
            | Some sb \<Rightarrow>
                (case block_runs sb of
                   Some runs \<Rightarrow>
                     [block_with_runs_like sb
                        (extract_deleted_runs g runs (offset s) (block_char_len g sb))]
                 | None \<Rightarrow> if offset s = 0 then [sb] else []));
            middle = List.map_filter (doc_block d) [block_index s + 1..<block_index e];
            (final, tail) = (case doc_block d (block_index e) of
              None \<Rightarrow> ([], None)
            | Some eb \<Rightarrow>
                (case block_runs eb of
                   Some runs \<Rightarrow>
                     let head_runs = extract_deleted_runs g runs 0 (offset e);
                         tail_runs = extract_deleted_runs g runs (offset e) (block_char_len g eb)
                     in ([block_with_runs_like eb head_runs],
                         if \<not> runs_are_effectively_empty tail_runs
                         then Some (block_with_runs_like eb tail_runs) else None)
                 | None \<Rightarrow> (if offset e > 0 then [eb] else [], None)));
            bs = first @ middle @ final
        in \<lparr>del_blocks = (if bs = [] then [empty_paragraph] else bs), end_tail = tail\<rparr>)"

definition build_delete_selection :: "segmenter \<Rightarrow> document \<Rightarrow> doc_selection \<Rightarrow> edit_op list" where
  "build_delete_selection g d sel =
     (let s = post_delete_position d sel; e = sel_end sel
      in if s \<ge> e then [] else [DeleteRange s e (build_deleted_content g d s e)])"

definition resolve_delete_selection :: "segmenter \<Rightarrow> document \<Rightarrow> doc_selection \<Rightarrow> edit_op list" where
  "resolve_delete_selection g d sel =
     (if is_collapsed sel then [] else build_delete_selection g d sel)"

section \<open>Inserting text\<close>

definition last_style :: "styled_run list \<Rightarrow> inline_style" where
  "last_style runs = (if runs = [] then 0 else run_style (last runs))"

definition resolve_style_at :: "segmenter \<Rightarrow> document \<Rightarrow> doc_position \<Rightarrow> inline_style" where
  "resolve_style_at g d p =
     (case doc_block d (block_index p) of
        None \<Rightarrow> 0
      | Some b \<Rightarrow>
          (case block_runs b of
             None \<Rightarrow> 0
           | Some runs \<Rightarrow>
               if runs = [] then 0
               else case resolve_offset g b (offset p) of
                 None \<Rightarrow> last_style runs
               | Some (run_idx, offset_in_run) \<Rightarrow>
                   let run = runs ! run_idx
                   in if offset_in_run = 0 \<and> run_idx > 0 then
                        let prev_run = runs ! (run_idx - 1)
                        in if run_link prev_run \<noteq> None then run_style run else run_style prev_run
                      else run_style run))"

text \<open>Right affinity: the run whose characters include the one at the offset.\<close>

fun style_at_scan :: "segmenter \<Rightarrow> nat \<Rightarrow> nat \<Rightarrow> styled_run list \<Rightarrow> inline_style option" where
  "style_at_scan g off pos [] = None"
| "style_at_scan g off pos (r # rs) =
     (if off < pos + run_char_len g r then Some (run_style r)
      else style_at_scan g off (pos + run_char_len g r) rs)"

definition style_at_position :: "segmenter \<Rightarrow> document \<Rightarrow> doc_position \<Rightarrow> inline_style" where
  "style_at_position g d p =
     (case Option.bind (doc_block d (block_index p)) block_runs of
        None \<Rightarrow> 0
      | Some runs \<Rightarrow>
          (case style_at_scan g (offset p) 0 runs of Some s \<Rightarrow> s | None \<Rightarrow> last_style runs))"

text \<open>The first run that contains the offset or ends at it.\<close>

fun run_style_scan :: "segmenter \<Rightarrow> nat \<Rightarrow> nat \<Rightarrow> styled_run list \<Rightarrow> inline_style option" where
  "run_style_scan g off pos [] = None"
| "run_style_scan g off pos (r # rs) =
     (if off \<ge> pos \<and> off \<le> pos + run_char_len g r then Some (run_style r)
      else run_style_scan g off (pos + run_char_len g r) rs)"

definition run_style_at :: "segmenter \<Rightarrow> document \<Rightarrow> doc_position \<Rightarrow> inline_style" where
  "run_style_at g d p =
     (case Option.bind (doc_block d (block_index p)) block_runs of
        None \<Rightarrow> 0
      | Some runs \<Rightarrow>
          if runs = [] then 0
          else case run_style_scan g (offset p) 0 runs of Some s \<Rightarrow> s | None \<Rightarrow> last_style runs)"

text \<open>Applying operations one after the other, without their position maps.\<close>

fun apply_ops :: "segmenter \<Rightarrow> edit_op list \<Rightarrow> document \<Rightarrow> document res" where
  "apply_ops g [] d = Inr d"
| "apply_ops g (op # ops) d = res_bind (apply_op g op d) (\<lambda>(d', _). apply_ops g ops d')"

definition resolve_insert ::
  "segmenter \<Rightarrow> document \<Rightarrow> doc_selection \<Rightarrow> string \<Rightarrow> inline_style \<Rightarrow> edit_op list res" where
  "resolve_insert g d sel t pending =
     res_bind
       (if is_collapsed sel then
          let p = focus sel
          in Inr ([], d, p, if pending = 0 then resolve_style_at g d p else pending)
        else
          let p = post_delete_position d sel;
              style = (if pending = 0 then style_at_position g d p else pending);
              delete_ops = build_delete_selection g d sel
          in res_bind (apply_ops g delete_ops d) (\<lambda>scratch. Inr (delete_ops, scratch, p, style)))
       (\<lambda>(ops, target_doc, p, style).
          let diff = style XOR run_style_at g target_doc p;
              e = DocPosition (block_index p) (offset p + text_len g t)
          in Inr (ops @ InsertText p t #
                  (if diff = 0 then [] else map (ToggleInlineStyle p e) (style_iter diff))))"

section \<open>Backspace and Delete\<close>

definition resolve_merge_backward :: "segmenter \<Rightarrow> document \<Rightarrow> nat \<Rightarrow> edit_op list" where
  "resolve_merge_backward g d bi =
     (if bi = 0 then []
      else case (doc_block d bi, doc_block d (bi - 1)) of
        (Some cur, Some prev) \<Rightarrow>
          if \<not> is_inline_block cur \<or> \<not> is_inline_block prev then []
          else [MergeBlocks bi cur (block_char_len g prev)]
      | _ \<Rightarrow> [])"

definition resolve_delete_char_backward :: "segmenter \<Rightarrow> document \<Rightarrow> doc_position \<Rightarrow> edit_op list" where
  "resolve_delete_char_backward g d p =
     (case doc_block d (block_index p) of
        None \<Rightarrow> []
      | Some b \<Rightarrow>
          (case block_runs b of
             None \<Rightarrow> []
           | Some runs \<Rightarrow>
               let prev_off = offset p - 1
               in if prev_off \<ge> block_char_len g b then []
                  else [DeleteRange (DocPosition (block_index p) prev_off) p
                          \<lparr>del_blocks = [block_with_runs_like b
                             (extract_deleted_runs g runs prev_off (offset p))],
                           end_tail = None\<rparr>]))"

definition resolve_delete_backward :: "segmenter \<Rightarrow> document \<Rightarrow> doc_selection \<Rightarrow> edit_op list" where
  "resolve_delete_backward g d sel =
     (if \<not> is_collapsed sel then build_delete_selection g d sel
      else
        let p = focus sel
        in if block_index p = 0 \<and> offset p = 0 then []
           else if offset p = 0 then
             (case doc_block d (block_index p - 1) of
                Some prev \<Rightarrow>
                  if is_atomic_block prev then [RemoveBlock (block_index p - 1) prev]
                  else resolve_merge_backward g d (block_index p)
              | None \<Rightarrow> resolve_merge_backward g d (block_index p))
           else if block_is_atomic_at d (block_index p) then [remove_or_clear_block d (block_index p)]
           else resolve_delete_char_backward g d p)"

definition resolve_merge_forward :: "segmenter \<Rightarrow> document \<Rightarrow> nat \<Rightarrow> edit_op list" where
  "resolve_merge_forward g d bi =
     (if bi + 1 \<ge> block_count d then []
      else case (doc_block d (bi + 1), doc_block d bi) of
        (Some nxt, Some cur) \<Rightarrow>
          if \<not> is_inline_block nxt \<or> \<not> is_inline_block cur then []
          else [MergeBlocks (bi + 1) nxt (block_char_len g cur)]
      | _ \<Rightarrow> [])"

definition resolve_delete_char_forward :: "segmenter \<Rightarrow> document \<Rightarrow> doc_position \<Rightarrow> edit_op list" where
  "resolve_delete_char_forward g d p =
     (case doc_block d (block_index p) of
        None \<Rightarrow> []
      | Some b \<Rightarrow>
          (case block_runs b of
             None \<Rightarrow> []
           | Some runs \<Rightarrow>
               if offset p \<ge> block_char_len g b then []
               else [DeleteRange p (DocPosition (block_index p) (offset p + 1))
                       \<lparr>del_blocks = [block_with_runs_like b
                          (extract_deleted_runs g runs (offset p) (offset p + 1))],
                        end_tail = None\<rparr>]))"

definition resolve_delete_forward :: "segmenter \<Rightarrow> document \<Rightarrow> doc_selection \<Rightarrow> edit_op list" where
  "resolve_delete_forward g d sel =
     (if \<not> is_collapsed sel then build_delete_selection g d sel
      else
        let p = focus sel
        in case doc_block d (block_index p) of
             None \<Rightarrow> []
           | Some b \<Rightarrow>
               let at_block_end = (offset p \<ge> block_char_len g b);
                   is_last_block = (block_index p \<ge> block_count d - 1)
               in if at_block_end \<and> is_last_block then []
                  else if at_block_end then
                    (case doc_block d (block_index p + 1) of
                       Some nxt \<Rightarrow>
                         if is_atomic_block nxt then [RemoveBlock (block_index p + 1) nxt]
                         else resolve_merge_forward g d (block_index p)
                     | None \<Rightarrow> resolve_merge_forward g d (block_index p))
                  else if block_is_atomic_at d (block_index p) \<and> offset p = 0 then
                    [remove_or_clear_block d (block_index p)]
                  else resolve_delete_char_forward g d p)"

section \<open>Enter, style toggles, block types\<close>

fun is_image :: "block \<Rightarrow> bool" where
  "is_image (Image _ _ _ _) = True"
| "is_image _ = False"

text \<open>The list item rule: every run is blank.\<close>

fun is_blank_list_item :: "block \<Rightarrow> bool" where
  "is_blank_list_item (ListItem _ _ runs) = list_all (\<lambda>r. trim (run_text r) = []) runs"
| "is_blank_list_item _ = False"

definition resolve_split_block :: "segmenter \<Rightarrow> document \<Rightarrow> doc_selection \<Rightarrow> edit_op list" where
  "resolve_split_block g d sel =
     (let (ops, p) = (if \<not> is_collapsed sel
            then (build_delete_selection g d sel, post_delete_position d sel)
            else ([], focus sel))
      in case doc_block d (block_index p) of
           None \<Rightarrow> ops
         | Some b \<Rightarrow>
             if is_image b then ops @ [InsertBlock (block_index p + 1) empty_paragraph]
             else if is_blank_list_item b then ops @ [SetBlockType (block_index p) (kind b) KParagraph]
             else case b of
               Heading l runs \<Rightarrow>
                 if offset p \<ge> block_char_len g b
                 then ops @ [SplitBlock p, SetBlockType (block_index p + 1) (KHeading l) KParagraph]
                 else ops @ [SplitBlock p]
             | _ \<Rightarrow> ops @ [SplitBlock p])"

definition resolve_toggle_style ::
  "segmenter \<Rightarrow> document \<Rightarrow> doc_selection \<Rightarrow> inline_style \<Rightarrow> edit_op list" where
  "resolve_toggle_style g d sel style =
     (if is_collapsed sel then
        (case find_link_boundaries g d (focus sel) of
           Some (s, e) \<Rightarrow> [ToggleInlineStyle s e style]
         | None \<Rightarrow> [])
      else
        let s = sel_start sel; e = sel_end sel
        in if s = e then [] else [ToggleInlineStyle s e style])"

definition resolve_set_block_type :: "document \<Rightarrow> doc_selection \<Rightarrow> block_kind \<Rightarrow> edit_op list" where
  "resolve_set_block_type d sel k =
     (let bi = block_index (focus sel)
      in case doc_block d bi of
           None \<Rightarrow> []
         | Some b \<Rightarrow>
             let current = kind b;
                 new = (if current = k then KParagraph else k)
             in if current = new then []
                else if current = KHorizontalRule \<or> current = KImage then []
                else if new = KHorizontalRule \<or> new = KImage \<or> new = KBlockQuote then []
                else [SetBlockType bi current new])"

fun resolve ::
  "segmenter \<Rightarrow> document \<Rightarrow> doc_selection \<Rightarrow> edit_action \<Rightarrow> inline_style \<Rightarrow> edit_op list res" where
  "resolve g d sel (AInsertText t) pending = resolve_insert g d sel t pending"
| "resolve g d sel ADeleteBackward pending = Inr (resolve_delete_backward g d sel)"
| "resolve g d sel ADeleteForward pending = Inr (resolve_delete_forward g d sel)"
| "resolve g d sel ADeleteSelection pending = Inr (resolve_delete_selection g d sel)"
| "resolve g d sel ASplitBlock pending = Inr (resolve_split_block g d sel)"
| "resolve g d sel (AToggleInlineStyle s) pending = Inr (resolve_toggle_style g d sel s)"
| "resolve g d sel (ASetBlockType k) pending = Inr (resolve_set_block_type d sel k)"

end
