(* ===== verification/RteOpsContent.thy ===== *)
theory RteOpsContent
  imports RteRules
begin

text \<open>
  What the operations of \<open>RteOperations\<close> do to the abstract view of a document: each one is a
  list operation on styled clusters or on the block list.
\<close>

section \<open>Run utilities\<close>

lemma runs_or_empty_mk_inline [simp]: "runs_or_empty (mk_inline s runs) = runs"
  by (simp add: runs_or_empty_def)

lemma or_plain_nonempty [simp]: "or_plain rs \<noteq> []"
  by (simp add: or_plain_def)

lemma or_plain_id: "rs \<noteq> [] \<Longrightarrow> or_plain rs = rs"
  by (simp add: or_plain_def)

lemma merge_two_blocks_inline [simp]:
  "merge_two_blocks (mk_inline s runs) b = mk_inline s (or_plain (runs @ runs_or_empty b))"
  by (cases s) (simp_all add: runs_or_empty_def)

lemma split_block_at_inline [simp]:
  "split_block_at g (mk_inline s runs) off =
    (let (l, r) = split_runs_at_offset g runs off in (mk_inline s l, mk_inline s r))"
  by (cases s) simp_all

lemma split_block_at_atomic: "is_atomic_block b \<Longrightarrow> split_block_at g b off = (b, empty_paragraph)"
  by (cases b) (simp_all add: is_atomic_block_def)

lemma extract_runs_from_range_eq: "extract_runs_from_range = extract_runs"
  by (intro ext) (simp add: extract_runs_from_range_def extract_runs_def or_plain_def Let_def)

context segmentation
begin

lemma or_plain_content [simp]: "runs_content g (or_plain rs) = runs_content g rs"
  by (simp add: or_plain_def)

lemma run_split_at_fst: "run_content g (fst (run_split_at g r n)) = take n (run_content g r)"
  by (metis prod.collapse run_split_at_content(1))

lemma run_split_at_snd: "run_content g (snd (run_split_at g r n)) = drop n (run_content g r)"
  by (metis prod.collapse run_split_at_content(2))

lemmas run_split_content = run_split_at_fst run_split_at_snd

lemma run_split_at_empty [simp]:
  "run_text (fst (run_split_at g r n)) = [] \<longleftrightarrow> n = 0 \<or> run_text r = []"
  "run_text (snd (run_split_at g r n)) = [] \<longleftrightarrow> run_char_len g r \<le> n"
  using run_split_at_fst [of r n] run_split_at_snd [of r n]
  by (metis run_content_empty take_eq_Nil, metis drop_eq_Nil length_run_content run_content_empty)

lemma extract_runs_from_offset_loop_content:
  "runs_content g (extract_runs_from_offset_loop g pos rs off) = drop (off - pos) (runs_content g rs)"
  by (induction rs arbitrary: pos) (auto simp: Let_def run_split_content run_is_empty_def)

lemma extract_runs_from_offset_content [content_simps]:
  "runs_content g (extract_runs_from_offset g rs off) = drop off (runs_content g rs)"
  by (simp add: extract_runs_from_offset_def extract_runs_from_offset_loop_content)

lemma extract_runs_up_to_loop_content:
  "runs_content g (extract_runs_up_to_loop g pos rs off) = take (off - pos) (runs_content g rs)"
proof (induction rs arbitrary: pos)
  case Nil
  then show ?case by simp
next
  case (Cons r rs)
  then show ?case by (simp add: Let_def run_split_content run_is_empty_def)
qed

lemma extract_runs_up_to_content [content_simps]:
  "runs_content g (extract_runs_up_to g rs off) = take off (runs_content g rs)"
  by (simp add: extract_runs_up_to_def extract_runs_up_to_loop_content)

lemma truncate_runs_loop_content:
  "runs_content g (truncate_runs_loop g pos rs off) = take (off - pos) (runs_content g rs)"
  by (induction rs arbitrary: pos) (simp_all add: Let_def run_split_content)

lemma truncate_runs_content [content_simps]:
  "runs_content g (truncate_runs g rs off) = take off (runs_content g rs)"
  by (simp add: truncate_runs_def truncate_runs_loop_content)

lemma split_runs_at_offset_loop_content:
  "split_runs_at_offset_loop g pos rs off = (l, r) \<Longrightarrow>
    runs_content g l = take (off - pos) (runs_content g rs) \<and>
    runs_content g r = drop (off - pos) (runs_content g rs)"
proof (induction rs arbitrary: pos l r)
  case Nil
  then show ?case by simp
next
  case (Cons x rs)
  show ?case
  proof (cases "pos + run_char_len g x \<le> off")
    case True
    with Cons.prems obtain l1 where
      "split_runs_at_offset_loop g (pos + run_char_len g x) rs off = (l1, r)" "l = x # l1"
      by (auto simp: Let_def split: prod.splits)
    with Cons.IH True show ?thesis by simp
  next
    case False
    obtain a b where ab: "run_split_at g x (off - pos) = (a, b)" by fastforce
    with False Cons.prems show ?thesis
      by (auto simp: Let_def run_split_at_content [OF ab] split: if_splits)
  qed
qed

lemma split_runs_at_offset_content [content_simps]:
  assumes "split_runs_at_offset g rs off = (l, r)"
  shows "runs_content g l = take off (runs_content g rs)"
    and "runs_content g r = drop off (runs_content g rs)"
  using assms split_runs_at_offset_loop_content [of 0 rs off]
  by (auto simp: split_runs_at_offset_def split: prod.splits)

lemma extract_runs_from_offset_empty:
  "extract_runs_from_offset g rs off = [] \<longleftrightarrow> drop off (runs_content g rs) = []"
proof -
  have "pos \<le> off \<Longrightarrow>
    extract_runs_from_offset_loop g pos rs off = [] \<longleftrightarrow> drop (off - pos) (runs_content g rs) = []" for pos
    by (induction rs arbitrary: pos) (auto simp: Let_def run_is_empty_def)
  from this [of 0] show ?thesis by (simp add: extract_runs_from_offset_def)
qed

text \<open>The kept runs of an isolated range: the content without the range.\<close>

lemma isolate_runs_drain:
  assumes "isolate_runs g rs s e = Inr (rs', si, ei)" "s \<le> e"
  shows "runs_content g (if si < ei then take si rs' @ drop ei rs' else rs')
    = take s (runs_content g rs) @ drop e (runs_content g rs)"
proof (cases "rs = [] \<or> s = e")
  case True
  with assms show ?thesis by (auto simp: isolate_runs_def)
next
  case False
  with assms have "s < e" "rs \<noteq> []" by auto
  note i = isolate_runs_content [OF assms(1) this]
  show ?thesis
  proof (cases "si < ei")
    case True
    with i show ?thesis by simp
  next
    case False
    with i(1) have "take si rs' @ drop ei rs' = rs'" by simp
    with False i(3,5) show ?thesis by (metis runs_content_simps(3))
  qed
qed

end

section \<open>Inserting text\<close>

text \<open>
  When no cluster joins across the insertion, the clusters of the text appear at the offset, with
  one formatting.
\<close>

definition cluster_of :: "inline_style \<Rightarrow> string option \<Rightarrow> string \<Rightarrow> styled_cluster" where
  "cluster_of st lk c = (c, st, lk)"

lemma run_content_cluster_of: "run_content g r = map (cluster_of (run_style r) (run_link r)) (g (run_text r))"
  by (simp add: run_content_def cluster_of_def)

lemma run_content_new [simp]:
  "run_content g \<lparr>run_text = t, run_style = st, run_link = lk\<rparr> = map (cluster_of st lk) (g t)"
  by (simp add: run_content_cluster_of)

text \<open>The style the inserted text takes on is the one \<open>run_style_at\<close> predicts.\<close>

definition inherited_style :: "segmenter \<Rightarrow> styled_run list \<Rightarrow> nat \<Rightarrow> inline_style" where
  "inherited_style g runs off =
     (case run_style_scan g off 0 runs of Some s \<Rightarrow> s | None \<Rightarrow> last_style runs)"

context plain_segmentation
begin

lemma run_content_append:
  assumes "plain (run_text r)" "plain t"
  shows "run_content g (r\<lparr>run_text := run_text r @ t\<rparr>) =
    run_content g r @ map (cluster_of (run_style r) (run_link r)) (g t)"
  using assms by (simp add: run_content_cluster_of clusters_append)

lemma run_content_insert:
  assumes "plain (run_text r)" "plain t"
  shows "run_content g (r\<lparr>run_text := insert_str (run_text r) (char_to_byte_offset g r n) t\<rparr>) =
      take n (run_content g r) @ map (cluster_of (run_style r) (run_link r)) (g t) @
      drop n (run_content g r)"
    and "plain (insert_str (run_text r) (char_to_byte_offset g r n) t)"
  using assms
  by (simp_all add: run_content_cluster_of insert_str_def char_to_byte_offset_def clusters_append
      plain_append plain_take_byte plain_drop_byte clusters_take_byte clusters_drop_byte
      take_map drop_map)

lemma insert_text_loop_content:
  assumes "plain t" "plain_runs plain done" "plain_runs plain rs" "done \<noteq> [] \<or> rs \<noteq> []"
    and "length (runs_content g done) = pos" "done \<noteq> [] \<longrightarrow> pos < off"
  shows "\<exists>lk. runs_content g (insert_text_loop g done pos rs off t) =
      take off (runs_content g (done @ rs)) @
      map (cluster_of (case run_style_scan g off pos rs of Some s \<Rightarrow> s | None \<Rightarrow> last_style (done @ rs)) lk) (g t) @
      drop off (runs_content g (done @ rs))
    \<and> plain_runs plain (insert_text_loop g done pos rs off t)"
  using assms
proof (induction rs arbitrary: "done" pos)
  case Nil
  then obtain d' l where "done = d' @ [l]" by (metis rev_exhaust)
  with Nil show ?case
    by (intro exI [of _ "run_link l"])
      (simp add: run_content_append plain_append last_style_def)
next
  case (Cons r rs)
  let ?len = "run_char_len g r"
  have pos: "pos \<le> off" using Cons.prems(5,6) by (cases "done") auto
  consider (link0) "off = pos" "done = []" "run_link r \<noteq> None"
    | (inside) "\<not> (off = pos \<and> done \<noteq> [])" "\<not> (off = pos \<and> done = [] \<and> run_link r \<noteq> None)"
        "off < pos + ?len"
    | (at_end) "\<not> (off = pos \<and> done \<noteq> [])" "\<not> (off = pos \<and> done = [] \<and> run_link r \<noteq> None)"
        "off = pos + ?len"
    | (past) "off > pos + ?len"
    using Cons.prems(6) by linarith
  then show ?case
  proof cases
    case link0
    with Cons.prems show ?thesis
      by (intro exI [of _ None]) simp
  next
    case inside
    with Cons.prems have "insert_text_loop g done pos (r # rs) off t =
        done @ r\<lparr>run_text := insert_str (run_text r) (char_to_byte_offset g r (off - pos)) t\<rparr> # rs"
      by (auto simp: Let_def)
    with inside pos Cons.prems show ?thesis
      by (intro exI [of _ "run_link r"])
        (simp add: run_content_insert del: insert_text_loop.simps)
  next
    case at_end
    show ?thesis
    proof (cases "run_link r \<noteq> None")
      case True
      with at_end Cons.prems have "insert_text_loop g done pos (r # rs) off t =
          done @ r # \<lparr>run_text = t, run_style = run_style r, run_link = None\<rparr> # rs"
        by (auto simp: Let_def)
      with at_end(3) Cons.prems show ?thesis
        by (intro exI [of _ None]) (simp del: insert_text_loop.simps)
    next
      case False
      with at_end Cons.prems have "insert_text_loop g done pos (r # rs) off t =
          done @ r\<lparr>run_text := run_text r @ t\<rparr> # rs"
        by (auto simp: Let_def)
      with at_end(3) False Cons.prems show ?thesis
        by (intro exI [of _ None])
          (simp add: run_content_append plain_append del: insert_text_loop.simps)
    qed
  next
    case past
    with Cons.prems have "insert_text_loop g done pos (r # rs) off t =
        insert_text_loop g (done @ [r]) (pos + ?len) rs off t"
      by (auto simp: Let_def)
    with Cons.IH [of "done @ [r]" "pos + ?len"] past Cons.prems show ?thesis
      by (simp cong: option.case_cong)
  qed
qed

lemma insert_text_into_runs_content:
  assumes "plain t" "plain_runs plain rs" "rs \<noteq> []"
  shows "\<exists>lk. runs_content g (insert_text_into_runs g rs off t) =
      take off (runs_content g rs) @ map (cluster_of (inherited_style g rs off) lk) (g t) @
      drop off (runs_content g rs)
    \<and> plain_runs plain (insert_text_into_runs g rs off t)"
  using insert_text_loop_content [of t "[]" rs 0 off] assms
  by (simp add: insert_text_into_runs_def inherited_style_def cong: option.case_cong)

end

end
