(* ===== verification/RteOpsAbs.thy ===== *)
theory RteOpsAbs
  imports RteOpsContent
begin

text \<open>
  The operations on whole documents, in the abstract view: which operation succeeds is decided by
  the abstract block list, and the abstract result is a function of it (for \<open>InsertText\<close> up to
  the formatting the text inherits). Two documents with the same abstraction therefore stay in
  step under the same operations, however their runs are cut.
\<close>

section \<open>Replacing a block\<close>

lemma blocks_replaced [simp]: "blocks (replaced d i b) = (blocks d)[i := b]"
  by (auto simp: replaced_def replace_block_def get_None_iff list_update_beyond split: option.splits)

lemma abs_doc_replaced [simp]: "abs_doc g (replaced d i b) = (abs_doc g d)[i := abs_block g b]"
  by (simp add: abs_doc_def map_update)

lemma abs_doc_blocks_upd [simp]: "abs_doc g (d\<lparr>blocks := bs\<rparr>) = map (abs_block g) bs"
  by (simp add: abs_doc_def)

lemma abs_inlineD:
  assumes "get (abs_doc g d) i = Some (AInline sh c)"
  obtains runs where "doc_block d i = Some (mk_inline sh runs)" "runs_content g runs = c"
proof -
  from assms obtain b where b: "doc_block d i = Some b" "abs_block g b = AInline sh c"
    by (auto simp: get_abs_doc)
  then obtain runs where "block_runs b = Some runs" by (cases b) auto
  with b have "b = mk_inline sh runs" "runs_content g runs = c"
    using block_runs_SomeD abs_block_inline [of b runs g] by auto
  with b that show ?thesis by blast
qed

lemma doc_block_less: "doc_block d i = Some b \<Longrightarrow> i < length (blocks d)"
  by (simp add: doc_block_def get_Some_iff)

lemma get_abs_less: "get (abs_doc g d) i = Some a \<Longrightarrow> i < length (blocks d)"
  by (auto simp: get_abs_doc dest: doc_block_less)

text \<open>The abstract block sequence with the blocks from \<open>i\<close> on, \<open>n\<close> of them, replaced.\<close>

definition splice_at :: "nat \<Rightarrow> nat \<Rightarrow> 'a list \<Rightarrow> 'a list \<Rightarrow> 'a list" where
  "splice_at i n ys xs = take i xs @ ys @ drop (i + n) xs"

lemma map_splice: "map f (splice_at i n ys xs) = splice_at i n (map f ys) (map f xs)"
  by (simp add: splice_at_def take_map drop_map)

lemma splice_update: "i < length xs \<Longrightarrow> xs[i := y] = splice_at i 1 [y] xs"
  by (simp add: splice_at_def upd_conv_take_nth_drop)

lemma splice_insert: "i \<le> length xs \<Longrightarrow> insert_at i y xs = splice_at i 0 [y] xs"
  by (simp add: splice_at_def insert_at_def)

lemma length_splice: "i + n \<le> length xs \<Longrightarrow> length (splice_at i n ys xs) = length xs + length ys - n"
  by (simp add: splice_at_def)

lemma get_splice:
  assumes "i \<le> length xs"
  shows "j < length ys \<Longrightarrow> get (splice_at i n ys xs) (i + j) = Some (ys ! j)"
  using assms by (auto simp: splice_at_def get_def nth_append)

lemma splice_splice:
  assumes "i \<le> length xs" "length ys = m"
  shows "splice_at i m zs (splice_at i n ys xs) = splice_at i n zs xs"
  using assms by (simp add: splice_at_def)

lemma splice_self:
  assumes "i + n \<le> length xs"
  shows "splice_at i n (take n (drop i xs)) xs = xs"
  using assms by (simp add: splice_at_def) (metis append_take_drop_id drop_drop add.commute)

lemma splice_same1: "get xs i = Some x \<Longrightarrow> splice_at i 1 [x] xs = xs"
  by (simp add: splice_at_def get_Some_iff) (metis id_take_nth_drop)

lemma splice_same2:
  assumes "get xs i = Some x" "get xs (Suc i) = Some y"
  shows "splice_at i 2 [x, y] xs = xs"
proof -
  have "take 2 (drop i xs) = [x, y]"
    using assms by (auto simp: get_Some_iff numeral_2_eq_2 Cons_nth_drop_Suc [symmetric] take_Suc)
  with splice_self [of i 2 xs] assms show ?thesis by (auto simp: get_Some_iff)
qed

section \<open>Operations on one block\<close>

context segmentation
begin

lemma delete_within_abs:
  assumes "get (abs_doc g d) bi = Some (AInline sh c)" "so \<le> eo"
    and "so < eo \<or> del_blocks del = []"
  shows "\<exists>d' m. apply_op g (DeleteRange (DocPosition bi so) (DocPosition bi eo) del) d = Inr (d', m)
    \<and> abs_doc g d' = splice_at bi 1 [AInline sh (take so c @ drop eo c)] (abs_doc g d)"
proof -
  from assms(1) obtain runs where b: "doc_block d bi = Some (mk_inline sh runs)"
    and c: "runs_content g runs = c" by (rule abs_inlineD)
  from assms(2) obtain rs' si ei where i: "isolate_runs g runs so eo = Inr (rs', si, ei)"
    using isolate_runs_total by blast
  have "DocPosition bi so \<le> DocPosition bi eo" using assms(2) by (simp add: less_eq_doc_position_def)
  with assms b i isolate_runs_drain [OF i assms(2)] doc_block_less [OF b] c show ?thesis
    by (auto simp: apply_delete_range_def apply_single_block_delete_def Let_def splice_update block_count_def)
qed

lemma restore_within_abs:
  assumes "get (abs_doc g d) bi = Some (AInline sh c)" "block_runs b = Some druns"
  shows "\<exists>d' m. apply_op g (DeleteRange (DocPosition bi so) (DocPosition bi so)
      \<lparr>del_blocks = [b], end_tail = None\<rparr>) d = Inr (d', m)
    \<and> abs_doc g d' = splice_at bi 1 [AInline sh (take so c @ runs_content g druns @ drop so c)] (abs_doc g d)"
proof -
  from assms(1) obtain runs where bl: "doc_block d bi = Some (mk_inline sh runs)"
    and c: "runs_content g runs = c" by (rule abs_inlineD)
  have "is_inline_block b" "runs_or_empty b = druns"
    using assms(2) by (auto simp: is_inline_block_iff runs_or_empty_def)
  with bl c doc_block_less [OF bl] show ?thesis
    by (simp add: apply_delete_range_def apply_restore_deleted_def Let_def content_simps splice_update block_count_def)
qed

lemma split_abs:
  assumes "get (abs_doc g d) bi = Some (AInline sh c)"
  shows "\<exists>d' m. apply_op g (SplitBlock (DocPosition bi off)) d = Inr (d', m)
    \<and> abs_doc g d' = splice_at bi 1 [AInline sh (take off c), AInline sh (drop off c)] (abs_doc g d)"
proof -
  from assms obtain runs where b: "doc_block d bi = Some (mk_inline sh runs)"
    and c: "runs_content g runs = c" by (rule abs_inlineD)
  obtain l r where lr: "split_runs_at_offset g runs off = (l, r)" by fastforce
  have bi: "bi < length (blocks d)" by (rule doc_block_less [OF b])
  then have "insert_at (Suc bi) (mk_inline sh r) ((blocks d)[bi := mk_inline sh l])
      = splice_at bi 1 [mk_inline sh l, mk_inline sh r] (blocks d)"
    by (simp add: insert_at_def splice_at_def upd_conv_take_nth_drop)
  with b lr bi c split_runs_at_offset_content [OF lr] show ?thesis
    by (simp add: apply_split_block_def vec_insert_def map_splice) (simp add: abs_doc_def)
qed

lemma merge_abs:
  assumes "get (abs_doc g d) bi = Some (AInline sh1 c1)"
    and "get (abs_doc g d) (Suc bi) = Some (AInline sh2 c2)"
  shows "\<exists>d' m. apply_op g (MergeBlocks (Suc bi) saved mo) d = Inr (d', m)
    \<and> abs_doc g d' = splice_at bi 2 [AInline sh1 (c1 @ c2)] (abs_doc g d)"
proof -
  from assms(1) obtain r1 where b1: "doc_block d bi = Some (mk_inline sh1 r1)"
    and c1: "runs_content g r1 = c1" by (rule abs_inlineD)
  from assms(2) obtain r2 where b2: "doc_block d (Suc bi) = Some (mk_inline sh2 r2)"
    and c2: "runs_content g r2 = c2" by (rule abs_inlineD)
  have bi: "Suc bi < length (blocks d)" by (rule doc_block_less [OF b2])
  let ?m = "mk_inline sh1 (or_plain (r1 @ r2))"
  have "remove_at (Suc bi) ((blocks d)[bi := ?m]) = splice_at bi 2 [?m] (blocks d)"
    using bi by (simp add: remove_at_def splice_at_def upd_conv_take_nth_drop)
  with b1 b2 bi c1 c2 show ?thesis
    by (simp add: apply_merge_blocks_def vec_remove_def block_count_def map_splice)
      (simp add: abs_doc_def)
qed

lemma restore_merged_abs:
  assumes "get (abs_doc g d) bi = Some (AInline sh c)"
  shows "\<exists>d' m. apply_op g (RestoreMergedBlock (Suc bi) saved mo) d = Inr (d', m)
    \<and> abs_doc g d' = splice_at bi 1 [AInline sh (take mo c), abs_block g saved] (abs_doc g d)"
proof -
  from assms obtain runs where b: "doc_block d bi = Some (mk_inline sh runs)"
    and c: "runs_content g runs = c" by (rule abs_inlineD)
  have bi: "bi < length (blocks d)" by (rule doc_block_less [OF b])
  let ?l = "mk_inline sh (extract_runs_up_to g runs mo)"
  have "insert_at (Suc bi) saved ((blocks d)[bi := ?l]) = splice_at bi 1 [?l, saved] (blocks d)"
    using bi by (simp add: insert_at_def splice_at_def upd_conv_take_nth_drop)
  with b bi c show ?thesis
    by (simp add: apply_restore_merged_block_def vec_insert_def map_splice content_simps)
      (simp add: abs_doc_def)
qed

lemma insert_block_abs:
  assumes "i \<le> length (abs_doc g d)"
  shows "\<exists>d' m. apply_op g (InsertBlock i b) d = Inr (d', m)
    \<and> abs_doc g d' = splice_at i 0 [abs_block g b] (abs_doc g d)"
  using assms
  by (simp add: apply_insert_block_def insert_block_def vec_insert_def block_count_def map_insert_at
      splice_insert) (simp add: abs_doc_def splice_at_def take_map drop_map)

lemma remove_block_abs:
  assumes "i < length (abs_doc g d)" "1 < length (abs_doc g d)"
  shows "\<exists>d' m. apply_op g (RemoveBlock i saved) d = Inr (d', m)
    \<and> abs_doc g d' = splice_at i 1 [] (abs_doc g d)"
  using assms
  by (simp add: apply_remove_block_def remove_block_def vec_remove_def block_count_def map_remove_at)
    (simp add: abs_doc_def splice_at_def remove_at_def take_map drop_map)

lemma replace_block_abs:
  assumes "i < length (abs_doc g d)"
  shows "\<exists>d' m. apply_op g (ReplaceBlock i old new) d = Inr (d', m)
    \<and> abs_doc g d' = splice_at i 1 [abs_block g new] (abs_doc g d)"
  using assms
  by (simp add: apply_replace_block_def replace_block_def block_count_def get_def map_update)
    (simp add: abs_doc_def splice_update)

lemma set_attrs_abs:
  assumes "get (abs_doc g d) bi = Some (AInline (SListItem ord ind) c)"
  shows "\<exists>d' m. apply_op g (SetBlockAttrs bi old new) d = Inr (d', m)
    \<and> abs_doc g d' = splice_at bi 1 [AInline (SListItem ord (indent_level new)) c] (abs_doc g d)"
proof -
  from assms obtain runs where b: "doc_block d bi = Some (mk_inline (SListItem ord ind) runs)"
    and c: "runs_content g runs = c" by (rule abs_inlineD)
  with doc_block_less [OF b] show ?thesis
    by (simp add: apply_set_block_attrs_def splice_update block_count_def)
qed

end

section \<open>Block types\<close>

fun inline_kind :: "block_kind \<Rightarrow> bool" where
  "inline_kind KParagraph = True"
| "inline_kind (KHeading _) = True"
| "inline_kind (KListItem _) = True"
| "inline_kind _ = False"

fun kind_shape :: "block_kind \<Rightarrow> shape" where
  "kind_shape (KHeading l) = SHeading l"
| "kind_shape (KListItem ord) = SListItem ord 0"
| "kind_shape _ = SParagraph"

lemma block_of_kind_inline:
  "inline_kind k \<Longrightarrow> block_of_kind k runs flat = mk_inline (kind_shape k) runs"
  by (cases k) simp_all

lemma set_type_runs_inline [simp]: "set_type_runs (mk_inline sh runs) = runs"
  by (cases sh) (simp_all add: runs_or_empty_def)

context segmentation
begin

lemma set_type_abs:
  assumes "get (abs_doc g d) bi = Some (AInline sh c)" "inline_kind new"
  shows "\<exists>d' m. apply_op g (SetBlockType bi old new) d = Inr (d', m)
    \<and> abs_doc g d' = splice_at bi 1 [AInline (kind_shape new) c] (abs_doc g d)"
proof -
  from assms(1) obtain runs where b: "doc_block d bi = Some (mk_inline sh runs)"
    and c: "runs_content g runs = c" by (rule abs_inlineD)
  with doc_block_less [OF b] assms(2) show ?thesis
    by (simp add: apply_set_block_type_def block_of_kind_inline splice_update block_count_def)
qed

end

context plain_segmentation
begin

lemma insert_text_abs:
  assumes "doc_block d bi = Some (mk_inline sh runs)" "runs \<noteq> []" "plain t" "plain_runs plain runs"
  shows "\<exists>d' m lk. apply_op g (InsertText (DocPosition bi off) t) d = Inr (d', m)
    \<and> abs_doc g d' = splice_at bi 1
        [AInline sh (take off (runs_content g runs) @ map (cluster_of (inherited_style g runs off) lk) (g t) @
           drop off (runs_content g runs))] (abs_doc g d)
    \<and> (plain_doc plain d \<longrightarrow> plain_doc plain d')"
proof -
  from insert_text_into_runs_content [OF assms(3,4,2), of off] obtain lk where
    c: "runs_content g (insert_text_into_runs g runs off t) =
      take off (runs_content g runs) @ map (cluster_of (inherited_style g runs off) lk) (g t) @ drop off (runs_content g runs)"
    and p: "plain_runs plain (insert_text_into_runs g runs off t)" by blast
  have bi: "bi < length (blocks d)" by (rule doc_block_less [OF assms(1)])
  let ?b = "mk_inline sh (insert_text_into_runs g runs off t)"
  have "plain_doc plain (replaced d bi ?b)" if "plain_doc plain d"
    using that p set_update_subset_insert [of "blocks d" bi ?b]
    by (auto simp: plain_doc_def list_all_iff)
  with assms(1) c bi show ?thesis
    by (intro exI [of _ "replaced d bi ?b"])
      (auto simp: apply_insert_text_def splice_update block_count_def)
qed

end

section \<open>Toggling a style\<close>

definition cluster_restyle :: "bool \<Rightarrow> inline_style \<Rightarrow> styled_cluster \<Rightarrow> styled_cluster" where
  "cluster_restyle rm flag x =
     (fst x, if rm then style_remove flag (fst (snd x)) else style_insert flag (fst (snd x)), snd (snd x))"

definition restyle_range :: "bool \<Rightarrow> inline_style \<Rightarrow> nat \<Rightarrow> nat \<Rightarrow> styled_cluster list \<Rightarrow> styled_cluster list" where
  "restyle_range rm flag bs be c =
     take bs c @ map (cluster_restyle rm flag) (drop bs (take be c)) @ drop be c"

definition abs_range :: "doc_position \<Rightarrow> doc_position \<Rightarrow> nat \<Rightarrow> ablock \<Rightarrow> nat \<times> nat" where
  "abs_range s e bi a =
     (if bi = block_index s then offset s else 0,
      if bi = block_index e then offset e else abs_len a)"

fun toggle_abs_block ::
  "doc_position \<Rightarrow> doc_position \<Rightarrow> inline_style \<Rightarrow> bool \<Rightarrow> nat \<Rightarrow> ablock \<Rightarrow> ablock" where
  "toggle_abs_block s e flag rm bi (AInline sh c) =
     (let (bs, be) = abs_range s e bi (AInline sh c)
      in if bs \<ge> be then AInline sh c else AInline sh (restyle_range rm flag bs be c))"
| "toggle_abs_block s e flag rm bi a = a"

text \<open>The clusters of block \<open>bi\<close> that lie in the range.\<close>

fun range_clusters :: "doc_position \<Rightarrow> doc_position \<Rightarrow> nat \<Rightarrow> ablock \<Rightarrow> styled_cluster list" where
  "range_clusters s e bi (AInline sh c) =
     (let (bs, be) = abs_range s e bi (AInline sh c) in drop bs (take be c))"
| "range_clusters s e bi a = []"

definition cluster_has :: "inline_style \<Rightarrow> styled_cluster \<Rightarrow> bool" where
  "cluster_has flag x = style_contains (fst (snd x)) flag"

lemma range_in_block_abs: "range_in_block g s e bi b = abs_range s e bi (abs_block g b)"
  by (simp add: range_in_block_def abs_range_def)

lemma run_content_restyle: "run_content g (restyle rm flag r) = map (cluster_restyle rm flag) (run_content g r)"
  by (simp add: run_content_def restyle_def cluster_restyle_def)

lemma runs_content_restyle:
  "runs_content g (map (restyle rm flag) rs) = map (cluster_restyle rm flag) (runs_content g rs)"
  by (induction rs) (simp_all add: run_content_restyle)

context segmentation
begin

lemma runs_have_style_iff:
  assumes "bs < be"
  shows "runs_have_style g flag bs be pos rs \<longleftrightarrow>
    (\<forall>x \<in> set (drop (bs - pos) (take (be - pos) (runs_content g rs))). cluster_has flag x)"
proof (induction rs arbitrary: pos)
  case Nil
  then show ?case by simp
next
  case (Cons r rs)
  let ?run_end = "pos + run_char_len g r"
  let ?part = "drop (bs - pos) (take (be - pos) (run_content g r))"
  consider (before) "?run_end \<le> bs" | (behind) "bs < ?run_end" "be \<le> pos"
    | (overlap) "bs < ?run_end" "pos < be" by linarith
  then show ?case
  proof cases
    case before
    with Cons assms show ?thesis by (simp add: Let_def)
  next
    case behind
    then show ?thesis by (simp add: Let_def)
  next
    case overlap
    have "set ?part \<subseteq> set (run_content g r)" by (meson order_trans set_drop_subset set_take_subset)
    then have part: "\<forall>x \<in> set ?part. cluster_has flag x = style_contains (run_style r) flag"
      by (auto simp: run_content_def cluster_has_def)
    have p1: "?part = [] \<longleftrightarrow> run_char_len g r = 0" using overlap assms
      by (auto simp: min_def simp del: run_char_len_0 split: if_splits)
    have p2: "(\<forall>x \<in> set ?part. cluster_has flag x) \<longleftrightarrow>
        ?part = [] \<or> style_contains (run_style r) flag"
      using part by (cases ?part) auto
    have has: "(\<forall>x \<in> set ?part. cluster_has flag x) \<longleftrightarrow>
        \<not> (run_char_len g r > 0 \<and> \<not> style_contains (run_style r) flag)"
      unfolding p2 p1 by simp
    have "drop (bs - pos) (take (be - pos) (runs_content g (r # rs))) =
        ?part @ drop (bs - ?run_end) (take (be - ?run_end) (runs_content g rs))"
      by (cases "be \<le> ?run_end") (simp_all add: min_def)
    moreover have "runs_have_style g flag bs be pos (r # rs) \<longleftrightarrow>
        \<not> (run_char_len g r > 0 \<and> \<not> style_contains (run_style r) flag) \<and>
        runs_have_style g flag bs be ?run_end rs"
      using overlap by (simp add: Let_def del: run_char_len_0)
    ultimately show ?thesis
      by (simp only: has [symmetric] Cons.IH set_append ball_Un)
  qed
qed

lemma runs_have_style_past: "pos + length (runs_content g rs) \<le> bs \<Longrightarrow> runs_have_style g flag bs be pos rs"
  by (induction rs arbitrary: pos) (simp_all add: Let_def)

lemma runs_have_style_zero: "runs_have_style g flag bs 0 pos rs"
  by (induction rs arbitrary: pos) (simp_all add: Let_def)

lemma block_has_style_abs:
  assumes "s < e" and range: "block_index s \<le> i" "i \<le> block_index e"
  shows "block_has_style g s e flag i b \<longleftrightarrow>
    (\<forall>x \<in> set (range_clusters s e i (abs_block g b)). cluster_has flag x)"
proof (cases "block_runs b")
  case None
  then show ?thesis by (cases b) (simp_all add: is_atomic_block_def block_has_style_def)
next
  case (Some runs)
  obtain bs be where r: "abs_range s e i (abs_block g b) = (bs, be)" by fastforce
  have ab: "abs_block g b = AInline (shape_of b) (runs_content g runs)"
    by (rule abs_block_inline [OF Some])
  have "bs < be \<or> be = 0 \<or> length (runs_content g runs) \<le> bs"
    using r assms range unfolding ab
    by (auto simp: abs_range_def less_doc_position_def split: if_splits)
  then consider "bs < be" | "be = 0" | "length (runs_content g runs) \<le> bs" by blast
  then show ?thesis
  proof cases
    case 1
    with Some r ab runs_have_style_iff [OF 1, of flag 0 runs] show ?thesis
      by (simp add: block_has_style_def range_in_block_abs)
  next
    case 2
    then have "runs_have_style g flag bs be 0 runs"
      by (simp add: runs_have_style_zero)
    with 2 Some r ab show ?thesis by (simp add: block_has_style_def range_in_block_abs)
  next
    case 3
    with Some r ab runs_have_style_past [of 0 runs bs flag be] show ?thesis
      by (simp add: block_has_style_def range_in_block_abs)
  qed
qed

lemma all_text_has_style_abs:
  assumes "s < e"
  shows "all_text_has_style g d s e flag \<longleftrightarrow>
    (\<forall>i < length (abs_doc g d). block_index s \<le> i \<and> i \<le> block_index e \<longrightarrow>
       (\<forall>x \<in> set (range_clusters s e i (abs_doc g d ! i)). cluster_has flag x))"
proof -
  have "all_text_has_style g d s e flag \<longleftrightarrow>
      (\<forall>i < length (blocks d). block_index s \<le> i \<and> i \<le> block_index e \<longrightarrow>
         block_has_style g s e flag i (blocks d ! i))"
    by (auto simp: all_text_has_style_def list_all_iff doc_block_def get_def less_Suc_eq_le
        split: option.splits if_splits)
  also have "\<dots> \<longleftrightarrow> (\<forall>i < length (blocks d). block_index s \<le> i \<and> i \<le> block_index e \<longrightarrow>
         (\<forall>x \<in> set (range_clusters s e i (abs_block g (blocks d ! i))). cluster_has flag x))"
    using block_has_style_abs [OF assms] by blast
  finally show ?thesis by (simp add: abs_doc_def block_count_def)
qed

text \<open>Each block in the range is restyled once; the others stay.\<close>

lemma toggle_block_abs:
  "\<exists>d'. toggle_block g s e flag rm bi d = Inr d' \<and> length (blocks d') = length (blocks d)
    \<and> (\<forall>i < length (blocks d). abs_block g (blocks d' ! i) =
          (if i = bi then toggle_abs_block s e flag rm i (abs_block g (blocks d ! i))
           else abs_block g (blocks d ! i)))"
proof (cases "doc_block d bi")
  case None
  then have "toggle_block g s e flag rm bi d = Inr d" by (simp add: toggle_block_def)
  moreover have "length (blocks d) \<le> bi" using None by (simp add: doc_block_def get_None_iff)
  ultimately show ?thesis by auto
next
  case (Some b)
  then have bi: "bi < length (blocks d)" "blocks d ! bi = b"
    by (simp_all add: doc_block_def get_Some_iff)
  show ?thesis
  proof (cases "block_runs b")
    case None
    with Some bi show ?thesis by (cases b) (auto simp: toggle_block_def is_atomic_block_def)
  next
    case (Some runs)
    have ab: "abs_block g b = AInline (shape_of b) (runs_content g runs)"
      by (rule abs_block_inline [OF Some])
    obtain bs be where r: "abs_range s e bi (abs_block g b) = (bs, be)" by fastforce
    show ?thesis
    proof (cases "bs \<ge> be \<or> runs = []")
      case True
      with Some \<open>doc_block d bi = Some b\<close> bi r ab show ?thesis
        by (cases "bs \<ge> be")
          (auto simp: toggle_block_def range_in_block_abs isolate_runs_def restyle_range_def
            nth_list_update set_runs_inline [OF Some])
    next
      case False
      then obtain rs' si ei where i: "isolate_runs g runs bs be = Inr (rs', si, ei)"
        using isolate_runs_total [of bs be runs] by fastforce
      with False have "bs < be" "runs \<noteq> []" by auto
      note c = isolate_runs_content [OF i this]
      with Some \<open>doc_block d bi = Some b\<close> bi r ab i False show ?thesis
        by (auto simp: toggle_block_def range_in_block_abs restyle_range_def runs_content_restyle
            nth_list_update set_runs_inline [OF Some])
    qed
  qed
qed

lemma toggle_blocks_abs:
  "distinct bis \<Longrightarrow> \<exists>d'. toggle_blocks g s e flag rm bis d = Inr d'
    \<and> length (blocks d') = length (blocks d)
    \<and> (\<forall>i < length (blocks d). abs_block g (blocks d' ! i) =
          (if i \<in> set bis then toggle_abs_block s e flag rm i (abs_block g (blocks d ! i))
           else abs_block g (blocks d ! i)))"
proof (induction bis arbitrary: d)
  case Nil
  then show ?case by simp
next
  case (Cons bi bis)
  obtain d1 where d1: "toggle_block g s e flag rm bi d = Inr d1" "length (blocks d1) = length (blocks d)"
    "\<forall>i < length (blocks d). abs_block g (blocks d1 ! i) =
          (if i = bi then toggle_abs_block s e flag rm i (abs_block g (blocks d ! i))
           else abs_block g (blocks d ! i))"
    using toggle_block_abs by blast
  from Cons.prems have "distinct bis" by simp
  from Cons.IH [OF this, of d1] d1 Cons.prems show ?case by auto
qed

end

text \<open>The abstract effect of toggling a range.\<close>

definition toggle_abs :: "doc_position \<Rightarrow> doc_position \<Rightarrow> inline_style \<Rightarrow> bool \<Rightarrow> ablock list \<Rightarrow> ablock list" where
  "toggle_abs s e flag rm A =
     map (\<lambda>i. if block_index s \<le> i \<and> i \<le> block_index e then toggle_abs_block s e flag rm i (A ! i)
              else A ! i) [0..<length A]"

definition all_have :: "doc_position \<Rightarrow> doc_position \<Rightarrow> inline_style \<Rightarrow> ablock list \<Rightarrow> bool" where
  "all_have s e flag A \<longleftrightarrow>
     (\<forall>i < length A. block_index s \<le> i \<and> i \<le> block_index e \<longrightarrow>
        (\<forall>x \<in> set (range_clusters s e i (A ! i)). cluster_has flag x))"

lemma all_have_list [code]:
  "all_have s e flag A \<longleftrightarrow>
     list_all (\<lambda>i. block_index s \<le> i \<and> i \<le> block_index e \<longrightarrow>
       list_all (cluster_has flag) (range_clusters s e i (A ! i))) [0..<length A]"
  by (auto simp: all_have_def list_all_iff)

context segmentation
begin

lemma toggle_abs_apply:
  assumes "s < e"
  shows "\<exists>d' m. apply_op g (ToggleInlineStyle s e flag) d = Inr (d', m)
    \<and> abs_doc g d' = toggle_abs s e flag (all_have s e flag (abs_doc g d)) (abs_doc g d)"
proof -
  let ?rm = "all_text_has_style g d s e flag"
  let ?bis = "[block_index s..<block_index e + 1]"
  have "distinct ?bis" by simp
  from toggle_blocks_abs [OF this, of s e flag ?rm d] obtain d' where
    d': "toggle_blocks g s e flag ?rm ?bis d = Inr d'" "length (blocks d') = length (blocks d)"
      "\<forall>i < length (blocks d). abs_block g (blocks d' ! i) =
        (if i \<in> set ?bis then toggle_abs_block s e flag ?rm i (abs_block g (blocks d ! i))
         else abs_block g (blocks d ! i))" by blast
  have rm: "?rm = all_have s e flag (abs_doc g d)"
    by (simp only: all_text_has_style_abs [OF assms] all_have_def)
  have "abs_doc g d' = toggle_abs s e flag ?rm (abs_doc g d)"
    using d'(2,3)
    by (auto simp: toggle_abs_def abs_doc_def block_count_def less_Suc_eq_le intro!: nth_equalityI)
  with assms d'(1) rm show ?thesis by (simp add: apply_toggle_inline_style_def)
qed

end

section \<open>Toggling twice\<close>

definition cluster_lacks :: "inline_style \<Rightarrow> styled_cluster \<Rightarrow> bool" where
  "cluster_lacks flag x \<longleftrightarrow> fst (snd x) AND flag = 0"

text \<open>The range is uniform: every cluster has all bits of the flag, or every one has none.\<close>

definition uniform_range :: "doc_position \<Rightarrow> doc_position \<Rightarrow> inline_style \<Rightarrow> ablock list \<Rightarrow> bool" where
  "uniform_range s e flag A \<longleftrightarrow>
     all_have s e flag A \<or>
     (\<forall>i < length A. block_index s \<le> i \<and> i \<le> block_index e \<longrightarrow>
        (\<forall>x \<in> set (range_clusters s e i (A ! i)). cluster_lacks flag x))"

lemma uniform_range_list [code]:
  "uniform_range s e flag A \<longleftrightarrow>
     all_have s e flag A \<or>
     list_all (\<lambda>i. block_index s \<le> i \<and> i \<le> block_index e \<longrightarrow>
       list_all (cluster_lacks flag) (range_clusters s e i (A ! i))) [0..<length A]"
  by (auto simp: uniform_range_def list_all_iff)

lemma style_remove_insert: "style_contains st flag \<Longrightarrow> style_insert flag (style_remove flag st) = st"
  by (auto simp: style_contains_def style_insert_def style_remove_def bit_eq_iff bit_simps)

lemma style_insert_remove: "st AND flag = 0 \<Longrightarrow> style_remove flag (style_insert flag st) = st"
  by (auto simp: style_insert_def style_remove_def bit_eq_iff bit_simps)

lemma style_contains_insert [simp]: "style_contains (style_insert flag st) flag"
  by (auto simp: style_contains_def style_insert_def bit_eq_iff bit_simps)

lemma style_contains_remove [simp]: "style_contains (style_remove flag st) flag \<longleftrightarrow> flag = 0"
  by (auto simp: style_contains_def style_remove_def bit_eq_iff bit_simps)

lemma restyle_range_slice:
  assumes "bs < be"
  shows "take bs (restyle_range rm flag bs be c) = take bs c"
    and "drop bs (take be (restyle_range rm flag bs be c)) =
      map (cluster_restyle rm flag) (drop bs (take be c))"
    and "drop be (restyle_range rm flag bs be c) = drop be c"
    and "length (restyle_range rm flag bs be c) = length c"
  using assms by (auto simp: restyle_range_def min_def)

lemma restyle_range_twice:
  assumes "bs < be"
    and "\<forall>x \<in> set (drop bs (take be c)). cluster_restyle rm' flag (cluster_restyle rm flag x) = x"
  shows "restyle_range rm' flag bs be (restyle_range rm flag bs be c) = c"
proof -
  have "map (cluster_restyle rm' flag) (map (cluster_restyle rm flag) (drop bs (take be c))) =
      drop bs (take be c)"
    using assms(2) by (simp add: map_idI)
  then have "restyle_range rm' flag bs be (restyle_range rm flag bs be c) =
      take bs c @ drop bs (take be c) @ drop be c"
    unfolding restyle_range_def [of rm'] restyle_range_slice [OF assms(1)] by simp
  also have "\<dots> = c"
    using assms(1) take_drop_append_mid [of bs be c] by (simp add: drop_take)
  finally show ?thesis .
qed

lemma range_clusters_toggle:
  "range_clusters s e i (toggle_abs_block s e flag rm i a) =
    map (cluster_restyle rm flag) (range_clusters s e i a)"
proof (cases a)
  case (AInline sh c)
  obtain bs be where r: "abs_range s e i (AInline sh c) = (bs, be)" by fastforce
  have "abs_range s e i (AInline sh (restyle_range rm flag bs be c)) = (bs, be)" if "bs < be"
    using r restyle_range_slice(4) [OF that] by (auto simp: abs_range_def split: if_splits)
  with AInline r show ?thesis
    by (cases "bs < be") (simp_all add: restyle_range_slice)
qed simp_all

lemma toggle_abs_block_twice:
  assumes "\<forall>x \<in> set (range_clusters s e i a). cluster_restyle rm' flag (cluster_restyle rm flag x) = x"
  shows "toggle_abs_block s e flag rm' i (toggle_abs_block s e flag rm i a) = a"
proof (cases a)
  case (AInline sh c)
  obtain bs be where r: "abs_range s e i (AInline sh c) = (bs, be)" by fastforce
  have "abs_range s e i (AInline sh (restyle_range rm flag bs be c)) = (bs, be)" if "bs < be"
    using r restyle_range_slice(4) [OF that] by (auto simp: abs_range_def split: if_splits)
  with AInline r assms show ?thesis
    by (cases "bs < be") (simp_all add: restyle_range_twice)
qed simp_all

lemma cluster_restyle_back:
  "cluster_has flag x \<Longrightarrow> cluster_restyle False flag (cluster_restyle True flag x) = x"
  "cluster_lacks flag x \<Longrightarrow> cluster_restyle True flag (cluster_restyle False flag x) = x"
  by (simp_all add: cluster_restyle_def cluster_has_def cluster_lacks_def style_remove_insert
      style_insert_remove)

lemma cluster_has_restyle:
  "cluster_has flag (cluster_restyle False flag x)"
  "cluster_has flag (cluster_restyle True flag x) \<longleftrightarrow> flag = 0"
  by (simp_all add: cluster_restyle_def cluster_has_def)

lemma length_toggle_abs [simp]: "length (toggle_abs s e flag rm A) = length A"
  by (simp add: toggle_abs_def)

lemma toggle_abs_nth:
  "i < length A \<Longrightarrow> toggle_abs s e flag rm A ! i =
    (if block_index s \<le> i \<and> i \<le> block_index e then toggle_abs_block s e flag rm i (A ! i) else A ! i)"
  by (simp add: toggle_abs_def)

lemma all_have_toggle:
  "all_have s e flag (toggle_abs s e flag rm A) \<longleftrightarrow>
    (\<forall>i < length A. block_index s \<le> i \<and> i \<le> block_index e \<longrightarrow>
       (\<forall>x \<in> set (range_clusters s e i (A ! i)). cluster_has flag (cluster_restyle rm flag x)))"
  by (auto simp: all_have_def toggle_abs_def range_clusters_toggle)

lemma toggle_abs_twice:
  assumes "flag \<noteq> 0" "uniform_range s e flag A"
  shows "toggle_abs s e flag (all_have s e flag (toggle_abs s e flag (all_have s e flag A) A))
      (toggle_abs s e flag (all_have s e flag A) A) = A"
proof -
  let ?rm = "all_have s e flag A"
  let ?rm' = "all_have s e flag (toggle_abs s e flag ?rm A)"
  have returns: "cluster_restyle ?rm' flag (cluster_restyle ?rm flag x) = x"
    if i: "i < length A" "block_index s \<le> i" "i \<le> block_index e"
      and x: "x \<in> set (range_clusters s e i (A ! i))" for i x
  proof (cases ?rm)
    case True
    then have "cluster_has flag x" using i x by (auto simp: all_have_def)
    moreover have "\<not> ?rm'"
      using True i x assms(1) unfolding all_have_toggle
      by (metis cluster_has_restyle(2))
    ultimately show ?thesis using True by (simp add: cluster_restyle_back)
  next
    case False
    then have "cluster_lacks flag x" using assms(2) i x by (auto simp: uniform_range_def)
    moreover have "?rm'" using False by (auto simp: all_have_toggle cluster_has_restyle)
    ultimately show ?thesis using False by (simp add: cluster_restyle_back)
  qed
  show ?thesis
  proof (rule nth_equalityI)
    fix i
    assume "i < length (toggle_abs s e flag ?rm' (toggle_abs s e flag ?rm A))"
    then have i: "i < length A" by simp
    then show "toggle_abs s e flag ?rm' (toggle_abs s e flag ?rm A) ! i = A ! i"
      using returns [OF i] toggle_abs_block_twice [of s e i "A ! i" ?rm' flag ?rm]
      by (simp add: toggle_abs_nth)
  qed simp
qed

end
