(* ===== verification/RteUndo.thy ===== *)
theory RteUndo
  imports RteOperations
begin

text \<open>
  The undo and redo stacks (\<^verbatim>\<open>crates/rte/src/undo.rs\<close>): groups of operations, merging of
  consecutive insertions, eviction of the oldest groups. Vectors keep their order, so the top of a
  stack is the last element.
\<close>

record undo_group =
  grp_ops :: "edit_op list"
  cursor_before :: doc_selection
  cursor_after :: doc_selection

record undo_stack =
  us_undo :: "undo_group list"
  us_redo :: "undo_group list"
  max_entries :: nat
  force_new_group :: bool

definition undo_stack_new :: "nat \<Rightarrow> undo_stack" where
  "undo_stack_new n = \<lparr>us_undo = [], us_redo = [], max_entries = n, force_new_group = False\<rparr>"

definition undo_stack_default :: undo_stack where
  "undo_stack_default = undo_stack_new 100"

fun is_insert_text :: "edit_op \<Rightarrow> bool" where
  "is_insert_text (InsertText _ _) = True"
| "is_insert_text _ = False"

definition all_insert_text :: "edit_op list \<Rightarrow> bool" where
  "all_insert_text ops = list_all is_insert_text ops"

fun first_insert_position :: "edit_op list \<Rightarrow> doc_position option" where
  "first_insert_position [] = None"
| "first_insert_position (InsertText p t # ops) = Some p"
| "first_insert_position (_ # ops) = first_insert_position ops"

text \<open>The reversed scan of \<^verbatim>\<open>last_insert_end\<close>.\<close>

fun insert_end_scan :: "segmenter \<Rightarrow> edit_op list \<Rightarrow> doc_position option" where
  "insert_end_scan g [] = None"
| "insert_end_scan g (InsertText p t # ops) =
     Some (DocPosition (block_index p) (offset p + text_len g t))"
| "insert_end_scan g (_ # ops) = insert_end_scan g ops"

definition last_insert_end :: "segmenter \<Rightarrow> edit_op list \<Rightarrow> doc_position option" where
  "last_insert_end g ops = insert_end_scan g (rev ops)"

definition can_merge :: "segmenter \<Rightarrow> undo_group \<Rightarrow> edit_op list \<Rightarrow> doc_selection \<Rightarrow> bool" where
  "can_merge g last_group new_ops sel0 =
     (if \<not> all_insert_text (grp_ops last_group) \<or> \<not> all_insert_text new_ops then False
      else if sel0 \<noteq> cursor_after last_group then False
      else case last_insert_end g (grp_ops last_group) of
             None \<Rightarrow> False
           | Some last_end \<Rightarrow>
               (case first_insert_position new_ops of
                  None \<Rightarrow> False
                | Some new_start \<Rightarrow>
                    block_index last_end = block_index new_start \<and> offset last_end = offset new_start))"

definition push :: "segmenter \<Rightarrow> undo_stack \<Rightarrow> edit_op list \<Rightarrow> doc_selection \<Rightarrow> doc_selection \<Rightarrow> undo_stack" where
  "push g st ops sel0 after =
     (if ops = [] then st
      else
        let st1 = st\<lparr>us_redo := []\<rparr>
        in if \<not> force_new_group st1 \<and> us_undo st1 \<noteq> [] \<and> can_merge g (last (us_undo st1)) ops sel0
           then
             let l = last (us_undo st1)
             in st1\<lparr>us_undo := butlast (us_undo st1) @
                  [l\<lparr>grp_ops := grp_ops l @ ops, cursor_after := after\<rparr>]\<rparr>
           else
             let undo' = us_undo st1 @
                   [\<lparr>grp_ops = ops, cursor_before = sel0, cursor_after = after\<rparr>];
                 undo'' = (if length undo' > max_entries st1
                           then drop (length undo' - max_entries st1) undo' else undo')
             in st1\<lparr>us_undo := undo'', force_new_group := False\<rparr>)"

definition undo :: "undo_stack \<Rightarrow> (undo_group \<times> undo_stack) option" where
  "undo st =
     (if us_undo st = [] then None
      else let gr = last (us_undo st)
           in Some (gr, st\<lparr>us_undo := butlast (us_undo st), us_redo := us_redo st @ [gr]\<rparr>))"

definition redo :: "undo_stack \<Rightarrow> (undo_group \<times> undo_stack) option" where
  "redo st =
     (if us_redo st = [] then None
      else let gr = last (us_redo st)
           in Some (gr, st\<lparr>us_redo := butlast (us_redo st), us_undo := us_undo st @ [gr]\<rparr>))"

definition break_group :: "undo_stack \<Rightarrow> undo_stack" where
  "break_group st = st\<lparr>force_new_group := True\<rparr>"

definition map_selection :: "pos_map \<Rightarrow> doc_selection \<Rightarrow> doc_selection" where
  "map_selection m sel =
     \<lparr>anchor = pos_map_map m (anchor sel), focus = pos_map_map m (focus sel)\<rparr>"

definition map_group_cursors :: "pos_map \<Rightarrow> undo_group \<Rightarrow> undo_group" where
  "map_group_cursors m gr =
     gr\<lparr>cursor_before := map_selection m (cursor_before gr),
        cursor_after := map_selection m (cursor_after gr)\<rparr>"

definition map_cursors :: "pos_map \<Rightarrow> undo_stack \<Rightarrow> undo_stack" where
  "map_cursors m st =
     st\<lparr>us_undo := map (map_group_cursors m) (us_undo st),
        us_redo := map (map_group_cursors m) (us_redo st)\<rparr>"

definition can_undo :: "undo_stack \<Rightarrow> bool" where
  "can_undo st \<longleftrightarrow> us_undo st \<noteq> []"

definition can_redo :: "undo_stack \<Rightarrow> bool" where
  "can_redo st \<longleftrightarrow> us_redo st \<noteq> []"

definition undo_len :: "undo_stack \<Rightarrow> nat" where
  "undo_len st = length (us_undo st)"

definition redo_len :: "undo_stack \<Rightarrow> nat" where
  "redo_len st = length (us_redo st)"

definition clear_stacks :: "undo_stack \<Rightarrow> undo_stack" where
  "clear_stacks st = st\<lparr>us_undo := [], us_redo := [], force_new_group := False\<rparr>"

section \<open>A history as a zipper\<close>

text \<open>
  What the editor relies on: stepping back moves the newest past entry to the future, stepping
  forward moves it back. A client that goes back as often as forward is where it was.
\<close>

locale zipper_history =
  fixes past :: "'s \<Rightarrow> 'g list"
    and future :: "'s \<Rightarrow> 'g list"
    and back_step :: "'s \<Rightarrow> ('g \<times> 's) option"
    and forward_step :: "'s \<Rightarrow> ('g \<times> 's) option"
  assumes back_None: "back_step s = None \<longleftrightarrow> past s = []"
    and back_Some: "back_step s = Some (x, s') \<Longrightarrow> past s = past s' @ [x] \<and> future s' = future s @ [x]"
    and forward_None: "forward_step s = None \<longleftrightarrow> future s = []"
    and forward_Some: "forward_step s = Some (x, s') \<Longrightarrow> future s = future s' @ [x] \<and> past s' = past s @ [x]"
begin

text \<open>Stepping back \<open>n\<close> times, collecting the entries.\<close>

fun back_n :: "nat \<Rightarrow> 's \<Rightarrow> ('g list \<times> 's) option" where
  "back_n 0 s = Some ([], s)"
| "back_n (Suc n) s =
     (case back_step s of
        None \<Rightarrow> None
      | Some (x, s') \<Rightarrow> map_option (\<lambda>(xs, s''). (x # xs, s'')) (back_n n s'))"

fun forward_n :: "nat \<Rightarrow> 's \<Rightarrow> ('g list \<times> 's) option" where
  "forward_n 0 s = Some ([], s)"
| "forward_n (Suc n) s =
     (case forward_step s of
        None \<Rightarrow> None
      | Some (x, s') \<Rightarrow> map_option (\<lambda>(xs, s''). (x # xs, s'')) (forward_n n s'))"

lemma back_n_total:
  "n \<le> length (past s) \<Longrightarrow> \<exists>xs s'. back_n n s = Some (xs, s')
    \<and> past s = past s' @ rev xs \<and> future s' = future s @ xs \<and> length xs = n"
proof (induction n arbitrary: s)
  case 0
  then show ?case by simp
next
  case (Suc n)
  then obtain x s1 where s1: "back_step s = Some (x, s1)"
    using back_None [of s] by (cases "back_step s") auto
  from back_Some [OF s1] Suc.prems have "n \<le> length (past s1)" by auto
  from Suc.IH [OF this] s1 back_Some [OF s1] show ?case by auto
qed

lemma forward_n_total:
  "n \<le> length (future s) \<Longrightarrow> \<exists>xs s'. forward_n n s = Some (xs, s')
    \<and> future s = future s' @ rev xs \<and> past s' = past s @ xs \<and> length xs = n"
proof (induction n arbitrary: s)
  case 0
  then show ?case by simp
next
  case (Suc n)
  then obtain x s1 where s1: "forward_step s = Some (x, s1)"
    using forward_None [of s] by (cases "forward_step s") auto
  from forward_Some [OF s1] Suc.prems have "n \<le> length (future s1)" by auto
  from Suc.IH [OF this] s1 forward_Some [OF s1] show ?case by auto
qed

lemma back_forward:
  assumes "n \<le> length (past s)"
  shows "\<exists>xs s1 s2. back_n n s = Some (xs, s1) \<and> forward_n n s1 = Some (rev xs, s2)
    \<and> past s2 = past s \<and> future s2 = future s"
proof -
  from back_n_total [OF assms] obtain xs s1 where s1: "back_n n s = Some (xs, s1)"
    "past s = past s1 @ rev xs" "future s1 = future s @ xs" "length xs = n" by blast
  then have "n \<le> length (future s1)" by simp
  from forward_n_total [OF this] obtain ys s2 where s2: "forward_n n s1 = Some (ys, s2)"
    "future s1 = future s2 @ rev ys" "past s2 = past s1 @ ys" "length ys = n" by blast
  from s1(3,4) s2(2,4) have "future s2 = future s" "ys = rev xs"
    by (metis append_eq_append_conv length_rev rev_rev_ident)+
  with s1 s2 show ?thesis by auto
qed

end

interpretation stack: zipper_history us_undo us_redo undo redo
  by unfold_locales (auto simp: undo_def redo_def Let_def split: if_splits)

section \<open>The stack invariant\<close>

text \<open>The entries of both stacks together never exceed the limit, and no group is empty.\<close>

definition stack_inv :: "undo_stack \<Rightarrow> bool" where
  "stack_inv st \<longleftrightarrow>
     length (us_undo st) + length (us_redo st) \<le> max_entries st
     \<and> (\<forall>gr \<in> set (us_undo st) \<union> set (us_redo st). grp_ops gr \<noteq> [])"

lemma stack_inv_new: "stack_inv (undo_stack_new n)"
  by (simp add: stack_inv_def undo_stack_new_def)

lemma push_max_entries [simp]: "max_entries (push g st ops b a) = max_entries st"
  by (simp add: push_def Let_def)

definition merges :: "segmenter \<Rightarrow> undo_stack \<Rightarrow> edit_op list \<Rightarrow> doc_selection \<Rightarrow> bool" where
  "merges g st ops sel0 \<longleftrightarrow>
     \<not> force_new_group st \<and> us_undo st \<noteq> [] \<and> can_merge g (last (us_undo st)) ops sel0"

lemma push_Nil: "push g st [] b a = st"
  by (simp add: push_def)

lemma push_merged:
  assumes "ops \<noteq> []" "merges g st ops b"
  shows "us_undo (push g st ops b a) = butlast (us_undo st) @
      [(last (us_undo st))\<lparr>grp_ops := grp_ops (last (us_undo st)) @ ops, cursor_after := a\<rparr>]"
    and "us_redo (push g st ops b a) = []"
  using assms by (simp_all add: push_def merges_def Let_def)

lemma push_new:
  assumes "ops \<noteq> []" "\<not> merges g st ops b"
  shows "us_undo (push g st ops b a) = drop (Suc (length (us_undo st)) - max_entries st)
      (us_undo st @ [\<lparr>grp_ops = ops, cursor_before = b, cursor_after = a\<rparr>])"
    and "us_redo (push g st ops b a) = []"
  using assms by (auto simp: push_def merges_def Let_def)

lemma push_inv:
  assumes "stack_inv st"
  shows "stack_inv (push g st ops b a)"
proof -
  consider "ops = []" | "ops \<noteq> []" "merges g st ops b" | "ops \<noteq> []" "\<not> merges g st ops b" by blast
  then show ?thesis
  proof cases
    case 1
    with assms show ?thesis by (simp add: push_Nil)
  next
    case 2
    then obtain us l where "us_undo st = us @ [l]"
      unfolding merges_def by (metis append_butlast_last_id)
    with 2 assms show ?thesis by (auto simp: stack_inv_def push_merged)
  next
    case 3
    with assms show ?thesis by (auto simp: stack_inv_def push_new dest!: in_set_dropD)
  qed
qed

lemma undo_inv: "stack_inv st \<Longrightarrow> undo st = Some (gr, st') \<Longrightarrow> stack_inv st' \<and> max_entries st' = max_entries st"
  by (cases "us_undo st" rule: rev_cases) (auto simp: undo_def stack_inv_def Let_def)

lemma redo_inv: "stack_inv st \<Longrightarrow> redo st = Some (gr, st') \<Longrightarrow> stack_inv st' \<and> max_entries st' = max_entries st"
  by (cases "us_redo st" rule: rev_cases) (auto simp: redo_def stack_inv_def Let_def)

lemma other_stack_inv:
  "stack_inv st \<Longrightarrow> stack_inv (break_group st)"
  "stack_inv st \<Longrightarrow> stack_inv (clear_stacks st)"
  "stack_inv st \<Longrightarrow> stack_inv (map_cursors m st)"
  by (auto simp: stack_inv_def break_group_def clear_stacks_def map_cursors_def map_group_cursors_def)

text \<open>The pushed operations end the history, and only whole groups are evicted from its old end.\<close>

definition history_ops :: "undo_stack \<Rightarrow> edit_op list" where
  "history_ops st = concat (map grp_ops (us_undo st))"

lemma push_history:
  assumes "0 < max_entries st" "length (us_undo st) \<le> max_entries st"
  shows "\<exists>k. history_ops (push g st ops b a) =
    concat (map grp_ops (drop k (us_undo st))) @ ops
    \<and> (length (us_undo st) < max_entries st \<longrightarrow> k = 0) \<and> k \<le> 1"
proof -
  consider "ops = []" | "ops \<noteq> []" "merges g st ops b" | "ops \<noteq> []" "\<not> merges g st ops b" by blast
  then show ?thesis
  proof cases
    case 1
    then show ?thesis by (intro exI [of _ 0]) (simp add: push_Nil history_ops_def)
  next
    case 2
    then obtain us l where "us_undo st = us @ [l]"
      unfolding merges_def by (metis append_butlast_last_id)
    with 2 show ?thesis by (intro exI [of _ 0]) (simp add: history_ops_def push_merged)
  next
    case 3
    let ?k = "Suc (length (us_undo st)) - max_entries st"
    have "?k \<le> length (us_undo st)" using assms by linarith
    with 3 assms show ?thesis by (intro exI [of _ ?k]) (auto simp: history_ops_def push_new)
  qed
qed

section \<open>The states of an undo stack\<close>

text \<open>Every call of the public interface is a step; \<open>stack_states n\<close> are the stacks a client with
  limit \<open>n\<close> can ever hold.\<close>

inductive stack_step :: "segmenter \<Rightarrow> undo_stack \<Rightarrow> undo_stack \<Rightarrow> bool" for g :: segmenter where
  step_push: "stack_step g st (push g st ops b a)"
| step_undo: "undo st = Some (gr, st') \<Longrightarrow> stack_step g st st'"
| step_redo: "redo st = Some (gr, st') \<Longrightarrow> stack_step g st st'"
| step_break: "stack_step g st (break_group st)"
| step_map: "stack_step g st (map_cursors m st)"
| step_clear: "stack_step g st (clear_stacks st)"

inductive stack_states :: "segmenter \<Rightarrow> nat \<Rightarrow> undo_stack \<Rightarrow> bool" for g :: segmenter and n :: nat where
  initial: "stack_states g n (undo_stack_new n)"
| step: "stack_states g n st \<Longrightarrow> stack_step g st st' \<Longrightarrow> stack_states g n st'"

inductive_cases stack_stepE [elim!]: "stack_step g st st'"

lemma stack_step_inv:
  assumes "stack_step g st st'" "stack_inv st"
  shows "stack_inv st' \<and> max_entries st' = max_entries st"
  using assms
  by (auto dest: undo_inv redo_inv simp: push_inv other_stack_inv)
    (simp_all add: break_group_def clear_stacks_def map_cursors_def)

lemma stack_states_inv: "stack_states g n st \<Longrightarrow> stack_inv st \<and> max_entries st = n"
proof (induction rule: stack_states.induct)
  case initial
  then show ?case by (simp add: stack_inv_new) (simp add: undo_stack_new_def)
next
  case (step st st')
  then show ?case using stack_step_inv by metis
qed

end
