(* ===== verification/RteInput.thy ===== *)
theory RteInput
  imports RteRules
begin

text \<open>
  Key bindings and cursor movement (\<^verbatim>\<open>crates/rte/src/widget/input.rs\<close>). The Unicode table
  behind \<^verbatim>\<open>char::is_alphanumeric\<close> is the parameter \<open>alnum\<close> (a test on the bytes of one
  character); the key and modifier values of the windowing library are represented by the cases the
  bindings distinguish.
\<close>

section \<open>Key bindings\<close>

datatype move_action =
    MLeft | MRight | MUp | MDown | MHome | MEnd | MWordLeft | MWordRight | MDocumentStart | MDocumentEnd

datatype key_action =
    KeyEdit edit_action
  | KeyMove move_action
  | KeySelect move_action
  | KeySelectAll
  | KeyCopy
  | KeyCut
  | KeyPaste
  | KeyUndo
  | KeyRedo
  | KeyNone

datatype named_key =
    ArrowLeft | ArrowRight | ArrowUp | ArrowDown | HomeKey | EndKey | Backspace | DeleteKey | Enter
  | OtherNamed

datatype key = Named named_key | Character string | Unidentified

definition arrow_action :: "move_action \<Rightarrow> move_action \<Rightarrow> bool \<Rightarrow> bool \<Rightarrow> key_action" where
  "arrow_action base widened cmd shift =
     (let motion = (if cmd then widened else base)
      in if shift then KeySelect motion else KeyMove motion)"

text \<open>
  \<^verbatim>\<open>to_lowercase\<close> is \<open>ascii_lower_char\<close> as far as a comparison with these letters can tell: none
  of them has a lower-case preimage outside ASCII.
\<close>

fun map_command_shortcut :: "key \<Rightarrow> bool \<Rightarrow> key_action option" where
  "map_command_shortcut (Character ch) shift =
     (let k = map ascii_lower_char ch
      in if k = ''b'' then Some (KeyEdit (AToggleInlineStyle BOLD))
         else if k = ''i'' then Some (KeyEdit (AToggleInlineStyle ITALIC))
         else if k = ''u'' then Some (KeyEdit (AToggleInlineStyle UNDERLINE))
         else if k = ''c'' then Some KeyCopy
         else if k = ''x'' then Some KeyCut
         else if k = ''v'' then Some KeyPaste
         else if k = ''z'' \<and> shift then Some KeyRedo
         else if k = ''z'' then Some KeyUndo
         else if k = ''y'' then Some KeyRedo
         else if k = ''a'' then Some KeySelectAll
         else None)"
| "map_command_shortcut _ shift = None"

fun map_named_key :: "named_key \<Rightarrow> bool \<Rightarrow> bool \<Rightarrow> key_action option" where
  "map_named_key ArrowLeft cmd shift = Some (arrow_action MLeft MWordLeft cmd shift)"
| "map_named_key ArrowRight cmd shift = Some (arrow_action MRight MWordRight cmd shift)"
| "map_named_key ArrowUp cmd shift =
     (if \<not> cmd then Some (if shift then KeySelect MUp else KeyMove MUp) else None)"
| "map_named_key ArrowDown cmd shift =
     (if \<not> cmd then Some (if shift then KeySelect MDown else KeyMove MDown) else None)"
| "map_named_key HomeKey cmd shift = Some (arrow_action MHome MDocumentStart cmd shift)"
| "map_named_key EndKey cmd shift = Some (arrow_action MEnd MDocumentEnd cmd shift)"
| "map_named_key Backspace cmd shift = Some (KeyEdit ADeleteBackward)"
| "map_named_key DeleteKey cmd shift = Some (KeyEdit ADeleteForward)"
| "map_named_key Enter cmd shift = Some (KeyEdit ASplitBlock)"
| "map_named_key OtherNamed cmd shift = None"

definition map_key_event :: "key \<Rightarrow> bool \<Rightarrow> bool \<Rightarrow> string option \<Rightarrow> key_action" where
  "map_key_event k cmd shift t =
     (case (if cmd then map_command_shortcut k shift else None) of
        Some a \<Rightarrow> a
      | None \<Rightarrow>
          (case (case k of Named n \<Rightarrow> map_named_key n cmd shift | _ \<Rightarrow> None) of
             Some a \<Rightarrow> a
           | None \<Rightarrow>
               (case (if \<not> cmd then t else None) of
                  Some s \<Rightarrow>
                    let filtered = concat (filter (\<lambda>c. \<not> is_control c) (utf8_chars s))
                    in if filtered \<noteq> [] then KeyEdit (AInsertText filtered) else KeyNone
                | None \<Rightarrow> KeyNone)))"

section \<open>Character classes\<close>

datatype char_class = CWord | CWhitespace | COther

definition classify :: "(string \<Rightarrow> bool) \<Rightarrow> string \<Rightarrow> char_class" where
  "classify alnum c =
     (if alnum c \<or> c = ''_'' then CWord else if is_whitespace c then CWhitespace else COther)"

definition classify_grapheme :: "(string \<Rightarrow> bool) \<Rightarrow> string \<Rightarrow> char_class" where
  "classify_grapheme alnum gr =
     (case utf8_chars gr of [] \<Rightarrow> COther | c # _ \<Rightarrow> classify alnum c)"

section \<open>Cursor movement\<close>

text \<open>\<^verbatim>\<open>doc.block(i).map_or(0, Block::char_len)\<close>\<close>

definition block_len_at :: "segmenter \<Rightarrow> document \<Rightarrow> nat \<Rightarrow> nat" where
  "block_len_at g d i = (case doc_block d i of None \<Rightarrow> 0 | Some b \<Rightarrow> block_char_len g b)"

definition block_text :: "document \<Rightarrow> nat \<Rightarrow> string" where
  "block_text d i = (case doc_block d i of None \<Rightarrow> [] | Some b \<Rightarrow> flattened_text b)"

definition move_left :: "segmenter \<Rightarrow> document \<Rightarrow> doc_position \<Rightarrow> doc_position" where
  "move_left g d p =
     (if offset p > 0 then DocPosition (block_index p) (offset p - 1)
      else if block_index p > 0 then
        DocPosition (block_index p - 1) (block_len_at g d (block_index p - 1))
      else p)"

definition move_right :: "segmenter \<Rightarrow> document \<Rightarrow> doc_position \<Rightarrow> doc_position" where
  "move_right g d p =
     (if offset p < block_len_at g d (block_index p) then
        DocPosition (block_index p) (offset p + 1)
      else if block_index p + 1 < block_count d then DocPosition (block_index p + 1) 0
      else p)"

text \<open>Walking left from \<open>idx\<close> while the grapheme before it satisfies the test, and right while the
  grapheme at it does.\<close>

fun walk_left :: "(string \<Rightarrow> bool) \<Rightarrow> string list \<Rightarrow> nat \<Rightarrow> nat" where
  "walk_left P gs 0 = 0"
| "walk_left P gs (Suc i) = (if P (gs ! i) then walk_left P gs i else Suc i)"

definition walk_right :: "(string \<Rightarrow> bool) \<Rightarrow> string list \<Rightarrow> nat \<Rightarrow> nat" where
  "walk_right P gs i = i + length (takeWhile P (drop i gs))"

definition word_left ::
  "segmenter \<Rightarrow> (string \<Rightarrow> bool) \<Rightarrow> document \<Rightarrow> doc_position \<Rightarrow> doc_position" where
  "word_left g alnum d p =
     (let gs = g (block_text d (block_index p)); cls = classify_grapheme alnum
      in if offset p = 0 then
           (if block_index p > 0 then
              DocPosition (block_index p - 1) (block_len_at g d (block_index p - 1))
            else p)
         else
           let idx = walk_left (\<lambda>x. cls x = CWhitespace) gs (min (offset p) (length gs))
           in if idx = 0 then DocPosition (block_index p) 0
              else DocPosition (block_index p) (walk_left (\<lambda>x. cls x = cls (gs ! (idx - 1))) gs idx))"

definition word_right ::
  "segmenter \<Rightarrow> (string \<Rightarrow> bool) \<Rightarrow> document \<Rightarrow> doc_position \<Rightarrow> doc_position" where
  "word_right g alnum d p =
     (let gs = g (block_text d (block_index p)); cls = classify_grapheme alnum
      in if offset p \<ge> length gs then
           (if block_index p + 1 < block_count d then DocPosition (block_index p + 1) 0 else p)
         else
           let idx = min (offset p) (length gs);
               idx1 = walk_right (\<lambda>x. cls x = cls (gs ! idx)) gs idx
           in DocPosition (block_index p) (walk_right (\<lambda>x. cls x = CWhitespace) gs idx1))"

definition home :: "doc_position \<Rightarrow> doc_position" where
  "home p = DocPosition (block_index p) 0"

definition end_of_block :: "segmenter \<Rightarrow> document \<Rightarrow> doc_position \<Rightarrow> doc_position" where
  "end_of_block g d p = DocPosition (block_index p) (block_len_at g d (block_index p))"

definition document_start :: doc_position where
  "document_start = position_zero"

definition document_end :: "segmenter \<Rightarrow> document \<Rightarrow> doc_position" where
  "document_end g d = end_position g d"

definition word_at ::
  "segmenter \<Rightarrow> (string \<Rightarrow> bool) \<Rightarrow> document \<Rightarrow> doc_position \<Rightarrow> doc_position \<times> doc_position" where
  "word_at g alnum d p =
     (let gs = g (block_text d (block_index p)); len = length gs; cls = classify_grapheme alnum
      in if len = 0 then (DocPosition (block_index p) 0, DocPosition (block_index p) 0)
         else
           let anchor_idx = (if offset p > 0 \<and> offset p \<le> len then offset p - 1
                             else if offset p < len then offset p else len - 1);
               same = (\<lambda>x. cls x = cls (gs ! anchor_idx));
               start = walk_left same gs anchor_idx;
               e = walk_right same gs (anchor_idx + 1)
           in (DocPosition (block_index p) start,
               DocPosition (block_index p) (min e (block_len_at g d (block_index p)))))"

definition select_block :: "segmenter \<Rightarrow> document \<Rightarrow> doc_position \<Rightarrow> doc_position \<times> doc_position" where
  "select_block g d p =
     (DocPosition (block_index p) 0, DocPosition (block_index p) (block_len_at g d (block_index p)))"

end
