(* ===== verification/RteEditor.thy ===== *)
theory RteEditor
  imports RteUndo RteInput
begin

text \<open>
  The editor state and its actions (\<^verbatim>\<open>crates/rte/src/widget/editor_state.rs\<close>, with the cursor
  and drag state of \<^verbatim>\<open>widget/cursor.rs\<close>): document, selection, undo history, pending style and
  internal clipboard, and every action the widget emits. A panic anywhere is the result of the
  whole action.
\<close>

section \<open>State\<close>

text \<open>The pixel column of the renderer is an \<^verbatim>\<open>f32\<close>, kept here as its bits; the actions below
  only clear it.\<close>

record cursor_state =
  focused :: bool
  target_x :: "32 word option"
  target_column :: "nat option"

definition cursor_state_new :: cursor_state where
  "cursor_state_new = \<lparr>focused = False, target_x = None, target_column = None\<rparr>"

definition clear_targets :: "cursor_state \<Rightarrow> cursor_state" where
  "clear_targets c = c\<lparr>target_x := None, target_column := None\<rparr>"

record drag_state =
  drag_anchor :: doc_position
  drag_active :: bool

definition drag_start :: "doc_position \<Rightarrow> drag_state" where
  "drag_start p = \<lparr>drag_anchor = p, drag_active = True\<rparr>"

record internal_clipboard =
  clip_slice :: doc_slice
  clip_text :: string

record editor_state =
  ed_document :: document
  ed_selection :: doc_selection
  ed_undo_stack :: undo_stack
  pending_style :: inline_style
  ed_cursor :: cursor_state
  ed_drag :: "drag_state option"
  ed_clipboard :: "internal_clipboard option"

definition from_document :: "document \<Rightarrow> editor_state" where
  "from_document d =
     \<lparr>ed_document = d, ed_selection = caret position_zero, ed_undo_stack = undo_stack_default,
      pending_style = 0, ed_cursor = cursor_state_new, ed_drag = None, ed_clipboard = None\<rparr>"

definition editor_new :: editor_state where
  "editor_new = from_document document_new"

datatype action =
    Edit edit_action
  | Move move_action
  | Select move_action
  | SelectAll
  | Undo
  | Redo
  | Copy
  | Cut
  | Paste string
  | Click doc_position
  | DoubleClick doc_position
  | TripleClick doc_position
  | Drag doc_position
  | LinkClicked string
  | Focus
  | Blur

definition selection_text :: "segmenter \<Rightarrow> editor_state \<Rightarrow> string" where
  "selection_text g ed =
     (let sel = ed_selection ed
      in if is_collapsed sel then []
         else case doc_slice_of g (ed_document ed) (sel_start sel) (sel_end sel) of
                None \<Rightarrow> []
              | Some sl \<Rightarrow> join_lines (map flattened_text (slice_blocks sl)))"

definition set_selection :: "doc_selection \<Rightarrow> editor_state \<Rightarrow> editor_state" where
  "set_selection sel ed = ed\<lparr>ed_selection := sel, ed_cursor := clear_targets (ed_cursor ed)\<rparr>"

section \<open>Edit actions\<close>

text \<open>\<^verbatim>\<open>update_cursor_after_ops\<close>: the last operation that determines the caret does.\<close>

fun cursor_scan :: "segmenter \<Rightarrow> edit_op list \<Rightarrow> doc_position option" where
  "cursor_scan g [] = None"
| "cursor_scan g (InsertText p t # ops) = Some (DocPosition (block_index p) (offset p + text_len g t))"
| "cursor_scan g (DeleteRange s e del # ops) = Some s"
| "cursor_scan g (SplitBlock p # ops) = Some (DocPosition (block_index p + 1) 0)"
| "cursor_scan g (MergeBlocks bi saved mo # ops) = Some (DocPosition (bi - 1) mo)"
| "cursor_scan g (_ # ops) = cursor_scan g ops"

definition update_cursor_after_ops :: "segmenter \<Rightarrow> edit_op list \<Rightarrow> doc_selection \<Rightarrow> doc_selection" where
  "update_cursor_after_ops g ops sel =
     (case cursor_scan g (rev ops) of None \<Rightarrow> sel | Some p \<Rightarrow> caret p)"

text \<open>The loop that applies the operations, maps the selection and collects the dirty blocks.\<close>

fun apply_tracked ::
  "segmenter \<Rightarrow> edit_op list \<Rightarrow> document \<Rightarrow> doc_selection \<Rightarrow> (document \<times> doc_selection \<times> nat list) res" where
  "apply_tracked g [] d sel = Inr (d, sel, [])"
| "apply_tracked g (op # ops) d sel =
     res_bind (apply_op g op d) (\<lambda>(d', m).
     res_bind (apply_tracked g ops d' (map_selection m sel)) (\<lambda>(d'', sel'', dirty).
       Inr (d'', sel'', pm_block_index m # dirty)))"

definition clamp_selection :: "segmenter \<Rightarrow> document \<Rightarrow> doc_selection \<Rightarrow> doc_selection" where
  "clamp_selection g d sel =
     \<lparr>anchor = clamp_position g d (anchor sel), focus = clamp_position g d (focus sel)\<rparr>"

fun toggled_style :: "edit_action \<Rightarrow> inline_style option" where
  "toggled_style (AToggleInlineStyle s) = Some s"
| "toggled_style _ = None"

definition apply_action :: "segmenter \<Rightarrow> edit_action \<Rightarrow> editor_state \<Rightarrow> editor_state res" where
  "apply_action g act ed =
     (let sel0 = ed_selection ed;
          collapsed_toggle = (if is_collapsed sel0 then toggled_style act else None)
      in res_bind (resolve g (ed_document ed) sel0 act (pending_style ed)) (\<lambda>ops.
           if ops = [] then
             Inr (case collapsed_toggle of
                    Some style \<Rightarrow>
                      ed\<lparr>pending_style := style_toggle style (pending_style ed),
                         ed_undo_stack := break_group (ed_undo_stack ed)\<rparr>
                  | None \<Rightarrow> ed)
           else
             res_bind (apply_tracked g ops (ed_document ed) sel0) (\<lambda>(d1, sel1, dirty).
               let sel2 = update_cursor_after_ops g ops sel1;
                   d2 = normalize_blocks d1 (sort_dedup dirty);
                   sel3 = clamp_selection g d2 sel2
               in Inr (ed\<lparr>ed_document := d2, ed_selection := sel3,
                          ed_undo_stack := push g (ed_undo_stack ed) ops sel0 sel3,
                          pending_style := 0,
                          ed_cursor := clear_targets (ed_cursor ed)\<rparr>))))"

section \<open>Paste\<close>

text \<open>Apply an operation and record it.\<close>

definition do_op :: "segmenter \<Rightarrow> edit_op \<Rightarrow> document \<times> edit_op list \<Rightarrow> (document \<times> edit_op list) res" where
  "do_op g op = (\<lambda>(d, ops). res_bind (apply_op g op d) (\<lambda>(d', _). Inr (d', ops @ [op])))"

definition splice_runs_into_block ::
  "segmenter \<Rightarrow> nat \<Rightarrow> nat \<Rightarrow> styled_run list \<Rightarrow> document \<times> edit_op list \<Rightarrow>
     (document \<times> edit_op list) res" where
  "splice_runs_into_block g bi off runs = (\<lambda>(d, ops).
     case doc_block d bi of
       None \<Rightarrow> Inr (d, ops)
     | Some original \<Rightarrow>
         res_bind
           (case block_runs original of
              None \<Rightarrow> Inr original
            | Some existing \<Rightarrow>
                let (existing', split_idx) = split_runs_at g existing off
                in res_bind (vec_insert_all split_idx runs existing') (\<lambda>rs. Inr (set_runs original rs)))
           (\<lambda>new_block.
              if block_count d \<le> 1 then
                res_bind (do_op g (InsertBlock bi new_block) (d, ops)) (\<lambda>(d1, ops1).
                  if block_count d1 > 1 then
                    do_op g (RemoveBlock (bi + 1)
                      (case doc_block d1 (bi + 1) of None \<Rightarrow> empty_paragraph | Some b \<Rightarrow> b)) (d1, ops1)
                  else Inr (d1, ops1))
              else
                res_bind (do_op g (RemoveBlock bi original) (d, ops))
                  (do_op g (InsertBlock bi new_block))))"

type_synonym pasting = "document \<times> edit_op list"

definition non_empty_runs_of :: "styled_run list \<Rightarrow> styled_run list" where
  "non_empty_runs_of runs = filter (\<lambda>r. \<not> run_is_empty r) runs"

text \<open>Each paste strategy returns the document and operations, and the caret it sets, if it does.\<close>

definition paste_inline_runs ::
  "segmenter \<Rightarrow> doc_position \<Rightarrow> block \<Rightarrow> pasting \<Rightarrow> (pasting \<times> doc_position option) res" where
  "paste_inline_runs g p source_block st =
     (case block_runs source_block of
        None \<Rightarrow> Inr (st, None)
      | Some all_runs \<Rightarrow>
          let runs = non_empty_runs_of all_runs
          in if runs = [] then Inr (st, None)
             else res_bind (splice_runs_into_block g (block_index p) (offset p) runs st) (\<lambda>st'.
                    Inr (st', Some (DocPosition (block_index p) (offset p + runs_len g runs)))))"

fun insert_all_blocks :: "segmenter \<Rightarrow> nat \<Rightarrow> block list \<Rightarrow> pasting \<Rightarrow> (pasting \<times> nat) res" where
  "insert_all_blocks g idx [] st = Inr (st, idx)"
| "insert_all_blocks g idx (b # bs) st =
     res_bind (do_op g (InsertBlock idx b) st) (insert_all_blocks g (idx + 1) bs)"

definition paste_complete_blocks ::
  "segmenter \<Rightarrow> doc_position \<Rightarrow> block list \<Rightarrow> pasting \<Rightarrow> (pasting \<times> doc_position option) res" where
  "paste_complete_blocks g p bs st =
     res_bind
       (if offset p > 0 then
          res_bind (do_op g (SplitBlock p) st) (\<lambda>st'. Inr (st', block_index p + 1))
        else Inr (st, block_index p))
       (\<lambda>(st1, idx).
          res_bind (insert_all_blocks g idx bs st1) (\<lambda>((d2, ops2), idx2).
            Inr ((d2, ops2), Some (DocPosition (min idx2 (block_count d2 - 1)) 0))))"

definition append_runs_to_block :: "segmenter \<Rightarrow> nat \<Rightarrow> styled_run list \<Rightarrow> pasting \<Rightarrow> pasting res" where
  "append_runs_to_block g bi runs st =
     (let non_empty = non_empty_runs_of runs
      in if non_empty = [] then Inr st
         else splice_runs_into_block g bi (block_len_at g (fst st) bi) non_empty st)"

definition prepend_runs_to_block :: "segmenter \<Rightarrow> nat \<Rightarrow> styled_run list \<Rightarrow> pasting \<Rightarrow> pasting res" where
  "prepend_runs_to_block g bi runs st =
     (let non_empty = non_empty_runs_of runs
      in if non_empty = [] then Inr st else splice_runs_into_block g bi 0 non_empty st)"

definition paste_multi_block ::
  "segmenter \<Rightarrow> doc_position \<Rightarrow> block list \<Rightarrow> pasting \<Rightarrow> (pasting \<times> doc_position option) res" where
  "paste_multi_block g p bs st =
     res_bind (do_op g (SplitBlock p) st) (\<lambda>st1.
     res_bind
       (case block_runs (hd bs) of
          Some runs \<Rightarrow>
            res_bind (append_runs_to_block g (block_index p) runs st1) (\<lambda>st2. Inr (st2, block_index p + 1))
        | None \<Rightarrow>
            res_bind (do_op g (InsertBlock (block_index p + 1) (hd bs)) st1) (\<lambda>st2.
              Inr (st2, block_index p + 2)))
       (\<lambda>(st2, idx).
     res_bind
       (if length bs > 2 then insert_all_blocks g idx (butlast (tl bs)) st2 else Inr (st2, idx))
       (\<lambda>(st3, idx3).
          if length bs > 1 then
            (case block_runs (last bs) of
               Some runs \<Rightarrow>
                 res_bind (prepend_runs_to_block g idx3 runs st3) (\<lambda>st4.
                   Inr (st4, Some (DocPosition idx3 (runs_len g runs))))
             | None \<Rightarrow>
                 res_bind (do_op g (InsertBlock idx3 (last bs)) st3) (\<lambda>st4.
                   Inr (st4, Some (DocPosition (idx3 + 1) 0))))
          else
            Inr (st3, Some (DocPosition (block_index p) (block_len_at g (fst st3) (block_index p)))))))"

definition paste_slice :: "segmenter \<Rightarrow> doc_slice \<Rightarrow> editor_state \<Rightarrow> editor_state res" where
  "paste_slice g sl ed =
     (let bs = slice_blocks sl; sel0 = ed_selection ed; d = ed_document ed
      in if bs = [] then Inr ed
         else
           res_bind
             (if \<not> is_collapsed sel0 then
                let p = post_delete_position d sel0;
                    delete_ops = resolve_delete_selection g d sel0
                in res_bind (apply_ops g delete_ops d) (\<lambda>d1. Inr ((d1, delete_ops), caret p, p))
              else Inr ((d, []), sel0, focus sel0))
             (\<lambda>(st1, sel1, p).
           res_bind
             (if length bs = 1 \<and> open_start sl \<and> open_end sl then paste_inline_runs g p (hd bs) st1
              else if length bs = 1 \<and> \<not> open_start sl \<and> \<not> open_end sl then
                paste_complete_blocks g p bs st1
              else if list_all (\<lambda>b. \<not> is_inline_block b) bs then paste_complete_blocks g p bs st1
              else paste_multi_block g p bs st1)
             (\<lambda>((d2, ops), cursor).
               let sel2 = (case cursor of Some q \<Rightarrow> caret q | None \<Rightarrow> sel1);
                   d3 = normalize d2;
                   sel3 = clamp_selection g d3 sel2
               in Inr (ed\<lparr>ed_document := d3, ed_selection := sel3,
                          ed_undo_stack := (if ops \<noteq> [] then push g (ed_undo_stack ed) ops sel0 sel3
                                            else ed_undo_stack ed),
                          pending_style := 0,
                          ed_cursor := clear_targets (ed_cursor ed)\<rparr>))))"

definition LF :: char where "LF = CHR 0x0A"
definition CR :: char where "CR = CHR 0x0D"

text \<open>\<^verbatim>\<open>replace("\r\n", "\n").replace('\r', "\n")\<close> and \<^verbatim>\<open>split('\n')\<close>.\<close>

fun crlf_to_lf :: "string \<Rightarrow> string" where
  "crlf_to_lf (c # c' # s) =
     (if c = CR \<and> c' = LF then LF # crlf_to_lf s else c # crlf_to_lf (c' # s))"
| "crlf_to_lf s = s"

fun split_on :: "char \<Rightarrow> string \<Rightarrow> string list" where
  "split_on sep [] = [[]]"
| "split_on sep (c # s) =
     (if c = sep then [] # split_on sep s
      else case split_on sep s of [] \<Rightarrow> [[c]] | l # ls \<Rightarrow> (c # l) # ls)"

definition paste_plain_text :: "segmenter \<Rightarrow> string \<Rightarrow> editor_state \<Rightarrow> editor_state res" where
  "paste_plain_text g t ed =
     (if LF \<notin> set t \<and> CR \<notin> set t then apply_action g (AInsertText t) ed
      else
        let normalized = map (\<lambda>c. if c = CR then LF else c) (crlf_to_lf t)
        in paste_slice g \<lparr>slice_blocks = map (\<lambda>line. Paragraph [run_plain line]) (split_on LF normalized),
                          open_start = False, open_end = False\<rparr> ed)"

section \<open>Undo and redo\<close>

text \<open>The inverse operations in reverse order, each computed on the document it is applied to.\<close>

fun undo_ops :: "segmenter \<Rightarrow> edit_op list \<Rightarrow> document \<Rightarrow> document res" where
  "undo_ops g [] d = Inr d"
| "undo_ops g (op # rest) d =
     res_bind (apply_op g (invert_with_doc g d op) d) (\<lambda>(d', _). undo_ops g rest d')"

definition editor_undo :: "segmenter \<Rightarrow> editor_state \<Rightarrow> editor_state res" where
  "editor_undo g ed =
     (case undo (ed_undo_stack ed) of
        None \<Rightarrow> Inr ed
      | Some (gr, st) \<Rightarrow>
          res_bind (undo_ops g (rev (grp_ops gr)) (ed_document ed)) (\<lambda>d1.
            let d2 = normalize d1
            in Inr (ed\<lparr>ed_document := d2, ed_selection := clamp_selection g d2 (cursor_before gr),
                       ed_undo_stack := st\<rparr>)))"

definition editor_redo :: "segmenter \<Rightarrow> editor_state \<Rightarrow> editor_state res" where
  "editor_redo g ed =
     (case redo (ed_undo_stack ed) of
        None \<Rightarrow> Inr ed
      | Some (gr, st) \<Rightarrow>
          res_bind (apply_ops g (grp_ops gr) (ed_document ed)) (\<lambda>d1.
            let d2 = normalize d1
            in Inr (ed\<lparr>ed_document := d2, ed_selection := clamp_selection g d2 (cursor_after gr),
                       ed_undo_stack := st\<rparr>)))"

section \<open>Movement and mouse\<close>

definition is_vertical :: "move_action \<Rightarrow> bool" where
  "is_vertical m \<longleftrightarrow> m = MUp \<or> m = MDown"

fun move_target ::
  "segmenter \<Rightarrow> (string \<Rightarrow> bool) \<Rightarrow> move_action \<Rightarrow> bool \<Rightarrow> editor_state \<Rightarrow> doc_position" where
  "move_target g alnum MLeft ext ed =
     (if \<not> ext \<and> \<not> is_collapsed (ed_selection ed) then sel_start (ed_selection ed)
      else move_left g (ed_document ed) (focus (ed_selection ed)))"
| "move_target g alnum MRight ext ed =
     (if \<not> ext \<and> \<not> is_collapsed (ed_selection ed) then sel_end (ed_selection ed)
      else move_right g (ed_document ed) (focus (ed_selection ed)))"
| "move_target g alnum MWordLeft ext ed =
     word_left g alnum (ed_document ed) (focus (ed_selection ed))"
| "move_target g alnum MWordRight ext ed =
     word_right g alnum (ed_document ed) (focus (ed_selection ed))"
| "move_target g alnum MHome ext ed = home (focus (ed_selection ed))"
| "move_target g alnum MEnd ext ed = end_of_block g (ed_document ed) (focus (ed_selection ed))"
| "move_target g alnum MDocumentStart ext ed = document_start"
| "move_target g alnum MDocumentEnd ext ed = document_end g (ed_document ed)"
| "move_target g alnum MUp ext ed =
     (let f = focus (ed_selection ed);
          desired = (case target_column (ed_cursor ed) of None \<Rightarrow> offset f | Some c \<Rightarrow> c)
      in if block_index f > 0 then
           DocPosition (block_index f - 1)
             (min (block_len_at g (ed_document ed) (block_index f - 1)) desired)
         else DocPosition 0 0)"
| "move_target g alnum MDown ext ed =
     (let f = focus (ed_selection ed);
          desired = (case target_column (ed_cursor ed) of None \<Rightarrow> offset f | Some c \<Rightarrow> c)
      in if block_index f + 1 < block_count (ed_document ed) then
           DocPosition (block_index f + 1)
             (min (block_len_at g (ed_document ed) (block_index f + 1)) desired)
         else end_position g (ed_document ed))"

definition apply_move ::
  "segmenter \<Rightarrow> (string \<Rightarrow> bool) \<Rightarrow> move_action \<Rightarrow> bool \<Rightarrow> editor_state \<Rightarrow> editor_state" where
  "apply_move g alnum m ext ed =
     (let f = focus (ed_selection ed);
          new_focus = move_target g alnum m ext ed;
          cur = ed_cursor ed
      in ed\<lparr>ed_selection := (if ext then sel_range (anchor (ed_selection ed)) new_focus
                             else caret new_focus),
            ed_cursor := (if is_vertical m
              then (if target_column cur = None then cur\<lparr>target_column := Some (offset f)\<rparr> else cur)
              else clear_targets cur)\<rparr>)"

definition focus_cursor :: "cursor_state \<Rightarrow> cursor_state" where
  "focus_cursor c = c\<lparr>focused := True\<rparr>"

definition handle_click :: "segmenter \<Rightarrow> doc_position \<Rightarrow> editor_state \<Rightarrow> editor_state" where
  "handle_click g p ed =
     (let q = clamp_position g (ed_document ed) p
      in ed\<lparr>ed_selection := caret q, pending_style := 0, ed_cursor := focus_cursor (ed_cursor ed),
            ed_drag := Some (drag_start q)\<rparr>)"

definition handle_double_click ::
  "segmenter \<Rightarrow> (string \<Rightarrow> bool) \<Rightarrow> doc_position \<Rightarrow> editor_state \<Rightarrow> editor_state" where
  "handle_double_click g alnum p ed =
     (let (s, e) = word_at g alnum (ed_document ed) (clamp_position g (ed_document ed) p)
      in ed\<lparr>ed_selection := sel_range s e, pending_style := 0,
            ed_cursor := focus_cursor (ed_cursor ed), ed_drag := None\<rparr>)"

definition handle_triple_click :: "segmenter \<Rightarrow> doc_position \<Rightarrow> editor_state \<Rightarrow> editor_state" where
  "handle_triple_click g p ed =
     (let (s, e) = select_block g (ed_document ed) (clamp_position g (ed_document ed) p)
      in ed\<lparr>ed_selection := sel_range s e, pending_style := 0,
            ed_cursor := focus_cursor (ed_cursor ed), ed_drag := None\<rparr>)"

definition handle_drag :: "segmenter \<Rightarrow> doc_position \<Rightarrow> editor_state \<Rightarrow> editor_state" where
  "handle_drag g p ed =
     (let q = clamp_position g (ed_document ed) p
      in case ed_drag ed of
           Some dr \<Rightarrow> ed\<lparr>ed_selection := sel_range (drag_anchor dr) q\<rparr>
         | None \<Rightarrow> ed)"

text \<open>The first half of Copy and Cut: capture the selected slice.\<close>

definition capture_clipboard :: "segmenter \<Rightarrow> editor_state \<Rightarrow> editor_state" where
  "capture_clipboard g ed =
     (let sel = ed_selection ed
      in if is_collapsed sel then ed
         else case doc_slice_of g (ed_document ed) (sel_start sel) (sel_end sel) of
                Some sl \<Rightarrow> ed\<lparr>ed_clipboard := Some \<lparr>clip_slice = sl, clip_text = selection_text g ed\<rparr>\<rparr>
              | None \<Rightarrow> ed)"

fun perform ::
  "segmenter \<Rightarrow> (string \<Rightarrow> bool) \<Rightarrow> action \<Rightarrow> editor_state \<Rightarrow> editor_state res" where
  "perform g alnum (Edit act) ed = apply_action g act ed"
| "perform g alnum (Move m) ed = Inr (apply_move g alnum m False ed)"
| "perform g alnum (Select m) ed = Inr (apply_move g alnum m True ed)"
| "perform g alnum SelectAll ed =
     Inr (ed\<lparr>ed_selection := sel_range position_zero (end_position g (ed_document ed))\<rparr>)"
| "perform g alnum Undo ed = editor_undo g ed"
| "perform g alnum Redo ed = editor_redo g ed"
| "perform g alnum Copy ed = Inr (capture_clipboard g ed)"
| "perform g alnum Cut ed =
     (let ed1 = capture_clipboard g ed
      in if \<not> is_collapsed (ed_selection ed1) then apply_action g ADeleteSelection ed1 else Inr ed1)"
| "perform g alnum (Paste t) ed =
     (case ed_clipboard ed of
        Some ic \<Rightarrow>
          if clip_text ic = t then paste_slice g (clip_slice ic) ed else paste_plain_text g t ed
      | None \<Rightarrow> paste_plain_text g t ed)"
| "perform g alnum (Click p) ed = Inr (handle_click g p ed)"
| "perform g alnum (DoubleClick p) ed = Inr (handle_double_click g alnum p ed)"
| "perform g alnum (TripleClick p) ed = Inr (handle_triple_click g p ed)"
| "perform g alnum (Drag p) ed = Inr (handle_drag g p ed)"
| "perform g alnum (LinkClicked href) ed = Inr ed"
| "perform g alnum Focus ed = Inr (ed\<lparr>ed_cursor := focus_cursor (ed_cursor ed)\<rparr>)"
| "perform g alnum Blur ed = Inr (ed\<lparr>ed_cursor := (ed_cursor ed)\<lparr>focused := False\<rparr>, ed_drag := None\<rparr>)"

end
