(* ===== verification/RtePlain.thy ===== *)
theory RtePlain
  imports RteOpsAbs RteEditor
begin

text \<open>
  Operations never leave a class of texts that is closed under concatenation and under cuts at
  cluster boundaries: if the document and the texts an operation carries are in the class, so is
  the result. Every operation and every inverse is covered, so the class is an invariant of
  editing, undo and redo.
\<close>

fun plain_op :: "(string \<Rightarrow> bool) \<Rightarrow> edit_op \<Rightarrow> bool" where
  "plain_op plain (InsertText p t) = plain t"
| "plain_op plain (DeleteRange s e del) =
     (list_all (plain_block plain) (del_blocks del) \<and>
      (case end_tail del of None \<Rightarrow> True | Some b \<Rightarrow> plain_block plain b))"
| "plain_op plain (MergeBlocks bi saved mo) = plain_block plain saved"
| "plain_op plain (InsertBlock i b) = plain_block plain b"
| "plain_op plain (RemoveBlock i saved) = plain_block plain saved"
| "plain_op plain (ReplaceBlock i old new) = (plain_block plain old \<and> plain_block plain new)"
| "plain_op plain (RestoreMergedBlock bi saved mo) = plain_block plain saved"
| "plain_op plain _ = True"

fun plain_action :: "(string \<Rightarrow> bool) \<Rightarrow> edit_action \<Rightarrow> bool" where
  "plain_action plain (AInsertText t) = plain t"
| "plain_action plain _ = True"

lemma plain_block_runs: "plain_block plain b \<Longrightarrow> block_runs b = Some runs \<Longrightarrow> plain_runs plain runs"
  by (cases b) simp_all

lemma plain_runs_or_empty: "plain_block plain b \<Longrightarrow> plain_runs plain (runs_or_empty b)"
  by (auto simp: runs_or_empty_def split: option.splits dest: plain_block_runs)

lemma plain_set_runs:
  "plain_runs plain runs \<Longrightarrow> block_runs b = Some runs' \<Longrightarrow> plain_block plain (set_runs b runs)"
  by (cases b) simp_all

lemma plain_block_with_runs_like [simp]: "plain_block plain (block_with_runs_like b runs) = plain_runs plain runs"
  by (cases b) simp_all

lemma plain_doc_block: "plain_doc plain d \<Longrightarrow> doc_block d i = Some b \<Longrightarrow> plain_block plain b"
  by (auto simp: plain_doc_def doc_block_def get_Some_iff list_all_length)

lemma list_all_update: "list_all P xs \<Longrightarrow> P x \<Longrightarrow> list_all P (xs[i := x])"
  using set_update_subset_insert [of xs i x] by (auto simp: list_all_iff)

lemma plain_replaced:
  "plain_doc plain d \<Longrightarrow> plain_block plain b \<Longrightarrow> plain_doc plain (replaced d i b)"
  by (simp add: plain_doc_def list_all_update)

lemma plain_blocks_upd [simp]: "plain_doc plain (d\<lparr>blocks := bs\<rparr>) = list_all (plain_block plain) bs"
  by (simp add: plain_doc_def)

lemma list_all_sub: "list_all P xs \<Longrightarrow> set ys \<subseteq> set xs \<Longrightarrow> list_all P ys"
  by (auto simp: list_all_iff)

lemma list_all_insert_at: "list_all P xs \<Longrightarrow> P x \<Longrightarrow> list_all P (insert_at i x xs)"
  by (auto simp: insert_at_def list_all_iff dest: in_set_takeD in_set_dropD)

lemma list_all_remove_at: "list_all P xs \<Longrightarrow> list_all P (remove_at i xs)"
  by (auto simp: remove_at_def list_all_iff dest: in_set_takeD in_set_dropD)

lemma list_all_vec_remove_n: "list_all P xs \<Longrightarrow> vec_remove_n n i xs = Inr ys \<Longrightarrow> list_all P ys"
  by (induction n arbitrary: xs) (auto dest: list_all_remove_at)

lemma list_all_vec_insert_all:
  "list_all P xs \<Longrightarrow> list_all P ys \<Longrightarrow> vec_insert_all i ys xs = Inr zs \<Longrightarrow> list_all P zs"
proof (induction ys arbitrary: i xs)
  case (Cons y ys)
  then have "list_all P (insert_at i y xs)" "vec_insert_all (Suc i) ys (insert_at i y xs) = Inr zs"
    by (simp_all add: list_all_insert_at)
  with Cons.IH Cons.prems(2) show ?case by simp
qed simp

lemma list_all_butlast: "list_all P xs \<Longrightarrow> list_all P (butlast xs)"
  by (auto simp: list_all_iff dest: in_set_butlastD)

lemma list_all_tl: "list_all P xs \<Longrightarrow> list_all P (tl xs)"
  by (cases xs) simp_all

lemma list_all_hd_last: "list_all P xs \<Longrightarrow> xs \<noteq> [] \<Longrightarrow> P (hd xs) \<and> P (last xs)"
  by (simp add: list_all_iff)

lemmas list_all_parts = list_all_insert_at list_all_remove_at list_all_butlast list_all_tl

context plain_segmentation
begin

lemma plain_run_plain_Nil [simp]: "plain (run_text (run_plain []))"
  by (simp add: run_plain_def plain_Nil)

lemma plain_or_plain [simp]: "plain_runs plain (or_plain rs) = plain_runs plain rs"
  by (simp add: or_plain_def)

lemma plain_split:
  "plain (run_text r) \<Longrightarrow> plain (run_text (fst (run_split_at g r n)))"
  "plain (run_text r) \<Longrightarrow> plain (run_text (snd (run_split_at g r n)))"
  by (simp_all add: run_split_at_def Let_def char_to_byte_offset_def plain_take_byte plain_drop_byte)

lemma byte_offset_mono: "s \<le> e \<Longrightarrow> text_to_byte_offset g t s \<le> text_to_byte_offset g t e"
proof -
  assume "s \<le> e"
  then have "take e (g t) = take s (g t) @ drop s (take e (g t))"
    by (metis append_take_drop_id min.absorb1 take_take)
  then have "concat (take e (g t)) = concat (take s (g t)) @ concat (drop s (take e (g t)))"
    by (metis concat_append)
  then show ?thesis by (simp add: byte_offset_eq)
qed

lemma plain_slice:
  assumes "plain t"
  shows "plain (drop (text_to_byte_offset g t s) (take (text_to_byte_offset g t e) t))"
proof (cases "s \<le> e")
  case True
  let ?u = "take (text_to_byte_offset g t e) t"
  have "text_to_byte_offset g ?u s = text_to_byte_offset g t s"
    using True by (simp add: byte_offset_eq [of ?u s] byte_offset_eq [of t s] clusters_take_byte min_def)
  with plain_drop_byte [OF plain_take_byte [OF assms], of e s] show ?thesis by simp
next
  case False
  with byte_offset_mono [of e s t] show ?thesis by (simp add: plain_Nil)
qed

lemma plain_extract_runs_from:
  "plain_runs plain rs \<Longrightarrow> plain_runs plain (extract_runs_from g pos s e rs)"
  by (induction rs arbitrary: pos) (simp_all add: Let_def char_to_byte_offset_def plain_slice)

lemma plain_extract [simp]:
  "plain_runs plain rs \<Longrightarrow> plain_runs plain (extract_runs_from_range g rs s e)"
  "plain_runs plain rs \<Longrightarrow> plain_runs plain (extract_deleted_runs g rs s e)"
  by (simp_all add: extract_runs_from_range_def extract_deleted_runs_def plain_extract_runs_from)

lemma plain_split_runs_at_from:
  "plain_runs plain rs \<Longrightarrow> plain_runs plain (fst (split_runs_at_from g i pos rs off))"
  by (induction rs arbitrary: i pos) (auto simp: Let_def split_beta plain_split)

lemma plain_isolate_runs:
  "isolate_runs g rs s e = Inr (rs', si, ei) \<Longrightarrow> plain_runs plain rs \<Longrightarrow> plain_runs plain rs'"
  by (auto simp: isolate_runs_def split_runs_at_def Let_def split_beta plain_split_runs_at_from
      split: if_splits)

lemma plain_from_offset [simp]:
  "plain_runs plain rs \<Longrightarrow> plain_runs plain (extract_runs_from_offset g rs off)"
proof -
  have "plain_runs plain rs \<Longrightarrow> plain_runs plain (extract_runs_from_offset_loop g pos rs off)" for pos
    by (induction rs arbitrary: pos) (simp_all add: Let_def plain_split)
  then show "plain_runs plain rs \<Longrightarrow> plain_runs plain (extract_runs_from_offset g rs off)"
    by (simp add: extract_runs_from_offset_def)
qed

lemma plain_up_to [simp]:
  "plain_runs plain rs \<Longrightarrow> plain_runs plain (extract_runs_up_to g rs off)"
proof -
  have "plain_runs plain rs \<Longrightarrow> plain_runs plain (extract_runs_up_to_loop g pos rs off)" for pos
    by (induction rs arbitrary: pos) (simp_all add: Let_def plain_split)
  then show "plain_runs plain rs \<Longrightarrow> plain_runs plain (extract_runs_up_to g rs off)"
    by (simp add: extract_runs_up_to_def)
qed

lemma plain_truncate [simp]:
  "plain_runs plain rs \<Longrightarrow> plain_runs plain (truncate_runs g rs off)"
proof -
  have "plain_runs plain rs \<Longrightarrow> plain_runs plain (truncate_runs_loop g pos rs off)" for pos
    by (induction rs arbitrary: pos) (simp_all add: Let_def plain_split)
  then show "plain_runs plain rs \<Longrightarrow> plain_runs plain (truncate_runs g rs off)"
    by (simp add: truncate_runs_def)
qed

lemma plain_split_runs_at_offset_loop:
  "plain_runs plain rs \<Longrightarrow> plain_runs plain (fst (split_runs_at_offset_loop g pos rs off))
    \<and> plain_runs plain (snd (split_runs_at_offset_loop g pos rs off))"
  by (induction rs arbitrary: pos) (auto simp: Let_def split_beta plain_split)

lemma plain_split_block_at:
  "plain_block plain b \<Longrightarrow> plain_block plain (fst (split_block_at g b off))
    \<and> plain_block plain (snd (split_block_at g b off))"
  by (cases b) (auto simp: split_runs_at_offset_def split_beta plain_split_runs_at_offset_loop
      empty_paragraph_def)

lemma plain_merge_two: "plain_block plain a \<Longrightarrow> plain_block plain b \<Longrightarrow> plain_block plain (merge_two_blocks a b)"
  by (cases a) (simp_all add: plain_runs_or_empty runs_or_empty_def [of "BlockQuote _"]
      runs_or_empty_def [of HorizontalRule] runs_or_empty_def [of "Image _ _ _ _"]
      runs_or_empty_def [of "Paragraph _"])

lemma plain_restyle [simp]: "plain_runs plain (map (restyle rm flag) rs) = plain_runs plain rs"
  by (simp add: plain_runs_def restyle_def)

lemma plain_runs_take_drop:
  "plain_runs plain rs \<Longrightarrow> plain_runs plain (take n rs)"
  "plain_runs plain rs \<Longrightarrow> plain_runs plain (drop n rs)"
  by (auto simp: plain_runs_def dest: in_set_takeD in_set_dropD)

section \<open>Each operation\<close>

lemma plain_insert_text:
  assumes "plain t" "plain_doc plain d" "apply_insert_text g d p t = Inr (d', m)"
  shows "plain_doc plain d'"
proof -
  from assms(3) obtain b where b: "doc_block d (block_index p) = Some b"
    by (auto simp: apply_insert_text_def)
  show ?thesis
  proof (cases "block_runs b")
    case None
    with b assms show ?thesis by (simp add: apply_insert_text_def)
  next
    case (Some runs)
    have pr: "plain_runs plain runs"
      by (rule plain_block_runs [OF plain_doc_block [OF assms(2) b] Some])
    have "plain_runs plain (insert_text_into_runs g runs (offset p) t)"
    proof (cases "runs = []")
      case True
      then show ?thesis by (simp add: insert_text_into_runs_def)
    next
      case False
      with insert_text_into_runs_content [OF assms(1) pr] show ?thesis by blast
    qed
    with Some b assms show ?thesis
      by (auto simp: apply_insert_text_def intro!: plain_replaced plain_set_runs)
  qed
qed

lemma plain_single_delete:
  assumes "plain_doc plain d" "apply_single_block_delete g d s e = Inr (d', m)"
  shows "plain_doc plain d'"
proof -
  from assms(2) obtain b where b: "doc_block d (block_index s) = Some b"
    by (auto simp: apply_single_block_delete_def Let_def)
  show ?thesis
  proof (cases "block_runs b")
    case None
    with b assms show ?thesis
      by (auto simp: apply_single_block_delete_def Let_def plain_doc_def list_all_update
          list_all_remove_at split: if_splits)
  next
    case (Some runs)
    have pr: "plain_runs plain runs"
      by (rule plain_block_runs [OF plain_doc_block [OF assms(1) b] Some])
    from b Some assms(2) obtain rs' si ei where
      i: "isolate_runs g runs (offset s) (offset e) = Inr (rs', si, ei)"
      and d': "d' = replaced d (block_index s)
        (set_runs b (or_plain (if si < ei then take si rs' @ drop ei rs' else rs')))"
      by (auto simp: apply_single_block_delete_def Let_def)
    from plain_isolate_runs [OF i pr] show ?thesis
      unfolding d' by (intro plain_replaced plain_set_runs [OF _ Some] assms(1))
        (simp add: plain_runs_take_drop)
  qed
qed

lemma plain_cross_replacement:
  "plain_block plain sb \<Longrightarrow> plain_block plain eb \<Longrightarrow>
    build_cross_delete_replacement g sb so eb eo = Some b \<Longrightarrow> plain_block plain b"
  using plain_runs_or_empty [of plain sb] plain_runs_or_empty [of plain eb]
  by (auto simp: build_cross_delete_replacement_def Let_def runs_or_empty_def
      split: option.splits if_splits intro!: plain_set_runs)

lemma plain_cross_delete:
  assumes "plain_doc plain d" "apply_cross_block_delete g d s e = Inr (d', m)"
  shows "plain_doc plain d'"
proof -
  from assms(2) obtain eb sb where eb: "doc_block d (block_index e) = Some eb"
    and sb: "doc_block d (block_index s) = Some sb"
    by (auto simp: apply_cross_block_delete_def)
  note ps = plain_doc_block [OF assms(1) sb] and pe = plain_doc_block [OF assms(1) eb]
  show ?thesis
  proof (cases "build_cross_delete_replacement g sb (offset s) eb (offset e)")
    case None
    with assms sb eb show ?thesis
      by (auto simp: apply_cross_block_delete_def Let_def plain_doc_def simp del: vec_remove_n.simps
          dest: list_all_vec_remove_n)
  next
    case (Some nb)
    from plain_cross_replacement [OF ps pe Some] have "plain_doc plain (replaced d (block_index s) nb)"
      by (rule plain_replaced [OF assms(1)])
    then have "list_all (plain_block plain) ((blocks d)[block_index s := nb])"
      by (simp add: plain_doc_def)
    with Some assms sb eb show ?thesis
      by (auto simp: apply_cross_block_delete_def Let_def list_all_vec_remove_n)
  qed
qed

lemma plain_restore_atomic:
  assumes "plain_doc plain d" "del_blocks del \<noteq> []" "list_all (plain_block plain) (del_blocks del)"
    and tail: "\<And>b. end_tail del = Some b \<Longrightarrow> plain_block plain b"
    and "apply_restore_deleted_from_atomic_start d p del = Inr (d', m)"
  shows "plain_doc plain d'"
proof -
  let ?last = "last (del_blocks del)"
  let ?endb = "case end_tail del of
      Some tail \<Rightarrow> block_with_runs_like ?last (runs_or_empty ?last @ runs_or_empty tail)
    | None \<Rightarrow> ?last"
  let ?restored = "hd (del_blocks del) # butlast (tl (del_blocks del)) @ [?endb]"
  have hl: "plain_block plain (hd (del_blocks del))" "plain_block plain ?last"
    using list_all_hd_last [OF assms(3,2)] by auto
  then have "plain_block plain ?endb"
    using tail by (auto simp: plain_runs_or_empty split: option.splits)
  then have r: "list_all (plain_block plain) ?restored"
    using hl assms(3) by (simp add: list_all_butlast list_all_tl)
  let ?i = "min (block_index p) (block_count d)"
  from assms(5) obtain bs1 bs3 where
    "(if end_tail del \<noteq> None \<and> ?i < block_count d then vec_remove ?i (blocks d)
      else Inr (blocks d)) = Inr bs1"
    and bs3: "vec_insert_all ?i ?restored
      (if block_count (d\<lparr>blocks := bs1\<rparr>) = 1 \<and> first_is_empty_paragraph (d\<lparr>blocks := bs1\<rparr>) \<and> ?i = 0
       then [] else bs1) = Inr bs3" (is "vec_insert_all _ _ ?bs2 = _")
    and d': "d' = d\<lparr>blocks := bs3\<rparr>"
    unfolding apply_restore_deleted_from_atomic_start_def Let_def res_bind_eq_Inr by blast
  then have "list_all (plain_block plain) bs1"
    using assms(1) by (auto simp: plain_doc_def list_all_remove_at split: if_splits)
  then have "list_all (plain_block plain) ?bs2" by simp
  from list_all_vec_insert_all [OF this r bs3] d' show ?thesis by simp
qed

lemma plain_restore_deleted:
  assumes d: "plain_doc plain d" and ne: "del_blocks del \<noteq> []"
    and dels: "list_all (plain_block plain) (del_blocks del)"
    and tail: "\<And>b. end_tail del = Some b \<Longrightarrow> plain_block plain b"
    and app: "apply_restore_deleted g d p del = Inr (d', m)"
  shows "plain_doc plain d'"
proof -
  let ?first = "hd (del_blocks del)"
  let ?last = "last (del_blocks del)"
  note fl = list_all_hd_last [OF dels ne]
  consider (one_atomic) "length (del_blocks del) = 1" "\<not> is_inline_block ?first"
    | (one_inline) "length (del_blocks del) = 1" "is_inline_block ?first"
    | (atomic) "length (del_blocks del) \<noteq> 1" "\<not> is_inline_block ?first"
    | (inline) "length (del_blocks del) \<noteq> 1" "is_inline_block ?first" by blast
  then show ?thesis
  proof cases
    case one_atomic
    with app d fl show ?thesis
      by (auto simp: apply_restore_deleted_def Let_def plain_doc_def list_all_update
          list_all_insert_at split: if_splits)
  next
    case one_inline
    with app obtain b where b: "doc_block d (block_index p) = Some b"
      by (auto simp: apply_restore_deleted_def Let_def)
    show ?thesis
    proof (cases "block_runs b")
      case None
      with one_inline app b d plain_doc_block [OF d b] show ?thesis
        by (auto simp: apply_restore_deleted_def Let_def plain_replaced)
    next
      case (Some runs)
      with one_inline app b d fl plain_block_runs [OF plain_doc_block [OF d b] Some] show ?thesis
        by (auto simp: apply_restore_deleted_def Let_def plain_runs_or_empty
            intro!: plain_replaced plain_set_runs [OF _ Some])
    qed
  next
    case atomic
    with app have "apply_restore_deleted_from_atomic_start d p del = Inr (d', m)"
      by (simp add: apply_restore_deleted_def)
    from plain_restore_atomic [OF d ne dels tail this] show ?thesis by simp
  next
    case inline
    with app obtain merged where b: "doc_block d (block_index p) = Some merged"
      by (auto simp: apply_restore_deleted_def Let_def)
    let ?tail = "case end_tail del of None \<Rightarrow> [] | Some t \<Rightarrow> runs_or_empty t"
    let ?start = "block_with_runs_like ?first
      (or_plain (extract_runs_up_to g (runs_or_empty merged) (offset p) @ runs_or_empty ?first))"
    let ?endb = "if is_inline_block ?last then block_with_runs_like ?last (or_plain (runs_or_empty ?last @ ?tail))
      else ?last"
    have "plain_runs plain ?tail" using tail by (auto simp: plain_runs_or_empty split: option.splits)
    with fl plain_doc_block [OF d b] have "plain_block plain ?start" "plain_block plain ?endb"
      by (auto simp: plain_runs_or_empty)
    then have new: "list_all (plain_block plain) (?start # butlast (tl (del_blocks del)) @ [?endb])"
      using dels by (simp add: list_all_butlast list_all_tl)
    from inline app b obtain bs' where
      "vec_insert_all (block_index p) (?start # butlast (tl (del_blocks del)) @ [?endb])
         (remove_at (block_index p) (blocks d)) = Inr bs'" and d': "d' = d\<lparr>blocks := bs'\<rparr>"
      by (auto simp: apply_restore_deleted_def Let_def simp del: vec_insert_all.simps)
    from list_all_vec_insert_all [OF _ new this(1)] d d' show ?thesis
      by (simp add: plain_doc_def list_all_remove_at)
  qed
qed

lemma plain_toggle_block:
  assumes "plain_doc plain d" "toggle_block g s e flag rm bi d = Inr d'"
  shows "plain_doc plain d'"
proof (cases "doc_block d bi")
  case None
  with assms show ?thesis by (simp add: toggle_block_def)
next
  case (Some b)
  show ?thesis
  proof (cases "block_runs b")
    case None
    with Some assms show ?thesis by (simp add: toggle_block_def)
  next
    case (Some runs)
    note pr = plain_block_runs [OF plain_doc_block [OF assms(1) \<open>doc_block d bi = Some b\<close>] Some]
    show ?thesis
      using assms \<open>doc_block d bi = Some b\<close> Some plain_isolate_runs [OF _ pr]
      by (auto simp: toggle_block_def split_beta plain_runs_take_drop split: if_splits
          intro!: plain_replaced plain_set_runs [OF _ Some])
  qed
qed

lemma plain_toggle_blocks:
  "plain_doc plain d \<Longrightarrow> toggle_blocks g s e flag rm bis d = Inr d' \<Longrightarrow> plain_doc plain d'"
  by (induction bis arbitrary: d) (auto dest: plain_toggle_block)

lemma plain_block_of_kind:
  "plain_runs plain runs \<Longrightarrow> plain_block plain (block_of_kind k runs flat)"
  by (cases k) simp_all

lemma plain_set_type_runs: "plain_block plain b \<Longrightarrow> plain_runs plain (set_type_runs b)"
  by (cases b) (auto simp: runs_or_empty_def plain_runs_or_empty split: list.splits option.splits
      dest: plain_block_runs)

lemma plain_with_attrs: "plain_block plain b \<Longrightarrow> with_attrs b a = Some b' \<Longrightarrow> plain_block plain b'"
  by (cases b) auto

lemma apply_op_plain:
  assumes "plain_doc plain d" "plain_op plain op" "apply_op g op d = Inr (d', m)"
  shows "plain_doc plain d'"
proof (cases op)
  case (InsertText p t)
  with assms show ?thesis using plain_insert_text by simp
next
  case (DeleteRange s e del)
  then have "end_tail del = Some b \<Longrightarrow> plain_block plain b" for b using assms(2) by simp
  with DeleteRange assms plain_restore_deleted [OF assms(1), of del s d' m]
    plain_single_delete [OF assms(1)] plain_cross_delete [OF assms(1)]
  show ?thesis by (auto simp: apply_delete_range_def split: if_splits)
next
  case (SplitBlock p)
  with assms obtain b where b: "doc_block d (block_index p) = Some b"
    by (auto simp: apply_split_block_def)
  with SplitBlock assms plain_split_block_at [OF plain_doc_block [OF assms(1) b], of "offset p"]
  show ?thesis
    by (auto simp: apply_split_block_def Let_def split_beta plain_doc_def list_all_update
        list_all_insert_at)
next
  case (MergeBlocks bi saved mo)
  with assms plain_doc_block [OF assms(1)] show ?thesis
    by (auto simp: apply_merge_blocks_def plain_doc_def list_all_update
        intro!: list_all_remove_at list_all_update plain_merge_two)
next
  case (ToggleInlineStyle s e flag)
  with assms plain_toggle_blocks [OF assms(1)] show ?thesis
    by (auto simp: apply_toggle_inline_style_def Let_def)
next
  case (SetBlockType bi old new)
  with assms plain_doc_block [OF assms(1)] show ?thesis
    by (auto simp: apply_set_block_type_def intro!: plain_replaced plain_block_of_kind)
      (simp add: plain_set_type_runs)
next
  case (SetBlockAttrs bi old new)
  with assms plain_doc_block [OF assms(1)] plain_with_attrs show ?thesis
    by (auto simp: apply_set_block_attrs_def split: option.splits intro!: plain_replaced) blast+
next
  case (InsertBlock i b)
  with assms show ?thesis
    by (auto simp: apply_insert_block_def insert_block_def plain_doc_def list_all_insert_at)
next
  case (RemoveBlock i saved)
  with assms show ?thesis
    by (auto simp: apply_remove_block_def remove_block_def plain_doc_def list_all_remove_at
        split: if_splits)
next
  case (ReplaceBlock i old new)
  with assms show ?thesis
    by (auto simp: apply_replace_block_def replace_block_def plain_doc_def list_all_update
        split: option.splits)
next
  case (RestoreMergedBlock bi saved mo)
  with assms plain_doc_block [OF assms(1)] show ?thesis
    by (auto simp: apply_restore_merged_block_def Let_def plain_doc_def plain_runs_or_empty
        intro!: list_all_insert_at list_all_update)
qed

lemma invert_plain:
  assumes "plain_doc plain d" "plain_op plain op"
  shows "plain_op plain (invert_with_doc g d op)"
proof (cases op)
  case (InsertText p t)
  have "plain_runs plain runs" if "Option.bind (doc_block d (block_index p)) block_runs = Some runs" for runs
    using that assms(1) by (auto simp: bind_eq_Some_conv dest: plain_doc_block plain_block_runs)
  with InsertText assms show ?thesis
    by (auto simp: invert_with_doc_def Let_def run_plain_def [of t] split: option.splits)
qed (use assms in \<open>simp_all add: invert_with_doc_def invert_delete_range_def empty_paragraph_def\<close>)

lemma apply_ops_plain:
  "plain_doc plain d \<Longrightarrow> list_all (plain_op plain) ops \<Longrightarrow> apply_ops g ops d = Inr d' \<Longrightarrow>
    plain_doc plain d'"
  by (induction ops arbitrary: d) (auto dest: apply_op_plain)

lemma undo_ops_plain:
  "plain_doc plain d \<Longrightarrow> list_all (plain_op plain) ops \<Longrightarrow> undo_ops g ops d = Inr d' \<Longrightarrow>
    plain_doc plain d'"
  by (induction ops arbitrary: d) (auto dest: apply_op_plain invert_plain)

end

end
