(* ===== verification/RteUndoable.thy ===== *)
theory RteUndoable
  imports RtePlain
begin

text \<open>
  Undo: which operations the recorded inverse takes back, at the level of the abstract document.
  The laws are stated once in the locale \<open>view_inverse\<close> and lifted there to groups of operations;
  the editor's operations are an instance for every plain segmentation.
\<close>

section \<open>Deletion across blocks\<close>

fun abs_inline :: "ablock \<Rightarrow> bool" where
  "abs_inline (AInline _ _) = True"
| "abs_inline _ = False"

text \<open>What is left of the end block behind the deleted range.\<close>

fun abs_tail :: "nat \<Rightarrow> ablock \<Rightarrow> styled_cluster list" where
  "abs_tail off (AInline sh c) = drop off c"
| "abs_tail off _ = []"

text \<open>The end block rebuilt from its deleted head and its tail.\<close>

fun abs_extend :: "styled_cluster list \<Rightarrow> ablock \<Rightarrow> ablock" where
  "abs_extend t (AInline sh c) = AInline sh (c @ t)"
| "abs_extend t a = a"

text \<open>How many blocks behind the start block a deletion up to the end block consumes.\<close>

definition consumed :: "nat \<Rightarrow> nat \<Rightarrow> nat \<Rightarrow> ablock \<Rightarrow> nat" where
  "consumed i j eo a = (if abs_inline a \<or> eo > 0 then j - i else j - i - 1)"

lemma abs_inline_block [simp]: "abs_inline (abs_block g b) \<longleftrightarrow> is_inline_block b"
  by (cases b) simp_all

lemma abs_atomic: "block_runs b = None \<Longrightarrow> \<not> abs_inline (abs_block g b)"
  by (cases b) simp_all

lemma abs_extend_atomic: "\<not> abs_inline a \<Longrightarrow> abs_extend t a = a"
  by (cases a) simp_all

context segmentation
begin

lemma cross_replacement_abs:
  assumes "block_runs sb = Some runs"
  obtains nb where "build_cross_delete_replacement g sb so eb eo = Some nb"
    "abs_block g nb = AInline (shape_of sb) (take so (runs_content g runs) @ abs_tail eo (abs_block g eb))"
proof (cases "block_runs eb")
  case None
  then have "abs_tail eo (abs_block g eb) = []" by (cases eb) (simp_all add: is_atomic_block_def)
  with None assms that show thesis
    by (simp add: build_cross_delete_replacement_def Let_def set_runs_inline [OF assms] content_simps
        del: block_runs_None_iff)
next
  case (Some end_runs)
  with assms that abs_block_inline [OF Some] show thesis
    by (simp add: build_cross_delete_replacement_def Let_def set_runs_inline [OF assms] content_simps)
qed

lemma cross_delete_abs:
  assumes "get (abs_doc g d) i = Some (AInline sh c)" "get (abs_doc g d) j = Some a" "i < j"
  shows "\<exists>d' m. apply_op g (DeleteRange (DocPosition i so) (DocPosition j eo) del) d = Inr (d', m)
    \<and> abs_doc g d' = splice_at i (Suc (consumed i j eo a)) [AInline sh (take so c @ abs_tail eo a)] (abs_doc g d)"
proof -
  from assms(1) obtain runs where sb: "doc_block d i = Some (mk_inline sh runs)"
    and c: "runs_content g runs = c" by (rule abs_inlineD)
  from assms(2) obtain eb where eb: "doc_block d j = Some eb" and a: "abs_block g eb = a"
    by (auto simp: get_abs_doc)
  have j: "j < length (blocks d)" by (rule doc_block_less [OF eb])
  obtain nb where nb: "build_cross_delete_replacement g (mk_inline sh runs) so eb eo = Some nb"
    "abs_block g nb = AInline sh (take so c @ abs_tail eo a)"
    using cross_replacement_abs [of "mk_inline sh runs" runs so eb eo] a c by auto
  let ?k = "consumed i j eo a"
  have k: "is_inline_block eb \<or> 0 < eo \<Longrightarrow> j - i = ?k" "\<not> (is_inline_block eb \<or> 0 < eo) \<Longrightarrow> j - Suc i = ?k"
    using a assms(3) by (auto simp: consumed_def)
  have "Suc i + ?k \<le> length ((blocks d)[i := nb])"
    using assms(3) j by (auto simp: consumed_def)
  from vec_remove_n_eq [OF this] have "vec_remove_n ?k (Suc i) ((blocks d)[i := nb]) =
      Inr (splice_at i (Suc ?k) [nb] (blocks d))"
    using assms(3) j by (simp add: splice_at_def take_Suc_conv_app_nth)
  moreover have "DocPosition i so \<le> DocPosition j eo" "DocPosition i so \<noteq> DocPosition j eo"
    using assms(3) by (simp_all add: less_eq_doc_position_def)
  ultimately show ?thesis
    using sb eb nb k assms(3)
    by (cases "is_inline_block eb \<or> 0 < eo")
      (simp_all add: apply_delete_range_def apply_cross_block_delete_def Let_def map_splice abs_doc_def)
qed

lemma restore_cross_abs:
  assumes e: "get (abs_doc g d) i = Some (AInline sh c)"
    and del: "del_blocks del = first # rest" "block_runs first = Some fr" "rest \<noteq> []"
  shows "\<exists>d' m. apply_op g (DeleteRange (DocPosition i so) (DocPosition i so) del) d = Inr (d', m)
    \<and> abs_doc g d' = splice_at i 1
        (AInline (shape_of first) (take so c @ runs_content g fr) #
         map (abs_block g) (butlast rest) @
         [abs_extend (case end_tail del of None \<Rightarrow> [] | Some t \<Rightarrow> runs_content g (runs_or_empty t))
            (abs_block g (last rest))]) (abs_doc g d)"
proof -
  from e obtain runs where b: "doc_block d i = Some (mk_inline sh runs)"
    and c: "runs_content g runs = c" by (rule abs_inlineD)
  have i: "i < length (blocks d)" by (rule doc_block_less [OF b])
  have first: "is_inline_block first" "runs_or_empty first = fr" "length (del_blocks del) \<noteq> 1"
    using del by (auto simp: is_inline_block_iff runs_or_empty_def)
  define tail where "tail = (case end_tail del of None \<Rightarrow> [] | Some t \<Rightarrow> runs_or_empty t)"
  define start where "start = block_with_runs_like first (or_plain (extract_runs_up_to g runs so @ fr))"
  define fin where "fin = (if is_inline_block (last rest)
    then block_with_runs_like (last rest) (or_plain (runs_or_empty (last rest) @ tail)) else last rest)"
  have tail: "(case end_tail del of None \<Rightarrow> [] | Some t \<Rightarrow> runs_content g (runs_or_empty t)) = runs_content g tail"
    by (simp add: tail_def split: option.splits)
  have "abs_block g start = AInline (shape_of first) (take so c @ runs_content g fr)"
    by (simp add: start_def block_with_runs_like_eq content_simps c)
  moreover have "abs_block g fin = abs_extend (runs_content g tail) (abs_block g (last rest))"
    using abs_block_inline [of "last rest"]
    by (auto simp: fin_def is_inline_block_iff block_with_runs_like_eq runs_or_empty_def
        abs_extend_atomic)
  moreover have "vec_insert_all i (start # butlast rest @ [fin]) (remove_at i (blocks d)) =
      Inr (splice_at i 1 (start # butlast rest @ [fin]) (blocks d))"
    using i by (subst vec_insert_all_eq) (simp_all add: remove_at_def splice_at_def)
  ultimately show ?thesis
    using del first b i tail
    by (simp add: apply_delete_range_def apply_restore_deleted_def Let_def vec_remove_def
        start_def [symmetric] fin_def [symmetric] tail_def [symmetric] map_splice
        del: vec_insert_all.simps) (simp add: abs_doc_def)
qed

end

section \<open>The saved content\<close>

lemma extract_deleted_runs_eq: "extract_deleted_runs = extract_runs"
  by (intro ext) (simp add: extract_deleted_runs_def extract_runs_def or_plain_def Let_def)

lemma map_filter_doc_block:
  "j \<le> length (blocks d) \<Longrightarrow> List.map_filter (doc_block d) [i..<j] = take (j - i) (drop i (blocks d))"
proof (induction j)
  case 0
  then show ?case by (simp add: List.map_filter_def)
next
  case (Suc j)
  then have "doc_block d j = Some (blocks d ! j)" by (simp add: doc_block_def get_def)
  with Suc show ?case
    by (cases "i \<le> j") (simp_all add: List.map_filter_def Suc_diff_le take_Suc_conv_app_nth)
qed

lemma abs_extend_Nil [simp]: "abs_extend [] a = a"
  by (cases a) simp_all

text \<open>The blocks a restoration puts behind the start block.\<close>

definition restored_rest :: "segmenter \<Rightarrow> deleted_content \<Rightarrow> ablock list" where
  "restored_rest g del =
     (let rest = tl (del_blocks del);
          t = (case end_tail del of None \<Rightarrow> [] | Some b \<Rightarrow> runs_content g (runs_or_empty b))
      in if rest = [] then []
         else map (abs_block g) (butlast rest) @ [abs_extend t (abs_block g (last rest))])"

lemma restored_rest_snoc:
  "del_blocks del = b # middle @ [l] \<Longrightarrow> restored_rest g del = map (abs_block g) middle @
    [abs_extend (case end_tail del of None \<Rightarrow> [] | Some b \<Rightarrow> runs_content g (runs_or_empty b)) (abs_block g l)]"
  by (simp add: restored_rest_def Let_def)

lemma restored_rest_no_tail:
  "end_tail del = None \<Longrightarrow> restored_rest g del = map (abs_block g) (tl (del_blocks del))"
  by (cases "tl (del_blocks del)" rule: rev_cases) (simp_all add: restored_rest_def Let_def)

context segmentation
begin

lemma extract_deleted_content [simp]:
  "runs_content g (extract_deleted_runs g rs s e) = drop s (take e (runs_content g rs))"
  by (simp add: extract_deleted_runs_eq content_simps)

lemma effectively_empty_content: "runs_are_effectively_empty rs \<Longrightarrow> runs_content g rs = []"
  by (induction rs) (simp_all add: runs_are_effectively_empty_def run_is_empty_def)

lemma build_deleted_cross:
  fixes so eo :: nat
  assumes i: "doc_block d i = Some (mk_inline sh runs)" and j: "doc_block d j = Some eb" and "i < j"
  defines "del \<equiv> build_deleted_content g d (DocPosition i so) (DocPosition j eo)"
  obtains fr where "hd (del_blocks del) = mk_inline sh fr" "del_blocks del \<noteq> []"
    "runs_content g fr = drop so (runs_content g runs)"
    "restored_rest g del = take (consumed i j eo (abs_block g eb)) (drop (Suc i) (abs_doc g d))"
proof
  let ?fr = "extract_deleted_runs g runs so (block_char_len g (mk_inline sh runs))"
  let ?middle = "take (j - Suc i) (drop (Suc i) (blocks d))"
  have jl: "j < length (blocks d)" "blocks d ! j = eb" using j by (simp_all add: doc_block_def get_Some_iff)
  have mf: "List.map_filter (doc_block d) [Suc i..<j] = ?middle"
    using jl map_filter_doc_block [of j d "Suc i"] by simp
  have upto: "take (j - i) (drop (Suc i) (blocks d)) = ?middle @ [eb]"
    using jl \<open>i < j\<close> take_Suc_conv_app_nth [of "j - Suc i" "drop (Suc i) (blocks d)"]
    by (simp add: Suc_diff_Suc)
  show "runs_content g ?fr = drop so (runs_content g runs)"
    by (simp add: length_runs_content [symmetric])
  show "hd (del_blocks del) = mk_inline sh ?fr" "del_blocks del \<noteq> []"
    using i j \<open>i < j\<close>
    by (simp_all add: del_def build_deleted_content_def Let_def split_beta block_with_runs_like_eq)
  show "restored_rest g del = take (consumed i j eo (abs_block g eb)) (drop (Suc i) (abs_doc g d))"
  proof (cases "block_runs eb")
    case None
    then have "del_blocks del = mk_inline sh ?fr # (if eo > 0 then ?middle @ [eb] else ?middle)"
      "end_tail del = None"
      using i j \<open>i < j\<close> mf
      by (simp_all add: del_def build_deleted_content_def Let_def split_beta block_with_runs_like_eq
          del: block_runs_None_iff)
    with None upto abs_atomic [OF None] show ?thesis
      by (auto simp: restored_rest_no_tail consumed_def abs_doc_def drop_map take_map
          simp del: map_append simp flip: map_append)
  next
    case (Some end_runs)
    let ?head = "extract_deleted_runs g end_runs 0 eo"
    let ?tail = "extract_deleted_runs g end_runs eo (block_char_len g eb)"
    have eb: "abs_block g eb = AInline (shape_of eb) (runs_content g end_runs)"
      by (rule abs_block_inline [OF Some])
    have del: "del_blocks del = mk_inline sh ?fr # ?middle @ [mk_inline (shape_of eb) ?head]"
      "end_tail del = (if \<not> runs_are_effectively_empty ?tail then Some (mk_inline (shape_of eb) ?tail) else None)"
      using i j \<open>i < j\<close> mf Some
      by (simp_all add: del_def build_deleted_content_def Let_def split_beta block_with_runs_like_eq)
    have tail: "runs_content g ?tail = drop eo (runs_content g end_runs)"
      using Some by (simp add: block_char_len_runs length_runs_content [symmetric])
    with effectively_empty_content [of ?tail] have
      "(case end_tail del of None \<Rightarrow> [] | Some b \<Rightarrow> runs_content g (runs_or_empty b)) = drop eo (runs_content g end_runs)"
      by (auto simp: del(2))
    with restored_rest_snoc [OF del(1)] eb upto show ?thesis
      by (simp add: consumed_def abs_doc_def drop_map take_map)
  qed
qed

end

section \<open>Operations whose inverse takes them back\<close>

text \<open>The interface: undoing an operation on any state with the view it led to gives back the view
  it started from. Sequences of operations inherit it.\<close>

locale view_inverse =
  fixes undo1 :: "'op \<Rightarrow> 'd \<Rightarrow> 'd res"
    and view :: "'d \<Rightarrow> 'v"
    and leads :: "'op \<Rightarrow> 'v \<Rightarrow> 'v \<Rightarrow> bool"
  assumes undo1_back: "leads op v v' \<Longrightarrow> view e = v' \<Longrightarrow> \<exists>e'. undo1 op e = Inr e' \<and> view e' = v"
begin

fun undo_all :: "'op list \<Rightarrow> 'd \<Rightarrow> 'd res" where
  "undo_all [] d = Inr d"
| "undo_all (op # ops) d = res_bind (undo1 op d) (undo_all ops)"

fun path :: "'op list \<Rightarrow> 'v \<Rightarrow> 'v \<Rightarrow> bool" where
  "path [] v v' \<longleftrightarrow> v = v'"
| "path (op # ops) v v' \<longleftrightarrow> (\<exists>u. leads op v u \<and> path ops u v')"

lemma path_append: "path (ops @ ops') v v' \<longleftrightarrow> (\<exists>u. path ops v u \<and> path ops' u v')"
  by (induction ops arbitrary: v) auto

lemma undo_all_append: "undo_all (ops @ ops') d = res_bind (undo_all ops d) (undo_all ops')"
proof (induction ops arbitrary: d)
  case (Cons op ops)
  then show ?case by (cases "undo1 op d") simp_all
qed simp

lemma undo_path: "path ops v v' \<Longrightarrow> view e = v' \<Longrightarrow> \<exists>e'. undo_all (rev ops) e = Inr e' \<and> view e' = v"
proof (induction ops arbitrary: v)
  case (Cons op ops)
  then obtain u where u: "leads op v u" "path ops u v'" by auto
  with Cons obtain e1 where "undo_all (rev ops) e = Inr e1" "view e1 = u" by blast
  with undo1_back [OF u(1)] show ?case by (auto simp: undo_all_append)
qed simp

end

definition undo_step :: "segmenter \<Rightarrow> edit_op \<Rightarrow> document \<Rightarrow> document res" where
  "undo_step g op d = res_bind (apply_op g (invert_with_doc g d op) d) (\<lambda>(d', _). Inr d')"

text \<open>
  When the recorded inverse takes an operation back. A deletion must carry the content that
  \<open>build_deleted_content\<close> saves; deleting a single atomic block must not leave a lone empty
  paragraph behind that was there before; a style toggle must cover a uniform range; a change of
  block type must not lose a list indent.
\<close>

definition undoable_delete :: "segmenter \<Rightarrow> document \<Rightarrow> doc_position \<Rightarrow> doc_position \<Rightarrow> bool" where
  "undoable_delete g d s e \<longleftrightarrow>
     (case doc_block d (block_index s) of
        None \<Rightarrow> False
      | Some b \<Rightarrow>
          if is_inline_block b then
            block_index s = block_index e \<or>
            (offset s \<le> block_char_len g b \<and> block_index e < block_count d)
          else
            block_index s = block_index e \<and> offset s = 0 \<and>
            \<not> (block_count d = 2 \<and> block_index s = 0 \<and> abs_doc g d ! 1 = AInline SParagraph []))"

fun undoable :: "segmenter \<Rightarrow> (string \<Rightarrow> bool) \<Rightarrow> edit_op \<Rightarrow> document \<Rightarrow> bool" where
  "undoable g plain (InsertText p t) d =
     (case Option.bind (doc_block d (block_index p)) block_runs of
        None \<Rightarrow> False
      | Some runs \<Rightarrow>
          runs \<noteq> [] \<and> plain_runs plain runs \<and> plain t \<and> offset p \<le> length (runs_content g runs))"
| "undoable g plain (DeleteRange s e del) d =
     (s < e \<and> del = build_deleted_content g d s e \<and> undoable_delete g d s e)"
| "undoable g plain (SplitBlock p) d =
     (case doc_block d (block_index p) of None \<Rightarrow> False | Some b \<Rightarrow> is_inline_block b)"
| "undoable g plain (MergeBlocks bi saved mo) d =
     (bi > 0 \<and> doc_block d bi = Some saved \<and> is_inline_block saved \<and>
      (case doc_block d (bi - 1) of
         None \<Rightarrow> False
       | Some b \<Rightarrow> is_inline_block b \<and> mo = block_char_len g b))"
| "undoable g plain (ToggleInlineStyle s e flag) d =
     (s < e \<and> flag \<noteq> 0 \<and> uniform_range s e flag (abs_doc g d))"
| "undoable g plain (SetBlockType bi old new) d =
     (inline_kind new \<and>
      (case doc_block d bi of
         None \<Rightarrow> False
       | Some b \<Rightarrow> is_inline_block b \<and> old = kind b \<and> kind_shape old = shape_of b))"
| "undoable g plain (SetBlockAttrs bi old new) d =
     (case doc_block d bi of
        None \<Rightarrow> False
      | Some b \<Rightarrow> old = block_attrs_of b)"
| "undoable g plain (InsertBlock i b) d = (i \<le> block_count d \<and> 0 < block_count d)"
| "undoable g plain (RemoveBlock i saved) d = (doc_block d i = Some saved \<and> 1 < block_count d)"
| "undoable g plain (ReplaceBlock i old new) d = (doc_block d i = Some old)"
| "undoable g plain (RestoreMergedBlock bi saved mo) d = False"

definition leads_undoably ::
  "segmenter \<Rightarrow> (string \<Rightarrow> bool) \<Rightarrow> edit_op \<Rightarrow> ablock list \<Rightarrow> ablock list \<Rightarrow> bool" where
  "leads_undoably g plain op v v' \<longleftrightarrow>
     (\<exists>d d' m. undoable g plain op d \<and> apply_op g op d = Inr (d', m) \<and> abs_doc g d = v \<and> abs_doc g d' = v')"

lemma splice_back:
  assumes "splice_at i n (take n (drop i A)) A = A" "i \<le> length A" "length X = m" "Y = take n (drop i A)"
  shows "splice_at i m Y (splice_at i n X A) = A"
  using assms by (simp add: splice_splice)

lemma splice_back1:
  assumes "get A i = Some y"
  shows "splice_at i (Suc 0) [y] (splice_at i (Suc 0) [x] A) = A"
  using assms splice_same1 [OF assms] splice_splice [of i A "[x]" 1 "[y]" 1] by (simp add: get_Some_iff)

lemma get_splice1: "i < length A \<Longrightarrow> get (splice_at i n (x # xs) A) i = Some x"
  using get_splice [of i A 0 "x # xs" n] by simp

section \<open>Each inverse\<close>

lemma first_is_empty_abs:
  assumes "segmentation g"
  shows "first_is_empty_paragraph d \<longleftrightarrow> get (abs_doc g d) 0 = Some (AInline SParagraph [])"
proof -
  have "list_all run_is_empty rs \<longleftrightarrow> runs_content g rs = []" for rs
    by (induction rs) (simp_all add: run_is_empty_def segmentation.run_content_empty [OF assms])
  then show ?thesis
    by (auto simp: first_is_empty_paragraph_def get_abs_doc split: option.splits block.splits)
qed

context segmentation
begin

lemma back_delete_within:
  assumes A: "get A i = Some (AInline sh c)" and e: "abs_doc g e = splice_at i 1 [AInline sh (take so c @ drop eo c)] A"
    and "so \<le> eo" "block_runs b = Some dr" "runs_content g dr = drop so (take eo c)"
  shows "\<exists>e' m'. apply_op g (DeleteRange (DocPosition i so) (DocPosition i so)
      \<lparr>del_blocks = [b], end_tail = None\<rparr>) e = Inr (e', m') \<and> abs_doc g e' = A"
proof -
  have i: "i < length A" using A by (rule get_Some_less)
  have "get (abs_doc g e) i = Some (AInline sh (take so c @ drop eo c))" using e i get_splice1 by simp
  from restore_within_abs [OF this assms(4), of so] obtain e' m' where
    e': "apply_op g (DeleteRange (DocPosition i so) (DocPosition i so)
      \<lparr>del_blocks = [b], end_tail = None\<rparr>) e = Inr (e', m')"
    "abs_doc g e' = splice_at i 1 [AInline sh (take so (take so c @ drop eo c) @ runs_content g dr @
        drop so (take so c @ drop eo c))] (abs_doc g e)" by blast
  have "take so (take so c @ drop eo c) @ drop so (take eo c) @ drop so (take so c @ drop eo c) = c"
    using \<open>so \<le> eo\<close> take_drop_append_mid [of so eo c] by (cases "so \<le> length c") (simp_all add: drop_take)
  with e' e A assms(5) show ?thesis by (simp add: splice_back1)
qed

lemma back_delete_cross:
  assumes i: "doc_block d i = Some (mk_inline sh runs)" and j: "doc_block d j = Some eb" and "i < j"
    and so: "so \<le> length (runs_content g runs)"
    and e: "abs_doc g e = splice_at i (Suc (consumed i j eo (abs_block g eb)))
      [AInline sh (take so (runs_content g runs) @ abs_tail eo (abs_block g eb))] (abs_doc g d)"
  shows "\<exists>e' m'. apply_op g (DeleteRange (DocPosition i so) (DocPosition i so)
      (build_deleted_content g d (DocPosition i so) (DocPosition j eo))) e = Inr (e', m')
    \<and> abs_doc g e' = abs_doc g d"
proof -
  let ?c = "runs_content g runs" and ?k = "consumed i j eo (abs_block g eb)" and ?A = "abs_doc g d"
  let ?del = "build_deleted_content g d (DocPosition i so) (DocPosition j eo)"
  from build_deleted_cross [OF i j \<open>i < j\<close>] obtain fr where
    fr: "hd (del_blocks ?del) = mk_inline sh fr" "del_blocks ?del \<noteq> []" "runs_content g fr = drop so ?c"
    and rest: "restored_rest g ?del = take ?k (drop (Suc i) ?A)" by blast
  have jl: "j < length ?A" "i < length ?A" using doc_block_less [OF j] \<open>i < j\<close> by (simp_all add: block_count_def)
  then have ik: "i + Suc ?k \<le> length ?A" using \<open>i < j\<close> by (auto simp: consumed_def)
  have Ai: "?A ! i = AInline sh ?c"
    using i jl by (simp add: abs_doc_def doc_block_def get_Some_iff block_count_def)
  have ge: "get (abs_doc g e) i = Some (AInline sh (take so ?c @ abs_tail eo (abs_block g eb)))"
    unfolding e by (rule get_splice1 [OF jl(2)])
  have whole: "AInline sh ?c # restored_rest g ?del = take (Suc ?k) (drop i ?A)"
    unfolding rest using jl Ai by (simp add: Cons_nth_drop_Suc [symmetric])
  have back_at: "splice_at i 1 (AInline sh ?c # restored_rest g ?del) (abs_doc g e) = ?A"
    unfolding e whole using splice_self [OF ik] jl by (intro splice_back) simp_all
  obtain rest where del: "del_blocks ?del = mk_inline sh fr # rest" using fr by (cases "del_blocks ?del") auto
  show ?thesis
  proof (cases "rest = []")
    case True
    then have k0: "restored_rest g ?del = []" by (simp add: restored_rest_def del)
    have tail: "abs_tail eo (abs_block g eb) = []"
    proof (cases "is_inline_block eb")
      case True
      with k0 rest jl \<open>i < j\<close> ik show ?thesis by (simp add: consumed_def)
    next
      case False
      then show ?thesis by (cases eb) simp_all
    qed
    have nt: "end_tail ?del = None"
      using True del i j \<open>i < j\<close> map_filter_doc_block [of j d "Suc i"] jl
      by (auto simp: build_deleted_content_def Let_def split_beta split: option.splits if_splits
          simp del: block_runs_None_iff)
    have "?del = \<lparr>del_blocks = [mk_inline sh fr], end_tail = None\<rparr>" using True del nt by simp
    with restore_within_abs [OF ge, of "mk_inline sh fr" fr so] so tail fr(3) back_at k0 show ?thesis by simp
  next
    case False
    from restore_cross_abs [OF ge del _ False, of fr so] so fr(3) back_at del False show ?thesis
      by (simp add: restored_rest_def Let_def)
  qed
qed

lemma back_delete_atomic:
  assumes b: "doc_block d i = Some b" "is_atomic_block b"
    and u: "\<not> (block_count d = 2 \<and> i = 0 \<and> abs_doc g d ! 1 = AInline SParagraph [])" and "eo > 0"
    and d': "apply_op g (DeleteRange (DocPosition i 0) (DocPosition i eo) del) d = Inr (d', m)"
    and e: "abs_doc g e = abs_doc g d'"
  shows "\<exists>e' m'. apply_op g (DeleteRange (DocPosition i 0) (DocPosition i 0)
      \<lparr>del_blocks = [b], end_tail = None\<rparr>) e = Inr (e', m') \<and> abs_doc g e' = abs_doc g d"
proof -
  let ?A = "abs_doc g d"
  have i: "i < length (blocks d)" "blocks d ! i = b" using b by (simp_all add: doc_block_def get_Some_iff)
  have ni: "\<not> is_inline_block b" and br: "block_runs b = None"
    using b(2) by (simp_all add: is_atomic_block_def)
  have "DocPosition i 0 \<le> DocPosition i eo" by (simp add: less_eq_doc_position_def)
  then have single: "apply_single_block_delete g d (DocPosition i 0) (DocPosition i eo) = Inr (d', m)"
    using d' \<open>eo > 0\<close> by (simp add: apply_delete_range_def)
  show ?thesis
  proof (cases "block_count d = 1")
    case True
    then have i0: "i = 0" "?A = [abs_block g b]"
      using i by (auto simp: block_count_def abs_doc_def intro!: nth_equalityI)
    from single b br True \<open>eo > 0\<close> have "abs_doc g d' = [AInline SParagraph []]"
      using i0 by (auto simp: apply_single_block_delete_def Let_def block_char_len_atomic
          empty_paragraph_def simp del: block_runs_None_iff)
    then have "abs_doc g e = [AInline SParagraph []]" using e by simp
    moreover from this have "first_is_empty_paragraph e" "block_count e = 1"
      using first_is_empty_abs [OF segmentation_axioms, of e] length_abs_doc [of g e] by simp_all
    ultimately show ?thesis
      using ni i0 by (simp add: apply_delete_range_def apply_restore_deleted_def Let_def)
  next
    case False
    then have "d' = d\<lparr>blocks := remove_at i (blocks d)\<rparr>"
      using single b br \<open>eo > 0\<close> i
      by (auto simp: apply_single_block_delete_def Let_def block_char_len_atomic
          simp del: block_runs_None_iff)
    then have e': "abs_doc g e = remove_at i ?A" using e by (simp add: map_remove_at abs_doc_def)
    then have ce: "block_count e = block_count d - 1" "i \<le> block_count e"
      using i length_abs_doc [of g e] by (simp_all add: block_count_def)
    have "\<not> (block_count e = 1 \<and> i = 0 \<and> first_is_empty_paragraph e)"
    proof
      assume a: "block_count e = 1 \<and> i = 0 \<and> first_is_empty_paragraph e"
      then have "get (remove_at 0 ?A) 0 = Some (AInline SParagraph [])" "length ?A = 2"
        using first_is_empty_abs [OF segmentation_axioms, of e] e' ce False i by (auto simp: block_count_def)
      then have "?A ! 1 = AInline SParagraph []"
        by (simp add: remove_at_def get_Some_iff)
      with u a \<open>length ?A = 2\<close> show False by simp
    qed
    moreover have "map (abs_block g) (insert_at i b (blocks e)) = ?A"
      using e' i insert_at_remove_at [of i ?A] by (simp add: map_insert_at abs_doc_def)
    ultimately show ?thesis
      using ni ce by (auto simp: apply_delete_range_def apply_restore_deleted_def Let_def vec_insert_def
          block_count_def)
  qed
qed

lemma build_deleted_within:
  "doc_block d i = Some b \<Longrightarrow> block_runs b = Some runs \<Longrightarrow>
    build_deleted_content g d (DocPosition i so) (DocPosition i eo) =
      \<lparr>del_blocks = [mk_inline (shape_of b) (extract_deleted_runs g runs so eo)], end_tail = None\<rparr>"
  "doc_block d i = Some b \<Longrightarrow> is_atomic_block b \<Longrightarrow> eo > 0 \<Longrightarrow>
    build_deleted_content g d (DocPosition i 0) (DocPosition i eo) = \<lparr>del_blocks = [b], end_tail = None\<rparr>"
  by (auto simp: build_deleted_content_def block_with_runs_like_eq block_char_len_atomic
      simp flip: block_runs_None_iff simp del: block_runs_None_iff)

lemma back_delete:
  assumes "undoable g plain (DeleteRange s e del) d"
    and "apply_op g (DeleteRange s e del) d = Inr (d', m)" "abs_doc g x = abs_doc g d'"
  shows "\<exists>x' m'. apply_op g (DeleteRange s s del) x = Inr (x', m') \<and> abs_doc g x' = abs_doc g d"
proof -
  obtain i so j eo where se: "s = DocPosition i so" "e = DocPosition j eo" by (cases s, cases e)
  from assms(1) have lt: "s < e" and del: "del = build_deleted_content g d s e" and u: "undoable_delete g d s e"
    by simp_all
  from u se obtain b where b: "doc_block d i = Some b"
    by (auto simp: undoable_delete_def split: option.splits)
  show ?thesis
  proof (cases "is_inline_block b")
    case False
    then have "is_atomic_block b" "so = 0" "i = j" "eo > 0"
      using u b se lt by (auto simp: undoable_delete_def is_atomic_block_def less_doc_position_def)
    then show ?thesis
      using back_delete_atomic [OF b, of eo del d' m x] build_deleted_within(2) [OF b, of eo]
        u b se assms(2,3) del False
      by (simp add: undoable_delete_def)
  next
    case True
    then obtain runs where r: "block_runs b = Some runs" by (auto simp: is_inline_block_iff)
    let ?sh = "shape_of b"
    have bm: "doc_block d i = Some (mk_inline ?sh runs)" using b block_runs_SomeD [OF r] by simp
    then have A: "get (abs_doc g d) i = Some (AInline ?sh (runs_content g runs))" by (simp add: get_abs_doc)
    show ?thesis
    proof (cases "i = j")
      case True
      then have so: "so \<le> eo" "so < eo" using lt se by (auto simp: less_doc_position_def)
      from delete_within_abs [OF A so(1), of del] so assms(2,3) se True
      have "abs_doc g x = splice_at i 1 [AInline ?sh (take so (runs_content g runs) @ drop eo (runs_content g runs))] (abs_doc g d)"
        by auto
      from back_delete_within [OF A this so(1)] del se True build_deleted_within(1) [OF b r, of so eo]
      show ?thesis by simp
    next
      case False
      then have ij: "i < j" using lt se by (auto simp: less_doc_position_def)
      from u b se True False have so: "so \<le> length (runs_content g runs)" and j: "j < block_count d"
        using r by (auto simp: undoable_delete_def block_char_len_runs)
      then obtain eb where eb: "doc_block d j = Some eb" by (auto simp: doc_block_def get_def block_count_def)
      then have "get (abs_doc g d) j = Some (abs_block g eb)" by (simp add: get_abs_doc)
      from cross_delete_abs [OF A this ij, of so eo del] assms(2,3) se
      have "abs_doc g x = splice_at i (Suc (consumed i j eo (abs_block g eb)))
          [AInline ?sh (take so (runs_content g runs) @ abs_tail eo (abs_block g eb))] (abs_doc g d)"
        by auto
      from back_delete_cross [OF bm eb ij so this] del se show ?thesis by simp
    qed
  qed
qed

lemma back_split:
  assumes "undoable g plain (SplitBlock p) d" "apply_op g (SplitBlock p) d = Inr (d', m)"
    and "abs_doc g x = abs_doc g d'"
  shows "\<exists>x' m'. apply_op g (MergeBlocks (block_index p + 1) sv mo) x = Inr (x', m') \<and> abs_doc g x' = abs_doc g d"
proof -
  obtain i off where p: "p = DocPosition i off" by (cases p)
  with assms(1) obtain b where b: "doc_block d i = Some b" "is_inline_block b"
    by (auto split: option.splits)
  then obtain sh c where A: "get (abs_doc g d) i = Some (AInline sh c)"
    by (auto simp: get_abs_doc is_inline_block_iff dest: abs_block_inline)
  have i: "i < length (abs_doc g d)" by (rule get_Some_less [OF A])
  from split_abs [OF A, of off] assms(2,3) p
  have x: "abs_doc g x = splice_at i 1 [AInline sh (take off c), AInline sh (drop off c)] (abs_doc g d)" by auto
  have "get (abs_doc g x) i = Some (AInline sh (take off c))"
    "get (abs_doc g x) (Suc i) = Some (AInline sh (drop off c))"
    using i get_splice [of i "abs_doc g d" 0 "[_, _]"] get_splice [of i "abs_doc g d" 1 "[_, _]"]
    by (simp_all add: x)
  from merge_abs [OF this, of sv mo] obtain x' m' where
    "apply_op g (MergeBlocks (Suc i) sv mo) x = Inr (x', m')"
    "abs_doc g x' = splice_at i 2 [AInline sh c] (abs_doc g x)" by auto
  moreover have "splice_at i 2 [AInline sh c] (abs_doc g x) = abs_doc g d"
    using x splice_splice [of i "abs_doc g d" "[_, _]" 2 "[AInline sh c]" 1] splice_same1 [OF A] i by simp
  ultimately show ?thesis using p by simp
qed

lemma back_merge:
  assumes "undoable g plain (MergeBlocks bi sv mo) d" "apply_op g (MergeBlocks bi sv mo) d = Inr (d', m)"
    and "abs_doc g x = abs_doc g d'"
  shows "\<exists>x' m'. apply_op g (RestoreMergedBlock bi sv mo) x = Inr (x', m') \<and> abs_doc g x' = abs_doc g d"
proof -
  from assms(1) obtain i b where bi: "bi = Suc i" and b: "doc_block d i = Some b" "is_inline_block b"
    and sv: "doc_block d (Suc i) = Some sv" "is_inline_block sv" and mo: "mo = block_char_len g b"
    by (cases bi) (auto split: option.splits)
  then obtain r r2 where r: "block_runs b = Some r" and r2: "block_runs sv = Some r2"
    by (auto simp: is_inline_block_iff)
  let ?a = "AInline (shape_of b) (runs_content g r)" and ?a2 = "AInline (shape_of sv) (runs_content g r2)"
  have A: "get (abs_doc g d) i = Some ?a" "get (abs_doc g d) (Suc i) = Some ?a2"
    using b sv abs_block_inline [OF r] abs_block_inline [OF r2] by (simp_all add: get_abs_doc)
  have i: "i < length (abs_doc g d)" by (rule get_Some_less [OF A(1)])
  from merge_abs [OF A, of sv mo] assms(2,3) bi
  have x: "abs_doc g x = splice_at i 2 [AInline (shape_of b) (runs_content g r @ runs_content g r2)] (abs_doc g d)"
    by auto
  have "get (abs_doc g x) i = Some (AInline (shape_of b) (runs_content g r @ runs_content g r2))"
    unfolding x by (rule get_splice1 [OF i])
  from restore_merged_abs [OF this, of sv mo] obtain x' m' where
    "apply_op g (RestoreMergedBlock (Suc i) sv mo) x = Inr (x', m')"
    "abs_doc g x' = splice_at i 1 [?a, ?a2] (abs_doc g x)"
    using mo r abs_block_inline [OF r2] by (auto simp: block_char_len_runs)
  moreover have "splice_at i 1 [?a, ?a2] (abs_doc g x) = abs_doc g d"
    using x splice_splice [of i "abs_doc g d" "[_]" 1 "[?a, ?a2]" 2] splice_same2 [OF A] i by simp
  ultimately show ?thesis using bi by simp
qed

lemma back_set_type:
  assumes "undoable g plain (SetBlockType bi old new) d" "apply_op g (SetBlockType bi old new) d = Inr (d', m)"
    and "abs_doc g x = abs_doc g d'"
  shows "\<exists>x' m'. apply_op g (SetBlockType bi new old) x = Inr (x', m') \<and> abs_doc g x' = abs_doc g d"
proof -
  from assms(1) obtain b where b: "doc_block d bi = Some b" "is_inline_block b"
    and k: "inline_kind new" "old = kind b" "kind_shape old = shape_of b"
    by (auto split: option.splits)
  from b(2) have ik: "inline_kind old" using k(2) by (cases b) simp_all
  from b obtain c where A: "get (abs_doc g d) bi = Some (AInline (shape_of b) c)"
    by (auto simp: get_abs_doc is_inline_block_iff dest: abs_block_inline)
  from set_type_abs [OF A k(1), of old] assms(2,3)
  have x: "abs_doc g x = splice_at bi 1 [AInline (kind_shape new) c] (abs_doc g d)" by auto
  have "get (abs_doc g x) bi = Some (AInline (kind_shape new) c)"
    unfolding x by (rule get_splice1 [OF get_Some_less [OF A]])
  from set_type_abs [OF this ik, of new] x A k show ?thesis by (auto simp: splice_back1)
qed

lemma back_set_attrs:
  assumes "undoable g plain (SetBlockAttrs bi old new) d" "apply_op g (SetBlockAttrs bi old new) d = Inr (d', m)"
    and "abs_doc g x = abs_doc g d'"
  shows "\<exists>x' m'. apply_op g (SetBlockAttrs bi new old) x = Inr (x', m') \<and> abs_doc g x' = abs_doc g d"
proof -
  from assms(1) obtain b where b: "doc_block d bi = Some b" and old: "old = block_attrs_of b"
    by (auto split: option.splits)
  have unchanged: "\<exists>x' m'. apply_op g (SetBlockAttrs bi y z) x = Inr (x', m') \<and> abs_doc g x' = abs_doc g x"
    if gx: "get (abs_doc g x) bi = Some a" and nl: "\<And>ord ind c. a \<noteq> AInline (SListItem ord ind) c" for x y z a
  proof -
    from gx obtain bx where bx: "doc_block x bi = Some bx" "abs_block g bx = a" by (auto simp: get_abs_doc)
    then have "with_attrs bx z = Some bx \<or> with_attrs bx z = None" using nl by (cases bx) auto
    with bx show ?thesis
      by (auto simp: apply_set_block_attrs_def abs_doc_def doc_block_def get_Some_iff split: option.splits)
  qed
  show ?thesis
  proof (cases "\<exists>ord ind runs. b = ListItem ord ind runs")
    case True
    then obtain ord ind runs where bl: "b = ListItem ord ind runs" by blast
    have A: "get (abs_doc g d) bi = Some (AInline (SListItem ord ind) (runs_content g runs))"
      using b bl by (simp add: get_abs_doc)
    from set_attrs_abs [OF A, of old new] assms(2,3)
    have x: "abs_doc g x = splice_at bi 1 [AInline (SListItem ord (indent_level new)) (runs_content g runs)] (abs_doc g d)"
      by auto
    have "get (abs_doc g x) bi = Some (AInline (SListItem ord (indent_level new)) (runs_content g runs))"
      unfolding x by (rule get_splice1 [OF get_Some_less [OF A]])
    from set_attrs_abs [OF this, of new old] x A bl old show ?thesis by (auto simp: splice_back1)
  next
    case False
    then have nl: "\<And>ord ind c. abs_block g b \<noteq> AInline (SListItem ord ind) c" by (cases b) auto
    have gd: "get (abs_doc g d) bi = Some (abs_block g b)" using b by (simp add: get_abs_doc)
    from unchanged [OF gd nl, of old new] assms(2,3) have x: "abs_doc g x = abs_doc g d" by auto
    from unchanged [of x "abs_block g b" new old] gd nl show ?thesis by (simp add: x)
  qed
qed

lemma back_toggle:
  assumes "undoable g plain (ToggleInlineStyle s e flag) d"
    and "apply_op g (ToggleInlineStyle s e flag) d = Inr (d', m)" "abs_doc g x = abs_doc g d'"
  shows "\<exists>x' m'. apply_op g (ToggleInlineStyle s e flag) x = Inr (x', m') \<and> abs_doc g x' = abs_doc g d"
proof -
  from assms(1) have u: "s < e" "flag \<noteq> 0" "uniform_range s e flag (abs_doc g d)" by simp_all
  from toggle_abs_apply [OF u(1), of flag d] assms(2,3)
  have "abs_doc g x = toggle_abs s e flag (all_have s e flag (abs_doc g d)) (abs_doc g d)" by auto
  with toggle_abs_apply [OF u(1), of flag x] toggle_abs_twice [OF u(2,3)] show ?thesis by auto
qed

lemma back_blocks:
  assumes "undoable g plain op d" "apply_op g op d = Inr (d', m)" "abs_doc g x = abs_doc g d'"
  shows "op = InsertBlock i b \<Longrightarrow> \<exists>x' m'. apply_op g (RemoveBlock i b) x = Inr (x', m') \<and> abs_doc g x' = abs_doc g d"
    and "op = RemoveBlock i b \<Longrightarrow> \<exists>x' m'. apply_op g (InsertBlock i b) x = Inr (x', m') \<and> abs_doc g x' = abs_doc g d"
    and "op = ReplaceBlock i b b' \<Longrightarrow> \<exists>x' m'. apply_op g (ReplaceBlock i b' b) x = Inr (x', m') \<and> abs_doc g x' = abs_doc g d"
proof -
  let ?A = "abs_doc g d"
  assume op: "op = InsertBlock i b"
  with assms(1) have i: "i \<le> length ?A" "0 < length ?A" by simp_all
  from insert_block_abs [OF i(1), of b] op assms(2,3) have x: "abs_doc g x = splice_at i 0 [abs_block g b] ?A" by auto
  then have "i < length (abs_doc g x)" "1 < length (abs_doc g x)" using i by (simp_all add: length_splice)
  from remove_block_abs [OF this, of b] show "\<exists>x' m'. apply_op g (RemoveBlock i b) x = Inr (x', m') \<and> abs_doc g x' = ?A"
    using x i by (auto simp: splice_splice splice_at_def)
next
  let ?A = "abs_doc g d"
  assume op: "op = RemoveBlock i b"
  with assms(1) have b: "doc_block d i = Some b" and c: "1 < length ?A" by simp_all
  have i: "i < length ?A" using doc_block_less [OF b] by (simp add: block_count_def)
  from remove_block_abs [OF i c, of b] op assms(2,3) have x: "abs_doc g x = splice_at i 1 [] ?A" by auto
  then have "i \<le> length (abs_doc g x)" using i c by (simp add: length_splice)
  from insert_block_abs [OF this, of b]
  show "\<exists>x' m'. apply_op g (InsertBlock i b) x = Inr (x', m') \<and> abs_doc g x' = ?A"
    using x i b splice_same1 [of ?A i "abs_block g b"] by (auto simp: splice_splice get_abs_doc)
next
  let ?A = "abs_doc g d"
  assume op: "op = ReplaceBlock i b b'"
  with assms(1) have b: "doc_block d i = Some b" by simp
  have i: "i < length ?A" using doc_block_less [OF b] by (simp add: block_count_def)
  from replace_block_abs [OF i, of b b'] op assms(2,3) have x: "abs_doc g x = splice_at i 1 [abs_block g b'] ?A" by auto
  then have "i < length (abs_doc g x)" using i by (simp add: length_splice)
  from replace_block_abs [OF this, of b' b]
  show "\<exists>x' m'. apply_op g (ReplaceBlock i b' b) x = Inr (x', m') \<and> abs_doc g x' = ?A"
    using x b by (auto simp: splice_back1 get_abs_doc)
qed

end

context plain_segmentation
begin

lemma back_insert:
  assumes "undoable g plain (InsertText p t) d" "apply_op g (InsertText p t) d = Inr (d', m)"
    and "abs_doc g x = abs_doc g d'"
  shows "\<exists>x' m'. apply_op g (invert_with_doc g x (InsertText p t)) x = Inr (x', m') \<and> abs_doc g x' = abs_doc g d"
proof -
  obtain i off where p: "p = DocPosition i off" by (cases p)
  with assms(1) obtain b runs where b: "doc_block d i = Some b" "block_runs b = Some runs"
    and u: "runs \<noteq> []" "plain_runs plain runs" "plain t" "off \<le> length (runs_content g runs)"
    by (auto simp: bind_eq_Some_conv split: option.splits)
  let ?c = "runs_content g runs" and ?sh = "shape_of b"
  have bm: "doc_block d i = Some (mk_inline ?sh runs)" using b block_runs_SomeD [OF b(2)] by simp
  then have A: "get (abs_doc g d) i = Some (AInline ?sh ?c)" by (simp add: get_abs_doc)
  from insert_text_abs [OF bm u(1,3,2), of off] assms(2,3) p obtain lk where
    x: "abs_doc g x = splice_at i 1 [AInline ?sh (take off ?c @ map (cluster_of (inherited_style g runs off) lk) (g t) @ drop off ?c)] (abs_doc g d)"
    by auto
  let ?new = "take off ?c @ map (cluster_of (inherited_style g runs off) lk) (g t) @ drop off ?c"
  have gx: "get (abs_doc g x) i = Some (AInline ?sh ?new)"
    unfolding x by (rule get_splice1 [OF get_Some_less [OF A]])
  obtain del where inv: "invert_with_doc g x (InsertText p t) =
      DeleteRange (DocPosition i off) (DocPosition i (off + text_len g t)) del"
    using p by (auto simp: invert_with_doc_def Let_def)
  show ?thesis
  proof (cases "t = []")
    case False
    then have "off < off + text_len g t" by (simp add: text_len_eq_0 [symmetric] del: text_len_eq_0)
    with delete_within_abs [OF gx, of off "off + text_len g t" del] inv x A u(4) show ?thesis
      by (auto simp: splice_back1 text_len_def)
  next
    case True
    then have xd: "abs_doc g x = abs_doc g d" using x splice_same1 [OF A] by simp
    from gx obtain rx where "doc_block x i = Some (mk_inline ?sh rx)" by (rule abs_inlineD)
    with inv p True have "del = \<lparr>del_blocks = [Paragraph [run_plain []]], end_tail = None\<rparr>"
      by (simp add: invert_with_doc_def Let_def extract_runs_from_range_def text_len_def)
    with restore_within_abs [OF gx, of "Paragraph [run_plain []]" "[run_plain []]" off] inv True xd
      splice_same1 [OF gx]
    show ?thesis by (auto simp: text_len_def)
  qed
qed

lemma undoable_back:
  assumes "undoable g plain op d" "apply_op g op d = Inr (d', m)" "abs_doc g x = abs_doc g d'"
  shows "\<exists>x'. undo_step g op x = Inr x' \<and> abs_doc g x' = abs_doc g d"
proof -
  have "\<exists>x' m'. apply_op g (invert_with_doc g x op) x = Inr (x', m') \<and> abs_doc g x' = abs_doc g d"
  proof (cases op)
    case InsertText
    with back_insert assms show ?thesis by blast
  next
    case DeleteRange
    with back_delete assms show ?thesis by (simp add: invert_with_doc_def invert_delete_range_def)
  next
    case SplitBlock
    with back_split assms show ?thesis by (simp add: invert_with_doc_def)
  next
    case MergeBlocks
    with back_merge assms show ?thesis by (simp add: invert_with_doc_def)
  next
    case ToggleInlineStyle
    with back_toggle assms show ?thesis by (simp add: invert_with_doc_def)
  next
    case SetBlockType
    with back_set_type assms show ?thesis by (simp add: invert_with_doc_def)
  next
    case SetBlockAttrs
    with back_set_attrs assms show ?thesis by (simp add: invert_with_doc_def)
  next
    case InsertBlock
    with back_blocks(1) [OF assms] show ?thesis by (simp add: invert_with_doc_def)
  next
    case RemoveBlock
    with back_blocks(2) [OF assms] show ?thesis by (simp add: invert_with_doc_def)
  next
    case ReplaceBlock
    with back_blocks(3) [OF assms] show ?thesis by (simp add: invert_with_doc_def)
  next
    case RestoreMergedBlock
    with assms show ?thesis by simp
  qed
  then show ?thesis by (auto simp: undo_step_def)
qed

end

text \<open>The editor's operations are an instance, for every segmentation and class of plain texts.\<close>

sublocale plain_segmentation \<subseteq> edit: view_inverse "undo_step g" "abs_doc g" "leads_undoably g plain"
  by unfold_locales (auto simp: leads_undoably_def dest: undoable_back)

context plain_segmentation
begin

lemma undo_all_eq: "edit.undo_all ops d = undo_ops g ops d"
  by (induction ops arbitrary: d) (auto simp: undo_step_def res_bind_def split: sum.splits)

end

text \<open>A list of operations, each undoable where it is applied.\<close>

fun undoable_all :: "segmenter \<Rightarrow> (string \<Rightarrow> bool) \<Rightarrow> edit_op list \<Rightarrow> document \<Rightarrow> bool" where
  "undoable_all g plain [] d = True"
| "undoable_all g plain (op # ops) d =
     (undoable g plain op d \<and>
      (case apply_op g op d of Inl p \<Rightarrow> False | Inr (d', m) \<Rightarrow> undoable_all g plain ops d'))"

context plain_segmentation
begin

lemma undoable_path:
  "undoable_all g plain ops d \<Longrightarrow> \<exists>d'. apply_ops g ops d = Inr d' \<and> edit.path ops (abs_doc g d) (abs_doc g d')"
proof (induction ops arbitrary: d)
  case (Cons op ops)
  then obtain d1 m where d1: "apply_op g op d = Inr (d1, m)" "undoable g plain op d" "undoable_all g plain ops d1"
    by (auto split: sum.splits)
  then have "leads_undoably g plain op (abs_doc g d) (abs_doc g d1)"
    unfolding leads_undoably_def by blast
  with Cons.IH [OF d1(3)] d1(1) show ?case by auto
qed simp

text \<open>Undoing a group on any document that looks like the one it led to.\<close>

lemma undo_group:
  assumes "undoable_all g plain ops d" "apply_ops g ops d = Inr d'" "abs_doc g e = abs_doc g d'"
  shows "\<exists>e'. undo_ops g (rev ops) e = Inr e' \<and> abs_doc g e' = abs_doc g d"
proof -
  from undoable_path [OF assms(1)] assms(2) have "edit.path ops (abs_doc g d) (abs_doc g d')" by auto
  from edit.undo_path [OF this assms(3)] show ?thesis by (simp add: undo_all_eq)
qed

end

end
