(* ===== verification/RteTyping.thy ===== *)
theory RteTyping
  imports RteUndoable
begin

text \<open>
  Typing: \<open>resolve_insert\<close> predicts the style the inserted text inherits and toggles the bits in
  which it differs from the wanted style. The prediction is right, so the text ends up with exactly
  the wanted style; and every operation involved is undoable.
\<close>

unbundle bit_operations_syntax

section \<open>The declared style bits\<close>

definition declared_style :: "inline_style \<Rightarrow> bool" where
  "declared_style s \<longleftrightarrow> s AND NOT 15 = 0"

definition single_bit :: "inline_style \<Rightarrow> bool" where
  "single_bit f \<longleftrightarrow> (\<exists>n < 8. f = push_bit n 1)"

lemma single_bit_flags: "single_bit BOLD" "single_bit ITALIC" "single_bit UNDERLINE" "single_bit STRIKETHROUGH"
proof -
  show "single_bit BOLD" unfolding single_bit_def BOLD_def by (rule exI [of _ 0]) simp
  show "single_bit ITALIC" unfolding single_bit_def ITALIC_def by (rule exI [of _ 1]) simp
  show "single_bit UNDERLINE" unfolding single_bit_def UNDERLINE_def by (rule exI [of _ 2]) simp
  show "single_bit STRIKETHROUGH" unfolding single_bit_def STRIKETHROUGH_def by (rule exI [of _ 3]) simp
qed

lemma bit_one_shifted: "n < 8 \<Longrightarrow> bit (push_bit n (1 :: inline_style)) k \<longleftrightarrow> k = n"
  by (auto simp: bit_exp_iff)

lemma single_bit_nonzero: "single_bit f \<Longrightarrow> f \<noteq> 0"
  using bit_one_shifted by (fastforce simp: single_bit_def)

lemma style_contains_bit:
  assumes "\<And>k. bit f k \<longleftrightarrow> k = n"
  shows "style_contains st f \<longleftrightarrow> bit st n"
proof
  assume "style_contains st f"
  then have "bit (st AND f) n \<longleftrightarrow> bit f n" by (simp only: style_contains_def)
  then show "bit st n" by (simp add: bit_and_iff assms)
next
  assume "bit st n"
  then show "style_contains st f"
    unfolding style_contains_def by (intro bit_eqI) (auto simp: bit_and_iff assms)
qed

lemma single_bit_cases:
  assumes "single_bit f"
  shows "style_contains st f \<Longrightarrow> style_remove f st = st XOR f"
    and "\<not> style_contains st f \<Longrightarrow> style_insert f st = st XOR f \<and> st AND f = 0"
proof -
  from assms obtain n where n: "n < 8" "f = push_bit n 1" by (auto simp: single_bit_def)
  have bf: "bit f k \<longleftrightarrow> k = n" for k using n bit_one_shifted by simp
  have c: "style_contains st f \<longleftrightarrow> bit st n" by (rule style_contains_bit [OF bf])
  show "style_contains st f \<Longrightarrow> style_remove f st = st XOR f"
    unfolding c style_remove_def
    by (rule bit_eqI) (auto simp: bit_and_iff bit_xor_iff bit_not_iff bf dest: bit_imp_le_length)
  assume "\<not> style_contains st f"
  then have "\<not> bit st n" by (simp add: c)
  then have "st OR f = st XOR f" "st AND f = 0"
    by (intro bit_eqI; auto simp: bit_and_iff bit_or_iff bit_xor_iff bf)+
  then show "style_insert f st = st XOR f \<and> st AND f = 0" by (simp add: style_insert_def)
qed

definition style_xor :: "inline_style list \<Rightarrow> inline_style \<Rightarrow> inline_style" where
  "style_xor fs s = foldl (XOR) s fs"

lemma style_iter_xor:
  assumes "declared_style d"
  shows "style_xor (style_iter d) s = s XOR d"
proof -
  have rest: "d AND NOT 15 = 0" using assms by (simp add: declared_style_def)
  have b15: "bit (15 :: inline_style) k \<longleftrightarrow> k < 4" for k
  proof -
    have "(15 :: inline_style) = mask 4" by (simp add: mask_eq_exp_minus_1)
    moreover have "bit (mask 4 :: inline_style) k \<longleftrightarrow> k < 4"
      by (auto simp only: bit_mask_iff possible_bit_word len_num0 len_bit0 len_num1)
    ultimately show ?thesis by (simp only:)
  qed
  have bd: "bit d k \<Longrightarrow> k < 4" for k
  proof (rule ccontr)
    assume "bit d k" "\<not> k < 4"
    then have "bit (d AND NOT 15) k" 
      by (auto simp only: bit_and_iff bit_not_iff b15 dest: bit_imp_possible_bit)
    with rest show False by simp
  qed
  have flags: "BOLD = push_bit 0 1" "ITALIC = push_bit 1 1" "UNDERLINE = push_bit 2 1" "STRIKETHROUGH = push_bit 3 1"
    by (simp_all add: BOLD_def ITALIC_def UNDERLINE_def STRIKETHROUGH_def)
  have bf: "bit BOLD k \<longleftrightarrow> k = 0" "bit ITALIC k \<longleftrightarrow> k = 1" "bit UNDERLINE k \<longleftrightarrow> k = 2"
    "bit STRIKETHROUGH k \<longleftrightarrow> k = 3" for k
    unfolding flags by (rule bit_one_shifted; simp)+
  have c: "style_contains d BOLD \<longleftrightarrow> bit d 0" "style_contains d ITALIC \<longleftrightarrow> bit d 1"
    "style_contains d UNDERLINE \<longleftrightarrow> bit d 2" "style_contains d STRIKETHROUGH \<longleftrightarrow> bit d 3"
    by (rule style_contains_bit, rule bf)+
  have step: "style_xor (filter P (f # fs)) u = style_xor (filter P fs) (if P f then u XOR f else u)" for P f fs u
    by (simp add: style_xor_def)
  have bit_if: "bit (if P then u XOR f else u) k \<longleftrightarrow> bit u k \<noteq> (P \<and> bit f k)" for P k and u f :: inline_style
    by (simp add: bit_xor_iff)
  have iter: "style_iter d = filter (style_contains d) [BOLD, ITALIC, UNDERLINE, STRIKETHROUGH]"
    by (simp only: style_iter_def rest Let_def simp_thms if_True append_Nil2)
  show ?thesis
  proof (rule bit_eqI)
    fix k :: nat
    have "bit (style_xor (style_iter d) s) k \<longleftrightarrow>
        ((((bit s k \<noteq> (bit d 0 \<and> k = 0)) \<noteq> (bit d 1 \<and> k = 1)) \<noteq> (bit d 2 \<and> k = 2)) \<noteq> (bit d 3 \<and> k = 3))"
      unfolding iter step filter.simps(1) by (simp only: style_xor_def foldl.simps bit_if c bf)
    also have "\<dots> \<longleftrightarrow> bit s k \<noteq> bit d k"
    proof (cases "k < 4")
      case True
      then have "k = 0 \<or> k = 1 \<or> k = 2 \<or> k = 3" by arith
      then show ?thesis by (elim disjE) simp_all
    next
      case False
      with bd [of k] show ?thesis by auto
    qed
    finally show "bit (style_xor (style_iter d) s) k \<longleftrightarrow> bit (s XOR d) k" by (simp only: bit_xor_iff)
  qed
qed

lemma style_iter_single: "declared_style d \<Longrightarrow> f \<in> set (style_iter d) \<Longrightarrow> single_bit f"
  by (auto simp: style_iter_def declared_style_def Let_def single_bit_flags split: if_splits)

lemma declared_xor: "declared_style a \<Longrightarrow> declared_style b \<Longrightarrow> declared_style (a XOR b)"
  by (auto simp: declared_style_def bit_eq_iff bit_and_iff bit_xor_iff bit_not_iff)

section \<open>Toggling the style of freshly inserted text\<close>

lemma cluster_restyle_of:
  "cluster_restyle rm f (cluster_of st lk x) =
    cluster_of (if rm then style_remove f st else style_insert f st) lk x"
  by (simp add: cluster_restyle_def cluster_of_def)

lemma cluster_has_of [simp]: "cluster_has f (cluster_of st lk x) \<longleftrightarrow> style_contains st f"
  by (simp add: cluster_has_def cluster_of_def)

lemma cluster_lacks_of [simp]: "cluster_lacks f (cluster_of st lk x) \<longleftrightarrow> st AND f = 0"
  by (simp add: cluster_lacks_def cluster_of_def)

text \<open>All clusters of the range \<open>ts\<close> have the same style, so it is uniform for every single flag and
  a toggle flips that flag.\<close>

lemma typed_range_toggle:
  assumes block: "get A i = Some (AInline sh (pre @ map (cluster_of st lk) ts @ post))"
    and ts: "ts \<noteq> []" and f: "single_bit f"
    and se: "s = DocPosition i (length pre)" "e = DocPosition i (length pre + length ts)"
  shows "uniform_range s e f A"
    and "toggle_abs s e f (all_have s e f A) A =
      splice_at i 1 [AInline sh (pre @ map (cluster_of (st XOR f) lk) ts @ post)] A"
proof -
  have i: "i < length A" "A ! i = AInline sh (pre @ map (cluster_of st lk) ts @ post)"
    using block by (simp_all add: get_Some_iff)
  have clusters: "range_clusters s e i (A ! i) = map (cluster_of st lk) ts"
    by (simp add: i abs_range_def se)
  have "all_have s e f A \<longleftrightarrow> (\<forall>x \<in> set (range_clusters s e i (A ! i)). cluster_has f x)"
    using i(1) se by (auto simp: all_have_def dest: le_antisym)
  then have have_iff: "all_have s e f A \<longleftrightarrow> style_contains st f"
    using ts by (auto simp: clusters neq_Nil_conv)
  then show "uniform_range s e f A"
    using single_bit_cases(2) [OF f, of st] clusters by (auto simp: uniform_range_def se dest!: le_antisym)
  let ?rm = "all_have s e f A"
  have st': "(if ?rm then style_remove f st else style_insert f st) = st XOR f"
    using single_bit_cases [OF f, of st] by (simp add: have_iff)
  have "toggle_abs_block s e f ?rm i (A ! i) = AInline sh (pre @ map (cluster_of (st XOR f) lk) ts @ post)"
    using ts st' by (simp add: i abs_range_def se restyle_range_def cluster_restyle_of comp_def)
  then have "toggle_abs s e f ?rm A = A[i := AInline sh (pre @ map (cluster_of (st XOR f) lk) ts @ post)]"
    using i(1) se by (intro nth_equalityI) (auto simp: toggle_abs_nth nth_list_update dest: le_antisym)
  then show "toggle_abs s e f ?rm A =
      splice_at i 1 [AInline sh (pre @ map (cluster_of (st XOR f) lk) ts @ post)] A"
    using i(1) by (simp add: splice_update)
qed

context plain_segmentation
begin

text \<open>A sequence of such toggles, each undoable.\<close>

lemma typed_toggles:
  assumes "get (abs_doc g d) i = Some (AInline sh (pre @ map (cluster_of st lk) ts @ post))"
    and ts: "ts \<noteq> []" and "\<forall>f \<in> set fs. single_bit f"
    and se: "s = DocPosition i (length pre)" "e = DocPosition i (length pre + length ts)"
  shows "\<exists>d'. apply_ops g (map (ToggleInlineStyle s e) fs) d = Inr d'
    \<and> undoable_all g plain (map (ToggleInlineStyle s e) fs) d
    \<and> abs_doc g d' = splice_at i 1 [AInline sh (pre @ map (cluster_of (style_xor fs st) lk) ts @ post)] (abs_doc g d)"
  using assms(1,3)
proof (induction fs arbitrary: d st)
  case Nil
  then show ?case by (auto simp: style_xor_def splice_same1 [unfolded One_nat_def])
next
  case (Cons f fs)
  have f: "single_bit f" using Cons.prems by simp
  have lt: "s < e" using ts se by (simp add: less_doc_position_def)
  note t = typed_range_toggle [OF Cons.prems(1) ts f se]
  from toggle_abs_apply [OF lt, of f d] t(2) obtain d1 m where
    d1: "apply_op g (ToggleInlineStyle s e f) d = Inr (d1, m)"
    "abs_doc g d1 = splice_at i 1 [AInline sh (pre @ map (cluster_of (st XOR f) lk) ts @ post)] (abs_doc g d)"
    by auto
  have i: "i < length (abs_doc g d)" by (rule get_Some_less [OF Cons.prems(1)])
  have "get (abs_doc g d1) i = Some (AInline sh (pre @ map (cluster_of (st XOR f) lk) ts @ post))"
    unfolding d1(2) by (rule get_splice1 [OF i])
  from Cons.IH [OF this] Cons.prems(2) obtain d' where
    d': "apply_ops g (map (ToggleInlineStyle s e) fs) d1 = Inr d'"
      "undoable_all g plain (map (ToggleInlineStyle s e) fs) d1"
      "abs_doc g d' = splice_at i 1 [AInline sh (pre @ map (cluster_of (style_xor fs (st XOR f)) lk) ts @ post)]
        (abs_doc g d1)" by auto
  have "style_xor fs (st XOR f) = style_xor (f # fs) st" by (simp add: style_xor_def)
  with d1 d' i t(1) lt single_bit_nonzero [OF f] show ?case by (simp add: splice_splice)
qed

end

section \<open>Typing at a caret\<close>

lemma xor_back: "a XOR (b XOR a) = b" for a b :: inline_style
  by (rule bit_eqI) (auto simp: bit_xor_iff)

definition declared_runs :: "styled_run list \<Rightarrow> bool" where
  "declared_runs runs = list_all (\<lambda>r. declared_style (run_style r)) runs"

text \<open>The style typed text should get: the pending style, or the one at the caret.\<close>

definition wanted_style :: "segmenter \<Rightarrow> document \<Rightarrow> doc_position \<Rightarrow> inline_style \<Rightarrow> inline_style" where
  "wanted_style g d p pending = (if pending = 0 then resolve_style_at g d p else pending)"

lemma declared_0 [simp]: "declared_style 0"
  by (simp add: declared_style_def)

lemma declared_last: "declared_runs runs \<Longrightarrow> declared_style (last_style runs)"
  by (simp add: last_style_def declared_runs_def list_all_iff)

lemma declared_scan: "declared_runs runs \<Longrightarrow> run_style_scan g off pos runs = Some s \<Longrightarrow> declared_style s"
  by (induction runs arbitrary: pos) (auto simp: declared_runs_def split: if_splits)

lemma declared_inherited: "declared_runs runs \<Longrightarrow> declared_style (inherited_style g runs off)"
  by (auto simp: inherited_style_def declared_last declared_scan split: option.splits)

lemma resolve_offset_from_less:
  "resolve_offset_from g i n runs = Some (k, m) \<Longrightarrow> i \<le> k \<and> k < i + length runs"
  by (induction runs arbitrary: i n) (fastforce simp: Let_def split: if_splits)+

lemma declared_resolve_style:
  assumes "doc_block d (block_index p) = Some b" "block_runs b = Some runs" "declared_runs runs"
  shows "declared_style (resolve_style_at g d p)"
proof -
  have "declared_style (run_style (runs ! k))" if "k < length runs" for k
    using assms(3) that by (simp add: declared_runs_def list_all_length)
  with assms show ?thesis
    by (auto simp: resolve_style_at_def resolve_offset_def declared_last Let_def
        dest!: resolve_offset_from_less split: option.splits)
qed

lemma run_style_at_inherited:
  "doc_block d (block_index p) = Some b \<Longrightarrow> block_runs b = Some runs \<Longrightarrow> runs \<noteq> [] \<Longrightarrow>
    run_style_at g d p = inherited_style g runs (offset p)"
  by (simp add: run_style_at_def inherited_style_def)

context plain_segmentation
begin

lemma typing_at_caret:
  assumes sel: "is_collapsed sel" "focus sel = DocPosition i off"
    and b: "doc_block d i = Some b" "block_runs b = Some runs" "runs \<noteq> []"
    and off: "off \<le> length (runs_content g runs)"
    and t: "t \<noteq> []" "plain t" "plain_runs plain runs"
    and decl: "declared_runs runs" "declared_style pending"
  shows "\<exists>ops d' lk. resolve g d sel (AInsertText t) pending = Inr ops
    \<and> apply_ops g ops d = Inr d' \<and> undoable_all g plain ops d
    \<and> abs_doc g d' = splice_at i 1
        [AInline (shape_of b) (take off (runs_content g runs) @
           map (cluster_of (wanted_style g d (focus sel) pending) lk) (g t) @
           drop off (runs_content g runs))] (abs_doc g d)"
proof -
  let ?p = "DocPosition i off" and ?c = "runs_content g runs" and ?inh = "inherited_style g runs off"
  let ?e = "DocPosition i (off + text_len g t)"
  let ?want = "wanted_style g d ?p pending"
  let ?diff = "?want XOR ?inh"
  have b': "doc_block d (block_index ?p) = Some b" using b by simp
  have "declared_style ?want"
    using declared_resolve_style [OF b' b(2) decl(1)] decl(2) by (simp add: wanted_style_def)
  then have dd: "declared_style ?diff" using declared_inherited [OF decl(1)] by (rule declared_xor)
  let ?toggles = "map (ToggleInlineStyle ?p ?e) (style_iter ?diff)"
  have ops: "resolve g d sel (AInsertText t) pending = Inr (InsertText ?p t # ?toggles)"
    using sel run_style_at_inherited [OF b' b(2,3), of g]
    by (simp add: resolve_insert_def Let_def wanted_style_def) (simp add: style_iter_def style_contains_def
        BOLD_def ITALIC_def UNDERLINE_def STRIKETHROUGH_def)
  have bm: "doc_block d i = Some (mk_inline (shape_of b) runs)" using b block_runs_SomeD [OF b(2)] by simp
  from insert_text_abs [OF bm b(3) t(2,3), of off] obtain d1 m lk where
    d1: "apply_op g (InsertText ?p t) d = Inr (d1, m)"
    "abs_doc g d1 = splice_at i 1 [AInline (shape_of b) (take off ?c @ map (cluster_of ?inh lk) (g t) @ drop off ?c)]
      (abs_doc g d)" by blast
  have i: "i < length (abs_doc g d)" using doc_block_less [OF bm] by (simp add: block_count_def)
  have gd1: "get (abs_doc g d1) i =
      Some (AInline (shape_of b) (take off ?c @ map (cluster_of ?inh lk) (g t) @ drop off ?c))"
    unfolding d1(2) by (rule get_splice1 [OF i])
  have gt: "g t \<noteq> []" using t(1) by simp
  have fs: "\<forall>f \<in> set (style_iter ?diff). single_bit f" using style_iter_single [OF dd] by blast
  have se: "?p = DocPosition i (length (take off ?c))"
    "?e = DocPosition i (length (take off ?c) + length (g t))"
    using off by (simp_all add: text_len_def)
  from typed_toggles [OF gd1 gt fs se] obtain d' where d': "apply_ops g ?toggles d1 = Inr d'" "undoable_all g plain ?toggles d1"
    "abs_doc g d' = splice_at i 1 [AInline (shape_of b) (take off ?c @
       map (cluster_of (style_xor (style_iter ?diff) ?inh) lk) (g t) @ drop off ?c)] (abs_doc g d1)"
    by blast
  have "style_xor (style_iter ?diff) ?inh = ?inh XOR ?diff" by (rule style_iter_xor [OF dd])
  also have "\<dots> = ?want" by (rule xor_back)
  finally have st: "style_xor (style_iter ?diff) ?inh = ?want" .
  have "undoable g plain (InsertText ?p t) d" using b off t by simp
  moreover have "abs_doc g d' = splice_at i 1 [AInline (shape_of b) (take off ?c @
      map (cluster_of ?want lk) (g t) @ drop off ?c)] (abs_doc g d)"
    using d1(2) d'(3) i unfolding st by (simp add: splice_splice)
  ultimately show ?thesis
    unfolding sel(2) using ops d1(1) d'(1,2)
    by (intro exI [of _ "InsertText ?p t # ?toggles"] exI [of _ d'] exI [of _ lk]) simp
qed

end

end
