(* ===== verification/RteHistory.thy ===== *)
theory RteHistory
  imports RteTyping
begin

text \<open>
  Undo and redo at the level of the editor: which actions resolve to operations their inverses take
  back, the effect of one undo and redo, and an editing session of any length.
\<close>

section \<open>Actions that can be taken back\<close>

definition valid_selection :: "segmenter \<Rightarrow> document \<Rightarrow> doc_selection \<Rightarrow> bool" where
  "valid_selection g d sel \<longleftrightarrow>
     is_valid_position g d (anchor sel) \<and> is_valid_position g d (focus sel)"

text \<open>The deletion of the selection is taken back by its inverse, or is nothing.\<close>

definition reversible_selection :: "segmenter \<Rightarrow> document \<Rightarrow> doc_selection \<Rightarrow> bool" where
  "reversible_selection g d sel \<longleftrightarrow>
     (let s = post_delete_position d sel; e = sel_end sel
      in s \<ge> e \<or> undoable_delete g d s e)"

text \<open>
  An action is reversible at a document and selection: deleting at a caret always is; typing and
  Enter need a caret in an inline block (Enter also works on an image), and Enter must not end an
  indented list item; the other conditions are those of \<open>undoable\<close>.
\<close>

fun reversible ::
  "segmenter \<Rightarrow> (string \<Rightarrow> bool) \<Rightarrow> document \<Rightarrow> doc_selection \<Rightarrow> inline_style \<Rightarrow> edit_action \<Rightarrow> bool" where
  "reversible g plain d sel pending (AInsertText t) =
     (is_collapsed sel \<and> t \<noteq> [] \<and> plain t \<and> declared_style pending \<and>
      (case Option.bind (doc_block d (block_index (focus sel))) block_runs of
         None \<Rightarrow> False
       | Some runs \<Rightarrow> runs \<noteq> [] \<and> declared_runs runs))"
| "reversible g plain d sel pending ADeleteBackward = (is_collapsed sel \<or> reversible_selection g d sel)"
| "reversible g plain d sel pending ADeleteForward = (is_collapsed sel \<or> reversible_selection g d sel)"
| "reversible g plain d sel pending ADeleteSelection = (is_collapsed sel \<or> reversible_selection g d sel)"
| "reversible g plain d sel pending ASplitBlock =
     (is_collapsed sel \<and>
      (case doc_block d (block_index (focus sel)) of
         None \<Rightarrow> False
       | Some b \<Rightarrow>
           is_image b \<or>
           (is_inline_block b \<and> (is_blank_list_item b \<longrightarrow> kind_shape (kind b) = shape_of b))))"
| "reversible g plain d sel pending (AToggleInlineStyle f) =
     list_all (\<lambda>op. undoable g plain op d) (resolve_toggle_style g d sel f)"
| "reversible g plain d sel pending (ASetBlockType k) =
     (case doc_block d (block_index (focus sel)) of
        None \<Rightarrow> False
      | Some b \<Rightarrow> is_inline_block b \<and> kind_shape (kind b) = shape_of b)"

lemma valid_position_block:
  assumes "is_valid_position g d p"
  obtains b where "doc_block d (block_index p) = Some b" "offset p \<le> block_char_len g b"
  using assms by (auto simp: is_valid_position_def split: option.splits)

context plain_segmentation
begin

lemma delete_total:
  assumes "s < e" "undoable_delete g d s e"
  shows "\<exists>d' m. apply_op g (DeleteRange s e del) d = Inr (d', m)"
proof -
  obtain i so j eo where se: "s = DocPosition i so" "e = DocPosition j eo" by (cases s, cases e)
  from assms(2) se obtain b where b: "doc_block d i = Some b"
    by (auto simp: undoable_delete_def split: option.splits)
  show ?thesis
  proof (cases "is_inline_block b")
    case False
    with assms se b have "i = j" "so < eo" "block_runs b = None" "s \<le> e" "s \<noteq> e"
      by (auto simp: undoable_delete_def less_doc_position_def less_eq_doc_position_def is_atomic_block_def)
    with se b doc_block_less [OF b] show ?thesis
      by (auto simp: apply_delete_range_def apply_single_block_delete_def Let_def vec_remove_def
          simp del: block_runs_None_iff)
  next
    case True
    then obtain c where A: "get (abs_doc g d) i = Some (AInline (shape_of b) c)"
      using b by (auto simp: get_abs_doc is_inline_block_iff dest: abs_block_inline)
    show ?thesis
    proof (cases "i = j")
      case True
      with assms(1) se have "so \<le> eo" "so < eo" by (auto simp: less_doc_position_def)
      with delete_within_abs [OF A, of so eo del] se True show ?thesis by auto
    next
      case False
      with assms True b se have ij: "i < j" "j < length (abs_doc g d)"
        by (auto simp: undoable_delete_def less_doc_position_def)
      then obtain a where "get (abs_doc g d) j = Some a" by (simp add: get_def)
      from cross_delete_abs [OF A this ij(1), of so eo del] se show ?thesis by auto
    qed
  qed
qed

lemma inline_abs:
  "doc_block d i = Some b \<Longrightarrow> is_inline_block b \<Longrightarrow> \<exists>c. get (abs_doc g d) i = Some (AInline (shape_of b) c)"
  by (auto simp: get_abs_doc is_inline_block_iff dest: abs_block_inline)

lemma undoable_total:
  assumes "undoable g plain op d"
  shows "\<exists>d' m. apply_op g op d = Inr (d', m)"
proof (cases op)
  case (InsertText p t)
  with assms obtain b runs where "doc_block d (block_index p) = Some b" "block_runs b = Some runs"
    by (auto simp: bind_eq_Some_conv split: option.splits)
  with InsertText show ?thesis by (simp add: apply_insert_text_def)
next
  case (DeleteRange s e del)
  with assms delete_total show ?thesis by simp
next
  case (SplitBlock p)
  with assms obtain b where "doc_block d (block_index p) = Some b" "is_inline_block b"
    by (auto split: option.splits)
  from inline_abs [OF this] split_abs [of d "block_index p" _ _ "offset p"] SplitBlock show ?thesis
    by (cases p) fastforce
next
  case (MergeBlocks bi sv mo)
  with assms obtain i b where "bi = Suc i" "doc_block d i = Some b" "is_inline_block b"
    "doc_block d (Suc i) = Some sv" "is_inline_block sv"
    by (cases bi) (auto split: option.splits)
  with inline_abs merge_abs MergeBlocks show ?thesis by metis
next
  case (ToggleInlineStyle s e f)
  with assms toggle_abs_apply show ?thesis by fastforce
next
  case (SetBlockType bi old new)
  with assms show ?thesis by (auto simp: apply_set_block_type_def split: option.splits)
next
  case (SetBlockAttrs bi old new)
  with assms show ?thesis by (auto simp: apply_set_block_attrs_def split: option.splits)
next
  case (InsertBlock i b)
  with assms show ?thesis
    by (auto simp: apply_insert_block_def insert_block_def vec_insert_def block_count_def)
next
  case (RemoveBlock i b)
  with assms doc_block_less [of d i b] show ?thesis
    by (auto simp: apply_remove_block_def remove_block_def vec_remove_def block_count_def)
next
  case (ReplaceBlock i b b')
  with assms show ?thesis by (auto simp: apply_replace_block_def replace_block_def doc_block_def)
qed (use assms in simp)

lemma undoable_single: "undoable g plain op d \<Longrightarrow> undoable_all g plain [op] d"
  using undoable_total [of op d] by auto

lemma undoable_each: "list_all (\<lambda>op. undoable g plain op d) ops \<Longrightarrow> length ops \<le> 1 \<Longrightarrow> undoable_all g plain ops d"
  by (cases ops) (auto dest: undoable_single)

section \<open>What the rules resolve to\<close>

lemma build_delete_selection_undoable:
  "reversible_selection g d sel \<Longrightarrow> undoable_all g plain (build_delete_selection g d sel) d"
  unfolding build_delete_selection_def reversible_selection_def Let_def
  by (auto simp: not_le intro!: undoable_single simp del: undoable_all.simps(2))

lemma merge_backward_undoable: "undoable_all g plain (resolve_merge_backward g d bi) d"
  by (auto simp: resolve_merge_backward_def split: option.splits intro!: undoable_single
      simp del: undoable_all.simps(2))

lemma merge_forward_undoable: "undoable_all g plain (resolve_merge_forward g d bi) d"
  by (auto simp: resolve_merge_forward_def split: option.splits intro!: undoable_single
      simp del: undoable_all.simps(2))

lemma remove_or_clear_undoable:
  "doc_block d bi = Some b \<Longrightarrow> undoable_all g plain [remove_or_clear_block d bi] d"
  by (intro undoable_single) (auto simp: remove_or_clear_block_def Let_def)

lemma char_delete_undoable:
  assumes "doc_block d i = Some b" "block_runs b = Some runs" "so < eo"
    "del = \<lparr>del_blocks = [block_with_runs_like b (extract_deleted_runs g runs so eo)], end_tail = None\<rparr>"
  shows "undoable_all g plain [DeleteRange (DocPosition i so) (DocPosition i eo) del] d"
proof -
  have "is_inline_block b" using assms(2) by (auto simp: is_inline_block_iff)
  with assms show ?thesis
    by (intro undoable_single)
      (simp add: build_deleted_within(1) block_with_runs_like_eq undoable_delete_def less_doc_position_def)
qed

lemma delete_backward_undoable:
  assumes "valid_selection g d sel" "is_collapsed sel"
  shows "undoable_all g plain (resolve_delete_backward g d sel) d"
proof -
  obtain i off where p: "focus sel = DocPosition i off" by (cases "focus sel")
  from assms(1) p obtain b where b: "doc_block d i = Some b" "off \<le> block_char_len g b"
    by (auto simp: valid_selection_def elim!: valid_position_block)
  have i: "i < block_count d" using doc_block_less [OF b(1)] by (simp add: block_count_def)
  consider "i = 0" "off = 0" | "i > 0" "off = 0" | "off > 0" "is_atomic_block b"
    | "off > 0" "\<not> is_atomic_block b" by linarith
  then show ?thesis
  proof cases
    case 1
    with assms(2) p show ?thesis by (simp add: resolve_delete_backward_def)
  next
    case 2
    then have "doc_block d (i - 1) \<noteq> None" using i by (simp add: doc_block_def get_None_iff block_count_def)
    then obtain prev where prev: "doc_block d (i - 1) = Some prev" by blast
    then have "undoable_all g plain [RemoveBlock (i - 1) prev] d"
      using 2 i by (intro undoable_single) simp
    with 2 assms(2) p prev merge_backward_undoable show ?thesis
      by (simp add: resolve_delete_backward_def Let_def del: undoable_all.simps)
  next
    case 3
    with assms(2) p b remove_or_clear_undoable [OF b(1)] show ?thesis
      by (simp add: resolve_delete_backward_def block_is_atomic_at_def del: undoable_all.simps)
  next
    case 4
    then obtain runs where r: "block_runs b = Some runs"
      by (cases "block_runs b") simp_all
    from char_delete_undoable [OF b(1) r, of "off - 1" off] 4 assms(2) p b r show ?thesis
      by (simp add: resolve_delete_backward_def block_is_atomic_at_def resolve_delete_char_backward_def
          Let_def del: undoable_all.simps(2))
  qed
qed

lemma delete_forward_undoable:
  assumes "valid_selection g d sel" "is_collapsed sel"
  shows "undoable_all g plain (resolve_delete_forward g d sel) d"
proof -
  obtain i off where p: "focus sel = DocPosition i off" by (cases "focus sel")
  from assms(1) p obtain b where b: "doc_block d i = Some b" "off \<le> block_char_len g b"
    by (auto simp: valid_selection_def elim!: valid_position_block)
  have i: "i < block_count d" using doc_block_less [OF b(1)] by (simp add: block_count_def)
  consider "off = block_char_len g b" "i \<ge> block_count d - 1" | "off = block_char_len g b" "i < block_count d - 1"
    | "off < block_char_len g b" "is_atomic_block b" | "off < block_char_len g b" "\<not> is_atomic_block b"
    using b(2) by linarith
  then show ?thesis
  proof cases
    case 1
    with assms(2) p b show ?thesis by (simp add: resolve_delete_forward_def)
  next
    case 2
    then have "doc_block d (Suc i) \<noteq> None" using i by (simp add: doc_block_def get_None_iff block_count_def)
    then obtain nxt where nxt: "doc_block d (Suc i) = Some nxt" by blast
    then have "undoable_all g plain [RemoveBlock (Suc i) nxt] d"
      using 2 i by (intro undoable_single) simp
    with 2 assms(2) p b nxt merge_forward_undoable show ?thesis
      by (simp add: resolve_delete_forward_def Let_def del: undoable_all.simps)
  next
    case 3
    then have "off = 0" by (simp add: block_char_len_atomic)
    with 3 assms(2) p b remove_or_clear_undoable [OF b(1)] show ?thesis
      by (simp add: resolve_delete_forward_def Let_def block_is_atomic_at_def del: undoable_all.simps)
  next
    case 4
    then obtain runs where r: "block_runs b = Some runs"
      by (cases "block_runs b") simp_all
    then have "resolve_delete_forward g d sel = [DeleteRange (DocPosition i off) (DocPosition i (off + 1))
        \<lparr>del_blocks = [block_with_runs_like b (extract_deleted_runs g runs off (off + 1))], end_tail = None\<rparr>]"
      using 4 assms(2) p b
      by (simp add: resolve_delete_forward_def block_is_atomic_at_def resolve_delete_char_forward_def Let_def)
    with char_delete_undoable [OF b(1) r, of off "off + 1"] show ?thesis
      by (simp del: undoable_all.simps)
  qed
qed

text \<open>Enter at the end of a heading: the new block is a heading until its type is reset.\<close>

lemma split_heading_undoable:
  assumes "doc_block d i = Some (Heading l runs)"
  shows "undoable_all g plain [SplitBlock (DocPosition i off), SetBlockType (i + 1) (KHeading l) KParagraph] d"
proof -
  obtain left right where lr: "split_runs_at_offset g runs off = (left, right)" by fastforce
  have i: "i < length (blocks d)" by (rule doc_block_less [OF assms])
  let ?bs = "insert_at (Suc i) (Heading l right) ((blocks d)[i := Heading l left])"
  obtain m where d1: "apply_op g (SplitBlock (DocPosition i off)) d = Inr (d\<lparr>blocks := ?bs\<rparr>, m)"
    using assms lr i by (simp add: apply_split_block_def vec_insert_def)
  have "doc_block (d\<lparr>blocks := ?bs\<rparr>) (i + 1) = Some (Heading l right)"
    using i get_insert_at_eq [of "Suc i" "(blocks d)[i := Heading l left]" "Heading l right"]
    by (simp add: doc_block_def)
  then have "undoable_all g plain [SetBlockType (i + 1) (KHeading l) KParagraph] (d\<lparr>blocks := ?bs\<rparr>)"
    by (intro undoable_single) simp
  with d1 assms show ?thesis by (simp del: apply_op.simps)
qed

lemma split_undoable:
  assumes r: "reversible g plain d sel pending ASplitBlock"
  shows "undoable_all g plain (resolve_split_block g d sel) d"
proof -
  obtain i off where p: "focus sel = DocPosition i off" by (cases "focus sel")
  from r p obtain b where c: "is_collapsed sel" and b: "doc_block d i = Some b"
    and br: "is_image b \<or> (is_inline_block b \<and> (is_blank_list_item b \<longrightarrow> kind_shape (kind b) = shape_of b))"
    by (auto split: option.splits)
  have i: "i < block_count d" using doc_block_less [OF b] by (simp add: block_count_def)
  consider "is_image b" | "\<not> is_image b" "is_blank_list_item b" | (plain) "\<not> is_image b" "\<not> is_blank_list_item b" by blast
  then show ?thesis
  proof cases
    case 1
    have "undoable_all g plain [InsertBlock (Suc i) empty_paragraph] d" using i by (intro undoable_single) simp
    with 1 c p b show ?thesis by (simp add: resolve_split_block_def del: undoable_all.simps)
  next
    case 2
    with br b have "undoable_all g plain [SetBlockType i (kind b) KParagraph] d" by (intro undoable_single) simp
    with 2 c p b show ?thesis by (simp add: resolve_split_block_def del: undoable_all.simps)
  next
    case plain
    with br have "is_inline_block b" by simp
    then have split: "undoable_all g plain [SplitBlock (DocPosition i off)] d" using b by (intro undoable_single) simp
    show ?thesis
    proof (cases b)
      case (Heading l runs)
      with plain c p b split split_heading_undoable [of d i l runs off] show ?thesis
        by (simp add: resolve_split_block_def del: undoable_all.simps)
    qed (use plain c p b split br in \<open>simp_all add: resolve_split_block_def del: undoable_all.simps\<close>)
  qed
qed

lemma resolve_undoable:
  assumes "valid_selection g d sel" "plain_doc plain d" "reversible g plain d sel pending act"
  shows "\<exists>ops. resolve g d sel act pending = Inr ops \<and> undoable_all g plain ops d"
proof (cases act)
  case (AInsertText t)
  obtain i off where p: "focus sel = DocPosition i off" by (cases "focus sel")
  from assms(3) AInsertText p obtain b runs where r: "is_collapsed sel" "t \<noteq> []" "plain t" "declared_style pending"
    "runs \<noteq> []" "declared_runs runs" and b: "doc_block d i = Some b" "block_runs b = Some runs"
    by (auto simp: bind_eq_Some_conv split: option.splits)
  have off: "off \<le> length (runs_content g runs)"
    using assms(1) p b by (auto simp: valid_selection_def is_valid_position_def block_char_len_runs)
  have pr: "plain_runs plain runs" using plain_block_runs [OF plain_doc_block [OF assms(2) b(1)] b(2)] .
  from typing_at_caret [OF r(1) p b r(5) off r(2,3) pr r(6,4)] AInsertText show ?thesis by blast
next
  case ADeleteBackward
  with assms delete_backward_undoable [OF assms(1)] build_delete_selection_undoable [of d sel] show ?thesis
    by (cases "is_collapsed sel") (simp_all add: resolve_delete_backward_def del: undoable_all.simps)
next
  case ADeleteForward
  with assms delete_forward_undoable [OF assms(1)] build_delete_selection_undoable [of d sel] show ?thesis
    by (cases "is_collapsed sel") (simp_all add: resolve_delete_forward_def del: undoable_all.simps)
next
  case ADeleteSelection
  with assms build_delete_selection_undoable [of d sel] show ?thesis
    by (cases "is_collapsed sel") (simp_all add: resolve_delete_selection_def del: undoable_all.simps(2))
next
  case ASplitBlock
  with assms split_undoable show ?thesis by (simp del: undoable_all.simps)
next
  case (AToggleInlineStyle f)
  have "length (resolve_toggle_style g d sel f) \<le> 1"
    by (simp add: resolve_toggle_style_def Let_def split: option.splits prod.splits)
  with AToggleInlineStyle assms undoable_each show ?thesis by simp
next
  case (ASetBlockType k)
  with assms(3) obtain b where b: "doc_block d (block_index (focus sel)) = Some b" "is_inline_block b"
    "kind_shape (kind b) = shape_of b" by (auto split: option.splits)
  have "list_all (\<lambda>op. undoable g plain op d) (resolve_set_block_type d sel k)"
    using b by (cases k) (auto simp: resolve_set_block_type_def Let_def)
  moreover have "length (resolve_set_block_type d sel k) \<le> 1"
    using b by (simp add: resolve_set_block_type_def Let_def)
  ultimately show ?thesis using ASetBlockType undoable_each by simp
qed

end

section \<open>A document never becomes empty\<close>

lemma length_vec_insert_all: "vec_insert_all i ys xs = Inr zs \<Longrightarrow> length zs = length xs + length ys"
proof (induction ys arbitrary: i xs)
  case (Cons y ys)
  then have "i \<le> length xs" "vec_insert_all (Suc i) ys (insert_at i y xs) = Inr zs" by simp_all
  with Cons.IH show ?case by simp
qed simp

lemma vec_remove_n_keeps: "vec_remove_n n i xs = Inr ys \<Longrightarrow> i \<le> length xs \<Longrightarrow> i \<le> length ys"
proof (induction n arbitrary: xs)
  case (Suc n)
  then have "i < length xs" "vec_remove_n n i (remove_at i xs) = Inr ys" by simp_all
  with Suc.IH show ?case by simp
qed simp

lemma toggle_block_length: "toggle_block g s e f rm bi d = Inr d' \<Longrightarrow> length (blocks d') = length (blocks d)"
  by (auto simp: toggle_block_def split_beta split: option.splits if_splits)

lemma toggle_blocks_length: "toggle_blocks g s e f rm bis d = Inr d' \<Longrightarrow> length (blocks d') = length (blocks d)"
  by (induction bis arbitrary: d) (auto dest: toggle_block_length)

lemma restore_atomic_nonempty:
  assumes "apply_restore_deleted_from_atomic_start d p del = Inr (d', m)"
  shows "blocks d' \<noteq> []"
  using assms unfolding apply_restore_deleted_from_atomic_start_def Let_def res_bind_eq_Inr
  by (auto dest!: length_vec_insert_all simp del: vec_insert_all.simps)

lemma restore_deleted_nonempty:
  assumes "apply_restore_deleted g d p del = Inr (d', m)" "blocks d \<noteq> []"
  shows "blocks d' \<noteq> []"
proof -
  consider "length (del_blocks del) = 1" | "length (del_blocks del) \<noteq> 1" "\<not> is_inline_block (hd (del_blocks del))"
    | "length (del_blocks del) \<noteq> 1" "is_inline_block (hd (del_blocks del))" by blast
  then show ?thesis
  proof cases
    case 1
    with assms show ?thesis
      by (auto simp: apply_restore_deleted_def Let_def insert_at_def split: if_splits option.splits
          simp del: block_runs_None_iff)
  next
    case 2
    with assms restore_atomic_nonempty show ?thesis by (simp add: apply_restore_deleted_def)
  next
    case 3
    with assms(1) show ?thesis
      by (auto simp: apply_restore_deleted_def Let_def dest!: length_vec_insert_all
          simp del: vec_insert_all.simps)
  qed
qed

lemma single_delete_nonempty:
  assumes "apply_single_block_delete g d s e = Inr (d', m)" "blocks d \<noteq> []"
  shows "blocks d' \<noteq> []"
proof -
  have "remove_at i (blocks d) \<noteq> []" if "i < length (blocks d)" "block_count d \<noteq> Suc 0" for i
  proof -
    have "0 < length (remove_at i (blocks d))" using that by (simp add: block_count_def)
    then show ?thesis by force
  qed
  with assms show ?thesis
    by (auto simp: apply_single_block_delete_def Let_def split: option.splits if_splits
        simp del: block_runs_None_iff)
qed

lemma cross_delete_nonempty:
  assumes "apply_cross_block_delete g d s e = Inr (d', m)"
  shows "blocks d' \<noteq> []"
proof -
  from assms obtain eb sb where eb: "doc_block d (block_index e) = Some eb"
    and sb: "doc_block d (block_index s) = Some sb"
    by (auto simp: apply_cross_block_delete_def)
  have "Suc (block_index s) \<le> length ((blocks d)[block_index s := b])" for b
    using sb by (simp add: doc_block_def get_Some_iff)
  note keeps = this
  show ?thesis
  proof (cases "build_cross_delete_replacement g sb (offset s) eb (offset e)")
    case None
    with assms sb eb obtain bs where "blocks d' = (if bs = [] then [empty_paragraph] else bs)"
      by (auto simp: apply_cross_block_delete_def Let_def simp del: vec_remove_n.simps)
    then show ?thesis by simp
  next
    case (Some nb)
    with assms sb eb keeps [of nb] show ?thesis
      by (auto simp: apply_cross_block_delete_def Let_def simp del: vec_remove_n.simps
          dest: vec_remove_n_keeps)
  qed
qed

lemma apply_op_nonempty:
  assumes "apply_op g op d = Inr (d', m)" "blocks d \<noteq> []"
  shows "blocks d' \<noteq> []"
proof (cases op)
  case InsertText
  with assms show ?thesis
    by (auto simp: apply_insert_text_def split: option.splits simp del: block_runs_None_iff)
next
  case DeleteRange
  with assms restore_deleted_nonempty single_delete_nonempty cross_delete_nonempty show ?thesis
    by (auto simp: apply_delete_range_def split: if_splits)
next
  case SplitBlock
  with assms show ?thesis by (auto simp: apply_split_block_def Let_def split_beta insert_at_def)
next
  case (MergeBlocks bi sv mo)
  with assms show ?thesis by (auto simp: apply_merge_blocks_def remove_at_def block_count_def)
next
  case ToggleInlineStyle
  with assms show ?thesis
    by (auto simp: apply_toggle_inline_style_def Let_def dest!: toggle_blocks_length)
next
  case SetBlockType
  with assms show ?thesis by (auto simp: apply_set_block_type_def)
next
  case SetBlockAttrs
  with assms show ?thesis by (auto simp: apply_set_block_attrs_def split: option.splits)
next
  case InsertBlock
  with assms show ?thesis by (auto simp: apply_insert_block_def insert_block_def insert_at_def)
next
  case (RemoveBlock i sv)
  have "remove_at i (blocks d) \<noteq> []" if "i < length (blocks d)" "\<not> length (blocks d) \<le> Suc 0"
    using length_remove_at [OF that(1)] that(2) by force
  with RemoveBlock assms show ?thesis
    by (auto simp: apply_remove_block_def remove_block_def split: if_splits)
next
  case ReplaceBlock
  with assms show ?thesis by (auto simp: apply_replace_block_def replace_block_def split: option.splits)
next
  case RestoreMergedBlock
  with assms show ?thesis by (auto simp: apply_restore_merged_block_def Let_def insert_at_def)
qed

lemma apply_ops_nonempty: "apply_ops g ops d = Inr d' \<Longrightarrow> blocks d \<noteq> [] \<Longrightarrow> blocks d' \<noteq> []"
  by (induction ops arbitrary: d) (auto dest: apply_op_nonempty)

lemma undo_ops_nonempty: "undo_ops g ops d = Inr d' \<Longrightarrow> blocks d \<noteq> [] \<Longrightarrow> blocks d' \<noteq> []"
  by (induction ops arbitrary: d) (auto dest: apply_op_nonempty)

section \<open>Plain operations\<close>

lemma plain_map_filter:
  "plain_doc plain d \<Longrightarrow> list_all (plain_block plain) (List.map_filter (doc_block d) is)"
  by (auto simp: List.map_filter_def list_all_iff dest: plain_doc_block)

context plain_segmentation
begin

lemma plain_deleted_content:
  assumes d: "plain_doc plain d"
  shows "plain_op plain (DeleteRange s e (build_deleted_content g d s e))"
proof -
  have b: "plain_block plain x" "block_runs x = Some runs \<Longrightarrow> plain_runs plain runs"
    if "doc_block d i = Some x" for i x runs
    using plain_doc_block [OF d that] plain_block_runs by blast+
  then show ?thesis
    using plain_map_filter [OF d]
    by (auto simp: build_deleted_content_def Let_def split_beta split: option.splits
        simp del: block_runs_None_iff)
qed

lemma plain_build_delete:
  "plain_doc plain d \<Longrightarrow> list_all (plain_op plain) (build_delete_selection g d sel)"
  using plain_deleted_content by (simp add: build_delete_selection_def Let_def del: plain_op.simps)

lemma plain_remove_or_clear: "plain_doc plain d \<Longrightarrow> plain_op plain (remove_or_clear_block d bi)"
  by (auto simp: remove_or_clear_block_def Let_def dest: plain_doc_block split: option.splits)

lemma plain_merges:
  assumes "plain_doc plain d"
  shows "list_all (plain_op plain) (resolve_merge_backward g d bi)"
    and "list_all (plain_op plain) (resolve_merge_forward g d bi)"
  using plain_doc_block [OF assms]
  by (auto simp: resolve_merge_backward_def resolve_merge_forward_def split: option.splits)

lemma plain_char_deletes:
  assumes "plain_doc plain d"
  shows "list_all (plain_op plain) (resolve_delete_char_backward g d p)"
    and "list_all (plain_op plain) (resolve_delete_char_forward g d p)"
  using plain_block_runs [OF plain_doc_block [OF assms]]
  by (auto simp: resolve_delete_char_backward_def resolve_delete_char_forward_def Let_def
      split: option.splits simp del: block_runs_None_iff)

lemma plain_deletes:
  assumes "plain_doc plain d"
  shows "list_all (plain_op plain) (resolve_delete_backward g d sel)"
    and "list_all (plain_op plain) (resolve_delete_forward g d sel)"
  using plain_build_delete [OF assms] plain_remove_or_clear [OF assms] plain_merges [OF assms]
    plain_char_deletes [OF assms] plain_doc_block [OF assms]
  by (auto simp: resolve_delete_backward_def resolve_delete_forward_def Let_def split: option.splits)

lemma plain_resolve_split: "plain_doc plain d \<Longrightarrow> list_all (plain_op plain) (resolve_split_block g d sel)"
  using plain_build_delete [of d sel]
  by (auto simp: resolve_split_block_def empty_paragraph_def split: option.splits block.splits)

lemma resolve_plain:
  assumes "plain_doc plain d" "plain_action plain act" "resolve g d sel act pending = Inr ops"
  shows "list_all (plain_op plain) ops"
proof (cases act)
  case (AInsertText t)
  have "list_all (plain_op plain) (map (ToggleInlineStyle p e) fs)" for p e fs by (simp add: list_all_iff)
  with AInsertText assms plain_build_delete [OF assms(1)] show ?thesis
    by (auto simp: resolve_insert_def Let_def split: if_splits)
next
  case (AToggleInlineStyle f)
  with assms show ?thesis
    by (auto simp: resolve_toggle_style_def Let_def split: option.splits if_splits prod.splits)
next
  case (ASetBlockType k)
  with assms show ?thesis by (auto simp: resolve_set_block_type_def Let_def split: option.splits)
qed (use assms plain_deletes plain_resolve_split plain_build_delete in
      \<open>auto simp: resolve_delete_selection_def split: if_splits\<close>)

end

section \<open>One undo, one redo\<close>

lemma apply_tracked_ops:
  "apply_ops g ops d = Inr d' \<Longrightarrow> \<exists>sel' dirty. apply_tracked g ops d sel = Inr (d', sel', dirty)"
proof (induction ops arbitrary: d sel)
  case (Cons op ops)
  then obtain d1 m where d1: "apply_op g op d = Inr (d1, m)" "apply_ops g ops d1 = Inr d'" by auto
  from Cons.IH [OF d1(2)] d1(1) show ?case by fastforce
qed simp

lemma clamp_valid: "is_valid_position g d p \<Longrightarrow> clamp_position g d p = p"
  by (cases p) (auto simp: is_valid_position_def clamp_position_def Let_def doc_block_def get_def min_def
      split: option.splits if_splits)

lemma clamp_valid_selection: "valid_selection g d sel \<Longrightarrow> clamp_selection g d sel = sel"
  by (simp add: valid_selection_def clamp_selection_def clamp_valid)

lemma clamp_is_valid: "blocks d \<noteq> [] \<Longrightarrow> is_valid_position g d (clamp_position g d p)"
  by (auto simp: is_valid_position_def clamp_position_def Let_def doc_block_def get_def min_def neq_Nil_conv)

lemma clamp_selection_valid: "blocks d \<noteq> [] \<Longrightarrow> valid_selection g d (clamp_selection g d sel)"
  by (simp add: valid_selection_def clamp_selection_def clamp_is_valid)

text \<open>What an edit does to the editor when its operations succeed.\<close>

lemma apply_action_ops:
  assumes "resolve g (ed_document ed) (ed_selection ed) act (pending_style ed) = Inr ops" "ops \<noteq> []"
    and "apply_ops g ops (ed_document ed) = Inr d1"
  obtains ed1 dirty where "apply_action g act ed = Inr ed1"
    "ed_document ed1 = normalize_blocks d1 dirty"
    "ed_undo_stack ed1 = push g (ed_undo_stack ed) ops (ed_selection ed) (ed_selection ed1)"
    "valid_selection g (ed_document ed1) (ed_selection ed1) \<or> blocks (ed_document ed1) = []"
proof -
  from apply_tracked_ops [OF assms(3), of "ed_selection ed"] obtain sel' dirty where
    t: "apply_tracked g ops (ed_document ed) (ed_selection ed) = Inr (d1, sel', dirty)" by blast
  show thesis
    by (rule that [of _ "sort_dedup dirty"])
      (use assms t in \<open>auto simp: apply_action_def Let_def clamp_selection_valid\<close>)
qed

end
