(* ===== verification/RteSession.thy ===== *)
theory RteSession
  imports RteHistory
begin

text \<open>
  The editor as a whole: one undo and redo after an edit, an editing session of any length and its
  complete undo, and the invariant that the selection stays inside the document.
\<close>

section \<open>Undo and redo after one edit\<close>

lemma push_new_undo:
  assumes "ops \<noteq> []" "\<not> merges g st ops b" "0 < max_entries st"
  obtains st' where "undo (push g st ops b a) = Some (\<lparr>grp_ops = ops, cursor_before = b, cursor_after = a\<rparr>, st')"
    "us_redo st' = [\<lparr>grp_ops = ops, cursor_before = b, cursor_after = a\<rparr>]"
proof -
  have ne: "us_undo (push g st ops b a) \<noteq> []" "last (us_undo (push g st ops b a)) =
      \<lparr>grp_ops = ops, cursor_before = b, cursor_after = a\<rparr>"
    using assms(3) by (auto simp: push_new [OF assms(1,2)] last_drop)
  with that push_new(2) [OF assms(1,2)] show thesis by (simp add: undo_def Let_def)
qed

lemma abs_doc_nonempty: "abs_doc g d = abs_doc g e \<Longrightarrow> blocks d \<noteq> [] \<Longrightarrow> blocks e \<noteq> []"
  by (auto simp: abs_doc_def)

context plain_segmentation
begin

lemma normalized_back:
  assumes "norm_doc d" "plain_doc plain e" "abs_doc g e = abs_doc g d"
  shows "normalize e = d"
proof -
  have "blocks d \<noteq> []" using assms(1) by (simp add: norm_doc_def)
  then have "blocks e \<noteq> []" using abs_doc_nonempty assms(3) by metis
  then have "abs_doc g (normalize e) = abs_doc g d" using normalize_abs [OF assms(2)] assms(3) by simp
  then show ?thesis by (rule norm_doc_unique [OF segmentation_axioms normalize_norm assms(1)])
qed

lemma undo_redo_after_edit:
  assumes doc: "norm_doc (ed_document ed)" "plain_doc plain (ed_document ed)"
    and sel: "valid_selection g (ed_document ed) (ed_selection ed)"
    and act: "reversible g plain (ed_document ed) (ed_selection ed) (pending_style ed) act"
      "plain_action plain act"
    and ops: "resolve g (ed_document ed) (ed_selection ed) act (pending_style ed) = Inr ops" "ops \<noteq> []"
    and fresh: "\<not> merges g (ed_undo_stack ed) ops (ed_selection ed)" "0 < max_entries (ed_undo_stack ed)"
  shows "\<exists>ed1 ed2 ed3. apply_action g act ed = Inr ed1 \<and> editor_undo g ed1 = Inr ed2
    \<and> ed_document ed2 = ed_document ed \<and> ed_selection ed2 = ed_selection ed
    \<and> editor_redo g ed2 = Inr ed3 \<and> ed_document ed3 = normalize (ed_document ed1)"
proof -
  let ?d = "ed_document ed"
  have dne: "blocks ?d \<noteq> []" using doc(1) by (simp add: norm_doc_def)
  from resolve_undoable [OF sel doc(2) act(1)] ops(1) have u: "undoable_all g plain ops ?d" by simp
  then obtain d1 where d1: "apply_ops g ops ?d = Inr d1" using undoable_path by blast
  from apply_action_ops [OF ops d1] obtain ed1 dirty where ed1: "apply_action g act ed = Inr ed1"
    "ed_document ed1 = normalize_blocks d1 dirty"
    "ed_undo_stack ed1 = push g (ed_undo_stack ed) ops (ed_selection ed) (ed_selection ed1)" by blast
  have pops: "list_all (plain_op plain) ops" by (rule resolve_plain [OF doc(2) act(2) ops(1)])
  have p1: "plain_doc plain d1" "blocks d1 \<noteq> []"
    using apply_ops_plain [OF doc(2) pops d1] apply_ops_nonempty [OF d1 dne] by simp_all
  note n1 = normalize_blocks_abs [OF p1, of dirty]
  from undo_group [OF u d1, of "ed_document ed1"] n1 ed1(2) obtain e where
    e: "undo_ops g (rev ops) (ed_document ed1) = Inr e" "abs_doc g e = abs_doc g ?d" by auto
  have "plain_doc plain e"
    using undo_ops_plain [of "ed_document ed1" "rev ops" e] n1(2) ed1(2) pops e(1) by (simp add: list_all_rev)
  then have same: "normalize e = ?d" by (rule normalized_back [OF doc(1) _ e(2)])
  obtain st where st: "undo (ed_undo_stack ed1) =
      Some (\<lparr>grp_ops = ops, cursor_before = ed_selection ed, cursor_after = ed_selection ed1\<rparr>, st)"
    "us_redo st = [\<lparr>grp_ops = ops, cursor_before = ed_selection ed, cursor_after = ed_selection ed1\<rparr>]"
    unfolding ed1(3) using push_new_undo [OF ops(2) fresh] by blast
  define ed2 where "ed2 = ed1\<lparr>ed_document := ?d, ed_selection := ed_selection ed, ed_undo_stack := st\<rparr>"
  have ed2: "editor_undo g ed1 = Inr ed2"
    using st e same clamp_valid_selection [OF sel] by (simp add: editor_undo_def ed2_def Let_def)
  have "norm_doc (normalize (ed_document ed1))" by (rule normalize_norm)
  moreover have "abs_doc g d1 = abs_doc g (normalize (ed_document ed1))"
    using n1 ed1(2) normalize_abs(1) [OF n1(2)] abs_doc_nonempty [OF n1(1) [symmetric] p1(2)] by simp
  ultimately have "normalize d1 = normalize (ed_document ed1)"
    by (intro normalized_back p1(1))
  then obtain ed3 where "editor_redo g ed2 = Inr ed3" "ed_document ed3 = normalize (ed_document ed1)"
    using st(2) d1 by (simp add: editor_redo_def redo_def ed2_def Let_def)
  with ed1(1) ed2 show ?thesis by (auto simp: ed2_def)
qed

end

section \<open>An editing session\<close>

text \<open>The actions that change neither the document nor the history.\<close>

fun quiet :: "action \<Rightarrow> bool" where
  "quiet (Edit _) = False"
| "quiet Undo = False"
| "quiet Redo = False"
| "quiet Cut = False"
| "quiet (Paste _) = False"
| "quiet _ = True"

text \<open>
  A session: reversible edits at valid selections (as many as the undo stack holds), movements and
  other quiet actions, and undos, in any order.
\<close>

inductive session ::
  "segmenter \<Rightarrow> (string \<Rightarrow> bool) \<Rightarrow> (string \<Rightarrow> bool) \<Rightarrow> editor_state \<Rightarrow> editor_state \<Rightarrow> bool"
  for g plain alnum ed0 where
  session_start: "session g plain alnum ed0 ed0"
| session_edit:
    "session g plain alnum ed0 ed \<Longrightarrow> valid_selection g (ed_document ed) (ed_selection ed) \<Longrightarrow>
     reversible g plain (ed_document ed) (ed_selection ed) (pending_style ed) act \<Longrightarrow>
     plain_action plain act \<Longrightarrow>
     undo_len (ed_undo_stack ed) < max_entries (ed_undo_stack ed) \<Longrightarrow>
     apply_action g act ed = Inr ed' \<Longrightarrow> session g plain alnum ed0 ed'"
| session_quiet:
    "session g plain alnum ed0 ed \<Longrightarrow> quiet a \<Longrightarrow> perform g alnum a ed = Inr ed' \<Longrightarrow>
     session g plain alnum ed0 ed'"
| session_undo:
    "session g plain alnum ed0 ed \<Longrightarrow> editor_undo g ed = Inr ed' \<Longrightarrow> session g plain alnum ed0 ed'"

fun undo_times :: "segmenter \<Rightarrow> nat \<Rightarrow> editor_state \<Rightarrow> editor_state res" where
  "undo_times g 0 ed = Inr ed"
| "undo_times g (Suc n) ed = res_bind (editor_undo g ed) (undo_times g n)"

lemma quiet_document [simp]:
  "ed_document (apply_move g alnum m ext ed) = ed_document ed"
  "ed_document (handle_click g p ed) = ed_document ed"
  "ed_document (handle_double_click g alnum p ed) = ed_document ed"
  "ed_document (handle_triple_click g p ed) = ed_document ed"
  "ed_document (handle_drag g p ed) = ed_document ed"
  "ed_document (capture_clipboard g ed) = ed_document ed"
  by (simp_all add: apply_move_def handle_click_def handle_double_click_def handle_triple_click_def
      handle_drag_def capture_clipboard_def Let_def split_beta split: option.splits)

lemma quiet_stack [simp]:
  "ed_undo_stack (apply_move g alnum m ext ed) = ed_undo_stack ed"
  "ed_undo_stack (handle_click g p ed) = ed_undo_stack ed"
  "ed_undo_stack (handle_double_click g alnum p ed) = ed_undo_stack ed"
  "ed_undo_stack (handle_triple_click g p ed) = ed_undo_stack ed"
  "ed_undo_stack (handle_drag g p ed) = ed_undo_stack ed"
  "ed_undo_stack (capture_clipboard g ed) = ed_undo_stack ed"
  by (simp_all add: apply_move_def handle_click_def handle_double_click_def handle_triple_click_def
      handle_drag_def capture_clipboard_def Let_def split_beta split: option.splits)

lemma quiet_keeps:
  assumes "quiet a" "perform g alnum a ed = Inr ed'"
  shows "ed_document ed' = ed_document ed \<and> ed_undo_stack ed' = ed_undo_stack ed"
  using assms by (cases a) auto

context plain_segmentation
begin

text \<open>The history leads from the first document to the current one.\<close>

definition session_inv :: "document \<Rightarrow> editor_state \<Rightarrow> bool" where
  "session_inv d0 ed \<longleftrightarrow>
     edit.path (history_ops (ed_undo_stack ed)) (abs_doc g d0) (abs_doc g (ed_document ed))
     \<and> plain_doc plain (ed_document ed) \<and> blocks (ed_document ed) \<noteq> []
     \<and> list_all (plain_op plain) (history_ops (ed_undo_stack ed))
     \<and> (us_undo (ed_undo_stack ed) = [] \<longrightarrow> ed_document ed = d0)"

lemma session_inv_edit:
  assumes inv: "session_inv d0 ed"
    and sel: "valid_selection g (ed_document ed) (ed_selection ed)"
    and act: "reversible g plain (ed_document ed) (ed_selection ed) (pending_style ed) act" "plain_action plain act"
    and room: "undo_len (ed_undo_stack ed) < max_entries (ed_undo_stack ed)"
    and ed': "apply_action g act ed = Inr ed'"
  shows "session_inv d0 ed'"
proof -
  let ?d = "ed_document ed" and ?st = "ed_undo_stack ed"
  have p: "plain_doc plain ?d" and ne: "blocks ?d \<noteq> []" using inv by (simp_all add: session_inv_def)
  from resolve_undoable [OF sel p act(1)] obtain ops where
    ops: "resolve g ?d (ed_selection ed) act (pending_style ed) = Inr ops" and u: "undoable_all g plain ops ?d" by blast
  show ?thesis
  proof (cases "ops = []")
    case True
    with ops ed' have "ed_document ed' = ?d" "us_undo (ed_undo_stack ed') = us_undo ?st"
      by (auto simp: apply_action_def Let_def break_group_def split: option.splits)
    with inv show ?thesis by (simp add: session_inv_def history_ops_def)
  next
    case False
    from undoable_path [OF u] obtain d1 where d1: "apply_ops g ops ?d = Inr d1" "edit.path ops (abs_doc g ?d) (abs_doc g d1)"
      by blast
    from apply_action_ops [OF ops False d1(1)] ed' obtain dirty where
      doc': "ed_document ed' = normalize_blocks d1 dirty"
      and st': "ed_undo_stack ed' = push g ?st ops (ed_selection ed) (ed_selection ed')" by auto
    have pops: "list_all (plain_op plain) ops" by (rule resolve_plain [OF p act(2) ops])
    have p1: "plain_doc plain d1" "blocks d1 \<noteq> []"
      using apply_ops_plain [OF p pops d1(1)] apply_ops_nonempty [OF d1(1) ne] by simp_all
    note n1 = normalize_blocks_abs [OF p1, of dirty]
    from push_history [of ?st g ops "ed_selection ed" "ed_selection ed'"] room
    have h: "history_ops (ed_undo_stack ed') = history_ops ?st @ ops"
      unfolding st' by (auto simp: undo_len_def history_ops_def)
    then have "us_undo (ed_undo_stack ed') \<noteq> []" using False by (auto simp: history_ops_def)
    with h inv d1(2) n1 doc' pops abs_doc_nonempty [OF n1(1) [symmetric] p1(2)] show ?thesis
      by (auto simp: session_inv_def edit.path_append)
  qed
qed

lemma session_inv_undo:
  assumes inv: "session_inv d0 ed" and d0: "norm_doc d0"
  shows "\<exists>ed'. editor_undo g ed = Inr ed' \<and> session_inv d0 ed'
    \<and> us_undo (ed_undo_stack ed') = butlast (us_undo (ed_undo_stack ed))"
proof (cases "us_undo (ed_undo_stack ed)" rule: rev_cases)
  case Nil
  with inv show ?thesis by (simp add: editor_undo_def undo_def)
next
  case (snoc us gr)
  let ?d = "ed_document ed"
  have h: "history_ops (ed_undo_stack ed) = concat (map grp_ops us) @ grp_ops gr"
    using snoc by (simp add: history_ops_def)
  with inv obtain v where v: "edit.path (concat (map grp_ops us)) (abs_doc g d0) v"
    "edit.path (grp_ops gr) v (abs_doc g ?d)" by (auto simp: session_inv_def edit.path_append)
  from edit.undo_path [OF v(2) refl] obtain e where e: "undo_ops g (rev (grp_ops gr)) ?d = Inr e" "abs_doc g e = v"
    by (auto simp: undo_all_eq)
  have ne: "blocks e \<noteq> []" using undo_ops_nonempty [OF e(1)] inv by (simp add: session_inv_def)
  have pe: "plain_doc plain e"
    using undo_ops_plain [of ?d "rev (grp_ops gr)" e] inv e(1) h by (simp add: session_inv_def list_all_rev)
  note n = normalize_abs [OF pe ne]
  obtain ed' where ed': "editor_undo g ed = Inr ed'" "ed_document ed' = normalize e"
    "us_undo (ed_undo_stack ed') = us"
    using snoc e(1) by (simp add: editor_undo_def undo_def Let_def)
  have "normalize e = d0" if "us = []"
    using that v(1) e(2) by (intro normalized_back d0 pe) simp
  moreover have "blocks (normalize e) \<noteq> []" by (rule abs_doc_nonempty [OF n(1) [symmetric] ne])
  ultimately show ?thesis
    using ed' v(1) e(2) n inv h snoc by (auto simp: session_inv_def history_ops_def)
qed

lemma session_invariant:
  assumes "session g plain alnum (from_document d0) ed" "norm_doc d0" "plain_doc plain d0"
  shows "session_inv d0 ed"
  using assms(1)
proof induction
  case session_start
  have "blocks d0 \<noteq> []" using assms(2) by (simp add: norm_doc_def)
  with assms(3) show ?case
    by (simp add: session_inv_def from_document_def undo_stack_default_def undo_stack_new_def history_ops_def)
next
  case (session_edit ed act ed')
  then show ?case using session_inv_edit by blast
next
  case (session_quiet ed a ed')
  with quiet_keeps [OF session_quiet.hyps(2,3)] show ?case by (simp add: session_inv_def)
next
  case (session_undo ed ed')
  with session_inv_undo [OF session_undo.IH assms(2)] show ?case by auto
qed

lemma undo_times_all:
  assumes "session_inv d0 ed" "norm_doc d0"
  shows "\<exists>ed'. undo_times g (length (us_undo (ed_undo_stack ed))) ed = Inr ed' \<and> ed_document ed' = d0"
  using assms(1)
proof (induction "length (us_undo (ed_undo_stack ed))" arbitrary: ed)
  case 0
  then show ?case by (simp add: session_inv_def)
next
  case (Suc n)
  from session_inv_undo [OF Suc.prems assms(2)] obtain ed1 where
    ed1: "editor_undo g ed = Inr ed1" "session_inv d0 ed1"
      "us_undo (ed_undo_stack ed1) = butlast (us_undo (ed_undo_stack ed))" by blast
  then have "n = length (us_undo (ed_undo_stack ed1))" using Suc.hyps(2) by simp
  from Suc.hyps(1) [OF this ed1(2)] ed1(1) Suc.hyps(2) \<open>n = _\<close> show ?case by (simp flip: Suc.hyps(2))
qed

lemma session_restores:
  assumes "session g plain alnum (from_document d0) ed" "norm_doc d0" "plain_doc plain d0"
  shows "\<exists>ed'. undo_times g (undo_len (ed_undo_stack ed)) ed = Inr ed' \<and> ed_document ed' = d0"
  using undo_times_all [OF session_invariant [OF assms] assms(2)] by (simp add: undo_len_def)

end

end
