(* ===== verification/RteSafety.thy ===== *)
theory RteSafety
  imports RteSession
begin

text \<open>
  Safety of the editor: the selection stays inside a non-empty document whatever action is
  performed, and edits at a valid selection do not panic. The exceptions the code has are conditions
  of the statements.
\<close>

unbundle bit_operations_syntax

section \<open>The selection stays valid\<close>

definition editor_inv :: "segmenter \<Rightarrow> editor_state \<Rightarrow> bool" where
  "editor_inv g ed \<longleftrightarrow>
     blocks (ed_document ed) \<noteq> [] \<and> valid_selection g (ed_document ed) (ed_selection ed)"

text \<open>
  The two actions that can leave the document: moving a word to the right in a block whose text has
  more clusters than the block has positions (the alternative text of an image, the lines of a
  quote), and dragging from an anchor that an edit has invalidated.
\<close>

fun stays_inside :: "segmenter \<Rightarrow> action \<Rightarrow> editor_state \<Rightarrow> bool" where
  "stays_inside g (Move MWordRight) ed =
     (let i = block_index (focus (ed_selection ed))
      in text_len g (block_text (ed_document ed) i) \<le> block_len_at g (ed_document ed) i)"
| "stays_inside g (Select MWordRight) ed =
     (let i = block_index (focus (ed_selection ed))
      in text_len g (block_text (ed_document ed) i) \<le> block_len_at g (ed_document ed) i)"
| "stays_inside g (Drag p) ed =
     (case ed_drag ed of None \<Rightarrow> True | Some dr \<Rightarrow> is_valid_position g (ed_document ed) (drag_anchor dr))"
| "stays_inside g _ ed = True"

lemma valid_position_iff:
  "is_valid_position g d p \<longleftrightarrow> block_index p < block_count d \<and> offset p \<le> block_len_at g d (block_index p)"
  by (auto simp: is_valid_position_def block_len_at_def doc_block_def get_def block_count_def)

lemma apply_tracked_apply_ops:
  "apply_tracked g ops d sel = Inr (d', sel', dirty) \<Longrightarrow> apply_ops g ops d = Inr d'"
proof (induction ops arbitrary: d sel sel' dirty)
  case (Cons op ops)
  then obtain d1 m sel1 dirty1 where "apply_op g op d = Inr (d1, m)"
    "apply_tracked g ops d1 (map_selection m sel) = Inr (d', sel1, dirty1)" by auto
  with Cons.IH show ?case by simp
qed simp

lemma normalize_blocks_nonempty: "blocks d \<noteq> [] \<Longrightarrow> blocks (normalize_blocks d dirty) \<noteq> []"
  using normalize_blocks_nth(1) [of d dirty] by force

lemma normalize_nonempty: "blocks (normalize d) \<noteq> []"
  by (simp add: normalize_eq ensure_block_def)

lemma walk_left_le: "walk_left P gs i \<le> i"
  by (induction P gs i rule: walk_left.induct) auto

lemma walk_right_le: "i \<le> length gs \<Longrightarrow> walk_right P gs i \<le> length gs"
  using length_takeWhile_le [of P "drop i gs"] by (simp add: walk_right_def)

section \<open>Movement\<close>

lemma moves_valid:
  assumes "is_valid_position g d p"
  shows "is_valid_position g d (move_left g d p)"
    and "is_valid_position g d (move_right g d p)"
    and "is_valid_position g d (home p)"
    and "is_valid_position g d (end_of_block g d p)"
    and "is_valid_position g d (word_left g alnum d p)"
    and "is_valid_position g d document_start"
    and "is_valid_position g d (document_end g d)"
proof -
  have p: "block_index p < block_count d" "offset p \<le> block_len_at g d (block_index p)"
    using assms by (simp_all add: valid_position_iff)
  then show "is_valid_position g d (move_left g d p)" "is_valid_position g d (move_right g d p)"
    "is_valid_position g d (home p)" "is_valid_position g d (end_of_block g d p)"
    "is_valid_position g d document_start"
    by (auto simp: valid_position_iff move_left_def move_right_def home_def end_of_block_def
        document_start_def position_zero_def)
  show "is_valid_position g d (document_end g d)"
    using p by (auto simp: valid_position_iff document_end_def end_position_def block_len_at_def
        block_count_def Let_def)
  have "walk_left P gs (walk_left Q gs (min (offset p) n)) \<le> block_len_at g d (block_index p)" for P Q gs n
    using walk_left_le [of P gs] walk_left_le [of Q gs "min (offset p) n"] p(2)
    by (meson le_trans min.cobounded1)
  then show "is_valid_position g d (word_left g alnum d p)"
    using p by (auto simp: valid_position_iff word_left_def Let_def)
qed

lemma word_right_valid:
  assumes "is_valid_position g d p" "text_len g (block_text d (block_index p)) \<le> block_len_at g d (block_index p)"
  shows "is_valid_position g d (word_right g alnum d p)"
proof -
  let ?gs = "g (block_text d (block_index p))"
  have "walk_right P ?gs (walk_right Q ?gs (min (offset p) (length ?gs))) \<le> block_len_at g d (block_index p)" for P Q
    using walk_right_le [of _ ?gs] assms(2) unfolding text_len_def by (meson le_trans min.cobounded2)
  with assms(1) show ?thesis by (auto simp: valid_position_iff word_right_def Let_def)
qed

lemma word_at_valid:
  assumes "is_valid_position g d p"
  shows "is_valid_position g d (fst (word_at g alnum d p))" "is_valid_position g d (snd (word_at g alnum d p))"
proof -
  have p: "block_index p < block_count d" "offset p \<le> block_len_at g d (block_index p)"
    using assms by (simp_all add: valid_position_iff)
  have w: "walk_left P gs i \<le> block_len_at g d (block_index p)" if "i \<le> offset p" for P gs i
    using walk_left_le [of P gs i] that p(2) by (meson le_trans)
  show "is_valid_position g d (fst (word_at g alnum d p))"
    using p w by (auto simp: valid_position_iff word_at_def Let_def intro!: w)
  show "is_valid_position g d (snd (word_at g alnum d p))"
    using p by (auto simp: valid_position_iff word_at_def Let_def)
qed

lemma sel_start_end_valid:
  "valid_selection g d sel \<Longrightarrow> is_valid_position g d (sel_start sel) \<and> is_valid_position g d (sel_end sel)"
  by (simp add: valid_selection_def sel_start_def sel_end_def min_def max_def)

lemma move_target_valid:
  assumes inv: "editor_inv g ed"
    and w: "m = MWordRight \<longrightarrow> (let i = block_index (focus (ed_selection ed))
      in text_len g (block_text (ed_document ed) i) \<le> block_len_at g (ed_document ed) i)"
  shows "is_valid_position g (ed_document ed) (move_target g alnum m ext ed)"
proof -
  have f: "is_valid_position g (ed_document ed) (focus (ed_selection ed))"
    using inv by (simp add: editor_inv_def valid_selection_def)
  note m = moves_valid [OF f]
  have "is_valid_position g (ed_document ed) (DocPosition 0 0)"
    using m(6) by (simp add: document_start_def position_zero_def)
  then show ?thesis
    using m word_right_valid [OF f] w inv f sel_start_end_valid
    by (cases m) (auto simp: editor_inv_def valid_position_iff Let_def document_end_def)
qed

section \<open>Every action\<close>

lemma inv_unchanged:
  "editor_inv g ed \<Longrightarrow> ed_document ed' = ed_document ed \<Longrightarrow> ed_selection ed' = ed_selection ed \<Longrightarrow> editor_inv g ed'"
  by (simp add: editor_inv_def)

lemma apply_action_inv:
  assumes inv: "editor_inv g ed" and r: "apply_action g act ed = Inr ed'"
  shows "editor_inv g ed'"
proof -
  from r obtain ops where ops: "resolve g (ed_document ed) (ed_selection ed) act (pending_style ed) = Inr ops"
    by (auto simp: apply_action_def Let_def)
  show ?thesis
  proof (cases "ops = []")
    case True
    with r ops have "ed_document ed' = ed_document ed" "ed_selection ed' = ed_selection ed"
      by (auto simp: apply_action_def Let_def split: option.splits)
    with inv inv_unchanged show ?thesis by blast
  next
    case False
    with r ops obtain d1 sel1 dirty where
      t: "apply_tracked g ops (ed_document ed) (ed_selection ed) = Inr (d1, sel1, dirty)"
      by (auto simp: apply_action_def Let_def)
    have "blocks d1 \<noteq> []"
      using apply_ops_nonempty [OF apply_tracked_apply_ops [OF t]] inv by (simp add: editor_inv_def)
    then have ne: "blocks (normalize_blocks d1 (sort_dedup dirty)) \<noteq> []" by (rule normalize_blocks_nonempty)
    from False r ops t have
      "ed_document ed' = normalize_blocks d1 (sort_dedup dirty)"
      "ed_selection ed' = clamp_selection g (normalize_blocks d1 (sort_dedup dirty)) (update_cursor_after_ops g ops sel1)"
      by (auto simp: apply_action_def Let_def)
    with ne show ?thesis by (simp add: editor_inv_def clamp_selection_valid)
  qed
qed

lemma paste_slice_inv:
  assumes inv: "editor_inv g ed" and r: "paste_slice g sl ed = Inr ed'"
  shows "editor_inv g ed'"
proof (cases "slice_blocks sl = []")
  case True
  with r inv show ?thesis by (simp add: paste_slice_def)
next
  case False
  with r obtain d2 sel2 where "ed_document ed' = normalize d2"
    "ed_selection ed' = clamp_selection g (normalize d2) sel2"
    by (auto simp: paste_slice_def Let_def)
  then show ?thesis by (simp add: editor_inv_def normalize_nonempty clamp_selection_valid)
qed

lemma undo_inv_editor: "editor_inv g ed \<Longrightarrow> editor_undo g ed = Inr ed' \<Longrightarrow> editor_inv g ed'"
  by (auto simp: editor_undo_def Let_def editor_inv_def normalize_nonempty clamp_selection_valid
      split: option.splits)

lemma redo_inv_editor: "editor_inv g ed \<Longrightarrow> editor_redo g ed = Inr ed' \<Longrightarrow> editor_inv g ed'"
  by (auto simp: editor_redo_def Let_def editor_inv_def normalize_nonempty clamp_selection_valid
      split: option.splits)

lemma capture_clipboard_selection [simp]: "ed_selection (capture_clipboard g ed) = ed_selection ed"
  by (simp add: capture_clipboard_def Let_def split: option.splits)

lemma paste_plain_inv: "editor_inv g ed \<Longrightarrow> paste_plain_text g t ed = Inr ed' \<Longrightarrow> editor_inv g ed'"
  by (auto simp: paste_plain_text_def Let_def split: if_splits dest: apply_action_inv paste_slice_inv)

lemma apply_move_inv:
  assumes "editor_inv g ed" "is_valid_position g (ed_document ed) (move_target g alnum m ext ed)"
  shows "editor_inv g (apply_move g alnum m ext ed)"
  using assms
  by (cases ext) (simp_all add: editor_inv_def valid_selection_def apply_move_def Let_def caret_def sel_range_def)

lemma mouse_inv:
  assumes "editor_inv g ed"
  shows "editor_inv g (handle_click g p ed)" "editor_inv g (handle_double_click g alnum p ed)"
    "editor_inv g (handle_triple_click g p ed)"
proof -
  have ne: "blocks (ed_document ed) \<noteq> []" using assms by (simp add: editor_inv_def)
  note c = clamp_is_valid [OF ne, of g p]
  show "editor_inv g (handle_click g p ed)"
    using ne c by (simp add: editor_inv_def valid_selection_def handle_click_def Let_def caret_def)
  show "editor_inv g (handle_double_click g alnum p ed)"
    using ne word_at_valid [OF c, of alnum]
    by (simp add: editor_inv_def valid_selection_def handle_double_click_def Let_def split_beta sel_range_def)
  show "editor_inv g (handle_triple_click g p ed)"
    using ne moves_valid(3,4) [OF c]
    by (simp add: editor_inv_def valid_selection_def handle_triple_click_def Let_def split_beta sel_range_def
        select_block_def home_def end_of_block_def)
qed

lemma drag_inv:
  assumes "editor_inv g ed" "stays_inside g (Drag p) ed"
  shows "editor_inv g (handle_drag g p ed)"
  using assms clamp_is_valid [of "ed_document ed" g p]
  by (auto simp: editor_inv_def valid_selection_def handle_drag_def Let_def sel_range_def split: option.splits)

lemma select_all_inv:
  assumes "editor_inv g ed"
  shows "editor_inv g (ed\<lparr>ed_selection := sel_range position_zero (end_position g (ed_document ed))\<rparr>)"
  using assms moves_valid(6,7) [of g "ed_document ed" "focus (ed_selection ed)"]
  by (simp add: editor_inv_def valid_selection_def sel_range_def document_start_def document_end_def)

lemma perform_inv:
  assumes inv: "editor_inv g ed" and s: "stays_inside g a ed" and r: "perform g alnum a ed = Inr ed'"
  shows "editor_inv g ed'"
proof (cases a)
  case (Move m)
  with s have "m = MWordRight \<longrightarrow> (let i = block_index (focus (ed_selection ed))
      in text_len g (block_text (ed_document ed) i) \<le> block_len_at g (ed_document ed) i)" by auto
  from apply_move_inv [OF inv move_target_valid [OF inv this]] Move r show ?thesis by auto
next
  case (Select m)
  with s have "m = MWordRight \<longrightarrow> (let i = block_index (focus (ed_selection ed))
      in text_len g (block_text (ed_document ed) i) \<le> block_len_at g (ed_document ed) i)" by auto
  from apply_move_inv [OF inv move_target_valid [OF inv this]] Select r show ?thesis by auto
next
  case Cut
  have "editor_inv g (capture_clipboard g ed)" by (rule inv_unchanged [OF inv]) simp_all
  moreover have "apply_action g ADeleteSelection (capture_clipboard g ed) = Inr ed' \<or> ed' = capture_clipboard g ed"
    using Cut r by (auto simp: Let_def split: if_splits)
  ultimately show ?thesis using apply_action_inv by blast
next
  case (Paste t)
  then have "(\<exists>sl. paste_slice g sl ed = Inr ed') \<or> paste_plain_text g t ed = Inr ed'"
    using r by (auto split: option.splits if_splits)
  with inv paste_slice_inv paste_plain_inv show ?thesis by blast
next
  case (Drag p)
  with r s drag_inv [OF inv, of p] show ?thesis by auto
next
  case (Edit act)
  with r inv apply_action_inv show ?thesis by simp
next
  case Undo
  with r inv undo_inv_editor show ?thesis by simp
next
  case Redo
  with r inv redo_inv_editor show ?thesis by simp
next
  case Copy
  with r have "ed' = capture_clipboard g ed" by simp
  then show ?thesis by (intro inv_unchanged [OF inv]) simp_all
qed (use r select_all_inv [OF inv] mouse_inv [OF inv] inv_unchanged [OF inv] inv in auto)

section \<open>Edits do not panic\<close>

definition inline_at :: "document \<Rightarrow> nat \<Rightarrow> bool" where
  "inline_at d i = (case doc_block d i of None \<Rightarrow> False | Some b \<Rightarrow> is_inline_block b)"

text \<open>
  Typing and Enter over a selection need an inline block where the deletion ends up: a deletion that
  starts at an atomic block can remove the block the next operation refers to.
\<close>

fun safe_edit :: "document \<Rightarrow> doc_selection \<Rightarrow> edit_action \<Rightarrow> bool" where
  "safe_edit d sel (AInsertText t) =
     (t \<noteq> [] \<and> (is_collapsed sel \<or> inline_at d (block_index (post_delete_position d sel))))"
| "safe_edit d sel ASplitBlock =
     (is_collapsed sel \<or> inline_at d (block_index (post_delete_position d sel)))"
| "safe_edit d sel _ = True"

definition no_empty_links :: "document \<Rightarrow> bool" where
  "no_empty_links d \<longleftrightarrow>
     list_all (\<lambda>b. list_all (\<lambda>r. run_link r \<noteq> None \<longrightarrow> run_text r \<noteq> []) (runs_or_empty b)) (blocks d)"

lemma link_start_le: "link_start_idx runs href i \<le> i"
  by (induction runs href i rule: link_start_idx.induct) auto

lemma link_end_bounds: "i < length runs \<Longrightarrow> i \<le> link_end_idx runs href i \<and> link_end_idx runs href i < length runs"
proof (induction runs href i rule: link_end_idx.induct)
  case (1 runs href i)
  then show ?case
    by (cases "i + 1 < length runs \<and> run_link (runs ! (i + 1)) = Some href")
      (auto simp: link_end_idx.simps [of runs href i])
qed

lemma runs_len_member: "r \<in> set rs \<Longrightarrow> run_char_len g r \<le> runs_len g rs"
  unfolding runs_len_def by (induction rs) auto

lemma norm_no_empty_links: "norm_doc d \<Longrightarrow> no_empty_links d"
proof -
  have "norm_runs rs \<Longrightarrow> r \<in> set rs \<Longrightarrow> run_link r \<noteq> None \<Longrightarrow> run_text r \<noteq> []" for rs r
    by (auto simp: norm_runs_iff merge_inv_def run_plain_def list_all_iff)
  then have "norm_block b \<Longrightarrow> r \<in> set (runs_or_empty b) \<Longrightarrow> run_link r \<noteq> None \<Longrightarrow> run_text r \<noteq> []" for b r
    by (cases b) (auto simp: runs_or_empty_def)
  then show "norm_doc d \<Longrightarrow> no_empty_links d"
    by (auto simp: no_empty_links_def norm_doc_def list_all_iff)
qed

context segmentation
begin

lemma link_boundaries_nonempty:
  assumes "no_empty_links d" "find_link_boundaries g d p = Some (s, e)"
  shows "s < e"
proof -
  from assms(2) obtain b runs k m where b: "doc_block d (block_index p) = Some b" "block_runs b = Some runs"
    and k: "resolve_offset g b (offset p) = Some (k, m)"
    by (auto simp: find_link_boundaries_def bind_eq_Some_conv Let_def split: if_splits)
  have kl: "k < length runs" using k b resolve_offset_from_less by (fastforce simp: resolve_offset_def)
  have "\<exists>href a. a < length runs \<and> run_link (runs ! a) = Some href
    \<and> s = DocPosition (block_index p) (runs_len g (take (link_start_idx runs href a) runs))
    \<and> e = DocPosition (block_index p) (runs_len g (take (link_start_idx runs href a) runs) +
         runs_len g (drop (link_start_idx runs href a) (take (link_end_idx runs href a + 1) runs)))"
  proof (cases "run_link (runs ! k)")
    case None
    with assms(2) b k obtain href where "m = 0" "k > 0" "run_link (runs ! (k - 1)) = Some href"
      by (auto simp: find_link_boundaries_def bind_eq_Some_conv Let_def split: if_splits)
    with None assms(2) b k kl show ?thesis
      by (intro exI [of _ href] exI [of _ "k - 1"])
        (auto simp: find_link_boundaries_def Let_def split: if_splits)
  next
    case (Some href)
    with assms(2) b k kl show ?thesis
      by (intro exI [of _ href] exI [of _ k]) (auto simp: find_link_boundaries_def Let_def split: if_splits)
  qed
  then obtain href a where a: "a < length runs" "run_link (runs ! a) = Some href"
    and se: "s = DocPosition (block_index p) (runs_len g (take (link_start_idx runs href a) runs))"
      "e = DocPosition (block_index p) (runs_len g (take (link_start_idx runs href a) runs) +
         runs_len g (drop (link_start_idx runs href a) (take (link_end_idx runs href a + 1) runs)))"
    by blast
  let ?si = "link_start_idx runs href a" and ?ei = "link_end_idx runs href a"
  have "a < length (take (?ei + 1) runs)" "?si \<le> a"
    using link_end_bounds [OF a(1), of href] link_start_le a(1) by auto
  then have "runs ! a \<in> set (drop ?si (take (?ei + 1) runs))"
    using a(1) by (auto simp: in_set_conv_nth intro!: exI [of _ "a - ?si"])
  moreover have "0 < run_char_len g (runs ! a)"
  proof -
    have "b \<in> set (blocks d)" using b(1) by (auto simp: doc_block_def get_Some_iff)
    then have "list_all (\<lambda>r. run_link r \<noteq> None \<longrightarrow> run_text r \<noteq> []) runs"
      using assms(1) b(2) by (auto simp: no_empty_links_def list_all_iff [of _ "blocks d"] runs_or_empty_def)
    then have "run_text (runs ! a) \<noteq> []" using a by (auto simp: list_all_length)
    then show ?thesis by (simp add: run_char_len_0 [symmetric] del: run_char_len_0)
  qed
  ultimately have "0 < runs_len g (drop ?si (take (?ei + 1) runs))"
    using runs_len_member by (meson less_le_trans)
  then show ?thesis by (simp add: se less_doc_position_def)
qed

lemma delete_range_total:
  assumes "s < e" "doc_block d (block_index s) = Some sb" "doc_block d (block_index e) = Some eb"
  shows "\<exists>d' m. apply_op g (DeleteRange s e del) d = Inr (d', m)
    \<and> (is_inline_block sb \<longrightarrow> block_index s < length (blocks d'))"
proof -
  obtain i so j eo where se: "s = DocPosition i so" "e = DocPosition j eo" by (cases s, cases e)
  have ij: "i < j \<or> (i = j \<and> so < eo)" using assms(1) se by (auto simp: less_doc_position_def)
  have le: "s \<le> e" "s \<noteq> e" using assms(1) by auto
  have il: "i < length (abs_doc g d)" "j < length (blocks d)"
    using doc_block_less [OF assms(2)] doc_block_less [OF assms(3)] se by (simp_all add: block_count_def)
  show ?thesis
  proof (cases "is_inline_block sb")
    case True
    then obtain c where A: "get (abs_doc g d) i = Some (AInline (shape_of sb) c)"
      using assms(2) se by (auto simp: get_abs_doc is_inline_block_iff dest: abs_block_inline)
    have E: "get (abs_doc g d) j = Some (abs_block g eb)" using assms(3) se by (simp add: get_abs_doc)
    have "\<exists>d' m n x. apply_op g (DeleteRange s e del) d = Inr (d', m) \<and> abs_doc g d' = splice_at i n [x] (abs_doc g d)"
    proof (cases "i = j")
      case True
      with ij delete_within_abs [OF A, of so eo del] se show ?thesis by fastforce
    next
      case False
      with ij cross_delete_abs [OF A E, of so eo del] se show ?thesis by blast
    qed
    then obtain d' m n x where d': "apply_op g (DeleteRange s e del) d = Inr (d', m)"
      "abs_doc g d' = splice_at i n [x] (abs_doc g d)" by blast
    then have "i < length (abs_doc g d')" using get_Some_less [OF get_splice1 [OF il(1), of n x "[]"]] by simp
    with d'(1) se show ?thesis by (simp add: block_count_def)
  next
    case False
    then have br: "block_runs sb = None" by (simp add: is_atomic_block_def)
    show ?thesis
    proof (cases "i = j")
      case True
      with le se assms(2) br il False show ?thesis
        by (auto simp: apply_delete_range_def apply_single_block_delete_def Let_def vec_remove_def
            simp del: block_runs_None_iff)
    next
      case False
      with ij have lt: "i < j" by simp
      have r1: "\<exists>bs. vec_remove_n n (Suc i) ((blocks d)[i := nb]) = Inr bs" if "Suc i + n \<le> Suc j" for n nb
        using vec_remove_n_eq [of "Suc i" n "(blocks d)[i := nb]"] that il by simp
      have r2: "\<exists>bs. vec_remove_n n i (blocks d) = Inr bs" if "i + n \<le> Suc j" for n
        using vec_remove_n_eq [of i n "blocks d"] that il by simp
      show ?thesis
        using le se assms(2,3) lt \<open>\<not> is_inline_block sb\<close>
          r1 [of "j - i"] r1 [of "j - Suc i"] r2 [of "Suc (j - i)"] r2 [of "Suc (j - Suc i)"]
        by (cases "build_cross_delete_replacement g sb so eb eo"; cases "is_inline_block eb \<or> 0 < eo")
          (auto simp: apply_delete_range_def apply_cross_block_delete_def Let_def simp del: vec_remove_n.simps)
    qed
  qed
qed

end

lemma apply_ops_append: "apply_ops g (ops @ ops') d = res_bind (apply_ops g ops d) (apply_ops g ops')"
proof (induction ops arbitrary: d)
  case (Cons op ops)
  then show ?case by (cases "apply_op g op d") auto
qed simp

lemma insert_text_total:
  "i < length (blocks d) \<Longrightarrow> \<exists>d' m. apply_op g (InsertText (DocPosition i off) t) d = Inr (d', m)"
  by (cases "block_runs (blocks d ! i)")
    (simp_all add: apply_insert_text_def doc_block_def get_def del: block_runs_None_iff)

lemma split_block_total:
  "i < length (blocks d) \<Longrightarrow>
    \<exists>d' m. apply_op g (SplitBlock (DocPosition i off)) d = Inr (d', m) \<and> Suc i < length (blocks d')"
  by (auto simp: apply_split_block_def doc_block_def get_def Let_def split_beta vec_insert_def)

lemma set_type_total: "i < length (blocks d) \<Longrightarrow> \<exists>d' m. apply_op g (SetBlockType i old new) d = Inr (d', m)"
  by (simp add: apply_set_block_type_def doc_block_def get_def)

lemma post_delete_valid:
  assumes "valid_selection g d sel"
  shows "block_index (post_delete_position d sel) < length (blocks d)"
    and "block_index (sel_end sel) < length (blocks d)"
  using sel_start_end_valid [OF assms]
  by (auto simp: post_delete_position_def Let_def valid_position_iff block_count_def)

context plain_segmentation
begin

lemma toggles_total: "s < e \<Longrightarrow> \<exists>d'. apply_ops g (map (ToggleInlineStyle s e) fs) d = Inr d'"
proof (induction fs arbitrary: d)
  case (Cons f fs)
  with toggle_abs_apply [of s e f d] show ?case by fastforce
qed simp

lemma delete_selection_total:
  assumes "valid_selection g d sel"
  shows "\<exists>d'. apply_ops g (build_delete_selection g d sel) d = Inr d'
    \<and> (inline_at d (block_index (post_delete_position d sel)) \<longrightarrow>
         block_index (post_delete_position d sel) < length (blocks d'))"
proof -
  let ?s = "post_delete_position d sel" and ?e = "sel_end sel"
  have b: "doc_block d (block_index ?s) = Some (blocks d ! block_index ?s)"
    "doc_block d (block_index ?e) = Some (blocks d ! block_index ?e)"
    using post_delete_valid [OF assms] by (simp_all add: doc_block_def get_def)
  show ?thesis
  proof (cases "?s \<ge> ?e")
    case True
    with post_delete_valid [OF assms] show ?thesis by (simp add: build_delete_selection_def)
  next
    case False
    then have "?s < ?e" by simp
    from delete_range_total [OF this b, of "build_deleted_content g d ?s ?e"] False b show ?thesis
      by (auto simp: build_delete_selection_def Let_def inline_at_def simp del: apply_op.simps)
  qed
qed

lemma typing_total:
  assumes v: "valid_selection g d sel" and s: "safe_edit d sel (AInsertText t)"
  shows "\<exists>ops d'. resolve g d sel (AInsertText t) pending = Inr ops \<and> apply_ops g ops d = Inr d'"
proof -
  have "\<exists>dops d1 p style. (if is_collapsed sel then p = focus sel \<and> dops = []
        else p = post_delete_position d sel \<and> dops = build_delete_selection g d sel)
      \<and> apply_ops g dops d = Inr d1 \<and> block_index p < length (blocks d1)
      \<and> resolve g d sel (AInsertText t) pending =
          (let diff = style XOR run_style_at g d1 p; e = DocPosition (block_index p) (offset p + text_len g t)
           in Inr (dops @ InsertText p t # (if diff = 0 then [] else map (ToggleInlineStyle p e) (style_iter diff))))"
  proof (cases "is_collapsed sel")
    case True
    with v show ?thesis
      by (intro exI [of _ "[]"] exI [of _ d] exI [of _ "focus sel"]
          exI [of _ "if pending = 0 then resolve_style_at g d (focus sel) else pending"])
        (simp add: resolve_insert_def Let_def valid_selection_def valid_position_iff block_count_def)
  next
    case False
    with s have "inline_at d (block_index (post_delete_position d sel))" by simp
    with delete_selection_total [OF v] obtain d1 where
      "apply_ops g (build_delete_selection g d sel) d = Inr d1"
      "block_index (post_delete_position d sel) < length (blocks d1)" by blast
    with False show ?thesis
      by (intro exI [of _ "build_delete_selection g d sel"] exI [of _ d1] exI [of _ "post_delete_position d sel"]
          exI [of _ "if pending = 0 then style_at_position g d (post_delete_position d sel) else pending"])
        (simp add: resolve_insert_def Let_def)
  qed
  then obtain dops d1 p style where d1: "apply_ops g dops d = Inr d1" "block_index p < length (blocks d1)"
    and r: "resolve g d sel (AInsertText t) pending =
        (let diff = style XOR run_style_at g d1 p; e = DocPosition (block_index p) (offset p + text_len g t)
         in Inr (dops @ InsertText p t # (if diff = 0 then [] else map (ToggleInlineStyle p e) (style_iter diff))))"
    by blast
  let ?e = "DocPosition (block_index p) (offset p + text_len g t)"
  from insert_text_total [OF d1(2), of g "offset p" t] obtain d2 m where
    d2: "apply_op g (InsertText p t) d1 = Inr (d2, m)" by auto
  have "0 < text_len g t" using s by (simp add: text_len_def)
  then have "p < ?e" by (simp add: less_doc_position_def)
  from toggles_total [OF this] obtain d3 where "apply_ops g (map (ToggleInlineStyle p ?e)
      (style_iter (style XOR run_style_at g d1 p))) d2 = Inr d3" by blast
  with r d1 d2 show ?thesis by (auto simp: Let_def apply_ops_append simp del: apply_op.simps)
qed

lemma split_total:
  assumes v: "valid_selection g d sel" and s: "safe_edit d sel ASplitBlock"
  shows "\<exists>d'. apply_ops g (resolve_split_block g d sel) d = Inr d'"
proof -
  define dops where "dops = (if is_collapsed sel then [] else build_delete_selection g d sel)"
  define p where "p = (if is_collapsed sel then focus sel else post_delete_position d sel)"
  obtain i off where p_eq: "p = DocPosition i off" by (cases p)
  obtain b where b: "doc_block d i = Some b"
    using v post_delete_valid [OF v] p_eq
    by (auto simp: p_def valid_selection_def valid_position_iff doc_block_def get_def block_count_def split: if_splits)
  obtain d1 where d1: "apply_ops g dops d = Inr d1" "i < length (blocks d1)"
    using delete_selection_total [OF v] s b p_eq doc_block_less [OF b]
    by (cases "is_collapsed sel") (auto simp: dops_def p_def)
  have "\<exists>d'. apply_ops g ops d1 = Inr d'"
    if "ops = [InsertBlock (i + 1) empty_paragraph] \<or> ops = [SetBlockType i k KParagraph] \<or>
      ops = [SplitBlock p, SetBlockType (i + 1) k KParagraph] \<or> ops = [SplitBlock p]" for ops k
  proof -
    obtain d2 m where d2: "apply_op g (SplitBlock p) d1 = Inr (d2, m)" "Suc i < length (blocks d2)"
      using split_block_total [OF d1(2), of g off] p_eq by blast
    have "\<exists>d' m. apply_op g (InsertBlock (i + 1) empty_paragraph) d1 = Inr (d', m)"
      using d1(2) by (simp add: apply_insert_block_def insert_block_def vec_insert_def)
    with that d2 set_type_total [OF d1(2), of g k KParagraph] set_type_total [OF d2(2), of g k KParagraph]
    show ?thesis by (auto simp del: apply_op.simps)
  qed
  moreover have "\<exists>ops k. resolve_split_block g d sel = dops @ ops \<and>
      (ops = [InsertBlock (i + 1) empty_paragraph] \<or> ops = [SetBlockType i k KParagraph] \<or>
       ops = [SplitBlock p, SetBlockType (i + 1) k KParagraph] \<or> ops = [SplitBlock p])"
    using b p_eq by (cases b) (auto simp: resolve_split_block_def dops_def p_def split: if_splits)
  ultimately show ?thesis using d1(1) by (metis apply_ops_append res_bind_simps(2))
qed

lemma resolve_total:
  assumes v: "valid_selection g d sel" and s: "safe_edit d sel act" and l: "no_empty_links d"
  shows "\<exists>ops d'. resolve g d sel act pending = Inr ops \<and> apply_ops g ops d = Inr d'"
proof -
  have u: "undoable_all g plain ops d \<Longrightarrow> \<exists>d'. apply_ops g ops d = Inr d'" for ops
    using undoable_path by blast
  note del = delete_selection_total [OF v]
  show ?thesis
  proof (cases act)
    case (AInsertText t)
    with s typing_total [OF v] show ?thesis by simp
  next
    case ADeleteBackward
    with del u [OF delete_backward_undoable [OF v]] show ?thesis
      by (cases "is_collapsed sel") (auto simp: resolve_delete_backward_def)
  next
    case ADeleteForward
    with del u [OF delete_forward_undoable [OF v]] show ?thesis
      by (cases "is_collapsed sel") (auto simp: resolve_delete_forward_def)
  next
    case ADeleteSelection
    with del show ?thesis by (auto simp: resolve_delete_selection_def)
  next
    case ASplitBlock
    with s split_total [OF v] show ?thesis by simp
  next
    case (AToggleInlineStyle f)
    have "\<exists>d' m. apply_op g (ToggleInlineStyle s e f) d = Inr (d', m)" if "s < e" for s e
      using toggle_abs_apply [OF that] by blast
    moreover have "sel_start sel < sel_end sel" if "\<not> is_collapsed sel"
      using that by (auto simp: is_collapsed_def sel_start_def sel_end_def min_def max_def)
    ultimately show ?thesis
      using AToggleInlineStyle link_boundaries_nonempty [OF l]
      by (fastforce simp: resolve_toggle_style_def Let_def simp del: apply_op.simps split: option.splits)
  next
    case (ASetBlockType k)
    have "block_index (focus sel) < length (blocks d)"
      using v by (simp add: valid_selection_def valid_position_iff block_count_def)
    from set_type_total [OF this, of g] ASetBlockType show ?thesis
      by (fastforce simp: resolve_set_block_type_def Let_def simp del: apply_op.simps split: option.splits)
  qed
qed

lemma apply_action_total:
  assumes "editor_inv g ed" "safe_edit (ed_document ed) (ed_selection ed) act" "no_empty_links (ed_document ed)"
  shows "\<exists>ed'. apply_action g act ed = Inr ed'"
proof -
  from resolve_total [OF _ assms(2,3), of "pending_style ed"] assms(1) obtain ops d' where
    r: "resolve g (ed_document ed) (ed_selection ed) act (pending_style ed) = Inr ops"
    "apply_ops g ops (ed_document ed) = Inr d'" by (auto simp: editor_inv_def)
  show ?thesis
  proof (cases "ops = []")
    case True
    with r show ?thesis by (simp add: apply_action_def Let_def)
  next
    case False
    from apply_action_ops [OF r(1) False r(2)] show ?thesis by blast
  qed
qed

end

end
