(* ===== verification/RteProperties.thy ===== *)
theory RteProperties
  imports RteSafety
begin

text \<open>
  The properties of the rich text editor, stated over the model's definitions for every
  segmentation, with the concrete documents that witness their hypotheses.
\<close>

unbundle bit_operations_syntax

section \<open>Sample documents\<close>

text \<open>A heading, a paragraph with a bold and a linked run, a rule, an indented list item.\<close>

definition sample_doc :: document where
  "sample_doc = \<lparr>blocks =
     [Heading H1 [run_plain ''Title''],
      Paragraph [run_plain ''ab'', run_styled ''cd'' BOLD, run_linked ''ef'' 0 ''u''],
      HorizontalRule,
      ListItem True 1 [run_plain ''item'']]\<rparr>"

definition sample_editor :: "doc_selection \<Rightarrow> editor_state" where
  "sample_editor sel = (from_document sample_doc)\<lparr>ed_selection := sel\<rparr>"

text \<open>A selection from the heading into the paragraph.\<close>

definition sample_range :: doc_selection where
  "sample_range = sel_range (DocPosition 0 2) (DocPosition 1 3)"


section \<open>Undo and redo\<close>



text \<open>
  C2: undoing everything restores the document. After any editing session (reversible edits at valid
  selections, as many as the undo stack holds, mixed with movements, clicks, copies and undos)
  from a normalized document, undoing once for every entry of the undo stack succeeds and ends at
  exactly the document the session started with.
\<close>

theorem session_undo_restores:
  assumes "plain_segmentation g plain" "session g plain alnum (from_document d0) ed"
    and "norm_doc d0" "plain_doc plain d0"
  shows "\<exists>ed'. undo_times g (undo_len (ed_undo_stack ed)) ed = Inr ed' \<and> ed_document ed' = d0"
  by (rule plain_segmentation.session_restores [OF assms])

text \<open>The session of the witness: click into the paragraph, type, click at the start of the list
  item, and press Backspace.\<close>

definition sample_session1 :: editor_state where
  "sample_session1 = handle_click utf8_segments (DocPosition 1 3) (from_document sample_doc)"

definition sample_session2 :: editor_state where
  "sample_session2 = projr (apply_action utf8_segments (AInsertText ''xy'') sample_session1)"

definition sample_session3 :: editor_state where
  "sample_session3 = handle_click utf8_segments (DocPosition 3 0) sample_session2"

definition sample_session4 :: editor_state where
  "sample_session4 = projr (apply_action utf8_segments ADeleteBackward sample_session3)"

theorem session_undo_restores_witness:
  "undo_len (ed_undo_stack sample_session4) = 2
    \<and> (\<exists>ed'. undo_times utf8_segments (undo_len (ed_undo_stack sample_session4)) sample_session4 = Inr ed'
         \<and> ed_document ed' = sample_doc)"
proof
  let ?S = "session utf8_segments utf8_plain (\<lambda>_. True) (from_document sample_doc)"
  have "?S (from_document sample_doc)" by (rule session_start)
  then have "?S sample_session1"
    by (rule session_quiet [where a = "Click (DocPosition 1 3)"]) (simp_all add: sample_session1_def)
  then have "?S sample_session2"
    by (rule session_edit [where act = "AInsertText ''xy''"]; code_simp)
  then have "?S sample_session3"
    by (rule session_quiet [where a = "Click (DocPosition 3 0)"]) (simp_all add: sample_session3_def)
  then have "?S sample_session4"
    by (rule session_edit [where act = ADeleteBackward]; code_simp)
  then show "\<exists>ed'. undo_times utf8_segments (undo_len (ed_undo_stack sample_session4)) sample_session4 = Inr ed'
      \<and> ed_document ed' = sample_doc"
    by (rule session_undo_restores [OF utf8.plain_segmentation_axioms]; code_simp)
  show "undo_len (ed_undo_stack sample_session4) = 2" by code_simp
qed

text \<open>
  C3: the selection never leaves the document. Whatever action the widget sends, a non-empty
  document stays non-empty and both ends of the selection stay valid positions in it, if the
  action is not one of the two that can leave it (\<open>stays_inside\<close>).
\<close>

theorem perform_keeps_selection_valid:
  assumes "editor_inv g ed" "stays_inside g a ed" "perform g alnum a ed = Inr ed'"
  shows "editor_inv g ed'"
  by (rule perform_inv [OF assms])

theorem perform_keeps_selection_valid_witness:
  "editor_inv utf8_segments (projr (perform utf8_segments (\<lambda>_. True) Cut (sample_editor sample_range)))"
  by (rule perform_keeps_selection_valid [where a = Cut and ed = "sample_editor sample_range" and alnum = "\<lambda>_. True"];
      code_simp)

text \<open>
  C4: edits do not panic. At a valid selection of a document without empty links every edit action
  succeeds, except typing nothing, and typing or Enter over a selection whose deletion starts at an
  atomic block (\<open>safe_edit\<close>).
\<close>

theorem edits_never_panic:
  assumes "plain_segmentation g plain" "editor_inv g ed"
    and "safe_edit (ed_document ed) (ed_selection ed) act" "no_empty_links (ed_document ed)"
  shows "\<exists>ed'. apply_action g act ed = Inr ed'"
  by (rule plain_segmentation.apply_action_total [OF assms])

theorem edits_never_panic_witness:
  "\<exists>ed'. apply_action utf8_segments (AInsertText ''x'') (sample_editor sample_range) = Inr ed'"
  by (rule edits_never_panic [OF utf8.plain_segmentation_axioms]; code_simp)



text \<open>
  Backspace and Delete at a valid caret can always be taken back: the operations they resolve to
  succeed, and their inverses applied to the result give a document with the same styled content,
  whatever the blocks around the caret are.
\<close>

theorem caret_deletion_reversible:
  assumes "plain_segmentation g plain" "valid_selection g d sel" "is_collapsed sel"
    and "act = ADeleteBackward \<or> act = ADeleteForward"
  shows "\<exists>ops d' e. resolve g d sel act pending = Inr ops \<and> apply_ops g ops d = Inr d'
    \<and> undo_ops g (rev ops) d' = Inr e \<and> abs_doc g e = abs_doc g d"
proof -
  obtain ops where ops: "resolve g d sel act pending = Inr ops" "undoable_all g plain ops d"
    using assms plain_segmentation.delete_backward_undoable plain_segmentation.delete_forward_undoable by auto
  then obtain d' where d': "apply_ops g ops d = Inr d'"
    using plain_segmentation.undoable_path [OF assms(1)] by blast
  with plain_segmentation.undo_group [OF assms(1) ops(2) d' refl] ops(1) show ?thesis by blast
qed

theorem caret_deletion_reversible_witness:
  "\<exists>ops d' e. resolve utf8_segments sample_doc (caret (DocPosition 3 0)) ADeleteBackward 0 = Inr ops
    \<and> apply_ops utf8_segments ops sample_doc = Inr d'
    \<and> undo_ops utf8_segments (rev ops) d' = Inr e \<and> abs_doc utf8_segments e = abs_doc utf8_segments sample_doc"
  by (rule caret_deletion_reversible [OF utf8.plain_segmentation_axioms]; code_simp)

end
