(* ===== verification/RteModelProperties.thy ===== *)
theory RteModelProperties
  imports RteUndoable
begin

text \<open>
  The properties of the document model, the operations, normalization and the undo stack.
\<close>

section \<open>Samples\<close>

definition sample_runs :: "styled_run list" where
  "sample_runs = [run_plain ''ab'', run_styled ''cd'' BOLD, run_linked ''ef'' 0 ''u'']"

definition model_doc :: document where
  "model_doc = \<lparr>blocks =
     [Heading H2 [run_plain ''top''], Paragraph sample_runs, HorizontalRule, ListItem False 2 [run_plain ''x'']]\<rparr>"

section \<open>Deletion\<close>



text \<open>
  undoing a deletion. If the deletion of \<open>[s, e)\<close> saved what \<open>build_deleted_content\<close> saves, its
  inverse applied to any document with the content the deletion left gives back the content
  before it, within one block, across blocks and for a whole atomic block (\<open>undoable_delete\<close>).
\<close>

theorem deletion_undone:
  assumes "segmentation g" "s < e" "undoable_delete g d s e"
    and "apply_op g (DeleteRange s e (build_deleted_content g d s e)) d = Inr (d', m)"
    and "abs_doc g x = abs_doc g d'"
  shows "\<exists>x' m'. apply_op g (invert g (DeleteRange s e (build_deleted_content g d s e))) x = Inr (x', m')
    \<and> abs_doc g x' = abs_doc g d"
  using segmentation.back_delete [OF assms(1) _ assms(4,5), of "\<lambda>_. True"] assms(2,3)
  by (simp add: invert_def invert_delete_range_def del: apply_op.simps)

theorem deletion_undone_witness:
  "\<exists>x' m'. apply_op utf8_segments (invert utf8_segments (DeleteRange (DocPosition 1 1) (DocPosition 3 1)
        (build_deleted_content utf8_segments model_doc (DocPosition 1 1) (DocPosition 3 1))))
      (fst (projr (apply_op utf8_segments (DeleteRange (DocPosition 1 1) (DocPosition 3 1)
        (build_deleted_content utf8_segments model_doc (DocPosition 1 1) (DocPosition 3 1))) model_doc))) = Inr (x', m')
    \<and> abs_doc utf8_segments x' = abs_doc utf8_segments model_doc"
  by (rule deletion_undone [where m = "snd (projr (apply_op utf8_segments (DeleteRange (DocPosition 1 1) (DocPosition 3 1)
        (build_deleted_content utf8_segments model_doc (DocPosition 1 1) (DocPosition 3 1))) model_doc))",
        OF utf8.segmentation_axioms _ _ _ refl]; code_simp)

section \<open>Normalization\<close>

text \<open>
  C31: normalization ends in a normal form (at least one block, no empty quote, no empty run next to
  another, no two neighbouring runs with the same formatting), is idempotent, and keeps the text.
\<close>

theorem normalize_correct:
  "norm_doc (normalize d) \<and> normalize (normalize d) = normalize d
    \<and> doc_flattened_text (normalize d) = doc_flattened_text d"
proof (intro conjI)
  show "norm_doc (normalize d)" by (rule normalize_norm)
  then show "normalize (normalize d) = normalize d" by (rule normalize_id)
  have "flattened_text empty_paragraph = []" by (simp add: empty_paragraph_def run_plain_def)
  then have "join_lines (map flattened_text (ensure_block (blocks d))) = doc_flattened_text d"
    by (simp add: ensure_block_def doc_flattened_text_def join_lines_def)
  moreover have "map flattened_text (blocks (normalize d)) = map flattened_text (ensure_block (blocks d))"
    by (simp add: normalize_eq normalize_block_text)
  ultimately show "doc_flattened_text (normalize d) = doc_flattened_text d"
    by (simp add: doc_flattened_text_def)
qed

text \<open>
  normal forms are canonical: two normalized documents with the same styled content, block by
  block, are the same document, so normalizing any document with the content of a normalized one
  gives that one back.
\<close>

theorem normal_form_canonical:
  assumes "plain_segmentation g plain" "norm_doc d" "plain_doc plain e" "abs_doc g e = abs_doc g d"
  shows "normalize e = d"
proof -
  have "blocks e \<noteq> []" using assms(2,4) by (auto simp: norm_doc_def abs_doc_def)
  with assms plain_segmentation.normalize_abs(1) [OF assms(1,3)] have "abs_doc g (normalize e) = abs_doc g d" by simp
  then show ?thesis
    using assms(1,2) normalize_norm by (metis norm_doc_unique plain_segmentation.axioms(1))
qed

theorem normal_form_canonical_witness:
  "normalize \<lparr>blocks = [Paragraph [run_plain ''a'', run_plain [], run_plain ''b'']]\<rparr> =
    \<lparr>blocks = [Paragraph [run_plain ''ab'']]\<rparr>"
  by (rule normal_form_canonical [OF utf8.plain_segmentation_axioms]; code_simp)

text \<open>
  incremental normalization does what it is asked for: on a non-empty document exactly the
  listed blocks are normalized and every other block stays, so the safety counter never stops it.
\<close>

theorem incremental_normalization:
  assumes "blocks d \<noteq> []" "i < length (blocks d)"
  shows "length (blocks (normalize_blocks d dirty)) = length (blocks d)
    \<and> blocks (normalize_blocks d dirty) ! i =
        (if i \<in> set dirty then normalize_block (blocks d ! i) else blocks d ! i)"
  using normalize_blocks_nth [OF assms(1)] assms(2) by blast

theorem incremental_normalization_witness:
  "length (blocks (normalize_blocks model_doc [1, 3])) = length (blocks model_doc)
    \<and> blocks (normalize_blocks model_doc [1, 3]) ! 1 =
        (if 1 \<in> set [1, 3 :: nat] then normalize_block (blocks model_doc ! 1) else blocks model_doc ! 1)"
  by (rule incremental_normalization; code_simp)

section \<open>Insertion, style, blocks\<close>

text \<open>
  inserting text into an inline block inserts its clusters at the offset, all with the
  formatting of one run, whose style is the one \<open>run_style_at\<close> announces, and changes nothing else.
\<close>

theorem insert_text_refines:
  assumes "plain_segmentation g plain" "doc_block d i = Some b" "block_runs b = Some runs" "runs \<noteq> []"
    and "plain t" "plain_runs plain runs"
  shows "\<exists>d' m lk. apply_op g (InsertText (DocPosition i off) t) d = Inr (d', m)
    \<and> abs_doc g d' = splice_at i 1
        [AInline (shape_of b) (take off (runs_content g runs) @
           map (cluster_of (run_style_at g d (DocPosition i off)) lk) (g t) @
           drop off (runs_content g runs))] (abs_doc g d)"
proof -
  have "doc_block d i = Some (mk_inline (shape_of b) runs)" using assms(2) block_runs_SomeD [OF assms(3)] by simp
  moreover have "run_style_at g d (DocPosition i off) = inherited_style g runs off"
    using assms(2,3,4) by (simp add: run_style_at_def inherited_style_def)
  ultimately show ?thesis
    using plain_segmentation.insert_text_abs [OF assms(1) _ assms(4,5,6), of d i "shape_of b" off] by auto
qed

theorem insert_text_refines_witness:
  "\<exists>d' m lk. apply_op utf8_segments (InsertText (DocPosition 1 4) ''new'') model_doc = Inr (d', m)
    \<and> abs_doc utf8_segments d' = splice_at 1 1
        [AInline (shape_of (Paragraph sample_runs)) (take 4 (runs_content utf8_segments sample_runs) @
           map (cluster_of (run_style_at utf8_segments model_doc (DocPosition 1 4)) lk) (utf8_segments ''new'') @
           drop 4 (runs_content utf8_segments sample_runs))] (abs_doc utf8_segments model_doc)"
  by (rule insert_text_refines [OF utf8.plain_segmentation_axioms]; code_simp)

text \<open>
  toggling a style over a range, through any number of blocks: it removes the style from all
  clusters of the range if they all have it, and adds it to all of them otherwise.
\<close>

theorem toggle_refines:
  assumes "segmentation g" "s < e"
  shows "\<exists>d' m. apply_op g (ToggleInlineStyle s e flag) d = Inr (d', m)
    \<and> abs_doc g d' = toggle_abs s e flag (all_have s e flag (abs_doc g d)) (abs_doc g d)"
  by (rule segmentation.toggle_abs_apply [OF assms])

theorem toggle_refines_witness:
  "\<exists>d' m. apply_op utf8_segments (ToggleInlineStyle (DocPosition 0 1) (DocPosition 1 3) BOLD) model_doc = Inr (d', m)
    \<and> abs_doc utf8_segments d' = toggle_abs (DocPosition 0 1) (DocPosition 1 3) BOLD
        (all_have (DocPosition 0 1) (DocPosition 1 3) BOLD (abs_doc utf8_segments model_doc)) (abs_doc utf8_segments model_doc)"
  by (rule toggle_refines [OF utf8.segmentation_axioms]) code_simp

text \<open>
  toggling twice. A style toggle is its own inverse on the styled content when the clusters of
  the range either all have the flag or all lack it.
\<close>

theorem toggle_involutive:
  assumes "segmentation g" "s < e" "flag \<noteq> 0" "uniform_range s e flag (abs_doc g d)"
  shows "\<exists>d1 m1 d2 m2. apply_op g (ToggleInlineStyle s e flag) d = Inr (d1, m1)
    \<and> apply_op g (ToggleInlineStyle s e flag) d1 = Inr (d2, m2) \<and> abs_doc g d2 = abs_doc g d"
proof -
  from segmentation.toggle_abs_apply [OF assms(1,2), of flag d] obtain d1 m1 where
    d1: "apply_op g (ToggleInlineStyle s e flag) d = Inr (d1, m1)"
    "abs_doc g d1 = toggle_abs s e flag (all_have s e flag (abs_doc g d)) (abs_doc g d)" by blast
  from segmentation.toggle_abs_apply [OF assms(1,2), of flag d1] d1 toggle_abs_twice [OF assms(3,4)]
  show ?thesis by (metis (no_types))
qed

definition small_doc :: document where
  "small_doc = \<lparr>blocks = [Paragraph [run_plain ''a'', run_styled ''b'' BOLD]]\<rparr>"

theorem toggle_involutive_witness:
  "\<exists>d1 m1 d2 m2. apply_op utf8_segments (ToggleInlineStyle (DocPosition 0 0) (DocPosition 0 2) ITALIC) small_doc = Inr (d1, m1)
    \<and> apply_op utf8_segments (ToggleInlineStyle (DocPosition 0 0) (DocPosition 0 2) ITALIC) d1 = Inr (d2, m2)
    \<and> abs_doc utf8_segments d2 = abs_doc utf8_segments small_doc"
  by (rule toggle_involutive [OF utf8.segmentation_axioms]; code_simp)

text \<open>
  splitting an inline block and merging the halves gives back its content, and merging two
  inline blocks and restoring the merged one gives back both.
\<close>

theorem split_merge_roundtrip:
  assumes "plain_segmentation g plain" "doc_block d i = Some b" "is_inline_block b"
  shows "\<exists>d1 m1 d2 m2. apply_op g (SplitBlock (DocPosition i off)) d = Inr (d1, m1)
    \<and> apply_op g (invert g (SplitBlock (DocPosition i off))) d1 = Inr (d2, m2)
    \<and> block_count d1 = Suc (block_count d) \<and> abs_doc g d2 = abs_doc g d"
proof -
  have s: "segmentation g" using assms(1) by (rule plain_segmentation.axioms(1))
  obtain c where A: "get (abs_doc g d) i = Some (AInline (shape_of b) c)"
    using assms(2,3) by (auto simp: get_abs_doc is_inline_block_iff dest: abs_block_inline)
  from segmentation.split_abs [OF s A, of off] obtain d1 m1 where
    d1: "apply_op g (SplitBlock (DocPosition i off)) d = Inr (d1, m1)"
    "abs_doc g d1 = splice_at i 1 [AInline (shape_of b) (take off c), AInline (shape_of b) (drop off c)] (abs_doc g d)"
    by blast
  have "length (abs_doc g d1) = Suc (length (abs_doc g d))"
    unfolding d1(2) using get_Some_less [OF A] by (simp add: length_splice)
  moreover have "undoable g plain (SplitBlock (DocPosition i off)) d" using assms(2,3) by simp
  from segmentation.back_split [OF s this d1(1) refl] have
    "\<exists>d2 m2. apply_op g (invert g (SplitBlock (DocPosition i off))) d1 = Inr (d2, m2) \<and> abs_doc g d2 = abs_doc g d"
    by (simp add: invert_def del: apply_op.simps)
  ultimately show ?thesis using d1(1) by auto
qed

theorem split_merge_roundtrip_witness:
  "\<exists>d1 m1 d2 m2. apply_op utf8_segments (SplitBlock (DocPosition 0 1)) small_doc = Inr (d1, m1)
    \<and> apply_op utf8_segments (invert utf8_segments (SplitBlock (DocPosition 0 1))) d1 = Inr (d2, m2)
    \<and> block_count d1 = Suc (block_count small_doc) \<and> abs_doc utf8_segments d2 = abs_doc utf8_segments small_doc"
  by (rule split_merge_roundtrip [where b = "Paragraph [run_plain ''a'', run_styled ''b'' BOLD]",
        OF utf8.plain_segmentation_axioms]; code_simp)

text \<open>
  Isolating a range of a run list cuts it into three parts without changing the content: the
  runs before the first returned index hold the content before the range, the runs between the
  indices the content of the range, the runs from the second index on the rest.
\<close>

theorem isolate_runs_correct:
  assumes "segmentation g" "s < e" "runs \<noteq> []"
  shows "\<exists>rs si ei. isolate_runs g runs s e = Inr (rs, si, ei) \<and> si \<le> ei \<and> ei \<le> length rs
    \<and> runs_content g (take si rs) = take s (runs_content g runs)
    \<and> runs_content g (drop si (take ei rs)) = drop s (take e (runs_content g runs))
    \<and> runs_content g (drop ei rs) = drop e (runs_content g runs)"
proof -
  from assms(2) obtain rs si ei where i: "isolate_runs g runs s e = Inr (rs, si, ei)"
    using segmentation.isolate_runs_total [OF assms(1), of s e runs] by auto
  from segmentation.isolate_runs_content [OF assms(1) i assms(2,3)] i show ?thesis by blast
qed

theorem isolate_runs_correct_witness:
  "\<exists>rs si ei. isolate_runs utf8_segments sample_runs 1 3 = Inr (rs, si, ei) \<and> si \<le> ei \<and> ei \<le> length rs
    \<and> runs_content utf8_segments (take si rs) = take 1 (runs_content utf8_segments sample_runs)
    \<and> runs_content utf8_segments (drop si (take ei rs)) = drop 1 (take 3 (runs_content utf8_segments sample_runs))
    \<and> runs_content utf8_segments (drop ei rs) = drop 3 (runs_content utf8_segments sample_runs)"
  by (rule isolate_runs_correct [OF utf8.segmentation_axioms]; code_simp)

text \<open>
  The three copies of the extraction loop (in the document, the operations and the rules) are
  the same function, and what it extracts is exactly the content of the range.
\<close>

theorem extraction_correct:
  assumes "segmentation g"
  shows "extract_runs_from_range g runs s e = extract_runs g runs s e
    \<and> extract_deleted_runs g runs s e = extract_runs g runs s e
    \<and> runs_content g (extract_runs g runs s e) = drop s (take e (runs_content g runs))"
  using segmentation.extract_runs_content [OF assms]
  by (simp add: extract_runs_from_range_eq extract_deleted_runs_eq)

theorem extraction_correct_witness:
  "extract_runs_from_range utf8_segments sample_runs 1 5 = extract_runs utf8_segments sample_runs 1 5
    \<and> extract_deleted_runs utf8_segments sample_runs 1 5 = extract_runs utf8_segments sample_runs 1 5
    \<and> runs_content utf8_segments (extract_runs utf8_segments sample_runs 1 5) =
        drop 1 (take 5 (runs_content utf8_segments sample_runs))"
  by (rule extraction_correct [OF utf8.segmentation_axioms])

section \<open>Positions\<close>

text \<open>
  Clamping a position gives a valid one in any non-empty document, and moves exactly the positions that are not.
\<close>

theorem clamp_correct:
  assumes "blocks d \<noteq> []"
  shows "is_valid_position g d (clamp_position g d p)
    \<and> (clamp_position g d p = p \<longleftrightarrow> is_valid_position g d p)"
  using assms
  by (cases p) (auto simp: is_valid_position_def clamp_position_def Let_def doc_block_def get_def
      min_def neq_Nil_conv split: option.splits if_splits)

theorem clamp_correct_witness:
  "is_valid_position utf8_segments small_doc (clamp_position utf8_segments small_doc (DocPosition 7 7))
    \<and> (clamp_position utf8_segments small_doc (DocPosition 7 7) = DocPosition 7 7 \<longleftrightarrow>
         is_valid_position utf8_segments small_doc (DocPosition 7 7))"
  by (rule clamp_correct) code_simp

text \<open>
  Position maps follow the content: mapping a position through a split inside a block and then
  through the merge of the two halves leads back to it.
\<close>

theorem split_merge_positions:
  assumes "segmentation g" "doc_block d i = Some b" "is_inline_block b" "off \<le> block_char_len g b"
    and "apply_op g (SplitBlock (DocPosition i off)) d = Inr (d1, m1)"
    and "apply_op g (MergeBlocks (i + 1) sv mo) d1 = Inr (d2, m2)"
  shows "pos_map_map m2 (pos_map_map m1 p) = p"
proof -
  from assms(3) obtain runs where r: "block_runs b = Some runs" by (auto simp: is_inline_block_iff)
  have b: "b = mk_inline (shape_of b) runs" by (rule block_runs_SomeD [OF r])
  have i: "i < length (blocks d)" using assms(2) by (simp add: doc_block_def get_Some_iff)
  obtain l rr where lr: "split_runs_at_offset g runs off = (l, rr)" by fastforce
  note c = segmentation.split_runs_at_offset_content [OF assms(1) lr]
  let ?bs = "insert_at (Suc i) (mk_inline (shape_of b) rr) ((blocks d)[i := mk_inline (shape_of b) l])"
  have sb: "split_block_at g b off = (mk_inline (shape_of b) l, mk_inline (shape_of b) rr)"
    using lr by (subst b) simp
  have d1: "blocks d1 = ?bs"
    and m1: "m1 = \<lparr>pm_block_index = i, pm_entries = [], pm_structural = Some (Split i off)\<rparr>"
    using assms(2,5) sb i by (auto simp: apply_split_block_def vec_insert_def)
  have "doc_block d1 i = Some (mk_inline (shape_of b) l)"
    using i get_insert_at_less [of i "Suc i" "(blocks d)[i := mk_inline (shape_of b) l]" "mk_inline (shape_of b) rr"]
    by (simp add: doc_block_def d1)
  moreover have "length (runs_content g l) = off"
    using c assms(4) r by (simp add: block_char_len_runs)
  ultimately have m2: "m2 = \<lparr>pm_block_index = i, pm_entries = [\<lparr>old_offset = off, old_len = 0, new_len = 0\<rparr>],
      pm_structural = Some (Merge (Suc i) off)\<rparr>"
    using assms(6) by (auto simp: apply_merge_blocks_def)
  show ?thesis
    by (cases p) (auto simp: m1 m2 pos_map_map_def map_entries_def)
qed

theorem split_merge_positions_witness:
  "pos_map_map (snd (projr (apply_op utf8_segments (MergeBlocks 1 empty_paragraph 1)
      (fst (projr (apply_op utf8_segments (SplitBlock (DocPosition 0 1)) small_doc))))))
    (pos_map_map (snd (projr (apply_op utf8_segments (SplitBlock (DocPosition 0 1)) small_doc))) (DocPosition 0 2)) =
    DocPosition 0 2"
  by (rule split_merge_positions [where i = 0 and off = 1 and d = small_doc and sv = empty_paragraph and mo = 1
        and b = "Paragraph [run_plain ''a'', run_styled ''b'' BOLD]"
        and ?d1.0 = "fst (projr (apply_op utf8_segments (SplitBlock (DocPosition 0 1)) small_doc))"
        and ?d2.0 = "fst (projr (apply_op utf8_segments (MergeBlocks 1 empty_paragraph 1)
          (fst (projr (apply_op utf8_segments (SplitBlock (DocPosition 0 1)) small_doc)))))",
        OF utf8.segmentation_axioms]; code_simp)

section \<open>The undo stack\<close>

text \<open>
  a bounded history. Whatever sequence of pushes, undos, redos, group breaks, cursor remappings
  and clears a client performs on a fresh stack with limit \<open>n\<close>, the undo and redo entries together
  never exceed \<open>n\<close> and no group is ever empty.
\<close>

theorem undo_stack_bounded:
  assumes "stack_states g n st"
  shows "undo_len st + redo_len st \<le> n
    \<and> (\<forall>gr \<in> set (us_undo st) \<union> set (us_redo st). grp_ops gr \<noteq> [])"
  using stack_states_inv [OF assms] by (auto simp: stack_inv_def undo_len_def redo_len_def)

theorem undo_stack_bounded_witness:
  "undo_len (push utf8_segments (break_group (undo_stack_new 1)) [SplitBlock (DocPosition 0 0)]
       (caret (DocPosition 0 0)) (caret (DocPosition 1 0))) +
   redo_len (push utf8_segments (break_group (undo_stack_new 1)) [SplitBlock (DocPosition 0 0)]
       (caret (DocPosition 0 0)) (caret (DocPosition 1 0))) \<le> 1"
  using undo_stack_bounded [OF stack_states.step [OF stack_states.step [OF stack_states.initial step_break] step_push],
      of utf8_segments 1 "[SplitBlock (DocPosition 0 0)]" "caret (DocPosition 0 0)" "caret (DocPosition 1 0)"]
  by (rule conjunct1)

text \<open>
  undo and redo walk one line. Undoing \<open>k\<close> times, for any \<open>k\<close> up to the number of undo entries,
  succeeds; redoing \<open>k\<close> times then succeeds, returns the same groups in the opposite order and
  leaves both stacks as they were.
\<close>

theorem undo_redo_stack_roundtrip:
  assumes "k \<le> undo_len st"
  shows "\<exists>grs st1 st2. stack.back_n k st = Some (grs, st1) \<and> stack.forward_n k st1 = Some (rev grs, st2)
    \<and> us_undo st2 = us_undo st \<and> us_redo st2 = us_redo st"
  using stack.back_forward assms by (simp add: undo_len_def)

definition sample_stack :: undo_stack where
  "sample_stack = push utf8_segments (push utf8_segments undo_stack_default
       [InsertText (DocPosition 0 0) ''ab''] (caret (DocPosition 0 0)) (caret (DocPosition 0 2)))
     [SplitBlock (DocPosition 0 1)] (caret (DocPosition 0 1)) (caret (DocPosition 1 0))"

theorem undo_redo_stack_roundtrip_witness:
  "\<exists>grs st1 st2. stack.back_n 2 sample_stack = Some (grs, st1) \<and> stack.forward_n 2 st1 = Some (rev grs, st2)
    \<and> us_undo st2 = us_undo sample_stack \<and> us_redo st2 = us_redo sample_stack"
  by (rule undo_redo_stack_roundtrip) code_simp

text \<open>
  pushing loses no operation but whole old groups: the operations on the undo stack after a push
  are those before it followed by the pushed ones, less at most the oldest group, which goes only
  when the stack was full; whether the push opened a group or extended the last one does not show.
\<close>

theorem push_keeps_history:
  assumes "0 < max_entries st" "undo_len st \<le> max_entries st"
  shows "\<exists>k \<le> 1. history_ops (push g st ops b a) = concat (map grp_ops (drop k (us_undo st))) @ ops
    \<and> (k = 0 \<or> undo_len st = max_entries st)"
  using push_history [of st g ops b a] assms by (auto simp: undo_len_def)

theorem push_keeps_history_witness:
  "\<exists>k \<le> 1. history_ops (push utf8_segments sample_stack [InsertText (DocPosition 1 0) ''z'']
        (caret (DocPosition 1 0)) (caret (DocPosition 1 1))) =
      concat (map grp_ops (drop k (us_undo sample_stack))) @ [InsertText (DocPosition 1 0) ''z'']
    \<and> (k = 0 \<or> undo_len sample_stack = max_entries sample_stack)"
  by (rule push_keeps_history; code_simp)

end
