(* ===== verification/RteEdgeCases.thy ===== *)
theory RteEdgeCases
  imports RteEditor RteUndoable
begin

text \<open>
  Inputs on which the editor does something else than its comments promise, evaluated on the model.
\<close>

section \<open>A panic\<close>

definition trailing_rule :: document where
  "trailing_rule = \<lparr>blocks = [Paragraph [run_plain ''x''], HorizontalRule]\<rparr>"

text \<open>
  typing over a selection that covers an atomic block at the end of the document panics: the
  deletion removes the block, and the insertion that follows still names its index.
\<close>

theorem typing_over_trailing_rule_panics:
  "apply_action utf8_segments (AInsertText ''a'')
     ((from_document trailing_rule)\<lparr>ed_selection := sel_range (DocPosition 1 0) (DocPosition 1 1)\<rparr>)
   = Inl (Panic ''InsertText: block_index out of bounds'')"
  by code_simp

section \<open>Normalization that is not asked for\<close>

definition two_paragraphs :: document where
  "two_paragraphs = \<lparr>blocks =
     [Paragraph [run_plain ''a''], Paragraph [run_plain ''b'', run_styled ''c'' BOLD]]\<rparr>"

text \<open>
  a style toggle over several blocks reports only the first of them to the incremental
  normalization, so the others are left with neighbouring runs of the same formatting.
\<close>

theorem multi_block_toggle_not_normalized:
  "norm_doc two_paragraphs
    \<and> (case apply_action utf8_segments (AToggleInlineStyle BOLD)
         ((from_document two_paragraphs)\<lparr>ed_selection := sel_range (DocPosition 0 0) (DocPosition 1 2)\<rparr>) of
        Inr ed \<Rightarrow> \<not> norm_doc (ed_document ed)
          \<and> ed_document ed = \<lparr>blocks = [Paragraph [run_styled ''a'' BOLD],
               Paragraph [run_styled ''b'' BOLD, run_styled ''c'' BOLD]]\<rparr>
      | Inl err \<Rightarrow> False)"
  by code_simp

section \<open>Undo that does not restore\<close>

text \<open>
  toggling a style on a selection that only partly has it and undoing removes the style from the
  whole selection, because the inverse of a toggle is the toggle itself.
\<close>

theorem mixed_toggle_undo_differs:
  "(case apply_action utf8_segments (AToggleInlineStyle BOLD)
      ((from_document two_paragraphs)\<lparr>ed_selection := sel_range (DocPosition 1 0) (DocPosition 1 2)\<rparr>) of
     Inr ed \<Rightarrow> (case editor_undo utf8_segments ed of
         Inr ed' \<Rightarrow> ed_document ed' = \<lparr>blocks = [Paragraph [run_plain ''a''], Paragraph [run_plain ''bc'']]\<rparr>
       | Inl err \<Rightarrow> False)
   | Inl err \<Rightarrow> False)"
  by code_simp

definition quoted :: document where
  "quoted = \<lparr>blocks = [BlockQuote [Paragraph [run_plain ''q'']]]\<rparr>"

text \<open>
  Pressing Enter on a block quote and undoing it does not bring the quote back.
\<close>

theorem enter_on_quote_undo_loses_quote:
  "(case apply_action utf8_segments ASplitBlock (from_document quoted) of
     Inr ed \<Rightarrow> (case editor_undo utf8_segments ed of
         Inr ed' \<Rightarrow> ed_document ed' \<noteq> quoted \<and> doc_flattened_text (ed_document ed') \<noteq> ''q''
       | Inl err \<Rightarrow> False)
   | Inl err \<Rightarrow> False)"
  by code_simp

section \<open>A caret outside its block\<close>

text \<open>
  Moving right by a word on an atomic block with text leaves the caret behind the end of the
  block, a position the document does not have.
\<close>

theorem word_right_leaves_atomic_block:
  "is_valid_position utf8_segments \<lparr>blocks = [BlockQuote [Paragraph [run_plain ''quoted'']]]\<rparr> (DocPosition 0 0)
    \<and> \<not> is_valid_position utf8_segments \<lparr>blocks = [BlockQuote [Paragraph [run_plain ''quoted'']]]\<rparr>
        (word_right utf8_segments (\<lambda>_. True) \<lparr>blocks = [BlockQuote [Paragraph [run_plain ''quoted'']]]\<rparr> (DocPosition 0 0))"
  by code_simp

end
