(* ===== verification/SyncThreading.thy ===== *)
theory SyncThreading
  imports RustStr "HOL-Library.Multiset"
begin

text \<open>
  Conversation threading (\<^verbatim>\<open>crates/sync/src/threading.rs\<close>): subject and reference parsing, the
  thread identifier, the arena of containers with parent and child links, the JWZ algorithm and
  the incremental update. Indices into the arena are those \<open>get_or_create\<close> returned, so every
  vector access is in range (\<open>arena_inv\<close> in \<open>SyncForest\<close>); the hash tables are maps.
\<close>

section \<open>Data\<close>

text \<open>The dates are \<^verbatim>\<open>i64\<close> values that are only compared.\<close>

record threadable_message =
  tm_id :: string
  tm_message_id :: string
  in_reply_to :: "string option"
  references :: "string option"
  tm_subject :: "string option"
  tm_date :: int

record thread_group =
  thread_id :: string
  message_ids :: "string list"

record container =
  c_message_id :: string
  c_message :: "threadable_message option"
  c_parent :: "nat option"
  c_children :: "nat list"

record arena =
  containers :: "container list"
  id_table :: "string \<Rightarrow> nat option"

definition arena_new :: arena where
  "arena_new = \<lparr>containers = [], id_table = Map.empty\<rparr>"

section \<open>The arena\<close>

definition get_or_create :: "string \<Rightarrow> arena \<Rightarrow> nat \<times> arena" where
  "get_or_create mid a =
     (case id_table a mid of
        Some idx \<Rightarrow> (idx, a)
      | None \<Rightarrow>
          let idx = length (containers a)
          in (idx, \<lparr>containers = containers a @
                      [\<lparr>c_message_id = mid, c_message = None, c_parent = None, c_children = []\<rparr>],
                    id_table = (id_table a)(mid \<mapsto> idx)\<rparr>))"

definition MAX_DEPTH :: nat where "MAX_DEPTH = 100"

function ancestor_walk :: "arena \<Rightarrow> nat \<Rightarrow> nat \<Rightarrow> nat option \<Rightarrow> bool" where
  "ancestor_walk a anc depth current =
     (case current of
        None \<Rightarrow> False
      | Some c \<Rightarrow>
          if c = anc then True
          else if Suc depth \<ge> MAX_DEPTH then False
          else ancestor_walk a anc (Suc depth) (c_parent (containers a ! c)))"
  by pat_completeness auto
termination
  by (relation "measure (\<lambda>(a, anc, depth, current). MAX_DEPTH - depth)") auto

declare ancestor_walk.simps [simp del]

definition is_ancestor :: "arena \<Rightarrow> nat \<Rightarrow> nat \<Rightarrow> bool" where
  "is_ancestor a idx anc = ancestor_walk a anc 0 (Some idx)"

definition set_container :: "nat \<Rightarrow> (container \<Rightarrow> container) \<Rightarrow> arena \<Rightarrow> arena" where
  "set_container i f a = a\<lparr>containers := (containers a)[i := f (containers a ! i)]\<rparr>"

definition set_message :: "threadable_message \<Rightarrow> container \<Rightarrow> container" where
  "set_message m c = c\<lparr>c_message := Some m\<rparr>"

definition unlink_from_parent :: "nat \<Rightarrow> arena \<Rightarrow> arena" where
  "unlink_from_parent child a =
     (case c_parent (containers a ! child) of
        None \<Rightarrow> a
      | Some p \<Rightarrow>
          set_container child (\<lambda>c. c\<lparr>c_parent := None\<rparr>)
            (set_container p (\<lambda>c. c\<lparr>c_children := filter (\<lambda>x. x \<noteq> child) (c_children c)\<rparr>) a))"

definition link_parent_child :: "nat \<Rightarrow> nat \<Rightarrow> arena \<Rightarrow> arena" where
  "link_parent_child parent child a =
     (if is_ancestor a parent child then a
      else if c_parent (containers a ! child) = Some parent then a
      else
        set_container parent (\<lambda>c. c\<lparr>c_children := c_children c @ [child]\<rparr>)
          (set_container child (\<lambda>c. c\<lparr>c_parent := Some parent\<rparr>)
            (unlink_from_parent child a)))"

section \<open>Subjects\<close>

text \<open>A subject that starts with a closed bracketed tag, without it.\<close>

definition strip_tag :: "string \<Rightarrow> string option" where
  "strip_tag s =
     (case s of
        CHR ''['' # _ \<Rightarrow>
          if CHR '']'' \<in> set s then Some (trim_start (tl (dropWhile (\<lambda>c. c \<noteq> CHR '']'') s))) else None
      | _ \<Rightarrow> None)"

text \<open>The prefix test on the lower-cased subject: no character outside ASCII lower-cases to a letter
  of the three prefixes, so it reads the same bytes of the subject itself.\<close>

definition starts_with_lower :: "string \<Rightarrow> string \<Rightarrow> bool" where
  "starts_with_lower prefix s \<longleftrightarrow> map ascii_lower_char (take (length prefix) s) = prefix"

definition reply_prefixes :: "string list" where
  "reply_prefixes = [''re:'', ''fwd:'', ''fw:'']"

definition strip_reply :: "string \<Rightarrow> string option" where
  "strip_reply s =
     map_option (\<lambda>prefix. trim_start (drop (length prefix) s))
       (find (\<lambda>prefix. starts_with_lower prefix s) reply_prefixes)"

lemma strip_tag_length: "strip_tag s = Some r \<Longrightarrow> length r < length s"
proof -
  assume a: "strip_tag s = Some r"
  then have r: "r = trim_start (tl (dropWhile (\<lambda>c. c \<noteq> CHR '']'') s))" and "s \<noteq> []"
    by (auto simp: strip_tag_def split: list.splits if_splits char.splits bool.splits)
  have "length r \<le> length (tl (dropWhile (\<lambda>c. c \<noteq> CHR '']'') s))" unfolding r by (rule length_trim_start)
  also have "\<dots> < length s"
    using \<open>s \<noteq> []\<close> length_dropWhile_le [of "\<lambda>c. c \<noteq> CHR '']''" s] by (cases s) auto
  finally show ?thesis .
qed

lemma strip_reply_length: "strip_reply s = Some r \<Longrightarrow> length r < length s"
proof -
  assume a: "strip_reply s = Some r"
  then obtain p where p: "p \<in> set reply_prefixes" "starts_with_lower p s" "r = trim_start (drop (length p) s)"
    unfolding strip_reply_def by (auto simp: find_Some_iff intro: nth_mem)
  then have "0 < length p" "length p \<le> length s"
    unfolding starts_with_lower_def reply_prefixes_def by (auto dest: arg_cong [of _ _ length])
  moreover have "length r \<le> length s - length p"
    using p(3) length_trim_start [of "drop (length p) s"] by simp
  ultimately show ?thesis by linarith
qed

function strip_loop :: "string \<Rightarrow> string" where
  "strip_loop s =
     (let (s1, tagged) = (case strip_tag s of None \<Rightarrow> (s, False) | Some r \<Rightarrow> (r, True));
          (s2, replied) = (case strip_reply s1 of None \<Rightarrow> (s1, False) | Some r \<Rightarrow> (r, True))
      in if tagged \<or> replied then strip_loop s2 else s2)"
  by pat_completeness auto
termination
  by (relation "measure length")
    (auto split: option.splits dest!: strip_tag_length strip_reply_length)

declare strip_loop.simps [simp del]

definition normalize_subject :: "string option \<Rightarrow> string" where
  "normalize_subject subject =
     (case subject of None \<Rightarrow> [] | Some s \<Rightarrow> trim (strip_loop (trim s)))"

section \<open>References\<close>

text \<open>The scan for identifiers in angle brackets, over the characters.\<close>

fun bracket_ids :: "bool \<Rightarrow> string \<Rightarrow> string list \<Rightarrow> string list" where
  "bracket_ids in_bracket current [] = []"
| "bracket_ids in_bracket current (ch # rest) =
     (if ch = ''<'' then bracket_ids True [] rest
      else if ch = ''>'' \<and> in_bracket then
        (let trimmed = trim current
         in if trimmed \<noteq> [] then trimmed # bracket_ids False current rest
            else bracket_ids False current rest)
      else if in_bracket then bracket_ids True (current @ ch) rest
      else bracket_ids in_bracket current rest)"

definition clean_token :: "string list \<Rightarrow> string" where
  "clean_token token =
     trim (concat (rev (dropWhile (\<lambda>c. c = ''>'') (rev (dropWhile (\<lambda>c. c = ''<'') token)))))"

definition parse_references :: "string option \<Rightarrow> string list" where
  "parse_references header =
     (case header of
        None \<Rightarrow> []
      | Some r \<Rightarrow>
          let refs = trim r
          in if refs = [] then []
             else
               let ids = bracket_ids False [] (utf8_chars refs)
               in if ids = []
                  then filter (\<lambda>t. t \<noteq> []) (map clean_token (white_tokens (utf8_chars refs)))
                  else ids)"

section \<open>Thread identifiers\<close>

definition djb2_step :: "32 word \<Rightarrow> char \<Rightarrow> 32 word" where
  "djb2_step hash byte = hash * 33 + of_char byte"

definition djb2 :: "string \<Rightarrow> 32 word" where
  "djb2 s = foldl djb2_step 5381 s"

definition hex_digits :: string where
  "hex_digits = ''0123456789abcdef''"

text \<open>\<^verbatim>\<open>format!("{:x}")\<close>: hexadecimal without leading zeros.\<close>

function hex_int :: "int \<Rightarrow> string" where
  "hex_int n =
     (if n < 16 then [hex_digits ! nat n] else hex_int (n div 16) @ [hex_digits ! nat (n mod 16)])"
  by pat_completeness auto
termination
  by (relation "measure nat") auto

declare hex_int.simps [simp del]

definition djb2_hash :: "string \<Rightarrow> string" where
  "djb2_hash s = hex_int (uint (djb2 s))"

definition generate_thread_id :: "string \<Rightarrow> string" where
  "generate_thread_id root_message_id = ''imap-thread-'' @ djb2_hash root_message_id"

section \<open>Building threads\<close>

text \<open>Steps 1 and 2: the reference chain of a message, and the links it adds.\<close>

definition add_missing :: "string list \<Rightarrow> string list \<Rightarrow> string list" where
  "add_missing xs ys = foldl (\<lambda>acc y. if y \<in> set acc then acc else acc @ [y]) xs ys"

definition reference_chain :: "threadable_message \<Rightarrow> string list" where
  "reference_chain msg =
     (let ref_ids = parse_references (references msg)
      in case in_reply_to msg of
           None \<Rightarrow> ref_ids
         | Some irt \<Rightarrow> add_missing ref_ids (parse_references (Some irt)))"

fun link_chain :: "string list \<Rightarrow> nat option \<Rightarrow> arena \<Rightarrow> nat option \<times> arena" where
  "link_chain [] prev a = (prev, a)"
| "link_chain (ref_id # rest) prev a =
     (let (ref_idx, a1) = get_or_create ref_id a;
          a2 = (case prev of
                  None \<Rightarrow> a1
                | Some p \<Rightarrow>
                    if c_parent (containers a1 ! ref_idx) = None then link_parent_child p ref_idx a1 else a1)
      in link_chain rest (Some ref_idx) a2)"

definition add_message :: "threadable_message \<Rightarrow> arena \<Rightarrow> arena" where
  "add_message msg a =
     (let (container_idx, a1) = get_or_create (tm_message_id msg) a;
          a2 = set_container container_idx (set_message msg) a1;
          (prev_idx, a3) = link_chain (reference_chain msg) None a2
      in case prev_idx of
           None \<Rightarrow> a3
         | Some prev \<Rightarrow> if prev \<noteq> container_idx then link_parent_child prev container_idx a3 else a3)"

definition link_messages :: "threadable_message list \<Rightarrow> arena" where
  "link_messages messages = foldl (\<lambda>a msg. add_message msg a) arena_new messages"

definition root_set :: "arena \<Rightarrow> nat list" where
  "root_set a = filter (\<lambda>i. c_parent (containers a ! i) = None) [0..<length (containers a)]"

text \<open>
  The subject of a container: its own or the first found below it. The recursion follows the
  children without marking, so it is bounded by fuel; \<^const>\<open>None\<close> means the fuel is used up, which
  \<open>subject_of_enough\<close> excludes for the calls the algorithm makes.
\<close>

fun get_subject_for_container :: "nat \<Rightarrow> arena \<Rightarrow> nat \<Rightarrow> string option option"
  and first_child_subject :: "nat \<Rightarrow> arena \<Rightarrow> nat list \<Rightarrow> string option option" where
  "get_subject_for_container 0 a idx = None"
| "get_subject_for_container (Suc fuel) a idx =
     (case Option.bind (c_message (containers a ! idx)) tm_subject of
        Some subject \<Rightarrow> Some (Some subject)
      | None \<Rightarrow> first_child_subject fuel a (c_children (containers a ! idx)))"
| "first_child_subject fuel a [] = Some None"
| "first_child_subject fuel a (child # rest) =
     (case get_subject_for_container fuel a child of
        None \<Rightarrow> None
      | Some (Some s) \<Rightarrow> Some (Some s)
      | Some None \<Rightarrow> first_child_subject fuel a rest)"

text \<open>Step 4: one root is merged with the root that has its subject, if there is one.\<close>

definition container_date :: "arena \<Rightarrow> nat \<Rightarrow> int" where
  "container_date a i = (case c_message (containers a ! i) of None \<Rightarrow> 0 | Some m \<Rightarrow> tm_date m)"

definition merge_root :: "nat \<Rightarrow> arena \<times> (string \<Rightarrow> nat option) \<Rightarrow> (arena \<times> (string \<Rightarrow> nat option)) option" where
  "merge_root root_idx state =
     (let (a, subject_map) = state
      in case get_subject_for_container (Suc (length (containers a))) a root_idx of
           None \<Rightarrow> None
         | Some subject \<Rightarrow>
             let normalized = normalize_subject subject
             in if normalized = [] then Some (a, subject_map)
                else case subject_map normalized of
                       None \<Rightarrow> Some (a, subject_map(normalized \<mapsto> root_idx))
                     | Some existing_idx \<Rightarrow>
                         let existing_has_msg = c_message (containers a ! existing_idx) \<noteq> None;
                             root_has_msg = c_message (containers a ! root_idx) \<noteq> None
                         in if \<not> existing_has_msg \<and> root_has_msg
                            then Some (link_parent_child existing_idx root_idx a, subject_map)
                            else if root_has_msg = False \<and> existing_has_msg
                            then Some (link_parent_child root_idx existing_idx a, subject_map(normalized \<mapsto> root_idx))
                            else if container_date a existing_idx \<le> container_date a root_idx
                            then Some (link_parent_child existing_idx root_idx a, subject_map)
                            else Some (link_parent_child root_idx existing_idx a, subject_map(normalized \<mapsto> root_idx)))"

fun merge_roots :: "nat list \<Rightarrow> arena \<times> (string \<Rightarrow> nat option) \<Rightarrow> (arena \<times> (string \<Rightarrow> nat option)) option" where
  "merge_roots [] state = Some state"
| "merge_roots (r # rs) state = Option.bind (merge_root r state) (merge_roots rs)"

text \<open>Step 5. An index outside \<open>visited\<close> would be a panic; the arena has none.\<close>

definition unvisited :: "bool list \<Rightarrow> nat" where
  "unvisited visited = length (filter Not visited)"

lemma unvisited_mark: "i < length v \<Longrightarrow> \<not> v ! i \<Longrightarrow> unvisited (v[i := True]) < unvisited v"
proof (induction v arbitrary: i)
  case Nil
  then show ?case by simp
next
  case (Cons b v)
  then show ?case by (cases i) (auto simp: unvisited_def)
qed

function (sequential) collect_messages ::
    "arena \<Rightarrow> nat \<Rightarrow> threadable_message list \<times> bool list \<Rightarrow> threadable_message list \<times> bool list"
  and collect_children ::
    "arena \<Rightarrow> nat list \<Rightarrow> threadable_message list \<times> bool list \<Rightarrow> threadable_message list \<times> bool list" where
  "collect_messages a idx (result, visited) =
     (if idx \<ge> length visited \<or> visited ! idx then (result, visited)
      else
        collect_children a (c_children (containers a ! idx))
          (case c_message (containers a ! idx) of None \<Rightarrow> result | Some msg \<Rightarrow> result @ [msg],
           visited[idx := True]))"
| "collect_children a [] st = st"
| "collect_children a (child # rest) st = collect_children a rest (collect_messages a child st)"
  by pat_completeness auto

termination
proof -
  have le: "collect_messages_collect_children_dom (Inl (a, idx, st)) \<Longrightarrow>
      unvisited (snd (collect_messages a idx st)) \<le> unvisited (snd st)"
    "collect_messages_collect_children_dom (Inr (a', cs, st')) \<Longrightarrow>
      unvisited (snd (collect_children a' cs st')) \<le> unvisited (snd st')" for a idx st a' cs st'
  proof (induction a idx st and a' cs st' rule: collect_messages_collect_children.pinduct)
    case (1 a idx result visited)
    then show ?case
      using unvisited_mark [of idx visited] by (auto simp: collect_messages.psimps)
  next
    case (2 a st)
    then show ?case by (simp add: collect_children.psimps)
  next
    case (3 a child rest st)
    then show ?case by (auto simp: collect_children.psimps)
  qed
  show ?thesis
  proof (relation "measures [case_sum (\<lambda>(a, idx, st). unvisited (snd st)) (\<lambda>(a, cs, st). unvisited (snd st)),
      case_sum (\<lambda>_. 0) (\<lambda>(a, cs, st). Suc (length cs))]", goal_cases)
    case 1
    then show ?case by simp
  next
    case (2 a idx result visited)
    then show ?case using unvisited_mark [of idx visited] by auto
  next
    case (3 a child rest st)
    then show ?case by simp
  next
    case (4 a child rest st)
    then show ?case using le(1) [OF 4] by auto
  qed
qed

definition thread_of :: "arena \<Rightarrow> nat \<Rightarrow> threadable_message list \<Rightarrow> thread_group" where
  "thread_of a root_idx msgs =
     \<lparr>thread_id = generate_thread_id (c_message_id (containers a ! root_idx)),
      message_ids = map tm_id (sort_key tm_date msgs)\<rparr>"

fun collect_groups :: "arena \<Rightarrow> nat list \<Rightarrow> bool list \<Rightarrow> thread_group list" where
  "collect_groups a [] visited = []"
| "collect_groups a (root_idx # rest) visited =
     (let (msgs, visited') = collect_messages a root_idx ([], visited)
      in if msgs = [] then collect_groups a rest visited'
         else thread_of a root_idx msgs # collect_groups a rest visited')"

definition build_threads :: "threadable_message list \<Rightarrow> thread_group list option" where
  "build_threads messages =
     (if messages = [] then Some []
      else
        let a = link_messages messages
        in map_option
             (\<lambda>(a', _). collect_groups a' (root_set a') (replicate (length (containers a')) False))
             (merge_roots (root_set a) (a, Map.empty)))"

section \<open>The incremental update\<close>

definition merge_into :: "string list \<Rightarrow> thread_group \<Rightarrow> string \<Rightarrow> thread_group" where
  "merge_into existing_msg_ids new_thread tid =
     \<lparr>thread_id = tid, message_ids = add_missing existing_msg_ids (message_ids new_thread)\<rparr>"

definition thread_table :: "thread_group list \<Rightarrow> string \<Rightarrow> string list option" where
  "thread_table existing = foldl (\<lambda>m t. m(thread_id t \<mapsto> message_ids t)) Map.empty existing"

text \<open>The first reference, in the order of the new messages of the thread, whose generated identifier
  is an existing thread.\<close>

definition referenced_thread ::
  "(string \<Rightarrow> string list option) \<Rightarrow> threadable_message list \<Rightarrow> thread_group \<Rightarrow> string option" where
  "referenced_thread table new_messages new_thread =
     find (\<lambda>tid. table tid \<noteq> None)
       (concat (map (\<lambda>msg. map generate_thread_id (reference_chain msg))
          (filter (\<lambda>msg. tm_id msg \<in> set (message_ids new_thread)) new_messages)))"

definition update_thread ::
  "thread_group list \<Rightarrow> threadable_message list \<Rightarrow> thread_group \<Rightarrow> thread_group" where
  "update_thread existing new_messages new_thread =
     (let table = thread_table existing
      in if thread_id new_thread \<in> set (map thread_id existing) then
           (case table (thread_id new_thread) of
              Some existing_msg_ids \<Rightarrow> merge_into existing_msg_ids new_thread (thread_id new_thread)
            | None \<Rightarrow> new_thread)
         else
           (case referenced_thread table new_messages new_thread of
              Some tid \<Rightarrow> merge_into (the (table tid)) new_thread tid
            | None \<Rightarrow> new_thread))"

definition update_threads ::
  "thread_group list \<Rightarrow> threadable_message list \<Rightarrow> thread_group list option" where
  "update_threads existing_threads new_messages =
     (if new_messages = [] then Some []
      else map_option (map (update_thread existing_threads new_messages)) (build_threads new_messages))"

end
