(* ===== verification/SyncForest.thy ===== *)
theory SyncForest
  imports SyncThreading
begin

text \<open>
  The arena of \<^verbatim>\<open>threading.rs\<close> as a forest: parent and child links agree, and as long as the
  bounded ancestor walk can see every ancestor there is no cycle. Levels below a root, which bound
  the recursion that looks for a subject. What the depth-first collection visits.
\<close>

abbreviation arena_size :: "arena \<Rightarrow> nat" where
  "arena_size a \<equiv> length (containers a)"

abbreviation parent_of :: "arena \<Rightarrow> nat \<Rightarrow> nat option" where
  "parent_of a i \<equiv> c_parent (containers a ! i)"

abbreviation children_of :: "arena \<Rightarrow> nat \<Rightarrow> nat list" where
  "children_of a i \<equiv> c_children (containers a ! i)"

definition ids_inv :: "arena \<Rightarrow> bool" where
  "ids_inv a \<longleftrightarrow> (\<forall>k i. id_table a k = Some i \<longleftrightarrow> i < arena_size a \<and> c_message_id (containers a ! i) = k)"

definition links_inv :: "arena \<Rightarrow> bool" where
  "links_inv a \<longleftrightarrow> (\<forall>i < arena_size a.
     distinct (children_of a i)
     \<and> (\<forall>p. parent_of a i = Some p \<longrightarrow> p < arena_size a)
     \<and> (\<forall>j. j \<in> set (children_of a i) \<longleftrightarrow> j < arena_size a \<and> parent_of a j = Some i))"

definition arena_inv :: "arena \<Rightarrow> bool" where
  "arena_inv a \<longleftrightarrow> ids_inv a \<and> links_inv a"

definition parent_rel :: "arena \<Rightarrow> (nat \<times> nat) set" where
  "parent_rel a = {(i, p). i < arena_size a \<and> parent_of a i = Some p}"

lemma arena_inv_new: "arena_inv arena_new"
  by (simp add: arena_inv_def ids_inv_def links_inv_def arena_new_def)

lemma links_invD:
  assumes "links_inv a" "i < arena_size a"
  shows "distinct (children_of a i)" "parent_of a i = Some p \<Longrightarrow> p < arena_size a"
    "j \<in> set (children_of a i) \<longleftrightarrow> j < arena_size a \<and> parent_of a j = Some i"
  using assms by (auto simp: links_inv_def)

section \<open>Creating and relabelling containers\<close>

lemma get_or_create_spec:
  assumes "arena_inv a" "get_or_create k a = (i, a')"
  shows "arena_inv a'" "i < arena_size a'" "c_message_id (containers a' ! i) = k"
    and "parent_rel a' = parent_rel a" "arena_size a \<le> arena_size a'"
    and "\<And>j. j < arena_size a \<Longrightarrow> containers a' ! j = containers a ! j"
    and "List.map_filter c_message (containers a') = List.map_filter c_message (containers a)"
    and "\<And>j. j < arena_size a' \<Longrightarrow> arena_size a \<le> j \<Longrightarrow> c_message (containers a' ! j) = None"
proof -
  have "arena_inv a' \<and> i < arena_size a' \<and> c_message_id (containers a' ! i) = k
    \<and> parent_rel a' = parent_rel a \<and> arena_size a \<le> arena_size a'
    \<and> (\<forall>j < arena_size a. containers a' ! j = containers a ! j)
    \<and> List.map_filter c_message (containers a') = List.map_filter c_message (containers a)
    \<and> (\<forall>j < arena_size a'. arena_size a \<le> j \<longrightarrow> c_message (containers a' ! j) = None)"
  proof (cases "id_table a k")
    case None
    let ?c = "\<lparr>c_message_id = k, c_message = None, c_parent = None, c_children = []\<rparr>"
    from None assms(2) have a': "a' = \<lparr>containers = containers a @ [?c], id_table = (id_table a)(k \<mapsto> arena_size a)\<rparr>"
      "i = arena_size a" by (auto simp: get_or_create_def Let_def)
    from assms(1) None have fresh: "\<And>j. j < arena_size a \<Longrightarrow> c_message_id (containers a ! j) \<noteq> k"
      by (metis arena_inv_def ids_inv_def option.distinct(1))
    from assms(1) fresh have "ids_inv a'"
      by (auto simp: arena_inv_def ids_inv_def a' nth_append less_Suc_eq)
    moreover have "links_inv a'"
      using assms(1) unfolding arena_inv_def links_inv_def a'
      by (auto simp: nth_append less_Suc_eq)
    moreover have "parent_rel a' = parent_rel a"
      by (auto simp: parent_rel_def a' nth_append less_Suc_eq)
    ultimately show ?thesis by (auto simp: arena_inv_def a' nth_append List.map_filter_def)
  next
    case (Some j)
    with assms show ?thesis by (auto simp: get_or_create_def arena_inv_def ids_inv_def)
  qed
  then show "arena_inv a'" "i < arena_size a'" "c_message_id (containers a' ! i) = k"
    "parent_rel a' = parent_rel a" "arena_size a \<le> arena_size a'"
    "\<And>j. j < arena_size a \<Longrightarrow> containers a' ! j = containers a ! j"
    "List.map_filter c_message (containers a') = List.map_filter c_message (containers a)"
    "\<And>j. j < arena_size a' \<Longrightarrow> arena_size a \<le> j \<Longrightarrow> c_message (containers a' ! j) = None"
    by auto
qed

text \<open>An arena with the same identifiers, parents and children, up to messages.\<close>

lemma same_links:
  assumes "id_table a' = id_table a" "arena_size a' = arena_size a"
    and "\<And>j. j < arena_size a \<Longrightarrow> c_message_id (containers a' ! j) = c_message_id (containers a ! j)"
    and "\<And>j. j < arena_size a \<Longrightarrow> parent_of a' j = parent_of a j"
    and "\<And>j. j < arena_size a \<Longrightarrow> children_of a' j = children_of a j"
  shows "arena_inv a' = arena_inv a" "parent_rel a' = parent_rel a"
  unfolding arena_inv_def ids_inv_def links_inv_def parent_rel_def
  by (simp_all add: assms cong: conj_cong)

lemma set_container_nth:
  "containers (set_container i f a) ! j =
    (if i = j \<and> i < arena_size a then f (containers a ! i) else containers a ! j)"
  by (cases "i < arena_size a") (simp_all add: set_container_def list_update_beyond)

lemma set_container_size [simp]:
  "arena_size (set_container i f a) = arena_size a" "id_table (set_container i f a) = id_table a"
  by (simp_all add: set_container_def)

lemma set_message_spec:
  "arena_inv (set_container i (set_message m) a) = arena_inv a"
  "parent_rel (set_container i (set_message m) a) = parent_rel a"
  by (rule same_links; simp add: set_container_nth set_message_def)+

section \<open>Linking\<close>

text \<open>
  What a link does: the parent of the child changes, the child moves to the end of the parent's
  children, and nothing else; unless the ancestor walk finds a cycle or the link is there.
\<close>

definition linked :: "nat \<Rightarrow> nat \<Rightarrow> arena \<Rightarrow> arena \<Rightarrow> bool" where
  "linked p c a a' \<longleftrightarrow>
     id_table a' = id_table a \<and> arena_size a' = arena_size a
     \<and> (\<forall>j < arena_size a.
          c_message_id (containers a' ! j) = c_message_id (containers a ! j)
          \<and> c_message (containers a' ! j) = c_message (containers a ! j)
          \<and> parent_of a' j = (if j = c then Some p else parent_of a j)
          \<and> children_of a' j = filter (\<lambda>x. x \<noteq> c) (children_of a j) @ (if j = p then [c] else []))"

lemma link_cases:
  assumes "links_inv a" "p < arena_size a" "c < arena_size a"
  shows "link_parent_child p c a = a \<and> (is_ancestor a p c \<or> parent_of a c = Some p)
    \<or> \<not> is_ancestor a p c \<and> linked p c a (link_parent_child p c a)"
proof (cases "is_ancestor a p c \<or> parent_of a c = Some p")
  case True
  then show ?thesis by (auto simp: link_parent_child_def)
next
  case False
  then have "p \<noteq> c" by (auto simp: is_ancestor_def ancestor_walk.simps)
  have other: "filter (\<lambda>x. x \<noteq> c) (children_of a j) = children_of a j"
    if "j < arena_size a" "parent_of a c \<noteq> Some j" for j
    using links_invD(3) [OF assms(1) that(1)] that(2) by (auto intro: filter_True)
  show ?thesis
  proof (cases "parent_of a c")
    case None
    with False \<open>p \<noteq> c\<close> other assms(2,3) show ?thesis
      by (auto simp: link_parent_child_def unlink_from_parent_def linked_def set_container_def nth_list_update)
  next
    case (Some q)
    have "q < arena_size a" using links_invD(2) [OF assms(1,3) Some] .
    with False \<open>p \<noteq> c\<close> other assms(2,3) Some show ?thesis
      by (cases "q = c")
        (auto simp: link_parent_child_def unlink_from_parent_def linked_def set_container_def nth_list_update)
  qed
qed

lemma linkedD:
  assumes "linked p c a a'"
  shows "id_table a' = id_table a" "arena_size a' = arena_size a"
    and "j < arena_size a \<Longrightarrow> c_message_id (containers a' ! j) = c_message_id (containers a ! j)"
    and "j < arena_size a \<Longrightarrow> c_message (containers a' ! j) = c_message (containers a ! j)"
    and "j < arena_size a \<Longrightarrow> parent_of a' j = (if j = c then Some p else parent_of a j)"
    and "j < arena_size a \<Longrightarrow>
      children_of a' j = filter (\<lambda>x. x \<noteq> c) (children_of a j) @ (if j = p then [c] else [])"
  using assms by (simp_all add: linked_def)

lemma linked_inv:
  assumes "arena_inv a" "p < arena_size a" "c < arena_size a" "linked p c a a'"
  shows "arena_inv a'"
proof -
  note L = linkedD [OF assms(4)]
  have l: "links_inv a" using assms(1) by (simp add: arena_inv_def)
  have "ids_inv a'"
    using assms(1) by (simp add: arena_inv_def ids_inv_def L cong: conj_cong)
  moreover have "links_inv a'"
    unfolding links_inv_def L(2)
  proof (intro allI impI)
    fix i
    assume i: "i < arena_size a"
    note li = links_invD [OF l i]
    have "j \<in> set (children_of a' i) \<longleftrightarrow> j < arena_size a \<and> parent_of a' j = Some i" for j
      using assms(3) by (auto simp: L(6) [OF i] li(3) L(5) split: if_splits)
    then show "distinct (children_of a' i)
      \<and> (\<forall>q. parent_of a' i = Some q \<longrightarrow> q < arena_size a)
      \<and> (\<forall>j. j \<in> set (children_of a' i) \<longleftrightarrow> j < arena_size a \<and> parent_of a' j = Some i)"
      using li(1,2) assms(2) by (simp add: L(5,6) [OF i])
  qed
  ultimately show ?thesis by (simp add: arena_inv_def)
qed

lemma link_inv:
  assumes "arena_inv a" "p < arena_size a" "c < arena_size a"
  shows "arena_inv (link_parent_child p c a)" "arena_size (link_parent_child p c a) = arena_size a"
    and "map c_message (containers (link_parent_child p c a)) = map c_message (containers a)"
    and "map c_message_id (containers (link_parent_child p c a)) = map c_message_id (containers a)"
proof -
  have "links_inv a" using assms(1) by (simp add: arena_inv_def)
  note lc = link_cases [OF this assms(2,3)]
  then show "arena_inv (link_parent_child p c a)" using linked_inv [OF assms] assms(1) by auto
  from lc show "arena_size (link_parent_child p c a) = arena_size a"
    "map c_message (containers (link_parent_child p c a)) = map c_message (containers a)"
    "map c_message_id (containers (link_parent_child p c a)) = map c_message_id (containers a)"
    by (auto simp: linkedD intro!: nth_equalityI)
qed

lemma linked_parent_rel:
  assumes "c < arena_size a" "linked p c a a'"
  shows "parent_rel a' = insert (c, p) {(i, q) \<in> parent_rel a. i \<noteq> c}"
  using assms(1) by (auto simp: parent_rel_def linkedD [OF assms(2)] split: if_splits)

section \<open>The ancestor walk\<close>

lemma ancestor_walk_sound:
  "ancestor_walk a anc d current \<Longrightarrow> links_inv a \<Longrightarrow> current = Some c \<Longrightarrow> c < arena_size a \<Longrightarrow>
    (c, anc) \<in> (parent_rel a)\<^sup>*"
proof (induction a anc d current arbitrary: c rule: ancestor_walk.induct)
  case (1 a anc d current)
  show ?case
  proof (cases "c = anc")
    case False
    with 1(2,4) have w: "\<not> Suc d \<ge> MAX_DEPTH" "ancestor_walk a anc (Suc d) (parent_of a c)"
      by (simp_all add: ancestor_walk.simps [of a anc d] split: if_splits)
    then obtain p where p: "parent_of a c = Some p"
      by (cases "parent_of a c") (simp_all add: ancestor_walk.simps)
    have "p < arena_size a" using links_invD(2) [OF 1(3) 1(5) p] .
    with 1(1) [OF 1(4) False w(1) w(2) 1(3) p] have "(p, anc) \<in> (parent_rel a)\<^sup>*" .
    with p 1(5) show ?thesis by (auto simp: parent_rel_def intro: converse_rtrancl_into_rtrancl)
  qed simp
qed

lemma ancestor_walk_complete:
  "(c, anc) \<in> parent_rel a ^^ k \<Longrightarrow> d + k < MAX_DEPTH \<Longrightarrow> ancestor_walk a anc d (Some c)"
proof (induction k arbitrary: c d)
  case 0
  then show ?case by (simp add: ancestor_walk.simps)
next
  case (Suc k)
  then obtain p where "(c, p) \<in> parent_rel a" "(p, anc) \<in> parent_rel a ^^ k"
    by (metis relpow_Suc_D2)
  with Suc.IH [of p "Suc d"] Suc.prems(2) show ?case
    by (auto simp: ancestor_walk.simps [of a anc d] parent_rel_def)
qed

text \<open>Beyond the limit the walk gives up: it does not see a root that far above.\<close>

lemma ancestor_walk_gives_up:
  "(c, r) \<in> parent_rel a ^^ k \<Longrightarrow> parent_of a r = None \<Longrightarrow> MAX_DEPTH \<le> d + k \<Longrightarrow> d < MAX_DEPTH \<Longrightarrow>
    \<not> ancestor_walk a r d (Some c)"
proof (induction k arbitrary: c d)
  case (Suc k)
  then obtain p where p: "(c, p) \<in> parent_rel a" "(p, r) \<in> parent_rel a ^^ k" by (metis relpow_Suc_D2)
  then have "c \<noteq> r" "parent_of a c = Some p" using Suc.prems(2) by (auto simp: parent_rel_def)
  with Suc.IH [OF p(2) Suc.prems(2), of "Suc d"] Suc.prems(3) show ?case
    by (auto simp: ancestor_walk.simps [of a r d])
qed simp

lemma deep_link_cycle:
  assumes "links_inv a" "(c, r) \<in> parent_rel a ^^ k" "MAX_DEPTH \<le> k" "parent_of a r = None"
    and "c < arena_size a" "r < arena_size a"
  shows "(r, r) \<in> (parent_rel (link_parent_child c r a))\<^sup>+"
proof -
  have "\<not> is_ancestor a c r"
    using ancestor_walk_gives_up [OF assms(2,4), of 0] assms(3) by (simp add: is_ancestor_def MAX_DEPTH_def)
  with link_cases [OF assms(1,5,6)] assms(4)
  have l: "linked c r a (link_parent_child c r a)" by auto
  have "{(i, q) \<in> parent_rel a. i \<noteq> r} = parent_rel a" using assms(4) by (auto simp: parent_rel_def)
  with linked_parent_rel [OF assms(6) l]
  have R: "parent_rel (link_parent_child c r a) = insert (r, c) (parent_rel a)" by simp
  from assms(2) have "(c, r) \<in> (parent_rel a)\<^sup>*" by (rule relpow_imp_rtrancl)
  then have "(c, r) \<in> (insert (r, c) (parent_rel a))\<^sup>*" by (meson rtrancl_mono subsetD subset_insertI)
  then show ?thesis unfolding R by (meson insertI1 rtrancl_into_trancl2)
qed

lemma finite_parent_rel: "links_inv a \<Longrightarrow> finite (parent_rel a)"
  by (rule finite_subset [of _ "{..<arena_size a} \<times> {..<arena_size a}"])
    (auto simp: parent_rel_def links_inv_def)

lemma acyclic_has_root:
  assumes "links_inv a" "acyclic (parent_rel a)" "0 < arena_size a"
  shows "\<exists>r < arena_size a. parent_of a r = None"
proof -
  have "wf ((parent_rel a)\<inverse>)"
    using assms(1,2) finite_acyclic_wf_converse finite_parent_rel by blast
  from wfE_min [OF this, of 0 "{..<arena_size a}"] assms(3)
  obtain r where r: "r < arena_size a" "\<And>p. (p, r) \<in> (parent_rel a)\<inverse> \<Longrightarrow> \<not> p < arena_size a" by auto
  have "parent_of a r \<noteq> Some p" for p
    using links_invD(2) [OF assms(1) r(1), of p] r(1) r(2) [of p] by (auto simp: parent_rel_def)
  with r(1) show ?thesis by (metis not_None_eq)
qed

lemma card_parent_rel:
  assumes "links_inv a" "acyclic (parent_rel a)" "0 < arena_size a"
  shows "card (parent_rel a) < arena_size a"
proof -
  from acyclic_has_root [OF assms] obtain r where r: "r < arena_size a" "parent_of a r = None" by blast
  have "inj_on fst (parent_rel a)" by (auto simp: inj_on_def parent_rel_def)
  moreover have "fst ` parent_rel a \<subseteq> {..<arena_size a} - {r}" using r by (auto simp: parent_rel_def)
  ultimately have "card (parent_rel a) \<le> card ({..<arena_size a} - {r})" by (simp add: card_inj_on_le)
  also have "\<dots> < arena_size a" using r(1) by simp
  finally show ?thesis .
qed

text \<open>In an acyclic arena of at most \<open>MAX_DEPTH\<close> containers the bounded walk is exact.\<close>

lemma is_ancestor_exact:
  assumes "links_inv a" "acyclic (parent_rel a)" "arena_size a \<le> MAX_DEPTH" "c < arena_size a"
  shows "is_ancestor a c anc \<longleftrightarrow> (c, anc) \<in> (parent_rel a)\<^sup>*"
proof
  show "is_ancestor a c anc \<Longrightarrow> (c, anc) \<in> (parent_rel a)\<^sup>*"
    using ancestor_walk_sound [OF _ assms(1) refl assms(4)] by (simp add: is_ancestor_def)
  assume "(c, anc) \<in> (parent_rel a)\<^sup>*"
  then obtain k where k: "(c, anc) \<in> parent_rel a ^^ k" "k \<le> card (parent_rel a)"
    using rtrancl_finite_eq_relpow [OF finite_parent_rel [OF assms(1)]] by auto
  with card_parent_rel [OF assms(1,2)] assms(3,4) have "0 + k < MAX_DEPTH" by linarith
  from ancestor_walk_complete [OF k(1) this] show "is_ancestor a c anc" by (simp add: is_ancestor_def)
qed

lemma link_acyclic:
  assumes "arena_inv a" "acyclic (parent_rel a)" "arena_size a \<le> MAX_DEPTH"
    and "p < arena_size a" "c < arena_size a"
  shows "acyclic (parent_rel (link_parent_child p c a))"
proof -
  have l: "links_inv a" using assms(1) by (simp add: arena_inv_def)
  from link_cases [OF this assms(4,5)] show ?thesis
  proof
    assume "\<not> is_ancestor a p c \<and> linked p c a (link_parent_child p c a)"
    then have "(p, c) \<notin> (parent_rel a)\<^sup>*"
      and r: "parent_rel (link_parent_child p c a) = insert (c, p) {(i, q) \<in> parent_rel a. i \<noteq> c}"
      using is_ancestor_exact [OF l assms(2,3,4)] linked_parent_rel [OF assms(5)] by auto
    moreover have "{(i, q) \<in> parent_rel a. i \<noteq> c} \<subseteq> parent_rel a" by auto
    ultimately show ?thesis
      unfolding r by (metis (no_types, lifting) acyclic_insert acyclic_subset assms(2) rtrancl_mono subsetD)
  qed (use assms(2) in simp)
qed

section \<open>Levels below the roots\<close>

text \<open>A container at level \<open>k\<close> has \<open>k\<close> ancestors and the last of them is a root.\<close>

inductive level :: "arena \<Rightarrow> nat \<Rightarrow> nat \<Rightarrow> bool" for a :: arena where
  level_root: "i < arena_size a \<Longrightarrow> parent_of a i = None \<Longrightarrow> level a i 0"
| level_child: "i < arena_size a \<Longrightarrow> parent_of a i = Some p \<Longrightarrow> level a p k \<Longrightarrow> level a i (Suc k)"

lemma level_less: "level a i k \<Longrightarrow> i < arena_size a"
  by (induction rule: level.induct) auto

lemma level_unique: "level a i k \<Longrightarrow> level a i k' \<Longrightarrow> k = k'"
proof (induction i k arbitrary: k' rule: level.induct)
  case (level_root i)
  from level_root(3,2) show ?case by (cases rule: level.cases) simp_all
next
  case (level_child i p k)
  from level_child(5,2) show ?case by (cases rule: level.cases) (use level_child.IH in auto)
qed

lemma level_below: "level a i k \<Longrightarrow> j \<le> k \<Longrightarrow> \<exists>x. level a x j"
proof (induction i k arbitrary: j rule: level.induct)
  case (level_root i)
  then show ?case using level.level_root by blast
next
  case (level_child i p k)
  then show ?case using level.level_child by (metis le_Suc_eq)
qed

lemma level_bound:
  assumes "level a i k"
  shows "k < arena_size a"
proof -
  from level_below [OF assms] obtain f where f: "\<And>j. j \<le> k \<Longrightarrow> level a (f j) j" by metis
  have "inj_on f {..k}" using f level_unique by (metis atMost_iff inj_onI)
  moreover have "f ` {..k} \<subseteq> {..<arena_size a}" using f level_less by blast
  ultimately have "card {..k} \<le> card {..<arena_size a}" by (meson card_inj_on_le finite_lessThan)
  then show ?thesis by simp
qed

text \<open>The search for a subject ends: from a container at level \<open>k\<close> no path is longer than the rest.\<close>

lemma subject_of_enough:
  assumes "links_inv a"
  shows "level a i k \<Longrightarrow> arena_size a \<le> k + fuel \<Longrightarrow> get_subject_for_container fuel a i \<noteq> None"
    and "(\<And>j. j \<in> set js \<Longrightarrow> level a j k') \<Longrightarrow> arena_size a \<le> k' + fuel' \<Longrightarrow>
      first_child_subject fuel' a js \<noteq> None"
  using assms
proof (induction fuel a i and fuel' a js arbitrary: k and k'
    rule: get_subject_for_container_first_child_subject.induct)
  case (1 a idx)
  then show ?case using level_bound by fastforce
next
  case (2 fuel a idx)
  have "level a j (Suc k)" if "j \<in> set (children_of a idx)" for j
    using that 2(2) links_invD(3) [OF 2(4) level_less [OF 2(2)], of j] by (auto intro: level_child)
  then show ?case
    using 2(1) [of "Suc k"] 2(3,4) by (cases "Option.bind (c_message (containers a ! idx)) tm_subject") auto
next
  case (3 fuel a)
  then show ?case by simp
next
  case (4 fuel a child rest)
  have "get_subject_for_container fuel a child \<noteq> None" by (rule 4(1)) (use 4 in auto)
  then obtain x where x: "get_subject_for_container fuel a child = Some x" by auto
  show ?case
  proof (cases x)
    case None
    with x have "first_child_subject fuel a rest \<noteq> None" by (intro 4(2)) (use 4 in auto)
    with None x show ?thesis by simp
  qed (use x in simp)
qed

declare get_subject_for_container.simps [simp del]

end
