(* ===== verification/SyncBuild.thy ===== *)
theory SyncBuild
  imports SyncForest
begin

text \<open>
  The invariants of the arena through the algorithm: linking the messages, merging the roots by
  subject, collecting the threads.
\<close>

section \<open>Arena steps\<close>

text \<open>Everything the algorithm does to the links is creating containers and linking them.\<close>

inductive arena_step :: "arena \<Rightarrow> arena \<Rightarrow> bool" where
  step_create: "get_or_create k a = (i, a') \<Longrightarrow> arena_step a a'"
| step_link: "p < arena_size a \<Longrightarrow> c < arena_size a \<Longrightarrow> arena_step a (link_parent_child p c a)"

definition stored :: "arena \<Rightarrow> threadable_message multiset" where
  "stored a = mset (List.map_filter c_message (containers a))"

text \<open>What a step keeps: the containers that are there, with their messages.\<close>

definition arena_extends :: "arena \<Rightarrow> arena \<Rightarrow> bool" where
  "arena_extends a a' \<longleftrightarrow>
     arena_size a \<le> arena_size a' \<and> stored a' = stored a
     \<and> (\<forall>j < arena_size a. c_message_id (containers a' ! j) = c_message_id (containers a ! j)
          \<and> c_message (containers a' ! j) = c_message (containers a ! j))
     \<and> (\<forall>j < arena_size a'. arena_size a \<le> j \<longrightarrow> c_message (containers a' ! j) = None)"

lemma arena_extends_refl: "arena_extends a a"
  by (simp add: arena_extends_def)

lemma arena_extends_trans: "arena_extends a b \<Longrightarrow> arena_extends b c \<Longrightarrow> arena_extends a c"
  unfolding arena_extends_def by (metis le_trans less_le_trans not_le_imp_less)

lemma map_filter_append: "List.map_filter f (xs @ ys) = List.map_filter f xs @ List.map_filter f ys"
  by (simp add: List.map_filter_def)

lemma map_filter_map_eq: "map f xs = map f ys \<Longrightarrow> List.map_filter f xs = List.map_filter f ys"
proof -
  have "List.map_filter f zs = List.map_filter id (map f zs)" for zs
    by (induction zs) (simp_all add: List.map_filter_def)
  then show "map f xs = map f ys \<Longrightarrow> List.map_filter f xs = List.map_filter f ys" by metis
qed

lemma arena_step_inv:
  assumes "arena_step a a'" "arena_inv a"
  shows "arena_inv a' \<and> arena_extends a a'
    \<and> (acyclic (parent_rel a) \<longrightarrow> arena_size a' \<le> MAX_DEPTH \<longrightarrow> acyclic (parent_rel a'))"
  using assms(1)
proof cases
  case (step_create k i)
  note s = get_or_create_spec [OF assms(2) this]
  then show ?thesis unfolding arena_extends_def stored_def by simp
next
  case (step_link p c)
  note l = link_inv [OF assms(2) step_link(2,3)]
  have "c_message_id (containers a' ! j) = c_message_id (containers a ! j)"
    "c_message (containers a' ! j) = c_message (containers a ! j)" if "j < arena_size a" for j
    using that l(2,3,4) step_link(1) by (metis nth_map)+
  then show ?thesis
    using l step_link link_acyclic [OF assms(2)] map_filter_map_eq [OF l(3)]
    by (auto simp: arena_extends_def stored_def)
qed

lemma arena_steps_inv:
  assumes "arena_step\<^sup>*\<^sup>* a a'" "arena_inv a"
  shows "arena_inv a' \<and> arena_extends a a'
    \<and> (acyclic (parent_rel a) \<longrightarrow> arena_size a' \<le> MAX_DEPTH \<longrightarrow> acyclic (parent_rel a'))"
  using assms(1)
proof induction
  case base
  with assms(2) show ?case by (simp add: arena_extends_refl)
next
  case (step b c)
  with arena_step_inv [of b c] have "arena_extends b c" by blast
  with step arena_step_inv [of b c] show ?case
    using arena_extends_trans by (metis arena_extends_def le_trans)
qed

text \<open>One reference of a chain: its container is found or created, then linked or not.\<close>

lemma link_chain_ConsE:
  assumes "link_chain (k # ids) prev a = (prev', a')"
  obtains i a1 a2 where "get_or_create k a = (i, a1)" "link_chain ids (Some i) a2 = (prev', a')"
    and "a2 = a1 \<or> (\<exists>p. prev = Some p \<and> parent_of a1 i = None \<and> a2 = link_parent_child p i a1)"
proof -
  obtain i a1 where c: "get_or_create k a = (i, a1)" by fastforce
  let ?a2 = "case prev of None \<Rightarrow> a1 | Some p \<Rightarrow> if parent_of a1 i = None then link_parent_child p i a1 else a1"
  show thesis by (rule that [OF c, of ?a2]) (use assms c in \<open>auto split: option.splits\<close>)
qed

lemma link_chain_steps:
  assumes "link_chain ids prev a = (prev', a')" "arena_inv a" "\<And>p. prev = Some p \<Longrightarrow> p < arena_size a"
  shows "arena_step\<^sup>*\<^sup>* a a' \<and> (\<forall>p. prev' = Some p \<longrightarrow> p < arena_size a')"
  using assms
proof (induction ids arbitrary: prev a)
  case Nil
  then show ?case by simp
next
  case (Cons k ids)
  from Cons.prems(1) obtain i a1 a2 where c: "get_or_create k a = (i, a1)"
    and rest: "link_chain ids (Some i) a2 = (prev', a')"
    and a2: "a2 = a1 \<or> (\<exists>p. prev = Some p \<and> parent_of a1 i = None \<and> a2 = link_parent_child p i a1)"
    by (rule link_chain_ConsE)
  note s = get_or_create_spec [OF Cons.prems(2) c]
  have steps: "arena_step\<^sup>*\<^sup>* a1 a2"
    using a2 Cons.prems(3) s(2,5) by (auto intro: step_link order_less_le_trans)
  from arena_steps_inv [OF steps s(1)] have inv: "arena_inv a2" "i < arena_size a2"
    using s(2) by (auto simp: arena_extends_def)
  have "arena_step\<^sup>*\<^sup>* a a2"
    using step_create [OF c] steps by (rule converse_rtranclp_into_rtranclp)
  moreover have "arena_step\<^sup>*\<^sup>* a2 a' \<and> (\<forall>p. prev' = Some p \<longrightarrow> p < arena_size a')"
    using Cons.IH [OF rest inv(1)] inv(2) by simp
  ultimately show ?case by (simp add: rtranclp_trans [of _ a a2 a'])
qed

section \<open>Adding a message\<close>

definition labelled :: "arena \<Rightarrow> bool" where
  "labelled a \<longleftrightarrow> (\<forall>i < arena_size a. \<forall>m. c_message (containers a ! i) = Some m \<longrightarrow>
     tm_message_id m = c_message_id (containers a ! i))"

lemma extends_labelled: "arena_extends a a' \<Longrightarrow> labelled a \<Longrightarrow> labelled a'"
  unfolding labelled_def arena_extends_def by (metis not_le_imp_less option.distinct(1))

lemma stored_set_message:
  assumes "i < arena_size a"
  shows "stored (set_container i (set_message m) a) + mset (List.map_filter id [c_message (containers a ! i)]) =
    add_mset m (stored a)"
proof -
  let ?cs = "containers a"
  have "List.map_filter c_message ?cs = List.map_filter c_message (take i ?cs @ ?cs ! i # drop (Suc i) ?cs)"
    using assms by (simp flip: id_take_nth_drop)
  then have cs: "List.map_filter c_message ?cs = List.map_filter c_message (take i ?cs) @
      List.map_filter id [c_message (?cs ! i)] @ List.map_filter c_message (drop (Suc i) ?cs)"
    by (cases "c_message (?cs ! i)") (simp_all add: map_filter_append map_filter_simps)
  have "containers (set_container i (set_message m) a) = take i ?cs @ set_message m (?cs ! i) # drop (Suc i) ?cs"
    using assms by (simp add: set_container_def upd_conv_take_nth_drop)
  then have "List.map_filter c_message (containers (set_container i (set_message m) a)) =
      List.map_filter c_message (take i ?cs) @ m # List.map_filter c_message (drop (Suc i) ?cs)"
    by (simp add: map_filter_append map_filter_simps set_message_def)
  with cs show ?thesis by (simp add: stored_def)
qed

lemma add_message_spec:
  assumes "arena_inv a" "labelled a"
  shows "arena_inv (add_message m a)" "labelled (add_message m a)"
    and "stored (add_message m a) \<subseteq># add_mset m (stored a)"
    and "\<forall>m' \<in># stored a. tm_message_id m' \<noteq> tm_message_id m \<Longrightarrow> stored (add_message m a) = add_mset m (stored a)"
    and "arena_size a \<le> arena_size (add_message m a)"
    and "acyclic (parent_rel a) \<Longrightarrow> arena_size (add_message m a) \<le> MAX_DEPTH \<Longrightarrow> acyclic (parent_rel (add_message m a))"
    and "\<And>j. j < arena_size a \<Longrightarrow> c_message_id (containers (add_message m a) ! j) = c_message_id (containers a ! j)"
proof -
  obtain i a1 where c: "get_or_create (tm_message_id m) a = (i, a1)" by fastforce
  note s = get_or_create_spec [OF assms(1) c]
  define a2 where "a2 = set_container i (set_message m) a1"
  obtain prev a3 where ch: "link_chain (reference_chain m) None a2 = (prev, a3)" by fastforce
  have i2: "arena_inv a2" "parent_rel a2 = parent_rel a" using s(1,4) by (simp_all add: a2_def set_message_spec)
  from link_chain_steps [OF ch i2(1)] have st: "arena_step\<^sup>*\<^sup>* a2 a3" "\<forall>p. prev = Some p \<longrightarrow> p < arena_size a3"
    by simp_all
  note e3 = arena_steps_inv [OF st(1) i2(1)]
  then have "i < arena_size a3" using s(2) by (auto simp: arena_extends_def a2_def)
  have add: "add_message m a = (case prev of None \<Rightarrow> a3
      | Some p \<Rightarrow> if p \<noteq> i then link_parent_child p i a3 else a3)"
    using c ch by (simp add: add_message_def a2_def Let_def)
  have "arena_step\<^sup>*\<^sup>* a3 (add_message m a)"
    using st(2) \<open>i < arena_size a3\<close> by (auto simp: add split: option.splits intro!: step_link)
  with st(1) have steps: "arena_step\<^sup>*\<^sup>* a2 (add_message m a)" by simp
  note e = arena_steps_inv [OF steps i2(1)]
  have "arena_extends a a1" using arena_step_inv [OF step_create [OF c] assms(1)] by blast
  with assms(2) have l1: "labelled a1" by (rule extends_labelled [rotated])
  have l2: "labelled a2"
    using l1 s(3) by (auto simp: labelled_def a2_def set_container_nth set_message_def)
  from e show "arena_inv (add_message m a)" "labelled (add_message m a)"
    using extends_labelled l2 by blast+
  have "stored a1 = stored a" using s(7) by (simp add: stored_def)
  with stored_set_message [OF s(2), of m]
  have st2: "stored a2 + mset (List.map_filter id [c_message (containers a1 ! i)]) = add_mset m (stored a)"
    by (simp add: a2_def)
  have sa: "stored (add_message m a) = stored a2" using e by (simp add: arena_extends_def)
  show "stored (add_message m a) \<subseteq># add_mset m (stored a)"
    unfolding sa using st2 by (metis mset_subset_eq_add_left)
  show "stored (add_message m a) = add_mset m (stored a)"
    if new: "\<forall>m' \<in># stored a. tm_message_id m' \<noteq> tm_message_id m"
  proof (cases "c_message (containers a1 ! i)")
    case None
    with st2 sa show ?thesis by (simp add: List.map_filter_def)
  next
    case (Some m')
    have "m' \<in># stored a1"
      using Some s(2) by (force simp: stored_def List.map_filter_def)
    moreover have "tm_message_id m' = tm_message_id m" using l1 Some s(2,3) by (simp add: labelled_def)
    ultimately show ?thesis using new \<open>stored a1 = stored a\<close> by auto
  qed
  have "arena_size a2 = arena_size a1" by (simp add: a2_def)
  then show "arena_size a \<le> arena_size (add_message m a)" using e s(5) by (auto simp: arena_extends_def)
  show "acyclic (parent_rel a) \<Longrightarrow> arena_size (add_message m a) \<le> MAX_DEPTH \<Longrightarrow> acyclic (parent_rel (add_message m a))"
    using e i2(2) by simp
  show "c_message_id (containers (add_message m a) ! j) = c_message_id (containers a ! j)" if "j < arena_size a" for j
  proof -
    have "c_message_id (containers a2 ! j) = c_message_id (containers a ! j)" "j < arena_size a2"
      using s(5,6) that by (auto simp: a2_def set_container_nth set_message_def)
    with e show ?thesis by (auto simp: arena_extends_def)
  qed
qed

lemma link_messages_snoc: "link_messages (ms @ [m]) = add_message m (link_messages ms)"
  by (simp add: link_messages_def)

lemma link_messages_inv:
  "arena_inv (link_messages ms) \<and> labelled (link_messages ms) \<and> stored (link_messages ms) \<subseteq># mset ms
    \<and> (distinct (map tm_message_id ms) \<longrightarrow> stored (link_messages ms) = mset ms)
    \<and> (arena_size (link_messages ms) \<le> MAX_DEPTH \<longrightarrow> acyclic (parent_rel (link_messages ms)))"
proof (induction ms rule: rev_induct)
  case Nil
  have "parent_rel arena_new = {}" by (simp add: parent_rel_def arena_new_def)
  then show ?case
    using arena_inv_new
    by (simp add: link_messages_def labelled_def stored_def arena_new_def List.map_filter_def acyclic_def)
next
  case (snoc m ms)
  then have i: "arena_inv (link_messages ms)" "labelled (link_messages ms)" by auto
  note s = add_message_spec [OF i, where m = m]
  have "stored (add_message m (link_messages ms)) \<subseteq># add_mset m (mset ms)"
    using s(3) snoc by (meson mset_subset_eq_add_mset_cancel subset_mset.order_trans)
  moreover have "stored (add_message m (link_messages ms)) = add_mset m (mset ms)"
    if "distinct (map tm_message_id (ms @ [m]))"
    using that snoc by (subst s(4)) (force simp: image_iff)+
  ultimately show ?case using s snoc by (auto simp: link_messages_snoc)
qed

end
