(* ===== verification/SyncThreads.thy ===== *)
theory SyncThreads
  imports SyncBuild
begin

text \<open>
  Merging the roots by subject, and collecting the threads of the final forest.
\<close>

section \<open>Merging roots\<close>

text \<open>
  While the roots are merged, the roots still to come are roots, and the subject table names only
  roots that were handled before.
\<close>

definition merge_inv :: "nat list \<Rightarrow> arena \<times> (string \<Rightarrow> nat option) \<Rightarrow> bool" where
  "merge_inv pending state \<longleftrightarrow>
     arena_inv (fst state) \<and> distinct pending
     \<and> (\<forall>r \<in> set pending. r < arena_size (fst state) \<and> parent_of (fst state) r = None)
     \<and> (\<forall>k i. snd state k = Some i \<longrightarrow> i < arena_size (fst state) \<and> i \<notin> set pending)"

lemma link_keeps_parent:
  assumes "links_inv a" "p < arena_size a" "c < arena_size a" "j < arena_size a" "j \<noteq> c"
  shows "parent_of (link_parent_child p c a) j = parent_of a j"
  using link_cases [OF assms(1-3)] linkedD(5) [of p c a _ j] assms(4,5) by fastforce

lemma link_merge_inv:
  assumes "merge_inv (r # rs) (a, sm)" "p < arena_size a" "c < arena_size a" "c \<notin> set rs"
    and "\<And>k i. sm' k = Some i \<Longrightarrow> sm k = Some i \<or> i = r"
  shows "merge_inv rs (link_parent_child p c a, sm')"
proof -
  from assms(1) have a: "arena_inv a" "links_inv a" by (simp_all add: merge_inv_def arena_inv_def)
  note l = link_inv [OF a(1) assms(2,3)]
  show ?thesis
    using assms(1,4,5) l(1) link_keeps_parent [OF a(2) assms(2,3)]
    by (fastforce simp: merge_inv_def l(2))
qed

lemma merge_root_total:
  assumes "merge_inv (r # rs) (a, sm)"
  shows "\<exists>a' sm'. merge_root r (a, sm) = Some (a', sm') \<and> merge_inv rs (a', sm') \<and> arena_step\<^sup>*\<^sup>* a a'
    \<and> arena_size a' = arena_size a"
proof -
  from assms have i: "arena_inv a" by (simp add: merge_inv_def)
  from assms have a: "links_inv a" "r < arena_size a" "parent_of a r = None" "r \<notin> set rs"
    by (simp_all add: merge_inv_def arena_inv_def)
  have "get_subject_for_container (Suc (arena_size a)) a r \<noteq> None"
    by (rule subject_of_enough(1) [OF a(1) level_root [OF a(2,3)]]) simp
  then obtain subject where s: "get_subject_for_container (Suc (arena_size a)) a r = Some subject" by blast
  let ?n = "normalize_subject subject"
  have keep: "merge_inv rs (a, sm)" using assms by (auto simp: merge_inv_def)
  have upd: "(sm(?n \<mapsto> r)) k = Some i \<Longrightarrow> sm k = Some i \<or> i = r" for k i by (auto split: if_splits)
  show ?thesis
  proof (cases "sm ?n")
    case None
    have "merge_inv rs (a, sm(?n \<mapsto> r))" using keep a(2,4) by (auto simp: merge_inv_def)
    with None s keep show ?thesis by (simp add: merge_root_def Let_def)
  next
    case (Some e)
    with assms have e: "e < arena_size a" "e \<notin> set rs" "e \<noteq> r" by (auto simp: merge_inv_def)
    have "merge_inv rs (link_parent_child e r a, sm)"
      by (rule link_merge_inv [OF assms e(1) a(2,4)]) simp
    moreover have "merge_inv rs (link_parent_child r e a, sm(?n \<mapsto> r))"
      by (rule link_merge_inv [OF assms a(2) e(1,2) upd])
    ultimately show ?thesis
      using s Some keep step_link [OF e(1) a(2)] step_link [OF a(2) e(1)]
        link_inv(2) [OF i e(1) a(2)] link_inv(2) [OF i a(2) e(1)]
      by (auto simp: merge_root_def Let_def)
  qed
qed

lemma merge_roots_total:
  "merge_inv rs (a, sm) \<Longrightarrow>
    \<exists>a' sm'. merge_roots rs (a, sm) = Some (a', sm') \<and> arena_inv a' \<and> arena_step\<^sup>*\<^sup>* a a'
      \<and> arena_size a' = arena_size a"
proof (induction rs arbitrary: a sm)
  case Nil
  then show ?case by (simp add: merge_inv_def)
next
  case (Cons r rs)
  from merge_root_total [OF Cons.prems] obtain a1 sm1 where
    "merge_root r (a, sm) = Some (a1, sm1)" "merge_inv rs (a1, sm1)" "arena_step\<^sup>*\<^sup>* a a1"
    "arena_size a1 = arena_size a" by blast
  with Cons.IH [OF this(2)] show ?case by (auto intro: rtranclp_trans)
qed

text \<open>The arena after merging.\<close>

definition threaded :: "threadable_message list \<Rightarrow> arena" where
  "threaded ms = fst (the (merge_roots (root_set (link_messages ms)) (link_messages ms, Map.empty)))"

lemma threaded_spec:
  shows "build_threads ms = Some (if ms = [] then []
      else collect_groups (threaded ms) (root_set (threaded ms)) (replicate (arena_size (threaded ms)) False))"
    and "arena_inv (threaded ms)" "arena_extends (link_messages ms) (threaded ms)"
    and "arena_size (threaded ms) = arena_size (link_messages ms)"
    and "arena_size (threaded ms) \<le> MAX_DEPTH \<Longrightarrow> acyclic (parent_rel (threaded ms))"
proof -
  let ?a = "link_messages ms"
  have inv: "arena_inv ?a" "arena_size ?a \<le> MAX_DEPTH \<longrightarrow> acyclic (parent_rel ?a)"
    using link_messages_inv by blast+
  then have "merge_inv (root_set ?a) (?a, Map.empty)"
    by (auto simp: merge_inv_def root_set_def)
  from merge_roots_total [OF this] obtain a' sm where m: "merge_roots (root_set ?a) (?a, Map.empty) = Some (a', sm)"
    "arena_inv a'" "arena_step\<^sup>*\<^sup>* ?a a'" "arena_size a' = arena_size ?a" by blast
  then have t: "threaded ms = a'" by (simp add: threaded_def)
  note e = arena_steps_inv [OF m(3) inv(1)]
  show "build_threads ms = Some (if ms = [] then []
      else collect_groups (threaded ms) (root_set (threaded ms)) (replicate (arena_size (threaded ms)) False))"
    using m(1) by (simp add: build_threads_def t Let_def)
  show "arena_inv (threaded ms)" "arena_extends ?a (threaded ms)" using m(2) e by (simp_all add: t)
  show "arena_size (threaded ms) = arena_size ?a" using m(4) by (simp add: t)
  show "acyclic (parent_rel (threaded ms))" if "arena_size (threaded ms) \<le> MAX_DEPTH"
    using e inv(2) that by (auto simp: t arena_extends_def)
qed

section \<open>The depth-first collection\<close>

definition seen :: "bool list \<Rightarrow> nat set" where
  "seen visited = {i. i < length visited \<and> visited ! i}"

lemma seen_mark: "i < length v \<Longrightarrow> seen (v[i := True]) = insert i (seen v)"
  by (auto simp: seen_def nth_list_update)

lemma seen_replicate [simp]: "seen (replicate n False) = {}"
  by (auto simp: seen_def)

text \<open>
  What a collection from the containers \<open>S\<close> does: it visits new containers \<open>ns\<close>, once each, and
  appends their messages; afterwards \<open>S\<close> and the children of every visited one are visited; every
  new one is in \<open>S\<close> or a child of a visited one.
\<close>

definition visits ::
  "arena \<Rightarrow> nat set \<Rightarrow> threadable_message list \<times> bool list \<Rightarrow> nat list \<Rightarrow> threadable_message list \<times> bool list \<Rightarrow> bool" where
  "visits a S st ns st' \<longleftrightarrow>
     length (snd st') = length (snd st) \<and> distinct ns
     \<and> seen (snd st') = seen (snd st) \<union> set ns \<and> seen (snd st) \<inter> set ns = {}
     \<and> fst st' = fst st @ List.map_filter (\<lambda>i. c_message (containers a ! i)) ns
     \<and> (\<forall>j \<in> S. j < length (snd st) \<longrightarrow> j \<in> seen (snd st'))
     \<and> (\<forall>i \<in> set ns. \<forall>j \<in> set (children_of a i). j < length (snd st) \<longrightarrow> j \<in> seen (snd st'))
     \<and> (\<forall>j \<in> set ns. j \<in> S \<or> (\<exists>i \<in> seen (snd st'). j \<in> set (children_of a i)))"

lemma visits_Nil: "\<forall>j \<in> S. j < length (snd st) \<longrightarrow> j \<in> seen (snd st) \<Longrightarrow> visits a S st [] st"
  by (simp add: visits_def List.map_filter_def)

lemma visits_append:
  assumes "visits a S st ns st1" "visits a T st1 ns' st2"
  shows "visits a (S \<union> T) st (ns @ ns') st2"
  using assms unfolding visits_def by (auto simp: map_filter_append)

lemma visits_mark:
  assumes "i < length v" "\<not> v ! i"
    and "visits a (set (children_of a i))
      (case c_message (containers a ! i) of None \<Rightarrow> res | Some m \<Rightarrow> res @ [m], v[i := True]) ns st'"
  shows "visits a {i} (res, v) (i # ns) st'"
proof -
  have "i \<notin> seen v" using assms(2) by (simp add: seen_def)
  moreover have "(case c_message (containers a ! i) of None \<Rightarrow> res | Some m \<Rightarrow> res @ [m]) @
      List.map_filter (\<lambda>i. c_message (containers a ! i)) ns =
      res @ List.map_filter (\<lambda>i. c_message (containers a ! i)) (i # ns)"
    by (cases "c_message (containers a ! i)") (simp_all add: map_filter_simps)
  ultimately show ?thesis
    using assms(1,3) unfolding visits_def by (auto simp: seen_mark; blast)
qed

lemma collect_visits:
  shows "\<exists>ns. visits a {idx} st ns (collect_messages a idx st)"
    and "\<exists>ns. visits a' (set cs) st' ns (collect_children a' cs st')"
proof (induction a idx st and a' cs st' rule: collect_messages_collect_children.induct)
  case (1 a idx result visited)
  show ?case
  proof (cases "idx \<ge> length visited \<or> visited ! idx")
    case True
    then have "visits a {idx} (result, visited) [] (result, visited)"
      by (intro visits_Nil) (auto simp: seen_def)
    with True show ?thesis by auto
  next
    case False
    from 1 [OF False] visits_mark [of idx visited a result] False show ?thesis
      by (fastforce simp: not_le)
  qed
next
  case (2 a st)
  show ?case using visits_Nil [of "{}" st a] by auto
next
  case (3 a child rest st)
  then show ?case using visits_append [of a "{child}" st _ "collect_messages a child st" "set rest"] by fastforce
qed

declare collect_messages.simps [simp del]

section \<open>The threads\<close>

text \<open>
  Visited sets that contain the parent of each member: then a child and its parent are visited by
  the same collection.
\<close>

definition upward :: "arena \<Rightarrow> nat set \<Rightarrow> bool" where
  "upward a V \<longleftrightarrow> (\<forall>j \<in> V. \<forall>p. parent_of a j = Some p \<longrightarrow> p \<in> V)"

definition messages_at :: "arena \<Rightarrow> nat list \<Rightarrow> threadable_message list" where
  "messages_at a ns = List.map_filter (\<lambda>i. c_message (containers a ! i)) ns"

text \<open>The containers visited for each root, in the order of the roots.\<close>

fun root_visits :: "arena \<Rightarrow> nat list \<Rightarrow> bool list \<Rightarrow> nat list list \<Rightarrow> bool" where
  "root_visits a [] v nss \<longleftrightarrow> nss = []"
| "root_visits a (r # rs) v nss \<longleftrightarrow>
     (\<exists>ns nss'. nss = ns # nss' \<and> visits a {r} ([], v) ns (collect_messages a r ([], v))
        \<and> root_visits a rs (snd (collect_messages a r ([], v))) nss')"

lemma root_visits_exist: "\<exists>nss. root_visits a rs v nss"
  by (induction rs arbitrary: v) (use collect_visits(1) in fastforce)+

lemma root_visits_length: "root_visits a rs v nss \<Longrightarrow> length rs = length nss"
  by (induction a rs v nss rule: root_visits.induct) auto

lemma collect_groups_eq:
  "root_visits a rs v nss \<Longrightarrow>
    collect_groups a rs v =
      map (\<lambda>(r, ns). thread_of a r (messages_at a ns)) (filter (\<lambda>(r, ns). messages_at a ns \<noteq> []) (zip rs nss))"
proof (induction a rs v nss rule: root_visits.induct)
  case (1 a v nss)
  then show ?case by simp
next
  case (2 a r rs v nss)
  then obtain ns nss' where nss: "nss = ns # nss'" "visits a {r} ([], v) ns (collect_messages a r ([], v))"
    "root_visits a rs (snd (collect_messages a r ([], v))) nss'" by auto
  then have "fst (collect_messages a r ([], v)) = messages_at a ns"
    by (simp add: visits_def messages_at_def)
  with nss 2(1) [of nss'] show ?case by (cases "collect_messages a r ([], v)") auto
qed

lemma root_visits_sets:
  assumes "links_inv a" "length v = arena_size a"
  shows "root_visits a rs v nss \<Longrightarrow> set rs \<subseteq> {..<arena_size a} \<Longrightarrow> (\<forall>r \<in> set rs. parent_of a r = None) \<Longrightarrow>
    upward a (seen v) \<Longrightarrow>
    distinct (concat nss) \<and> seen v \<inter> set (concat nss) = {} \<and> set (concat nss) \<subseteq> {..<arena_size a}
    \<and> set rs \<subseteq> seen v \<union> set (concat nss)
    \<and> (\<forall>ns \<in> set nss. \<forall>i \<in> set ns. \<forall>j \<in> set (children_of a i). j \<in> set ns)"
  using assms(2)
proof (induction rs arbitrary: v nss)
  case Nil
  then show ?case by simp
next
  case (Cons r rs)
  let ?st = "collect_messages a r ([], v)"
  from Cons.prems(1) obtain ns nss' where nss: "nss = ns # nss'" and vis: "visits a {r} ([], v) ns ?st"
    and rv: "root_visits a rs (snd ?st) nss'" by auto
  have len: "length (snd ?st) = arena_size a" and seen': "seen (snd ?st) = seen v \<union> set ns"
    and d: "distinct ns" "seen v \<inter> set ns = {}" and r: "r \<in> seen v \<union> set ns"
    using vis Cons.prems(2,5) by (auto simp: visits_def)
  have range: "set ns \<subseteq> {..<arena_size a}" using seen' len by (auto simp: seen_def)
  have kids: "j < arena_size a \<and> parent_of a j = Some i" if "j \<in> set (children_of a i)" "i < arena_size a" for i j
    using links_invD(3) [OF assms(1) that(2)] that(1) by simp
  have up: "upward a (seen (snd ?st))"
    unfolding upward_def
  proof (intro ballI allI impI)
    fix j p
    assume j: "j \<in> seen (snd ?st)" "parent_of a j = Some p"
    show "p \<in> seen (snd ?st)"
    proof (cases "j \<in> seen v")
      case True
      with j Cons.prems(4) seen' show ?thesis by (auto simp: upward_def)
    next
      case False
      with j seen' have "j \<in> set ns" by simp
      with vis obtain i where i: "j = r \<or> i \<in> seen (snd ?st) \<and> j \<in> set (children_of a i)"
        unfolding visits_def by blast
      have "j \<noteq> r" using j(2) Cons.prems(3) by auto
      with i have "i < arena_size a" using len by (auto simp: seen_def)
      with i \<open>j \<noteq> r\<close> kids [of j i] j(2) show ?thesis by auto
    qed
  qed
  have new: "\<forall>i \<in> set ns. \<forall>j \<in> set (children_of a i). j \<in> set ns"
  proof (intro ballI)
    fix i j
    assume i: "i \<in> set ns" "j \<in> set (children_of a i)"
    with range kids have j: "j < arena_size a" "parent_of a j = Some i" by auto
    then have "j \<in> seen (snd ?st)" using vis i Cons.prems(5) by (auto simp: visits_def)
    moreover have "j \<notin> seen v" using j(2) i(1) d(2) Cons.prems(4) by (auto simp: upward_def)
    ultimately show "j \<in> set ns" using seen' by simp
  qed
  let ?N = "set (concat nss')"
  from Cons.IH [OF rv _ _ up len] Cons.prems(2,3) have IH: "distinct (concat nss')" "seen (snd ?st) \<inter> ?N = {}"
    "?N \<subseteq> {..<arena_size a}" "set rs \<subseteq> seen (snd ?st) \<union> ?N"
    "\<forall>ns \<in> set nss'. \<forall>i \<in> set ns. \<forall>j \<in> set (children_of a i). j \<in> set ns" by simp_all
  have "set (concat nss) = set ns \<union> ?N" "concat nss = ns @ concat nss'" by (simp_all add: nss)
  moreover have "distinct (ns @ concat nss')" using IH(1,2) d(1) unfolding seen' distinct_append by blast
  moreover have "seen v \<inter> (set ns \<union> ?N) = {}" using IH(2) d(2) unfolding seen' by blast
  moreover have "set (r # rs) \<subseteq> seen v \<union> (set ns \<union> ?N)" using IH(4) r unfolding seen' by auto
  moreover have "set ns \<union> ?N \<subseteq> {..<arena_size a}" using IH(3) range by simp
  moreover have "\<forall>ns \<in> set nss. \<forall>i \<in> set ns. \<forall>j \<in> set (children_of a i). j \<in> set ns"
    using new IH(5) by (simp add: nss)
  ultimately show ?case by metis
qed

section \<open>The messages of the threads\<close>

lemma mset_map_filter:
  "mset (List.map_filter f xs) = image_mset (the \<circ> f) (filter_mset (\<lambda>x. f x \<noteq> None) (mset xs))"
  by (simp add: List.map_filter_def)

lemma map_filter_nth: "List.map_filter f xs = List.map_filter (\<lambda>i. f (xs ! i)) [0..<length xs]"
proof -
  have "List.map_filter f (map g ys) = List.map_filter (\<lambda>i. f (g i)) ys" for g :: "nat \<Rightarrow> _" and ys
    by (induction ys) (simp_all add: map_filter_simps split: option.splits)
  then show ?thesis by (metis map_nth)
qed

lemma stored_messages_at: "stored a = mset (messages_at a [0..<arena_size a])"
  unfolding stored_def messages_at_def by (subst map_filter_nth) simp

lemma messages_at_append: "messages_at a (xs @ ys) = messages_at a xs @ messages_at a ys"
  by (simp add: messages_at_def map_filter_append)

lemma collect_groups_mset:
  "root_visits a rs v nss \<Longrightarrow>
    mset (concat (map message_ids (collect_groups a rs v))) = mset (map tm_id (messages_at a (concat nss)))"
proof (induction a rs v nss rule: root_visits.induct)
  case (1 a v nss)
  then show ?case by (simp add: messages_at_def List.map_filter_def)
next
  case (2 a r rs v nss)
  then obtain ns nss' where nss: "nss = ns # nss'" "visits a {r} ([], v) ns (collect_messages a r ([], v))"
    "root_visits a rs (snd (collect_messages a r ([], v))) nss'" by auto
  then have "fst (collect_messages a r ([], v)) = messages_at a ns"
    by (simp add: visits_def messages_at_def)
  with nss 2(1) [of nss'] show ?case
    by (cases "collect_messages a r ([], v)") (auto simp: thread_of_def messages_at_append)
qed

text \<open>The containers of the final forest, root by root.\<close>

lemma threaded_visits:
  obtains nss where "root_visits (threaded ms) (root_set (threaded ms)) (replicate (arena_size (threaded ms)) False) nss"
    and "distinct (concat nss)" "set (concat nss) \<subseteq> {..<arena_size (threaded ms)}"
    and "set (root_set (threaded ms)) \<subseteq> set (concat nss)"
    and "\<And>ns i j. ns \<in> set nss \<Longrightarrow> i \<in> set ns \<Longrightarrow> j \<in> set (children_of (threaded ms) i) \<Longrightarrow> j \<in> set ns"
proof -
  let ?A = "threaded ms"
  have l: "links_inv ?A" using threaded_spec(2) by (simp add: arena_inv_def)
  obtain nss where rv: "root_visits ?A (root_set ?A) (replicate (arena_size ?A) False) nss"
    using root_visits_exist by blast
  have "set (root_set ?A) \<subseteq> {..<arena_size ?A}" "\<forall>r \<in> set (root_set ?A). parent_of ?A r = None"
    by (auto simp: root_set_def)
  from root_visits_sets [OF l _ rv this] have s: "distinct (concat nss)" "set (concat nss) \<subseteq> {..<arena_size ?A}"
    "set (root_set ?A) \<subseteq> set (concat nss)"
    "\<forall>ns \<in> set nss. \<forall>i \<in> set ns. \<forall>j \<in> set (children_of ?A i). j \<in> set ns"
    by (simp_all add: upward_def)
  show thesis by (rule that [OF rv s(1-3)]) (use s(4) in blast)
qed

lemma threads_mset:
  assumes "build_threads ms = Some gs" "ms \<noteq> []"
    and "root_visits (threaded ms) (root_set (threaded ms)) (replicate (arena_size (threaded ms)) False) nss"
  shows "mset (concat (map message_ids gs)) = mset (map tm_id (messages_at (threaded ms) (concat nss)))"
  using collect_groups_mset [OF assms(3)] assms(1,2) threaded_spec(1) [of ms] by simp

lemma messages_at_mono:
  "mset xs \<subseteq># mset ys \<Longrightarrow> mset (map tm_id (messages_at a xs)) \<subseteq># mset (map tm_id (messages_at a ys))"
  by (auto simp: messages_at_def mset_map_filter intro!: image_mset_subseteq_mono multiset_filter_mono)

lemma stored_threaded: "mset (messages_at (threaded ms) [0..<arena_size (threaded ms)]) = stored (link_messages ms)"
  using threaded_spec(3) [of ms] by (simp add: arena_extends_def flip: stored_messages_at)

lemma build_threads_once:
  assumes "build_threads ms = Some gs"
  shows "mset (concat (map message_ids gs)) \<subseteq># mset (map tm_id ms)"
proof (cases "ms = []")
  case True
  with assms show ?thesis by (simp add: build_threads_def)
next
  case False
  let ?A = "threaded ms"
  obtain nss where n: "root_visits ?A (root_set ?A) (replicate (arena_size ?A) False) nss"
    "distinct (concat nss)" "set (concat nss) \<subseteq> {..<arena_size ?A}" by (rule threaded_visits)
  have "mset (concat nss) \<subseteq># mset [0..<arena_size ?A]"
    using n(2,3) by (metis atLeast_upt distinct_upt mset_set_set set_upt subset_imp_msubset_mset_set finite_lessThan)
  then have "mset (concat (map message_ids gs)) \<subseteq># mset (map tm_id (messages_at ?A [0..<arena_size ?A]))"
    unfolding threads_mset [OF assms False n(1)] by (rule messages_at_mono)
  also have "\<dots> = image_mset tm_id (stored (link_messages ms))" by (simp add: stored_threaded)
  also have "\<dots> \<subseteq># mset (map tm_id ms)"
    using link_messages_inv [of ms] by (simp add: image_mset_subseteq_mono)
  finally show ?thesis .
qed

lemma acyclic_closed_all:
  assumes "links_inv a" "acyclic (parent_rel a)"
    and "set (root_set a) \<subseteq> N" "\<And>i j. i \<in> N \<Longrightarrow> j \<in> set (children_of a i) \<Longrightarrow> j \<in> N"
  shows "{..<arena_size a} \<subseteq> N"
proof
  have wf: "wf ((parent_rel a)\<inverse>)"
    using assms(1,2) finite_acyclic_wf_converse finite_parent_rel by blast
  fix i
  assume "i \<in> {..<arena_size a}"
  with wf show "i \<in> N"
  proof (induction i rule: wf_induct_rule)
    case (less i)
    show ?case
    proof (cases "parent_of a i")
      case None
      with less.prems assms(3) show ?thesis by (auto simp: root_set_def)
    next
      case (Some p)
      then have "p < arena_size a" using links_invD(2) [OF assms(1)] less.prems by simp
      with less Some have "p \<in> N" by (simp add: parent_rel_def)
      moreover have "i \<in> set (children_of a p)"
        using links_invD(3) [OF assms(1) \<open>p < arena_size a\<close>] Some less.prems by simp
      ultimately show ?thesis using assms(4) by blast
    qed
  qed
qed

lemma build_threads_partition:
  assumes "arena_size (link_messages ms) \<le> MAX_DEPTH" "distinct (map tm_message_id ms)"
  shows "\<exists>gs. build_threads ms = Some gs \<and> mset (concat (map message_ids gs)) = mset (map tm_id ms)"
proof (cases "ms = []")
  case True
  then show ?thesis by (simp add: build_threads_def)
next
  case False
  let ?A = "threaded ms"
  obtain gs where gs: "build_threads ms = Some gs" using threaded_spec(1) by blast
  obtain nss where n: "root_visits ?A (root_set ?A) (replicate (arena_size ?A) False) nss"
    "distinct (concat nss)" "set (concat nss) \<subseteq> {..<arena_size ?A}" "set (root_set ?A) \<subseteq> set (concat nss)"
    "\<And>ns i j. ns \<in> set nss \<Longrightarrow> i \<in> set ns \<Longrightarrow> j \<in> set (children_of ?A i) \<Longrightarrow> j \<in> set ns"
    by (rule threaded_visits) blast
  have "{..<arena_size ?A} \<subseteq> set (concat nss)"
  proof (rule acyclic_closed_all)
    show "links_inv ?A" using threaded_spec(2) by (simp add: arena_inv_def)
    show "acyclic (parent_rel ?A)" using assms(1) threaded_spec(4,5) by simp
    show "set (root_set ?A) \<subseteq> set (concat nss)" by (rule n(4))
    show "j \<in> set (concat nss)" if "i \<in> set (concat nss)" "j \<in> set (children_of ?A i)" for i j
      using that n(5) by (metis UN_iff set_concat)
  qed
  with n(2,3) have "mset (concat nss) = mset [0..<arena_size ?A]"
    by (metis atLeast_upt distinct_upt set_eq_iff_mset_eq_distinct set_upt subset_antisym)
  then have "mset (map tm_id (messages_at ?A (concat nss))) = mset (map tm_id (messages_at ?A [0..<arena_size ?A]))"
    by (simp add: messages_at_def mset_map_filter)
  also have "\<dots> = mset (map tm_id ms)"
    using link_messages_inv [of ms] assms(2) by (simp add: stored_threaded)
  finally show ?thesis using gs threads_mset [OF gs False n(1)] by simp
qed

end
