(* ===== verification/SyncReplies.thy ===== *)
theory SyncReplies
  imports SyncThreads
begin

text \<open>
  A reply joins the thread of the message it answers: the link a message adds when it arrives is
  kept by everything that follows.
\<close>

section \<open>The identifiers of the arena\<close>

definition mentioned :: "threadable_message list \<Rightarrow> string set" where
  "mentioned ms = (\<Union>m \<in> set ms. insert (tm_message_id m) (set (reference_chain m)))"

lemma link_id_table [simp]: "id_table (link_parent_child p c a) = id_table a"
  by (simp add: link_parent_child_def unlink_from_parent_def split: option.splits)

lemma get_or_create_dom: "get_or_create k a = (i, a') \<Longrightarrow> dom (id_table a') = insert k (dom (id_table a))"
  by (auto simp: get_or_create_def Let_def split: option.splits)

lemma link_chain_dom:
  "link_chain ids prev a = (prev', a') \<Longrightarrow> dom (id_table a') = dom (id_table a) \<union> set ids"
proof (induction ids arbitrary: prev a)
  case (Cons k ids)
  from Cons.prems obtain i a1 a2 where c: "get_or_create k a = (i, a1)"
    and rest: "link_chain ids (Some i) a2 = (prev', a')"
    and a2: "a2 = a1 \<or> (\<exists>p. prev = Some p \<and> parent_of a1 i = None \<and> a2 = link_parent_child p i a1)"
    by (rule link_chain_ConsE)
  from a2 have "id_table a2 = id_table a1" by auto
  with Cons.IH [OF rest] get_or_create_dom [OF c] show ?case by auto
qed simp

lemma add_message_dom:
  "dom (id_table (add_message m a)) = dom (id_table a) \<union> insert (tm_message_id m) (set (reference_chain m))"
proof -
  obtain i a1 where c: "get_or_create (tm_message_id m) a = (i, a1)" by fastforce
  obtain prev a3 where ch: "link_chain (reference_chain m) None (set_container i (set_message m) a1) = (prev, a3)"
    by fastforce
  from c ch have "dom (id_table (add_message m a)) = dom (id_table a3)"
    by (simp add: add_message_def Let_def split: option.splits)
  with link_chain_dom [OF ch] get_or_create_dom [OF c] show ?thesis by auto
qed

lemma link_messages_dom: "dom (id_table (link_messages ms)) = mentioned ms"
proof (induction ms rule: rev_induct)
  case Nil
  then show ?case by (simp add: link_messages_def arena_new_def mentioned_def)
next
  case (snoc m ms)
  then show ?case by (auto simp: link_messages_snoc add_message_dom mentioned_def)
qed

lemma ids_invD:
  assumes "arena_inv a" "i < arena_size a" "j < arena_size a"
    and "c_message_id (containers a ! i) = c_message_id (containers a ! j)"
  shows "i = j"
  using assms by (metis arena_inv_def ids_inv_def option.inject)

section \<open>The link of an arriving message\<close>

text \<open>Linking a chain that does not name a childless container leaves it childless, and ends at the
  container of the last identifier.\<close>

lemma link_childless:
  assumes "arena_inv a" "p < arena_size a" "i < arena_size a" "c < arena_size a" "p \<noteq> c" "children_of a c = []"
  shows "children_of (link_parent_child p i a) c = []"
proof -
  have "links_inv a" using assms(1) by (simp add: arena_inv_def)
  from link_cases [OF this assms(2,3)] show ?thesis
    using linkedD(6) [of p i a "link_parent_child p i a" c] assms(4-6) by auto
qed

lemma link_message_id:
  assumes "arena_inv a" "p < arena_size a" "i < arena_size a" "j < arena_size a"
  shows "c_message_id (containers (link_parent_child p i a) ! j) = c_message_id (containers a ! j)"
  using link_inv(2,4) [OF assms(1-3)] assms(4) by (metis nth_map)

lemma link_chain_childless:
  assumes "link_chain ids prev a = (prev', a')" "arena_inv a" "c < arena_size a"
    and "\<And>p. prev = Some p \<Longrightarrow> p < arena_size a \<and> p \<noteq> c"
    and "children_of a c = []" "c_message_id (containers a ! c) \<notin> set ids"
  shows "children_of a' c = [] \<and> (\<forall>p. prev' = Some p \<longrightarrow> p \<noteq> c)
    \<and> (ids \<noteq> [] \<longrightarrow> (\<exists>p. prev' = Some p \<and> p < arena_size a' \<and> c_message_id (containers a' ! p) = last ids))"
  using assms
proof (induction ids arbitrary: prev a)
  case Nil
  then show ?case by auto
next
  case (Cons k ids)
  from Cons.prems(1) obtain i a1 a2 where cr: "get_or_create k a = (i, a1)"
    and rest: "link_chain ids (Some i) a2 = (prev', a')"
    and a2: "a2 = a1 \<or> (\<exists>p. prev = Some p \<and> parent_of a1 i = None \<and> a2 = link_parent_child p i a1)"
    by (rule link_chain_ConsE)
  note s = get_or_create_spec [OF Cons.prems(2) cr]
  have c1: "c < arena_size a1" "containers a1 ! c = containers a ! c" using s(5,6) Cons.prems(3) by auto
  have "i \<noteq> c" using s(3) c1(2) Cons.prems(6) by auto
  have prev: "p < arena_size a1 \<and> p \<noteq> c" if "prev = Some p" for p using Cons.prems(4) [OF that] s(5) by auto
  have i2: "arena_inv a2" "arena_size a2 = arena_size a1" "children_of a2 c = []"
    using a2 prev s(1,2) c1 Cons.prems(5) by (auto simp: link_inv link_childless)
  have ids2: "c_message_id (containers a2 ! j) = c_message_id (containers a1 ! j)" if "j < arena_size a1" for j
    using a2 prev s(1,2) that by (auto simp: link_message_id)
  have IH: "children_of a' c = [] \<and> (\<forall>p. prev' = Some p \<longrightarrow> p \<noteq> c)
    \<and> (ids \<noteq> [] \<longrightarrow> (\<exists>p. prev' = Some p \<and> p < arena_size a' \<and> c_message_id (containers a' ! p) = last ids))"
    by (rule Cons.IH [OF rest i2(1)]) (use i2 ids2 c1 s(2) \<open>i \<noteq> c\<close> Cons.prems(6) in auto)
  show ?case
  proof (cases "ids = []")
    case True
    with rest IH i2(2) ids2 [OF s(2)] s(2,3) show ?thesis by auto
  qed (use IH in simp)
qed

lemma add_message_links:
  assumes "arena_inv a" "tm_message_id m \<notin> dom (id_table a)" "tm_message_id m \<notin> set (reference_chain m)"
    and "reference_chain m \<noteq> []"
  shows "\<exists>c p. c < arena_size (add_message m a) \<and> c_message_id (containers (add_message m a) ! c) = tm_message_id m
    \<and> parent_of (add_message m a) c = Some p
    \<and> c_message_id (containers (add_message m a) ! p) = last (reference_chain m)"
proof -
  obtain c a1 where cr: "get_or_create (tm_message_id m) a = (c, a1)" by fastforce
  note s = get_or_create_spec [OF assms(1) cr]
  define a2 where "a2 = set_container c (set_message m) a1"
  have i2: "arena_inv a2" using s(1) by (simp add: a2_def set_message_spec)
  have c2: "c < arena_size a2" "children_of a2 c = []" "c_message_id (containers a2 ! c) = tm_message_id m"
    using cr assms(2) s(2,3)
    by (auto simp: a2_def set_container_nth set_message_def get_or_create_def Let_def dom_def split: option.splits)
  obtain prev a3 where ch: "link_chain (reference_chain m) None a2 = (prev, a3)" by fastforce
  note k = link_chain_childless [OF ch i2 c2(1) _ c2(2)]
  from k assms(3,4) c2(3) obtain p where p: "prev = Some p" "p < arena_size a3" "p \<noteq> c"
    "c_message_id (containers a3 ! p) = last (reference_chain m)" "children_of a3 c = []" by auto
  from link_chain_steps [OF ch i2] have "arena_step\<^sup>*\<^sup>* a2 a3" by simp
  from arena_steps_inv [OF this i2] have i3: "arena_inv a3" "arena_extends a2 a3" by blast+
  then have c3: "c < arena_size a3" "c_message_id (containers a3 ! c) = tm_message_id m"
    using c2 by (auto simp: arena_extends_def)
  have l3: "links_inv a3" using i3(1) by (simp add: arena_inv_def)
  have "(i, c) \<notin> parent_rel a3" for i
    using links_invD(3) [OF l3 c3(1), of i] p(5) by (auto simp: parent_rel_def)
  then have "\<not> is_ancestor a3 p c"
    using ancestor_walk_sound [OF _ l3 refl p(2), of c 0] p(3) by (auto simp: is_ancestor_def elim: rtranclE)
  with link_cases [OF l3 p(2) c3(1)] have "parent_of (link_parent_child p c a3) c = Some p"
    using linkedD(5) [of p c a3] c3(1) by fastforce
  moreover have "add_message m a = link_parent_child p c a3"
    using cr ch p(1,3) by (simp add: add_message_def a2_def)
  ultimately show ?thesis
    using p(2,4) c3 link_inv(2) [OF i3(1) p(2) c3(1)] link_message_id [OF i3(1) p(2) c3(1)] by auto
qed

section \<open>The link is kept\<close>

lemma link_chain_keeps_parent:
  assumes "link_chain ids prev a = (prev', a')" "arena_inv a" "c < arena_size a"
    and "\<And>p. prev = Some p \<Longrightarrow> p < arena_size a" "parent_of a c = Some q"
  shows "parent_of a' c = Some q"
  using assms
proof (induction ids arbitrary: prev a)
  case (Cons k ids)
  from Cons.prems(1) obtain i a1 a2 where cr: "get_or_create k a = (i, a1)"
    and rest: "link_chain ids (Some i) a2 = (prev', a')"
    and a2: "a2 = a1 \<or> (\<exists>p. prev = Some p \<and> parent_of a1 i = None \<and> a2 = link_parent_child p i a1)"
    by (rule link_chain_ConsE)
  note s = get_or_create_spec [OF Cons.prems(2) cr]
  have l1: "links_inv a1" using s(1) by (simp add: arena_inv_def)
  have c1: "c < arena_size a1" "parent_of a1 c = Some q" using s(5,6) Cons.prems(3,5) by auto
  have "arena_inv a2 \<and> arena_size a2 = arena_size a1 \<and> parent_of a2 c = Some q"
    using a2
  proof
    assume "\<exists>p. prev = Some p \<and> parent_of a1 i = None \<and> a2 = link_parent_child p i a1"
    then obtain p where p: "prev = Some p" "parent_of a1 i = None" "a2 = link_parent_child p i a1" by blast
    then have "p < arena_size a1" "c \<noteq> i" using Cons.prems(4) s(5) c1(2) by auto
    with p link_inv [OF s(1) _ s(2)] link_keeps_parent [OF l1 _ s(2) c1(1)] c1(2) show ?thesis by simp
  qed (use s(1) c1 in simp)
  with Cons.IH [OF rest] c1 s(2) show ?case by simp
qed simp

lemma add_message_keeps_parent:
  assumes "arena_inv a" "c < arena_size a" "parent_of a c = Some q"
    and "c_message_id (containers a ! c) \<noteq> tm_message_id m"
  shows "parent_of (add_message m a) c = Some q"
proof -
  obtain i a1 where cr: "get_or_create (tm_message_id m) a = (i, a1)" by fastforce
  note s = get_or_create_spec [OF assms(1) cr]
  define a2 where "a2 = set_container i (set_message m) a1"
  have i2: "arena_inv a2" using s(1) by (simp add: a2_def set_message_spec)
  have "i \<noteq> c" using s(3,6) assms(2,4) by auto
  then have c2: "c < arena_size a2" "parent_of a2 c = Some q"
    using s(5,6) assms(2,3) by (auto simp: a2_def set_container_nth)
  obtain prev a3 where ch: "link_chain (reference_chain m) None a2 = (prev, a3)" by fastforce
  from link_chain_steps [OF ch i2] have st: "arena_step\<^sup>*\<^sup>* a2 a3" "\<forall>p. prev = Some p \<longrightarrow> p < arena_size a3"
    by simp_all
  from arena_steps_inv [OF st(1) i2] have i3: "arena_inv a3" "arena_size a2 \<le> arena_size a3"
    by (auto simp: arena_extends_def)
  have c3: "parent_of a3 c = Some q" by (rule link_chain_keeps_parent [OF ch i2 c2(1) _ c2(2)]) simp
  have "i < arena_size a3" "c < arena_size a3" using s(2) c2(1) i3(2) by (auto simp: a2_def)
  moreover have "add_message m a = (case prev of None \<Rightarrow> a3 | Some p \<Rightarrow> if p \<noteq> i then link_parent_child p i a3 else a3)"
    using cr ch by (simp add: add_message_def a2_def Let_def)
  ultimately show ?thesis
    using c3 st(2) link_keeps_parent [of a3 _ i c] i3(1) \<open>i \<noteq> c\<close> by (auto simp: arena_inv_def split: option.splits)
qed

lemma merge_roots_keeps_parent:
  "merge_inv rs (a, sm) \<Longrightarrow> merge_roots rs (a, sm) = Some (a', sm') \<Longrightarrow> c < arena_size a \<Longrightarrow> c \<notin> set rs \<Longrightarrow>
    c \<notin> ran sm \<Longrightarrow> parent_of a' c = parent_of a c"
proof (induction rs arbitrary: a sm)
  case (Cons r rs)
  from merge_root_total [OF Cons.prems(1)] obtain a1 sm1 where m: "merge_root r (a, sm) = Some (a1, sm1)"
    "merge_inv rs (a1, sm1)" "arena_size a1 = arena_size a" by blast
  from Cons.prems(1) have a: "links_inv a" "r < arena_size a" "\<And>k e. sm k = Some e \<Longrightarrow> e < arena_size a"
    by (auto simp: merge_inv_def arena_inv_def)
  have keep: "parent_of (link_parent_child p e a) c = parent_of a c"
    if "p < arena_size a" "e < arena_size a" "e \<noteq> c" for p e
    using link_keeps_parent [OF a(1) that(1,2) Cons.prems(3)] that(3) by simp
  have "parent_of a1 c = parent_of a c \<and> c \<notin> ran sm1"
  proof (cases "a1 = a")
    case True
    with m(1) Cons.prems(4,5) show ?thesis
      by (auto simp: merge_root_def Let_def ran_def split: option.splits if_splits)
  next
    case False
    with m(1) obtain k e where e: "sm k = Some e" "a1 = link_parent_child e r a \<and> sm1 = sm
        \<or> a1 = link_parent_child r e a \<and> sm1 = sm(k \<mapsto> r)"
      by (auto simp: merge_root_def Let_def split: option.splits if_splits)
    have "e \<noteq> c" "r \<noteq> c" using e(1) Cons.prems(4,5) by (auto simp: ran_def)
    with e a keep [OF _ a(2)] keep [OF a(2)] Cons.prems(5) show ?thesis by (auto simp: ran_def split: if_splits)
  qed
  with Cons.IH [OF m(2)] Cons.prems(2-4) m(1,3) show ?case by auto
qed simp

lemma threaded_keeps_parent:
  assumes "c < arena_size (link_messages ms)" "parent_of (link_messages ms) c = Some q"
  shows "parent_of (threaded ms) c = Some q"
proof -
  let ?a = "link_messages ms"
  have "arena_inv ?a" using link_messages_inv by blast
  then have mi: "merge_inv (root_set ?a) (?a, Map.empty)" by (auto simp: merge_inv_def root_set_def)
  from merge_roots_total [OF this] obtain a' sm where m: "merge_roots (root_set ?a) (?a, Map.empty) = Some (a', sm)"
    by blast
  have "c \<notin> set (root_set ?a)" using assms(2) by (simp add: root_set_def)
  from merge_roots_keeps_parent [OF mi m assms(1) this] assms(2) m show ?thesis by (simp add: threaded_def)
qed

section \<open>Replies\<close>

lemma link_messages_keeps_parent:
  assumes "c < arena_size (link_messages pre)" "parent_of (link_messages pre) c = Some q" "q < arena_size (link_messages pre)"
    and "\<forall>m \<in> set post. c_message_id (containers (link_messages pre) ! c) \<noteq> tm_message_id m"
  shows "arena_size (link_messages pre) \<le> arena_size (link_messages (pre @ post))
    \<and> parent_of (link_messages (pre @ post)) c = Some q
    \<and> (\<forall>j \<in> {c, q}. c_message_id (containers (link_messages (pre @ post)) ! j) =
         c_message_id (containers (link_messages pre) ! j))"
  using assms(4)
proof (induction post rule: rev_induct)
  case Nil
  with assms show ?case by simp
next
  case (snoc m post)
  let ?a = "link_messages (pre @ post)"
  have inv: "arena_inv ?a" "labelled ?a" using link_messages_inv by blast+
  from snoc have IH: "arena_size (link_messages pre) \<le> arena_size ?a" "parent_of ?a c = Some q"
    "\<forall>j \<in> {c, q}. c_message_id (containers ?a ! j) = c_message_id (containers (link_messages pre) ! j)" by auto
  have c: "c < arena_size ?a" "q < arena_size ?a" using IH(1) assms(1,3) by auto
  have "parent_of (add_message m ?a) c = Some q"
    by (rule add_message_keeps_parent [OF inv(1) c(1) IH(2)]) (use IH(3) snoc.prems in auto)
  moreover have "c_message_id (containers (add_message m ?a) ! j) = c_message_id (containers ?a ! j)"
    if "j < arena_size ?a" for j by (rule add_message_spec(7) [OF inv that])
  ultimately show ?case
    using IH c add_message_spec(5) [OF inv, where m = m] link_messages_snoc [of "pre @ post" m] by auto
qed

lemma reply_parent:
  assumes "ms = pre @ m # post" "distinct (map tm_message_id ms)"
    and "tm_message_id m \<notin> mentioned pre" "tm_message_id m \<notin> set (reference_chain m)" "reference_chain m \<noteq> []"
  shows "\<exists>c p. c < arena_size (threaded ms) \<and> p < arena_size (threaded ms)
    \<and> parent_of (threaded ms) c = Some p
    \<and> c_message_id (containers (threaded ms) ! c) = tm_message_id m
    \<and> c_message_id (containers (threaded ms) ! p) = last (reference_chain m)"
proof -
  have inv: "arena_inv (link_messages pre)" "arena_inv (link_messages (pre @ [m]))" using link_messages_inv by blast+
  have "tm_message_id m \<notin> dom (id_table (link_messages pre))" using assms(3) by (simp add: link_messages_dom)
  from add_message_links [OF inv(1) this assms(4,5)] obtain c p where cp: "c < arena_size (link_messages (pre @ [m]))"
    "c_message_id (containers (link_messages (pre @ [m])) ! c) = tm_message_id m"
    "parent_of (link_messages (pre @ [m])) c = Some p"
    "c_message_id (containers (link_messages (pre @ [m])) ! p) = last (reference_chain m)"
    by (auto simp: link_messages_snoc)
  have p: "p < arena_size (link_messages (pre @ [m]))"
    using links_invD(2) [OF _ cp(1,3)] inv(2) by (simp add: arena_inv_def)
  have "\<forall>m' \<in> set post. tm_message_id m \<noteq> tm_message_id m'" using assms(1,2) by auto
  with link_messages_keeps_parent [OF cp(1,3) p, of post] cp(2,4) assms(1)
  have k: "arena_size (link_messages (pre @ [m])) \<le> arena_size (link_messages ms)"
    "parent_of (link_messages ms) c = Some p"
    "c_message_id (containers (link_messages ms) ! c) = tm_message_id m"
    "c_message_id (containers (link_messages ms) ! p) = last (reference_chain m)" by simp_all
  with cp(1) p have "c < arena_size (link_messages ms)" "p < arena_size (link_messages ms)" by auto
  with k threaded_keeps_parent [OF this(1) k(2)] threaded_spec(3,4) [of ms] show ?thesis
    by (auto simp: arena_extends_def)
qed

lemma message_at:
  assumes "distinct (map tm_message_id ms)" "m \<in> set ms" "c < arena_size (threaded ms)"
    and "c_message_id (containers (threaded ms) ! c) = tm_message_id m"
  shows "c_message (containers (threaded ms) ! c) = Some m"
proof -
  let ?A = "threaded ms"
  have "stored ?A = mset ms" "labelled (link_messages ms)" "arena_extends (link_messages ms) ?A"
    using link_messages_inv [of ms] threaded_spec(3) [of ms] assms(1) by (auto simp: arena_extends_def)
  then have "labelled ?A" "m \<in># mset (messages_at ?A [0..<arena_size ?A])"
    using extends_labelled assms(2) by (auto simp flip: stored_messages_at)
  then obtain i where i: "i < arena_size ?A" "c_message (containers ?A ! i) = Some m"
    by (auto simp: messages_at_def List.map_filter_def)
  with \<open>labelled ?A\<close> have "c_message_id (containers ?A ! i) = c_message_id (containers ?A ! c)"
    by (simp add: labelled_def assms(4))
  then have "i = c" by (rule ids_invD [OF threaded_spec(2) i(1) assms(3)])
  with i show ?thesis by simp
qed

lemma child_in_thread:
  assumes "arena_size (link_messages ms) \<le> MAX_DEPTH" "build_threads ms = Some gs" "ms \<noteq> []"
    and "c < arena_size (threaded ms)" "parent_of (threaded ms) c = Some p"
    and "c_message (containers (threaded ms) ! c) = Some m" "c_message (containers (threaded ms) ! p) = Some m'"
  shows "\<exists>gr \<in> set gs. tm_id m \<in> set (message_ids gr) \<and> tm_id m' \<in> set (message_ids gr)"
proof -
  let ?A = "threaded ms"
  have l: "links_inv ?A" and ac: "acyclic (parent_rel ?A)"
    using threaded_spec(2,4,5) [of ms] assms(1) by (simp_all add: arena_inv_def)
  obtain nss where n: "root_visits ?A (root_set ?A) (replicate (arena_size ?A) False) nss"
    "set (root_set ?A) \<subseteq> set (concat nss)"
    "\<And>ns i j. ns \<in> set nss \<Longrightarrow> i \<in> set ns \<Longrightarrow> j \<in> set (children_of ?A i) \<Longrightarrow> j \<in> set ns"
    by (rule threaded_visits) blast
  have p: "p < arena_size ?A" "c \<in> set (children_of ?A p)"
    using links_invD(2) [OF l assms(4,5)] links_invD(3) [OF l, of p c] assms(4,5) by auto
  have "{..<arena_size ?A} \<subseteq> set (concat nss)"
    by (rule acyclic_closed_all [OF l ac n(2)]) (metis UN_iff n(3) set_concat)
  then obtain ns where ns: "ns \<in> set nss" "p \<in> set ns" using p(1) by auto
  then have "c \<in> set ns" using n(3) p(2) by blast
  with ns(2) assms(6,7) have at: "m \<in> set (messages_at ?A ns)" "m' \<in> set (messages_at ?A ns)"
    by (force simp: messages_at_def List.map_filter_def)+
  from root_visits_length [OF n(1)] ns(1) obtain r where "(r, ns) \<in> set (zip (root_set ?A) nss)"
    by (metis in_set_impl_in_set_zip2)
  with at(1) have "thread_of ?A r (messages_at ?A ns) \<in> set gs"
    using assms(2,3) threaded_spec(1) [of ms] collect_groups_eq [OF n(1)] by (force simp: image_iff)
  with at show ?thesis by (force simp: thread_of_def)
qed

end
