(* ===== verification/SyncText.thy ===== *)
theory SyncText
  imports SyncThreading
begin

text \<open>
  Subjects, references and thread identifiers: normalization of subjects, the round trip of a
  References header, the hexadecimal hash, and the merging of identifier lists.
\<close>

section \<open>Subjects\<close>

lemma strip_loop_fixed: "strip_tag s = None \<Longrightarrow> strip_reply s = None \<Longrightarrow> strip_loop s = s"
  by (simp add: strip_loop.simps)

lemma strip_loop_result:
  "trim_start s = s \<Longrightarrow>
    strip_tag (strip_loop s) = None \<and> strip_reply (strip_loop s) = None \<and> trim_start (strip_loop s) = strip_loop s"
proof (induction s rule: measure_induct_rule [of length])
  case (less s)
  have tag: "trim_start r = r" if "strip_tag s = Some r" for r
    using that by (auto simp: strip_tag_def split: list.splits if_splits char.splits bool.splits)
  have reply: "trim_start r = r" if "strip_reply x = Some r" for x r
    using that by (auto simp: strip_reply_def)
  show ?case
  proof (cases "strip_tag s")
    case None
    then show ?thesis
      using less.IH less.prems reply [of s] strip_reply_length [of s]
      by (cases "strip_reply s") (simp_all add: strip_loop.simps [of s])
  next
    case (Some r)
    then show ?thesis
      using less.IH tag [OF Some] reply [of r] strip_tag_length [OF Some] strip_reply_length [of r]
      by (cases "strip_reply r") (simp_all add: strip_loop.simps [of s])
  qed
qed

lemma strip_tag_prefix: "strip_tag (a @ z) = None \<Longrightarrow> strip_tag a = None"
  by (auto simp: strip_tag_def split: list.splits if_splits char.splits bool.splits)

lemma starts_with_lower_prefix: "starts_with_lower p a \<Longrightarrow> starts_with_lower p (a @ z)"
proof -
  assume "starts_with_lower p a"
  then have "length (map ascii_lower_char (take (length p) a)) = length p" by (simp add: starts_with_lower_def)
  then have "length p \<le> length a" by simp
  with \<open>starts_with_lower p a\<close> show ?thesis by (simp add: starts_with_lower_def)
qed

lemma strip_reply_prefix: "strip_reply (a @ z) = None \<Longrightarrow> strip_reply a = None"
  using starts_with_lower_prefix by (auto simp: strip_reply_def find_None_iff)

lemma normalize_subject_idem:
  "normalize_subject (Some (normalize_subject s)) = normalize_subject s"
proof (cases s)
  case None
  then show ?thesis by (simp add: normalize_subject_def strip_loop_fixed strip_tag_def strip_reply_def
        starts_with_lower_def reply_prefixes_def)
next
  case (Some t)
  let ?r = "strip_loop (trim t)"
  have r: "strip_tag ?r = None" "strip_reply ?r = None" "trim_start ?r = ?r"
    using strip_loop_result [of "trim t"] by auto
  obtain z where z: "?r = trim ?r @ z" using trim_end_prefix [of ?r] r(3) by (auto simp: trim_def)
  have "strip_tag (trim ?r) = None" using r(1) z strip_tag_prefix by metis
  moreover have "strip_reply (trim ?r) = None" using r(2) z strip_reply_prefix by metis
  ultimately show ?thesis by (simp add: normalize_subject_def Some strip_loop_fixed)
qed

text \<open>The spellings of the prefixes that mail programs produce.\<close>

definition common_prefixes :: "string list" where
  "common_prefixes = [''Re:'', ''RE:'', ''re:'', ''Fwd:'', ''FWD:'', ''fwd:'', ''Fw:'', ''FW:'', ''fw:'']"

lemma ascii_lower_letters:
  "ascii_lower_char CHR ''R'' = CHR ''r''" "ascii_lower_char CHR ''E'' = CHR ''e''"
  "ascii_lower_char CHR ''F'' = CHR ''f''" "ascii_lower_char CHR ''W'' = CHR ''w''"
  "ascii_lower_char CHR ''D'' = CHR ''d''" "ascii_lower_char CHR ''r'' = CHR ''r''"
  "ascii_lower_char CHR ''e'' = CHR ''e''" "ascii_lower_char CHR ''f'' = CHR ''f''"
  "ascii_lower_char CHR ''w'' = CHR ''w''" "ascii_lower_char CHR ''d'' = CHR ''d''"
  "ascii_lower_char CHR '':'' = CHR '':''"
  by code_simp+

lemma strip_common_prefix:
  assumes "p \<in> set common_prefixes"
  shows "strip_tag (p @ s) = None" "strip_reply (p @ s) = Some (trim_start s)"
  using assms
  by (auto simp: common_prefixes_def strip_tag_def strip_reply_def reply_prefixes_def starts_with_lower_def
      ascii_lower_letters)

lemma strip_loop_common_prefix:
  "p \<in> set common_prefixes \<Longrightarrow> strip_loop (p @ s) = strip_loop (trim_start s)"
  by (simp add: strip_loop.simps [of "p @ s"] strip_common_prefix)

lemma common_prefix_chars:
  assumes "p \<in> set common_prefixes"
  shows "is_ascii p" "p \<noteq> []" "\<not> is_whitespace [hd p]" "\<not> is_whitespace [last p]"
  using assms by (auto simp: common_prefixes_def is_ascii_def is_whitespace_def)

lemma trim_common_prefix:
  assumes p: "p \<in> set common_prefixes" and s: "\<not> starts_extending is_continuation s"
  shows "trim_start (drop (length p) (trim (p @ '' '' @ s))) = trim s \<and> take (length p) (trim (p @ '' '' @ s)) = p"
proof -
  let ?w = is_whitespace
  note c = common_prefix_chars [OF p]
  have cp: "utf8_chars p = map (\<lambda>c. [c]) p" by (rule utf8_chars_ascii [OF c(1)])
  have sp: "utf8_chars ('' '' @ s) = [CHR '' ''] # utf8_chars s"
    using utf8_chars_append [OF s, of "'' ''"] by (simp add: utf8_chars_ascii is_ascii_def)
  have all: "utf8_chars (p @ '' '' @ s) = utf8_chars p @ [CHR '' ''] # utf8_chars s"
    using utf8_chars_append [of "'' '' @ s" p] sp by (simp add: starts_extending_def is_continuation_def)
  have w: "?w '' ''" by (simp add: is_whitespace_def)
  have start: "dropWhile ?w (utf8_chars p @ ys) = utf8_chars p @ ys" for ys
    by (rule dropWhile_hd) (use c in \<open>simp add: cp hd_map\<close>)
  have "\<exists>x \<in> set (utf8_chars p). \<not> ?w x" using c(2,3) by (auto simp: cp intro!: bexI [of _ "hd p"])
  have pend: "rev (dropWhile ?w (rev (utf8_chars p))) = utf8_chars p"
    using dropWhile_hd [of "rev (utf8_chars p)" ?w] c by (simp add: cp hd_rev last_map)
  show ?thesis
  proof (cases "\<forall>x \<in> set (utf8_chars s). ?w x")
    case True
    have "drop_ends ?w (utf8_chars (p @ '' '' @ s)) = utf8_chars p"
      unfolding all drop_ends_def start using True w pend by (simp add: dropWhile_append)
    then have "trim (p @ '' '' @ s) = p" by (intro utf8_chars_inj) (simp add: utf8_chars_trim)
    moreover have "trim s = []"
      using True
      by (intro utf8_chars_inj) (auto simp: utf8_chars_trim drop_ends_def utf8_chars_def [of "[]"] dest!: set_dropWhileD)
    ultimately show ?thesis by simp
  next
    case False
    then have ex: "\<exists>x \<in> set (utf8_chars s). \<not> ?w x" by blast
    have "drop_ends ?w (utf8_chars (p @ '' '' @ s)) =
        (utf8_chars p @ [[CHR '' '']]) @ rev (dropWhile ?w (rev (utf8_chars s)))"
      unfolding all drop_ends_def start using drop_ends_append [OF ex, of "utf8_chars p @ [[CHR '' '']]"] by simp
    then have "concat (utf8_chars (trim (p @ '' '' @ s))) = p @ '' '' @ trim_end s"
      by (simp add: utf8_chars_trim trim_end_def)
    then have t: "trim (p @ '' '' @ s) = p @ '' '' @ trim_end s" by simp
    have "\<not> starts_extending is_continuation (trim_end s)"
      using s trim_end_prefix [of s] by (auto simp: starts_extending_def split: list.splits)
    then have "utf8_chars ('' '' @ trim_end s) = [CHR '' ''] # utf8_chars (trim_end s)"
      using utf8_chars_append [of "trim_end s" "'' ''"] by (simp add: utf8_chars_ascii is_ascii_def)
    then have "trim_start ('' '' @ trim_end s) = trim_start (trim_end s)"
      using w by (simp add: trim_start_def)
    then show ?thesis unfolding t by (simp add: trim_start_trim_end)
  qed
qed

lemma normalize_subject_reply:
  assumes "p \<in> set common_prefixes" "\<not> starts_extending is_continuation s"
  shows "normalize_subject (Some (p @ '' '' @ s)) = normalize_subject (Some s)"
proof -
  let ?t = "trim (p @ '' '' @ s)"
  have "?t = p @ drop (length p) ?t" using trim_common_prefix [OF assms] by (metis append_take_drop_id)
  then have "strip_loop ?t = strip_loop (trim_start (drop (length p) ?t))"
    using strip_loop_common_prefix [OF assms(1)] by metis
  also have "\<dots> = strip_loop (trim s)" using trim_common_prefix [OF assms] by simp
  finally show ?thesis by (simp add: normalize_subject_def)
qed

section \<open>References\<close>

text \<open>A message identifier as it stands between the brackets of a header.\<close>

definition plain_id :: "string \<Rightarrow> bool" where
  "plain_id i \<longleftrightarrow> is_ascii i \<and> i \<noteq> [] \<and>
     list_all (\<lambda>c. c \<noteq> CHR ''<'' \<and> c \<noteq> CHR ''>'' \<and> \<not> is_whitespace [c]) i"

text \<open>A References header: the identifiers in brackets, separated by \<open>sep\<close>.\<close>

fun render_references :: "string \<Rightarrow> string list \<Rightarrow> string" where
  "render_references sep [] = []"
| "render_references sep [i] = ''<'' @ i @ ''>''"
| "render_references sep (i # is) = ''<'' @ i @ ''>'' @ sep @ render_references sep is"

definition white_separator :: "string \<Rightarrow> bool" where
  "white_separator sep \<longleftrightarrow> is_ascii sep \<and> list_all (\<lambda>c. is_whitespace [c]) sep"

lemma trim_plain_id: "plain_id i \<Longrightarrow> trim i = i"
  by (rule trim_ascii) (auto simp: plain_id_def list_all_iff)

lemma bracket_ids_inside:
  "list_all (\<lambda>c. c \<noteq> CHR ''<'' \<and> c \<noteq> CHR ''>'') i \<Longrightarrow>
    bracket_ids True cur (map (\<lambda>c. [c]) i @ rest) = bracket_ids True (cur @ i) rest"
  by (induction i arbitrary: cur) auto

lemma bracket_ids_outside:
  "white_separator sep \<Longrightarrow> bracket_ids False cur (map (\<lambda>c. [c]) sep @ rest) = bracket_ids False cur rest"
proof (induction sep)
  case (Cons c sep)
  then have "c \<noteq> CHR ''<''" by (auto simp: white_separator_def is_whitespace_def)
  with Cons show ?case by (simp add: white_separator_def is_ascii_def)
qed simp

lemma bracket_ids_one:
  assumes "plain_id i"
  shows "bracket_ids False cur (map (\<lambda>c. [c]) (''<'' @ i @ ''>'') @ rest) = i # bracket_ids False i rest"
proof -
  have "list_all (\<lambda>c. c \<noteq> CHR ''<'' \<and> c \<noteq> CHR ''>'') i" "i \<noteq> []"
    using assms by (auto simp: plain_id_def list_all_iff)
  then show ?thesis using bracket_ids_inside [of i "[]"] trim_plain_id [OF assms] by simp
qed

lemma bracket_ids_render:
  assumes "white_separator sep"
  shows "list_all plain_id is \<Longrightarrow> bracket_ids False cur (map (\<lambda>c. [c]) (render_references sep is)) = is"
proof (induction "is" arbitrary: cur rule: induct_list012)
  case (2 i)
  then show ?case using bracket_ids_one [of i cur "[]"] by simp
next
  case (3 i j js)
  let ?rest = "map (\<lambda>c. [c]) (render_references sep (j # js))"
  have "bracket_ids False cur (map (\<lambda>c. [c]) (render_references sep (i # j # js))) =
      i # bracket_ids False i (map (\<lambda>c. [c]) sep @ ?rest)"
    using bracket_ids_one [of i cur "map (\<lambda>c. [c]) sep @ ?rest"] 3(3) by simp
  also have "bracket_ids False i (map (\<lambda>c. [c]) sep @ ?rest) = bracket_ids False i ?rest"
    by (rule bracket_ids_outside [OF assms])
  also have "\<dots> = j # js" using 3(2) 3(3) by simp
  finally show ?case .
qed simp

lemma render_references_shape:
  assumes "white_separator sep"
  shows "list_all plain_id is \<Longrightarrow> is_ascii (render_references sep is)
    \<and> (is \<noteq> [] \<longrightarrow> render_references sep is \<noteq> [] \<and> hd (render_references sep is) = CHR ''<''
        \<and> last (render_references sep is) = CHR ''>'')"
  by (induction "is" rule: induct_list012)
    (use assms in \<open>auto simp: plain_id_def white_separator_def is_ascii_def\<close>)

lemma parse_references_render:
  assumes "white_separator sep" "list_all plain_id is"
  shows "parse_references (Some (render_references sep is)) = is"
proof (cases "is = []")
  case True
  then show ?thesis by (simp add: parse_references_def)
next
  case False
  note r = render_references_shape [OF assms]
  have "\<not> is_whitespace ''<''" "\<not> is_whitespace ''>''" by (simp_all add: is_whitespace_def)
  with r False have "trim (render_references sep is) = render_references sep is" by (intro trim_ascii) simp_all
  with r False bracket_ids_render [OF assms] show ?thesis
    by (simp add: parse_references_def utf8_chars_ascii Let_def)
qed

section \<open>Thread identifiers\<close>

definition hex_value :: "char \<Rightarrow> int" where
  "hex_value c = int (length (takeWhile (\<lambda>d. d \<noteq> c) hex_digits))"

definition unhex :: "string \<Rightarrow> int" where
  "unhex s = foldl (\<lambda>acc c. acc * 16 + hex_value c) 0 s"

lemma hex_value_digit: "0 \<le> n \<Longrightarrow> n < 16 \<Longrightarrow> hex_value (hex_digits ! nat n) = n"
proof -
  assume "0 \<le> n" "n < 16"
  then have "nat n \<in> set [0..<16]" "n = int (nat n)" by auto
  moreover have "list_all (\<lambda>k. hex_value (hex_digits ! k) = int k) [0..<16]" by code_simp
  ultimately show ?thesis unfolding list_all_iff by (metis (no_types))
qed

lemma unhex_hex: "0 \<le> n \<Longrightarrow> unhex (hex_int n) = n"
proof (induction n rule: hex_int.induct)
  case (1 n)
  show ?case
  proof (cases "n < 16")
    case True
    with 1(2) show ?thesis by (simp add: hex_int.simps [of n] unhex_def hex_value_digit)
  next
    case False
    with 1 have "unhex (hex_int (n div 16)) = n div 16" by simp
    with False show ?thesis by (simp add: hex_int.simps [of n] unhex_def hex_value_digit)
  qed
qed

lemma hex_length: "n < 16 ^ k \<Longrightarrow> 0 < k \<Longrightarrow> length (hex_int n) \<le> k"
proof (induction k arbitrary: n)
  case (Suc k)
  show ?case
  proof (cases "n < 16")
    case False
    with Suc.prems have "0 < k" "n div 16 < 16 ^ k" by (cases k; auto)+
    with Suc.IH [of "n div 16"] False show ?thesis by (simp add: hex_int.simps [of n])
  qed (simp add: hex_int.simps [of n])
qed simp

lemma thread_id_eq_iff: "generate_thread_id a = generate_thread_id b \<longleftrightarrow> djb2 a = djb2 b"
proof
  assume "generate_thread_id a = generate_thread_id b"
  then have "unhex (hex_int (uint (djb2 a))) = unhex (hex_int (uint (djb2 b)))"
    by (simp add: generate_thread_id_def djb2_hash_def)
  then show "djb2 a = djb2 b" by (simp add: unhex_hex word_uint_eq_iff)
qed (simp add: generate_thread_id_def djb2_hash_def)

lemma thread_id_length: "length (generate_thread_id a) \<le> 20"
proof -
  have "uint (djb2 a) < 16 ^ 8" using uint_bounded [of "djb2 a"] by simp
  from hex_length [OF this] show ?thesis by (simp add: generate_thread_id_def djb2_hash_def)
qed

section \<open>Merging identifier lists\<close>

lemma add_missing_spec:
  "\<exists>zs. add_missing xs ys = xs @ zs \<and> set (add_missing xs ys) = set xs \<union> set ys
    \<and> (distinct xs \<longrightarrow> distinct (add_missing xs ys))"
proof (induction ys arbitrary: xs)
  case Nil
  then show ?case by (simp add: add_missing_def)
next
  case (Cons y ys)
  let ?xs = "if y \<in> set xs then xs else xs @ [y]"
  have "add_missing xs (y # ys) = add_missing ?xs ys" by (simp add: add_missing_def)
  with Cons.IH [of ?xs] show ?case by (auto split: if_splits)
qed

lemma thread_table_snoc: "thread_table (ts @ [t]) = (thread_table ts)(thread_id t \<mapsto> message_ids t)"
  by (simp add: thread_table_def)

lemma thread_table_dom: "thread_table ts k \<noteq> None \<longleftrightarrow> k \<in> set (map thread_id ts)"
proof (induction ts rule: rev_induct)
  case Nil
  then show ?case by (simp add: thread_table_def)
qed (auto simp: thread_table_snoc)

lemma thread_table_distinct:
  "distinct (map thread_id ts) \<Longrightarrow> t \<in> set ts \<Longrightarrow> thread_table ts (thread_id t) = Some (message_ids t)"
  by (induction ts rule: rev_induct) (auto simp: thread_table_snoc image_iff)

lemma referenced_thread_Some:
  "referenced_thread table ms t = Some tid \<Longrightarrow> table tid \<noteq> None"
  by (auto simp: referenced_thread_def find_Some_iff)

text \<open>An updated thread holds the new messages, and all of an existing thread whose identifier it has.\<close>

lemma update_thread_cases:
  assumes "distinct (map thread_id existing)"
  obtains "update_thread existing ms t = t" "thread_id t \<notin> set (map thread_id existing)"
  | x where "x \<in> set existing" "update_thread existing ms t = merge_into (message_ids x) t (thread_id x)"
proof (cases "thread_id t \<in> set (map thread_id existing)")
  case True
  then obtain x where "x \<in> set existing" "thread_id t = thread_id x" by auto
  with True that(2) thread_table_distinct [OF assms] show thesis by (auto simp: update_thread_def)
next
  case False
  show thesis
  proof (cases "referenced_thread (thread_table existing) ms t")
    case None
    with False that(1) show thesis by (simp add: update_thread_def)
  next
    case (Some tid)
    then obtain x where "x \<in> set existing" "tid = thread_id x"
      using referenced_thread_Some thread_table_dom by fastforce
    with False Some that(2) thread_table_distinct [OF assms] show thesis by (auto simp: update_thread_def)
  qed
qed

lemma update_thread_new:
  assumes "distinct (map thread_id existing)"
  shows "set (message_ids t) \<subseteq> set (message_ids (update_thread existing ms t))"
  using add_missing_spec by (cases rule: update_thread_cases [OF assms, of ms t]) (auto simp: merge_into_def)

lemma update_thread_old:
  assumes "distinct (map thread_id existing)" "old \<in> set existing"
    and "thread_id old = thread_id (update_thread existing ms t)"
  shows "\<exists>zs. message_ids (update_thread existing ms t) = message_ids old @ zs"
proof (cases rule: update_thread_cases [OF assms(1), of ms t])
  case 1
  with assms(2,3) have False by (metis image_eqI set_map)
  then show ?thesis ..
next
  case (2 x)
  then have "thread_id x = thread_id old" using assms(3) by (simp add: merge_into_def)
  with assms(1,2) 2(1) have "x = old" by (metis distinct_map inj_onD)
  with 2 add_missing_spec [of "message_ids old" "message_ids t"] show ?thesis by (auto simp: merge_into_def)
qed

end
