(* ===== verification/SyncProperties.thy ===== *)
theory SyncProperties
  imports SyncReplies SyncText
begin

text \<open>
  The properties of conversation threading, with sample mailboxes as witnesses.
\<close>

definition sample_message :: "string \<Rightarrow> string \<Rightarrow> string option \<Rightarrow> string option \<Rightarrow> string \<Rightarrow> int \<Rightarrow> threadable_message" where
  "sample_message i mid irt refs subject date =
     \<lparr>tm_id = i, tm_message_id = mid, in_reply_to = irt, references = refs, tm_subject = Some subject, tm_date = date\<rparr>"

definition sample_root :: threadable_message where
  "sample_root = sample_message ''1'' ''a@x'' None None ''Plan'' 10"

definition sample_reply :: threadable_message where
  "sample_reply = sample_message ''2'' ''b@x'' (Some ''<a@x>'') None ''Re: Plan'' 20"

definition sample_other :: threadable_message where
  "sample_other = sample_message ''3'' ''c@x'' None (Some ''<z@x> <y@x>'') ''News'' 5"

definition sample_mailbox :: "threadable_message list" where
  "sample_mailbox = [sample_root, sample_other, sample_reply]"

section \<open>Building threads\<close>

text \<open>
  C10: threading always returns, and no message is in two threads or twice in one. The recursion that
  looks for a subject follows children without marking them, and the ancestor check is cut off at a
  fixed depth, so that neither is obvious; both hold for every list of messages.
\<close>

theorem threading_terminates:
  "\<exists>gs. build_threads ms = Some gs \<and> mset (concat (map message_ids gs)) \<subseteq># mset (map tm_id ms)"
  using threaded_spec(1) [of ms] build_threads_once by blast

text \<open>
  C8: threading loses nothing. If the message identifiers are distinct and there are at most
  \<open>MAX_DEPTH\<close> of them, counting the referenced ones, every message is in exactly one thread.
\<close>

theorem threading_partitions:
  assumes "arena_size (link_messages ms) \<le> MAX_DEPTH" "distinct (map tm_message_id ms)"
  shows "\<exists>gs. build_threads ms = Some gs \<and> mset (concat (map message_ids gs)) = mset (map tm_id ms)"
  by (rule build_threads_partition [OF assms])

theorem threading_partitions_witness:
  "\<exists>gs. build_threads sample_mailbox = Some gs
    \<and> mset (concat (map message_ids gs)) = mset (map tm_id sample_mailbox)"
  by (rule threading_partitions; code_simp)



text \<open>
  C11: the links form a forest. After linking the messages and merging by subject, every child list
  holds exactly the containers that name it as their parent, once each, the identifier table is
  exact, and with at most \<open>MAX_DEPTH\<close> containers no container is its own ancestor.
\<close>

theorem threading_forest:
  "arena_inv (threaded ms) \<and> (arena_size (threaded ms) > MAX_DEPTH \<or> acyclic (parent_rel (threaded ms)))"
  using threaded_spec(2,5) [of ms] not_le by blast

section \<open>The depth limit\<close>

text \<open>
  C35: beyond the limit the forest breaks. When a container has \<open>MAX_DEPTH\<close> ancestors or more, linking
  its root below it is not refused, and the root becomes its own ancestor: from then on no root
  leads to these containers.
\<close>

theorem deep_chain_becomes_cycle:
  assumes "arena_inv a" "(c, r) \<in> parent_rel a ^^ k" "MAX_DEPTH \<le> k" "parent_of a r = None"
    and "c < arena_size a" "r < arena_size a"
  shows "(r, r) \<in> (parent_rel (link_parent_child c r a))\<^sup>+"
  using deep_link_cycle assms by (simp add: arena_inv_def)

text \<open>A chain of \<open>n\<close> containers, each the parent of the next.\<close>

definition chain_arena :: "nat \<Rightarrow> arena" where
  "chain_arena n = \<lparr>containers = map (\<lambda>i.
       \<lparr>c_message_id = replicate i CHR ''a'', c_message = None,
        c_parent = (if i = 0 then None else Some (i - 1)), c_children = (if Suc i < n then [Suc i] else [])\<rparr>) [0..<n],
     id_table = (\<lambda>k. if k = replicate (length k) CHR ''a'' \<and> length k < n then Some (length k) else None)\<rparr>"

lemma chain_arena_inv: "arena_inv (chain_arena n)"
  by (auto simp: arena_inv_def ids_inv_def links_inv_def chain_arena_def split: if_splits)

lemma chain_arena_rel: "k < n \<Longrightarrow> (k, 0) \<in> parent_rel (chain_arena n) ^^ k"
proof (induction k)
  case (Suc k)
  then have "(Suc k, k) \<in> parent_rel (chain_arena n)" by (simp add: parent_rel_def chain_arena_def)
  with Suc show ?case by (meson Suc_lessD relpow_Suc_I2)
qed simp

theorem deep_chain_becomes_cycle_witness:
  "(0, 0) \<in> (parent_rel (link_parent_child 100 0 (chain_arena 101)))\<^sup>+"
  by (rule deep_chain_becomes_cycle [where k = 100, OF chain_arena_inv chain_arena_rel])
    (simp_all add: MAX_DEPTH_def chain_arena_def)

section \<open>Subjects, references, identifiers\<close>

text \<open>
  replies and forwards group with the original: a reply prefix in front of a subject does not
  change its normal form, and normal forms are fixed.
\<close>

theorem reply_subject_groups:
  assumes "p \<in> set common_prefixes" "\<not> starts_extending is_continuation s"
  shows "normalize_subject (Some (p @ '' '' @ s)) = normalize_subject (Some s)
    \<and> normalize_subject (Some (normalize_subject (Some s))) = normalize_subject (Some s)"
  using normalize_subject_reply [OF assms] normalize_subject_idem by blast

theorem reply_subject_groups_witness:
  "normalize_subject (Some (''Re:'' @ '' '' @ ''[list] Fwd: Plan'')) = normalize_subject (Some ''[list] Fwd: Plan'')
    \<and> normalize_subject (Some (normalize_subject (Some ''[list] Fwd: Plan''))) = normalize_subject (Some ''[list] Fwd: Plan'')"
  by (rule reply_subject_groups; code_simp)

text \<open>
  a References header is read back: the identifiers in angle brackets, with any ASCII white space
  between them, are parsed to exactly those identifiers in order.
\<close>

theorem references_roundtrip:
  assumes "white_separator sep" "list_all plain_id ids"
  shows "parse_references (Some (render_references sep ids)) = ids"
  by (rule parse_references_render [OF assms])

theorem references_roundtrip_witness:
  "parse_references (Some (render_references ''  '' [''a@x'', ''b@y'', ''c'']))  = [''a@x'', ''b@y'', ''c'']"
  by (rule references_roundtrip; code_simp)

text \<open>
  thread identifiers are bounded and depend on nothing but the hash, which wraps at 32 bits; two
  message identifiers that differ in one adjacent pair of characters can have the same one.
\<close>

theorem thread_id_hash:
  "length (generate_thread_id a) \<le> 20
    \<and> (generate_thread_id a = generate_thread_id b \<longleftrightarrow> djb2 a = djb2 b)
    \<and> generate_thread_id (p @ ''Ab'' @ s) = generate_thread_id (p @ ''BA'' @ s)"
proof (intro conjI)
  show "length (generate_thread_id a) \<le> 20" by (rule thread_id_length)
  show "generate_thread_id a = generate_thread_id b \<longleftrightarrow> djb2 a = djb2 b" by (rule thread_id_eq_iff)
  have "djb2 (p @ ''Ab'' @ s) = djb2 (p @ ''BA'' @ s)"
    by (simp add: djb2_def djb2_step_def algebra_simps)
  then show "generate_thread_id (p @ ''Ab'' @ s) = generate_thread_id (p @ ''BA'' @ s)"
    by (simp only: thread_id_eq_iff)
qed

section \<open>The incremental update\<close>

text \<open>
  an incremental update loses nothing: it succeeds, every new message is in one of the threads it
  reports, and a reported thread with the identifier of an existing one starts with all of its
  messages in their order.
\<close>

theorem update_keeps_messages:
  assumes "arena_size (link_messages ms) \<le> MAX_DEPTH" "distinct (map tm_message_id ms)"
    and "distinct (map thread_id existing)"
  shows "\<exists>gs. update_threads existing ms = Some gs
    \<and> set (map tm_id ms) \<subseteq> \<Union> (set ` message_ids ` set gs)
    \<and> (\<forall>gr \<in> set gs. \<forall>old \<in> set existing. thread_id old = thread_id gr \<longrightarrow>
         (\<exists>zs. message_ids gr = message_ids old @ zs))"
proof -
  from build_threads_partition [OF assms(1,2)] obtain ts where
    ts: "build_threads ms = Some ts" "mset (concat (map message_ids ts)) = mset (map tm_id ms)" by blast
  let ?gs = "map (update_thread existing ms) ts"
  have u: "update_threads existing ms = Some ?gs"
    using ts(1) by (auto simp: update_threads_def build_threads_def)
  have "set (map tm_id ms) = set (concat (map message_ids ts))" using ts(2) by (metis set_mset_mset)
  also have "\<dots> \<subseteq> \<Union> (set ` message_ids ` set ?gs)" using update_thread_new [OF assms(3), of _ ms] by fastforce
  finally show ?thesis using u update_thread_old [OF assms(3)] by auto
qed

theorem update_keeps_messages_witness:
  "\<exists>gs. update_threads [\<lparr>thread_id = generate_thread_id ''a@x'', message_ids = [''9'', ''1'']\<rparr>] sample_mailbox = Some gs
    \<and> set (map tm_id sample_mailbox) \<subseteq> \<Union> (set ` message_ids ` set gs)"
  using update_keeps_messages [of sample_mailbox "[\<lparr>thread_id = generate_thread_id ''a@x'', message_ids = [''9'', ''1'']\<rparr>]"]
proof -
  have "arena_size (link_messages sample_mailbox) \<le> MAX_DEPTH" "distinct (map tm_message_id sample_mailbox)"
    by code_simp+
  from update_keeps_messages [OF this, of "[\<lparr>thread_id = generate_thread_id ''a@x'', message_ids = [''9'', ''1'']\<rparr>]"]
  show ?thesis by auto
qed

end
