(* ===== verification/MailLabels.thy ===== *)
theory MailLabels
  imports RustStr
begin

text \<open>
  Folder and label identifiers (\<^verbatim>\<open>crates/types/src/folder_label.rs\<close> and
  \<^verbatim>\<open>mail_provider.rs\<close>): validated components, their storage identifiers, and the parsers
  that read them back for a provider. An error is the message of the source, as the left summand.
\<close>

section \<open>Providers\<close>

datatype mail_provider_kind = Gmail | Graph | Jmap | Imap

definition provider_parse :: "string \<Rightarrow> string + mail_provider_kind" where
  "provider_parse raw =
     (if raw = ''gmail_api'' then Inr Gmail
      else if raw = ''graph'' then Inr Graph
      else if raw = ''jmap'' then Inr Jmap
      else if raw = ''imap'' then Inr Imap
      else Inl (''Unknown provider: '' @ raw))"

fun provider_as_str :: "mail_provider_kind \<Rightarrow> string" where
  "provider_as_str Gmail = ''gmail_api''"
| "provider_as_str Graph = ''graph''"
| "provider_as_str Jmap = ''jmap''"
| "provider_as_str Imap = ''imap''"

section \<open>Prefixes\<close>

definition KEYWORD_PREFIX :: string where "KEYWORD_PREFIX = ''kw:''"
definition CATEGORY_PREFIX :: string where "CATEGORY_PREFIX = ''cat:''"
definition IMPORTANCE_HIGH_ID :: string where "IMPORTANCE_HIGH_ID = ''importance:high''"
definition IMPORTANCE_LOW_ID :: string where "IMPORTANCE_LOW_ID = ''importance:low''"
definition GRAPH_FOLDER_PREFIX :: string where "GRAPH_FOLDER_PREFIX = ''graph-''"
definition JMAP_FOLDER_PREFIX :: string where "JMAP_FOLDER_PREFIX = ''jmap-''"
definition IMAP_FOLDER_PREFIX :: string where "IMAP_FOLDER_PREFIX = ''folder-''"
definition SHARED_FOLDER_PREFIX :: string where "SHARED_FOLDER_PREFIX = ''shared:''"
definition PUBLIC_FOLDER_PREFIX :: string where "PUBLIC_FOLDER_PREFIX = ''public:''"

lemmas prefix_defs = KEYWORD_PREFIX_def CATEGORY_PREFIX_def IMPORTANCE_HIGH_ID_def IMPORTANCE_LOW_ID_def
  GRAPH_FOLDER_PREFIX_def JMAP_FOLDER_PREFIX_def IMAP_FOLDER_PREFIX_def SHARED_FOLDER_PREFIX_def
  PUBLIC_FOLDER_PREFIX_def

section \<open>Components\<close>

definition validate_component :: "string \<Rightarrow> string \<Rightarrow> string + unit" where
  "validate_component what raw =
     (if raw = [] then Inl (what @ '' cannot be empty'')
      else if list_ex is_control (utf8_chars raw) then Inl (what @ '' cannot contain control characters'')
      else Inr ())"

definition is_reserved_imap_keyword :: "string \<Rightarrow> bool" where
  "is_reserved_imap_keyword raw \<longleftrightarrow>
     map ascii_lower_char raw \<in> set [''$forwarded'', ''$mdnsent'', ''$junk'', ''$notjunk'', ''$phishing'']"

definition keyword_parse :: "string \<Rightarrow> string + string" where
  "keyword_parse raw =
     (case validate_component ''keyword'' raw of
        Inl e \<Rightarrow> Inl e
      | Inr _ \<Rightarrow>
          if starts_with ''$'' raw \<or> is_reserved_imap_keyword raw
          then Inl (''reserved keyword `'' @ raw @ ''` is not a user label'')
          else if starts_with KEYWORD_PREFIX raw
          then Inl (''keyword body `'' @ raw @ ''` already carries the `'' @ KEYWORD_PREFIX @ ''` storage prefix'')
          else Inr raw)"

definition category_parse :: "string \<Rightarrow> string + string" where
  "category_parse raw =
     (case validate_component ''category'' raw of
        Inl e \<Rightarrow> Inl e
      | Inr _ \<Rightarrow>
          if starts_with CATEGORY_PREFIX raw
          then Inl (''category body `'' @ raw @ ''` already carries the `'' @ CATEGORY_PREFIX @ ''` storage prefix'')
          else Inr raw)"

text \<open>The three provider folder identifiers have one shape: a validated body behind a prefix.\<close>

definition component_parse :: "string \<Rightarrow> string \<Rightarrow> string + string" where
  "component_parse what raw = (case validate_component what raw of Inl e \<Rightarrow> Inl e | Inr _ \<Rightarrow> Inr raw)"

definition graph_guid_parse :: "string \<Rightarrow> string + string" where
  "graph_guid_parse = component_parse ''graph folder id''"

definition graph_guid_parse_storage_id :: "string \<Rightarrow> string + string" where
  "graph_guid_parse_storage_id raw =
     (case strip_prefix GRAPH_FOLDER_PREFIX raw of
        None \<Rightarrow> Inl (''Graph user folder id `'' @ raw @ ''` must start with graph-'')
      | Some graph_id \<Rightarrow> graph_guid_parse graph_id)"

definition imap_path_parse :: "string \<Rightarrow> string + string" where
  "imap_path_parse = component_parse ''imap folder path''"

definition imap_path_parse_storage_id :: "string \<Rightarrow> string + string" where
  "imap_path_parse_storage_id raw =
     (case strip_prefix IMAP_FOLDER_PREFIX raw of
        None \<Rightarrow> Inl (''IMAP user folder id `'' @ raw @ ''` must start with folder-'')
      | Some path \<Rightarrow> imap_path_parse path)"

definition jmap_id_parse :: "string \<Rightarrow> string + string" where
  "jmap_id_parse = component_parse ''jmap mailbox id''"

definition jmap_id_parse_storage_id :: "string \<Rightarrow> string + string" where
  "jmap_id_parse_storage_id raw =
     (case strip_prefix JMAP_FOLDER_PREFIX raw of
        None \<Rightarrow> Inl (''JMAP user folder id `'' @ raw @ ''` must start with jmap-'')
      | Some i \<Rightarrow> jmap_id_parse i)"

section \<open>System folders\<close>

datatype system_folder_id = Inbox | Sent | Draft | Trash | Spam | Archive | Important

definition system_folder_parse :: "string \<Rightarrow> system_folder_id option" where
  "system_folder_parse raw =
     map_of [(''INBOX'', Inbox), (''SENT'', Sent), (''DRAFT'', Draft), (''TRASH'', Trash), (''SPAM'', Spam),
             (''archive'', Archive), (''IMPORTANT'', Important)] raw"

definition system_folder_parse_shorthand :: "string \<Rightarrow> system_folder_id option" where
  "system_folder_parse_shorthand raw =
     map_of [(''inbox'', Inbox), (''sent'', Sent), (''drafts'', Draft), (''draft'', Draft), (''trash'', Trash),
             (''spam'', Spam), (''archive'', Archive)] (map ascii_lower_char raw)"

fun system_folder_as_str :: "system_folder_id \<Rightarrow> string" where
  "system_folder_as_str Inbox = ''INBOX''"
| "system_folder_as_str Sent = ''SENT''"
| "system_folder_as_str Draft = ''DRAFT''"
| "system_folder_as_str Trash = ''TRASH''"
| "system_folder_as_str Spam = ''SPAM''"
| "system_folder_as_str Archive = ''archive''"
| "system_folder_as_str Important = ''IMPORTANT''"

definition gmail_label_parse :: "string \<Rightarrow> string + string" where
  "gmail_label_parse raw =
     (case validate_component ''gmail label id'' raw of
        Inl e \<Rightarrow> Inl e
      | Inr _ \<Rightarrow>
          if system_folder_parse raw \<noteq> None \<or> raw = ''CHAT'' \<or> starts_with ''CATEGORY_'' raw
             \<or> starts_with KEYWORD_PREFIX raw \<or> starts_with CATEGORY_PREFIX raw \<or> starts_with ''importance:'' raw
          then Inl (''Gmail label id `'' @ raw @ ''` is reserved for another kind'')
          else Inr raw)"

definition gmail_system_label_parse :: "string \<Rightarrow> string + string" where
  "gmail_system_label_parse raw =
     (case validate_component ''gmail system label id'' raw of
        Inl e \<Rightarrow> Inl e
      | Inr _ \<Rightarrow>
          if raw = ''CHAT'' \<or> starts_with ''CATEGORY_'' raw then Inr raw
          else Inl (''Gmail system folder id `'' @ raw @ ''` is not a non-role system folder''))"

section \<open>Folders\<close>

datatype folder_kind =
    System system_folder_id
  | GmailSystem string
  | GraphUser string
  | JmapUser string
  | ImapUser string
  | Shared string folder_kind
  | Public string

text \<open>The two parts of \<^verbatim>\<open>splitn(2, ':')\<close>.\<close>

definition splitn_colon :: "string \<Rightarrow> string \<times> string option" where
  "splitn_colon s =
     (takeWhile (\<lambda>c. c \<noteq> CHR '':'') s,
      if CHR '':'' \<in> set s then Some (tl (dropWhile (\<lambda>c. c \<noteq> CHR '':'') s)) else None)"

lemma splitn_colon_eq: "splitn_colon s = (a, b) \<Longrightarrow> s = a @ (case b of None \<Rightarrow> [] | Some x \<Rightarrow> CHR '':'' # x)"
proof -
  assume s: "splitn_colon s = (a, b)"
  let ?P = "\<lambda>c. c \<noteq> CHR '':''"
  have split: "s = takeWhile ?P s @ dropWhile ?P s" by simp
  show ?thesis
  proof (cases "dropWhile ?P s")
    case Nil
    then have "CHR '':'' \<notin> set s" by auto
    with s split Nil show ?thesis by (auto simp: splitn_colon_def)
  next
    case (Cons c cs)
    then have "c = CHR '':''" by (simp add: dropWhile_eq_Cons_conv)
    moreover have "CHR '':'' \<in> set s" using Cons calculation by (metis list.set_intros(1) set_dropWhileD)
    ultimately show ?thesis using s split Cons by (auto simp: splitn_colon_def)
  qed
qed

function folder_parse :: "mail_provider_kind \<Rightarrow> string \<Rightarrow> string + folder_kind" where
  "folder_parse provider raw =
     (case strip_prefix SHARED_FOLDER_PREFIX raw of
        Some rest \<Rightarrow>
          (case splitn_colon rest of
             (owner, local_id) \<Rightarrow>
               if owner = [] then Inl (''shared folder id `'' @ raw @ ''` has no owner'')
               else case local_id of
                      None \<Rightarrow> Inl (''shared folder id `'' @ raw @ ''` has no local id'')
                    | Some inner \<Rightarrow>
                        if inner = [] then Inl (''shared folder id `'' @ raw @ ''` has no local id'')
                        else map_sum id (Shared owner) (folder_parse provider inner))
      | None \<Rightarrow>
          (case strip_prefix PUBLIC_FOLDER_PREFIX raw of
             Some native \<Rightarrow>
               (case validate_component ''public folder id'' native of
                  Inl e \<Rightarrow> Inl e
                | Inr _ \<Rightarrow> Inr (Public native))
           | None \<Rightarrow>
               (case system_folder_parse raw of
                  Some system \<Rightarrow> Inr (System system)
                | None \<Rightarrow>
                    (case provider of
                       Gmail \<Rightarrow> map_sum id GmailSystem (gmail_system_label_parse raw)
                     | Graph \<Rightarrow> map_sum id GraphUser (graph_guid_parse_storage_id raw)
                     | Jmap \<Rightarrow> map_sum id JmapUser (jmap_id_parse_storage_id raw)
                     | Imap \<Rightarrow> map_sum id ImapUser (imap_path_parse_storage_id raw)))))"
  by pat_completeness auto
termination
  by (relation "measure (\<lambda>(provider, raw). length raw)")
    (auto simp: SHARED_FOLDER_PREFIX_def dest!: splitn_colon_eq [OF sym])

declare folder_parse.simps [simp del]

definition folder_gmail_system :: "string \<Rightarrow> string + folder_kind" where
  "folder_gmail_system raw = map_sum id GmailSystem (gmail_system_label_parse raw)"

definition folder_graph_user :: "string \<Rightarrow> string + folder_kind" where
  "folder_graph_user raw = map_sum id GraphUser (graph_guid_parse raw)"

definition folder_jmap_user :: "string \<Rightarrow> string + folder_kind" where
  "folder_jmap_user raw = map_sum id JmapUser (jmap_id_parse raw)"

definition folder_imap_user :: "string \<Rightarrow> string + folder_kind" where
  "folder_imap_user path = map_sum id ImapUser (imap_path_parse path)"

definition folder_shared :: "string \<Rightarrow> folder_kind \<Rightarrow> string + folder_kind" where
  "folder_shared owner inner =
     (case validate_component ''shared mailbox owner'' owner of Inl e \<Rightarrow> Inl e | Inr _ \<Rightarrow> Inr (Shared owner inner))"

definition folder_public :: "string \<Rightarrow> string + folder_kind" where
  "folder_public native =
     (case validate_component ''public folder id'' native of Inl e \<Rightarrow> Inl e | Inr _ \<Rightarrow> Inr (Public native))"

fun folder_storage_id :: "folder_kind \<Rightarrow> string" where
  "folder_storage_id (System system) = system_folder_as_str system"
| "folder_storage_id (GmailSystem i) = i"
| "folder_storage_id (GraphUser i) = GRAPH_FOLDER_PREFIX @ i"
| "folder_storage_id (JmapUser i) = JMAP_FOLDER_PREFIX @ i"
| "folder_storage_id (ImapUser path) = IMAP_FOLDER_PREFIX @ path"
| "folder_storage_id (Shared owner inner) = SHARED_FOLDER_PREFIX @ owner @ '':'' @ folder_storage_id inner"
| "folder_storage_id (Public native) = PUBLIC_FOLDER_PREFIX @ native"

section \<open>Namespaces\<close>

datatype namespace_kind = KPersonal | KShared | KPublic

datatype namespace_attribution = NPersonal | NShared string | NPublic string

fun attribution_kind :: "namespace_attribution \<Rightarrow> namespace_kind" where
  "attribution_kind NPersonal = KPersonal"
| "attribution_kind (NShared owner) = KShared"
| "attribution_kind (NPublic folder_id) = KPublic"

fun storage_key :: "namespace_attribution \<Rightarrow> string option" where
  "storage_key NPersonal = None"
| "storage_key (NShared owner) = Some owner"
| "storage_key (NPublic folder_id) = Some folder_id"

fun id_prefix :: "namespace_attribution \<Rightarrow> string option" where
  "id_prefix NPersonal = None"
| "id_prefix (NShared owner) = Some (''shared:'' @ owner)"
| "id_prefix (NPublic folder_id) = Some folder_id"

definition qualified_id :: "namespace_attribution \<Rightarrow> string \<Rightarrow> string" where
  "qualified_id n i = (case id_prefix n of None \<Rightarrow> i | Some prefix \<Rightarrow> prefix @ '':'' @ i)"

section \<open>Labels\<close>

datatype importance_level = High | Low

definition importance_parse_label_id :: "string \<Rightarrow> importance_level option" where
  "importance_parse_label_id raw =
     (if raw = IMPORTANCE_HIGH_ID then Some High else if raw = IMPORTANCE_LOW_ID then Some Low else None)"

definition importance_from_graph_value :: "string \<Rightarrow> importance_level option" where
  "importance_from_graph_value raw =
     (if map ascii_lower_char raw = ''high'' then Some High
      else if map ascii_lower_char raw = ''low'' then Some Low else None)"

fun opposite :: "importance_level \<Rightarrow> importance_level" where
  "opposite High = Low"
| "opposite Low = High"

fun label_id :: "importance_level \<Rightarrow> string" where
  "label_id High = IMPORTANCE_HIGH_ID"
| "label_id Low = IMPORTANCE_LOW_ID"

fun graph_value :: "importance_level \<Rightarrow> string" where
  "graph_value High = ''high''"
| "graph_value Low = ''low''"

datatype label_kind =
    GmailUser string
  | GraphCategory string
  | GraphImportance importance_level
  | JmapKeyword string
  | ImapKeyword string

fun label_parse :: "mail_provider_kind \<Rightarrow> string \<Rightarrow> string + label_kind" where
  "label_parse Gmail raw = map_sum id GmailUser (gmail_label_parse raw)"
| "label_parse Graph raw =
     (case importance_parse_label_id raw of
        Some level \<Rightarrow> Inr (GraphImportance level)
      | None \<Rightarrow>
          (case strip_prefix CATEGORY_PREFIX raw of
             None \<Rightarrow> Inl (''Graph label id `'' @ raw @ ''` is not a category or importance label'')
           | Some category \<Rightarrow> map_sum id GraphCategory (category_parse category)))"
| "label_parse Jmap raw =
     (case strip_prefix KEYWORD_PREFIX raw of
        None \<Rightarrow> Inl (''JMAP label id `'' @ raw @ ''` is not a keyword label'')
      | Some keyword \<Rightarrow> map_sum id JmapKeyword (keyword_parse keyword))"
| "label_parse Imap raw =
     (case strip_prefix KEYWORD_PREFIX raw of
        None \<Rightarrow> Inl (''IMAP label id `'' @ raw @ ''` is not a keyword label'')
      | Some keyword \<Rightarrow> map_sum id ImapKeyword (keyword_parse keyword))"

fun label_storage_id :: "label_kind \<Rightarrow> string" where
  "label_storage_id (GmailUser i) = i"
| "label_storage_id (GraphCategory category) = CATEGORY_PREFIX @ category"
| "label_storage_id (GraphImportance level) = label_id level"
| "label_storage_id (JmapKeyword keyword) = KEYWORD_PREFIX @ keyword"
| "label_storage_id (ImapKeyword keyword) = KEYWORD_PREFIX @ keyword"

datatype mail_locator = Folder folder_kind | Label label_kind

datatype namespace = FromFolders | FromLabels | FromUserQuery

fun locator_parse :: "mail_provider_kind \<Rightarrow> namespace \<Rightarrow> string \<Rightarrow> string + mail_locator" where
  "locator_parse provider FromFolders raw = map_sum id Folder (folder_parse provider raw)"
| "locator_parse provider FromLabels raw = map_sum id Label (label_parse provider raw)"
| "locator_parse provider FromUserQuery raw =
     (case folder_parse provider raw of
        Inr f \<Rightarrow> Inr (Folder f)
      | Inl _ \<Rightarrow> map_sum id Label (label_parse provider raw))"

end
