(* ===== verification/MailLabelProperties.thy ===== *)
theory MailLabelProperties
  imports MailLabels
begin

text \<open>
  Storage identifiers and their parsers are inverse to each other; folders and labels can be told
  apart.
\<close>

section \<open>Valid identifiers\<close>

text \<open>The folders a provider has: bodies its parser accepts, owners without a colon.\<close>

fun valid_folder :: "mail_provider_kind \<Rightarrow> folder_kind \<Rightarrow> bool" where
  "valid_folder provider (System system) \<longleftrightarrow> True"
| "valid_folder provider (GmailSystem i) \<longleftrightarrow> provider = Gmail \<and> gmail_system_label_parse i = Inr i"
| "valid_folder provider (GraphUser i) \<longleftrightarrow> provider = Graph \<and> graph_guid_parse i = Inr i"
| "valid_folder provider (JmapUser i) \<longleftrightarrow> provider = Jmap \<and> jmap_id_parse i = Inr i"
| "valid_folder provider (ImapUser path) \<longleftrightarrow> provider = Imap \<and> imap_path_parse path = Inr path"
| "valid_folder provider (Shared owner inner) \<longleftrightarrow>
     owner \<noteq> [] \<and> CHR '':'' \<notin> set owner \<and> valid_folder provider inner"
| "valid_folder provider (Public native) \<longleftrightarrow> folder_public native = Inr (Public native)"

fun valid_label :: "mail_provider_kind \<Rightarrow> label_kind \<Rightarrow> bool" where
  "valid_label provider (GmailUser i) \<longleftrightarrow> provider = Gmail \<and> gmail_label_parse i = Inr i"
| "valid_label provider (GraphCategory c) \<longleftrightarrow> provider = Graph \<and> category_parse c = Inr c"
| "valid_label provider (GraphImportance level) \<longleftrightarrow> provider = Graph"
| "valid_label provider (JmapKeyword k) \<longleftrightarrow> provider = Jmap \<and> keyword_parse k = Inr k"
| "valid_label provider (ImapKeyword k) \<longleftrightarrow> provider = Imap \<and> keyword_parse k = Inr k"

lemma component_parse_Inr: "component_parse what raw = Inr x \<longleftrightarrow> x = raw \<and> validate_component what raw = Inr ()"
  by (auto simp: component_parse_def split: sum.splits)

lemma parse_Inr_same:
  "gmail_system_label_parse raw = Inr x \<Longrightarrow> x = raw \<and> gmail_system_label_parse raw = Inr raw"
  "gmail_label_parse raw = Inr x \<Longrightarrow> x = raw \<and> gmail_label_parse raw = Inr raw"
  "category_parse raw = Inr x \<Longrightarrow> x = raw \<and> category_parse raw = Inr raw"
  "keyword_parse raw = Inr x \<Longrightarrow> x = raw \<and> keyword_parse raw = Inr raw"
  "graph_guid_parse raw = Inr x \<Longrightarrow> x = raw \<and> graph_guid_parse raw = Inr raw"
  "jmap_id_parse raw = Inr x \<Longrightarrow> x = raw \<and> jmap_id_parse raw = Inr raw"
  "imap_path_parse raw = Inr x \<Longrightarrow> x = raw \<and> imap_path_parse raw = Inr raw"
  by (auto simp: gmail_system_label_parse_def gmail_label_parse_def category_parse_def keyword_parse_def
      graph_guid_parse_def jmap_id_parse_def imap_path_parse_def component_parse_Inr split: sum.splits if_splits)

lemma validate_nonempty: "validate_component what raw = Inr u \<Longrightarrow> raw \<noteq> []"
  by (auto simp: validate_component_def)

lemma map_sum_Inr: "map_sum id f x = Inr y \<longleftrightarrow> (\<exists>z. x = Inr z \<and> y = f z)"
  by (cases x) auto

lemma system_folder_roundtrip:
  "system_folder_parse raw = Some system \<longleftrightarrow> system_folder_as_str system = raw"
  by (cases system) (auto simp: system_folder_parse_def)

section \<open>Folders\<close>

lemma starts_withE: "starts_with p s \<Longrightarrow> \<exists>r. s = p @ r"
  unfolding starts_with_def by (metis append_take_drop_id)

lemma splitn_colon_append:
  "CHR '':'' \<notin> set a \<Longrightarrow> splitn_colon (a @ CHR '':'' # b) = (a, Some b)"
  by (auto simp: splitn_colon_def takeWhile_append dropWhile_append)

lemma gmail_system_shape:
  assumes "gmail_system_label_parse i = Inr i"
  shows "strip_prefix SHARED_FOLDER_PREFIX i = None" "strip_prefix PUBLIC_FOLDER_PREFIX i = None"
    "system_folder_parse i = None" "i \<noteq> []"
proof -
  have "i = ''CHAT'' \<or> starts_with ''CATEGORY_'' i" "validate_component ''gmail system label id'' i = Inr ()"
    using assms by (auto simp: gmail_system_label_parse_def split: sum.splits if_splits)
  then show "strip_prefix SHARED_FOLDER_PREFIX i = None" "strip_prefix PUBLIC_FOLDER_PREFIX i = None"
    "system_folder_parse i = None" "i \<noteq> []"
    by (auto simp: prefix_defs strip_prefix_None system_folder_parse_def dest!: starts_withE validate_nonempty)
qed

lemma storage_id_nonempty: "valid_folder provider k \<Longrightarrow> folder_storage_id k \<noteq> []"
proof (cases k)
  case (System s)
  then show ?thesis by (cases s) auto
qed (auto simp: prefix_defs gmail_system_shape(4))

lemma folder_parse_storage_id:
  "valid_folder provider k \<Longrightarrow> folder_parse provider (folder_storage_id k) = Inr k"
proof (induction k)
  case (System s)
  have "strip_prefix SHARED_FOLDER_PREFIX (system_folder_as_str s) = None"
    "strip_prefix PUBLIC_FOLDER_PREFIX (system_folder_as_str s) = None"
    by (cases s; simp add: prefix_defs strip_prefix_None)+
  moreover have "system_folder_parse (system_folder_as_str s) = Some s" by (simp add: system_folder_roundtrip)
  ultimately show ?case by (simp add: folder_parse.simps [of provider "system_folder_as_str s"])
next
  case (GmailSystem i)
  then show ?case
    using gmail_system_shape [of i] by (simp add: folder_parse.simps [of _ i])
next
  case (Shared owner inner)
  let ?raw = "SHARED_FOLDER_PREFIX @ owner @ '':'' @ folder_storage_id inner"
  have "folder_parse provider ?raw = map_sum id (Shared owner) (folder_parse provider (folder_storage_id inner))"
    using Shared.prems splitn_colon_append [of owner "folder_storage_id inner"] storage_id_nonempty [of provider inner]
    by (subst folder_parse.simps) simp
  with Shared show ?case by simp
next
  case (Public native)
  have "strip_prefix SHARED_FOLDER_PREFIX (PUBLIC_FOLDER_PREFIX @ native) = None"
    by (simp add: prefix_defs strip_prefix_None)
  with Public show ?case
    by (subst folder_parse.simps) (auto simp: folder_public_def split: sum.splits)
qed (subst folder_parse.simps;
    auto simp: prefix_defs strip_prefix_def system_folder_parse_def graph_guid_parse_storage_id_def
      jmap_id_parse_storage_id_def imap_path_parse_storage_id_def)+

lemma splitn_colon_owner: "splitn_colon s = (a, b) \<Longrightarrow> CHR '':'' \<notin> set a"
  by (auto simp: splitn_colon_def dest: set_takeWhileD)

lemma storage_id_folder_parse:
  "folder_parse provider raw = Inr k \<Longrightarrow> folder_storage_id k = raw \<and> valid_folder provider k"
proof (induction provider raw arbitrary: k rule: folder_parse.induct)
  case (1 provider raw)
  show ?case
  proof (cases "strip_prefix SHARED_FOLDER_PREFIX raw")
    case (Some rest)
    obtain owner local_id where sp: "splitn_colon rest = (owner, local_id)" by fastforce
    with 1(2) Some obtain inner k' where i: "owner \<noteq> []" "local_id = Some inner" "inner \<noteq> []"
      "folder_parse provider inner = Inr k'" "k = Shared owner k'"
      by (auto simp: folder_parse.simps [of provider raw] map_sum_Inr split: option.splits if_splits)
    from 1(1) [OF Some sp [symmetric] i(1,2,3,4)] have "folder_storage_id k' = inner" "valid_folder provider k'" by auto
    with Some i splitn_colon_eq [OF sp] splitn_colon_owner [OF sp] show ?thesis by simp
  next
    case None
    note sh = None
    show ?thesis
    proof (cases "strip_prefix PUBLIC_FOLDER_PREFIX raw")
      case (Some native)
      with 1(2) sh show ?thesis
        by (auto simp: folder_parse.simps [of provider raw] folder_public_def split: sum.splits)
    next
      case None
      with 1(2) sh show ?thesis
        by (cases provider;
          auto simp: folder_parse.simps [of _ raw] map_sum_Inr system_folder_roundtrip
            graph_guid_parse_storage_id_def jmap_id_parse_storage_id_def imap_path_parse_storage_id_def
            split: option.splits; metis parse_Inr_same)
    qed
  qed
qed

text \<open>
  C32: a folder identifier is read as a folder exactly if it is the storage identifier of a valid
  folder of the provider, and then as that folder: printing and parsing are inverse to each other,
  and no two valid folders share an identifier.
\<close>

theorem folder_id_roundtrip:
  "folder_parse provider raw = Inr k \<longleftrightarrow> valid_folder provider k \<and> folder_storage_id k = raw"
  using folder_parse_storage_id storage_id_folder_parse by blast

section \<open>Labels\<close>

lemma category_parse_importance: "CATEGORY_PREFIX @ c \<noteq> label_id l"
  by (cases l) (simp_all add: prefix_defs)

lemma importance_roundtrip: "importance_parse_label_id raw = Some level \<longleftrightarrow> label_id level = raw"
  by (cases level) (auto simp: importance_parse_label_id_def prefix_defs)

lemma label_parse_iff:
  "label_parse provider raw = Inr l \<longleftrightarrow> valid_label provider l \<and> label_storage_id l = raw"
proof
  assume "label_parse provider raw = Inr l"
  then show "valid_label provider l \<and> label_storage_id l = raw"
    by (cases provider; auto simp: map_sum_Inr importance_roundtrip split: option.splits; metis parse_Inr_same)
next
  assume l: "valid_label provider l \<and> label_storage_id l = raw"
  have "importance_parse_label_id (CATEGORY_PREFIX @ c) = None" for c
    using importance_roundtrip category_parse_importance by (metis not_None_eq)
  moreover have "importance_parse_label_id (label_id level) = Some level" for level
    by (simp add: importance_roundtrip)
  ultimately show "label_parse provider raw = Inr l"
    using l by (cases l) auto
qed

text \<open>
  a label identifier is read as a label exactly if it is the storage identifier of a valid label
  of the provider, and then as that label.
\<close>

theorem label_id_roundtrip:
  "label_parse provider raw = Inr l \<longleftrightarrow> valid_label provider l \<and> label_storage_id l = raw"
  by (rule label_parse_iff)

text \<open>Which folders can have the identifier of a label.\<close>

lemma label_not_folder:
  assumes "valid_label provider l" "folder_parse provider (label_storage_id l) = Inr k"
  shows "provider = Gmail \<and> (starts_with SHARED_FOLDER_PREFIX (label_storage_id l) \<or>
    starts_with PUBLIC_FOLDER_PREFIX (label_storage_id l))"
proof (cases l)
  case (GmailUser i)
  have f: "valid_folder Gmail k" "folder_storage_id k = i"
    using assms GmailUser storage_id_folder_parse by fastforce+
  have g: "gmail_label_parse i = Inr i" using assms(1) GmailUser by simp
  then have n: "system_folder_parse i = None" "i \<noteq> ''CHAT''" "\<not> starts_with ''CATEGORY_'' i"
    by (auto simp: gmail_label_parse_def split: sum.splits if_splits)
  show ?thesis
  proof (cases k)
    case (System s)
    with f n system_folder_roundtrip [of i s] show ?thesis by simp
  next
    case (GmailSystem x)
    with f n show ?thesis by (auto simp: gmail_system_label_parse_def split: sum.splits if_splits)
  qed (use f GmailUser assms(1) in auto)
next
  case (GraphImportance level)
  with assms show ?thesis
    using storage_id_folder_parse [OF assms(2)]
    by (cases k; cases level) (auto simp: prefix_defs elim!: system_folder_as_str.elims)
qed (use assms storage_id_folder_parse [OF assms(2)] in \<open>cases k;
    auto simp: prefix_defs elim!: system_folder_as_str.elims\<close>)+

text \<open>
  C33: a label identifier in a user query is found as that label: no folder of the provider hides it,
  unless it is a Gmail label whose identifier starts with the prefix of a shared or public folder.
\<close>

theorem query_finds_label:
  assumes "valid_label provider l"
  shows "locator_parse provider FromUserQuery (label_storage_id l) = Inr (Label l)
    \<or> provider = Gmail \<and> (starts_with SHARED_FOLDER_PREFIX (label_storage_id l) \<or>
        starts_with PUBLIC_FOLDER_PREFIX (label_storage_id l))"
proof (cases "folder_parse provider (label_storage_id l)")
  case (Inl e)
  moreover have "label_parse provider (label_storage_id l) = Inr l"
    using assms by (simp add: label_parse_iff)
  ultimately show ?thesis by simp
next
  case (Inr k)
  with label_not_folder [OF assms] show ?thesis by blast
qed

theorem query_finds_label_witness:
  "locator_parse Imap FromUserQuery (label_storage_id (ImapKeyword ''todo'')) = Inr (Label (ImapKeyword ''todo''))
    \<or> Imap = Gmail \<and> (starts_with SHARED_FOLDER_PREFIX (label_storage_id (ImapKeyword ''todo'')) \<or>
        starts_with PUBLIC_FOLDER_PREFIX (label_storage_id (ImapKeyword ''todo'')))"
  by (rule query_finds_label) code_simp

section \<open>Identifiers that do not round trip\<close>

text \<open>
  a shared folder may be built with a colon in its owner, but its storage identifier is then not
  read back; and a Gmail label whose identifier starts with \<open>public:\<close> is accepted as a label but
  read as a folder in a query.
\<close>

theorem ambiguous_identifiers:
  "folder_shared ''a:b'' (System Inbox) = Inr (Shared ''a:b'' (System Inbox))
    \<and> folder_parse Imap (folder_storage_id (Shared ''a:b'' (System Inbox))) =
        Inl (''IMAP user folder id `b:INBOX` must start with folder-'')
    \<and> label_parse Gmail ''public:x'' = Inr (GmailUser ''public:x'')
    \<and> locator_parse Gmail FromUserQuery ''public:x'' = Inr (Folder (Public ''x''))"
  by code_simp

end
