(* ===== verification/RustNum.thy ===== *)
theory RustNum
  imports RustStr
begin

text \<open>
  Numbers as text: \<^verbatim>\<open>str::parse\<close> for the integer types, decimal formatting, and that
  formatted numbers are parsed back.
\<close>

definition is_ascii_digit :: "char \<Rightarrow> bool" where
  "is_ascii_digit c \<longleftrightarrow> (let n = of_char c :: nat in 48 \<le> n \<and> n \<le> 57)"

definition digits_value :: "string \<Rightarrow> int option" where
  "digits_value s =
     (if s = [] \<or> \<not> list_all is_ascii_digit s then None
      else Some (foldl (\<lambda>acc c. acc * 10 + (of_char c - 48)) 0 s))"

text \<open>\<^verbatim>\<open>str::parse\<close> for a signed type with range \<open>[lo, hi]\<close>, and for an unsigned one.\<close>

definition parse_signed :: "int \<Rightarrow> int \<Rightarrow> string \<Rightarrow> int option" where
  "parse_signed lo hi s =
     (let v = (case s of
                 c # cs \<Rightarrow>
                   if c = CHR ''-'' then map_option uminus (digits_value cs)
                   else if c = CHR ''+'' then digits_value cs
                   else digits_value s
               | [] \<Rightarrow> None)
      in case v of Some n \<Rightarrow> if lo \<le> n \<and> n \<le> hi then Some n else None | None \<Rightarrow> None)"

definition parse_unsigned :: "int \<Rightarrow> string \<Rightarrow> int option" where
  "parse_unsigned hi s =
     (let v = (case s of c # cs \<Rightarrow> if c = CHR ''+'' then digits_value cs else digits_value s | [] \<Rightarrow> None)
      in case v of Some n \<Rightarrow> if n \<le> hi then Some n else None | None \<Rightarrow> None)"

abbreviation parse_i32 :: "string \<Rightarrow> int option" where
  "parse_i32 \<equiv> parse_signed (-2147483648) 2147483647"

abbreviation parse_u32 :: "string \<Rightarrow> int option" where
  "parse_u32 \<equiv> parse_unsigned 4294967295"

abbreviation parse_i64 :: "string \<Rightarrow> int option" where
  "parse_i64 \<equiv> parse_signed (-9223372036854775808) 9223372036854775807"

text \<open>Decimal formatting of a number that is not negative, and with leading zeros (\<^verbatim>\<open>{:06}\<close>).\<close>

function dec :: "int \<Rightarrow> string" where
  "dec n = (if n < 10 then [char_of (48 + n)] else dec (n div 10) @ [char_of (48 + n mod 10)])"
  by pat_completeness auto
termination
  by (relation "measure nat") auto

declare dec.simps [simp del]

definition pad_zeros :: "nat \<Rightarrow> string \<Rightarrow> string" where
  "pad_zeros k s = replicate (k - length s) (CHR ''0'') @ s"

text \<open>Formatting and parsing are inverse to each other.\<close>

definition digits_fold :: "int \<Rightarrow> string \<Rightarrow> int" where
  "digits_fold = foldl (\<lambda>acc c. acc * 10 + (of_char c - 48))"

lemma digits_fold_simps [simp]:
  "digits_fold acc [] = acc"
  "digits_fold acc (s @ [c]) = digits_fold acc s * 10 + (of_char c - 48)"
  by (simp_all add: digits_fold_def)

lemma digit_char:
  assumes "0 \<le> (n :: int)" "n < 10"
  shows "of_char (char_of (48 + n) :: char) = 48 + n" "is_ascii_digit (char_of (48 + n))"
proof -
  have n: "(48 + n) mod 256 = 48 + n" using assms by simp
  then show i: "of_char (char_of (48 + n) :: char) = 48 + n" by (simp add: of_char_of)
  have "(of_char (char_of (48 + n) :: char) :: nat) = nat (of_char (char_of (48 + n) :: char) :: int)"
    by (metis nat_int of_nat_of_char)
  with i assms show "is_ascii_digit (char_of (48 + n))" by (simp add: is_ascii_digit_def nat_add_distrib)
qed

lemma dec_digits: "0 \<le> n \<Longrightarrow> dec n \<noteq> [] \<and> list_all is_ascii_digit (dec n) \<and> digits_fold 0 (dec n) = n"
proof (induction n rule: dec.induct)
  case (1 n)
  show ?case
  proof (cases "n < 10")
    case True
    with 1(2) digit_char [of n] digits_fold_simps(2) [of 0 "[]"] show ?thesis by (simp add: dec.simps [of n])
  next
    case False
    moreover have "0 \<le> n mod 10" "n mod 10 < 10" by simp_all
    ultimately show ?thesis using 1 digit_char [of "n mod 10"] by (simp add: dec.simps [of n])
  qed
qed

lemma pad_digits:
  assumes "s \<noteq> []" "list_all is_ascii_digit s"
  shows "pad_zeros k s \<noteq> []" "list_all is_ascii_digit (pad_zeros k s)" "digits_fold 0 (pad_zeros k s) = digits_fold 0 s"
proof -
  show "pad_zeros k s \<noteq> []" using assms by (simp add: pad_zeros_def)
  show "list_all is_ascii_digit (pad_zeros k s)" using assms by (auto simp: pad_zeros_def list_all_iff is_ascii_digit_def Let_def split: if_splits)
  have "digits_fold 0 (replicate j (CHR ''0'')) = 0" for j
    by (induction j) (simp_all add: replicate_append_same [symmetric] del: replicate.simps(2), simp add: digits_fold_def)
  then show "digits_fold 0 (pad_zeros k s) = digits_fold 0 s" by (simp add: pad_zeros_def digits_fold_def)
qed

lemma digit_not_sign: "is_ascii_digit c \<Longrightarrow> c \<noteq> CHR ''+'' \<and> c \<noteq> CHR ''-''"
  by (auto simp: is_ascii_digit_def)

lemma parse_unsigned_dec:
  assumes "0 \<le> n" "n \<le> hi"
  shows "parse_unsigned hi (pad_zeros k (dec n)) = Some n"
proof -
  note d = dec_digits [OF assms(1)]
  note p = pad_digits [of "dec n" k]
  obtain c cs where c: "pad_zeros k (dec n) = c # cs" using p(1) d by (cases "pad_zeros k (dec n)") auto
  then have "is_ascii_digit c" using d p(2) by simp
  then have "c \<noteq> CHR ''+''" using digit_not_sign by blast
  moreover have "digits_value (c # cs) = Some n"
    using c d p by (simp add: digits_value_def digits_fold_def)
  ultimately show ?thesis using assms(2) by (simp add: parse_unsigned_def c)
qed

end
