(* ===== verification/QueryParser.thy ===== *)
theory QueryParser
  imports RustNum
begin

text \<open>
  The search query language (\<^verbatim>\<open>crates/smart-folder/src/parser\<close>): the lexer that finds
  \<^verbatim>\<open>operator:value\<close> spans, their application to the parsed query, date values, and the
  analysis of the cursor position. A byte slice that is not on a character boundary is a panic, as
  in Rust. The calendar (the jiff package and the system time zone) is a parameter.
\<close>

section \<open>Slices\<close>

definition is_char_boundary :: "string \<Rightarrow> nat \<Rightarrow> bool" where
  "is_char_boundary s i \<longleftrightarrow> i = 0 \<or> i = length s \<or> (i < length s \<and> \<not> is_continuation (s ! i))"

definition slice_from :: "string \<Rightarrow> nat \<Rightarrow> string res" where
  "slice_from s i = (if is_char_boundary s i then Inr (drop i s) else Inl (Panic ''byte index is not a char boundary''))"

definition slice_to :: "string \<Rightarrow> nat \<Rightarrow> string res" where
  "slice_to s i = (if is_char_boundary s i then Inr (take i s) else Inl (Panic ''byte index is not a char boundary''))"

text \<open>The part of a string before its first white space: what \<^verbatim>\<open>find(char::is_whitespace)\<close> cuts off.\<close>

definition first_token :: "string \<Rightarrow> string" where
  "first_token s = concat (takeWhile (\<lambda>c. \<not> is_whitespace c) (utf8_chars s))"

definition is_ascii_whitespace :: "char \<Rightarrow> bool" where
  "is_ascii_whitespace c \<longleftrightarrow> (of_char c :: nat) \<in> {9, 10, 12, 13, 32}"

definition lower :: "string \<Rightarrow> string" where
  "lower s = map ascii_lower_char s"

section \<open>Lexer\<close>

record operator_span =
  span_start :: nat
  span_end :: nat
  span_operator :: string
  span_value :: string

definition OPERATORS :: "string list" where
  "OPERATORS = [''from'', ''to'', ''has'', ''is'', ''before'', ''after'', ''label'', ''account'', ''folder'', ''in'', ''type'']"

text \<open>The value in quotes at the start of a string, if the quote is closed.\<close>

definition quoted_value :: "string \<Rightarrow> string option" where
  "quoted_value s =
     (case strip_prefix [CHR 0x22] s of
        Some after_quote \<Rightarrow>
          if CHR 0x22 \<in> set after_quote then Some (takeWhile (\<lambda>c. c \<noteq> CHR 0x22) after_quote) else None
      | None \<Rightarrow> None)"

definition extract_value :: "string \<Rightarrow> nat \<Rightarrow> (string \<times> nat) res" where
  "extract_value input pos =
     res_bind (slice_from input pos) (\<lambda>rest.
       let trimmed = trim_start rest;
           start = pos + (length rest - length trimmed)
       in case quoted_value trimmed of
            Some v \<Rightarrow> Inr (v, start + length v + 2)
          | None \<Rightarrow> Inr (first_token trimmed, start + length (first_token trimmed)))"

definition is_four_digit_year :: "string \<Rightarrow> bool" where
  "is_four_digit_year token \<longleftrightarrow> length token = 4 \<and> list_all is_ascii_digit token"

definition is_short_digit_token :: "string \<Rightarrow> bool" where
  "is_short_digit_token token \<longleftrightarrow> 1 \<le> length token \<and> length token \<le> 2 \<and> list_all is_ascii_digit token"

fun consume_parts :: "nat \<Rightarrow> string \<Rightarrow> string \<Rightarrow> nat \<Rightarrow> string \<times> nat" where
  "consume_parts 0 trimmed combined cursor = (combined, cursor)"
| "consume_parts (Suc n) trimmed combined cursor =
     (let after = drop cursor trimmed;
          next_trimmed = trim_start after
      in if next_trimmed = [] then (combined, cursor)
         else
           let ws_skip = length after - length next_trimmed;
               next_token = first_token next_trimmed
           in if is_short_digit_token next_token
              then consume_parts n trimmed (combined @ '' '' @ next_token) (cursor + (ws_skip + length next_token))
              else (combined, cursor))"

definition greedy_consume_date_parts :: "string \<Rightarrow> string \<Rightarrow> nat \<Rightarrow> nat \<Rightarrow> string \<times> nat" where
  "greedy_consume_date_parts trimmed token first_end abs_start =
     (let (combined, cursor) = consume_parts 2 trimmed token first_end in (combined, abs_start + cursor))"

definition extract_date_value :: "string \<Rightarrow> nat \<Rightarrow> (string \<times> nat) res" where
  "extract_date_value input pos =
     res_bind (slice_from input pos) (\<lambda>rest.
       let trimmed = trim_start rest;
           start = pos + (length rest - length trimmed)
       in case quoted_value trimmed of
            Some v \<Rightarrow> Inr (v, start + length v + 2)
          | None \<Rightarrow>
              let token = first_token trimmed
              in if \<not> is_four_digit_year token then Inr (token, start + length token)
                 else Inr (greedy_consume_date_parts trimmed token (length token) start))"

definition match_single_operator :: "string \<Rightarrow> nat \<Rightarrow> string \<Rightarrow> operator_span option res" where
  "match_single_operator input pos op =
     res_bind (slice_from input pos) (\<lambda>rest.
       let prefix = op @ '':''
       in if take (length prefix) (lower rest) \<noteq> prefix then Inr None
          else
            let after_colon = pos + length prefix
            in res_bind (if op = ''before'' \<or> op = ''after'' then extract_date_value input after_colon
                         else extract_value input after_colon) (\<lambda>(v, e).
                 if v = [] then Inr None
                 else Inr (Some \<lparr>span_start = pos, span_end = e, span_operator = op, span_value = v\<rparr>)))"

fun first_operator :: "string \<Rightarrow> nat \<Rightarrow> string list \<Rightarrow> operator_span option res" where
  "first_operator input pos [] = Inr None"
| "first_operator input pos (op # ops) =
     res_bind (match_single_operator input pos op) (\<lambda>r.
       case r of Some sp \<Rightarrow> Inr (Some sp) | None \<Rightarrow> first_operator input pos ops)"

definition try_parse_operator_at :: "string \<Rightarrow> nat \<Rightarrow> operator_span option res" where
  "try_parse_operator_at input pos =
     (if pos > 0 \<and> \<not> is_ascii_whitespace (input ! (pos - 1)) then Inr None
      else first_operator input pos OPERATORS)"

text \<open>A span ends behind the place where it starts, so the scan moves on.\<close>

lemma consume_parts_ge: "cursor \<le> snd (consume_parts n trimmed combined cursor)"
proof (induction n trimmed combined cursor rule: consume_parts.induct)
  case (2 n trimmed combined cursor)
  let ?after = "drop cursor trimmed"
  let ?next = "trim_start ?after"
  show ?case
  proof (cases "?next \<noteq> [] \<and> is_short_digit_token (first_token ?next)")
    case True
    then have "cursor + (length ?after - length ?next + length (first_token ?next)) \<le>
        snd (consume_parts (Suc n) trimmed combined cursor)"
      using 2 [OF refl refl _ refl refl] by (simp add: Let_def)
    then show ?thesis by linarith
  next
    case False
    then show ?thesis by (auto simp: Let_def)
  qed
qed simp

lemma extract_ge:
  "extract_value input pos = Inr (v, e) \<Longrightarrow> pos \<le> e"
  "extract_date_value input pos = Inr (v, e) \<Longrightarrow> pos \<le> e"
  by (auto simp: extract_value_def extract_date_value_def Let_def greedy_consume_date_parts_def
      split: option.splits if_splits prod.splits)

lemma match_single_operator_end:
  "match_single_operator input pos op = Inr (Some sp) \<Longrightarrow> pos < span_end sp"
  by (auto simp: match_single_operator_def Let_def dest!: extract_ge split: if_splits)

lemma first_operator_end: "first_operator input pos ops = Inr (Some sp) \<Longrightarrow> pos < span_end sp"
  by (induction ops) (auto dest: match_single_operator_end split: option.splits)

lemma try_parse_end: "try_parse_operator_at input pos = Inr (Some sp) \<Longrightarrow> pos < span_end sp"
  by (auto simp: try_parse_operator_at_def first_operator_end split: if_splits)

function collect_from :: "string \<Rightarrow> nat \<Rightarrow> operator_span list res" where
  "collect_from input pos =
     (if pos \<ge> length input then Inr []
      else case try_parse_operator_at input pos of
             Inl p \<Rightarrow> Inl p
           | Inr None \<Rightarrow> collect_from input (pos + 1)
           | Inr (Some sp) \<Rightarrow> res_bind (collect_from input (span_end sp)) (\<lambda>spans. Inr (sp # spans)))"
  by pat_completeness auto
termination
  by (relation "measure (\<lambda>(input, pos). length input - pos)") (auto dest: try_parse_end)

declare collect_from.simps [simp del]

definition collect_operator_spans :: "string \<Rightarrow> operator_span list res" where
  "collect_operator_spans input = collect_from input 0"

section \<open>Dates\<close>

text \<open>
  The calendar: the timestamp of the start of a civil day, if there is such a day, and of today
  moved by a number of days. The second may panic: the span constructor of the package
  (\<^verbatim>\<open>Span::days\<close>) does for numbers of days out of its range.
\<close>

record calendar =
  day_timestamp :: "int \<Rightarrow> int \<Rightarrow> int \<Rightarrow> int option"
  relative_timestamp :: "int \<Rightarrow> int option res"

text \<open>\<^verbatim>\<open>civil_date\<close> and \<^verbatim>\<open>naive_date_to_timestamp\<close>: the conversions to \<^verbatim>\<open>i16\<close> and
  \<^verbatim>\<open>i8\<close>, then the calendar.\<close>

definition civil_date :: "calendar \<Rightarrow> int \<Rightarrow> int \<Rightarrow> int \<Rightarrow> int option" where
  "civil_date cal year month day =
     (if -32768 \<le> year \<and> year \<le> 32767 \<and> month \<le> 127 \<and> day \<le> 127
      then day_timestamp cal year month day else None)"

definition parse_relative_offset :: "calendar \<Rightarrow> string \<Rightarrow> int option res" where
  "parse_relative_offset cal s =
     (case parse_i64 s of
        None \<Rightarrow> Inr None
      | Some days \<Rightarrow> if days > 0 then Inr None else relative_timestamp cal days)"

fun date_of_parts :: "calendar \<Rightarrow> string list \<Rightarrow> int option" where
  "date_of_parts cal [y, m, d] =
     Option.bind (parse_i32 y) (\<lambda>year. Option.bind (parse_u32 m) (\<lambda>month.
       Option.bind (parse_u32 d) (\<lambda>day. civil_date cal year month day)))"
| "date_of_parts cal [y, m] =
     Option.bind (parse_i32 y) (\<lambda>year. Option.bind (parse_u32 m) (\<lambda>month. civil_date cal year month 1))"
| "date_of_parts cal _ = None"

definition parse_separated_date :: "calendar \<Rightarrow> string \<Rightarrow> int option" where
  "parse_separated_date cal s =
     date_of_parts cal (split_char (if CHR ''/'' \<in> set s then CHR ''/'' else CHR ''-'') s)"

definition parse_space_separated_date :: "calendar \<Rightarrow> string \<Rightarrow> int option" where
  "parse_space_separated_date cal s = date_of_parts cal (map concat (white_tokens (utf8_chars s)))"

definition parse_compact_date :: "calendar \<Rightarrow> string \<Rightarrow> int option" where
  "parse_compact_date cal s =
     (if \<not> list_all is_ascii_digit s then None
      else if length s = 4 then Option.bind (parse_i32 s) (\<lambda>year. civil_date cal year 1 1)
      else if length s = 6 then
        Option.bind (parse_i32 (take 4 s)) (\<lambda>year. Option.bind (parse_u32 (drop 4 s)) (\<lambda>month.
          civil_date cal year month 1))
      else if length s = 8 then
        Option.bind (parse_i32 (take 4 s)) (\<lambda>year. Option.bind (parse_u32 (take 2 (drop 4 s))) (\<lambda>month.
          Option.bind (parse_u32 (drop 6 s)) (\<lambda>day. civil_date cal year month day)))
      else None)"

definition parse_date_to_timestamp :: "calendar \<Rightarrow> string \<Rightarrow> int option res" where
  "parse_date_to_timestamp cal date_str =
     (let trimmed = trim date_str
      in if trimmed = [] then Inr None
         else if trimmed = ''0'' \<or> hd trimmed = CHR ''-'' then parse_relative_offset cal trimmed
         else if CHR ''/'' \<in> set trimmed \<or> CHR ''-'' \<in> set trimmed then Inr (parse_separated_date cal trimmed)
         else if CHR '' '' \<in> set trimmed then Inr (parse_space_separated_date cal trimmed)
         else Inr (parse_compact_date cal trimmed))"

section \<open>The parsed query\<close>

datatype bound_direction = Before | After

record date_bound =
  db_timestamp :: int
  db_direction :: bound_direction

record parsed_query =
  free_text :: string
  pq_from :: "string list"
  pq_to :: "string list"
  pq_account :: "string list"
  pq_label :: "string list"
  pq_folder :: "string list"
  in_folder :: "string list"
  has_attachment :: bool
  attachment_types :: "string list"
  has_contact :: bool
  is_unread :: "bool option"
  is_read :: "bool option"
  is_starred :: "bool option"
  is_snoozed :: "bool option"
  is_pinned :: "bool option"
  is_muted :: "bool option"
  is_tagged :: "bool option"
  pq_before :: "date_bound option"
  pq_after :: "date_bound option"

definition parsed_query_default :: parsed_query where
  "parsed_query_default = \<lparr>free_text = [], pq_from = [], pq_to = [], pq_account = [], pq_label = [], pq_folder = [],
     in_folder = [], has_attachment = False, attachment_types = [], has_contact = False, is_unread = None,
     is_read = None, is_starred = None, is_snoozed = None, is_pinned = None, is_muted = None, is_tagged = None,
     pq_before = None, pq_after = None\<rparr>"

definition has_any_operator :: "parsed_query \<Rightarrow> bool" where
  "has_any_operator q \<longleftrightarrow>
     pq_from q \<noteq> [] \<or> pq_to q \<noteq> [] \<or> pq_account q \<noteq> [] \<or> pq_label q \<noteq> [] \<or> pq_folder q \<noteq> [] \<or> in_folder q \<noteq> []
     \<or> has_attachment q \<or> attachment_types q \<noteq> [] \<or> has_contact q \<or> is_unread q \<noteq> None \<or> is_read q \<noteq> None
     \<or> is_starred q \<noteq> None \<or> is_snoozed q \<noteq> None \<or> is_pinned q \<noteq> None \<or> is_muted q \<noteq> None \<or> is_tagged q \<noteq> None
     \<or> pq_before q \<noteq> None \<or> pq_after q \<noteq> None"

definition HAS_EXPANSIONS :: "(string \<times> string list) list" where
  "HAS_EXPANSIONS =
     [(''pdf'', [''application/pdf'']),
      (''image'', [''image/jpeg'', ''image/png'', ''image/gif'', ''image/webp'', ''image/svg+xml'']),
      (''excel'', [''application/vnd.ms-excel'',
                   ''application/vnd.openxmlformats-officedocument.spreadsheetml.sheet'',
                   ''application/vnd.oasis.opendocument.spreadsheet'', ''text/csv'']),
      (''word'', [''application/msword'',
                  ''application/vnd.openxmlformats-officedocument.wordprocessingml.document'',
                  ''application/vnd.oasis.opendocument.text'', ''application/rtf'']),
      (''powerpoint'', [''application/vnd.ms-powerpoint'',
                        ''application/vnd.openxmlformats-officedocument.presentationml.presentation'',
                        ''application/vnd.oasis.opendocument.presentation'']),
      (''archive'', [''application/zip'', ''application/gzip'', ''application/x-tar'',
                     ''application/x-7z-compressed'', ''application/x-rar-compressed'']),
      (''video'', [''video/*'']),
      (''audio'', [''audio/*'']),
      (''calendar'', [''text/calendar'', ''application/ics''])]"

definition push_expansion_mimes :: "string \<Rightarrow> parsed_query \<Rightarrow> parsed_query \<times> bool" where
  "push_expansion_mimes k q =
     (case map_of HAS_EXPANSIONS k of
        Some mimes \<Rightarrow> (q\<lparr>attachment_types := attachment_types q @ mimes\<rparr>, True)
      | None \<Rightarrow> (q, False))"

definition expand_has_value :: "string \<Rightarrow> parsed_query \<Rightarrow> parsed_query \<times> bool" where
  "expand_has_value v q =
     (if v = ''spreadsheet'' then (fst (push_expansion_mimes ''excel'' q), True)
      else if v = ''document''
      then (fst (push_expansion_mimes ''pdf'' (fst (push_expansion_mimes ''word'' q))), True)
      else push_expansion_mimes v q)"

definition apply_has_operator :: "string \<Rightarrow> parsed_query \<Rightarrow> parsed_query \<times> bool" where
  "apply_has_operator v q =
     (let l = lower v
      in if l = ''attachment'' then (q\<lparr>has_attachment := True\<rparr>, True)
         else if l = ''contact'' then (q\<lparr>has_contact := True\<rparr>, True)
         else expand_has_value l q)"

definition apply_is_operator :: "string \<Rightarrow> parsed_query \<Rightarrow> parsed_query \<times> bool" where
  "apply_is_operator v q =
     (let l = lower v
      in if l = ''unread'' then (q\<lparr>is_unread := Some True\<rparr>, True)
         else if l = ''read'' then (q\<lparr>is_read := Some True\<rparr>, True)
         else if l = ''starred'' then (q\<lparr>is_starred := Some True\<rparr>, True)
         else if l = ''snoozed'' then (q\<lparr>is_snoozed := Some True\<rparr>, True)
         else if l = ''pinned'' then (q\<lparr>is_pinned := Some True\<rparr>, True)
         else if l = ''muted'' then (q\<lparr>is_muted := Some True\<rparr>, True)
         else if l = ''tagged'' then (q\<lparr>is_tagged := Some True\<rparr>, True)
         else (q, False))"

definition apply_operator :: "calendar \<Rightarrow> string \<Rightarrow> string \<Rightarrow> parsed_query \<Rightarrow> (parsed_query \<times> bool) res" where
  "apply_operator cal op v q =
     (if op = ''from'' then Inr (q\<lparr>pq_from := pq_from q @ [v]\<rparr>, True)
      else if op = ''to'' then Inr (q\<lparr>pq_to := pq_to q @ [v]\<rparr>, True)
      else if op = ''has'' then Inr (apply_has_operator v q)
      else if op = ''is'' then Inr (apply_is_operator v q)
      else if op = ''before'' then
        res_bind (parse_date_to_timestamp cal v) (\<lambda>d.
          Inr (q\<lparr>pq_before := map_option (\<lambda>t. \<lparr>db_timestamp = t, db_direction = Before\<rparr>) d\<rparr>, True))
      else if op = ''after'' then
        res_bind (parse_date_to_timestamp cal v) (\<lambda>d.
          Inr (q\<lparr>pq_after := map_option (\<lambda>t. \<lparr>db_timestamp = t, db_direction = After\<rparr>) d\<rparr>, True))
      else if op = ''label'' then Inr (q\<lparr>pq_label := pq_label q @ [v]\<rparr>, True)
      else if op = ''account'' then Inr (q\<lparr>pq_account := pq_account q @ [v]\<rparr>, True)
      else if op = ''folder'' then Inr (q\<lparr>pq_folder := pq_folder q @ [v]\<rparr>, True)
      else if op = ''in'' then Inr (q\<lparr>in_folder := in_folder q @ [v]\<rparr>, True)
      else if op = ''type'' then Inr (q\<lparr>attachment_types := attachment_types q @ [v]\<rparr>, True)
      else Inr (q, False))"

fun apply_spans :: "calendar \<Rightarrow> operator_span list \<Rightarrow> parsed_query \<Rightarrow> (parsed_query \<times> bool list) res" where
  "apply_spans cal [] q = Inr (q, [])"
| "apply_spans cal (sp # sps) q =
     res_bind (apply_operator cal (span_operator sp) (span_value sp) q) (\<lambda>(q1, r).
       res_bind (apply_spans cal sps q1) (\<lambda>(q2, rs). Inr (q2, r # rs)))"

definition collapse_whitespace :: "string \<Rightarrow> string" where
  "collapse_whitespace s =
     (case map concat (white_tokens (utf8_chars s)) of
        [] \<Rightarrow> []
      | t # ts \<Rightarrow> t @ concat (map (\<lambda>x. '' '' @ x) ts))"

definition remove_span :: "operator_span \<times> bool \<Rightarrow> string res \<Rightarrow> string res" where
  "remove_span sr remaining =
     (if \<not> snd sr then remaining
      else res_bind remaining (\<lambda>s.
        res_bind (slice_to s (span_start (fst sr))) (\<lambda>a.
          res_bind (slice_from s (span_end (fst sr))) (\<lambda>b. Inr (a @ b)))))"

definition parse_query :: "calendar \<Rightarrow> string \<Rightarrow> parsed_query res" where
  "parse_query cal input =
     res_bind (collect_operator_spans input) (\<lambda>spans.
       res_bind (apply_spans cal spans parsed_query_default) (\<lambda>(q, recognized).
         res_bind (foldr remove_span (zip spans recognized) (Inr input)) (\<lambda>remaining.
           Inr (q\<lparr>free_text := collapse_whitespace remaining\<rparr>))))"

section \<open>The cursor\<close>

datatype cursor_context =
    FreeText
  | InsideOperator (ctx_operator: string) (partial_value: string) (value_start: nat) (value_end: nat)

text \<open>The byte position of the last white-space character (\<^verbatim>\<open>rfind(char::is_whitespace)\<close>).\<close>

fun last_white :: "nat \<Rightarrow> string list \<Rightarrow> nat option \<Rightarrow> nat option" where
  "last_white pos [] found = found"
| "last_white pos (c # cs) found = last_white (pos + length c) cs (if is_whitespace c then Some pos else found)"

definition rfind_whitespace :: "string \<Rightarrow> nat option" where
  "rfind_whitespace s = last_white 0 (utf8_chars s) None"

text \<open>One colon: the context it gives, or None to look further left.\<close>

definition context_at :: "string \<Rightarrow> nat \<Rightarrow> nat \<Rightarrow> cursor_context option res" where
  "context_at query cursor colon_pos =
     (let before_colon = take colon_pos query;
          op_start = (case rfind_whitespace before_colon of None \<Rightarrow> 0 | Some p \<Rightarrow> p + 1)
      in res_bind (slice_from before_colon op_start) (\<lambda>candidate.
           if candidate = [] then Inr None
           else if lower candidate \<notin> set OPERATORS then Inr None
           else
             let start = colon_pos + 1;
                 partial = drop start (take cursor query)
             in case strip_prefix [CHR 0x22] partial of
                  Some after_open \<Rightarrow>
                    if CHR 0x22 \<in> set after_open then Inr None
                    else Inr (Some (InsideOperator (lower candidate) after_open start cursor))
                | None \<Rightarrow>
                    if list_ex is_whitespace (utf8_chars partial) then Inr None
                    else Inr (Some (InsideOperator (lower candidate) partial start cursor))))"

fun context_scan :: "string \<Rightarrow> nat \<Rightarrow> nat list \<Rightarrow> cursor_context res" where
  "context_scan query cursor [] = Inr FreeText"
| "context_scan query cursor (colon_pos # rest) =
     res_bind (context_at query cursor colon_pos) (\<lambda>r.
       case r of Some ctx \<Rightarrow> Inr ctx | None \<Rightarrow> context_scan query cursor rest)"

definition colons :: "string \<Rightarrow> nat list" where
  "colons s = filter (\<lambda>i. s ! i = CHR '':'') [0..<length s]"

definition analyze_cursor_context :: "string \<Rightarrow> nat \<Rightarrow> cursor_context res" where
  "analyze_cursor_context query cursor_pos =
     (let cursor = min cursor_pos (length query)
      in res_bind (slice_to query cursor) (\<lambda>prefix. context_scan query cursor (rev (colons prefix))))"

end
