(* ===== verification/QueryLexer.thy ===== *)
theory QueryLexer
  imports QueryParser
begin

text \<open>
  The lexer cuts well-formed text only at character boundaries: where its spans start and end, and
  that no slice of it panics.
\<close>

section \<open>Character boundaries\<close>

text \<open>What the proofs need of well-formed UTF-8: the text starts with a character, and a continuation
  byte never follows an ASCII byte.\<close>

abbreviation fresh :: "string \<Rightarrow> bool" where
  "fresh s \<equiv> \<not> starts_extending is_continuation s"

definition ascii_closed :: "string \<Rightarrow> bool" where
  "ascii_closed s \<longleftrightarrow> (\<forall>i. Suc i < length s \<longrightarrow> (of_char (s ! i) :: nat) < 128 \<longrightarrow> \<not> is_continuation (s ! Suc i))"

definition utf8_text :: "string \<Rightarrow> bool" where
  "utf8_text s \<longleftrightarrow> fresh s \<and> ascii_closed s"

lemma ascii_closed_code:
  "ascii_closed s \<longleftrightarrow> list_all (\<lambda>(a, b). (of_char a :: nat) < 128 \<longrightarrow> \<not> is_continuation b) (zip s (tl s))"
  by (auto simp: ascii_closed_def list_all_length nth_tl)

lemma fresh_Nil [simp]: "fresh []"
  by (simp add: starts_extending_def)

lemma boundary_iff:
  "is_char_boundary s i \<longleftrightarrow> i \<le> length s \<and> (i = 0 \<or> fresh (drop i s))"
proof (cases "i < length s")
  case True
  then have "drop i s = s ! i # drop (Suc i) s" by (simp add: Cons_nth_drop_Suc)
  with True show ?thesis by (auto simp: is_char_boundary_def starts_extending_def)
qed (auto simp: is_char_boundary_def)

lemma fresh_boundary: "i \<le> length s \<Longrightarrow> fresh (drop i s) \<Longrightarrow> is_char_boundary s i"
  by (simp add: boundary_iff)

lemma ascii_closed_drop: "ascii_closed s \<Longrightarrow> ascii_closed (drop i s)"
  by (auto simp: ascii_closed_def)

lemma fresh_after_ascii:
  assumes "ascii_closed s" "i < length s" "(of_char (s ! i) :: nat) < 128"
  shows "fresh (drop (Suc i) s)"
proof (cases "Suc i < length s")
  case True
  then have "drop (Suc i) s = s ! Suc i # drop (Suc (Suc i)) s" by (simp add: Cons_nth_drop_Suc)
  with True assms show ?thesis by (simp add: ascii_closed_def starts_extending_def)
qed simp

lemma concat_drop_chars: "concat (drop n (utf8_chars s)) = drop (length (concat (take n (utf8_chars s)))) s"
proof -
  have "s = concat (take n (utf8_chars s)) @ concat (drop n (utf8_chars s))"
    by (simp flip: concat_append)
  then show ?thesis by (metis append_eq_conv_conj)
qed

lemma fresh_drop_chars: "fresh s \<Longrightarrow> fresh (concat (drop n (utf8_chars s)))"
  using starts_extending_drop [of n is_continuation s]
  by (cases "n = 0") (simp_all add: utf8_chars_def concat_extend_segments)

text \<open>Skipping white space, and the first token.\<close>

lemma trim_start_drop: "trim_start s = drop (length s - length (trim_start s)) s"
proof -
  have "s = concat (takeWhile is_whitespace (utf8_chars s)) @ trim_start s"
    by (simp add: trim_start_def flip: concat_append)
  then show ?thesis by (metis add_diff_cancel_right' append_eq_conv_conj length_append)
qed

text \<open>The text behind the white space at a position, as a suffix of the whole text.\<close>

lemma drop_trim_start:
  "drop (pos + (length (drop pos s) - length (trim_start (drop pos s)))) s = trim_start (drop pos s)"
proof -
  have "drop (length (drop pos s) - length (trim_start (drop pos s))) (drop pos s) = trim_start (drop pos s)"
    by (rule trim_start_drop [symmetric])
  then show ?thesis by (simp only: drop_drop add.commute)
qed

lemma drop_trim_start_add:
  "drop (pos + (length (drop pos s) - length (trim_start (drop pos s))) + k) s = drop k (trim_start (drop pos s))"
proof -
  let ?n = "pos + (length (drop pos s) - length (trim_start (drop pos s)))"
  have "drop (?n + k) s = drop k (drop ?n s)" by (simp only: drop_drop add.commute)
  then show ?thesis by (simp only: drop_trim_start)
qed

lemma fresh_trim_start: "fresh s \<Longrightarrow> fresh (trim_start s)"
  using fresh_drop_chars by (simp add: trim_start_def dropWhile_eq_drop)

lemma first_token_prefix: "s = first_token s @ concat (dropWhile (\<lambda>c. \<not> is_whitespace c) (utf8_chars s))"
  unfolding first_token_def by (metis concat_append concat_utf8_chars takeWhile_dropWhile_id)

lemma first_token_length: "length (first_token s) \<le> length s"
  by (metis first_token_prefix le_add1 length_append)

lemma fresh_after_token: "fresh s \<Longrightarrow> fresh (drop (length (first_token s)) s)"
proof -
  assume "fresh s"
  have "drop (length (first_token s)) s = concat (dropWhile (\<lambda>c. \<not> is_whitespace c) (utf8_chars s))"
    by (metis append_eq_conv_conj first_token_prefix)
  with fresh_drop_chars [OF \<open>fresh s\<close>] show ?thesis by (simp add: dropWhile_eq_drop)
qed

lemma quoted_value_Some:
  assumes "quoted_value s = Some v"
  obtains rest where "s = CHR 0x22 # v @ CHR 0x22 # rest"
proof -
  from assms obtain t where t: "s = CHR 0x22 # t" "CHR 0x22 \<in> set t" "v = takeWhile (\<lambda>c. c \<noteq> CHR 0x22) t"
    by (auto simp: quoted_value_def split: option.splits if_splits)
  then have "dropWhile (\<lambda>c. c \<noteq> CHR 0x22) t \<noteq> []" by auto
  then obtain c cs where "dropWhile (\<lambda>c. c \<noteq> CHR 0x22) t = c # cs" by (cases "dropWhile (\<lambda>c. c \<noteq> CHR 0x22) t") auto
  moreover from this have "c = CHR 0x22" by (simp add: dropWhile_eq_Cons_conv)
  ultimately have "t = v @ CHR 0x22 # cs" using t(3) by (metis takeWhile_dropWhile_id)
  with t(1) that show thesis by simp
qed

lemma fresh_after_quote:
  assumes "ascii_closed s" "quoted_value s = Some v"
  shows "length v + 2 \<le> length s" "fresh (drop (length v + 2) s)"
proof -
  obtain rest where s: "s = CHR 0x22 # v @ CHR 0x22 # rest" using quoted_value_Some [OF assms(2)] .
  then show "length v + 2 \<le> length s" by simp
  have "s ! (length v + 1) = CHR 0x22" "length v + 1 < length s" using s by (simp_all add: nth_append)
  from fresh_after_ascii [OF assms(1) this(2)] this(1) show "fresh (drop (length v + 2) s)" by simp
qed

section \<open>Where values end\<close>

lemma consume_parts_fresh:
  "cursor \<le> length t \<Longrightarrow> fresh (drop cursor t) \<Longrightarrow> consume_parts n t combined cursor = (v, e) \<Longrightarrow>
    e \<le> length t \<and> fresh (drop e t) \<and> (combined \<noteq> [] \<longrightarrow> v \<noteq> [])"
proof (induction n arbitrary: combined cursor)
  case (Suc n)
  let ?after = "drop cursor t"
  let ?next = "trim_start ?after"
  let ?c = "cursor + (length ?after - length ?next + length (first_token ?next))"
  show ?case
  proof (cases "?next \<noteq> [] \<and> is_short_digit_token (first_token ?next)")
    case True
    have "length (first_token ?next) \<le> length ?next" by (rule first_token_length)
    moreover have "length ?next \<le> length ?after" by (rule length_trim_start)
    ultimately have "?c \<le> length t" using Suc.prems(1) by simp
    moreover have "drop ?c t = drop (length (first_token ?next)) ?next"
      using drop_trim_start_add [of cursor t "length (first_token ?next)"] by (simp only: add.assoc)
    then have "fresh (drop ?c t)" using fresh_after_token fresh_trim_start Suc.prems(2) by simp
    moreover have "consume_parts n t (combined @ '' '' @ first_token ?next) ?c = (v, e)"
      using Suc.prems(3) True by (simp add: Let_def)
    ultimately show ?thesis using Suc.IH by fastforce
  next
    case False
    with Suc.prems show ?thesis by (auto simp: Let_def split: if_splits)
  qed
qed auto

text \<open>From a boundary, a value is extracted without panic and ends at a boundary.\<close>

definition cuts_well :: "string \<Rightarrow> nat \<Rightarrow> (string \<times> nat) res \<Rightarrow> bool" where
  "cuts_well input pos r \<longleftrightarrow> (\<exists>v e. r = Inr (v, e) \<and> pos \<le> e \<and> e \<le> length input \<and> fresh (drop e input))"

lemma value_start_fresh:
  assumes "pos \<le> length input" "fresh (drop pos input)"
  shows "pos + (length (drop pos input) - length (trim_start (drop pos input))) \<le> length input"
    and "drop (pos + (length (drop pos input) - length (trim_start (drop pos input)))) input =
      trim_start (drop pos input)"
    and "fresh (trim_start (drop pos input))"
proof -
  show "pos + (length (drop pos input) - length (trim_start (drop pos input))) \<le> length input" using assms(1) by simp
  show "drop (pos + (length (drop pos input) - length (trim_start (drop pos input)))) input = trim_start (drop pos input)"
    by (rule drop_trim_start)
  show "fresh (trim_start (drop pos input))" using assms(2) by (rule fresh_trim_start)
qed

lemma extract_cuts_well:
  assumes "utf8_text input" "pos \<le> length input" "fresh (drop pos input)"
  shows "cuts_well input pos (extract_value input pos)" "cuts_well input pos (extract_date_value input pos)"
proof -
  let ?t = "trim_start (drop pos input)"
  let ?start = "pos + (length (drop pos input) - length ?t)"
  note vs = value_start_fresh [OF assms(2,3)]
  have sl: "slice_from input pos = Inr (drop pos input)"
    using assms(2,3) by (simp add: slice_from_def boundary_iff)
  have len: "?start + length ?t = length input"
    using assms(2) length_trim_start [of "drop pos input"] by simp
  have cut: "?start + k \<le> length input \<and> fresh (drop (?start + k) input)" if "k \<le> length ?t" "fresh (drop k ?t)" for k
    using that len drop_trim_start_add [of pos input k] by simp
  have "ascii_closed ?t" using assms(1) by (metis ascii_closed_drop utf8_text_def vs(2))
  then have quoted: "?start + length v + 2 \<le> length input \<and> fresh (drop (?start + length v + 2) input)"
    if "quoted_value ?t = Some v" for v
    using cut [of "length v + 2"] fresh_after_quote [OF _ that] by (simp add: add.assoc)
  have token: "?start + length (first_token ?t) \<le> length input \<and> fresh (drop (?start + length (first_token ?t)) input)"
    using cut first_token_length fresh_after_token vs(3) by blast
  show "cuts_well input pos (extract_value input pos)"
    using quoted token by (auto simp: cuts_well_def extract_value_def sl Let_def split: option.splits)
  obtain v e where c: "consume_parts 2 ?t (first_token ?t) (length (first_token ?t)) = (v, e)" by fastforce
  have "e \<le> length ?t \<and> fresh (drop e ?t)"
    using consume_parts_fresh [OF first_token_length fresh_after_token [OF vs(3)] c] by blast
  then have date: "?start + e \<le> length input \<and> fresh (drop (?start + e) input)" using cut by blast
  show "cuts_well input pos (extract_date_value input pos)"
    using quoted token date c
    by (auto simp: cuts_well_def extract_date_value_def sl Let_def greedy_consume_date_parts_def
        split: option.splits)
qed

section \<open>Spans\<close>

definition span_ok :: "string \<Rightarrow> operator_span \<Rightarrow> bool" where
  "span_ok input sp \<longleftrightarrow>
     span_start sp < span_end sp \<and> span_end sp \<le> length input
     \<and> is_char_boundary input (span_start sp) \<and> is_char_boundary input (span_end sp)
     \<and> span_operator sp \<in> set OPERATORS \<and> span_value sp \<noteq> []
     \<and> lower (take (length (span_operator sp) + 1) (drop (span_start sp) input)) = span_operator sp @ '':''"

fun spans_from :: "string \<Rightarrow> nat \<Rightarrow> operator_span list \<Rightarrow> bool" where
  "spans_from input pos [] \<longleftrightarrow> True"
| "spans_from input pos (sp # sps) \<longleftrightarrow>
     pos \<le> span_start sp \<and> span_ok input sp \<and> spans_from input (span_end sp) sps"

lemma lower_colon: "ascii_lower_char c = CHR '':'' \<Longrightarrow> c = CHR '':''"
proof -
  assume a: "ascii_lower_char c = CHR '':''"
  show ?thesis
  proof (cases "65 \<le> (of_char c :: nat) \<and> (of_char c :: nat) \<le> 90")
    case True
    with a have "char_of ((of_char c :: nat) + 32) = CHR '':''" by (simp add: ascii_lower_char_def Let_def)
    then have "(of_char (char_of ((of_char c :: nat) + 32) :: char) :: nat) = of_char (CHR '':'')" by simp
    with True show ?thesis by simp
  qed (use a in \<open>auto simp: ascii_lower_char_def Let_def\<close>)
qed

lemma length_lower [simp]: "length (lower s) = length s"
  by (simp add: lower_def)

lemma lower_append [simp]: "lower (a @ b) = lower a @ lower b"
  by (simp add: lower_def)

lemma prefix_colon:
  assumes "take (Suc n) (lower rest) = op @ '':''" "length op = n"
  shows "n < length rest" "rest ! n = CHR '':''" "lower (take (Suc n) rest) = op @ '':''"
proof -
  have len: "length (take (Suc n) (lower rest)) = Suc n" using assms by simp
  then show n: "n < length rest" by simp
  have "lower rest ! n = (op @ '':'') ! n" by (metis assms(1) lessI nth_take)
  then have "ascii_lower_char (rest ! n) = CHR '':''" using n assms(2) by (simp add: lower_def nth_append)
  then show "rest ! n = CHR '':''" by (rule lower_colon)
  show "lower (take (Suc n) rest) = op @ '':''" using assms(1) by (simp add: lower_def take_map)
qed

lemma match_single_total:
  assumes u: "utf8_text input" and p: "pos \<le> length input" "fresh (drop pos input)" and o: "op \<in> set OPERATORS"
  shows "\<exists>r. match_single_operator input pos op = Inr r \<and>
    (case r of None \<Rightarrow> True | Some sp \<Rightarrow> span_start sp = pos \<and> span_ok input sp \<and> fresh (drop (span_end sp) input))"
proof -
  have sl: "slice_from input pos = Inr (drop pos input)" using p by (simp add: slice_from_def boundary_iff)
  show ?thesis
  proof (cases "take (Suc (length op)) (lower (drop pos input)) = op @ '':''")
    case False
    then show ?thesis by (simp add: match_single_operator_def sl Let_def)
  next
    case True
    let ?a = "Suc (pos + length op)"
    note c = prefix_colon [OF True refl]
    have "pos + length op < length input" "input ! (pos + length op) = CHR '':''" using c(1,2) by simp_all
    then have a: "?a \<le> length input" "fresh (drop ?a input)"
      using fresh_after_ascii [of input "pos + length op"] u by (simp_all add: utf8_text_def)
    let ?x = "if op = ''before'' \<or> op = ''after'' then extract_date_value input ?a else extract_value input ?a"
    have "cuts_well input ?a ?x" using extract_cuts_well [OF u a] by simp
    then obtain v e where x: "?x = Inr (v, e)" "?a \<le> e" "e \<le> length input" "fresh (drop e input)"
      by (auto simp: cuts_well_def)
    have "span_ok input \<lparr>span_start = pos, span_end = e, span_operator = op, span_value = v\<rparr>" if "v \<noteq> []"
      using that x p o c(3) by (simp add: span_ok_def boundary_iff)
    moreover have "match_single_operator input pos op =
        Inr (if v = [] then None else Some \<lparr>span_start = pos, span_end = e, span_operator = op, span_value = v\<rparr>)"
      using x(1) True by (simp add: match_single_operator_def sl Let_def)
    ultimately show ?thesis using x(4) by simp
  qed
qed

lemma first_operator_total:
  assumes "utf8_text input" "pos \<le> length input" "fresh (drop pos input)" "set ops \<subseteq> set OPERATORS"
  shows "\<exists>r. first_operator input pos ops = Inr r \<and>
    (case r of None \<Rightarrow> True | Some sp \<Rightarrow> span_start sp = pos \<and> span_ok input sp \<and> fresh (drop (span_end sp) input))"
  using assms(4)
proof (induction ops)
  case (Cons op ops)
  then obtain r where "match_single_operator input pos op = Inr r"
    "case r of None \<Rightarrow> True | Some sp \<Rightarrow> span_start sp = pos \<and> span_ok input sp \<and> fresh (drop (span_end sp) input)"
    using match_single_total [OF assms(1-3)] by (meson list.set_intros(1) subsetD)
  with Cons show ?case by (cases r) auto
qed simp

text \<open>An operator can start only at the start of the text or behind ASCII white space.\<close>

lemma white_fresh:
  assumes "utf8_text input" "pos < length input" "pos = 0 \<or> is_ascii_whitespace (input ! (pos - 1))"
  shows "fresh (drop pos input)"
proof (cases pos)
  case 0
  with assms show ?thesis by (simp add: utf8_text_def)
next
  case (Suc i)
  with assms have "(of_char (input ! i) :: nat) < 128" by (auto simp: is_ascii_whitespace_def)
  with Suc assms show ?thesis using fresh_after_ascii [of input i] by (simp add: utf8_text_def)
qed

lemma try_parse_total:
  assumes "utf8_text input" "pos < length input"
  shows "\<exists>r. try_parse_operator_at input pos = Inr r \<and>
    (case r of None \<Rightarrow> True | Some sp \<Rightarrow> span_start sp = pos \<and> span_ok input sp \<and> fresh (drop (span_end sp) input))"
proof (cases "pos = 0 \<or> is_ascii_whitespace (input ! (pos - 1))")
  case True
  then show ?thesis
    using first_operator_total [OF assms(1) _ white_fresh [OF assms]] assms(2) by (auto simp: try_parse_operator_at_def)
qed (simp add: try_parse_operator_at_def)

lemma spans_from_mono: "spans_from input q sps \<Longrightarrow> p \<le> q \<Longrightarrow> spans_from input p sps"
  by (cases sps) auto

lemma collect_from_total: "utf8_text input \<Longrightarrow> \<exists>sps. collect_from input pos = Inr sps \<and> spans_from input pos sps"
proof (induction input pos rule: collect_from.induct)
  case (1 input pos)
  show ?case
  proof (cases "pos < length input")
    case True
    then obtain r where r: "try_parse_operator_at input pos = Inr r"
      "case r of None \<Rightarrow> True | Some sp \<Rightarrow> span_start sp = pos \<and> span_ok input sp \<and> fresh (drop (span_end sp) input)"
      using try_parse_total 1(3) by blast
    show ?thesis
    proof (cases r)
      case None
      then obtain sps where "collect_from input (pos + 1) = Inr sps" "spans_from input (pos + 1) sps"
        using 1 True r by auto
      moreover from this have "spans_from input pos sps" using spans_from_mono by fastforce
      ultimately show ?thesis using True None r(1) by (subst collect_from.simps) simp
    next
      case (Some sp)
      then obtain sps where "collect_from input (span_end sp) = Inr sps" "spans_from input (span_end sp) sps"
        using 1 True r by auto
      then show ?thesis using True Some r by (subst collect_from.simps) simp
    qed
  qed (simp add: collect_from.simps)
qed

lemma collect_operator_spans_total:
  "utf8_text input \<Longrightarrow> \<exists>sps. collect_operator_spans input = Inr sps \<and> spans_from input 0 sps"
  by (simp add: collect_operator_spans_def collect_from_total)

section \<open>Removing the recognized spans\<close>

text \<open>The reference: the text outside the recognized spans, from left to right.\<close>

fun kept_text :: "string \<Rightarrow> nat \<Rightarrow> (operator_span \<times> bool) list \<Rightarrow> string" where
  "kept_text input pos [] = drop pos input"
| "kept_text input pos ((sp, recognized) # rest) =
     drop pos (take (if recognized then span_start sp else span_end sp) input) @ kept_text input (span_end sp) rest"

lemma kept_text_fresh:
  "pos \<le> length input \<Longrightarrow> fresh (drop pos input) \<Longrightarrow> spans_from input pos (map fst zs) \<Longrightarrow> fresh (kept_text input pos zs)"
proof (induction zs arbitrary: pos)
  case (Cons z zs)
  obtain sp r where z: "z = (sp, r)" by fastforce
  let ?m = "if r then span_start sp else span_end sp"
  have sp: "pos \<le> ?m" "?m \<le> length input" "span_end sp \<le> length input" "0 < span_end sp"
    "is_char_boundary input (span_end sp)" "spans_from input (span_end sp) (map fst zs)"
    using Cons.prems(3) z by (auto simp: span_ok_def)
  then have rest: "fresh (kept_text input (span_end sp) zs)" using Cons.IH [of "span_end sp"] by (simp add: boundary_iff)
  show ?case
  proof (cases "pos = ?m")
    case True
    with rest z show ?thesis by simp
  next
    case False
    then have "pos < ?m" using sp(1) by simp
    then have "drop pos (take ?m input) = input ! pos # drop (Suc pos) (take ?m input)"
      "drop pos input = input ! pos # drop (Suc pos) input"
      using sp(2) by (simp_all add: Cons_nth_drop_Suc [symmetric])
    with Cons.prems(2) z show ?thesis by (simp add: starts_extending_def)
  qed
qed simp

lemma remove_spans:
  "pos \<le> length input \<Longrightarrow> fresh (drop pos input) \<Longrightarrow> spans_from input pos (map fst zs) \<Longrightarrow>
    foldr remove_span zs (Inr input) = Inr (take pos input @ kept_text input pos zs)"
proof (induction zs arbitrary: pos)
  case (Cons z zs)
  obtain sp r where z: "z = (sp, r)" by fastforce
  have sp: "pos \<le> span_start sp" "span_start sp < span_end sp" "span_end sp \<le> length input"
    "is_char_boundary input (span_start sp)" "is_char_boundary input (span_end sp)"
    "spans_from input (span_end sp) (map fst zs)"
    using Cons.prems(3) z by (auto simp: span_ok_def)
  let ?k = "kept_text input (span_end sp) zs"
  let ?t = "take (span_end sp) input @ ?k"
  have fr: "fresh (drop (span_end sp) input)" using sp(2,5) by (simp add: boundary_iff)
  have IH: "foldr remove_span zs (Inr input) = Inr ?t" using Cons.IH sp(3,6) fr by blast
  have "drop (span_end sp) ?t = ?k" using sp(3) by simp
  then have "slice_from ?t (span_end sp) = Inr ?k"
    using kept_text_fresh [OF sp(3) fr sp(6)] sp(3) by (simp add: slice_from_def boundary_iff)
  moreover have "is_char_boundary ?t (span_start sp)"
    using sp(2-4) by (auto simp: is_char_boundary_def nth_append)
  then have "slice_to ?t (span_start sp) = Inr (take (span_start sp) input)"
    using sp(2,3) by (simp add: slice_to_def min_def)
  ultimately have step: "remove_span z (Inr ?t) = Inr (if r then take (span_start sp) input @ ?k else ?t)"
    using z by (simp add: remove_span_def)
  have "take m input = take pos input @ drop pos (take m input)" if "pos \<le> m" for m
    using that by (metis append_take_drop_id min.absorb1 take_take)
  from this [of "span_start sp"] this [of "span_end sp"]
  have "Inr (if r then take (span_start sp) input @ ?k else ?t) = Inr (take pos input @ kept_text input pos (z # zs))"
    using sp(1,2) z by simp
  with step IH show ?case by simp
qed simp

lemma length_apply_spans: "apply_spans cal sps q = Inr (q', rs) \<Longrightarrow> length rs = length sps"
  by (induction sps arbitrary: q q' rs) (auto split: prod.splits)

lemma parse_query_kept:
  assumes "utf8_text input" "collect_operator_spans input = Inr sps"
  shows "parse_query cal input =
    res_bind (apply_spans cal sps parsed_query_default) (\<lambda>(q, rs).
      Inr (q\<lparr>free_text := collapse_whitespace (kept_text input 0 (zip sps rs))\<rparr>))"
proof (cases "apply_spans cal sps parsed_query_default")
  case (Inr r)
  then obtain q rs where q: "apply_spans cal sps parsed_query_default = Inr (q, rs)" by (cases r) auto
  then have "length rs = length sps" by (rule length_apply_spans)
  moreover have "spans_from input 0 sps" using collect_operator_spans_total [OF assms(1)] assms(2) by auto
  ultimately have "foldr remove_span (zip sps rs) (Inr input) = Inr (kept_text input 0 (zip sps rs))"
    using remove_spans [of 0 input "zip sps rs"] assms(1) by (simp add: utf8_text_def)
  with assms(2) q show ?thesis by (simp add: parse_query_def)
qed (use assms(2) in \<open>simp add: parse_query_def\<close>)

end
