(* ===== verification/QueryProperties.thy ===== *)
theory QueryProperties
  imports QueryLexer
begin

text \<open>
  What the query parser promises: it never panics, its spans are disjoint and in range, a query of
  one operator is read back as that operator, and the cursor analysis agrees with the text.
\<close>

section \<open>A single term\<close>

lemma prefix_colon_iff:
  assumes "CHR '':'' \<notin> set a" "CHR '':'' \<notin> set b"
  shows "take (Suc (length a)) (b @ CHR '':'' # r) = a @ '':'' \<longleftrightarrow> a = b"
proof
  let ?s = "b @ CHR '':'' # r"
  assume t: "take (Suc (length a)) ?s = a @ '':''"
  have "?s = take (Suc (length a)) ?s @ drop (Suc (length a)) ?s" by (rule append_take_drop_id [symmetric])
  then have "?s = a @ CHR '':'' # drop (Suc (length a)) ?s" by (simp only: t append.assoc append_Cons append_Nil)
  from arg_cong [OF this, of "takeWhile (\<lambda>c. c \<noteq> CHR '':'')"] show "a = b"
    using assms by (auto simp: takeWhile_append split: if_splits)
qed simp

lemma operators_no_colon: "op \<in> set OPERATORS \<Longrightarrow> CHR '':'' \<notin> set op"
  by (auto simp: OPERATORS_def)

lemma operators_nonempty: "op \<in> set OPERATORS \<Longrightarrow> op \<noteq> []"
  by (auto simp: OPERATORS_def)

text \<open>An input that starts with an operator and a colon is matched by that operator alone.\<close>

lemma match_other_operator:
  assumes "lower w = op" "op \<in> set OPERATORS" "op' \<in> set OPERATORS" "op' \<noteq> op"
  shows "match_single_operator (w @ CHR '':'' # r) 0 op' = Inr None"
proof -
  have "take (Suc (length op')) (lower (w @ CHR '':'' # r)) \<noteq> op' @ '':''"
    using prefix_colon_iff [of op' op "lower r"] assms operators_no_colon
    by (simp add: lower_def ascii_lower_char_def)
  then show ?thesis by (simp add: match_single_operator_def slice_from_def is_char_boundary_def Let_def)
qed

lemma match_operator:
  assumes "lower w = op" "op \<in> set OPERATORS" "v \<noteq> []"
    and "extract_value (w @ CHR '':'' # r) (Suc (length w)) = Inr (v, e)"
    and "extract_date_value (w @ CHR '':'' # r) (Suc (length w)) = Inr (v, e)"
  shows "match_single_operator (w @ CHR '':'' # r) 0 op =
    Inr (Some \<lparr>span_start = 0, span_end = e, span_operator = op, span_value = v\<rparr>)"
proof -
  have "length op = length w" using assms(1) by auto
  moreover have "take (Suc (length op)) (lower (w @ CHR '':'' # r)) = op @ '':''"
    using prefix_colon_iff [of op op "lower r"] assms operators_no_colon
    by (simp add: lower_def ascii_lower_char_def)
  ultimately show ?thesis using assms(3-5)
    by (simp add: match_single_operator_def slice_from_def is_char_boundary_def Let_def)
qed

lemma first_operator_match:
  assumes "lower w = op" "op \<in> set OPERATORS"
    and "match_single_operator (w @ CHR '':'' # r) 0 op = Inr (Some sp)"
  shows "set ops \<subseteq> set OPERATORS \<Longrightarrow> op \<in> set ops \<Longrightarrow> first_operator (w @ CHR '':'' # r) 0 ops = Inr (Some sp)"
proof (induction ops)
  case (Cons op' ops)
  show ?case
  proof (cases "op' = op")
    case True
    with assms(3) show ?thesis by simp
  next
    case False
    with Cons match_other_operator [OF assms(1,2), of op'] show ?thesis by simp
  qed
qed simp

text \<open>A value that reaches to the end of the input.\<close>

lemma collect_single:
  assumes "lower w \<in> set OPERATORS" "v \<noteq> []"
    and "extract_value (w @ CHR '':'' # r) (Suc (length w)) = Inr (v, length (w @ CHR '':'' # r))"
    and "extract_date_value (w @ CHR '':'' # r) (Suc (length w)) = Inr (v, length (w @ CHR '':'' # r))"
  shows "collect_operator_spans (w @ CHR '':'' # r) =
    Inr [\<lparr>span_start = 0, span_end = length (w @ CHR '':'' # r), span_operator = lower w, span_value = v\<rparr>]"
proof -
  let ?i = "w @ CHR '':'' # r"
  have "try_parse_operator_at ?i 0 =
      Inr (Some \<lparr>span_start = 0, span_end = length ?i, span_operator = lower w, span_value = v\<rparr>)"
    using first_operator_match [OF refl assms(1) match_operator [OF refl assms]] assms(1)
    by (simp add: try_parse_operator_at_def)
  then show ?thesis
    by (simp add: collect_operator_spans_def collect_from.simps [of _ 0] collect_from.simps [of _ "length _"]
        collect_from.simps [of _ "Suc (length w + length r)"])
qed

lemma quote_not_white: "\<not> is_whitespace (CHR 0x22 # x)"
  by (simp add: is_whitespace_def split: list.splits)

lemma trim_start_quote: "trim_start (CHR 0x22 # x) = CHR 0x22 # x"
proof -
  have "utf8_chars (CHR 0x22 # x) =
      (CHR 0x22 # takeWhile is_continuation x) # utf8_chars (dropWhile is_continuation x)"
    by (simp add: utf8_chars_def)
  then show ?thesis
    by (metis concat_utf8_chars dropWhile.simps(2) quote_not_white trim_start_def)
qed

lemma extract_quoted:
  assumes "CHR 0x22 \<notin> set v"
  shows "extract_value (w @ CHR '':'' # CHR 0x22 # v @ [CHR 0x22]) (Suc (length w)) =
      Inr (v, length (w @ CHR '':'' # CHR 0x22 # v @ [CHR 0x22]))"
    and "extract_date_value (w @ CHR '':'' # CHR 0x22 # v @ [CHR 0x22]) (Suc (length w)) =
      Inr (v, length (w @ CHR '':'' # CHR 0x22 # v @ [CHR 0x22]))"
proof -
  have q: "quoted_value (CHR 0x22 # v @ [CHR 0x22]) = Some v"
    using assms by (simp add: quoted_value_def strip_prefix_def takeWhile_tail takeWhile_append)
  show "extract_value (w @ CHR '':'' # CHR 0x22 # v @ [CHR 0x22]) (Suc (length w)) =
      Inr (v, length (w @ CHR '':'' # CHR 0x22 # v @ [CHR 0x22]))"
    and "extract_date_value (w @ CHR '':'' # CHR 0x22 # v @ [CHR 0x22]) (Suc (length w)) =
      Inr (v, length (w @ CHR '':'' # CHR 0x22 # v @ [CHR 0x22]))"
    by (simp_all add: extract_value_def extract_date_value_def slice_from_def is_char_boundary_def nth_append
        is_continuation_def q trim_start_quote Let_def)
qed

text \<open>A token: no white space, and it does not look like a quoted value.\<close>

definition token_value :: "string \<Rightarrow> bool" where
  "token_value v \<longleftrightarrow> v \<noteq> [] \<and> fresh v \<and> \<not> list_ex is_whitespace (utf8_chars v) \<and> quoted_value v = None"

lemma token_whole:
  assumes "\<not> list_ex is_whitespace (utf8_chars v)"
  shows "trim_start v = v" "first_token v = v"
proof -
  have n: "\<not> is_whitespace c" if "c \<in> set (utf8_chars v)" for c using that assms by (simp add: list_ex_iff)
  have "dropWhile is_whitespace (utf8_chars v) = utf8_chars v"
    by (rule dropWhile_hd) (metis n hd_in_set)
  then show "trim_start v = v" by (simp add: trim_start_def)
  have "takeWhile (\<lambda>c. \<not> is_whitespace c) (utf8_chars v) = utf8_chars v" using n by (simp only: takeWhile_eq_all_conv) blast
  then show "first_token v = v" by (simp only: first_token_def concat_utf8_chars)
qed

lemma consume_parts_at_end: "consume_parts n t c (length t) = (c, length t)"
  by (cases n) (simp_all add: Let_def)

lemma extract_token:
  assumes "token_value v"
  shows "extract_value (w @ CHR '':'' # v) (Suc (length w)) = Inr (v, length (w @ CHR '':'' # v))"
    and "extract_date_value (w @ CHR '':'' # v) (Suc (length w)) = Inr (v, length (w @ CHR '':'' # v))"
proof -
  have t: "trim_start v = v" "first_token v = v" "quoted_value v = None" "fresh v"
    using assms token_whole by (auto simp: token_value_def)
  have sl: "slice_from (w @ CHR '':'' # v) (Suc (length w)) = Inr v"
    using t(4) by (simp add: slice_from_def boundary_iff)
  show "extract_value (w @ CHR '':'' # v) (Suc (length w)) = Inr (v, length (w @ CHR '':'' # v))"
    by (simp add: extract_value_def sl t Let_def)
  show "extract_date_value (w @ CHR '':'' # v) (Suc (length w)) = Inr (v, length (w @ CHR '':'' # v))"
    by (simp add: extract_date_value_def greedy_consume_date_parts_def consume_parts_at_end sl t Let_def)
qed

lemma parse_single:
  assumes "collect_operator_spans input =
    Inr [\<lparr>span_start = 0, span_end = length input, span_operator = op, span_value = v\<rparr>]"
  shows "parse_query cal input =
    res_bind (apply_operator cal op v parsed_query_default) (\<lambda>(q, recognized).
      Inr (q\<lparr>free_text := (if recognized then [] else collapse_whitespace input)\<rparr>))"
proof (cases "apply_operator cal op v parsed_query_default")
  case (Inr r)
  then obtain q b where a: "apply_operator cal op v parsed_query_default = Inr (q, b)" by (cases r) auto
  have "collapse_whitespace [] = []"
    by (simp add: collapse_whitespace_def utf8_chars_def white_tokens.simps)
  with a show ?thesis
    by (simp add: parse_query_def assms remove_span_def slice_to_def slice_from_def is_char_boundary_def)
qed (use assms in \<open>simp add: parse_query_def\<close>)

section \<open>The cursor\<close>

lemma last_white_Some:
  "last_white pos cs found = Some p \<Longrightarrow>
    found = Some p \<or> (\<exists>a c b. cs = a @ c # b \<and> p = pos + length (concat a) \<and> is_whitespace c)"
proof (induction cs arbitrary: pos found)
  case (Cons c cs)
  show ?case
  proof (cases "(if is_whitespace c then Some pos else found) = Some p")
    case True
    then show ?thesis by (cases "is_whitespace c") (auto intro: exI [of _ "[]"])
  next
    case False
    with Cons obtain a d b where "cs = a @ d # b" "p = pos + length c + length (concat a)" "is_whitespace d"
      by fastforce
    then show ?thesis by (intro disjI2 exI [of _ "c # a"] exI [of _ d] exI [of _ b]) simp
  qed
qed simp

text \<open>No white space outside ASCII: the text for which stepping over one byte is stepping over one
  character.\<close>

definition single_byte_white :: "string \<Rightarrow> bool" where
  "single_byte_white s \<longleftrightarrow> list_all (\<lambda>c. is_whitespace c \<longrightarrow> length c = 1) (utf8_chars s)"

lemma single_byte_white_take:
  assumes "single_byte_white s" "is_char_boundary s i"
  shows "single_byte_white (take i s)"
proof (cases "i = 0")
  case False
  then have "utf8_chars (take i s @ drop i s) = utf8_chars (take i s) @ utf8_chars (drop i s)"
    using assms(2) by (intro utf8_chars_append) (simp add: boundary_iff)
  with assms(1) show ?thesis by (simp add: single_byte_white_def)
qed (simp add: single_byte_white_def utf8_chars_def)

lemma op_start_boundary:
  assumes "single_byte_white s" "fresh s"
  shows "is_char_boundary s (case rfind_whitespace s of None \<Rightarrow> 0 | Some p \<Rightarrow> p + 1)"
proof (cases "rfind_whitespace s")
  case (Some p)
  then obtain a c b where s: "utf8_chars s = a @ c # b" "p = length (concat a)" "is_whitespace c"
    using last_white_Some [of 0 "utf8_chars s" None p] by (auto simp: rfind_whitespace_def)
  then have c: "length c = 1" using assms(1) by (simp add: single_byte_white_def)
  have split: "s = concat a @ c @ concat b" using s(1) concat_utf8_chars [of s] by simp
  have "concat b = concat (drop (Suc (length a)) (utf8_chars s))" using s(1) by simp
  then have "fresh (concat b)" using fresh_drop_chars [OF assms(2)] by metis
  moreover have "p + 1 \<le> length s" "drop (p + 1) s = concat b" using split c s(2) by simp_all
  ultimately show ?thesis using Some by (simp add: boundary_iff)
qed (simp add: is_char_boundary_def)

text \<open>A context that is inside an operator: the text before the cursor ends with that operator, a
  colon and the partial value, which may follow an opening quote.\<close>

definition context_ok :: "string \<Rightarrow> nat \<Rightarrow> cursor_context \<Rightarrow> bool" where
  "context_ok query cursor ctx \<longleftrightarrow>
     (case ctx of
        FreeText \<Rightarrow> True
      | InsideOperator op partial start e \<Rightarrow>
          e = cursor \<and> start \<le> cursor \<and> op \<in> set OPERATORS
          \<and> (\<exists>a w. take start query = a @ w @ '':'' \<and> lower w = op)
          \<and> (drop start (take cursor query) = partial \<and> \<not> list_ex is_whitespace (utf8_chars partial)
             \<or> drop start (take cursor query) = CHR 0x22 # partial \<and> CHR 0x22 \<notin> set partial))"

lemma boundary_at_ascii:
  assumes "i < length s" "(of_char (s ! i) :: nat) < 128"
  shows "is_char_boundary s i"
  using assms by (simp add: is_char_boundary_def is_continuation_def)

lemma strip_prefix_Cons: "strip_prefix [c] (c # s) = Some s"
  by (simp add: strip_prefix_def)

lemma fresh_take: "fresh s \<Longrightarrow> fresh (take i s)"
  by (cases s; cases i) (simp_all add: starts_extending_def)

lemma context_at_ok:
  assumes u: "utf8_text query" and w: "single_byte_white query"
    and c: "colon < cursor" "cursor \<le> length query" "query ! colon = CHR '':''"
  shows "\<exists>r. context_at query cursor colon = Inr r \<and> (case r of None \<Rightarrow> True | Some ctx \<Rightarrow> context_ok query cursor ctx)"
proof -
  let ?b = "take colon query"
  let ?o = "case rfind_whitespace ?b of None \<Rightarrow> 0 | Some p \<Rightarrow> p + 1"
  have bd: "is_char_boundary ?b ?o"
  proof (rule op_start_boundary)
    show "single_byte_white ?b" by (rule single_byte_white_take [OF w]) (use c in \<open>simp add: boundary_at_ascii\<close>)
    show "fresh ?b" using u by (simp add: utf8_text_def fresh_take)
  qed
  have "take (Suc colon) query = ?b @ '':''" using c by (simp add: take_Suc_conv_app_nth)
  then have before: "take (Suc colon) query = take ?o ?b @ drop ?o ?b @ '':''"
    by (simp only: append_take_drop_id flip: append.assoc)
  show ?thesis
  proof (cases "drop ?o ?b \<noteq> [] \<and> lower (drop ?o ?b) \<in> set OPERATORS")
    case False
    with bd show ?thesis by (auto simp: context_at_def slice_from_def Let_def)
  next
    case True
    let ?p = "drop (Suc colon) (take cursor query)"
    have "\<exists>a w. take (Suc colon) query = a @ w @ '':'' \<and> lower w = lower (drop ?o ?b)" using before by blast
    with True c(1) have ok: "context_ok query cursor (InsideOperator (lower (drop ?o ?b)) partial (Suc colon) cursor) \<longleftrightarrow>
        (?p = partial \<and> \<not> list_ex is_whitespace (utf8_chars partial) \<or> ?p = CHR 0x22 # partial \<and> CHR 0x22 \<notin> set partial)"
      for partial by (simp add: context_ok_def Suc_leI)
    show ?thesis
    proof (cases "strip_prefix [CHR 0x22] ?p")
      case None
      with True bd ok show ?thesis by (simp add: context_at_def slice_from_def Let_def)
    next
      case (Some rest)
      with True bd ok show ?thesis by (simp add: context_at_def slice_from_def strip_prefix_Cons Let_def)
    qed
  qed
qed

lemma context_scan_ok:
  assumes "utf8_text query" "single_byte_white query" "cursor \<le> length query"
  shows "\<forall>c \<in> set cs. c < cursor \<and> query ! c = CHR '':'' \<Longrightarrow>
    \<exists>ctx. context_scan query cursor cs = Inr ctx \<and> context_ok query cursor ctx"
proof (induction cs)
  case Nil
  then show ?case by (simp add: context_ok_def)
next
  case (Cons c cs)
  then obtain r where "context_at query cursor c = Inr r" "case r of None \<Rightarrow> True | Some ctx \<Rightarrow> context_ok query cursor ctx"
    using context_at_ok [OF assms(1,2) _ assms(3), of c] by auto
  with Cons show ?case by (cases r) auto
qed

section \<open>The properties\<close>

text \<open>A calendar for the witnesses: timestamps count days of years of 372 days.\<close>

definition even_calendar :: calendar where
  "even_calendar = \<lparr>day_timestamp = (\<lambda>y m d. if 1 \<le> m \<and> m \<le> 12 \<and> 1 \<le> d \<and> d \<le> 31 then Some (372 * y + 31 * m + d) else None),
     relative_timestamp = (\<lambda>d. if d < -7304484 then Inl (Panic ''days out of range'') else Inr (Some (372 * 2026 + d)))\<rparr>"

text \<open>C34: for every well-formed text the parser applies the operators of the spans in their order, and the
  free text is what lies outside the recognized spans, with its white space collapsed. It panics only if
  applying an operator does (a date whose offset the calendar refuses): no slice of the lexer or of the
  removal from the right is off a character boundary.\<close>

theorem parse_query_total:
  assumes "utf8_text input"
  shows "\<exists>spans. collect_operator_spans input = Inr spans \<and>
    parse_query cal input = res_bind (apply_spans cal spans parsed_query_default) (\<lambda>(q, recognized).
      Inr (q\<lparr>free_text := collapse_whitespace (kept_text input 0 (zip spans recognized))\<rparr>))"
  using collect_operator_spans_total [OF assms] parse_query_kept [OF assms] by blast

theorem parse_query_total_witness:
  "utf8_text ''is:unread lunch before:2024 3 1'' \<and>
   (\<exists>spans. collect_operator_spans ''is:unread lunch before:2024 3 1'' = Inr spans \<and>
    parse_query even_calendar ''is:unread lunch before:2024 3 1'' =
      res_bind (apply_spans even_calendar spans parsed_query_default) (\<lambda>(q, recognized).
        Inr (q\<lparr>free_text := collapse_whitespace (kept_text ''is:unread lunch before:2024 3 1'' 0 (zip spans recognized))\<rparr>)))"
proof -
  have u: "utf8_text ''is:unread lunch before:2024 3 1''"
    by (simp only: utf8_text_def ascii_closed_code) code_simp
  show ?thesis using u parse_query_total [OF u] by (intro conjI)
qed

text \<open>the spans are in the order of the text, do not overlap, lie in the input at character
  boundaries, start with their operator and a colon, and have a value.\<close>

theorem spans_well_formed:
  assumes "utf8_text input" "collect_operator_spans input = Inr spans"
  shows "list_all (span_ok input) spans \<and> sorted_wrt (\<lambda>a b. span_end a \<le> span_start b) spans"
proof -
  have ge: "p \<le> span_start sp" if "spans_from input p sps" "sp \<in> set sps" for p sp sps
    using that by (induction sps arbitrary: p) (auto simp: span_ok_def dest!: less_imp_le intro: order_trans)
  have "list_all (span_ok input) sps \<and> sorted_wrt (\<lambda>a b. span_end a \<le> span_start b) sps"
    if "spans_from input p sps" for p sps
    using that
  proof (induction sps arbitrary: p)
    case (Cons sp sps)
    then have "spans_from input (span_end sp) sps" by simp
    from ge [OF this] Cons show ?case by auto
  qed simp
  then show ?thesis using collect_operator_spans_total [OF assms(1)] assms(2) by auto
qed

theorem spans_well_formed_witness:
  "list_all (span_ok ''to:a b from:c'')
     [\<lparr>span_start = 0, span_end = 4, span_operator = ''to'', span_value = ''a''\<rparr>,
      \<lparr>span_start = 7, span_end = 13, span_operator = ''from'', span_value = ''c''\<rparr>]
   \<and> sorted_wrt (\<lambda>a b. span_end a \<le> span_start b)
     [\<lparr>span_start = 0, span_end = 4, span_operator = ''to'', span_value = ''a''\<rparr>,
      \<lparr>span_start = 7, span_end = 13, span_operator = ''from'', span_value = ''c''\<rparr>]"
proof (rule spans_well_formed)
  show "utf8_text ''to:a b from:c''" by (simp only: utf8_text_def ascii_closed_code) code_simp
  show "collect_operator_spans ''to:a b from:c'' =
    Inr [\<lparr>span_start = 0, span_end = 4, span_operator = ''to'', span_value = ''a''\<rparr>,
      \<lparr>span_start = 7, span_end = 13, span_operator = ''from'', span_value = ''c''\<rparr>]"
    by code_simp
qed

text \<open>an operator in any mixture of upper and lower case, a colon and a value, in quotes or as one
  token, is read as that operator on exactly that value; the free text is empty unless the value is
  not one the operator knows.\<close>

theorem single_term_parsed:
  assumes "lower w \<in> set OPERATORS"
    and "token_value v \<and> input = w @ '':'' @ v
      \<or> v \<noteq> [] \<and> CHR 0x22 \<notin> set v \<and> input = w @ '':'' @ [CHR 0x22] @ v @ [CHR 0x22]"
  shows "parse_query cal input =
    res_bind (apply_operator cal (lower w) v parsed_query_default) (\<lambda>(q, recognized).
      Inr (q\<lparr>free_text := (if recognized then [] else collapse_whitespace input)\<rparr>))"
proof (rule parse_single)
  show "collect_operator_spans input =
      Inr [\<lparr>span_start = 0, span_end = length input, span_operator = lower w, span_value = v\<rparr>]"
    using assms(2)
  proof
    assume a: "token_value v \<and> input = w @ '':'' @ v"
    then show ?thesis using collect_single [OF assms(1) _ extract_token] by (simp add: token_value_def)
  next
    assume a: "v \<noteq> [] \<and> CHR 0x22 \<notin> set v \<and> input = w @ '':'' @ [CHR 0x22] @ v @ [CHR 0x22]"
    then show ?thesis using collect_single [OF assms(1) _ extract_quoted] by simp
  qed
qed

theorem single_term_parsed_witness:
  "parse_query even_calendar ''From:alice'' = Inr (parsed_query_default\<lparr>pq_from := [''alice'']\<rparr>)
   \<and> parse_query even_calendar ''IS:odd'' = Inr (parsed_query_default\<lparr>free_text := ''IS:odd''\<rparr>)"
proof
  have "parse_query even_calendar ''From:alice'' =
      res_bind (apply_operator even_calendar (lower ''From'') ''alice'' parsed_query_default) (\<lambda>(q, recognized).
        Inr (q\<lparr>free_text := (if recognized then [] else collapse_whitespace ''From:alice'')\<rparr>))"
    by (rule single_term_parsed) code_simp+
  also have "\<dots> = Inr (parsed_query_default\<lparr>pq_from := [''alice'']\<rparr>)" by code_simp
  finally show "parse_query even_calendar ''From:alice'' = Inr (parsed_query_default\<lparr>pq_from := [''alice'']\<rparr>)" .
  have "parse_query even_calendar ''IS:odd'' =
      res_bind (apply_operator even_calendar (lower ''IS'') ''odd'' parsed_query_default) (\<lambda>(q, recognized).
        Inr (q\<lparr>free_text := (if recognized then [] else collapse_whitespace ''IS:odd'')\<rparr>))"
    by (rule single_term_parsed) code_simp+
  also have "\<dots> = Inr (parsed_query_default\<lparr>free_text := ''IS:odd''\<rparr>)" by code_simp
  finally show "parse_query even_calendar ''IS:odd'' = Inr (parsed_query_default\<lparr>free_text := ''IS:odd''\<rparr>)" .
qed

text \<open>without white space outside ASCII the cursor analysis returns, and a context inside an operator
  is one the text before the cursor shows: the operator, a colon and the partial value up to the cursor.\<close>

theorem cursor_context_sound:
  assumes "utf8_text query" "single_byte_white query" "is_char_boundary query (min pos (length query))"
  shows "\<exists>ctx. analyze_cursor_context query pos = Inr ctx \<and> context_ok query (min pos (length query)) ctx"
proof -
  let ?c = "min pos (length query)"
  have "\<forall>i \<in> set (rev (colons (take ?c query))). i < ?c \<and> query ! i = CHR '':''"
    by (auto simp: colons_def)
  from context_scan_ok [OF assms(1,2) _ this] assms(3) show ?thesis
    by (simp add: analyze_cursor_context_def slice_to_def Let_def)
qed

theorem cursor_context_sound_witness:
  "\<exists>ctx. analyze_cursor_context ''lunch from:al'' 13 = Inr ctx \<and>
    context_ok ''lunch from:al'' (min 13 (length ''lunch from:al'')) ctx"
proof (rule cursor_context_sound)
  show "utf8_text ''lunch from:al''" by (simp only: utf8_text_def ascii_closed_code) code_simp
  show "single_byte_white ''lunch from:al''" by code_simp
  show "is_char_boundary ''lunch from:al'' (min 13 (length ''lunch from:al''))" by code_simp
qed

text \<open>with an ideographic space (three bytes) in front of the operator the analysis panics, because
  it steps over the white space by one byte.\<close>

theorem wide_space_cursor_panics:
  "analyze_cursor_context ([CHR 0xE3, CHR 0x80, CHR 0x80] @ ''from:al'') 10 =
    Inl (Panic ''byte index is not a char boundary'')
   \<and> utf8_text ([CHR 0xE3, CHR 0x80, CHR 0x80] @ ''from:al'')"
  by (simp only: utf8_text_def ascii_closed_code) code_simp

text \<open>a relative date that moves by more days than the calendar's span constructor takes
  (it panics below -7304484 days) makes the parser panic.\<close>

theorem far_relative_date_panics:
  assumes "relative_timestamp cal (-7304485) = Inl p"
  shows "parse_query cal ''before:-7304485'' = Inl p"
proof -
  have spans: "collect_operator_spans ''before:-7304485'' =
      Inr [\<lparr>span_start = 0, span_end = length ''before:-7304485'', span_operator = ''before'', span_value = ''-7304485''\<rparr>]"
    by code_simp
  have t: "trim ''-7304485'' = ''-7304485''" by code_simp
  have "parse_i64 ''-7304485'' = Some (-7304485)" by code_simp
  with assms have "parse_date_to_timestamp cal ''-7304485'' = Inl p"
    by (simp add: parse_date_to_timestamp_def t parse_relative_offset_def)
  then show ?thesis using parse_single [OF spans] by (simp add: apply_operator_def)
qed

theorem far_relative_date_panics_witness:
  "parse_query even_calendar ''before:-7304485'' = Inl (Panic ''days out of range'')"
  by (rule far_relative_date_panics) (simp add: even_calendar_def)

end
