(* ===== verification/PackFormat.thy ===== *)
theory PackFormat
  imports RustNum "HOL-Library.AList"
begin

text \<open>
  The files of the attachment store (\<^verbatim>\<open>crates/stores/src/attachment_pack.rs\<close>): frames, tails
  and tombstone records as bytes, the names of the files, and the directory they are in. The digests
  (the packages xxhash, blake3 and crc32fast) are parameters.
\<close>

section \<open>Bytes\<close>

type_synonym bytes = "8 word list"

record digests =
  xxh3_64 :: "bytes \<Rightarrow> 64 word"
  blob_hash :: "bytes \<Rightarrow> bytes"
  crc32 :: "bytes \<Rightarrow> 32 word"

text \<open>\<^verbatim>\<open>to_le_bytes\<close> and \<^verbatim>\<open>from_le_bytes\<close>; missing bytes count as zero.\<close>

fun to_le :: "nat \<Rightarrow> int \<Rightarrow> bytes" where
  "to_le 0 v = []"
| "to_le (Suc k) v = word_of_int (v mod 256) # to_le k (v div 256)"

fun from_le :: "bytes \<Rightarrow> int" where
  "from_le [] = 0"
| "from_le (b # bs) = uint b + 256 * from_le bs"

definition read_u32_le :: "bytes \<Rightarrow> int" where
  "read_u32_le bs = from_le (take 4 bs)"

definition read_u64_le :: "bytes \<Rightarrow> int" where
  "read_u64_le bs = from_le (take 8 bs)"

lemma length_to_le [simp]: "length (to_le k v) = k"
  by (induction k arbitrary: v) simp_all

lemma from_to_le: "0 \<le> v \<Longrightarrow> v < 256 ^ k \<Longrightarrow> from_le (to_le k v) = v"
proof (induction k arbitrary: v)
  case (Suc k)
  then have "v div 256 < 256 ^ k" by simp
  with Suc have "from_le (to_le k (v div 256)) = v div 256" by simp
  moreover have "uint (word_of_int (v mod 256) :: 8 word) = v mod 256" by (simp add: uint_word_of_int)
  ultimately show ?case by simp
qed simp

lemma uint_le_bytes [simp]:
  "from_le (to_le 4 (uint (w :: 32 word))) = uint w"
  "from_le (to_le 8 (uint (x :: 64 word))) = uint x"
  using uint_lt2p [of w] uint_lt2p [of x] by (simp_all add: from_to_le)

section \<open>Frames\<close>

definition FRAME_MAGIC :: bytes where "FRAME_MAGIC = [0x52, 0x54, 0x53, 0x4B]"
definition TAIL_MAGIC :: bytes where "TAIL_MAGIC = [0x54, 0x41, 0x49, 0x4C]"
definition PACK_FORMAT_VERSION :: "8 word" where "PACK_FORMAT_VERSION = 1"
definition FRAME_HEADER_LEN :: nat where "FRAME_HEADER_LEN = 16"
definition TAIL_LEN :: nat where "TAIL_LEN = 13"
definition MAX_FRAME_PAYLOAD :: int where "MAX_FRAME_PAYLOAD = 4294967295"

text \<open>The header the writer puts in front of a payload, and the tail of a sealed pack.\<close>

definition frame_header :: "digests \<Rightarrow> bytes \<Rightarrow> bytes" where
  "frame_header D payload =
     FRAME_MAGIC @ to_le 4 (int (length payload)) @ to_le 8 (uint (xxh3_64 D payload))"

definition frame :: "digests \<Rightarrow> bytes \<Rightarrow> bytes" where
  "frame D payload = frame_header D payload @ payload"

definition tail_bytes :: "digests \<Rightarrow> int \<Rightarrow> bytes" where
  "tail_bytes D frame_count =
     (let body = PACK_FORMAT_VERSION # to_le 4 frame_count
      in TAIL_MAGIC @ body @ to_le 4 (uint (crc32 D body)))"

text \<open>
  The checks the two walks make on the bytes at an offset: a whole header, the frame magic, a
  payload that is there in full, and its checksum.
\<close>

definition whole_frame :: "digests \<Rightarrow> bytes \<Rightarrow> nat \<Rightarrow> bytes option" where
  "whole_frame D content offset =
     (let rest = drop offset content;
          header = take FRAME_HEADER_LEN rest;
          len = read_u32_le (drop 4 header);
          payload = take (nat len) (drop FRAME_HEADER_LEN rest)
      in if length rest < FRAME_HEADER_LEN then None
         else if take 4 header \<noteq> FRAME_MAGIC then None
         else if int (length rest) < int FRAME_HEADER_LEN + len then None
         else if uint (xxh3_64 D payload) \<noteq> read_u64_le (drop 8 header) then None
         else Some payload)"

lemmas format_defs = FRAME_HEADER_LEN_def FRAME_MAGIC_def TAIL_MAGIC_def TAIL_LEN_def PACK_FORMAT_VERSION_def

lemma length_frame_header [simp]: "length (frame_header D payload) = 16"
  by (simp add: frame_header_def format_defs)

lemma length_frame [simp]: "length (frame D payload) = 16 + length payload"
  by (simp add: frame_def)

lemma length_tail [simp]: "length (tail_bytes D n) = 13"
  by (simp add: tail_bytes_def format_defs)

lemma from_le_nonneg: "0 \<le> from_le bs"
  by (induction bs) simp_all

lemma whole_frame_length:
  assumes "whole_frame D content offset = Some payload"
  shows "offset + 16 + length payload \<le> length content"
proof -
  let ?len = "read_u32_le (drop 4 (take 16 (drop offset content)))"
  have c: "16 \<le> length (drop offset content)" "16 + ?len \<le> int (length (drop offset content))"
    "payload = take (nat ?len) (drop 16 (drop offset content))"
    using assms by (auto simp: whole_frame_def format_defs Let_def not_less split: if_splits)
  then have "length payload \<le> length (drop offset content) - 16" by simp
  with c(1) show ?thesis by (cases "offset \<le> length content") simp_all
qed

text \<open>What a written frame looks like to the walks.\<close>

definition fits :: "bytes \<Rightarrow> bool" where
  "fits payload \<longleftrightarrow> int (length payload) \<le> MAX_FRAME_PAYLOAD"

lemma header_fields:
  "take 4 (frame_header D payload) = FRAME_MAGIC"
  "fits payload \<Longrightarrow> read_u32_le (drop 4 (frame_header D payload)) = int (length payload)"
  "read_u64_le (drop 8 (frame_header D payload)) = uint (xxh3_64 D payload)"
  by (simp_all add: frame_header_def FRAME_MAGIC_def read_u32_le_def read_u64_le_def from_to_le fits_def
      MAX_FRAME_PAYLOAD_def)

lemma whole_frame_append:
  assumes "length pre = offset" "fits payload"
  shows "whole_frame D (pre @ frame D payload @ rest) offset = Some payload"
proof -
  have d: "drop offset (pre @ frame D payload @ rest) = frame_header D payload @ payload @ rest"
    using assms(1) by (simp add: frame_def)
  have h: "take 16 (frame_header D payload @ payload @ rest) = frame_header D payload" by simp
  show ?thesis unfolding whole_frame_def Let_def d FRAME_HEADER_LEN_def h
    using header_fields(1) [of D payload] header_fields(2) [OF assms(2), of D] header_fields(3) [of D payload]
    by simp
qed

text \<open>A frame that is cut off anywhere, the empty rest and a tail are no frames.\<close>

lemma whole_frame_torn:
  assumes "length pre = offset" "fits payload" "k < length (frame D payload)"
  shows "whole_frame D (pre @ take k (frame D payload)) offset = None"
proof (cases "k < 16")
  case True
  with assms show ?thesis by (simp add: whole_frame_def format_defs)
next
  case False
  then have d: "drop offset (pre @ take k (frame D payload)) = frame_header D payload @ take (k - 16) payload"
    using assms(1) by (simp add: frame_def)
  have h: "take 16 (frame_header D payload @ take (k - 16) payload) = frame_header D payload" by simp
  show ?thesis unfolding whole_frame_def Let_def d FRAME_HEADER_LEN_def h
    using header_fields(2) [OF assms(2), of D] assms(3) False by simp
qed

lemma whole_frame_short: "length content < offset + 16 \<Longrightarrow> whole_frame D content offset = None"
  by (simp add: whole_frame_def format_defs Let_def)

section \<open>Tombstone records\<close>

datatype tombstone_log_kind = Tombstone | Revive

definition kind_from_byte :: "8 word \<Rightarrow> tombstone_log_kind" where
  "kind_from_byte b = (if b = 1 then Revive else Tombstone)"

fun kind_as_byte :: "tombstone_log_kind \<Rightarrow> 8 word" where
  "kind_as_byte Tombstone = 0"
| "kind_as_byte Revive = 1"

definition encode_log_record :: "32 word \<Rightarrow> bytes \<Rightarrow> tombstone_log_kind \<Rightarrow> bytes" where
  "encode_log_record pack_id hash kind =
     to_le 4 (uint pack_id) @ [kind_as_byte kind] @ replicate 11 0 @ hash"

definition RECORD_LEN :: nat where "RECORD_LEN = 48"

definition decode_log_record :: "bytes \<Rightarrow> tombstone_log_kind \<times> bytes" where
  "decode_log_record record = (kind_from_byte (record ! 4), take 32 (drop 16 record))"

lemma kind_roundtrip [simp]: "kind_from_byte (kind_as_byte k) = k"
  by (cases k) (simp_all add: kind_from_byte_def)

lemma length_log_record: "length hash = 32 \<Longrightarrow> length (encode_log_record p hash k) = RECORD_LEN"
  by (simp add: encode_log_record_def RECORD_LEN_def)

lemma decode_encode_log_record:
  "length hash = 32 \<Longrightarrow> decode_log_record (encode_log_record p hash k) = (k, hash)"
  by (simp add: decode_log_record_def encode_log_record_def nth_append)

text \<open>The records of a log, up to a torn one at its end.\<close>

function log_records :: "bytes \<Rightarrow> (tombstone_log_kind \<times> bytes) list" where
  "log_records content =
     (if length content < RECORD_LEN then []
      else decode_log_record (take RECORD_LEN content) # log_records (drop RECORD_LEN content))"
  by pat_completeness auto
termination
  by (relation "measure length") (auto simp: RECORD_LEN_def)

declare log_records.simps [simp del]

lemma log_records_Nil [simp]: "log_records [] = []"
  by (simp add: log_records.simps RECORD_LEN_def)

lemma log_records_append:
  "length content mod RECORD_LEN = 0 \<Longrightarrow> log_records (content @ cs) = log_records content @ log_records cs"
proof (induction content rule: log_records.induct)
  case (1 content)
  show ?case
  proof (cases "length content < RECORD_LEN")
    case True
    with 1(2) show ?thesis by simp
  next
    case False
    then have "length (drop RECORD_LEN content) mod RECORD_LEN = 0" using 1(2) by (simp add: le_mod_geq)
    from 1(1) [OF False this] show ?thesis
      using False by (simp add: log_records.simps [of "content @ cs"] log_records.simps [of content])
  qed
qed

lemma log_records_single:
  assumes "length hash = 32"
  shows "log_records (encode_log_record p hash k) = [(k, hash)]"
proof -
  have "take RECORD_LEN (encode_log_record p hash k) = encode_log_record p hash k"
    "drop RECORD_LEN (encode_log_record p hash k) = []"
    using length_log_record [OF assms, of p k] by simp_all
  then show ?thesis using length_log_record [OF assms, of p k] decode_encode_log_record [OF assms, of p k]
    by (simp add: log_records.simps [of "encode_log_record p hash k"])
qed

section \<open>The directory\<close>

definition pack_path_sealed :: "32 word \<Rightarrow> string" where
  "pack_path_sealed pack_id = ''data-'' @ pad_zeros 6 (dec (uint pack_id)) @ ''.pack''"

definition pack_path_open :: "32 word \<Rightarrow> string" where
  "pack_path_open pack_id = ''data-'' @ pad_zeros 6 (dec (uint pack_id)) @ ''.pack.open''"

definition tombstone_log_path :: "32 word \<Rightarrow> string" where
  "tombstone_log_path pack_id = ''tombstones-'' @ pad_zeros 6 (dec (uint pack_id)) @ ''.log''"

text \<open>The files of the directory by name, with their content.\<close>

type_synonym files = "(string \<times> bytes) list"

text \<open>What \<^verbatim>\<open>list_packs\<close> reads from a name: the number of the pack, and whether it is sealed.\<close>

definition parse_pack_name :: "string \<Rightarrow> (32 word \<times> bool) option" where
  "parse_pack_name name =
     (if \<not> starts_with ''data-'' name then None
      else
        let stem = (case strip_suffix ''.pack.open'' name of
                      Some rest \<Rightarrow> Some (False, rest)
                    | None \<Rightarrow> map_option (Pair True) (strip_suffix ''.pack'' name))
        in case stem of
             None \<Rightarrow> None
           | Some (sealed, stem) \<Rightarrow>
               let id_str = (case strip_prefix ''data-'' stem of Some rest \<Rightarrow> rest | None \<Rightarrow> stem)
               in map_option (\<lambda>n. (word_of_int n, sealed)) (parse_unsigned 4294967295 id_str))"

definition list_packs :: "files \<Rightarrow> (32 word \<times> bool) list" where
  "list_packs fs = sort_key fst (List.map_filter parse_pack_name (map fst fs))"

definition next_pack_id :: "files \<Rightarrow> 32 word" where
  "next_pack_id fs =
     (case map fst (list_packs fs) of
        [] \<Rightarrow> 0
      | ids \<Rightarrow> let m = Max (set ids) in if m = -1 then m else m + 1)"

text \<open>Names are read back, and no two files of the store share a name.\<close>

lemma strip_suffix_append [simp]: "strip_suffix p (s @ p) = Some s"
  by (simp add: strip_suffix_def)

lemma strip_suffix_other: "strip_suffix ''.pack.open'' (s @ ''.pack'') = None"
  by (simp add: strip_suffix_def strip_prefix_def)

lemma parse_id: "map_option (\<lambda>n. (word_of_int n :: 32 word, b)) (parse_unsigned 4294967295 (pad_zeros 6 (dec (uint i)))) = Some (i, b)"
  using uint_lt2p [of i] by (simp add: parse_unsigned_dec)

lemma parse_sealed [simp]: "parse_pack_name (pack_path_sealed i) = Some (i, True)"
proof -
  have n: "pack_path_sealed i = (''data-'' @ pad_zeros 6 (dec (uint i))) @ ''.pack''"
    by (simp only: pack_path_sealed_def append.assoc)
  have s: "starts_with ''data-'' ((''data-'' @ pad_zeros 6 (dec (uint i))) @ ''.pack'')"
    by (simp only: append.assoc starts_with_append)
  show ?thesis unfolding parse_pack_name_def
    by (simp only: s n strip_suffix_append strip_suffix_other strip_prefix_append parse_id Let_def option.case
        option.map prod.case not_True_eq_False if_False)
qed

lemma parse_open [simp]: "parse_pack_name (pack_path_open i) = Some (i, False)"
proof -
  have n: "pack_path_open i = (''data-'' @ pad_zeros 6 (dec (uint i))) @ ''.pack.open''"
    by (simp only: pack_path_open_def append.assoc)
  have s: "starts_with ''data-'' ((''data-'' @ pad_zeros 6 (dec (uint i))) @ ''.pack.open'')"
    by (simp only: append.assoc starts_with_append)
  show ?thesis unfolding parse_pack_name_def
    by (simp only: s n strip_suffix_append strip_prefix_append parse_id Let_def option.case
        option.map prod.case not_True_eq_False if_False)
qed

lemma parse_log [simp]: "parse_pack_name (tombstone_log_path i) = None"
  by (simp add: parse_pack_name_def tombstone_log_path_def starts_with_def)

lemma path_eq [simp]:
  "pack_path_sealed i = pack_path_sealed j \<longleftrightarrow> i = j"
  "pack_path_open i = pack_path_open j \<longleftrightarrow> i = j"
  "pack_path_sealed i \<noteq> pack_path_open j" "pack_path_open i \<noteq> pack_path_sealed j"
  "pack_path_sealed i \<noteq> tombstone_log_path j" "tombstone_log_path j \<noteq> pack_path_sealed i"
  "pack_path_open i \<noteq> tombstone_log_path j" "tombstone_log_path j \<noteq> pack_path_open i"
proof -
  show "pack_path_sealed i = pack_path_sealed j \<longleftrightarrow> i = j" by (metis option.inject parse_sealed prod.inject)
  show "pack_path_open i = pack_path_open j \<longleftrightarrow> i = j" by (metis option.inject parse_open prod.inject)
  show "pack_path_sealed i \<noteq> pack_path_open j" by (metis option.inject parse_open parse_sealed prod.inject)
  show "pack_path_open i \<noteq> pack_path_sealed j" by (metis option.inject parse_open parse_sealed prod.inject)
  show "pack_path_sealed i \<noteq> tombstone_log_path j" by (metis option.distinct(1) parse_log parse_sealed)
  show "tombstone_log_path j \<noteq> pack_path_sealed i" by (metis option.distinct(1) parse_log parse_sealed)
  show "pack_path_open i \<noteq> tombstone_log_path j" by (metis option.distinct(1) parse_log parse_open)
  show "tombstone_log_path j \<noteq> pack_path_open i" by (metis option.distinct(1) parse_log parse_open)
qed

lemma log_path_eq [simp]: "tombstone_log_path i = tombstone_log_path j \<longleftrightarrow> i = j"
proof
  assume "tombstone_log_path i = tombstone_log_path j"
  then have "pad_zeros 6 (dec (uint i)) = pad_zeros 6 (dec (uint j))"
    by (simp only: tombstone_log_path_def same_append_eq append_same_eq)
  from parse_id [of True i, unfolded this] parse_id [of True j] show "i = j" by (metis option.inject prod.inject)
qed simp

text \<open>A directory in which every pack has its canonical name.\<close>

definition canonical_name :: "string \<Rightarrow> bool" where
  "canonical_name name \<longleftrightarrow>
     (case parse_pack_name name of
        None \<Rightarrow> True
      | Some (i, sealed) \<Rightarrow> name = (if sealed then pack_path_sealed i else pack_path_open i))"

definition canonical :: "files \<Rightarrow> bool" where
  "canonical fs \<longleftrightarrow> distinct (map fst fs) \<and> list_all canonical_name (map fst fs)"

lemma list_packs_set: "set (list_packs fs) = {p. \<exists>name. name \<in> fst ` set fs \<and> parse_pack_name name = Some p}"
  by (force simp: list_packs_def List.map_filter_def)

lemma list_packs_iff:
  assumes "canonical fs"
  shows "(i, True) \<in> set (list_packs fs) \<longleftrightarrow> map_of fs (pack_path_sealed i) \<noteq> None"
    and "(i, False) \<in> set (list_packs fs) \<longleftrightarrow> map_of fs (pack_path_open i) \<noteq> None"
proof -
  have c: "name = (if b then pack_path_sealed i else pack_path_open i)"
    if n: "name \<in> fst ` set fs" and p: "parse_pack_name name = Some (i, b)" for name b
  proof -
    have "canonical_name name" using assms n by (auto simp: canonical_def list_all_iff)
    with p show ?thesis by (simp add: canonical_name_def)
  qed
  have "(i, b) \<in> set (list_packs fs) \<longleftrightarrow> (if b then pack_path_sealed i else pack_path_open i) \<in> fst ` set fs" for b
  proof
    assume "(i, b) \<in> set (list_packs fs)"
    then obtain name where "name \<in> fst ` set fs" "parse_pack_name name = Some (i, b)" unfolding list_packs_set by blast
    moreover from c [OF this] have "name = (if b then pack_path_sealed i else pack_path_open i)" .
    ultimately show "(if b then pack_path_sealed i else pack_path_open i) \<in> fst ` set fs" by simp
  next
    assume "(if b then pack_path_sealed i else pack_path_open i) \<in> fst ` set fs"
    moreover have "parse_pack_name (if b then pack_path_sealed i else pack_path_open i) = Some (i, b)" by simp
    ultimately show "(i, b) \<in> set (list_packs fs)" unfolding list_packs_set by blast
  qed
  from this [of True] this [of False]
  show "(i, True) \<in> set (list_packs fs) \<longleftrightarrow> map_of fs (pack_path_sealed i) \<noteq> None"
    and "(i, False) \<in> set (list_packs fs) \<longleftrightarrow> map_of fs (pack_path_open i) \<noteq> None"
    unfolding map_of_eq_None_iff by simp_all
qed

lemma list_packs_sorted: "sorted (map fst (list_packs fs))"
  by (simp add: list_packs_def)

lemma next_pack_id_fresh:
  assumes "(i, b) \<in> set (list_packs fs)" "next_pack_id fs \<noteq> -1"
  shows "i < next_pack_id fs"
proof -
  let ?ids = "map fst (list_packs fs)"
  let ?m = "Max (set ?ids)"
  have ne: "?ids \<noteq> []" and i: "i \<in> set ?ids" using assms(1) by force+
  then have le: "i \<le> ?m" by (simp add: Max_ge)
  obtain x xs where x: "?ids = x # xs" using ne by (cases ?ids) auto
  have n: "next_pack_id fs = (if ?m = -1 then ?m else ?m + 1)"
    unfolding next_pack_id_def x by (simp add: Let_def)
  with assms(2) have m: "?m \<noteq> -1" by auto
  then have "1 + ?m \<noteq> 0" by (metis add_eq_0_iff)
  then have "?m < ?m + 1" using unatSuc [of ?m] by (simp add: word_less_nat_alt add.commute)
  with le n m show ?thesis by simp
qed

end
