(* ===== verification/PackStore.thy ===== *)
theory PackStore
  imports PackFormat
begin

text \<open>
  The attachment store (\<^verbatim>\<open>crates/stores/src/attachment_pack.rs\<close>): the pack files, the table
  \<^verbatim>\<open>attachment_blobs\<close> and the writer as one state, and every operation on it. An operation
  returns its result or error together with the state it leaves, since an early return keeps what
  was done before it. The two places where the file system or the database can refuse a write of
  \<^verbatim>\<open>put\<close> are chosen by an argument; \<open>now\<close> is the clock of the database.
\<close>

section \<open>The table\<close>

record blob_row =
  content_hash :: bytes
  pack_file_id :: "32 word"
  row_offset :: nat
  row_length :: nat
  written_at :: int
  tombstoned_at :: "int option"

type_synonym blob_table = "blob_row list"

definition select_row :: "bytes \<Rightarrow> blob_table \<Rightarrow> blob_row option" where
  "select_row h t = find (\<lambda>r. content_hash r = h) t"

definition insert_or_ignore :: "blob_row \<Rightarrow> blob_table \<Rightarrow> blob_table" where
  "insert_or_ignore r t = (if select_row (content_hash r) t = None then t @ [r] else t)"

definition insert_or_replace :: "blob_row \<Rightarrow> blob_table \<Rightarrow> blob_table" where
  "insert_or_replace r t = filter (\<lambda>x. content_hash x \<noteq> content_hash r) t @ [r]"

definition update_rows :: "(blob_row \<Rightarrow> bool) \<Rightarrow> (blob_row \<Rightarrow> blob_row) \<Rightarrow> blob_table \<Rightarrow> blob_table" where
  "update_rows P f t = map (\<lambda>r. if P r then f r else r) t"

section \<open>The store\<close>

datatype pack_error =
    NotFound
  | UnexpectedEof
  | AlreadyExists
  | WriteFailed
  | Sql
  | Corruption string
  | TooLarge int

record open_pack =
  pack_id :: "32 word"
  file_pos :: nat
  pack_offset :: nat

record pack_store =
  packs_dir :: files
  conn :: blob_table
  writer :: open_pack

type_synonym 'a io = "pack_store \<Rightarrow> (pack_error + 'a) \<times> pack_store"

definition io_return :: "'a \<Rightarrow> 'a io" where
  "io_return x s = (Inr x, s)"

definition io_bind :: "'a io \<Rightarrow> ('a \<Rightarrow> 'b io) \<Rightarrow> 'b io" where
  "io_bind m f s = (case m s of (Inl e, s') \<Rightarrow> (Inl e, s') | (Inr x, s') \<Rightarrow> f x s')"

text \<open>Writing at a position of a file, which extends it (with zeros over a gap).\<close>

definition write_at :: "bytes \<Rightarrow> nat \<Rightarrow> bytes \<Rightarrow> bytes" where
  "write_at content pos bs =
     take pos (content @ replicate (pos - length content) 0) @ bs @ drop (pos + length bs) content"

definition read_exact :: "bytes \<Rightarrow> nat \<Rightarrow> nat \<Rightarrow> pack_error + bytes" where
  "read_exact content pos n =
     (if length content < pos + n then Inl UnexpectedEof else Inr (take n (drop pos content)))"

section \<open>Tombstone log\<close>

definition touch_log :: "32 word \<Rightarrow> files \<Rightarrow> files" where
  "touch_log p fs =
     (case map_of fs (tombstone_log_path p) of
        None \<Rightarrow> AList.update (tombstone_log_path p) [] fs
      | Some _ \<Rightarrow> fs)"

definition log_content :: "32 word \<Rightarrow> files \<Rightarrow> bytes" where
  "log_content p fs = (case map_of fs (tombstone_log_path p) of None \<Rightarrow> [] | Some c \<Rightarrow> c)"

definition append_tombstone_log_record :: "32 word \<Rightarrow> bytes \<Rightarrow> tombstone_log_kind \<Rightarrow> files \<Rightarrow> files" where
  "append_tombstone_log_record p h k fs =
     AList.update (tombstone_log_path p) (log_content p fs @ encode_log_record p h k) fs"

definition append_tombstone_log_batch :: "32 word \<Rightarrow> bytes list \<Rightarrow> tombstone_log_kind \<Rightarrow> files \<Rightarrow> files" where
  "append_tombstone_log_batch p hs k fs =
     (if hs = [] then fs
      else AList.update (tombstone_log_path p)
             (log_content p fs @ concat (map (\<lambda>h. encode_log_record p h k) hs)) fs)"

section \<open>Opening, sealing and rotating packs\<close>

definition create_new_open_pack :: "32 word \<Rightarrow> unit io" where
  "create_new_open_pack p s =
     (if map_of (packs_dir s) (pack_path_open p) \<noteq> None then (Inl AlreadyExists, s)
      else (Inr (), s\<lparr>packs_dir := touch_log p (AList.update (pack_path_open p) [] (packs_dir s)),
                      writer := \<lparr>pack_id = p, file_pos = 0, pack_offset = 0\<rparr>\<rparr>))"

definition open_existing_open_pack :: "32 word \<Rightarrow> unit io" where
  "open_existing_open_pack p s =
     (case map_of (packs_dir s) (pack_path_open p) of
        None \<Rightarrow> (Inl NotFound, s)
      | Some c \<Rightarrow>
          (Inr (), s\<lparr>packs_dir := touch_log p (packs_dir s),
                     writer := \<lparr>pack_id = p, file_pos = length c, pack_offset = length c\<rparr>\<rparr>))"

function frame_count_in_open_pack :: "bytes \<Rightarrow> nat \<Rightarrow> nat \<Rightarrow> int \<Rightarrow> pack_error + int" where
  "frame_count_in_open_pack content end_offset offset count =
     (if offset < end_offset then
        (case read_exact content offset FRAME_HEADER_LEN of
           Inl e \<Rightarrow> Inl e
         | Inr header \<Rightarrow>
             frame_count_in_open_pack content end_offset
               (offset + (FRAME_HEADER_LEN + nat (read_u32_le (drop 4 header)))) (min (count + 1) 4294967295))
      else Inr count)"
  by pat_completeness auto
termination
  by (relation "measure (\<lambda>(content, end_offset, offset, count). end_offset - offset)")
    (auto simp: FRAME_HEADER_LEN_def)

declare frame_count_in_open_pack.simps [simp del]

definition seal_open_pack :: "digests \<Rightarrow> unit io" where
  "seal_open_pack D s =
     (let p = pack_id (writer s)
      in case map_of (packs_dir s) (pack_path_open p) of
           None \<Rightarrow> (Inl NotFound, s)
         | Some content \<Rightarrow>
             (case frame_count_in_open_pack content (pack_offset (writer s)) 0 0 of
                Inl e \<Rightarrow> (Inl e, s)
              | Inr n \<Rightarrow>
                  let sealed = write_at content (pack_offset (writer s)) (tail_bytes D n)
                  in (Inr (), s\<lparr>packs_dir := AList.update (pack_path_sealed p) sealed
                                  (AList.delete (pack_path_open p) (packs_dir s)),
                                writer := (writer s)\<lparr>file_pos := pack_offset (writer s) + TAIL_LEN\<rparr>\<rparr>)))"

definition rotate_pack :: "digests \<Rightarrow> unit io" where
  "rotate_pack D =
     io_bind (seal_open_pack D) (\<lambda>_ s. create_new_open_pack (next_pack_id (packs_dir s)) s)"

definition rotate_open_pack :: "digests \<Rightarrow> unit io" where
  "rotate_open_pack D s = (if pack_offset (writer s) = 0 then (Inr (), s) else rotate_pack D s)"

section \<open>Put\<close>

datatype put_dedup = Live | Tombstoned "32 word" | NotPresent

definition classify_existing_blob :: "blob_table \<Rightarrow> bytes \<Rightarrow> put_dedup" where
  "classify_existing_blob t h =
     (case select_row h t of
        None \<Rightarrow> NotPresent
      | Some r \<Rightarrow> (case tombstoned_at r of None \<Rightarrow> Live | Some _ \<Rightarrow> Tombstoned (pack_file_id r)))"

text \<open>The log record first, then the row.\<close>

definition revive :: "32 word \<Rightarrow> bytes \<Rightarrow> pack_store \<Rightarrow> pack_store" where
  "revive p h s =
     s\<lparr>packs_dir := append_tombstone_log_record p h Revive (packs_dir s),
       conn := update_rows (\<lambda>r. content_hash r = h) (\<lambda>r. r\<lparr>tombstoned_at := None\<rparr>) (conn s)\<rparr>"

text \<open>What can go wrong when a frame is written: only some of its bytes reach the file, or the row is
  not inserted.\<close>

datatype fault = NoFault | ShortWrite nat | SqlFailure

definition put_frame :: "digests \<Rightarrow> int \<Rightarrow> fault \<Rightarrow> bytes \<Rightarrow> bytes \<Rightarrow> unit io" where
  "put_frame D now flt bs h s =
     (let w = writer s;
          path = pack_path_open (pack_id w);
          fr = frame D bs
      in case map_of (packs_dir s) path of
           None \<Rightarrow> (Inl NotFound, s)
         | Some content \<Rightarrow>
             let out = (case flt of ShortWrite k \<Rightarrow> take k fr | _ \<Rightarrow> fr);
                 s1 = s\<lparr>packs_dir := AList.update path (write_at content (file_pos w) out) (packs_dir s),
                        writer := w\<lparr>file_pos := file_pos w + length out\<rparr>\<rparr>
             in case flt of
                  ShortWrite _ \<Rightarrow> (Inl WriteFailed, s1)
                | SqlFailure \<Rightarrow> (Inl Sql, s1)
                | NoFault \<Rightarrow>
                    (Inr (), s1\<lparr>conn := insert_or_ignore
                                  \<lparr>content_hash = h, pack_file_id = pack_id w, row_offset = pack_offset w,
                                   row_length = length bs, written_at = now, tombstoned_at = None\<rparr> (conn s1),
                                writer := (writer s1)\<lparr>pack_offset := pack_offset w + length fr\<rparr>\<rparr>))"

definition put_write :: "digests \<Rightarrow> nat \<Rightarrow> int \<Rightarrow> fault \<Rightarrow> bytes \<Rightarrow> bytes \<Rightarrow> unit io" where
  "put_write D target now flt bs h s =
     (case classify_existing_blob (conn s) h of
        Live \<Rightarrow> (Inr (), s)
      | Tombstoned p \<Rightarrow> (Inr (), revive p h s)
      | NotPresent \<Rightarrow>
          io_bind
            (\<lambda>s. if pack_offset (writer s) > 0 \<and>
                    pack_offset (writer s) + (FRAME_HEADER_LEN + length bs) > target
                 then rotate_pack D s else (Inr (), s))
            (\<lambda>_. put_frame D now flt bs h) s)"

definition put :: "digests \<Rightarrow> nat \<Rightarrow> int \<Rightarrow> fault \<Rightarrow> bytes \<Rightarrow> bytes io" where
  "put D target now flt bs s =
     (let h = blob_hash D bs
      in if int (length bs) > MAX_FRAME_PAYLOAD then (Inl (TooLarge (int (length bs))), s)
         else case classify_existing_blob (conn s) h of
                Live \<Rightarrow> (Inr h, s)
              | Tombstoned p \<Rightarrow> (Inr h, revive p h s)
              | NotPresent \<Rightarrow> io_bind (put_write D target now flt bs h) (\<lambda>_. io_return h) s)"

section \<open>Get\<close>

definition read_frame_payload :: "digests \<Rightarrow> files \<Rightarrow> 32 word \<Rightarrow> nat \<Rightarrow> nat \<Rightarrow> pack_error + bytes" where
  "read_frame_payload D fs p offset len =
     (let file = (case map_of fs (pack_path_sealed p) of
                    Some c \<Rightarrow> Some c
                  | None \<Rightarrow> map_of fs (pack_path_open p))
      in case file of
           None \<Rightarrow> Inl NotFound
         | Some content \<Rightarrow>
             (case read_exact content offset FRAME_HEADER_LEN of
                Inl e \<Rightarrow> Inl e
              | Inr header \<Rightarrow>
                  if take 4 header \<noteq> FRAME_MAGIC then Inl (Corruption ''bad magic'')
                  else if read_u32_le (drop 4 header) \<noteq> int len then Inl (Corruption ''length mismatch'')
                  else case read_exact content (offset + FRAME_HEADER_LEN) len of
                         Inl e \<Rightarrow> Inl e
                       | Inr payload \<Rightarrow>
                           if uint (xxh3_64 D payload) \<noteq> read_u64_le (drop 8 header)
                           then Inl (Corruption ''checksum mismatch'')
                           else Inr payload))"

text \<open>
  One attempt sees the table when it reads the row and, later, the directory when it opens the file;
  other operations may run in between. The list holds what each attempt sees.
\<close>

fun get_attempts ::
  "digests \<Rightarrow> bytes \<Rightarrow> nat \<Rightarrow> (32 word \<times> nat) option \<Rightarrow> (blob_table \<times> files) list \<Rightarrow> pack_error + bytes option" where
  "get_attempts D h attempt last_location [] = Inl (Corruption ''pack file kept relocating'')"
| "get_attempts D h attempt last_location ((t, fs) # seen) =
     (case select_row h t of
        None \<Rightarrow> Inr None
      | Some r \<Rightarrow>
          if tombstoned_at r \<noteq> None then Inr None
          else
            let current = (pack_file_id r, row_offset r)
            in case read_frame_payload D fs (pack_file_id r) (row_offset r) (row_length r) of
                 Inr bs \<Rightarrow> if blob_hash D bs \<noteq> h then Inl (Corruption ''BLAKE3 mismatch'') else Inr (Some bs)
               | Inl NotFound \<Rightarrow>
                   if attempt > 0 \<and> last_location = Some current then Inl NotFound
                   else get_attempts D h (attempt + 1) (Some current) seen
               | Inl e \<Rightarrow> Inl e)"

definition MAX_GET_GC_RETRIES :: nat where "MAX_GET_GC_RETRIES = 4"

text \<open>A call while nothing else runs.\<close>

definition get_blob :: "digests \<Rightarrow> bytes \<Rightarrow> pack_store \<Rightarrow> pack_error + bytes option" where
  "get_blob D h s = get_attempts D h 0 None (replicate MAX_GET_GC_RETRIES (conn s, packs_dir s))"

definition size_breakdown :: "pack_store \<Rightarrow> nat \<times> nat" where
  "size_breakdown s =
     (sum_list (map (\<lambda>r. if tombstoned_at r = None then row_length r else 0) (conn s)),
      sum_list (map (\<lambda>r. if tombstoned_at r \<noteq> None then row_length r else 0) (conn s)))"

section \<open>Tombstones\<close>

definition tombstone :: "int \<Rightarrow> bytes \<Rightarrow> pack_store \<Rightarrow> pack_store" where
  "tombstone now h s =
     (case find (\<lambda>r. content_hash r = h \<and> tombstoned_at r = None) (conn s) of
        None \<Rightarrow> s
      | Some r \<Rightarrow>
          s\<lparr>packs_dir := append_tombstone_log_record (pack_file_id r) h Tombstone (packs_dir s),
            conn := update_rows (\<lambda>r. content_hash r = h \<and> tombstoned_at r = None)
                      (\<lambda>r. r\<lparr>tombstoned_at := Some now\<rparr>) (conn s)\<rparr>)"

definition tombstone_all_live :: "int \<Rightarrow> pack_store \<Rightarrow> nat \<times> pack_store" where
  "tombstone_all_live now s =
     (let live = filter (\<lambda>r. tombstoned_at r = None) (conn s)
      in if live = [] then (0, s)
         else (length live,
               s\<lparr>packs_dir := foldl (\<lambda>fs p. append_tombstone_log_batch p
                                  (map content_hash (filter (\<lambda>r. pack_file_id r = p) live)) Tombstone fs)
                                (packs_dir s) (remdups (map pack_file_id live)),
                 conn := update_rows (\<lambda>r. tombstoned_at r = None) (\<lambda>r. r\<lparr>tombstoned_at := Some now\<rparr>) (conn s)\<rparr>))"

section \<open>Recovery\<close>

text \<open>The authoritative row of a frame; it keeps the tombstone of a row that was there.\<close>

definition index_frame :: "digests \<Rightarrow> int \<Rightarrow> 32 word \<Rightarrow> nat \<Rightarrow> bytes \<Rightarrow> blob_table \<Rightarrow> blob_table" where
  "index_frame D now p offset payload t =
     insert_or_replace
       \<lparr>content_hash = blob_hash D payload, pack_file_id = p, row_offset = offset, row_length = length payload,
        written_at = now,
        tombstoned_at = Option.bind (select_row (blob_hash D payload) t) tombstoned_at\<rparr> t"

text \<open>The walk over the frames of a pack: the table, the number of frames and where it stopped.\<close>

function walk_frames ::
  "digests \<Rightarrow> int \<Rightarrow> 32 word \<Rightarrow> bytes \<Rightarrow> nat \<Rightarrow> blob_table \<Rightarrow> nat \<Rightarrow> blob_table \<times> nat \<times> nat" where
  "walk_frames D now p content offset t n =
     (case whole_frame D content offset of
        None \<Rightarrow> (t, n, offset)
      | Some payload \<Rightarrow>
          walk_frames D now p content (offset + (FRAME_HEADER_LEN + length payload))
            (index_frame D now p offset payload t) (n + 1))"
  by pat_completeness auto
termination
  by (relation "measure (\<lambda>(D, now, p, content, offset, t, n). length content - offset)")
    (auto simp: FRAME_HEADER_LEN_def dest!: whole_frame_length)

declare walk_frames.simps [simp del]

definition recover_open_pack :: "digests \<Rightarrow> int \<Rightarrow> 32 word \<Rightarrow> unit io" where
  "recover_open_pack D now p s =
     (case map_of (packs_dir s) (pack_path_open p) of
        None \<Rightarrow> (Inl NotFound, s)
      | Some content \<Rightarrow>
          (case walk_frames D now p content 0 (conn s) 0 of
             (t, n, stop) \<Rightarrow>
               (Inr (), s\<lparr>packs_dir := AList.update (pack_path_open p) (take stop content) (packs_dir s), conn := t\<rparr>)))"

definition remove_stale :: "32 word \<Rightarrow> files \<Rightarrow> files" where
  "remove_stale p fs = AList.delete (tombstone_log_path p) (AList.delete (pack_path_open p) fs)"

definition recover_and_open_current_pack :: "digests \<Rightarrow> int \<Rightarrow> unit io" where
  "recover_and_open_current_pack D now s =
     (case map fst (filter (\<lambda>(p, sealed). \<not> sealed) (list_packs (packs_dir s))) of
        [] \<Rightarrow> create_new_open_pack (next_pack_id (packs_dir s)) s
      | many \<Rightarrow>
          let writer_id = Min (set many);
              s1 = s\<lparr>packs_dir := fold remove_stale (filter (\<lambda>p. p \<noteq> writer_id) many) (packs_dir s)\<rparr>
          in io_bind (recover_open_pack D now writer_id) (\<lambda>_. open_existing_open_pack writer_id) s1)"

section \<open>Garbage collection\<close>

text \<open>
  \<^verbatim>\<open>compact_pack\<close> in the pieces between which other calls can run: the mutex of the writer is
  held for the first one only, and the one of the table for the snapshot and for the swap.
\<close>

definition compact_create :: "32 word io" where
  "compact_create s =
     (let dst = next_pack_id (packs_dir s)
      in if map_of (packs_dir s) (pack_path_open dst) \<noteq> None then (Inl AlreadyExists, s)
         else (Inr dst, s\<lparr>packs_dir := AList.update (pack_path_open dst) [] (packs_dir s)\<rparr>))"

definition compact_snapshot :: "32 word \<Rightarrow> blob_table \<Rightarrow> (bytes \<times> nat \<times> nat) list" where
  "compact_snapshot src t =
     map (\<lambda>r. (content_hash r, row_offset r, row_length r))
       (filter (\<lambda>r. pack_file_id r = src \<and> tombstoned_at r = None) t)"

text \<open>The live frames one after another, with the offset of each in the new pack; what has been
  written when an error stops the copy stays written.\<close>

fun copy_frames ::
  "bytes \<Rightarrow> (bytes \<times> nat \<times> nat) list \<Rightarrow> bytes \<Rightarrow> (bytes \<times> nat) list \<Rightarrow> (pack_error + (bytes \<times> nat) list) \<times> bytes" where
  "copy_frames src_content [] out new_offsets = (Inr new_offsets, out)"
| "copy_frames src_content ((h, offset, len) # live) out new_offsets =
     (case read_exact src_content offset FRAME_HEADER_LEN of
        Inl e \<Rightarrow> (Inl e, out)
      | Inr header \<Rightarrow>
          if take 4 header \<noteq> FRAME_MAGIC then (Inl (Corruption ''GC: bad magic''), out)
          else case read_exact src_content (offset + FRAME_HEADER_LEN) len of
                 Inl e \<Rightarrow> (Inl e, out)
               | Inr payload \<Rightarrow>
                   copy_frames src_content live (out @ header @ payload) (new_offsets @ [(h, length out)]))"

definition compact_copy :: "digests \<Rightarrow> 32 word \<Rightarrow> 32 word \<Rightarrow> (bytes \<times> nat \<times> nat) list \<Rightarrow> (bytes \<times> nat) list io" where
  "compact_copy D src dst live s =
     (case map_of (packs_dir s) (pack_path_sealed src) of
        None \<Rightarrow> (Inl NotFound, s)
      | Some content \<Rightarrow>
          (case copy_frames content live [] [] of
             (Inl e, out) \<Rightarrow> (Inl e, s\<lparr>packs_dir := AList.update (pack_path_open dst) out (packs_dir s)\<rparr>)
           | (Inr new_offsets, out) \<Rightarrow>
               (Inr new_offsets,
                s\<lparr>packs_dir := AList.update (pack_path_sealed dst)
                    (out @ tail_bytes D (min (int (length live)) 4294967295))
                    (AList.delete (pack_path_open dst) (packs_dir s))\<rparr>)))"

definition compact_swap :: "32 word \<Rightarrow> 32 word \<Rightarrow> (bytes \<times> nat) list \<Rightarrow> blob_table \<Rightarrow> blob_table" where
  "compact_swap src dst new_offsets t =
     filter (\<lambda>r. \<not> (pack_file_id r = src \<and> tombstoned_at r \<noteq> None))
       (foldl (\<lambda>t (h, offset). update_rows (\<lambda>r. content_hash r = h)
                 (\<lambda>r. r\<lparr>pack_file_id := dst, row_offset := offset\<rparr>) t) t new_offsets)"

definition compact_finish :: "32 word \<Rightarrow> 32 word \<Rightarrow> (bytes \<times> nat) list \<Rightarrow> unit io" where
  "compact_finish src dst new_offsets s =
     (Inr (), s\<lparr>conn := compact_swap src dst new_offsets (conn s),
                packs_dir := AList.delete (tombstone_log_path src) (AList.delete (pack_path_sealed src) (packs_dir s))\<rparr>)"

definition compact_pack :: "digests \<Rightarrow> 32 word \<Rightarrow> unit io" where
  "compact_pack D src =
     io_bind compact_create (\<lambda>dst s.
       io_bind (compact_copy D src dst (compact_snapshot src (conn s))) (compact_finish src dst) s)"

definition pack_density :: "blob_table \<Rightarrow> 32 word \<Rightarrow> nat \<times> nat \<times> nat" where
  "pack_density t p =
     (let rows = filter (\<lambda>r. pack_file_id r = p) t;
          dead = filter (\<lambda>r. tombstoned_at r \<noteq> None) rows
      in (length rows, length dead, sum_list (map row_length dead)))"

text \<open>The counters of the statistics, which saturate at \<^verbatim>\<open>u64::MAX\<close>, are natural numbers.\<close>

record gc_stats =
  packs_compacted :: nat
  blobs_dropped :: nat
  bytes_reclaimed :: nat

text \<open>The comparison of the ratio of dead to all rows with the threshold, in \<^verbatim>\<open>f32\<close>, is the argument
  \<open>sparse\<close> (dead rows, all rows).\<close>

fun gc_packs :: "digests \<Rightarrow> (nat \<Rightarrow> nat \<Rightarrow> bool) \<Rightarrow> (32 word \<times> bool) list \<Rightarrow> gc_stats \<Rightarrow> gc_stats io" where
  "gc_packs D sparse [] stats s = (Inr stats, s)"
| "gc_packs D sparse ((p, sealed) # packs) stats s =
     (if \<not> sealed then gc_packs D sparse packs stats s
      else case pack_density (conn s) p of
             (rows, dead, dead_bytes) \<Rightarrow>
               if rows = 0 \<or> \<not> sparse dead rows then gc_packs D sparse packs stats s
               else io_bind (compact_pack D p)
                      (\<lambda>_. gc_packs D sparse packs
                         \<lparr>packs_compacted = packs_compacted stats + 1,
                          blobs_dropped = blobs_dropped stats + dead,
                          bytes_reclaimed = bytes_reclaimed stats + dead_bytes\<rparr>) s)"

definition run_gc :: "digests \<Rightarrow> (nat \<Rightarrow> nat \<Rightarrow> bool) \<Rightarrow> gc_stats io" where
  "run_gc D sparse s =
     gc_packs D sparse (list_packs (packs_dir s)) \<lparr>packs_compacted = 0, blobs_dropped = 0, bytes_reclaimed = 0\<rparr> s"

definition sweep_orphan_sealed_packs :: "pack_store \<Rightarrow> nat \<times> pack_store" where
  "sweep_orphan_sealed_packs s =
     (let orphans = map fst (filter (\<lambda>(p, sealed). sealed \<and> p \<noteq> pack_id (writer s) \<and>
                       filter (\<lambda>r. pack_file_id r = p) (conn s) = []) (list_packs (packs_dir s)))
      in (length orphans,
          s\<lparr>packs_dir := fold (\<lambda>p fs. AList.delete (tombstone_log_path p) (AList.delete (pack_path_sealed p) fs))
              orphans (packs_dir s)\<rparr>))"

section \<open>Rebuilding the index\<close>

record rebuild_stats =
  packs_walked :: nat
  frames_indexed :: nat
  tombstones_replayed :: nat

definition rebuild_index_walk_sealed_pack :: "digests \<Rightarrow> int \<Rightarrow> 32 word \<Rightarrow> nat io" where
  "rebuild_index_walk_sealed_pack D now p s =
     (case map_of (packs_dir s) (pack_path_sealed p) of
        None \<Rightarrow> (Inl NotFound, s)
      | Some content \<Rightarrow>
          (case walk_frames D now p content 0 (conn s) 0 of (t, n, stop) \<Rightarrow> (Inr n, s\<lparr>conn := t\<rparr>)))"

definition replay_record :: "int \<Rightarrow> tombstone_log_kind \<times> bytes \<Rightarrow> blob_table \<times> nat \<Rightarrow> blob_table \<times> nat" where
  "replay_record now kh tn =
     (case (kh, tn) of
        ((Tombstone, h), (t, n)) \<Rightarrow>
          (update_rows (\<lambda>r. content_hash r = h \<and> tombstoned_at r = None) (\<lambda>r. r\<lparr>tombstoned_at := Some now\<rparr>) t,
           if list_ex (\<lambda>r. content_hash r = h \<and> tombstoned_at r = None) t then n + 1 else n)
      | ((Revive, h), (t, n)) \<Rightarrow>
          (update_rows (\<lambda>r. content_hash r = h \<and> tombstoned_at r \<noteq> None) (\<lambda>r. r\<lparr>tombstoned_at := None\<rparr>) t,
           if list_ex (\<lambda>r. content_hash r = h \<and> tombstoned_at r \<noteq> None) t then n + 1 else n))"

definition rebuild_index_replay_tombstone_log :: "int \<Rightarrow> 32 word \<Rightarrow> pack_store \<Rightarrow> nat \<times> pack_store" where
  "rebuild_index_replay_tombstone_log now p s =
     (case map_of (packs_dir s) (tombstone_log_path p) of
        None \<Rightarrow> (0, s)
      | Some content \<Rightarrow>
          (case fold (replay_record now) (log_records content) (conn s, 0) of (t, n) \<Rightarrow> (n, s\<lparr>conn := t\<rparr>)))"

fun rebuild_walks :: "digests \<Rightarrow> int \<Rightarrow> 32 word list \<Rightarrow> rebuild_stats \<Rightarrow> rebuild_stats io" where
  "rebuild_walks D now [] stats s = (Inr stats, s)"
| "rebuild_walks D now (p # ps) stats s =
     io_bind (rebuild_index_walk_sealed_pack D now p)
       (\<lambda>walked. rebuild_walks D now ps
          (stats\<lparr>packs_walked := packs_walked stats + 1, frames_indexed := frames_indexed stats + walked\<rparr>)) s"

fun rebuild_replays :: "int \<Rightarrow> 32 word list \<Rightarrow> rebuild_stats \<Rightarrow> pack_store \<Rightarrow> rebuild_stats \<times> pack_store" where
  "rebuild_replays now [] stats s = (stats, s)"
| "rebuild_replays now (p # ps) stats s =
     (case rebuild_index_replay_tombstone_log now p s of
        (n, s1) \<Rightarrow> rebuild_replays now ps (stats\<lparr>tombstones_replayed := tombstones_replayed stats + n\<rparr>) s1)"

definition run_rebuild_index :: "digests \<Rightarrow> int \<Rightarrow> rebuild_stats io" where
  "run_rebuild_index D now s =
     (let sealed = map fst (filter (\<lambda>(p, sealed). sealed \<and> p \<noteq> pack_id (writer s)) (list_packs (packs_dir s)))
      in io_bind (rebuild_walks D now sealed \<lparr>packs_walked = 0, frames_indexed = 0, tombstones_replayed = 0\<rparr>)
           (\<lambda>stats s1. case rebuild_replays now sealed stats s1 of (stats', s2) \<Rightarrow> (Inr stats', s2)) s)"

section \<open>Boot and the clear-cache request\<close>

text \<open>
  What the service does with the store when it starts: opening, the rebuild when it was asked for (its
  failure is only logged), and the sweep.
\<close>

definition boot_pack_store :: "digests \<Rightarrow> bool \<Rightarrow> int \<Rightarrow> unit io" where
  "boot_pack_store D rebuild now =
     io_bind (recover_and_open_current_pack D now)
       (\<lambda>_ s. (Inr (), snd (sweep_orphan_sealed_packs (if rebuild then snd (run_rebuild_index D now s) else s))))"

definition run_gc_pass :: "digests \<Rightarrow> (nat \<Rightarrow> nat \<Rightarrow> bool) \<Rightarrow> pack_store \<Rightarrow> gc_stats \<times> pack_store" where
  "run_gc_pass D sparse s =
     (case run_gc D sparse s of
        (Inr stats, s') \<Rightarrow> (stats, s')
      | (Inl _, s') \<Rightarrow> (\<lparr>packs_compacted = 0, blobs_dropped = 0, bytes_reclaimed = 0\<rparr>, s'))"

text \<open>The number of blobs and of bytes that the reply names.\<close>

definition handle_clear_cache :: "digests \<Rightarrow> (nat \<Rightarrow> nat \<Rightarrow> bool) \<Rightarrow> int \<Rightarrow> pack_store \<Rightarrow> (nat \<times> nat) \<times> pack_store" where
  "handle_clear_cache D sparse now s =
     (case tombstone_all_live now s of
        (blobs_tombstoned, s1) \<Rightarrow>
          (case run_gc_pass D sparse (snd (rotate_open_pack D s1)) of
             (stats, s2) \<Rightarrow> ((blobs_tombstoned, bytes_reclaimed stats), s2)))"

end
