(* ===== verification/PackIndex.thy ===== *)
theory PackIndex
  imports PackStore
begin

text \<open>
  The table as a map from hashes to the place of the frame and whether it is tombstoned, the entries
  that the frames of a pack call for, and how the statements and the walks act on that map.
\<close>

section \<open>The table as a map\<close>

type_synonym place = "32 word \<times> nat \<times> nat \<times> bool"

definition row_place :: "blob_row \<Rightarrow> place" where
  "row_place r = (pack_file_id r, row_offset r, row_length r, tombstoned_at r \<noteq> None)"

definition view :: "blob_table \<Rightarrow> bytes \<rightharpoonup> place" where
  "view t h = map_option row_place (select_row h t)"

definition keyed :: "blob_table \<Rightarrow> bool" where
  "keyed t \<longleftrightarrow> distinct (map content_hash t)"

lemma select_row_Cons [simp]:
  "select_row h [] = None"
  "select_row h (r # t) = (if content_hash r = h then Some r else select_row h t)"
  by (simp_all add: select_row_def)

lemma select_row_append: "select_row h (t @ u) = (case select_row h t of Some r \<Rightarrow> Some r | None \<Rightarrow> select_row h u)"
  by (induction t) simp_all

lemma select_row_hash: "select_row h t = Some r \<Longrightarrow> content_hash r = h \<and> r \<in> set t"
  by (induction t) (auto split: if_splits)

lemma select_row_None: "select_row h t = None \<longleftrightarrow> h \<notin> content_hash ` set t"
  by (induction t) auto

lemma select_row_keyed: "keyed t \<Longrightarrow> r \<in> set t \<Longrightarrow> select_row (content_hash r) t = Some r"
  by (induction t) (auto simp: keyed_def image_iff)

lemma keyed_Nil [simp]: "keyed []"
  by (simp add: keyed_def)

lemma view_Nil [simp]: "view [] = Map.empty"
  by (simp add: view_def fun_eq_iff)

lemma view_None: "view t h = None \<longleftrightarrow> h \<notin> content_hash ` set t"
  by (simp add: view_def select_row_None)

text \<open>The statements.\<close>

lemma view_insert_or_ignore:
  "view t (content_hash r) = None \<Longrightarrow> view (insert_or_ignore r t) = (view t)(content_hash r \<mapsto> row_place r)"
  by (auto simp: view_def insert_or_ignore_def select_row_append fun_eq_iff split: option.splits)

lemma keyed_insert_or_ignore: "keyed t \<Longrightarrow> keyed (insert_or_ignore r t)"
  by (auto simp: keyed_def insert_or_ignore_def select_row_None)

lemma select_row_filter_hash:
  "h \<noteq> k \<Longrightarrow> select_row h (filter (\<lambda>x. content_hash x \<noteq> k) t) = select_row h t"
  "select_row k (filter (\<lambda>x. content_hash x \<noteq> k) t) = None"
  by (induction t) auto

lemma view_insert_or_replace: "view (insert_or_replace r t) = (view t)(content_hash r \<mapsto> row_place r)"
proof
  fix h show "view (insert_or_replace r t) h = ((view t)(content_hash r \<mapsto> row_place r)) h"
    by (cases "h = content_hash r")
      (auto simp: view_def insert_or_replace_def select_row_append select_row_filter_hash split: option.splits)
qed

lemma keyed_insert_or_replace: "keyed t \<Longrightarrow> keyed (insert_or_replace r t)"
  by (auto simp: keyed_def insert_or_replace_def distinct_map_filter)

lemma select_row_update:
  assumes "\<And>r. content_hash (f r) = content_hash r"
  shows "select_row h (update_rows P f t) = map_option (\<lambda>r. if P r then f r else r) (select_row h t)"
  by (induction t) (auto simp: update_rows_def assms)

lemma keyed_update: "(\<And>r. content_hash (f r) = content_hash r) \<Longrightarrow> keyed (update_rows P f t) = keyed t"
proof -
  assume "\<And>r. content_hash (f r) = content_hash r"
  then have "map content_hash (update_rows P f t) = map content_hash t" by (simp add: update_rows_def)
  then show ?thesis by (simp only: keyed_def)
qed

lemma select_row_filter:
  "keyed t \<Longrightarrow> select_row h (filter Q t) = (case select_row h t of Some r \<Rightarrow> if Q r then Some r else None | None \<Rightarrow> None)"
proof (induction t)
  case (Cons r t)
  then have "select_row (content_hash r) t = None" by (auto simp: keyed_def select_row_None)
  moreover from this have "select_row (content_hash r) (filter Q t) = None" by (auto simp: select_row_None)
  ultimately show ?case using Cons by (auto simp: keyed_def)
qed simp

lemma keyed_filter: "keyed t \<Longrightarrow> keyed (filter Q t)"
  by (simp add: keyed_def distinct_map_filter)

text \<open>Setting and clearing the tombstone of one hash.\<close>

definition mark :: "bytes \<Rightarrow> bool \<Rightarrow> (bytes \<rightharpoonup> place) \<Rightarrow> bytes \<rightharpoonup> place" where
  "mark h b V = V(h := map_option (\<lambda>(p, off, len, _). (p, off, len, b)) (V h))"

lemma view_update_mark:
  "view (update_rows (\<lambda>r. content_hash r = h) (\<lambda>r. r\<lparr>tombstoned_at := None\<rparr>) t) = mark h False (view t)"
  "view (update_rows (\<lambda>r. content_hash r = h \<and> tombstoned_at r = None) (\<lambda>r. r\<lparr>tombstoned_at := Some now\<rparr>) t) =
    mark h True (view t)"
  "view (update_rows (\<lambda>r. content_hash r = h \<and> tombstoned_at r \<noteq> None) (\<lambda>r. r\<lparr>tombstoned_at := None\<rparr>) t) =
    mark h False (view t)"
  by (rule ext; case_tac "select_row x t";
      force simp: view_def mark_def select_row_update row_place_def dest: select_row_hash)+

lemma mark_other [simp]: "k \<noteq> h \<Longrightarrow> mark h b V k = V k"
  by (simp add: mark_def)

lemma view_tombstone_all:
  "view (update_rows (\<lambda>r. tombstoned_at r = None) (\<lambda>r. r\<lparr>tombstoned_at := Some now\<rparr>) t) h =
    map_option (\<lambda>(p, off, len, _). (p, off, len, True)) (view t h)"
  by (cases "select_row h t") (auto simp: view_def select_row_update row_place_def)

section \<open>Frames and entries\<close>

definition body :: "digests \<Rightarrow> bytes list \<Rightarrow> bytes" where
  "body D ps = concat (map (frame D) ps)"

type_synonym entry = "bytes \<times> 32 word \<times> nat \<times> nat"

fun entries :: "digests \<Rightarrow> 32 word \<Rightarrow> nat \<Rightarrow> bytes list \<Rightarrow> entry list" where
  "entries D p off [] = []"
| "entries D p off (x # xs) = (blob_hash D x, p, off, length x) # entries D p (off + (16 + length x)) xs"

lemma body_simps [simp]:
  "body D [] = []"
  "body D (x # xs) = frame D x @ body D xs"
  "body D (xs @ ys) = body D xs @ body D ys"
  by (simp_all add: body_def)

lemma entries_append: "entries D p off (xs @ ys) = entries D p off xs @ entries D p (off + length (body D xs)) ys"
  by (induction xs arbitrary: off) (simp_all add: add.assoc)

lemma entries_pack: "(h, q, off, len) \<in> set (entries D p o1 ps) \<Longrightarrow> q = p"
  by (induction ps arbitrary: o1) auto

lemma entries_split:
  assumes "(h, p, off, len) \<in> set (entries D p o1 ps)"
  obtains xs x ys where "ps = xs @ x # ys" "off = o1 + length (body D xs)" "h = blob_hash D x" "len = length x"
  using assms
proof (induction ps arbitrary: o1 thesis)
  case (Cons y ys)
  show ?case
  proof (cases "(h, p, off, len) = (blob_hash D y, p, o1, length y)")
    case True
    then show ?thesis using Cons.prems(1) [of "[]" y ys] by simp
  next
    case False
    then have "(h, p, off, len) \<in> set (entries D p (o1 + (16 + length y)) ys)" using Cons.prems(2) by auto
    then obtain xs x zs where "ys = xs @ x # zs" "off = o1 + (16 + length y) + length (body D xs)"
      "h = blob_hash D x" "len = length x"
      using Cons.IH by blast
    then show ?thesis using Cons.prems(1) [of "y # xs" x zs] by simp
  qed
qed simp

lemma entries_hashes: "map fst (entries D p off ps) = map (blob_hash D) ps"
  by (induction ps arbitrary: off) simp_all

section \<open>Walks\<close>

fun index_all :: "digests \<Rightarrow> int \<Rightarrow> 32 word \<Rightarrow> nat \<Rightarrow> bytes list \<Rightarrow> blob_table \<Rightarrow> blob_table" where
  "index_all D now p off [] t = t"
| "index_all D now p off (x # xs) t = index_all D now p (off + (16 + length x)) xs (index_frame D now p off x t)"

lemma walk_frames_body:
  assumes "list_all fits ps" "whole_frame D (pre @ body D ps @ rest) (length (pre @ body D ps)) = None"
  shows "walk_frames D now p (pre @ body D ps @ rest) (length pre) t n =
    (index_all D now p (length pre) ps t, n + length ps, length (pre @ body D ps))"
  using assms
proof (induction ps arbitrary: pre t n)
  case Nil
  then show ?case by (simp add: walk_frames.simps)
next
  case (Cons x xs)
  have w: "whole_frame D (pre @ frame D x @ body D xs @ rest) (length pre) = Some x"
    using whole_frame_append [of pre "length pre" x D "body D xs @ rest"] Cons.prems(1) by simp
  have "walk_frames D now p ((pre @ frame D x) @ body D xs @ rest) (length (pre @ frame D x))
      (index_frame D now p (length pre) x t) (n + 1) =
    (index_all D now p (length (pre @ frame D x)) xs (index_frame D now p (length pre) x t), n + 1 + length xs,
      length ((pre @ frame D x) @ body D xs))"
    by (rule Cons.IH) (use Cons.prems in simp_all)
  then show ?case by (subst walk_frames.simps) (simp add: w FRAME_HEADER_LEN_def)
qed

text \<open>What a walk does to the map: each frame gets its place and keeps its tombstone.\<close>

definition index_place :: "entry \<Rightarrow> (bytes \<rightharpoonup> place) \<Rightarrow> bytes \<rightharpoonup> place" where
  "index_place e V = (case e of (h, p, off, len) \<Rightarrow>
     V(h \<mapsto> (p, off, len, case V h of Some (_, _, _, b) \<Rightarrow> b | None \<Rightarrow> False)))"

lemma view_index_frame:
  "view (index_frame D now p off x t) = index_place (blob_hash D x, p, off, length x) (view t)"
  by (auto simp: index_frame_def view_insert_or_replace index_place_def row_place_def view_def split: option.splits)

lemma view_index_all: "view (index_all D now p off ps t) = fold index_place (entries D p off ps) (view t)"
  by (induction ps arbitrary: off t) (simp_all add: view_index_frame)

lemma keyed_index_all: "keyed t \<Longrightarrow> keyed (index_all D now p off ps t)"
  by (induction ps arbitrary: off t) (simp_all add: index_frame_def keyed_insert_or_replace)

lemma index_place_known:
  "V h = Some (p, off, len, b) \<Longrightarrow> index_place (h, p, off, len) V = V"
  by (auto simp: index_place_def fun_eq_iff)

lemma index_all_known:
  "(\<And>h p off len. (h, p, off, len) \<in> set es \<Longrightarrow> \<exists>b. V h = Some (p, off, len, b)) \<Longrightarrow> fold index_place es V = V"
proof (induction es)
  case (Cons e es)
  obtain h p off len where e: "e = (h, p, off, len)" by (cases e) auto
  then obtain b where "V h = Some (p, off, len, b)" using Cons.prems [of h p off len] by auto
  then show ?case using Cons e by (simp add: index_place_known)
qed simp

lemma fold_index_other: "h \<notin> fst ` set es \<Longrightarrow> fold index_place es V h = V h"
  by (induction es arbitrary: V) (auto simp: index_place_def split: prod.splits)

lemma fold_index_new:
  assumes "distinct (map fst es)" "(h, p, off, len) \<in> set es"
  shows "fold index_place es V h = Some (p, off, len, case V h of Some (_, _, _, b) \<Rightarrow> b | None \<Rightarrow> False)"
  using assms
proof (induction es arbitrary: V)
  case (Cons e es)
  show ?case
  proof (cases "e = (h, p, off, len)")
    case True
    then have "h \<notin> fst ` set es" using Cons.prems(1) by simp
    then have "fold index_place (e # es) V h = index_place e V h" by (simp add: fold_index_other)
    also have "\<dots> = Some (p, off, len, case V h of Some (_, _, _, b) \<Rightarrow> b | None \<Rightarrow> False)"
      using True by (simp add: index_place_def)
    finally show ?thesis .
  next
    case False
    then have m: "(h, p, off, len) \<in> set es" using Cons.prems(2) by auto
    then have "h \<in> fst ` set es" by (metis fst_conv imageI)
    then have "fst e \<noteq> h" using Cons.prems(1) by auto
    then have "index_place e V h = V h" by (auto simp: index_place_def split: prod.splits)
    with Cons m show ?thesis by simp
  qed
qed simp

section \<open>Reading a frame\<close>

lemma read_frame:
  assumes "file = body D xs @ frame D x @ rest" "fits x"
    and "map_of fs (pack_path_sealed p) = Some file \<or>
      map_of fs (pack_path_sealed p) = None \<and> map_of fs (pack_path_open p) = Some file"
  shows "read_frame_payload D fs p (length (body D xs)) (length x) = Inr x"
proof -
  have f: "(case map_of fs (pack_path_sealed p) of Some c \<Rightarrow> Some c | None \<Rightarrow> map_of fs (pack_path_open p)) = Some file"
    using assms(3) by auto
  have "file = body D xs @ frame_header D x @ x @ rest" using assms(1) by (simp add: frame_def)
  then have h: "read_exact file (length (body D xs)) 16 = Inr (frame_header D x)"
    and b: "read_exact file (length (body D xs) + 16) (length x) = Inr x"
    by (simp_all add: read_exact_def)
  show ?thesis unfolding read_frame_payload_def Let_def f option.case FRAME_HEADER_LEN_def h sum.case b
    using header_fields(1) [of D x] header_fields(2) [OF assms(2), of D] header_fields(3) [of D x] by simp
qed

text \<open>Copying frames forward.\<close>

definition frame_at :: "digests \<Rightarrow> bytes \<Rightarrow> nat \<Rightarrow> bytes \<Rightarrow> bool" where
  "frame_at D content off x \<longleftrightarrow> (\<exists>xs ys. content = body D xs @ frame D x @ ys \<and> off = length (body D xs))"

lemma copy_frames_body:
  assumes "\<And>h off len. (h, off, len) \<in> set live \<Longrightarrow> \<exists>x. frame_at D src off x \<and> len = length x \<and> h = blob_hash D x"
  shows "\<exists>ps. copy_frames src live out acc =
      (Inr (acc @ map (\<lambda>(h, p, off, len). (h, off)) (entries D dst (length out) ps)), out @ body D ps) \<and>
    list_all2 (\<lambda>(h, off, len) x. frame_at D src off x \<and> len = length x \<and> h = blob_hash D x) live ps"
  using assms
proof (induction live arbitrary: out acc)
  case Nil
  then show ?case by (auto intro: exI [of _ "[]"])
next
  case (Cons e live)
  obtain h off len where e: "e = (h, off, len)" by (cases e) auto
  then obtain x where x: "frame_at D src off x" "len = length x" "h = blob_hash D x"
    using Cons.prems [of h off len] by auto
  then have r: "read_exact src off 16 = Inr (frame_header D x)" "read_exact src (off + 16) (length x) = Inr x"
    by (auto simp: read_exact_def frame_def frame_at_def)
  let ?acc = "acc @ [(h, length out)]"
  obtain ps where IH: "copy_frames src live (out @ frame D x) ?acc =
      (Inr (?acc @ map (\<lambda>(h, p, off, len). (h, off)) (entries D dst (length (out @ frame D x)) ps)),
       (out @ frame D x) @ body D ps)"
    "list_all2 (\<lambda>(h, off, len) x. frame_at D src off x \<and> len = length x \<and> h = blob_hash D x) live ps"
    using Cons.IH [of "out @ frame D x" ?acc] Cons.prems by fastforce
  have "copy_frames src (e # live) out acc =
      (Inr (acc @ map (\<lambda>(h, p, off, len). (h, off)) (entries D dst (length out) (x # ps))), out @ body D (x # ps))"
    using IH(1) x by (simp add: e r FRAME_HEADER_LEN_def header_fields(1) frame_def)
  with IH(2) x e show ?case by (intro exI [of _ "x # ps"]) simp
qed

end
