(* ===== verification/PackInvariant.thy ===== *)
theory PackInvariant
  imports PackIndex
begin

text \<open>
  The invariant of the attachment store: every pack file is a list of frames, the rows of the table
  are exactly the entries of those frames, and the tombstone log of a pack agrees with the rows that
  point into it. The lists of payloads are a witness \<open>G\<close> of the invariant; no operation keeps them.
\<close>

section \<open>Directories\<close>

definition pack_file_name :: "string \<Rightarrow> bool" where
  "pack_file_name name \<longleftrightarrow> (\<exists>i. name = pack_path_sealed i \<or> name = pack_path_open i \<or> name = tombstone_log_path i)"

lemma pack_file_names [simp]:
  "pack_file_name (pack_path_sealed i)" "pack_file_name (pack_path_open i)" "pack_file_name (tombstone_log_path i)"
  by (auto simp: pack_file_name_def)

lemma pack_file_canonical: "pack_file_name name \<Longrightarrow> canonical_name name"
  by (auto simp: pack_file_name_def canonical_name_def)

lemma canonical_update [simp]: "canonical fs \<Longrightarrow> pack_file_name name \<Longrightarrow> canonical (AList.update name c fs)"
  using dom_update [of name c fs] by (auto simp: canonical_def list_all_iff distinct_update pack_file_canonical)

lemma canonical_delete [simp]: "canonical fs \<Longrightarrow> canonical (AList.delete name fs)"
  by (auto simp: canonical_def list_all_iff delete_keys distinct_removeAll)

lemmas file_simps = update_conv' delete_conv'

section \<open>The invariant\<close>

type_synonym layout = "32 word \<rightharpoonup> bytes list"

definition packs_ok :: "digests \<Rightarrow> layout \<Rightarrow> 32 word \<Rightarrow> files \<Rightarrow> bool" where
  "packs_ok D G w fs \<longleftrightarrow>
     canonical fs
     \<and> (\<exists>ps. G w = Some ps \<and> map_of fs (pack_path_open w) = Some (body D ps)) \<and> map_of fs (pack_path_sealed w) = None
     \<and> (\<forall>p. p \<noteq> w \<longrightarrow> map_of fs (pack_path_open p) = None)
     \<and> (\<forall>p. p \<noteq> w \<longrightarrow> (case G p of
            None \<Rightarrow> map_of fs (pack_path_sealed p) = None
          | Some ps \<Rightarrow> \<exists>n. map_of fs (pack_path_sealed p) = Some (body D ps @ tail_bytes D n)))
     \<and> (\<forall>p ps. G p = Some ps \<longrightarrow> list_all fits ps)"

definition index_ok :: "digests \<Rightarrow> layout \<Rightarrow> (bytes \<rightharpoonup> place) \<Rightarrow> bool" where
  "index_ok D G V \<longleftrightarrow>
     (\<forall>h p off len b. V h = Some (p, off, len, b) \<longrightarrow> (\<exists>ps. G p = Some ps \<and> (h, p, off, len) \<in> set (entries D p 0 ps)))
     \<and> (\<forall>p ps h off len. G p = Some ps \<longrightarrow> (h, p, off, len) \<in> set (entries D p 0 ps) \<longrightarrow>
          (\<exists>b. V h = Some (p, off, len, b)))"

lemma index_okI:
  assumes "\<And>h p off len b. V h = Some (p, off, len, b) \<Longrightarrow> \<exists>ps. G p = Some ps \<and> (h, p, off, len) \<in> set (entries D p 0 ps)"
    and "\<And>p ps h off len. G p = Some ps \<Longrightarrow> (h, p, off, len) \<in> set (entries D p 0 ps) \<Longrightarrow> \<exists>b. V h = Some (p, off, len, b)"
  shows "index_ok D G V"
  unfolding index_ok_def using assms by blast

lemma index_okD:
  assumes "index_ok D G V"
  shows "V h = Some (p, off, len, b) \<Longrightarrow> \<exists>ps. G p = Some ps \<and> (h, p, off, len) \<in> set (entries D p 0 ps)"
    and "G p = Some ps \<Longrightarrow> (h, p, off, len) \<in> set (entries D p 0 ps) \<Longrightarrow> \<exists>b. V h = Some (p, off, len, b)"
  using assms unfolding index_ok_def by blast+

text \<open>The kind of the last record of a hash.\<close>

definition last_kind :: "bytes \<Rightarrow> (tombstone_log_kind \<times> bytes) list \<Rightarrow> tombstone_log_kind option" where
  "last_kind h rs = fold (\<lambda>(k, x) acc. if x = h then Some k else acc) rs None"

definition log_ok :: "(bytes \<rightharpoonup> place) \<Rightarrow> 32 word \<Rightarrow> bytes \<Rightarrow> bool" where
  "log_ok V p c \<longleftrightarrow>
     length c mod RECORD_LEN = 0
     \<and> (\<forall>k h. (k, h) \<in> set (log_records c) \<longrightarrow> (\<exists>off len b. V h = Some (p, off, len, b)))
     \<and> (\<forall>h off len b. V h = Some (p, off, len, b) \<longrightarrow> b = (last_kind h (log_records c) = Some Tombstone))"

definition logs_ok :: "layout \<Rightarrow> (bytes \<rightharpoonup> place) \<Rightarrow> files \<Rightarrow> bool" where
  "logs_ok G V fs \<longleftrightarrow>
     (\<forall>p. log_ok V p (log_content p fs) \<and> (map_of fs (tombstone_log_path p) \<noteq> None \<longrightarrow> G p \<noteq> None))"

lemma logs_ok_files:
  assumes "logs_ok G V fs" "\<And>p. log_content p fs' = log_content p fs"
    and "\<And>p. map_of fs' (tombstone_log_path p) \<noteq> None \<Longrightarrow> G' p \<noteq> None"
  shows "logs_ok G' V fs'"
  using assms by (simp add: logs_ok_def)

lemma logs_okD:
  assumes "logs_ok G V fs"
  shows "log_ok V p (log_content p fs)" "map_of fs (tombstone_log_path p) \<noteq> None \<Longrightarrow> G p \<noteq> None"
  using assms by (simp_all add: logs_ok_def)

definition writer_ok :: "digests \<Rightarrow> layout \<Rightarrow> open_pack \<Rightarrow> bool" where
  "writer_ok D G w \<longleftrightarrow>
     pack_offset w = length (body D (the (G (pack_id w)))) \<and> file_pos w = pack_offset w"

definition layout_ok :: "digests \<Rightarrow> layout \<Rightarrow> pack_store \<Rightarrow> bool" where
  "layout_ok D G s \<longleftrightarrow>
     packs_ok D G (pack_id (writer s)) (packs_dir s) \<and> writer_ok D G (writer s)
     \<and> keyed (conn s) \<and> index_ok D G (view (conn s)) \<and> logs_ok G (view (conn s)) (packs_dir s)"

definition store_ok :: "digests \<Rightarrow> pack_store \<Rightarrow> bool" where
  "store_ok D s \<longleftrightarrow> (\<exists>G. layout_ok D G s)"

text \<open>BLAKE3 hashes have 32 bytes.\<close>

definition hash_ok :: "digests \<Rightarrow> bool" where
  "hash_ok D \<longleftrightarrow> (\<forall>x. length (blob_hash D x) = 32)"

text \<open>There are numbers left for new packs.\<close>

definition room :: "pack_store \<Rightarrow> bool" where
  "room s \<longleftrightarrow> next_pack_id (packs_dir s) \<noteq> -1"

section \<open>What the invariant gives\<close>

lemma packs_okD:
  assumes "packs_ok D G w fs"
  shows "canonical fs" "map_of fs (pack_path_sealed w) = None" "p \<noteq> w \<Longrightarrow> map_of fs (pack_path_open p) = None"
    "G p = Some ps \<Longrightarrow> list_all fits ps" "G w = Some ps \<Longrightarrow> map_of fs (pack_path_open w) = Some (body D ps)"
    "p \<noteq> w \<Longrightarrow> G p = None \<Longrightarrow> map_of fs (pack_path_sealed p) = None"
    "p \<noteq> w \<Longrightarrow> G p = Some ps \<Longrightarrow> \<exists>n. map_of fs (pack_path_sealed p) = Some (body D ps @ tail_bytes D n)"
    "\<exists>ps. G w = Some ps"
proof -
  have c: "case G p of None \<Rightarrow> map_of fs (pack_path_sealed p) = None
      | Some ps \<Rightarrow> \<exists>n. map_of fs (pack_path_sealed p) = Some (body D ps @ tail_bytes D n)" if "p \<noteq> w"
    using assms that unfolding packs_ok_def by blast
  show "p \<noteq> w \<Longrightarrow> G p = None \<Longrightarrow> map_of fs (pack_path_sealed p) = None"
    and "p \<noteq> w \<Longrightarrow> G p = Some ps \<Longrightarrow> \<exists>n. map_of fs (pack_path_sealed p) = Some (body D ps @ tail_bytes D n)"
    using c by simp_all
qed (use assms in \<open>auto simp: packs_ok_def\<close>)

lemma packs_okI:
  assumes "canonical fs" "G w = Some qs" "map_of fs (pack_path_open w) = Some (body D qs)"
    "map_of fs (pack_path_sealed w) = None" "\<And>p. p \<noteq> w \<Longrightarrow> map_of fs (pack_path_open p) = None"
    "\<And>p. p \<noteq> w \<Longrightarrow> G p = None \<Longrightarrow> map_of fs (pack_path_sealed p) = None"
    "\<And>p ps. p \<noteq> w \<Longrightarrow> G p = Some ps \<Longrightarrow> \<exists>n. map_of fs (pack_path_sealed p) = Some (body D ps @ tail_bytes D n)"
    "\<And>p ps. G p = Some ps \<Longrightarrow> list_all fits ps"
  shows "packs_ok D G w fs"
  unfolding packs_ok_def using assms by (auto split: option.split)

text \<open>The file of a pack starts with the frames of its payloads.\<close>

lemma pack_content:
  assumes "packs_ok D G w fs" "G p = Some ps"
  obtains rest where "map_of fs (pack_path_sealed p) = Some (body D ps @ rest) \<or>
    map_of fs (pack_path_sealed p) = None \<and> map_of fs (pack_path_open p) = Some (body D ps @ rest)"
proof (cases "p = w")
  case True
  with assms packs_okD(2,5) [OF assms(1)] that [of "[]"] show thesis by simp
next
  case False
  with packs_okD(7) [OF assms(1) False assms(2)] that show thesis by blast
qed

lemma read_entry:
  assumes "packs_ok D G w fs" "G p = Some ps" "(h, p, off, len) \<in> set (entries D p 0 ps)"
  shows "\<exists>x \<in> set ps. read_frame_payload D fs p off len = Inr x \<and> blob_hash D x = h \<and> length x = len"
proof -
  obtain xs x ys where x: "ps = xs @ x # ys" "off = length (body D xs)" "h = blob_hash D x" "len = length x"
    using entries_split [OF assms(3)] by auto
  obtain rest where "map_of fs (pack_path_sealed p) = Some (body D ps @ rest) \<or>
      map_of fs (pack_path_sealed p) = None \<and> map_of fs (pack_path_open p) = Some (body D ps @ rest)"
    using pack_content [OF assms(1,2)] .
  moreover have "fits x" using packs_okD(4) [OF assms(1,2)] x(1) by simp
  ultimately have "read_frame_payload D fs p off len = Inr x"
    using read_frame [of "body D ps @ rest" D xs x "body D ys @ rest" fs p] x by simp
  with x show ?thesis by auto
qed

lemma view_entry:
  assumes "layout_ok D G s" "view (conn s) h = Some (p, off, len, b)"
  shows "\<exists>ps. G p = Some ps \<and> (h, p, off, len) \<in> set (entries D p 0 ps)"
  using assms unfolding layout_ok_def index_ok_def by blast

lemma view_hash: "layout_ok D G s \<Longrightarrow> view (conn s) h = Some e \<Longrightarrow> \<exists>x. h = blob_hash D x"
proof -
  assume a: "layout_ok D G s" "view (conn s) h = Some e"
  obtain p off len b where "e = (p, off, len, b)" by (cases e) auto
  with view_entry [OF a(1)] a(2) obtain ps where "(h, p, off, len) \<in> set (entries D p 0 ps)" by blast
  then show ?thesis by (auto elim: entries_split)
qed

section \<open>The contents\<close>

text \<open>The abstract store: a map from hashes to the bytes and whether they are live.\<close>

definition contents :: "digests \<Rightarrow> pack_store \<Rightarrow> bytes \<rightharpoonup> bytes \<times> bool" where
  "contents D s h =
     (case view (conn s) h of
        None \<Rightarrow> None
      | Some (p, off, len, dead) \<Rightarrow>
          (case read_frame_payload D (packs_dir s) p off len of
             Inl _ \<Rightarrow> None
           | Inr x \<Rightarrow> Some (x, \<not> dead)))"

lemma contents_view:
  assumes "layout_ok D G s" "view (conn s) h = Some (p, off, len, dead)"
  obtains ps x where "G p = Some ps" "(h, p, off, len) \<in> set (entries D p 0 ps)" "x \<in> set ps"
    "read_frame_payload D (packs_dir s) p off len = Inr x" "blob_hash D x = h" "length x = len"
    "contents D s h = Some (x, \<not> dead)"
proof -
  obtain ps where ps: "G p = Some ps" "(h, p, off, len) \<in> set (entries D p 0 ps)"
    using view_entry [OF assms] by blast
  have "packs_ok D G (pack_id (writer s)) (packs_dir s)" using assms(1) by (simp add: layout_ok_def)
  from read_entry [OF this ps] obtain x where "x \<in> set ps" "read_frame_payload D (packs_dir s) p off len = Inr x"
    "blob_hash D x = h" "length x = len" by blast
  with ps assms(2) that show thesis by (simp add: contents_def)
qed

lemma contents_None: "layout_ok D G s \<Longrightarrow> contents D s h = None \<longleftrightarrow> view (conn s) h = None"
proof (cases "view (conn s) h")
  case (Some e)
  assume "layout_ok D G s"
  moreover obtain p off len b where "e = (p, off, len, b)" by (cases e) auto
  ultimately show ?thesis using Some contents_view by (metis option.distinct(1))
qed (simp add: contents_def)

lemma contents_hash: "store_ok D s \<Longrightarrow> contents D s h = Some (x, live) \<Longrightarrow> blob_hash D x = h"
proof -
  assume "store_ok D s" and c: "contents D s h = Some (x, live)"
  then obtain G where G: "layout_ok D G s" by (auto simp: store_ok_def)
  from c obtain p off len b where v: "view (conn s) h = Some (p, off, len, b)"
    by (auto simp: contents_def split: option.splits)
  from contents_view [OF G v] c show ?thesis by (metis option.inject prod.inject)
qed

text \<open>Two states that agree on the place of a hash and on the bytes there agree on its content.\<close>

lemma select_view: "select_row h t = Some r \<Longrightarrow> view t h = Some (pack_file_id r, row_offset r, row_length r, tombstoned_at r \<noteq> None)"
  by (simp add: view_def row_place_def)

lemma get_contents:
  assumes "store_ok D s"
  shows "get_blob D h s = Inr (case contents D s h of Some (x, True) \<Rightarrow> Some x | _ \<Rightarrow> None)"
proof -
  obtain G where G: "layout_ok D G s" using assms by (auto simp: store_ok_def)
  have four: "replicate MAX_GET_GC_RETRIES x = [x, x, x, x]" for x :: "blob_table \<times> files"
    by (simp add: MAX_GET_GC_RETRIES_def eval_nat_numeral)
  show ?thesis
  proof (cases "select_row h (conn s)")
    case None
    then have "contents D s h = None" by (simp add: contents_def view_def)
    with None show ?thesis by (simp add: get_blob_def four)
  next
    case (Some r)
    note v = select_view [OF Some]
    obtain ps x where x: "read_frame_payload D (packs_dir s) (pack_file_id r) (row_offset r) (row_length r) = Inr x"
      "blob_hash D x = h" "contents D s h = Some (x, \<not> (tombstoned_at r \<noteq> None))"
      using contents_view [OF G v] by metis
    with Some show ?thesis by (cases "tombstoned_at r") (simp_all add: get_blob_def four)
  qed
qed

end
