(* ===== verification/PackWrites.thy ===== *)
theory PackWrites
  imports PackInvariant
begin

text \<open>
  Writing to the attachment store: \<^verbatim>\<open>put\<close> with its rotation, and the tombstones. Each operation keeps
  the invariant and does to the contents what it promises.
\<close>

section \<open>Contents in two states\<close>

lemma contents_kept:
  assumes "layout_ok D G s" "layout_ok D G' s'"
    and "view (conn s) h = Some (p, off, len, b)" "view (conn s') h = Some (p, off, len, b')"
    and "G p = Some ps" "G' p = Some (ps @ zs)"
  shows "contents D s' h = map_option (\<lambda>(x, _). (x, \<not> b')) (contents D s h)"
proof -
  have e: "(h, p, off, len) \<in> set (entries D p 0 ps)" using view_entry [OF assms(1,3)] assms(5) by auto
  then obtain xs x ys where x: "ps = xs @ x # ys" "off = length (body D xs)" "len = length x" "h = blob_hash D x"
    by (auto elim: entries_split)
  have p: "packs_ok D G (pack_id (writer s)) (packs_dir s)" "packs_ok D G' (pack_id (writer s')) (packs_dir s')"
    using assms(1,2) by (simp_all add: layout_ok_def)
  have fx: "fits x" using packs_okD(4) [OF p(1) assms(5)] x(1) by simp
  obtain rest where "map_of (packs_dir s) (pack_path_sealed p) = Some (body D ps @ rest) \<or>
      map_of (packs_dir s) (pack_path_sealed p) = None \<and> map_of (packs_dir s) (pack_path_open p) = Some (body D ps @ rest)"
    using pack_content [OF p(1) assms(5)] .
  then have r: "read_frame_payload D (packs_dir s) p off len = Inr x"
    using read_frame [of "body D ps @ rest" D xs x "body D ys @ rest"] x fx by simp
  obtain rest' where "map_of (packs_dir s') (pack_path_sealed p) = Some (body D (ps @ zs) @ rest') \<or>
      map_of (packs_dir s') (pack_path_sealed p) = None \<and>
      map_of (packs_dir s') (pack_path_open p) = Some (body D (ps @ zs) @ rest')"
    using pack_content [OF p(2) assms(6)] .
  then have r': "read_frame_payload D (packs_dir s') p off len = Inr x"
    using read_frame [of "body D (ps @ zs) @ rest'" D xs x "body D (ys @ zs) @ rest'"] x fx by simp
  from r r' assms(3,4) show ?thesis by (simp add: contents_def)
qed

lemma contents_same:
  assumes "layout_ok D G s" "layout_ok D G' s'" "view (conn s') h = view (conn s) h"
    and "\<And>p ps. G p = Some ps \<Longrightarrow> \<exists>zs. G' p = Some (ps @ zs)"
  shows "contents D s' h = contents D s h"
proof (cases "view (conn s) h")
  case None
  with assms(3) show ?thesis by (simp add: contents_def)
next
  case (Some e)
  obtain p off len b where e: "e = (p, off, len, b)" by (cases e) auto
  with Some view_entry [OF assms(1)] obtain ps where ps: "G p = Some ps" by blast
  obtain zs where "G' p = Some (ps @ zs)" using assms(4) [OF ps] by blast
  from contents_kept [OF assms(1,2) _ _ ps this] Some e assms(3)
  have "contents D s' h = map_option (\<lambda>(x, _). (x, \<not> b)) (contents D s h)" by metis
  moreover have "\<exists>x. contents D s h = Some (x, \<not> b)" using contents_view [OF assms(1)] Some e by metis
  ultimately show ?thesis by auto
qed

section \<open>New packs\<close>

lemma pack_ids:
  assumes "canonical fs"
  shows "p \<in> fst ` set (list_packs fs) \<longleftrightarrow>
    map_of fs (pack_path_sealed p) \<noteq> None \<or> map_of fs (pack_path_open p) \<noteq> None"
proof -
  have "p \<in> fst ` set (list_packs fs) \<longleftrightarrow> (\<exists>b. (p, b) \<in> set (list_packs fs))" by force
  then show ?thesis using list_packs_iff [OF assms] by (simp only: ex_bool_eq)
qed

lemma next_pack_id_Max:
  "next_pack_id fs = (if fst ` set (list_packs fs) = {} then 0
    else let m = Max (fst ` set (list_packs fs)) in if m = -1 then m else m + 1)"
  by (cases "list_packs fs") (simp_all add: next_pack_id_def Let_def)

lemma next_pack_id_cong:
  assumes "fst ` set (list_packs fs) = fst ` set (list_packs fs')"
  shows "next_pack_id fs = next_pack_id fs'"
  unfolding next_pack_id_Max [of fs] next_pack_id_Max [of fs'] assms by simp

lemma next_pack_id_files:
  assumes "canonical fs" "canonical fs'"
    and "\<And>p. map_of fs' (pack_path_sealed p) = map_of fs (pack_path_sealed p)"
    and "\<And>p. map_of fs' (pack_path_open p) = map_of fs (pack_path_open p)"
  shows "next_pack_id fs' = next_pack_id fs"
  by (rule next_pack_id_cong) (rule set_eqI, simp only: pack_ids [OF assms(1)] pack_ids [OF assms(2)] assms(3,4))

lemma packs_ids:
  assumes "packs_ok D G w fs"
  shows "fst ` set (list_packs fs) = dom G"
proof -
  note c = packs_okD [OF assms]
  have "map_of fs (pack_path_sealed p) \<noteq> None \<or> map_of fs (pack_path_open p) \<noteq> None \<longleftrightarrow> G p \<noteq> None" for p
    using c(2,8) c(3,6) [of p] c(5,7) by (cases "p = w"; cases "G p") fastforce+
  then show ?thesis using pack_ids [OF c(1)] by blast
qed

lemma fresh_id:
  assumes "packs_ok D G w fs" "next_pack_id fs \<noteq> -1"
  shows "G (next_pack_id fs) = None" "next_pack_id fs \<noteq> w" "p \<in> dom G \<Longrightarrow> p < next_pack_id fs"
proof -
  have lt: "p < next_pack_id fs" if "p \<in> dom G" for p
    using that next_pack_id_fresh [of p _ fs] assms(2) packs_ids [OF assms(1)] by fastforce
  then show "p \<in> dom G \<Longrightarrow> p < next_pack_id fs" by blast
  show n: "G (next_pack_id fs) = None" using lt by blast
  then show "next_pack_id fs \<noteq> w" using packs_okD(8) [OF assms(1)] by auto
qed

section \<open>Rotation\<close>

lemma frame_count_body:
  "list_all fits ps \<Longrightarrow> \<exists>n. frame_count_in_open_pack (pre @ body D ps) (length (pre @ body D ps)) (length pre) c = Inr n"
proof (induction ps arbitrary: pre c)
  case Nil
  then show ?case by (simp add: frame_count_in_open_pack.simps)
next
  case (Cons x xs)
  have r: "read_exact (pre @ frame D x @ body D xs) (length pre) 16 = Inr (frame_header D x)"
    by (simp add: read_exact_def frame_def)
  have "fits x" using Cons.prems by simp
  then have l: "nat (read_u32_le (drop 4 (frame_header D x))) = length x" by (simp add: header_fields(2))
  obtain n where "frame_count_in_open_pack ((pre @ frame D x) @ body D xs) (length ((pre @ frame D x) @ body D xs))
      (length (pre @ frame D x)) (min (c + 1) 4294967295) = Inr n"
    using Cons.IH [of "pre @ frame D x"] Cons.prems by auto
  then show ?case by (subst frame_count_in_open_pack.simps) (simp add: r l FRAME_HEADER_LEN_def)
qed

lemma write_at_end [simp]: "write_at c (length c) bs = c @ bs"
  by (simp add: write_at_def)

lemma seal_run:
  assumes G: "layout_ok D G s" and ps: "G (pack_id (writer s)) = Some ps"
  shows "\<exists>n. seal_open_pack D s = (Inr (),
    s\<lparr>packs_dir := AList.update (pack_path_sealed (pack_id (writer s))) (body D ps @ tail_bytes D n)
        (AList.delete (pack_path_open (pack_id (writer s))) (packs_dir s)),
      writer := (writer s)\<lparr>file_pos := pack_offset (writer s) + TAIL_LEN\<rparr>\<rparr>)"
proof -
  have p: "packs_ok D G (pack_id (writer s)) (packs_dir s)" and wr: "writer_ok D G (writer s)" using G by (simp_all add: layout_ok_def)
  obtain n where "frame_count_in_open_pack (body D ps) (length (body D ps)) 0 0 = Inr n"
    using frame_count_body [OF packs_okD(4) [OF p ps], of "[]" D 0] by auto
  then show ?thesis using packs_okD(5) [OF p ps] wr ps by (auto simp: seal_open_pack_def writer_ok_def Let_def)
qed

text \<open>The state after a rotation, and its layout.\<close>

lemma rotate_layout:
  assumes G: "layout_ok D G s" and r: "room s"
  defines "new \<equiv> next_pack_id (packs_dir s)"
  shows "\<exists>s'. rotate_pack D s = (Inr (), s') \<and> layout_ok D (G(new \<mapsto> [])) s' \<and> conn s' = conn s \<and> G new = None \<and>
    writer s' = \<lparr>pack_id = new, file_pos = 0, pack_offset = 0\<rparr>"
proof -
  let ?w = "pack_id (writer s)"
  have p: "packs_ok D G ?w (packs_dir s)" using G by (simp add: layout_ok_def)
  obtain ps where ps: "G ?w = Some ps" using packs_okD(8) [OF p] by auto
  note c = packs_okD [OF p]
  have new: "G new = None" "new \<noteq> ?w" using fresh_id [OF p] r by (simp_all add: new_def room_def)
  let ?f1 = "\<lambda>n. AList.update (pack_path_sealed ?w) (body D ps @ tail_bytes D n) (AList.delete (pack_path_open ?w) (packs_dir s))"
  let ?s0 = "\<lambda>n. s\<lparr>packs_dir := ?f1 n, writer := (writer s)\<lparr>file_pos := pack_offset (writer s) + TAIL_LEN\<rparr>\<rparr>"
  obtain n where seal: "seal_open_pack D s = (Inr (), ?s0 n)" using seal_run [OF G ps] by blast
  let ?fs1 = "?f1 n" and ?s1 = "?s0 n"
  have can: "canonical ?fs1" using c(1) by simp
  have "fst ` set (list_packs ?fs1) = fst ` set (list_packs (packs_dir s))"
    by (rule set_eqI, unfold pack_ids [OF can] pack_ids [OF c(1)]) (use c(5) [OF ps] in \<open>simp add: file_simps\<close>)
  then have id1: "next_pack_id ?fs1 = new" unfolding new_def by (rule next_pack_id_cong)
  have no_new: "map_of (packs_dir s) (pack_path_open new) = None" "map_of (packs_dir s) (pack_path_sealed new) = None"
    "map_of (packs_dir s) (tombstone_log_path new) = None"
    using c(3,6) [of new] new G by (auto simp: layout_ok_def logs_ok_def)
  let ?fs2 = "touch_log new (AList.update (pack_path_open new) [] ?fs1)"
  let ?s2 = "?s1\<lparr>packs_dir := ?fs2, writer := \<lparr>pack_id = new, file_pos = 0, pack_offset = 0\<rparr>\<rparr>"
  have rot: "rotate_pack D s = (Inr (), ?s2)"
    using no_new(1) new(2) id1 by (simp add: rotate_pack_def io_bind_def seal create_new_open_pack_def file_simps)
  have fs2: "?fs2 = AList.update (tombstone_log_path new) [] (AList.update (pack_path_open new) [] ?fs1)"
    using no_new(3) by (simp add: touch_log_def file_simps)
  have "packs_ok D (G(new \<mapsto> [])) new ?fs2"
  proof (rule packs_okI [where qs = "[]"])
    show "canonical ?fs2" using c(1) by (simp add: fs2)
    show "\<And>p. p \<noteq> new \<Longrightarrow> map_of ?fs2 (pack_path_open p) = None" unfolding fs2 using c(3) by (simp add: file_simps)
    fix p
    show "p \<noteq> new \<Longrightarrow> (G(new \<mapsto> [])) p = None \<Longrightarrow> map_of ?fs2 (pack_path_sealed p) = None"
      unfolding fs2 using c(6) [of p] ps by (auto simp: file_simps)
    fix qs
    show "p \<noteq> new \<Longrightarrow> (G(new \<mapsto> [])) p = Some qs \<Longrightarrow>
        \<exists>n. map_of ?fs2 (pack_path_sealed p) = Some (body D qs @ tail_bytes D n)"
      unfolding fs2 using c(7) [of p qs] ps by (auto simp: file_simps)
    show "(G(new \<mapsto> [])) p = Some qs \<Longrightarrow> list_all fits qs" using c(4) [of p qs] by (auto split: if_splits)
  qed (use no_new new in \<open>simp_all add: fs2 file_simps\<close>)
  moreover have "index_ok D (G(new \<mapsto> [])) (view (conn s))"
  proof -
    have i: "index_ok D G (view (conn s))" using G by (simp add: layout_ok_def)
    show ?thesis
    proof (rule index_okI)
      fix h p off len b assume "view (conn s) h = Some (p, off, len, b)"
      from index_okD(1) [OF i this] new(1)
      show "\<exists>ps. (G(new \<mapsto> [])) p = Some ps \<and> (h, p, off, len) \<in> set (entries D p 0 ps)" by auto
    next
      fix p ps h off len assume "(G(new \<mapsto> [])) p = Some ps" "(h, p, off, len) \<in> set (entries D p 0 ps)"
      then show "\<exists>b. view (conn s) h = Some (p, off, len, b)" using index_okD(2) [OF i] by (cases "p = new") auto
    qed
  qed
  moreover have "logs_ok (G(new \<mapsto> [])) (view (conn s)) ?fs2"
  proof (rule logs_ok_files)
    show l: "logs_ok G (view (conn s)) (packs_dir s)" using G by (simp add: layout_ok_def)
    fix p
    show "log_content p ?fs2 = log_content p (packs_dir s)"
      unfolding fs2 using no_new(3) by (simp add: log_content_def file_simps)
    show "map_of ?fs2 (tombstone_log_path p) \<noteq> None \<Longrightarrow> (G(new \<mapsto> [])) p \<noteq> None"
      unfolding fs2 using logs_okD(2) [OF l, of p] by (auto simp: file_simps split: if_splits)
  qed
  ultimately have "layout_ok D (G(new \<mapsto> [])) ?s2"
    using G by (simp add: layout_ok_def writer_ok_def)
  with rot new(1) show ?thesis by auto
qed

lemma rotate_ok:
  assumes G: "layout_ok D G s" and "room s"
  shows "\<exists>s' G'. rotate_pack D s = (Inr (), s') \<and> layout_ok D G' s' \<and> conn s' = conn s \<and> contents D s' = contents D s \<and>
    pack_offset (writer s') = 0"
proof -
  let ?new = "next_pack_id (packs_dir s)"
  obtain s1 where s1: "rotate_pack D s = (Inr (), s1)" "layout_ok D (G(?new \<mapsto> [])) s1" "conn s1 = conn s" "G ?new = None"
    "pack_offset (writer s1) = 0"
    using rotate_layout [OF assms] by fastforce
  have "\<exists>zs. (G(?new \<mapsto> [])) p = Some (ps @ zs)" if "G p = Some ps" for p ps
    using that s1(4) by (cases "p = ?new") auto
  then have "contents D s1 h = contents D s h" for h by (intro contents_same [OF G s1(2)]) (simp_all add: s1(3))
  with s1 show ?thesis by blast
qed

section \<open>Logs\<close>

lemma last_kind_append: "last_kind h (rs @ map (Pair k) hs) = (if h \<in> set hs then Some k else last_kind h rs)"
  unfolding last_kind_def by (induction hs rule: rev_induct) auto

lemma last_kind_None: "\<forall>k. (k, h) \<notin> set rs \<Longrightarrow> last_kind h rs = None"
  unfolding last_kind_def by (induction rs rule: rev_induct) auto

lemma log_records_batch:
  assumes "\<forall>h \<in> set hs. length h = 32"
  shows "log_records (concat (map (\<lambda>h. encode_log_record p h k) hs)) = map (Pair k) hs \<and>
    length (concat (map (\<lambda>h. encode_log_record p h k) hs)) mod RECORD_LEN = 0"
  using assms
proof (induction hs)
  case (Cons h hs)
  then have "length (encode_log_record p h k) = RECORD_LEN" by (simp add: length_log_record)
  with Cons show ?case by (simp add: log_records_append log_records_single)
qed simp

text \<open>Appending records of one kind to the log of a pack, while the rows are marked accordingly.\<close>

definition same_places :: "(bytes \<rightharpoonup> place) \<Rightarrow> (bytes \<rightharpoonup> place) \<Rightarrow> bool" where
  "same_places V V' \<longleftrightarrow> (\<forall>h p off len. (\<exists>b. V' h = Some (p, off, len, b)) \<longleftrightarrow> (\<exists>b. V h = Some (p, off, len, b)))"

lemma same_placesD: "same_places V V' \<Longrightarrow> V' h = Some (p, off, len, b) \<Longrightarrow> \<exists>b. V h = Some (p, off, len, b)"
  "same_places V V' \<Longrightarrow> V h = Some (p, off, len, b) \<Longrightarrow> \<exists>b. V' h = Some (p, off, len, b)"
  unfolding same_places_def by blast+

lemma index_ok_same_places: "index_ok D G V \<Longrightarrow> same_places V V' \<Longrightarrow> index_ok D G V'"
  unfolding index_ok_def same_places_def by metis

lemma log_ok_batch:
  assumes ok: "log_ok V p c" and hs: "\<forall>h \<in> set hs. length h = 32 \<and> (\<exists>off len b. V h = Some (p, off, len, b))"
    and same: "same_places V V'"
    and marked: "\<And>h off len b. V' h = Some (p, off, len, b) \<Longrightarrow> h \<in> set hs \<Longrightarrow> b = (k = Tombstone)"
    and kept: "\<And>h off len b. V' h = Some (p, off, len, b) \<Longrightarrow> h \<notin> set hs \<Longrightarrow> V h = Some (p, off, len, b)"
  shows "log_ok V' p (c @ concat (map (\<lambda>h. encode_log_record p h k) hs))"
proof -
  let ?new = "concat (map (\<lambda>h. encode_log_record p h k) hs)"
  have l: "\<forall>h \<in> set hs. length h = 32" using hs by blast
  have c: "length c mod RECORD_LEN = 0" using ok by (simp add: log_ok_def)
  have rec: "log_records (c @ ?new) = log_records c @ map (Pair k) hs"
    using log_records_append [OF c] log_records_batch [OF l] by simp
  have len: "length (c @ ?new) mod RECORD_LEN = 0"
    using c log_records_batch [OF l, of p k] by (simp add: mod_add_eq [symmetric])
  have "\<exists>off len b. V' h = Some (p, off, len, b)" if "(j, h) \<in> set (log_records (c @ ?new))" for j h
  proof -
    have "\<exists>off len b. V h = Some (p, off, len, b)"
      using that ok hs unfolding rec log_ok_def by auto
    then show ?thesis using same_placesD(2) [OF same] by blast
  qed
  moreover have "b = (last_kind h (log_records (c @ ?new)) = Some Tombstone)"
    if v: "V' h = Some (p, off, len, b)" for h off len b
  proof (cases "h \<in> set hs")
    case True
    with marked [OF v] show ?thesis by (simp add: rec last_kind_append)
  next
    case False
    from kept [OF v False] ok have "b = (last_kind h (log_records c) = Some Tombstone)" by (simp add: log_ok_def)
    with False show ?thesis by (simp add: rec last_kind_append)
  qed
  ultimately show ?thesis using len by (simp add: log_ok_def)
qed

lemma packs_ok_files:
  assumes "packs_ok D G w fs" "canonical fs'"
    and "\<And>p. map_of fs' (pack_path_sealed p) = map_of fs (pack_path_sealed p)"
    and "\<And>p. map_of fs' (pack_path_open p) = map_of fs (pack_path_open p)"
  shows "packs_ok D G w fs'"
  unfolding packs_ok_def assms(3,4) using assms(1,2) by (simp add: packs_ok_def)

text \<open>One update of the log of each pack.\<close>

lemma mark_layout:
  assumes G: "layout_ok D G s" and hash: "hash_ok D"
    and fs: "canonical fs'" "\<And>p. map_of fs' (pack_path_sealed p) = map_of (packs_dir s) (pack_path_sealed p)"
      "\<And>p. map_of fs' (pack_path_open p) = map_of (packs_dir s) (pack_path_open p)"
      "\<And>p. log_content p fs' = log_content p (packs_dir s) @ concat (map (\<lambda>h. encode_log_record p h k) (hs p))"
      "\<And>p. map_of fs' (tombstone_log_path p) \<noteq> None \<Longrightarrow> map_of (packs_dir s) (tombstone_log_path p) \<noteq> None \<or> hs p \<noteq> []"
    and hs: "\<And>p h. h \<in> set (hs p) \<Longrightarrow> \<exists>off len b. view (conn s) h = Some (p, off, len, b)"
    and t: "keyed t'" "same_places (view (conn s)) (view t')"
      "\<And>p h off len b. view t' h = Some (p, off, len, b) \<Longrightarrow> h \<in> set (hs p) \<Longrightarrow> b = (k = Tombstone)"
      "\<And>p h off len b. view t' h = Some (p, off, len, b) \<Longrightarrow> h \<notin> set (hs p) \<Longrightarrow> view (conn s) h = Some (p, off, len, b)"
  shows "layout_ok D G (s\<lparr>packs_dir := fs', conn := t'\<rparr>)"
proof -
  have i: "index_ok D G (view (conn s))" and l: "logs_ok G (view (conn s)) (packs_dir s)"
    using G by (simp_all add: layout_ok_def)
  have "logs_ok G (view t') fs'"
    unfolding logs_ok_def
  proof (intro allI conjI impI)
    fix p
    have h32: "\<forall>h \<in> set (hs p). length h = 32 \<and> (\<exists>off len b. view (conn s) h = Some (p, off, len, b))"
    proof
      fix h assume "h \<in> set (hs p)"
      from hs [OF this] obtain off len b where v: "view (conn s) h = Some (p, off, len, b)" by blast
      from view_hash [OF G v] hash v
      show "length h = 32 \<and> (\<exists>off len b. view (conn s) h = Some (p, off, len, b))" by (auto simp: hash_ok_def)
    qed
    show "log_ok (view t') p (log_content p fs')"
      unfolding fs(4) by (rule log_ok_batch [OF logs_okD(1) [OF l] h32 t(2)]) (use t(3,4) in blast)+
    assume "map_of fs' (tombstone_log_path p) \<noteq> None"
    from fs(5) [OF this] show "G p \<noteq> None"
    proof
      assume "hs p \<noteq> []"
      then obtain h where "h \<in> set (hs p)" by (cases "hs p") auto
      from hs [OF this] index_okD(1) [OF i] show ?thesis by fastforce
    qed (rule logs_okD(2) [OF l])
  qed
  moreover have "packs_ok D G (pack_id (writer s)) fs'"
    by (rule packs_ok_files [OF _ fs(1-3)]) (use G in \<open>simp add: layout_ok_def\<close>)
  ultimately show ?thesis
    using G t(1) index_ok_same_places [OF i t(2)] by (simp add: layout_ok_def)
qed

lemma append_record_batch: "append_tombstone_log_record p h k fs = append_tombstone_log_batch p [h] k fs"
  by (simp add: append_tombstone_log_record_def append_tombstone_log_batch_def)

lemma append_batch_files:
  "map_of (append_tombstone_log_batch p hs k fs) (pack_path_sealed q) = map_of fs (pack_path_sealed q)"
  "map_of (append_tombstone_log_batch p hs k fs) (pack_path_open q) = map_of fs (pack_path_open q)"
  "canonical fs \<Longrightarrow> canonical (append_tombstone_log_batch p hs k fs)"
  "log_content q (append_tombstone_log_batch p hs k fs) =
    log_content q fs @ (if q = p then concat (map (\<lambda>h. encode_log_record p h k) hs) else [])"
  "map_of (append_tombstone_log_batch p hs k fs) (tombstone_log_path q) \<noteq> None \<longleftrightarrow>
    map_of fs (tombstone_log_path q) \<noteq> None \<or> q = p \<and> hs \<noteq> []"
  by (auto simp: append_tombstone_log_batch_def log_content_def file_simps)

lemma same_places_mark: "same_places V (mark h b V)"
  by (auto simp: same_places_def mark_def)

text \<open>One hash: revived or tombstoned.\<close>

lemma mark_one_layout:
  assumes "layout_ok D G s" "hash_ok D" "view (conn s) h = Some (p, off, len, b)"
    and "keyed t'" "view t' = mark h (k = Tombstone) (view (conn s))"
  shows "layout_ok D G (s\<lparr>packs_dir := append_tombstone_log_record p h k (packs_dir s), conn := t'\<rparr>)"
proof (rule mark_layout [OF assms(1,2), where hs = "\<lambda>q. if q = p then [h] else []" and k = k])
  have "canonical (packs_dir s)" using assms(1) by (simp add: layout_ok_def packs_ok_def)
  then show "canonical (append_tombstone_log_record p h k (packs_dir s))"
    by (simp add: append_record_batch append_batch_files)
  show "same_places (view (conn s)) (view t')" using assms(5) same_places_mark by simp
  show "map_of (append_tombstone_log_record p h k (packs_dir s)) (tombstone_log_path q) \<noteq> None \<Longrightarrow>
      map_of (packs_dir s) (tombstone_log_path q) \<noteq> None \<or> (if q = p then [h] else []) \<noteq> []" for q
    unfolding append_record_batch append_batch_files(5) by auto
qed (use assms(3-5) in \<open>auto simp: append_record_batch append_batch_files(1-4) mark_def split: if_splits\<close>)

section \<open>Put\<close>

lemma log_ok_add:
  assumes "log_ok V p c" "V h = None"
  shows "log_ok (V(h \<mapsto> (q, off, len, False))) p c"
proof -
  have n: "\<forall>k. (k, h) \<notin> set (log_records c)" using assms unfolding log_ok_def by (metis option.distinct(1))
  then show ?thesis using assms last_kind_None [OF n] by (auto simp: log_ok_def)
qed

lemma put_frame_layout:
  assumes G: "layout_ok D G s" and ps: "G (pack_id (writer s)) = Some ps"
    and new: "view (conn s) (blob_hash D bs) = None" and bs: "fits bs"
  shows "\<exists>s'. put_frame D now NoFault bs (blob_hash D bs) s = (Inr (), s') \<and>
    layout_ok D (G(pack_id (writer s) \<mapsto> ps @ [bs])) s' \<and>
    view (conn s') = (view (conn s))(blob_hash D bs \<mapsto> (pack_id (writer s), length (body D ps), length bs, False))"
proof -
  let ?w = "pack_id (writer s)" and ?h = "blob_hash D bs"
  let ?G = "G(?w \<mapsto> ps @ [bs])"
  have p: "packs_ok D G ?w (packs_dir s)" and w: "writer_ok D G (writer s)" and k: "keyed (conn s)"
    and i: "index_ok D G (view (conn s))" and l: "logs_ok G (view (conn s)) (packs_dir s)"
    using G by (simp_all add: layout_ok_def)
  note c = packs_okD [OF p]
  let ?row = "\<lparr>content_hash = ?h, pack_file_id = ?w, row_offset = length (body D ps), row_length = length bs,
    written_at = now, tombstoned_at = None\<rparr>"
  let ?fs = "AList.update (pack_path_open ?w) (body D ps @ frame D bs) (packs_dir s)"
  let ?V = "(view (conn s))(?h \<mapsto> (?w, length (body D ps), length bs, False))"
  let ?s' = "s\<lparr>packs_dir := ?fs, conn := insert_or_ignore ?row (conn s),
    writer := (writer s)\<lparr>file_pos := length (body D ps @ frame D bs), pack_offset := length (body D ps @ frame D bs)\<rparr>\<rparr>"
  have pos: "file_pos (writer s) = length (body D ps)" "pack_offset (writer s) = length (body D ps)"
    using w ps by (simp_all add: writer_ok_def)
  have run: "put_frame D now NoFault bs ?h s = (Inr (), ?s')"
    using c(5) [OF ps] by (simp add: put_frame_def Let_def pos)
  have v: "view (insert_or_ignore ?row (conn s)) = ?V"
    using view_insert_or_ignore [of "conn s" ?row] new by (simp add: row_place_def)
  have "packs_ok D ?G ?w ?fs"
  proof (rule packs_okI [where qs = "ps @ [bs]"])
    show "canonical ?fs" using c(1) by simp
    fix q
    show "q \<noteq> ?w \<Longrightarrow> ?G q = None \<Longrightarrow> map_of ?fs (pack_path_sealed q) = None" using c(6) by (simp add: file_simps)
    fix qs
    show "q \<noteq> ?w \<Longrightarrow> ?G q = Some qs \<Longrightarrow> \<exists>n. map_of ?fs (pack_path_sealed q) = Some (body D qs @ tail_bytes D n)"
      using c(7) by (simp add: file_simps)
    show "?G q = Some qs \<Longrightarrow> list_all fits qs" using c(4) [of q qs] c(4) [OF ps] bs by (auto split: if_splits)
  qed (use c(2,3) in \<open>simp_all add: file_simps\<close>)
  moreover have "index_ok D ?G ?V"
  proof (rule index_okI)
    fix h q off len b assume "?V h = Some (q, off, len, b)"
    then show "\<exists>qs. ?G q = Some qs \<and> (h, q, off, len) \<in> set (entries D q 0 qs)"
      using index_okD(1) [OF i, of h q off len b] ps by (cases "h = ?h") (auto simp: entries_append)
  next
    fix q qs h off len assume a: "?G q = Some qs" "(h, q, off, len) \<in> set (entries D q 0 qs)"
    show "\<exists>b. ?V h = Some (q, off, len, b)"
    proof (cases "q = ?w \<and> (h, q, off, len) = (?h, ?w, length (body D ps), length bs)")
      case False
      then have "\<exists>qs. G q = Some qs \<and> (h, q, off, len) \<in> set (entries D q 0 qs)"
        using a ps by (cases "q = ?w") (auto simp: entries_append)
      then obtain b where "view (conn s) h = Some (q, off, len, b)" using index_okD(2) [OF i] by blast
      moreover from this new have "h \<noteq> ?h" by auto
      ultimately show ?thesis by auto
    qed auto
  qed
  moreover have "logs_ok ?G ?V ?fs"
    using l log_ok_add [where V = "view (conn s)" and h = ?h] new by (simp add: logs_ok_def log_content_def file_simps)
  ultimately have "layout_ok D ?G ?s'"
    using keyed_insert_or_ignore [OF k] v by (simp add: layout_ok_def writer_ok_def)
  with run v show ?thesis by auto
qed

text \<open>What \<^verbatim>\<open>put\<close> promises: bytes that are there already become live, others are added.\<close>

definition put_spec :: "bytes \<Rightarrow> bytes \<Rightarrow> (bytes \<rightharpoonup> bytes \<times> bool) \<Rightarrow> bytes \<rightharpoonup> bytes \<times> bool" where
  "put_spec h bs C = C(h \<mapsto> (case C h of None \<Rightarrow> bs | Some (x, _) \<Rightarrow> x, True))"

definition tombstone_spec :: "bytes \<Rightarrow> (bytes \<rightharpoonup> bytes \<times> bool) \<Rightarrow> bytes \<rightharpoonup> bytes \<times> bool" where
  "tombstone_spec h C = C(h := map_option (\<lambda>(x, _). (x, False)) (C h))"

lemma classify_view:
  "classify_existing_blob t h =
    (case view t h of None \<Rightarrow> NotPresent | Some (p, off, len, dead) \<Rightarrow> if dead then Tombstoned p else Live)"
  by (auto simp: classify_existing_blob_def view_def row_place_def split: option.splits)

lemma contents_flag:
  assumes "layout_ok D G s" "layout_ok D G s'"
    and "view (conn s') h = map_option (\<lambda>(p, off, len, _). (p, off, len, b)) (view (conn s) h)"
  shows "contents D s' h = map_option (\<lambda>(x, _). (x, \<not> b)) (contents D s h)"
proof (cases "view (conn s) h")
  case None
  with assms(3) show ?thesis by (simp add: contents_def)
next
  case (Some e)
  obtain p off len c where e: "e = (p, off, len, c)" by (cases e) auto
  obtain ps where ps: "G p = Some ps" using view_entry [OF assms(1)] Some e by blast
  have "view (conn s') h = Some (p, off, len, b)" using Some e assms(3) by simp
  from contents_kept [OF assms(1,2) Some [unfolded e] this ps, of "[]"] ps show ?thesis by simp
qed

lemma contents_mark:
  assumes "layout_ok D G s" "layout_ok D G s'" "view (conn s') = mark h b (view (conn s))"
  shows "contents D s' = (contents D s)(h := map_option (\<lambda>(x, _). (x, \<not> b)) (contents D s h))"
proof
  fix k show "contents D s' k = ((contents D s)(h := map_option (\<lambda>(x, _). (x, \<not> b)) (contents D s h))) k"
  proof (cases "k = h")
    case False
    then have "view (conn s') k = view (conn s) k" using assms(3) by simp
    from contents_same [OF assms(1,2) this exI [of _ "[]"]] False show ?thesis by simp
  next
    case True
    have "view (conn s') h = map_option (\<lambda>(p, off, len, _). (p, off, len, b)) (view (conn s) h)"
      using assms(3) by (simp add: mark_def)
    from contents_flag [OF assms(1,2) this] True show ?thesis by simp
  qed
qed

lemma revive_ok:
  assumes "layout_ok D G s" "hash_ok D" "view (conn s) h = Some (p, off, len, b)"
  shows "layout_ok D G (revive p h s)" "contents D (revive p h s) = put_spec h bs (contents D s)"
proof -
  have k: "keyed (conn s)" using assms(1) by (simp add: layout_ok_def)
  show l: "layout_ok D G (revive p h s)"
    unfolding revive_def by (rule mark_one_layout [OF assms]) (use k in \<open>simp_all add: view_update_mark(1) keyed_update\<close>)
  obtain x where "contents D s h = Some (x, \<not> b)" using contents_view [OF assms(1,3)] by metis
  then show "contents D (revive p h s) = put_spec h bs (contents D s)"
    using contents_mark [OF assms(1) l, of h False] by (simp add: revive_def view_update_mark(1) put_spec_def)
qed

lemma put_frame_contents:
  assumes G: "layout_ok D G s" and ps: "G (pack_id (writer s)) = Some ps"
    and new: "view (conn s) (blob_hash D bs) = None" and bs: "fits bs"
    and run: "put_frame D now NoFault bs (blob_hash D bs) s = (Inr (), s')"
  shows "contents D s' = put_spec (blob_hash D bs) bs (contents D s)"
proof
  fix k
  let ?h = "blob_hash D bs" and ?w = "pack_id (writer s)"
  let ?G = "G(?w \<mapsto> ps @ [bs])"
  have L: "layout_ok D ?G s'" and V: "view (conn s') = (view (conn s))(?h \<mapsto> (?w, length (body D ps), length bs, False))"
    using put_frame_layout [OF G ps new bs, of now] run by auto
  show "contents D s' k = put_spec ?h bs (contents D s) k"
  proof (cases "k = ?h")
    case True
    have pk: "packs_ok D ?G (pack_id (writer s')) (packs_dir s')" using L by (simp add: layout_ok_def)
    obtain rest where "map_of (packs_dir s') (pack_path_sealed ?w) = Some (body D (ps @ [bs]) @ rest) \<or>
        map_of (packs_dir s') (pack_path_sealed ?w) = None \<and>
        map_of (packs_dir s') (pack_path_open ?w) = Some (body D (ps @ [bs]) @ rest)"
      using pack_content [OF pk, of ?w "ps @ [bs]"] by auto
    then have "read_frame_payload D (packs_dir s') ?w (length (body D ps)) (length bs) = Inr bs"
      using read_frame [of "body D (ps @ [bs]) @ rest" D ps bs rest] bs by simp
    moreover have "contents D s ?h = None" using new by (simp add: contents_def)
    ultimately show ?thesis using V True by (simp add: contents_def put_spec_def)
  next
    case False
    have "\<exists>zs. ?G p = Some (qs @ zs)" if "G p = Some qs" for p qs using that ps by (cases "p = ?w") auto
    from contents_same [OF G L _ this] False V show ?thesis by (simp add: put_spec_def)
  qed
qed

lemma put_new_ok:
  assumes G: "layout_ok D G s" and new: "view (conn s) (blob_hash D bs) = None" and bs: "fits bs" and r: "room s"
  shows "\<exists>s'. put_write D target now NoFault bs (blob_hash D bs) s = (Inr (), s') \<and> store_ok D s' \<and>
    contents D s' = put_spec (blob_hash D bs) bs (contents D s)"
proof -
  let ?h = "blob_hash D bs"
  let ?rot = "pack_offset (writer s) > 0 \<and> pack_offset (writer s) + (FRAME_HEADER_LEN + length bs) > target"
  obtain s1 G1 where s1: "(if ?rot then rotate_pack D s else (Inr (), s)) = (Inr (), s1)" "layout_ok D G1 s1"
    "conn s1 = conn s" and c1: "contents D s1 = contents D s"
    using rotate_ok [OF G r] G by (cases ?rot) auto
  let ?w = "pack_id (writer s1)"
  obtain ps where ps: "G1 ?w = Some ps" using s1(2) by (auto simp: layout_ok_def packs_ok_def)
  obtain s2 where s2: "put_frame D now NoFault bs ?h s1 = (Inr (), s2)" "layout_ok D (G1(?w \<mapsto> ps @ [bs])) s2"
    "view (conn s2) = (view (conn s1))(?h \<mapsto> (?w, length (body D ps), length bs, False))"
    using put_frame_layout [OF s1(2) ps _ bs] new s1(3) by auto
  have run: "put_write D target now NoFault bs ?h s = (Inr (), s2)"
    using s1(1) s2(1) new by (simp add: put_write_def classify_view io_bind_def)
  have "contents D s2 = put_spec ?h bs (contents D s)"
    using put_frame_contents [OF s1(2) ps _ bs s2(1)] new s1(3) c1 by simp
  with run s2(2) show ?thesis by (auto simp: store_ok_def)
qed

lemma put_ok:
  assumes "store_ok D s" "hash_ok D" "fits bs" "room s"
  shows "\<exists>s'. put D target now NoFault bs s = (Inr (blob_hash D bs), s') \<and> store_ok D s' \<and>
    contents D s' = put_spec (blob_hash D bs) bs (contents D s)"
proof -
  let ?h = "blob_hash D bs"
  obtain G where G: "layout_ok D G s" using assms(1) by (auto simp: store_ok_def)
  have small: "\<not> int (length bs) > MAX_FRAME_PAYLOAD" using assms(3) by (simp add: fits_def)
  show ?thesis
  proof (cases "view (conn s) ?h")
    case None
    then show ?thesis
      using put_new_ok [OF G None assms(3,4), of target now] small
      by (auto simp: put_def classify_view io_bind_def io_return_def Let_def)
  next
    case (Some e)
    obtain p off len dead where e: "e = (p, off, len, dead)" by (cases e) auto
    show ?thesis
    proof (cases dead)
      case True
      with Some e small revive_ok [OF G assms(2), of ?h p off len dead] show ?thesis
        by (auto simp: put_def classify_view Let_def store_ok_def)
    next
      case False
      obtain x where "contents D s ?h = Some (x, True)" using contents_view [OF G] Some e False by metis
      then have "put_spec ?h bs (contents D s) = contents D s" by (auto simp: put_spec_def)
      with Some e small False assms(1) show ?thesis by (auto simp: put_def classify_view Let_def)
    qed
  qed
qed

section \<open>Tombstones\<close>

lemma find_live:
  "find (\<lambda>r. content_hash r = h \<and> tombstoned_at r = None) t = Some r \<Longrightarrow> keyed t \<Longrightarrow>
    view t h = Some (pack_file_id r, row_offset r, row_length r, False)"
proof -
  assume f: "find (\<lambda>r. content_hash r = h \<and> tombstoned_at r = None) t = Some r" and k: "keyed t"
  then have "r \<in> set t" "content_hash r = h" "tombstoned_at r = None" by (auto simp: find_Some_iff)
  with select_row_keyed [OF k] show ?thesis by (auto simp: view_def row_place_def)
qed

lemma tombstone_ok:
  assumes "store_ok D s" "hash_ok D"
  shows "store_ok D (tombstone now h s)" "contents D (tombstone now h s) = tombstone_spec h (contents D s)"
proof -
  obtain G where G: "layout_ok D G s" using assms(1) by (auto simp: store_ok_def)
  then have k: "keyed (conn s)" by (simp add: layout_ok_def)
  have "store_ok D (tombstone now h s) \<and> contents D (tombstone now h s) = tombstone_spec h (contents D s)"
  proof (cases "find (\<lambda>r. content_hash r = h \<and> tombstoned_at r = None) (conn s)")
    case None
    have "contents D s h = tombstone_spec h (contents D s) h"
    proof (cases "contents D s h")
      case (Some y)
      obtain x live where y: "y = (x, live)" by fastforce
      then obtain p off len where v: "view (conn s) h = Some (p, off, len, \<not> live)"
        using Some by (auto simp: contents_def split: option.splits sum.splits)
      then obtain r where "select_row h (conn s) = Some r" "(tombstoned_at r \<noteq> None) = (\<not> live)"
        by (auto simp: view_def row_place_def)
      with None select_row_hash have "\<not> live" by (fastforce simp: find_None_iff)
      with Some y show ?thesis by (simp add: tombstone_spec_def)
    qed (simp add: tombstone_spec_def)
    then have "contents D s = tombstone_spec h (contents D s)" by (auto simp: tombstone_spec_def fun_eq_iff)
    with None assms(1) show ?thesis by (simp add: tombstone_def)
  next
    case (Some r)
    note v = find_live [OF Some k]
    let ?t = "update_rows (\<lambda>r. content_hash r = h \<and> tombstoned_at r = None) (\<lambda>r. r\<lparr>tombstoned_at := Some now\<rparr>) (conn s)"
    have t: "keyed ?t" "view ?t = mark h True (view (conn s))" using k by (simp_all add: keyed_update view_update_mark(2))
    have l: "layout_ok D G (tombstone now h s)"
      unfolding tombstone_def Some option.case
      by (rule mark_one_layout [OF G assms(2) v]) (use t in simp_all)
    have "view (conn (tombstone now h s)) = mark h True (view (conn s))" using Some t(2) by (simp add: tombstone_def)
    from contents_mark [OF G l this] l show ?thesis by (auto simp: store_ok_def tombstone_spec_def)
  qed
  then show "store_ok D (tombstone now h s)" "contents D (tombstone now h s) = tombstone_spec h (contents D s)" by simp_all
qed

end
