(* ===== verification/PackGc.thy ===== *)
theory PackGc
  imports PackWrites
begin

text \<open>
  Garbage collection: the compaction of a sealed pack keeps the invariant, moves the live blobs of
  the pack to a new one and drops the tombstoned ones; nothing else changes.
\<close>

section \<open>The swap of the index\<close>

definition relocate :: "32 word \<Rightarrow> bytes \<times> nat \<Rightarrow> (bytes \<rightharpoonup> place) \<Rightarrow> bytes \<rightharpoonup> place" where
  "relocate dst e V = (case e of (h, off) \<Rightarrow> V(h := map_option (\<lambda>(_, _, len, b). (dst, off, len, b)) (V h)))"

lemma view_relocate:
  "view (update_rows (\<lambda>r. content_hash r = h) (\<lambda>r. r\<lparr>pack_file_id := dst, row_offset := off\<rparr>) t) =
    relocate dst (h, off) (view t)"
  by (rule ext; case_tac "select_row x t";
      force simp: view_def relocate_def select_row_update row_place_def dest: select_row_hash)

lemma relocate_all:
  assumes "distinct (map fst offs)"
  shows "fold (relocate dst) offs V h =
    (case map_of offs h of
       None \<Rightarrow> V h
     | Some off \<Rightarrow> map_option (\<lambda>(_, _, len, b). (dst, off, len, b)) (V h))"
  using assms
proof (induction offs arbitrary: V)
  case (Cons e offs)
  obtain k off where e: "e = (k, off)" by fastforce
  show ?case
  proof (cases "k = h")
    case True
    then have "map_of offs h = None" using Cons.prems e by (simp add: map_of_eq_None_iff)
    with Cons e True show ?thesis by (simp add: relocate_def)
  next
    case False
    then have "relocate dst e V h = V h" using e by (simp add: relocate_def)
    moreover have "map_of (e # offs) h = map_of offs h" using e False by simp
    ultimately show ?thesis using Cons by (cases "map_of offs h") simp_all
  qed
qed simp

lemma view_swap:
  assumes "keyed t" "distinct (map fst offs)"
  shows "keyed (compact_swap src dst offs t)"
    and "view (compact_swap src dst offs t) h =
      (case fold (relocate dst) offs (view t) h of
         None \<Rightarrow> None
       | Some (p, off, len, b) \<Rightarrow> if p = src \<and> b then None else Some (p, off, len, b))"
proof -
  let ?up = "\<lambda>t (h, off). update_rows (\<lambda>r. content_hash r = h) (\<lambda>r. r\<lparr>pack_file_id := dst, row_offset := off\<rparr>) t"
  have kv: "keyed u \<Longrightarrow> keyed (foldl ?up u offs) \<and> view (foldl ?up u offs) = fold (relocate dst) offs (view u)" for u
  proof (induction offs arbitrary: u)
    case (Cons e offs)
    obtain h off where e: "e = (h, off)" by fastforce
    have "keyed (update_rows (\<lambda>r. content_hash r = h) (\<lambda>r. r\<lparr>pack_file_id := dst, row_offset := off\<rparr>) u)"
      using Cons.prems by (simp add: keyed_update)
    from Cons.IH [OF this] show ?case by (simp add: e view_relocate)
  qed simp
  note k = conjunct1 [OF kv [OF assms(1)]] and v = conjunct2 [OF kv [OF assms(1)]]
  show "keyed (compact_swap src dst offs t)" unfolding compact_swap_def by (rule keyed_filter [OF k])
  show "view (compact_swap src dst offs t) h =
      (case fold (relocate dst) offs (view t) h of
         None \<Rightarrow> None
       | Some (p, off, len, b) \<Rightarrow> if p = src \<and> b then None else Some (p, off, len, b))"
    unfolding compact_swap_def v [symmetric] view_def select_row_filter [OF k]
    by (auto simp: row_place_def split: option.splits)
qed

lemma compact_snapshot_set:
  assumes "keyed t"
  shows "(h, off, len) \<in> set (compact_snapshot src t) \<longleftrightarrow> view t h = Some (src, off, len, False)"
proof
  assume "(h, off, len) \<in> set (compact_snapshot src t)"
  then obtain r where "r \<in> set t" "pack_file_id r = src" "tombstoned_at r = None" "content_hash r = h"
    "row_offset r = off" "row_length r = len"
    by (auto simp: compact_snapshot_def)
  with select_row_keyed [OF assms] show "view t h = Some (src, off, len, False)" by (auto simp: view_def row_place_def)
next
  assume "view t h = Some (src, off, len, False)"
  then obtain r where r: "select_row h t = Some r" "row_place r = (src, off, len, False)" by (auto simp: view_def)
  with select_row_hash [OF r(1)] show "(h, off, len) \<in> set (compact_snapshot src t)"
    by (force simp: compact_snapshot_def row_place_def)
qed

lemma compact_snapshot_distinct: "keyed t \<Longrightarrow> distinct (map fst (compact_snapshot src t))"
  by (simp add: keyed_def compact_snapshot_def distinct_map_filter comp_def)

section \<open>Compaction\<close>

lemma log_ok_cong:
  assumes "\<And>h off len b. V' h = Some (p, off, len, b) \<longleftrightarrow> V h = Some (p, off, len, b)"
  shows "log_ok V' p c = log_ok V p c"
  by (simp add: log_ok_def assms)

lemma log_ok_empty: "(\<And>h off len b. V h = Some (p, off, len, b) \<Longrightarrow> \<not> b) \<Longrightarrow> log_ok V p []"
  by (auto simp: log_ok_def last_kind_def)

text \<open>The map after the swap, for the payloads \<open>qs\<close> of the new pack.\<close>

definition moved :: "digests \<Rightarrow> 32 word \<Rightarrow> 32 word \<Rightarrow> bytes list \<Rightarrow> (bytes \<rightharpoonup> place) \<Rightarrow> bytes \<rightharpoonup> place" where
  "moved D src dst qs V h =
     (case V h of
        None \<Rightarrow> None
      | Some (p, off, len, b) \<Rightarrow>
          if p \<noteq> src then Some (p, off, len, b)
          else if b then None
          else map_option (\<lambda>off'. (dst, off', len, False)) (map_of (map (\<lambda>(h, p, off, len). (h, off)) (entries D dst 0 qs)) h))"

lemma entries_map_of:
  assumes "distinct (map (blob_hash D) qs)"
  shows "map_of (map (\<lambda>(h, p, off, len). (h, off)) (entries D dst 0 qs)) h = Some off \<longleftrightarrow>
    (\<exists>len. (h, dst, off, len) \<in> set (entries D dst 0 qs))"
proof -
  let ?m = "map (\<lambda>(h, p, off, len). (h, off)) (entries D dst 0 qs)"
  have "map fst ?m = map fst (entries D dst 0 qs)" by (simp add: case_prod_unfold)
  then have "distinct (map fst ?m)" using assms by (simp only: entries_hashes)
  then have "map_of ?m h = Some off \<longleftrightarrow> (h, off) \<in> set ?m" by (rule map_of_eq_Some_iff)
  also have "\<dots> \<longleftrightarrow> (\<exists>len. (h, dst, off, len) \<in> set (entries D dst 0 qs))"
  proof
    assume "(h, off) \<in> set ?m"
    then obtain p len where "(h, p, off, len) \<in> set (entries D dst 0 qs)" by auto
    moreover from entries_pack [OF this] have "p = dst" .
    ultimately show "\<exists>len. (h, dst, off, len) \<in> set (entries D dst 0 qs)" by auto
  qed force
  finally show ?thesis .
qed

text \<open>The live rows of a pack and the payloads that are copied for them.\<close>

definition copied :: "digests \<Rightarrow> bytes \<Rightarrow> (bytes \<times> nat \<times> nat) list \<Rightarrow> bytes list \<Rightarrow> bool" where
  "copied D content = list_all2 (\<lambda>(h, off, len) x. frame_at D content off x \<and> len = length x \<and> h = blob_hash D x)"

lemma copied_hashes: "copied D content live qs \<Longrightarrow> map (blob_hash D) qs = map fst live"
  unfolding copied_def by (induction live qs rule: list_all2_induct) auto

lemma copied_payload:
  "copied D content live qs \<Longrightarrow> x \<in> set qs \<Longrightarrow> \<exists>off. (blob_hash D x, off, length x) \<in> set live \<and> frame_at D content off x"
  unfolding copied_def by (induction live qs rule: list_all2_induct) auto

lemma copied_live:
  "copied D content live qs \<Longrightarrow> (h, off, len) \<in> set live \<Longrightarrow>
    \<exists>x \<in> set qs. blob_hash D x = h \<and> len = length x \<and> frame_at D content off x"
  unfolding copied_def by (induction live qs rule: list_all2_induct) auto

lemma entries_member: "x \<in> set qs \<Longrightarrow> \<exists>off. (blob_hash D x, p, off, length x) \<in> set (entries D p o1 qs)"
  by (induction qs arbitrary: o1) auto

lemma entries_frame_at: "(h, p, off, len) \<in> set (entries D p 0 ps) \<Longrightarrow>
    \<exists>x \<in> set ps. frame_at D (body D ps @ rest) off x \<and> len = length x \<and> h = blob_hash D x"
proof -
  assume "(h, p, off, len) \<in> set (entries D p 0 ps)"
  then obtain xs x ys where "ps = xs @ x # ys" "off = length (body D xs)" "h = blob_hash D x" "len = length x"
    by (auto elim: entries_split)
  then show ?thesis by (auto simp: frame_at_def intro!: exI [of _ xs])
qed

lemma entries_payload: "(h, p, off, len) \<in> set (entries D p 0 ps) \<Longrightarrow> \<exists>x \<in> set ps. h = blob_hash D x \<and> len = length x"
  using entries_frame_at by blast

lemma read_frame_at:
  assumes "frame_at D content off x" "fits x"
    and "map_of fs (pack_path_sealed p) = Some content"
  shows "read_frame_payload D fs p off (length x) = Inr x"
  using assms read_frame by (fastforce simp: frame_at_def)

text \<open>The run of a compaction, up to the swap of the index and beyond it.\<close>

definition compact_files :: "digests \<Rightarrow> 32 word \<Rightarrow> (32 word \<times> (bytes \<times> nat) list) io" where
  "compact_files D src =
     io_bind compact_create (\<lambda>dst s.
       io_bind (compact_copy D src dst (compact_snapshot src (conn s))) (\<lambda>offs s. (Inr (dst, offs), s)) s)"

lemma compact_pack_files:
  "compact_pack D src = io_bind (compact_files D src) (\<lambda>(dst, offs). compact_finish src dst offs)"
  by (rule ext) (simp add: compact_pack_def compact_files_def io_bind_def split: prod.split sum.split)

lemma compact_run:
  assumes G: "layout_ok D G s" and r: "room s" and src: "src \<noteq> pack_id (writer s)" "G src = Some ps"
  defines "dst \<equiv> next_pack_id (packs_dir s)"
  shows "\<exists>content qs n. map_of (packs_dir s) (pack_path_sealed src) = Some content \<and>
    copied D content (compact_snapshot src (conn s)) qs \<and>
    compact_files D src s = (Inr (dst, map (\<lambda>(h, p, off, len). (h, off)) (entries D dst 0 qs)),
      s\<lparr>packs_dir := AList.update (pack_path_sealed dst) (body D qs @ tail_bytes D n)
          (AList.delete (pack_path_open dst) (AList.update (pack_path_open dst) [] (packs_dir s)))\<rparr>)"
proof -
  let ?live = "compact_snapshot src (conn s)"
  have p: "packs_ok D G (pack_id (writer s)) (packs_dir s)" and k: "keyed (conn s)"
    and i: "index_ok D G (view (conn s))"
    using G by (simp_all add: layout_ok_def)
  note c = packs_okD [OF p]
  have dst: "G dst = None" "dst \<noteq> pack_id (writer s)" using fresh_id [OF p] r by (simp_all add: dst_def room_def)
  obtain m where content: "map_of (packs_dir s) (pack_path_sealed src) = Some (body D ps @ tail_bytes D m)"
    using c(7) [OF src] by blast
  have "\<exists>x. frame_at D (body D ps @ tail_bytes D m) off x \<and> len = length x \<and> h = blob_hash D x"
    if "(h, off, len) \<in> set ?live" for h off len
  proof -
    have "view (conn s) h = Some (src, off, len, False)" using that compact_snapshot_set [OF k] by simp
    then have "(h, src, off, len) \<in> set (entries D src 0 ps)" using index_okD(1) [OF i] src(2) by fastforce
    from entries_frame_at [OF this] show ?thesis by blast
  qed
  from copy_frames_body [OF this, where out = "[]" and acc = "[]" and dst = dst]
  obtain qs where qs: "copy_frames (body D ps @ tail_bytes D m) ?live [] [] =
      (Inr (map (\<lambda>(h, p, off, len). (h, off)) (entries D dst 0 qs)), body D qs)"
    and cp: "copied D (body D ps @ tail_bytes D m) ?live qs"
    by (auto simp: copied_def)
  have ne: "src \<noteq> dst" using dst(1) src(2) by auto
  have no: "map_of (packs_dir s) (pack_path_open dst) = None" using c(3) dst(2) by simp
  show ?thesis
    by (intro exI conjI, rule content, rule cp)
      (use no ne content qs in \<open>simp add: compact_files_def compact_create_def io_bind_def compact_copy_def
        dst_def [symmetric] Let_def file_simps\<close>)
qed

lemma view_moved:
  assumes "keyed t" "index_ok D G (view t)" "G dst = None" "copied D content (compact_snapshot src t) qs" "src \<noteq> dst"
  shows "view (compact_swap src dst (map (\<lambda>(h, p, off, len). (h, off)) (entries D dst 0 qs)) t) = moved D src dst qs (view t)"
proof
  fix h
  let ?offs = "map (\<lambda>(h, p, off, len). (h, off)) (entries D dst 0 qs)"
  have hashes: "map (blob_hash D) qs = map fst (compact_snapshot src t)" using copied_hashes [OF assms(4)] .
  have d: "distinct (map (blob_hash D) qs)" using compact_snapshot_distinct [OF assms(1)] hashes by simp
  have of: "map fst ?offs = map (blob_hash D) qs" by (simp add: case_prod_unfold entries_hashes comp_def)
  with d have od: "distinct (map fst ?offs)" by simp
  have known: "view t h = Some (src, off, len, False)" if m: "map_of ?offs h = Some off'" and v: "view t h = Some (p, off, len, b)" for off' p off len b
  proof -
    obtain l where "(h, dst, off', l) \<in> set (entries D dst 0 qs)" using m entries_map_of [OF d] by blast
    then obtain x where "x \<in> set qs" "h = blob_hash D x" using entries_payload by blast
    then obtain o1 where "view t h = Some (src, o1, length x, False)"
      using copied_payload [OF assms(4)] compact_snapshot_set [OF assms(1)] by blast
    with v show ?thesis by simp
  qed
  show "view (compact_swap src dst ?offs t) h = moved D src dst qs (view t) h"
  proof (cases "view t h")
    case None
    then show ?thesis unfolding view_swap(2) [OF assms(1) od] relocate_all [OF od]
      by (cases "map_of ?offs h") (simp_all add: moved_def)
  next
    case (Some e)
    obtain p off len b where e: "e = (p, off, len, b)" by (cases e) auto
    have some: "map_of ?offs h \<noteq> None" if "p = src" "\<not> b"
    proof -
      have "(h, off, len) \<in> set (compact_snapshot src t)" using Some e that compact_snapshot_set [OF assms(1)] by simp
      then have "h \<in> set (map fst (compact_snapshot src t))" by force
      then have "h \<in> set (map fst ?offs)" by (simp only: of hashes)
      then show ?thesis unfolding map_of_eq_None_iff by (simp only: set_map not_not)
    qed
    show ?thesis
    proof (cases "map_of ?offs h")
      case None
      with some Some e show ?thesis unfolding view_swap(2) [OF assms(1) od] relocate_all [OF od]
        by (auto simp: moved_def)
    next
      case (Some off')
      have v: "view t h = Some (src, off, len, False)" using known [OF Some] \<open>view t h = Some e\<close> e by blast
      with Some assms(5) show ?thesis unfolding view_swap(2) [OF assms(1) od] relocate_all [OF od]
        by (simp add: moved_def)
    qed
  qed
qed

section \<open>The state after a compaction\<close>

definition compaction :: "digests \<Rightarrow> layout \<Rightarrow> pack_store \<Rightarrow> 32 word \<Rightarrow> 32 word \<Rightarrow> bytes \<Rightarrow> bytes list \<Rightarrow> bool" where
  "compaction D G s src dst content qs \<longleftrightarrow>
     layout_ok D G s \<and> src \<noteq> pack_id (writer s) \<and> G src \<noteq> None \<and> G dst = None
     \<and> map_of (packs_dir s) (pack_path_sealed src) = Some content
     \<and> copied D content (compact_snapshot src (conn s)) qs"

definition copied_files :: "digests \<Rightarrow> 32 word \<Rightarrow> bytes list \<Rightarrow> int \<Rightarrow> pack_store \<Rightarrow> pack_store" where
  "copied_files D dst qs n s =
     s\<lparr>packs_dir := AList.update (pack_path_sealed dst) (body D qs @ tail_bytes D n)
         (AList.delete (pack_path_open dst) (AList.update (pack_path_open dst) [] (packs_dir s)))\<rparr>"

definition compacted :: "digests \<Rightarrow> 32 word \<Rightarrow> 32 word \<Rightarrow> bytes list \<Rightarrow> int \<Rightarrow> pack_store \<Rightarrow> pack_store" where
  "compacted D src dst qs n s =
     s\<lparr>conn := compact_swap src dst (map (\<lambda>(h, p, off, len). (h, off)) (entries D dst 0 qs)) (conn s),
       packs_dir := AList.delete (tombstone_log_path src) (AList.delete (pack_path_sealed src)
         (AList.update (pack_path_sealed dst) (body D qs @ tail_bytes D n)
           (AList.delete (pack_path_open dst) (AList.update (pack_path_open dst) [] (packs_dir s)))))\<rparr>"

lemma compactionD:
  assumes "compaction D G s src dst content qs"
  shows "layout_ok D G s" "src \<noteq> pack_id (writer s)" "G src \<noteq> None" "G dst = None" "src \<noteq> dst" "dst \<noteq> pack_id (writer s)"
    "map_of (packs_dir s) (pack_path_sealed src) = Some content" "copied D content (compact_snapshot src (conn s)) qs"
    "packs_ok D G (pack_id (writer s)) (packs_dir s)" "keyed (conn s)" "index_ok D G (view (conn s))"
    "logs_ok G (view (conn s)) (packs_dir s)" "distinct (map (blob_hash D) qs)"
    "view (conn s) h = Some (p, off, len, b) \<Longrightarrow> p \<noteq> dst"
proof -
  show c: "layout_ok D G s" "src \<noteq> pack_id (writer s)" "G src \<noteq> None" "G dst = None"
    "map_of (packs_dir s) (pack_path_sealed src) = Some content" and cp: "copied D content (compact_snapshot src (conn s)) qs"
    using assms by (simp_all add: compaction_def)
  show "src \<noteq> dst" using c(3,4) by auto
  show p: "packs_ok D G (pack_id (writer s)) (packs_dir s)" "logs_ok G (view (conn s)) (packs_dir s)" and k: "keyed (conn s)"
    and i: "index_ok D G (view (conn s))"
    using c(1) by (simp_all add: layout_ok_def)
  show "dst \<noteq> pack_id (writer s)" using packs_okD(8) [OF p(1)] c(4) by auto
  show "distinct (map (blob_hash D) qs)" using compact_snapshot_distinct [OF k] copied_hashes [OF cp] by simp
  show "view (conn s) h = Some (p, off, len, b) \<Longrightarrow> p \<noteq> dst" using index_okD(1) [OF i, of h p off len b] c(4) by auto
qed

lemma compaction_payload:
  assumes c: "compaction D G s src dst content qs" and x: "x \<in> set qs"
  shows "\<exists>off. view (conn s) (blob_hash D x) = Some (src, off, length x, False)" "fits x"
proof -
  note d = compactionD [OF c]
  obtain off where "(blob_hash D x, off, length x) \<in> set (compact_snapshot src (conn s))" using copied_payload [OF d(8) x] by blast
  then have v: "view (conn s) (blob_hash D x) = Some (src, off, length x, False)" using compact_snapshot_set [OF d(10)] by simp
  then show "\<exists>off. view (conn s) (blob_hash D x) = Some (src, off, length x, False)" by blast
  obtain ps where ps: "G src = Some ps" using d(3) by blast
  from index_okD(1) [OF d(11) v] have "(blob_hash D x, src, off, length x) \<in> set (entries D src 0 ps)" using ps by simp
  then obtain y where "y \<in> set ps" "length x = length y" using entries_payload by blast
  then show "fits x" using packs_okD(4) [OF d(9) ps] by (auto simp: list_all_iff fits_def)
qed

lemma compaction_view:
  fixes n :: int
  assumes c: "compaction D G s src dst content qs"
  defines "V' \<equiv> view (conn (compacted D src dst qs n s))"
  shows "V' = moved D src dst qs (view (conn s))" "keyed (conn (compacted D src dst qs n s))"
    "V' h \<noteq> Some (src, off, len, b)"
    "q \<noteq> src \<Longrightarrow> q \<noteq> dst \<Longrightarrow> V' h = Some (q, off, len, b) \<longleftrightarrow> view (conn s) h = Some (q, off, len, b)"
    "V' h = Some (dst, off, len, b) \<longleftrightarrow> \<not> b \<and> (h, dst, off, len) \<in> set (entries D dst 0 qs)"
proof -
  note d = compactionD [OF c]
  let ?V = "view (conn s)" and ?m = "map_of (map (\<lambda>(h, p, off, len). (h, off)) (entries D dst 0 qs))"
  show V': "V' = moved D src dst qs ?V"
    using view_moved [OF d(10,11,4,8,5)] by (simp add: V'_def compacted_def)
  have "map fst (map (\<lambda>(h, p, off, len). (h, off)) (entries D dst 0 qs)) = map (blob_hash D) qs"
    by (simp add: case_prod_unfold entries_hashes comp_def)
  then show "keyed (conn (compacted D src dst qs n s))" using view_swap(1) [OF d(10)] d(13) by (simp add: compacted_def)
  show "V' h \<noteq> Some (src, off, len, b)"
    using d(5) by (auto simp: V' moved_def split: option.splits prod.splits if_splits)
  show "q \<noteq> src \<Longrightarrow> q \<noteq> dst \<Longrightarrow> V' h = Some (q, off, len, b) \<longleftrightarrow> ?V h = Some (q, off, len, b)"
    by (auto simp: V' moved_def split: option.splits prod.splits if_splits)
  have live: "\<exists>o1. ?V h = Some (src, o1, l, False)" if "(h, dst, o2, l) \<in> set (entries D dst 0 qs)" for o2 l
    using entries_payload [OF that] compaction_payload(1) [OF c] by blast
  have m: "?m h = Some off \<longleftrightarrow> (\<exists>l. (h, dst, off, l) \<in> set (entries D dst 0 qs))" by (rule entries_map_of [OF d(13)])
  have "V' h = Some (dst, off, len, b) \<longleftrightarrow> (\<exists>o1. ?V h = Some (src, o1, len, False)) \<and> \<not> b \<and> ?m h = Some off"
    using d(14) [of h] by (auto simp: V' moved_def split: option.splits prod.splits if_splits)
  then show "V' h = Some (dst, off, len, b) \<longleftrightarrow> \<not> b \<and> (h, dst, off, len) \<in> set (entries D dst 0 qs)"
    unfolding m using live by fastforce
qed

lemma compacted_packs:
  assumes c: "compaction D G s src dst content qs"
  shows "packs_ok D (G(src := None, dst \<mapsto> qs)) (pack_id (writer s)) (packs_dir (compacted D src dst qs n s))"
    (is "packs_ok D ?G ?w (packs_dir ?s')")
proof -
  note d = compactionD [OF c] and p = packs_okD [OF compactionD(9) [OF c]]
  obtain ws where ws: "G ?w = Some ws" using p(8) by blast
  show ?thesis
  proof (rule packs_okI [where qs = ws])
    show "canonical (packs_dir ?s')" using p(1) by (simp add: compacted_def)
    show "?G ?w = Some ws" using ws d(2,6) by auto
    show "map_of (packs_dir ?s') (pack_path_open ?w) = Some (body D ws)"
      using p(5) [OF ws] d(6) by (simp add: compacted_def file_simps)
    show "map_of (packs_dir ?s') (pack_path_sealed ?w) = None" using p(2) d(6) by (simp add: compacted_def file_simps)
    fix q
    show "q \<noteq> ?w \<Longrightarrow> map_of (packs_dir ?s') (pack_path_open q) = None" using p(3) [of q] by (simp add: compacted_def file_simps)
    show "q \<noteq> ?w \<Longrightarrow> ?G q = None \<Longrightarrow> map_of (packs_dir ?s') (pack_path_sealed q) = None"
      using p(6) [of q] by (auto simp: compacted_def file_simps split: if_splits)
    fix rs
    show "q \<noteq> ?w \<Longrightarrow> ?G q = Some rs \<Longrightarrow> \<exists>n. map_of (packs_dir ?s') (pack_path_sealed q) = Some (body D rs @ tail_bytes D n)"
      using p(7) [of q rs] d(5) by (auto simp: compacted_def file_simps split: if_splits)
    show "?G q = Some rs \<Longrightarrow> list_all fits rs"
      using p(4) [of q rs] compaction_payload(2) [OF c] by (auto simp: list_all_iff split: if_splits)
  qed
qed

lemma compacted_index:
  assumes c: "compaction D G s src dst content qs"
  shows "index_ok D (G(src := None, dst \<mapsto> qs)) (view (conn (compacted D src dst qs n s)))"
    (is "index_ok D ?G ?V'")
proof (rule index_okI)
  note i = compactionD(11) [OF c] and v = compaction_view(3-5) [OF c, where n = n]
  fix h q off len b
  show "\<exists>rs. ?G q = Some rs \<and> (h, q, off, len) \<in> set (entries D q 0 rs)" if a: "?V' h = Some (q, off, len, b)"
    using a v index_okD(1) [OF i, of h q off len b] by (cases "q = dst"; cases "q = src") auto
  fix rs assume a: "?G q = Some rs" "(h, q, off, len) \<in> set (entries D q 0 rs)"
  show "\<exists>b. ?V' h = Some (q, off, len, b)"
  proof (cases "q = dst")
    case True
    with a v(3) [of h off len False] show ?thesis by auto
  next
    case False
    with a(1) have "q \<noteq> src" "G q = Some rs" by (auto split: if_splits)
    with False a(2) index_okD(2) [OF i] v(2) show ?thesis by blast
  qed
qed

lemma compacted_logs:
  assumes c: "compaction D G s src dst content qs"
  shows "logs_ok (G(src := None, dst \<mapsto> qs)) (view (conn (compacted D src dst qs n s))) (packs_dir (compacted D src dst qs n s))"
    (is "logs_ok ?G ?V' ?fs")
  unfolding logs_ok_def
proof (intro allI conjI impI)
  note d = compactionD [OF c] and l = compactionD(12) [OF c] and v = compaction_view(3-5) [OF c, where n = n]
  fix q
  have dl: "map_of (packs_dir s) (tombstone_log_path dst) = None" using logs_okD(2) [OF l, of dst] d(4) by blast
  show "log_ok ?V' q (log_content q ?fs)"
  proof (cases "q = src \<or> q = dst")
    case True
    then have "log_content q ?fs = []" using dl d(5) by (auto simp: compacted_def log_content_def file_simps)
    moreover have "log_ok ?V' q []" by (rule log_ok_empty) (use True v in blast)
    ultimately show ?thesis by simp
  next
    case False
    then have "log_content q ?fs = log_content q (packs_dir s)" by (simp add: compacted_def log_content_def file_simps)
    moreover have "log_ok ?V' q x = log_ok (view (conn s)) q x" for x by (rule log_ok_cong) (use False v in blast)
    ultimately show ?thesis using logs_okD(1) [OF l] by simp
  qed
  show "map_of ?fs (tombstone_log_path q) \<noteq> None \<Longrightarrow> ?G q \<noteq> None"
    using logs_okD(2) [OF l, of q] dl by (auto simp: compacted_def file_simps split: if_splits)
qed

lemma compacted_layout:
  assumes c: "compaction D G s src dst content qs"
  shows "layout_ok D (G(src := None, dst \<mapsto> qs)) (compacted D src dst qs n s)"
proof -
  note d = compactionD [OF c]
  have w: "writer (compacted D src dst qs n s) = writer s" by (simp add: compacted_def)
  have "writer_ok D (G(src := None, dst \<mapsto> qs)) (writer s)" using d(1,2,6) by (auto simp: layout_ok_def writer_ok_def)
  then show ?thesis
    unfolding layout_ok_def w
    using compacted_packs [OF c] compacted_index [OF c] compacted_logs [OF c] compaction_view(2) [OF c] by blast
qed

text \<open>A live blob of the pack is read from its copy.\<close>

lemma compacted_live:
  assumes c: "compaction D G s src dst content qs" and v: "view (conn s) h = Some (src, off, len, False)"
  shows "contents D (compacted D src dst qs n s) h = contents D s h"
proof -
  note d = compactionD [OF c]
  let ?s' = "compacted D src dst qs n s"
  have "(h, off, len) \<in> set (compact_snapshot src (conn s))" using v compact_snapshot_set [OF d(10)] by simp
  then obtain x where x: "x \<in> set qs" "blob_hash D x = h" "len = length x" "frame_at D content off x"
    using copied_live [OF d(8)] by blast
  have "read_frame_payload D (packs_dir s) src off len = Inr x"
    using read_frame_at [OF x(4) compaction_payload(2) [OF c x(1)] d(7)] x(3) by simp
  then have old: "contents D s h = Some (x, True)" using v by (simp add: contents_def)
  obtain off' where e': "(h, dst, off', len) \<in> set (entries D dst 0 qs)" using entries_member [OF x(1)] x(2,3) by blast
  then have v2: "view (conn ?s') h = Some (dst, off', len, False)" using compaction_view(5) [OF c] by simp
  obtain y where y: "y \<in> set qs" "frame_at D (body D qs @ tail_bytes D n) off' y" "len = length y" "h = blob_hash D y"
    using entries_frame_at [OF e'] by blast
  have "y = x" using d(13) x(1,2) y(1,4) by (simp add: distinct_map inj_on_def)
  moreover have "map_of (packs_dir ?s') (pack_path_sealed dst) = Some (body D qs @ tail_bytes D n)"
    using d(5) by (simp add: compacted_def file_simps)
  ultimately have "read_frame_payload D (packs_dir ?s') dst off' len = Inr x"
    using read_frame_at [OF y(2) compaction_payload(2) [OF c y(1)]] y(3) by simp
  then show ?thesis using old v2 by (simp add: contents_def)
qed

definition dead_in :: "pack_store \<Rightarrow> 32 word \<Rightarrow> bytes \<Rightarrow> bool" where
  "dead_in s p h \<longleftrightarrow> (\<exists>off len. view (conn s) h = Some (p, off, len, True))"

lemma compacted_contents:
  assumes c: "compaction D G s src dst content qs"
  shows "contents D (compacted D src dst qs n s) h = (if dead_in s src h then None else contents D s h)"
proof (cases "view (conn s) h")
  case None
  then show ?thesis by (simp add: contents_def compaction_view(1) [OF c] moved_def dead_in_def)
next
  case (Some e)
  note d = compactionD [OF c]
  obtain q off len b where e: "e = (q, off, len, b)" by (cases e) auto
  consider "q = src" b | "q = src" "\<not> b" | "q \<noteq> src" by blast
  then show ?thesis
  proof cases
    case 1
    then show ?thesis using Some e by (simp add: contents_def compaction_view(1) [OF c] moved_def dead_in_def)
  next
    case 2
    then show ?thesis using compacted_live [OF c] Some e by (simp add: dead_in_def)
  next
    case 3
    have "q \<noteq> dst" using d(14) Some e by blast
    with 3 have "view (conn (compacted D src dst qs n s)) h = Some (q, off, len, b)"
      using compaction_view(4) [OF c] Some e by simp
    moreover obtain rs where rs: "G q = Some rs" using view_entry [OF d(1)] Some e by blast
    ultimately have "contents D (compacted D src dst qs n s) h = map_option (\<lambda>(x, _). (x, \<not> b)) (contents D s h)"
      using contents_kept [OF d(1) compacted_layout [OF c, of n] Some [unfolded e] _ rs, of b "[]"] 3 \<open>q \<noteq> dst\<close> by simp
    moreover obtain x where "contents D s h = Some (x, \<not> b)" using contents_view [OF d(1) Some [unfolded e]] by metis
    ultimately show ?thesis using 3 Some e by (simp add: dead_in_def)
  qed
qed

lemma compact_layout:
  assumes G: "layout_ok D G s" and r: "room s" and src: "src \<noteq> pack_id (writer s)" "G src = Some ps"
  defines "dst \<equiv> next_pack_id (packs_dir s)"
  shows "\<exists>content qs n. compaction D G s src dst content qs \<and>
    compact_files D src s = (Inr (dst, map (\<lambda>(h, p, off, len). (h, off)) (entries D dst 0 qs)), copied_files D dst qs n s) \<and>
    compact_pack D src s = (Inr (), compacted D src dst qs n s)"
proof -
  have "packs_ok D G (pack_id (writer s)) (packs_dir s)" using G by (simp add: layout_ok_def)
  then have "G dst = None" using fresh_id(1) r by (simp add: dst_def room_def)
  moreover obtain content qs n where run: "map_of (packs_dir s) (pack_path_sealed src) = Some content"
    "copied D content (compact_snapshot src (conn s)) qs"
    "compact_files D src s = (Inr (dst, map (\<lambda>(h, p, off, len). (h, off)) (entries D dst 0 qs)), copied_files D dst qs n s)"
    using compact_run [OF G r src] unfolding copied_files_def dst_def by blast
  ultimately have "compaction D G s src dst content qs" using G src by (simp add: compaction_def)
  moreover have "compact_pack D src s = (Inr (), compacted D src dst qs n s)"
    using run(3) by (simp add: compact_pack_files io_bind_def compact_finish_def compacted_def copied_files_def)
  ultimately show ?thesis using run(3) by blast
qed

section \<open>A pass over all packs\<close>

text \<open>The rows of the other packs do not change.\<close>

lemma relocate_rows:
  assumes "dst \<noteq> q" "\<forall>r \<in> set t. content_hash r \<in> fst ` set offs \<longrightarrow> pack_file_id r \<noteq> q"
  shows "filter (\<lambda>r. pack_file_id r = q) (foldl (\<lambda>t (h, offset). update_rows (\<lambda>r. content_hash r = h)
      (\<lambda>r. r\<lparr>pack_file_id := dst, row_offset := offset\<rparr>) t) t offs) = filter (\<lambda>r. pack_file_id r = q) t"
  using assms(2)
proof (induction offs arbitrary: t)
  case (Cons e offs)
  obtain h off where e: "e = (h, off)" by fastforce
  let ?t = "update_rows (\<lambda>r. content_hash r = h) (\<lambda>r. r\<lparr>pack_file_id := dst, row_offset := off\<rparr>) t"
  have "filter (\<lambda>r. pack_file_id r = q) ?t = filter (\<lambda>r. pack_file_id r = q) t"
    using Cons.prems assms(1) by (induction t) (auto simp: e update_rows_def)
  moreover have "\<forall>r \<in> set ?t. content_hash r \<in> fst ` set offs \<longrightarrow> pack_file_id r \<noteq> q"
    using Cons.prems assms(1) by (auto simp: update_rows_def)
  ultimately show ?case using Cons.IH [of ?t] by (simp add: e)
qed simp

lemma compacted_density:
  assumes c: "compaction D G s src dst content qs" and q: "q \<noteq> src" "q \<noteq> dst"
  shows "pack_density (conn (compacted D src dst qs n s)) q = pack_density (conn s) q"
proof -
  note d = compactionD [OF c]
  let ?offs = "map (\<lambda>(h, p, off, len). (h, off)) (entries D dst 0 qs)"
  have "pack_file_id r \<noteq> q" if r: "r \<in> set (conn s)" "content_hash r \<in> fst ` set ?offs" for r
  proof -
    from r(2) obtain p off len where e: "(content_hash r, p, off, len) \<in> set (entries D dst 0 qs)" by auto
    obtain x where "x \<in> set qs" "content_hash r = blob_hash D x"
      using entries_payload [of "content_hash r" dst off len D qs] e entries_pack [OF e] by blast
    then obtain o1 where "view (conn s) (content_hash r) = Some (src, o1, length x, False)"
      using compaction_payload(1) [OF c] by metis
    with select_row_keyed [OF d(10) r(1)] q(1) show ?thesis by (auto simp: view_def row_place_def)
  qed
  then have "filter (\<lambda>r. pack_file_id r = q) (conn (compacted D src dst qs n s)) = filter (\<lambda>r. pack_file_id r = q) (conn s)"
    using relocate_rows [of dst q "conn s" ?offs] q by (auto simp: compacted_def compact_swap_def filter_filter cong: conj_cong
        intro: filter_cong trans [rotated])
  then show ?thesis unfolding pack_density_def by simp
qed

text \<open>Numbers for \<open>k\<close> more packs.\<close>

definition room_for :: "nat \<Rightarrow> pack_store \<Rightarrow> bool" where
  "room_for k s \<longleftrightarrow> uint (next_pack_id (packs_dir s)) + int k < 4294967295"

lemma room_for_room: "room_for k s \<Longrightarrow> room s"
  by (auto simp: room_for_def room_def unsigned_minus_1_eq_mask mask_eq_exp_minus_1)

text \<open>The older packs, but one, are what they were.\<close>

definition same_packs :: "32 word \<Rightarrow> pack_store \<Rightarrow> pack_store \<Rightarrow> bool" where
  "same_packs src s s' \<longleftrightarrow>
     (\<forall>p. p < next_pack_id (packs_dir s) \<longrightarrow> p < next_pack_id (packs_dir s') \<and>
        (p \<noteq> src \<longrightarrow> pack_density (conn s') p = pack_density (conn s) p \<and> (\<forall>h. dead_in s' p h = dead_in s p h)))"

lemma compact_ok:
  assumes "store_ok D s" "room_for (Suc k) s" "src \<noteq> pack_id (writer s)" "r \<in> set (conn s)" "pack_file_id r = src"
  shows "\<exists>s'. compact_pack D src s = (Inr (), s') \<and> store_ok D s' \<and> writer s' = writer s \<and> room_for k s' \<and>
    (\<forall>h. contents D s' h = (if dead_in s src h then None else contents D s h)) \<and>
    (\<forall>h. \<not> dead_in s' src h) \<and> same_packs src s s'"
proof -
  obtain G where G: "layout_ok D G s" using assms(1) by (auto simp: store_ok_def)
  have k: "keyed (conn s)" and p: "packs_ok D G (pack_id (writer s)) (packs_dir s)" using G by (simp_all add: layout_ok_def)
  have "select_row (content_hash r) (conn s) = Some r" using select_row_keyed [OF k assms(4)] .
  then have "view (conn s) (content_hash r) = Some (src, row_offset r, row_length r, tombstoned_at r \<noteq> None)"
    using assms(5) by (simp add: view_def row_place_def)
  then obtain ps where ps: "G src = Some ps" using view_entry [OF G] by blast
  let ?dst = "next_pack_id (packs_dir s)"
  have room: "room s" using assms(2) by (rule room_for_room)
  obtain content qs n where c: "compaction D G s src ?dst content qs"
    and run: "compact_pack D src s = (Inr (), compacted D src ?dst qs n s)" (is "_ = (_, ?s')")
    using compact_layout [OF G room assms(3) ps] by blast
  let ?G = "G(src := None, ?dst \<mapsto> qs)"
  have w: "writer ?s' = writer s" by (simp add: compacted_def)
  have "packs_ok D ?G (pack_id (writer s)) (packs_dir ?s')" by (rule compacted_packs [OF c])
  from packs_ids [OF this] have ids: "fst ` set (list_packs (packs_dir ?s')) = dom ?G" .
  have "finite (dom ?G)" unfolding ids [symmetric] by simp
  moreover have "q \<le> ?dst" if "q \<in> dom ?G" for q
  proof (cases "q = ?dst")
    case False
    with that have "q \<in> dom G" by (auto split: if_splits)
    from fresh_id(3) [OF p _ this] room show ?thesis by (simp add: room_def)
  qed simp
  moreover have "?dst \<in> dom ?G" by simp
  ultimately have "Max (dom ?G) = ?dst" by (intro Max_eqI) auto
  moreover have "?dst \<noteq> -1" using room by (simp add: room_def)
  moreover have "dom ?G \<noteq> {}" by simp
  ultimately have next_id: "next_pack_id (packs_dir ?s') = ?dst + 1"
    unfolding next_pack_id_Max [of "packs_dir ?s'"] ids by (simp add: Let_def)
  have "uint ?dst + 1 < 4294967296" using assms(2) by (simp add: room_for_def)
  then have up: "uint (?dst + 1) = uint ?dst + 1" by (simp add: uint_word_ariths)
  have "room_for k ?s'" using assms(2) up by (simp add: room_for_def next_id)
  moreover have "store_ok D ?s'" using compacted_layout [OF c] by (auto simp: store_ok_def)
  moreover have "same_packs src s ?s'"
    unfolding same_packs_def next_id
  proof (intro allI impI conjI)
    fix q assume q: "q < ?dst"
    then show "q < ?dst + 1" using up by (simp add: word_less_def)
    assume "q \<noteq> src"
    moreover have "q \<noteq> ?dst" using q by blast
    ultimately show "pack_density (conn ?s') q = pack_density (conn s) q" "dead_in ?s' q h = dead_in s q h" for h
      using compacted_density [OF c] compaction_view(4) [OF c] by (simp_all add: dead_in_def)
  qed
  moreover have "\<not> dead_in ?s' src h" for h using compaction_view(3) [OF c] by (simp add: dead_in_def)
  ultimately show ?thesis using run w compacted_contents [OF c] by blast
qed

text \<open>The blobs that a pass drops: tombstoned ones in the packs that it compacts.\<close>

definition sparse_pack :: "(nat \<Rightarrow> nat \<Rightarrow> bool) \<Rightarrow> pack_store \<Rightarrow> 32 word \<Rightarrow> bool" where
  "sparse_pack sparse s p \<longleftrightarrow> (case pack_density (conn s) p of (rows, dead, _) \<Rightarrow> rows \<noteq> 0 \<and> sparse dead rows)"

definition garbage :: "(nat \<Rightarrow> nat \<Rightarrow> bool) \<Rightarrow> 32 word set \<Rightarrow> pack_store \<Rightarrow> bytes \<Rightarrow> bool" where
  "garbage sparse P s h \<longleftrightarrow> (\<exists>p \<in> P. dead_in s p h \<and> sparse_pack sparse s p)"

lemma garbage_compacted:
  assumes "same_packs p s s'" "\<And>h. \<not> dead_in s' p h" "\<And>q. q \<in> P \<Longrightarrow> q < next_pack_id (packs_dir s)" "sparse_pack sparse s p"
  shows "garbage sparse (insert p P) s h \<longleftrightarrow> dead_in s p h \<or> garbage sparse P s' h"
proof -
  have "dead_in s' q h \<and> sparse_pack sparse s' q \<longleftrightarrow> q \<noteq> p \<and> dead_in s q h \<and> sparse_pack sparse s q" if "q \<in> P" for q
    using assms(1,2) assms(3) [OF that] by (cases "q = p") (simp_all add: same_packs_def sparse_pack_def)
  then show ?thesis using assms(4) unfolding garbage_def by blast
qed

definition sealed_ids :: "(32 word \<times> bool) list \<Rightarrow> 32 word set" where
  "sealed_ids packs = {p. (p, True) \<in> set packs}"

lemma gc_packs_ok:
  assumes "store_ok D s" "room_for (length packs) s" "pack_id (writer s) \<notin> sealed_ids packs"
    and "\<forall>p \<in> sealed_ids packs. p < next_pack_id (packs_dir s)"
  shows "\<exists>st s'. gc_packs D sparse packs stats s = (Inr st, s') \<and> store_ok D s' \<and> writer s' = writer s \<and>
    (\<forall>h. contents D s' h = (if garbage sparse (sealed_ids packs) s h then None else contents D s h))"
  using assms
proof (induction packs arbitrary: stats s)
  case Nil
  then show ?case by (simp add: garbage_def sealed_ids_def)
next
  case (Cons e packs)
  obtain p sealed where e: "e = (p, sealed)" by fastforce
  obtain n dead db where d: "pack_density (conn s) p = (n, dead, db)" by (metis prod_cases3)
  have weak: "room_for (length packs) s" using Cons.prems(2) by (simp add: room_for_def)
  have ids: "sealed_ids (e # packs) = (if sealed then insert p (sealed_ids packs) else sealed_ids packs)"
    by (auto simp: sealed_ids_def e)
  show ?case
  proof (cases "sealed \<and> sparse_pack sparse s p")
    case False
    then have "gc_packs D sparse (e # packs) stats s = gc_packs D sparse packs stats s" using e d by (auto simp: sparse_pack_def)
    moreover have "garbage sparse (sealed_ids (e # packs)) s h = garbage sparse (sealed_ids packs) s h" for h
      using False by (auto simp: garbage_def ids)
    moreover have "pack_id (writer s) \<notin> sealed_ids packs" "\<forall>p \<in> sealed_ids packs. p < next_pack_id (packs_dir s)"
      using Cons.prems(3,4) by (auto simp: ids split: if_splits)
    ultimately show ?thesis using Cons.IH [OF Cons.prems(1) weak, of stats] by simp
  next
    case True
    then have sp: "sparse_pack sparse s p" and sealed by simp_all
    then have n: "n \<noteq> 0" "sparse dead n" using d by (simp_all add: sparse_pack_def)
    then have "filter (\<lambda>r. pack_file_id r = p) (conn s) \<noteq> []" using d by (auto simp: pack_density_def Let_def)
    then obtain r where r: "r \<in> set (conn s)" "pack_file_id r = p" by (auto simp: filter_empty_conv)
    have "p \<noteq> pack_id (writer s)" using Cons.prems(3) \<open>sealed\<close> by (auto simp: ids)
    then obtain s1 where s1: "compact_pack D p s = (Inr (), s1)" "store_ok D s1" "writer s1 = writer s" "room_for (length packs) s1"
      "\<And>h. contents D s1 h = (if dead_in s p h then None else contents D s h)" "\<And>h. \<not> dead_in s1 p h" "same_packs p s s1"
      using compact_ok [OF Cons.prems(1) _ _ r, of "length packs"] Cons.prems(2) by auto
    have old: "q < next_pack_id (packs_dir s)" if "q \<in> sealed_ids packs" for q
      using that Cons.prems(4) \<open>sealed\<close> by (simp add: ids)
    have "\<forall>q \<in> sealed_ids packs. q < next_pack_id (packs_dir s1)" using old s1(7) unfolding same_packs_def by blast
    then obtain st s2 where s2:
      "gc_packs D sparse packs \<lparr>packs_compacted = packs_compacted stats + 1, blobs_dropped = blobs_dropped stats + dead,
         bytes_reclaimed = bytes_reclaimed stats + db\<rparr> s1 = (Inr st, s2)"
      "store_ok D s2" "writer s2 = writer s1"
      "\<And>h. contents D s2 h = (if garbage sparse (sealed_ids packs) s1 h then None else contents D s1 h)"
      using Cons.IH [OF s1(2,4)] s1(3) Cons.prems(3) \<open>sealed\<close> by (fastforce simp: ids)
    have "gc_packs D sparse (e # packs) stats s = (Inr st, s2)"
      using \<open>sealed\<close> n d s1(1) s2(1) by (simp add: e io_bind_def)
    moreover have "contents D s2 h = (if garbage sparse (sealed_ids (e # packs)) s h then None else contents D s h)" for h
      using garbage_compacted [OF s1(7,6) old sp, where h = h] \<open>sealed\<close> by (simp add: ids s1(5) s2(4))
    ultimately show ?thesis using s2(2,3) s1(3) by simp
  qed
qed

lemma run_gc_ok:
  assumes "store_ok D s" "room_for (length (list_packs (packs_dir s))) s"
  shows "\<exists>st s'. run_gc D sparse s = (Inr st, s') \<and> store_ok D s' \<and> writer s' = writer s \<and>
    (\<forall>h. contents D s' h = (if garbage sparse (sealed_ids (list_packs (packs_dir s))) s h then None else contents D s h))"
proof -
  obtain G where "layout_ok D G s" using assms(1) by (auto simp: store_ok_def)
  then have "packs_ok D G (pack_id (writer s)) (packs_dir s)" by (simp add: layout_ok_def)
  then have "pack_id (writer s) \<notin> sealed_ids (list_packs (packs_dir s))"
    using list_packs_iff(1) packs_okD(1,2) unfolding sealed_ids_def by blast
  moreover have "\<forall>p \<in> sealed_ids (list_packs (packs_dir s)). p < next_pack_id (packs_dir s)"
    using next_pack_id_fresh room_for_room [OF assms(2)] unfolding sealed_ids_def room_def by blast
  ultimately show ?thesis using gc_packs_ok [OF assms] unfolding run_gc_def by blast
qed

end
