(* ===== verification/PackRecovery.thy ===== *)
theory PackRecovery
  imports PackGc
begin

text \<open>
  Crashes and lost tables: opening the store truncates what a crash left behind the last whole frame
  and indexes frames whose row was not inserted; rebuilding restores the rows of all sealed packs.
\<close>

section \<open>Opening\<close>

definition opens :: "files \<Rightarrow> 32 word list" where
  "opens fs = map fst (filter (\<lambda>(p, sealed). \<not> sealed) (list_packs fs))"

lemma opens_iff: "p \<in> set (opens fs) \<longleftrightarrow> (p, False) \<in> set (list_packs fs)"
  unfolding opens_def by force

lemma open_packs:
  assumes "packs_ok D G w fs" "canonical fs'"
    and "\<And>p. map_of fs' (pack_path_open p) \<noteq> None \<longleftrightarrow> map_of fs (pack_path_open p) \<noteq> None"
  shows "set (opens fs') = {w}"
proof -
  have "(p, False) \<in> set (list_packs fs') \<longleftrightarrow> p = w" for p
    using list_packs_iff(2) [OF assms(2), of p] assms(3) [of p] packs_okD(3,5,8) [OF assms(1)] by fastforce
  then show ?thesis unfolding set_eq_iff opens_iff by simp
qed

lemma recover_opens:
  assumes "set (opens (packs_dir s)) = insert w A" "\<And>p. p \<in> A \<Longrightarrow> w \<le> p"
    and "fold remove_stale (filter (\<lambda>p. p \<noteq> w) (opens (packs_dir s))) (packs_dir s) = fs"
  shows "recover_and_open_current_pack D now s =
    io_bind (recover_open_pack D now w) (\<lambda>_. open_existing_open_pack w) (s\<lparr>packs_dir := fs\<rparr>)"
proof -
  have min: "Min (set (opens (packs_dir s))) = w" using assms(1,2) by (intro Min_eqI) auto
  obtain q qs where o: "opens (packs_dir s) = q # qs" using assms(1) by (cases "opens (packs_dir s)") auto
  show ?thesis using min assms(3) unfolding recover_and_open_current_pack_def opens_def [symmetric] o list.case Let_def by simp
qed

lemma recover_one:
  assumes "set (opens (packs_dir s)) = {w}"
  shows "recover_and_open_current_pack D now s = io_bind (recover_open_pack D now w) (\<lambda>_. open_existing_open_pack w) s"
proof -
  have "filter (\<lambda>p. p \<noteq> w) (opens (packs_dir s)) = []" using assms by (simp add: filter_empty_conv)
  then show ?thesis using recover_opens [OF assms, of "packs_dir s" D now] by simp
qed

text \<open>Opening a directory whose open pack has junk behind its frames, with any table.\<close>

lemma recover_run:
  assumes o: "set (opens (packs_dir s)) = {w}" and ws: "list_all fits ws"
    and f: "map_of (packs_dir s) (pack_path_open w) = Some (body D ws @ junk)"
    and junk: "whole_frame D (body D ws @ junk) (length (body D ws)) = None" and k: "keyed (conn s)"
  shows "\<exists>t. recover_and_open_current_pack D now s = (Inr (),
      s\<lparr>packs_dir := touch_log w (AList.update (pack_path_open w) (body D ws) (packs_dir s)), conn := t,
        writer := \<lparr>pack_id = w, file_pos = length (body D ws), pack_offset = length (body D ws)\<rparr>\<rparr>) \<and>
    keyed t \<and> view t = fold index_place (entries D w 0 ws) (view (conn s))"
proof -
  let ?t = "index_all D now w 0 ws (conn s)"
  have walk: "walk_frames D now w (body D ws @ junk) 0 (conn s) 0 = (?t, length ws, length (body D ws))"
    using walk_frames_body [OF ws, of D "[]" junk now w "conn s" 0] junk by simp
  have rec: "recover_open_pack D now w s =
      (Inr (), s\<lparr>packs_dir := AList.update (pack_path_open w) (body D ws) (packs_dir s), conn := ?t\<rparr>)"
    by (simp add: recover_open_pack_def f walk)
  have "recover_and_open_current_pack D now s =
      io_bind (recover_open_pack D now w) (\<lambda>_. open_existing_open_pack w) s"
    by (rule recover_one [OF o])
  also have "\<dots> = (Inr (), s\<lparr>packs_dir := touch_log w (AList.update (pack_path_open w) (body D ws) (packs_dir s)), conn := ?t,
        writer := \<lparr>pack_id = w, file_pos = length (body D ws), pack_offset = length (body D ws)\<rparr>\<rparr>)"
    by (simp add: io_bind_def rec open_existing_open_pack_def file_simps)
  finally show ?thesis using keyed_index_all [OF k] view_index_all by blast
qed

lemma touch_log_files:
  "map_of (touch_log p fs) (pack_path_sealed q) = map_of fs (pack_path_sealed q)"
  "map_of (touch_log p fs) (pack_path_open q) = map_of fs (pack_path_open q)"
  "canonical fs \<Longrightarrow> canonical (touch_log p fs)"
  "log_content q (touch_log p fs) = log_content q fs"
  "map_of (touch_log p fs) (tombstone_log_path q) \<noteq> None \<longleftrightarrow> map_of fs (tombstone_log_path q) \<noteq> None \<or> q = p"
  by (auto simp: touch_log_def log_content_def file_simps split: option.splits)

lemma touch_log_ok:
  "packs_ok D G w fs \<Longrightarrow> packs_ok D G w (touch_log p fs)"
  "logs_ok G V fs \<Longrightarrow> G p \<noteq> None \<Longrightarrow> logs_ok G V (touch_log p fs)"
proof -
  show "packs_ok D G w (touch_log p fs)" if "packs_ok D G w fs"
    by (rule packs_ok_files [OF that]) (use packs_okD(1) [OF that] in \<open>simp_all add: touch_log_files\<close>)
  show "logs_ok G V (touch_log p fs)" if l: "logs_ok G V fs" and "G p \<noteq> None"
  proof (rule logs_ok_files [OF l])
    show "map_of (touch_log p fs) (tombstone_log_path q) \<noteq> None \<Longrightarrow> G q \<noteq> None" for q
      unfolding touch_log_files using logs_okD(2) [OF l, of q] that(2) by auto
  qed (simp add: touch_log_files)
qed

text \<open>A table that the walk over the open pack completes to the one of a sound state.\<close>

lemma recover_layout:
  assumes G: "layout_ok D G s" and ws: "G (pack_id (writer s)) = Some ws"
    and junk: "whole_frame D (body D ws @ junk) (length (body D ws)) = None"
    and k: "keyed t0" and v: "fold index_place (entries D (pack_id (writer s)) 0 ws) (view t0) = view (conn s)"
  shows "\<exists>s'. recover_and_open_current_pack D now
      \<lparr>packs_dir = AList.update (pack_path_open (pack_id (writer s))) (body D ws @ junk) (packs_dir s), conn = t0, writer = wr\<rparr>
      = (Inr (), s') \<and> layout_ok D G s' \<and> contents D s' = contents D s"
proof -
  let ?w = "pack_id (writer s)"
  let ?s0 = "\<lparr>packs_dir = AList.update (pack_path_open ?w) (body D ws @ junk) (packs_dir s), conn = t0, writer = wr\<rparr>"
  have p: "packs_ok D G ?w (packs_dir s)" and l: "logs_ok G (view (conn s)) (packs_dir s)" and i: "index_ok D G (view (conn s))"
    using G by (simp_all add: layout_ok_def)
  have same: "AList.update (pack_path_open ?w) (body D ws) (packs_dir ?s0) = packs_dir s"
    using packs_okD(5) [OF p ws] by (simp add: update_triv)
  have o: "set (opens (packs_dir ?s0)) = {?w}"
    by (rule open_packs [OF p]) (use packs_okD(1) [OF p] packs_okD(5) [OF p ws] in \<open>auto simp: file_simps\<close>)
  let ?fs = "touch_log ?w (packs_dir s)"
  obtain t where run: "recover_and_open_current_pack D now ?s0 = (Inr (), ?s0\<lparr>packs_dir := ?fs, conn := t,
      writer := \<lparr>pack_id = ?w, file_pos = length (body D ws), pack_offset = length (body D ws)\<rparr>\<rparr>)"
    and t: "keyed t" "view t = view (conn s)"
    using recover_run [OF o packs_okD(4) [OF p ws] _ junk, of now] k v same by (auto simp: file_simps)
  have "packs_ok D G ?w ?fs" "logs_ok G (view (conn s)) ?fs"
    using p l ws by (simp_all add: touch_log_ok)
  then have L: "layout_ok D G (?s0\<lparr>packs_dir := ?fs, conn := t,
      writer := \<lparr>pack_id = ?w, file_pos = length (body D ws), pack_offset = length (body D ws)\<rparr>\<rparr>)" (is "layout_ok D G ?s'")
    using t i ws by (simp add: layout_ok_def writer_ok_def)
  moreover have "contents D ?s' = contents D s"
  proof
    fix h show "contents D ?s' h = contents D s h"
      by (rule contents_same [OF G L _ exI [of _ "[]"]]) (simp_all add: t(2))
  qed
  ultimately show ?thesis using run by auto
qed

lemma known_entries:
  assumes "index_ok D G V" "G p = Some ps"
  shows "fold index_place (entries D p 0 ps) V = V"
proof (rule index_all_known)
  fix h q off len assume a: "(h, q, off, len) \<in> set (entries D p 0 ps)"
  then have "q = p" by (rule entries_pack)
  with a index_okD(2) [OF assms(1,2)] show "\<exists>b. V h = Some (q, off, len, b)" by simp
qed

section \<open>Crashes\<close>

text \<open>What a crash leaves of a store: the files and the table of a moment, with a writer of no meaning.
  The moments of \<^verbatim>\<open>put\<close>: some bytes of the frame are written, or all are and the row is missing; of
  a rotation: some bytes of the tail are written.\<close>

datatype crash_point = TornFrame nat bytes | NoRow bytes | TornTail nat int

definition crashed :: "digests \<Rightarrow> crash_point \<Rightarrow> open_pack \<Rightarrow> pack_store \<Rightarrow> pack_store" where
  "crashed D cp wr s =
     (let path = pack_path_open (pack_id (writer s));
          out = (case cp of
                   TornFrame k bs \<Rightarrow> take k (frame D bs)
                 | NoRow bs \<Rightarrow> frame D bs
                 | TornTail k n \<Rightarrow> take k (tail_bytes D n));
          content = (case map_of (packs_dir s) path of Some c \<Rightarrow> c | None \<Rightarrow> [])
      in \<lparr>packs_dir = AList.update path (content @ out) (packs_dir s), conn = conn s, writer = wr\<rparr>)"

text \<open>The points that can occur: a part of a frame is not all of it, and a frame is written only for
  bytes that are not stored yet.\<close>

definition crash_ok :: "digests \<Rightarrow> crash_point \<Rightarrow> pack_store \<Rightarrow> bool" where
  "crash_ok D cp s =
     (case cp of
        TornFrame k bs \<Rightarrow> fits bs \<and> k < length (frame D bs)
      | NoRow bs \<Rightarrow> fits bs \<and> select_row (blob_hash D bs) (conn s) = None
      | TornTail k n \<Rightarrow> True)"

definition crash_spec :: "digests \<Rightarrow> crash_point \<Rightarrow> (bytes \<rightharpoonup> bytes \<times> bool) \<Rightarrow> bytes \<rightharpoonup> bytes \<times> bool" where
  "crash_spec D cp C = (case cp of NoRow bs \<Rightarrow> put_spec (blob_hash D bs) bs C | _ \<Rightarrow> C)"

lemma recover_torn:
  assumes "store_ok D s" and cp: "crash_ok D cp s" and torn: "\<And>bs. cp \<noteq> NoRow bs"
  shows "\<exists>s'. recover_and_open_current_pack D now (crashed D cp wr s) = (Inr (), s') \<and> store_ok D s' \<and>
    contents D s' = contents D s"
proof -
  obtain G where G: "layout_ok D G s" using assms(1) by (auto simp: store_ok_def)
  let ?w = "pack_id (writer s)"
  have p: "packs_ok D G ?w (packs_dir s)" and i: "index_ok D G (view (conn s))" and k: "keyed (conn s)"
    using G by (simp_all add: layout_ok_def)
  obtain ws where ws: "G ?w = Some ws" using packs_okD(8) [OF p] by blast
  obtain junk where junk: "whole_frame D (body D ws @ junk) (length (body D ws)) = None"
    "crashed D cp wr s = \<lparr>packs_dir = AList.update (pack_path_open ?w) (body D ws @ junk) (packs_dir s), conn = conn s, writer = wr\<rparr>"
  proof (cases cp)
    case (TornFrame k bs)
    with cp have "whole_frame D (body D ws @ take k (frame D bs)) (length (body D ws)) = None"
      by (intro whole_frame_torn) (simp_all add: crash_ok_def)
    with TornFrame packs_okD(5) [OF p ws] show thesis
      by (intro that [of "take k (frame D bs)"]) (simp_all add: crashed_def)
  next
    case (TornTail k n)
    have "whole_frame D (body D ws @ take k (tail_bytes D n)) (length (body D ws)) = None"
      by (rule whole_frame_short) simp
    with TornTail packs_okD(5) [OF p ws] show thesis
      by (intro that [of "take k (tail_bytes D n)"]) (simp_all add: crashed_def)
  qed (use torn in blast)
  from recover_layout [OF G ws junk(1) k known_entries [OF i ws], of now wr]
  show ?thesis unfolding junk(2) store_ok_def by blast
qed

lemma recover_no_row:
  assumes "store_ok D s" and bs: "fits bs" "select_row (blob_hash D bs) (conn s) = None"
  shows "\<exists>s'. recover_and_open_current_pack D now (crashed D (NoRow bs) wr s) = (Inr (), s') \<and> store_ok D s' \<and>
    contents D s' = put_spec (blob_hash D bs) bs (contents D s)"
proof -
  obtain G where G: "layout_ok D G s" using assms(1) by (auto simp: store_ok_def)
  let ?w = "pack_id (writer s)" and ?h = "blob_hash D bs"
  have p: "packs_ok D G ?w (packs_dir s)" and i: "index_ok D G (view (conn s))" and k: "keyed (conn s)"
    and w: "writer_ok D G (writer s)"
    using G by (simp_all add: layout_ok_def)
  obtain ws where ws: "G ?w = Some ws" using packs_okD(8) [OF p] by blast
  have new: "view (conn s) ?h = None" using bs(2) by (simp add: view_def)
  obtain s2 where s2: "put_frame D 0 NoFault bs ?h s = (Inr (), s2)" "layout_ok D (G(?w \<mapsto> ws @ [bs])) s2"
    "view (conn s2) = (view (conn s))(?h \<mapsto> (?w, length (body D ws), length bs, False))"
    using put_frame_layout [OF G ws new bs(1)] by blast
  have w2: "pack_id (writer s2) = ?w" and fs2: "packs_dir s2 = AList.update (pack_path_open ?w) (body D ws @ frame D bs) (packs_dir s)"
    using s2(1) packs_okD(5) [OF p ws] w ws by (auto simp: put_frame_def Let_def writer_ok_def)
  have "fold index_place (entries D ?w 0 (ws @ [bs])) (view (conn s)) = view (conn s2)"
    using known_entries [OF i ws] new s2(3) by (simp add: entries_append index_place_def)
  moreover have "whole_frame D (body D (ws @ [bs]) @ []) (length (body D (ws @ [bs]))) = None"
    by (rule whole_frame_short) simp
  moreover have "(G(?w \<mapsto> ws @ [bs])) (pack_id (writer s2)) = Some (ws @ [bs])" using w2 by simp
  ultimately obtain s' where s': "recover_and_open_current_pack D now
      \<lparr>packs_dir = AList.update (pack_path_open ?w) (body D (ws @ [bs]) @ []) (packs_dir s2), conn = conn s, writer = wr\<rparr> = (Inr (), s')"
    "layout_ok D (G(?w \<mapsto> ws @ [bs])) s'" "contents D s' = contents D s2"
    using recover_layout [OF s2(2) _ _ k, of "ws @ [bs]" "[]" now wr] w2 by auto
  have "crashed D (NoRow bs) wr s =
      \<lparr>packs_dir = AList.update (pack_path_open ?w) (body D (ws @ [bs]) @ []) (packs_dir s2), conn = conn s, writer = wr\<rparr>"
    using packs_okD(5) [OF p ws] by (simp add: crashed_def fs2)
  moreover have "contents D s2 = put_spec ?h bs (contents D s)"
    using put_frame_contents [OF G ws new bs(1) s2(1)] .
  ultimately show ?thesis using s' by (auto simp: store_ok_def)
qed

end
