(* ===== verification/PackRebuild.thy ===== *)
theory PackRebuild
  imports PackRecovery
begin

text \<open>
  Rebuilding the index: the walks over the sealed packs put every row back in its place, and the
  replay of the tombstone logs puts every tombstone back.
\<close>

section \<open>The walks\<close>

definition flag :: "place option \<Rightarrow> bool" where
  "flag v = (case v of Some (_, _, _, b) \<Rightarrow> b | None \<Rightarrow> False)"

lemma flag_simps [simp]: "flag None = False" "flag (Some (p, off, len, b)) = b"
  by (simp_all add: flag_def)

lemma index_place_at: "index_place (h, p, off, len) V k = (if k = h then Some (p, off, len, flag (V h)) else V k)"
  by (simp add: index_place_def flag_def)

lemma fst_mem: "(h, e) \<in> A \<Longrightarrow> h \<in> fst ` A"
  by force

lemma fold_index_agree:
  assumes "\<And>h p off len. (h, p, off, len) \<in> set es \<Longrightarrow> \<exists>b. V h = Some (p, off, len, b)"
    and "V h = Some (p, off, len, b)" "h \<in> fst ` set es"
  shows "fold index_place es V0 h = Some (p, off, len, flag (V0 h))"
  using assms(1,3)
proof (induction es arbitrary: V0)
  case (Cons e es)
  obtain k q o1 l where e: "e = (k, q, o1, l)" by (cases e) auto
  have f: "flag (index_place e V0 h) = flag (V0 h)" by (simp add: e index_place_at)
  show ?case
  proof (cases "h \<in> fst ` set es")
    case True
    with Cons show ?thesis using f by simp
  next
    case False
    with Cons.prems(2) have "k = h" by (auto simp: e)
    moreover from this have "(q, o1, l) = (p, off, len)" using Cons.prems(1) [of k q o1 l] assms(2) by (simp add: e)
    ultimately show ?thesis using False by (simp add: e index_place_at fold_index_other)
  qed
qed simp

lemma rebuild_walks_run:
  assumes "packs_ok D G w fs" "\<And>p. p \<in> set ps \<Longrightarrow> p \<noteq> w \<and> G p \<noteq> None" "keyed (conn s)" "packs_dir s = fs"
  shows "\<exists>stats' t. rebuild_walks D now ps stats s = (Inr stats', s\<lparr>conn := t\<rparr>) \<and> keyed t \<and>
    packs_walked stats' = packs_walked stats + length ps \<and>
    frames_indexed stats' = frames_indexed stats + sum_list (map (\<lambda>p. length (the (G p))) ps) \<and>
    view t = fold index_place (concat (map (\<lambda>p. entries D p 0 (the (G p))) ps)) (view (conn s))"
  using assms(2-4)
proof (induction ps arbitrary: s stats)
  case Nil
  then show ?case by (auto intro: exI [of _ "conn s"])
next
  case (Cons p ps)
  then obtain xs n where xs: "G p = Some xs" "map_of fs (pack_path_sealed p) = Some (body D xs @ tail_bytes D n)"
    using packs_okD(7) [OF assms(1), of p] by fastforce
  let ?t = "index_all D now p 0 xs (conn s)"
  have "walk_frames D now p (body D xs @ tail_bytes D n) 0 (conn s) 0 = (?t, length xs, length (body D xs))"
    using walk_frames_body [OF packs_okD(4) [OF assms(1) xs(1)], of D "[]" "tail_bytes D n" now p "conn s" 0]
      whole_frame_short [of "body D xs @ tail_bytes D n" "length (body D xs)" D] by simp
  then have "rebuild_index_walk_sealed_pack D now p s = (Inr (length xs), s\<lparr>conn := ?t\<rparr>)"
    using xs Cons.prems(3) by (simp add: rebuild_index_walk_sealed_pack_def)
  moreover have "keyed (conn (s\<lparr>conn := ?t\<rparr>))" using keyed_index_all Cons.prems(2) by simp
  moreover note Cons.IH [of "s\<lparr>conn := ?t\<rparr>" "stats\<lparr>packs_walked := packs_walked stats + 1,
      frames_indexed := frames_indexed stats + length xs\<rparr>"]
  ultimately show ?case using Cons.prems by (fastforce simp: io_bind_def xs(1) view_index_all)
qed

section \<open>The replays\<close>

definition mark_record :: "tombstone_log_kind \<times> bytes \<Rightarrow> (bytes \<rightharpoonup> place) \<Rightarrow> bytes \<rightharpoonup> place" where
  "mark_record kh V = (case kh of (k, h) \<Rightarrow> mark h (k = Tombstone) V)"

lemma replay_record_view:
  assumes "keyed t"
  shows "keyed (fst (replay_record now kh (t, n)))" "view (fst (replay_record now kh (t, n))) = mark_record kh (view t)"
proof -
  obtain k h where kh: "kh = (k, h)" by fastforce
  show "keyed (fst (replay_record now kh (t, n)))"
    using assms by (cases k) (simp_all add: kh replay_record_def keyed_update)
  show "view (fst (replay_record now kh (t, n))) = mark_record kh (view t)"
    by (cases k) (simp_all only: kh replay_record_def mark_record_def prod.case fst_conv tombstone_log_kind.case
        view_update_mark tombstone_log_kind.distinct simp_thms)
qed

lemma replay_records_view:
  assumes "keyed t"
  shows "keyed (fst (fold (replay_record now) rs (t, n))) \<and>
    view (fst (fold (replay_record now) rs (t, n))) = fold mark_record rs (view t)"
  using assms
proof (induction rs arbitrary: t n)
  case (Cons kh rs)
  obtain t1 n1 where r: "replay_record now kh (t, n) = (t1, n1)" by fastforce
  with replay_record_view [OF Cons.prems, of now kh n] have "keyed t1" "view t1 = mark_record kh (view t)" by simp_all
  with Cons.IH [of t1 n1] r show ?case by simp
qed simp

lemma rebuild_replays_run:
  assumes "keyed (conn s)"
  shows "\<exists>stats' t. rebuild_replays now ps stats s = (stats', s\<lparr>conn := t\<rparr>) \<and> keyed t \<and>
    packs_walked stats' = packs_walked stats \<and> frames_indexed stats' = frames_indexed stats \<and>
    view t = fold mark_record (concat (map (\<lambda>p. log_records (log_content p (packs_dir s))) ps)) (view (conn s))"
  using assms
proof (induction ps arbitrary: s stats)
  case Nil
  then show ?case by (auto intro: exI [of _ "conn s"])
next
  case (Cons p ps)
  obtain n t where r: "rebuild_index_replay_tombstone_log now p s = (n, s\<lparr>conn := t\<rparr>)" "keyed t"
    "view t = fold mark_record (log_records (log_content p (packs_dir s))) (view (conn s))"
  proof (cases "map_of (packs_dir s) (tombstone_log_path p)")
    case None
    then show thesis using that [of 0 "conn s"] Cons.prems
      by (simp add: rebuild_index_replay_tombstone_log_def log_content_def)
  next
    case (Some c)
    obtain t n where "fold (replay_record now) (log_records c) (conn s, 0) = (t, n)" by fastforce
    with Some show thesis using that [of n t] replay_records_view [OF Cons.prems, of now "log_records c" 0]
      by (simp add: rebuild_index_replay_tombstone_log_def log_content_def)
  qed
  from Cons.IH [of "s\<lparr>conn := t\<rparr>" "stats\<lparr>tombstones_replayed := tombstones_replayed stats + n\<rparr>"] r
  show ?case by fastforce
qed

text \<open>A hash ends with the kind of its last record, and keeps its flag without one.\<close>

lemma mark_record_at:
  "mark_record (k, h) V x = (if x = h then map_option (\<lambda>(p, off, len, _). (p, off, len, k = Tombstone)) (V x) else V x)"
  by (simp add: mark_record_def mark_def)

lemma fold_mark_other: "(\<And>k. (k, h) \<notin> set rs) \<Longrightarrow> fold mark_record rs V h = V h"
proof (induction rs arbitrary: V)
  case (Cons kh rs)
  obtain k x where kh: "kh = (k, x)" by fastforce
  with Cons.prems [of k] have "x \<noteq> h" by auto
  with Cons kh show ?case by (simp add: mark_record_at)
qed simp

lemma last_kind_snoc: "last_kind h (rs @ [(k, x)]) = (if x = h then Some k else last_kind h rs)"
  by (simp add: last_kind_def)

lemma fold_mark_last:
  "V h = Some (p, off, len, b) \<Longrightarrow> fold mark_record rs V h =
    Some (p, off, len, case last_kind h rs of Some k \<Rightarrow> k = Tombstone | None \<Rightarrow> b)"
proof (induction rs rule: rev_induct)
  case (snoc kh rs)
  obtain k x where "kh = (k, x)" by fastforce
  with snoc show ?case by (cases "x = h") (simp_all add: last_kind_snoc mark_record_at)
qed (simp add: last_kind_def)

lemma last_kind_split:
  "last_kind h (rs @ ss) = (case last_kind h ss of Some k \<Rightarrow> Some k | None \<Rightarrow> last_kind h rs)"
proof (induction ss rule: rev_induct)
  case (snoc kx ss)
  obtain k x where "kx = (k, x)" by fastforce
  with snoc show ?case using last_kind_snoc [of h "rs @ ss" k x] by (simp add: last_kind_snoc)
qed (simp add: last_kind_def)

text \<open>Of all logs, only the one of its own pack speaks about a hash.\<close>

lemma last_kind_concat:
  assumes "\<And>q k. q \<noteq> p \<Longrightarrow> (k, h) \<notin> set (f q)"
  shows "last_kind h (concat (map f ps)) = (if p \<in> set ps then last_kind h (f p) else None)"
proof (induction ps)
  case (Cons q ps)
  have "q \<noteq> p \<Longrightarrow> last_kind h (f q) = None" using assms by (simp add: last_kind_None)
  with Cons show ?case by (cases "q = p"; cases "last_kind h (f p)") (simp_all add: last_kind_split)
qed (simp add: last_kind_def)

section \<open>Rebuilding\<close>

lemma read_frame_cong:
  "map_of fs' (pack_path_sealed p) = map_of fs (pack_path_sealed p) \<Longrightarrow>
   map_of fs' (pack_path_open p) = map_of fs (pack_path_open p) \<Longrightarrow>
   read_frame_payload D fs' p off len = read_frame_payload D fs p off len"
  unfolding read_frame_payload_def by (simp only:)

lemma contents_cong:
  "view (conn s') = view (conn s) \<Longrightarrow> packs_dir s' = packs_dir s \<Longrightarrow> contents D s' = contents D s"
  by (rule ext) (simp only: contents_def)

lemma sealed_packs:
  assumes "packs_ok D G w fs"
  shows "set (map fst (filter (\<lambda>(p, sealed). sealed \<and> p \<noteq> w) (list_packs fs))) = {p. p \<noteq> w \<and> G p \<noteq> None}"
proof -
  have "p \<in> set (map fst (filter (\<lambda>(p, sealed). sealed \<and> p \<noteq> w) (list_packs fs))) \<longleftrightarrow>
      p \<noteq> w \<and> (p, True) \<in> set (list_packs fs)" for p
    by force
  moreover have "(p, True) \<in> set (list_packs fs) \<longleftrightarrow> G p \<noteq> None" if "p \<noteq> w" for p
    using list_packs_iff(1) [OF packs_okD(1) [OF assms], of p] packs_okD(6,7) [OF assms that] by fastforce
  ultimately show ?thesis by blast
qed

text \<open>The table after the walks and replays: what \<open>V\<close> says of the sealed packs, and nothing changed of
  the rest.\<close>

definition rebuilt :: "32 word \<Rightarrow> (bytes \<rightharpoonup> place) \<Rightarrow> (bytes \<rightharpoonup> place) \<Rightarrow> bytes \<rightharpoonup> place" where
  "rebuilt w V V0 h = (if \<exists>p off len b. V h = Some (p, off, len, b) \<and> p \<noteq> w then V h else V0 h)"

lemma rebuilt_view:
  assumes i: "index_ok D G V" and l: "logs_ok G V fs" and ps: "set ps = {p. p \<noteq> w \<and> G p \<noteq> None}"
    and dead: "\<And>h. flag (V0 h) \<Longrightarrow> flag (V h)"
  shows "fold mark_record (concat (map (\<lambda>p. log_records (log_content p fs)) ps))
      (fold index_place (concat (map (\<lambda>p. entries D p 0 (the (G p))) ps)) V0) h = rebuilt w V V0 h"
    (is "fold mark_record (concat (map ?log ps)) (fold index_place ?es V0) h = _")
proof -
  have in_log: "\<exists>off len b. V h = Some (q, off, len, b)" if "(k, h) \<in> set (?log q)" for k q
    using logs_okD(1) [OF l, of q] that unfolding log_ok_def by blast
  have es: "(x, q, off, len) \<in> set ?es \<longleftrightarrow> q \<noteq> w \<and> (\<exists>xs. G q = Some xs \<and> (x, q, off, len) \<in> set (entries D q 0 xs))"
    for x q off len
  proof -
    have "(x, q, off, len) \<in> set ?es \<longleftrightarrow>
        (\<exists>p xs. p \<noteq> w \<and> G p = Some xs \<and> (x, q, off, len) \<in> set (entries D p 0 xs))" using ps by auto
    with entries_pack show ?thesis by blast
  qed
  then have agree: "\<exists>b. V x = Some (q, off, len, b)" if "(x, q, off, len) \<in> set ?es" for x q off len
    using index_okD(2) [OF i] that by blast
  show ?thesis
  proof (cases "\<exists>p off len b. V h = Some (p, off, len, b) \<and> p \<noteq> w")
    case True
    then obtain p off len b where v: "V h = Some (p, off, len, b)" "p \<noteq> w" by blast
    obtain xs where xs: "G p = Some xs" "(h, p, off, len) \<in> set (entries D p 0 xs)" using index_okD(1) [OF i v(1)] by blast
    then have "(h, p, off, len) \<in> set ?es" using es v(2) by blast
    then have walk: "fold index_place ?es V0 h = Some (p, off, len, flag (V0 h))"
      by (intro fold_index_agree [where V = V, OF agree v(1)] fst_mem)
    have "(k, h) \<notin> set (?log q)" if "q \<noteq> p" for q k using in_log [of k q] v(1) that by auto
    moreover have "p \<in> set ps" using ps v(2) xs(1) by simp
    ultimately have "last_kind h (concat (map ?log ps)) = last_kind h (?log p)"
      using last_kind_concat [of p h ?log ps] by simp
    moreover have "b = (last_kind h (?log p) = Some Tombstone)"
      using logs_okD(1) [OF l, of p] v(1) unfolding log_ok_def by blast
    ultimately have "fold mark_record (concat (map ?log ps)) (fold index_place ?es V0) h = V h"
      using fold_mark_last [where V = "fold index_place ?es V0", OF walk, of "concat (map ?log ps)"] dead [of h] v(1) by (auto split: option.splits)
    with True show ?thesis by (simp add: rebuilt_def)
  next
    case False
    have "(k, h) \<notin> set (concat (map ?log ps))" for k using in_log False ps by fastforce
    moreover have "h \<notin> fst ` set ?es"
    proof
      assume "h \<in> fst ` set ?es"
      then obtain q off len where "(h, q, off, len) \<in> set ?es" by force
      with agree es False show False by blast
    qed
    moreover from False have "rebuilt w V V0 h = V0 h" unfolding rebuilt_def by (rule if_not_P)
    ultimately show ?thesis by (simp add: fold_mark_other fold_index_other)
  qed
qed

text \<open>From any table that has no tombstone but those of \<open>V\<close>.\<close>

lemma rebuild_run:
  assumes p: "packs_ok D G (pack_id (writer s)) (packs_dir s)" and i: "index_ok D G V"
    and l: "logs_ok G V (packs_dir s)" and k: "keyed (conn s)"
    and dead: "\<And>h. flag (view (conn s) h) \<Longrightarrow> flag (V h)"
  shows "\<exists>stats t. run_rebuild_index D now s = (Inr stats, s\<lparr>conn := t\<rparr>) \<and> keyed t \<and>
    view t = rebuilt (pack_id (writer s)) V (view (conn s))"
proof -
  let ?w = "pack_id (writer s)" and ?V0 = "view (conn s)"
  let ?ps = "map fst (filter (\<lambda>(p, sealed). sealed \<and> p \<noteq> ?w) (list_packs (packs_dir s)))"
  let ?es = "concat (map (\<lambda>p. entries D p 0 (the (G p))) ?ps)"
  let ?log = "\<lambda>p. log_records (log_content p (packs_dir s))"
  note ps = sealed_packs [OF p]
  obtain stats t where walks: "rebuild_walks D now ?ps \<lparr>packs_walked = 0, frames_indexed = 0, tombstones_replayed = 0\<rparr> s =
      (Inr stats, s\<lparr>conn := t\<rparr>)" "keyed t" "view t = fold index_place ?es ?V0"
    using rebuild_walks_run [OF p _ k, of ?ps now] ps by blast
  obtain stats' t' where replays: "rebuild_replays now ?ps stats (s\<lparr>conn := t\<rparr>) = (stats', s\<lparr>conn := t'\<rparr>)" "keyed t'"
    "view t' = fold mark_record (concat (map ?log ?ps)) (view t)"
    using rebuild_replays_run [of "s\<lparr>conn := t\<rparr>" now ?ps stats] walks(2) by auto
  have run: "run_rebuild_index D now s = (Inr stats', s\<lparr>conn := t'\<rparr>)"
    by (simp add: run_rebuild_index_def Let_def io_bind_def walks(1) replays(1))
  moreover have "view t' h = rebuilt ?w V ?V0 h" for h
    using rebuilt_view [OF i l ps dead, where h = h] by (simp only: replays(3) walks(3))
  ultimately show ?thesis using replays(2) by blast
qed


text \<open>Rows of sealed packs that point anywhere or are missing come back.\<close>

lemma rebuild_restores:
  assumes G: "layout_ok D G s" and k: "keyed t0"
    and known: "\<And>h. view (conn s) h = None \<Longrightarrow> view t0 h = None"
    and here: "\<And>h off len b. view (conn s) h = Some (pack_id (writer s), off, len, b) \<Longrightarrow> view t0 h = view (conn s) h"
    and dead: "\<And>h. flag (view t0 h) \<Longrightarrow> flag (view (conn s) h)"
  shows "\<exists>stats s'. run_rebuild_index D now (s\<lparr>conn := t0\<rparr>) = (Inr stats, s') \<and> layout_ok D G s' \<and>
    contents D s' = contents D s"
proof -
  have p: "packs_ok D G (pack_id (writer s)) (packs_dir s)" and l: "logs_ok G (view (conn s)) (packs_dir s)"
    and i: "index_ok D G (view (conn s))"
    using G by (simp_all add: layout_ok_def)
  obtain stats t where run: "run_rebuild_index D now (s\<lparr>conn := t0\<rparr>) = (Inr stats, s\<lparr>conn := t\<rparr>)" "keyed t"
    and t: "view t = rebuilt (pack_id (writer s)) (view (conn s)) (view t0)"
    using rebuild_run [of D G "s\<lparr>conn := t0\<rparr>" "view (conn s)" now] p i l k dead by auto
  have "view t h = view (conn s) h" for h
    using known [of h] here [of h] by (cases "view (conn s) h") (auto simp: t rebuilt_def)
  then have v: "view t = view (conn s)" by blast
  then have "layout_ok D G (s\<lparr>conn := t\<rparr>)" using G run(2) by (simp add: layout_ok_def)
  moreover have "contents D (s\<lparr>conn := t\<rparr>) = contents D s" by (rule contents_cong) (simp_all add: v)
  ultimately show ?thesis using run(1) by blast
qed

text \<open>The whole table is gone: opening and rebuilding bring every row back. Only the tombstones of the
  open pack are not replayed.\<close>

definition in_open_pack :: "pack_store \<Rightarrow> bytes \<Rightarrow> bool" where
  "in_open_pack s h \<longleftrightarrow> (\<exists>off len b. view (conn s) h = Some (pack_id (writer s), off, len, b))"

lemma lost_index:
  assumes "store_ok D s"
  shows "\<exists>s1 stats s2. recover_and_open_current_pack D now (s\<lparr>conn := [], writer := wr\<rparr>) = (Inr (), s1) \<and>
    run_rebuild_index D now s1 = (Inr stats, s2) \<and>
    (\<forall>h. contents D s2 h = map_option (\<lambda>(x, live). (x, live \<or> in_open_pack s h)) (contents D s h))"
proof -
  obtain G where G: "layout_ok D G s" using assms by (auto simp: store_ok_def)
  let ?w = "pack_id (writer s)" and ?V = "view (conn s)"
  have p: "packs_ok D G ?w (packs_dir s)" and l: "logs_ok G ?V (packs_dir s)" and i: "index_ok D G ?V"
    using G by (simp_all add: layout_ok_def)
  obtain ws where ws: "G ?w = Some ws" using packs_okD(8) [OF p] by blast
  let ?es = "entries D ?w 0 ws" and ?s0 = "s\<lparr>conn := [], writer := wr\<rparr>" and ?fs = "touch_log ?w (packs_dir s)"
  have same: "AList.update (pack_path_open ?w) (body D ws) (packs_dir s) = packs_dir s"
    using packs_okD(5) [OF p ws] by (simp add: update_triv)
  have "whole_frame D (body D ws @ []) (length (body D ws)) = None" by (rule whole_frame_short) simp
  then obtain t where opened: "recover_and_open_current_pack D now ?s0 = (Inr (), ?s0\<lparr>packs_dir := ?fs, conn := t,
      writer := \<lparr>pack_id = ?w, file_pos = length (body D ws), pack_offset = length (body D ws)\<rparr>\<rparr>)" (is "_ = (_, ?s1)")
    and t: "keyed t" "view t = fold index_place ?es Map.empty"
    using recover_run [of ?s0 ?w ws D "[]" now] open_packs [OF p packs_okD(1) [OF p]] packs_okD(4,5) [OF p ws] same by auto
  have es: "\<exists>b. ?V x = Some (q, off, len, b)" if a: "(x, q, off, len) \<in> set ?es" for x q off len
    using index_okD(2) [OF i ws] a entries_pack [OF a] by blast
  have live: "view t h = Some (?w, off, len, False)" if v: "?V h = Some (?w, off, len, b)" for h off len b
  proof -
    have "(h, ?w, off, len) \<in> set ?es" using index_okD(1) [OF i v] ws by auto
    then have "fold index_place ?es Map.empty h = Some (?w, off, len, flag (Map.empty h))"
      by (intro fold_index_agree [where V = ?V, OF es v] fst_mem)
    then show ?thesis by (simp add: t(2))
  qed
  have none: "view t h = None" if "\<nexists>off len b. ?V h = Some (?w, off, len, b)" for h
  proof -
    have "h \<notin> fst ` set ?es"
    proof
      assume "h \<in> fst ` set ?es"
      then obtain q off len where "(h, q, off, len) \<in> set ?es" by force
      with entries_pack es that show False by blast
    qed
    then show ?thesis by (simp add: t(2) fold_index_other)
  qed
  have "\<not> flag (view t h)" for h using live none by (cases "\<exists>off len b. ?V h = Some (?w, off, len, b)") auto
  then obtain stats t' where run: "run_rebuild_index D now ?s1 = (Inr stats, ?s1\<lparr>conn := t'\<rparr>)"
    and t': "view t' = rebuilt ?w ?V (view t)"
    using rebuild_run [of D G ?s1 ?V now] touch_log_ok(1) [OF p] touch_log_ok(2) [OF l] i ws t(1) by auto
  have "contents D (?s1\<lparr>conn := t'\<rparr>) h = map_option (\<lambda>(x, live). (x, live \<or> in_open_pack s h)) (contents D s h)" for h
  proof (cases "?V h")
    case None
    with none show ?thesis by (simp add: contents_def t' rebuilt_def)
  next
    case (Some e)
    obtain p off len b where e: "e = (p, off, len, b)" by (cases e) auto
    have "view t' h = Some (p, off, len, b \<and> p \<noteq> ?w)" using Some e live by (auto simp: t' rebuilt_def)
    moreover have "read_frame_payload D ?fs p off len = read_frame_payload D (packs_dir s) p off len"
      by (rule read_frame_cong) (simp_all add: touch_log_files)
    moreover have "in_open_pack s h \<longleftrightarrow> p = ?w" using Some e by (auto simp: in_open_pack_def)
    moreover obtain x where "read_frame_payload D (packs_dir s) p off len = Inr x" "contents D s h = Some (x, \<not> b)"
      using contents_view [OF G Some [unfolded e]] by metis
    ultimately show ?thesis by (simp add: contents_def)
  qed
  with opened run show ?thesis by blast
qed

end
