(* ===== verification/PackMaintenance.thy ===== *)
theory PackMaintenance
  imports PackRebuild
begin

text \<open>
  The remaining operations on whole stores: tombstoning everything, explicit rotation, the sweep of
  orphaned packs, opening an empty directory, and opening after a crash in the middle of a compaction.
\<close>

section \<open>Tombstoning all live blobs\<close>

lemma batches_files:
  fixes fs :: files and k :: tombstone_log_kind
  assumes "distinct ps" "\<forall>q. q \<notin> set ps \<longrightarrow> hs q = []"
  defines "fs' \<equiv> foldl (\<lambda>fs p. append_tombstone_log_batch p (hs p) k fs) fs ps"
  shows "map_of fs' (pack_path_sealed q) = map_of fs (pack_path_sealed q)"
    "map_of fs' (pack_path_open q) = map_of fs (pack_path_open q)"
    "canonical fs \<Longrightarrow> canonical fs'"
    "log_content q fs' = log_content q fs @ concat (map (\<lambda>h. encode_log_record q h k) (hs q))"
    "map_of fs' (tombstone_log_path q) \<noteq> None \<Longrightarrow> map_of fs (tombstone_log_path q) \<noteq> None \<or> hs q \<noteq> []"
proof -
  let ?b = "\<lambda>fs p. append_tombstone_log_batch p (hs p) k fs"
  have "map_of (foldl ?b fs ps) (pack_path_sealed q) = map_of fs (pack_path_sealed q) \<and>
    map_of (foldl ?b fs ps) (pack_path_open q) = map_of fs (pack_path_open q) \<and>
    (canonical fs \<longrightarrow> canonical (foldl ?b fs ps)) \<and>
    (map_of (foldl ?b fs ps) (tombstone_log_path q) \<noteq> None \<longrightarrow> map_of fs (tombstone_log_path q) \<noteq> None \<or> hs q \<noteq> [])" for ps
  proof (induction ps arbitrary: fs)
    case (Cons p ps)
    show ?case using Cons.IH [of "?b fs p"] append_batch_files(5) [of p "hs p" k fs q]
      by (simp only: foldl_Cons append_batch_files(1,2)) (blast intro: append_batch_files(3))
  qed simp
  then show "map_of fs' (pack_path_sealed q) = map_of fs (pack_path_sealed q)"
    "map_of fs' (pack_path_open q) = map_of fs (pack_path_open q)"
    "canonical fs \<Longrightarrow> canonical fs'"
    "map_of fs' (tombstone_log_path q) \<noteq> None \<Longrightarrow> map_of fs (tombstone_log_path q) \<noteq> None \<or> hs q \<noteq> []"
    unfolding fs'_def by blast+
  have "log_content q (foldl ?b fs ps) =
      log_content q fs @ (if q \<in> set ps then concat (map (\<lambda>h. encode_log_record q h k) (hs q)) else [])"
    if "distinct ps" for ps
    using that by (induction ps arbitrary: fs) (simp_all add: append_batch_files(4))
  from this [OF assms(1)] assms(2)
  show "log_content q fs' = log_content q fs @ concat (map (\<lambda>h. encode_log_record q h k) (hs q))"
    unfolding fs'_def by (cases "q \<in> set ps") simp_all
qed

definition tombstone_all_spec :: "(bytes \<rightharpoonup> bytes \<times> bool) \<Rightarrow> bytes \<rightharpoonup> bytes \<times> bool" where
  "tombstone_all_spec C h = map_option (\<lambda>(x, _). (x, False)) (C h)"

lemma tombstone_all_live_ok:
  fixes now :: int
  assumes "store_ok D s" "hash_ok D"
  defines "s' \<equiv> snd (tombstone_all_live now s)"
  shows "store_ok D s'" "contents D s' = tombstone_all_spec (contents D s)" "writer s' = writer s"
    "next_pack_id (packs_dir s') = next_pack_id (packs_dir s)"
proof -
  obtain G where G: "layout_ok D G s" using assms(1) by (auto simp: store_ok_def)
  then have k: "keyed (conn s)" and p: "packs_ok D G (pack_id (writer s)) (packs_dir s)" by (simp_all add: layout_ok_def)
  let ?live = "filter (\<lambda>r. tombstoned_at r = None) (conn s)"
  let ?t = "update_rows (\<lambda>r. tombstoned_at r = None) (\<lambda>r. r\<lparr>tombstoned_at := Some now\<rparr>) (conn s)"
  let ?hs = "\<lambda>p. map content_hash (filter (\<lambda>r. pack_file_id r = p) ?live)"
  let ?fs = "foldl (\<lambda>fs p. append_tombstone_log_batch p (?hs p) Tombstone fs) (packs_dir s) (remdups (map pack_file_id ?live))"
  have v: "view ?t h = map_option (\<lambda>(p, off, len, _). (p, off, len, True)) (view (conn s) h)" for h
    by (rule view_tombstone_all)
  have s': "s' = (if ?live = [] then s else s\<lparr>packs_dir := ?fs, conn := ?t\<rparr>)"
    by (simp only: s'_def tombstone_all_live_def Let_def if_distrib [of snd] snd_conv)
  have none: "\<forall>q. q \<notin> set (remdups (map pack_file_id ?live)) \<longrightarrow> ?hs q = []"
    by (auto simp: filter_empty_conv)
  have hs: "h \<in> set (?hs q) \<longleftrightarrow> (\<exists>off len. view (conn s) h = Some (q, off, len, False))" for h q
  proof
    assume "h \<in> set (?hs q)"
    then obtain r where "r \<in> set (conn s)" "content_hash r = h" "pack_file_id r = q" "tombstoned_at r = None" by auto
    with select_row_keyed [OF k] show "\<exists>off len. view (conn s) h = Some (q, off, len, False)"
      by (auto simp: view_def row_place_def)
  next
    assume "\<exists>off len. view (conn s) h = Some (q, off, len, False)"
    then obtain r where "select_row h (conn s) = Some r" "pack_file_id r = q" "tombstoned_at r = None"
      by (auto simp: view_def row_place_def)
    with select_row_hash [of h "conn s" r] show "h \<in> set (?hs q)" by auto
  qed
  note files = batches_files [OF distinct_remdups none, where fs = "packs_dir s" and k = Tombstone]
  let ?s1 = "s\<lparr>packs_dir := ?fs, conn := ?t\<rparr>"
  have L: "layout_ok D G ?s1"
  proof (rule mark_layout [OF G assms(2) files(3) [OF packs_okD(1) [OF p]] files(1,2,4,5)])
    show "same_places (view (conn s)) (view ?t)" unfolding same_places_def v by auto
    show "\<exists>off len b. view (conn s) h = Some (q, off, len, b)" if "h \<in> set (?hs q)" for q h
      using that unfolding hs by blast
    show "view (conn s) h = Some (q, off, len, b)" if "view ?t h = Some (q, off, len, b)" "h \<notin> set (?hs q)" for q h off len b
      using that unfolding hs v by auto
  qed (use k v in \<open>simp_all add: keyed_update\<close>)
  have "contents D s' h = tombstone_all_spec (contents D s) h" for h
  proof (cases "?live = []")
    case True
    have "\<not> (\<exists>x. contents D s h = Some (x, True))"
    proof
      assume "\<exists>x. contents D s h = Some (x, True)"
      then obtain q off len where "view (conn s) h = Some (q, off, len, False)"
        by (auto simp: contents_def split: option.splits sum.splits)
      then have "h \<in> set (?hs q)" unfolding hs by blast
      with True show False by simp
    qed
    with True s' show ?thesis by (cases "contents D s h") (auto simp: tombstone_all_spec_def)
  next
    case False
    with contents_flag [OF G L, of h True] v show ?thesis by (simp add: s' tombstone_all_spec_def)
  qed
  then show "contents D s' = tombstone_all_spec (contents D s)" by blast
  show "store_ok D s'" "writer s' = writer s" using L assms(1) by (auto simp: s' store_ok_def)
  have "next_pack_id ?fs = next_pack_id (packs_dir s)"
    by (rule next_pack_id_files [OF packs_okD(1) [OF p] files(3) [OF packs_okD(1) [OF p]] files(1,2)])
  then show "next_pack_id (packs_dir s') = next_pack_id (packs_dir s)" by (simp add: s')
qed

section \<open>Orphaned packs\<close>

text \<open>A sealed pack, not the writer's, that no row points into.\<close>

definition orphan :: "pack_store \<Rightarrow> 32 word \<Rightarrow> bool" where
  "orphan s p \<longleftrightarrow> p \<noteq> pack_id (writer s) \<and> map_of (packs_dir s) (pack_path_sealed p) \<noteq> None \<and>
     (\<forall>h off len b. view (conn s) h \<noteq> Some (p, off, len, b))"

lemma no_rows:
  assumes "keyed t"
  shows "filter (\<lambda>r. pack_file_id r = p) t = [] \<longleftrightarrow> (\<forall>h off len b. view t h \<noteq> Some (p, off, len, b))"
proof -
  have "r \<in> set t \<Longrightarrow> view t (content_hash r) = Some (pack_file_id r, row_offset r, row_length r, tombstoned_at r \<noteq> None)" for r
    using select_row_keyed [OF assms] by (simp add: view_def row_place_def)
  moreover have "\<exists>r \<in> set t. pack_file_id r = p" if "view t h = Some (p, off, len, b)" for h off len b
    using that select_row_hash by (fastforce simp: view_def row_place_def)
  ultimately show ?thesis unfolding filter_empty_conv by metis
qed

lemma unlink_all:
  "map_of (fold (\<lambda>p fs. AList.delete (tombstone_log_path p) (AList.delete (pack_path_sealed p) fs)) ps fs) name =
    (if \<exists>p \<in> set ps. name = tombstone_log_path p \<or> name = pack_path_sealed p then None else map_of fs name)"
  "canonical fs \<Longrightarrow> canonical (fold (\<lambda>p fs. AList.delete (tombstone_log_path p) (AList.delete (pack_path_sealed p) fs)) ps fs)"
  by (induction ps arbitrary: fs) (auto simp: file_simps)

lemma sweep_run:
  assumes "canonical (packs_dir s)" "keyed (conn s)"
  defines "s' \<equiv> snd (sweep_orphan_sealed_packs s)"
  shows "map_of (packs_dir s') (pack_path_sealed q) = (if orphan s q then None else map_of (packs_dir s) (pack_path_sealed q))"
    "map_of (packs_dir s') (tombstone_log_path q) = (if orphan s q then None else map_of (packs_dir s) (tombstone_log_path q))"
    "map_of (packs_dir s') (pack_path_open q) = map_of (packs_dir s) (pack_path_open q)"
    "canonical (packs_dir s')" "conn s' = conn s" "writer s' = writer s"
proof -
  let ?o = "map fst (filter (\<lambda>(p, sealed). sealed \<and> p \<noteq> pack_id (writer s) \<and>
      filter (\<lambda>r. pack_file_id r = p) (conn s) = []) (list_packs (packs_dir s)))"
  have o: "p \<in> set ?o \<longleftrightarrow> orphan s p" for p
  proof -
    have "p \<in> set ?o \<longleftrightarrow> (p, True) \<in> set (list_packs (packs_dir s)) \<and> p \<noteq> pack_id (writer s) \<and>
        filter (\<lambda>r. pack_file_id r = p) (conn s) = []" by force
    then show ?thesis unfolding no_rows [OF assms(2)] orphan_def list_packs_iff(1) [OF assms(1)] by blast
  qed
  define ps where "ps = ?o"
  have s': "s' = s\<lparr>packs_dir := fold (\<lambda>p fs. AList.delete (tombstone_log_path p) (AList.delete (pack_path_sealed p) fs))
      ps (packs_dir s)\<rparr>"
    by (simp only: s'_def sweep_orphan_sealed_packs_def Let_def snd_conv ps_def)
  have m: "map_of (packs_dir s') name =
      (if \<exists>p \<in> set ps. name = tombstone_log_path p \<or> name = pack_path_sealed p then None else map_of (packs_dir s) name)" for name
    by (simp add: s' unlink_all(1))
  show "map_of (packs_dir s') (pack_path_sealed q) = (if orphan s q then None else map_of (packs_dir s) (pack_path_sealed q))"
    "map_of (packs_dir s') (tombstone_log_path q) = (if orphan s q then None else map_of (packs_dir s) (tombstone_log_path q))"
    "map_of (packs_dir s') (pack_path_open q) = map_of (packs_dir s) (pack_path_open q)"
    using o [folded ps_def, of q] unfolding m by auto
  show "canonical (packs_dir s')" "conn s' = conn s" "writer s' = writer s"
    using unlink_all(2) [OF assms(1)] by (simp_all add: s')
qed

text \<open>A state that has orphaned packs on top of a sound one: files of packs that the sound one does not have.\<close>

definition left_over :: "layout \<Rightarrow> pack_store \<Rightarrow> pack_store \<Rightarrow> bool" where
  "left_over G s s1 \<longleftrightarrow>
     conn s1 = conn s \<and> writer s1 = writer s \<and> canonical (packs_dir s1)
     \<and> (\<forall>q. map_of (packs_dir s1) (pack_path_open q) = map_of (packs_dir s) (pack_path_open q))
     \<and> (\<forall>q. G q \<noteq> None \<longrightarrow> map_of (packs_dir s1) (pack_path_sealed q) = map_of (packs_dir s) (pack_path_sealed q)
          \<and> map_of (packs_dir s1) (tombstone_log_path q) = map_of (packs_dir s) (tombstone_log_path q))
     \<and> (\<forall>q. map_of (packs_dir s1) (pack_path_sealed q) = None \<longrightarrow> G q = None \<longrightarrow>
          map_of (packs_dir s1) (tombstone_log_path q) = None)"

lemma left_over_refl: "layout_ok D G s \<Longrightarrow> left_over G s s"
  unfolding left_over_def using logs_okD(2) packs_okD(1) layout_ok_def by blast

lemma sweep_ok:
  assumes G: "layout_ok D G s" and lo: "left_over G s s1"
  defines "s' \<equiv> snd (sweep_orphan_sealed_packs s1)"
  shows "store_ok D s'" "contents D s' = contents D s" "writer s' = writer s"
proof -
  let ?w = "pack_id (writer s)" and ?V = "view (conn s)" and ?G = "\<lambda>q. if orphan s1 q then None else G q"
  have p: "packs_ok D G ?w (packs_dir s)" and l: "logs_ok G ?V (packs_dir s)" and i: "index_ok D G ?V"
    and k: "keyed (conn s)" and wr: "writer_ok D G (writer s)"
    using G by (simp_all add: layout_ok_def)
  have lo: "conn s1 = conn s" "writer s1 = writer s" "canonical (packs_dir s1)"
    "\<And>q. map_of (packs_dir s1) (pack_path_open q) = map_of (packs_dir s) (pack_path_open q)"
    "\<And>q. G q \<noteq> None \<Longrightarrow> map_of (packs_dir s1) (pack_path_sealed q) = map_of (packs_dir s) (pack_path_sealed q)"
    "\<And>q. G q \<noteq> None \<Longrightarrow> map_of (packs_dir s1) (tombstone_log_path q) = map_of (packs_dir s) (tombstone_log_path q)"
    "\<And>q. map_of (packs_dir s1) (pack_path_sealed q) = None \<Longrightarrow> G q = None \<Longrightarrow> map_of (packs_dir s1) (tombstone_log_path q) = None"
    using lo unfolding left_over_def by auto
  have "keyed (conn s1)" using k lo(1) by simp
  note run = sweep_run [OF lo(3) this, folded s'_def]
  have here: "\<not> orphan s1 ?w" by (simp add: orphan_def lo(2))
  have used: "G q \<noteq> None \<and> \<not> orphan s1 q" if "?V h = Some (q, off, len, b)" for h q off len b
    using index_okD(1) [OF i that] that lo(1) by (auto simp: orphan_def)
  have gone: "map_of (packs_dir s') (pack_path_sealed q) = None" if "q \<noteq> ?w" "?G q = None" for q
  proof (cases "orphan s1 q")
    case False
    with that(2) have "G q = None" by simp
    with index_okD(1) [OF i, of _ q] have "\<forall>h off len b. ?V h \<noteq> Some (q, off, len, b)" by fastforce
    with False that(1) lo(1,2) show ?thesis by (simp add: run(1) orphan_def)
  qed (simp add: run(1))
  obtain ws where ws: "G ?w = Some ws" using packs_okD(8) [OF p] by blast
  have no_log: "map_of (packs_dir s') (tombstone_log_path q) = None" if none: "?G q = None" for q
  proof (cases "orphan s1 q")
    case False
    with none here ws have "G q = None" "q \<noteq> ?w" by auto
    with gone [of q] False lo(7) [of q] show ?thesis by (simp add: run(1,2))
  qed (simp add: run(2))
  have "packs_ok D ?G ?w (packs_dir s')"
  proof (rule packs_okI)
    show "?G ?w = Some ws" using here ws by simp
    show "map_of (packs_dir s') (pack_path_open ?w) = Some (body D ws)" using packs_okD(5) [OF p ws] by (simp add: run(3) lo(4))
    show "map_of (packs_dir s') (pack_path_sealed ?w) = None" using packs_okD(2) [OF p] ws by (simp add: run(1) lo(5))
    show "\<exists>n. map_of (packs_dir s') (pack_path_sealed q) = Some (body D ps @ tail_bytes D n)"
      if "q \<noteq> ?w" "?G q = Some ps" for q ps
      using packs_okD(7) [OF p that(1), of ps] that(2) lo(5) [of q] by (simp add: run(1) split: if_splits)
  qed (use gone run(4) packs_okD(3,4) [OF p] in \<open>auto simp: run(3) lo(4) split: if_splits\<close>)
  moreover have "index_ok D ?G ?V"
  proof (rule index_okI)
    show "\<exists>ps. ?G q = Some ps \<and> (h, q, off, len) \<in> set (entries D q 0 ps)" if "?V h = Some (q, off, len, b)" for h q off len b
      using index_okD(1) [OF i that] used [OF that] by simp
    show "\<exists>b. ?V h = Some (q, off, len, b)" if "?G q = Some ps" "(h, q, off, len) \<in> set (entries D q 0 ps)" for h q off len ps
      using index_okD(2) [OF i _ that(2)] that(1) by (simp split: if_splits)
  qed
  moreover have "logs_ok ?G ?V (packs_dir s')"
    unfolding logs_ok_def
  proof (intro allI conjI impI)
    fix q
    show "log_ok ?V q (log_content q (packs_dir s'))"
    proof (cases "?G q = None")
      case True
      then have "?V h \<noteq> Some (q, off, len, b)" for h off len b using used by fastforce
      moreover have "log_content q (packs_dir s') = []" using no_log [OF True] by (simp add: log_content_def)
      ultimately show ?thesis using log_ok_empty [of ?V q] by auto
    next
      case False
      then have "log_content q (packs_dir s') = log_content q (packs_dir s)"
        using lo(6) [of q] by (simp add: log_content_def run(2) split: if_splits)
      with logs_okD(1) [OF l] show ?thesis by simp
    qed
    show "map_of (packs_dir s') (tombstone_log_path q) \<noteq> None \<Longrightarrow> ?G q \<noteq> None"
      by (erule contrapos_nn) (rule no_log)
  qed
  ultimately have "layout_ok D ?G s'" using k wr here by (simp add: layout_ok_def writer_ok_def run(5,6) lo(1,2))
  then show "store_ok D s'" by (auto simp: store_ok_def)
  show "contents D s' = contents D s"
  proof
    fix h show "contents D s' h = contents D s h"
    proof (cases "?V h")
      case (Some e)
      obtain q off len b where e: "e = (q, off, len, b)" by (cases e) auto
      have "read_frame_payload D (packs_dir s') q off len = read_frame_payload D (packs_dir s) q off len"
        by (rule read_frame_cong) (use used [of h q off len b] Some e lo(5) in \<open>simp_all add: run(1,3) lo(4)\<close>)
      with Some e show ?thesis by (simp add: contents_def run(5) lo(1))
    qed (simp add: contents_def run(5) lo(1))
  qed
  show "writer s' = writer s" by (simp add: run(6) lo(2))
qed

section \<open>Rotation and new directories\<close>

lemma rotate_open_pack_ok:
  assumes "store_ok D s" "room s"
  shows "\<exists>s'. rotate_open_pack D s = (Inr (), s') \<and> store_ok D s' \<and> contents D s' = contents D s \<and>
    pack_offset (writer s') = 0"
proof (cases "pack_offset (writer s) = 0")
  case True
  with assms(1) show ?thesis by (simp add: rotate_open_pack_def)
next
  case False
  obtain G where G: "layout_ok D G s" using assms(1) by (auto simp: store_ok_def)
  from rotate_ok [OF G assms(2)] False show ?thesis by (auto simp: rotate_open_pack_def store_ok_def)
qed

lemma open_empty:
  "\<exists>s'. recover_and_open_current_pack D now \<lparr>packs_dir = [], conn = [], writer = wr\<rparr> = (Inr (), s') \<and>
    store_ok D s' \<and> contents D s' = Map.empty"
proof -
  let ?p = "next_pack_id []"
  let ?s = "\<lparr>packs_dir = touch_log ?p (AList.update (pack_path_open ?p) [] []), conn = [],
    writer = \<lparr>pack_id = ?p, file_pos = 0, pack_offset = 0\<rparr>\<rparr>"
  have "list_packs [] = []" by (simp add: list_packs_def)
  then have run: "recover_and_open_current_pack D now \<lparr>packs_dir = [], conn = [], writer = wr\<rparr> = (Inr (), ?s)"
    by (simp add: recover_and_open_current_pack_def create_new_open_pack_def)
  have "canonical (touch_log ?p (AList.update (pack_path_open ?p) [] []))"
    by (intro touch_log_files(3) canonical_update) (simp_all add: canonical_def)
  then have "packs_ok D [?p \<mapsto> []] ?p (packs_dir ?s)"
    by (intro packs_okI [where qs = "[]"]) (simp_all add: touch_log_files file_simps split: if_splits)
  moreover have "log_content q (packs_dir ?s) = []" for q
    by (simp add: touch_log_files) (simp add: log_content_def)
  then have "logs_ok [?p \<mapsto> []] Map.empty (packs_dir ?s)"
    using touch_log_files(5) [of ?p "AList.update (pack_path_open ?p) [] []"] log_ok_empty [of Map.empty] by (simp add: logs_ok_def)
  ultimately have "layout_ok D [?p \<mapsto> []] ?s"
    by (simp add: layout_ok_def writer_ok_def index_ok_def)
  moreover have "contents D ?s = Map.empty" by (simp add: contents_def fun_eq_iff)
  ultimately show ?thesis using run by (auto simp: store_ok_def)
qed

section \<open>Crashes in a compaction\<close>

text \<open>A crash while the copy is written leaves an open pack with a number above all others.\<close>

lemma recover_torn_copy:
  assumes "store_ok D s" "room s"
  defines "dst \<equiv> next_pack_id (packs_dir s)"
  shows "\<exists>s'. recover_and_open_current_pack D now
      \<lparr>packs_dir = AList.update (pack_path_open dst) c (packs_dir s), conn = conn s, writer = wr\<rparr> = (Inr (), s') \<and>
    store_ok D s' \<and> contents D s' = contents D s"
proof -
  obtain G where G: "layout_ok D G s" using assms(1) by (auto simp: store_ok_def)
  let ?w = "pack_id (writer s)"
  let ?fs = "AList.update (pack_path_open dst) c (packs_dir s)"
  let ?s0 = "\<lparr>packs_dir = ?fs, conn = conn s, writer = wr\<rparr>"
  have p: "packs_ok D G ?w (packs_dir s)" and l: "logs_ok G (view (conn s)) (packs_dir s)"
    and i: "index_ok D G (view (conn s))" and k: "keyed (conn s)"
    using G by (simp_all add: layout_ok_def)
  have new: "G dst = None" "dst \<noteq> ?w" "?w < dst"
    using fresh_id [OF p] assms(2) packs_okD(8) [OF p] unfolding dst_def room_def by blast+
  have "canonical ?fs" using packs_okD(1) [OF p] by simp
  note iff = list_packs_iff(2) [OF this] list_packs_iff(2) [OF packs_okD(1) [OF p]]
  have o: "set (opens (packs_dir s)) = {?w}" by (rule open_packs [OF p packs_okD(1) [OF p]]) simp
  then have o1: "set (opens ?fs) = {?w, dst}"
    unfolding set_eq_iff opens_iff iff by (auto simp: file_simps)
  have "map_of (packs_dir s) (tombstone_log_path dst) = None" "map_of (packs_dir s) (pack_path_open dst) = None"
    using logs_okD(2) [OF l, of dst] packs_okD(3) [OF p new(2)] new(1) by blast+
  then have keys: "tombstone_log_path dst \<notin> fst ` set (packs_dir s)" "pack_path_open dst \<notin> fst ` set (packs_dir s)"
    by (simp_all only: map_of_eq_None_iff not_False_eq_True)
  have stale: "remove_stale dst (packs_dir s) = packs_dir s" "remove_stale dst ?fs = packs_dir s"
    using keys by (simp_all add: remove_stale_def delete_update_same delete_id)
  have "fold remove_stale ps (packs_dir s) = packs_dir s" if "set ps \<subseteq> {dst}" for ps
    using that by (induction ps) (simp_all add: stale)
  then have all: "fold remove_stale ps ?fs = packs_dir s" if "set ps = {dst}" for ps
    using that by (cases ps) (auto simp: stale)
  have "set (filter (\<lambda>p. p \<noteq> ?w) (opens ?fs)) = {dst}" using o1 new(2) by auto
  then have "recover_and_open_current_pack D now ?s0 =
      io_bind (recover_open_pack D now ?w) (\<lambda>_. open_existing_open_pack ?w) (\<lparr>packs_dir = packs_dir s, conn = conn s, writer = wr\<rparr>)"
    using recover_opens [of ?s0 ?w "{dst}" "packs_dir s" D now] o1 all new(3) by simp
  also have "\<dots> = recover_and_open_current_pack D now (\<lparr>packs_dir = packs_dir s, conn = conn s, writer = wr\<rparr>)"
    using recover_one [of "\<lparr>packs_dir = packs_dir s, conn = conn s, writer = wr\<rparr>" ?w D now] o by simp
  finally have same: "recover_and_open_current_pack D now ?s0 = recover_and_open_current_pack D now (\<lparr>packs_dir = packs_dir s, conn = conn s, writer = wr\<rparr>)" .
  obtain ws where ws: "G ?w = Some ws" using packs_okD(8) [OF p] by blast
  have "AList.update (pack_path_open ?w) (body D ws @ []) (packs_dir s) = packs_dir s"
    using packs_okD(5) [OF p ws] by (simp add: update_triv)
  moreover have "whole_frame D (body D ws @ []) (length (body D ws)) = None" by (rule whole_frame_short) simp
  ultimately show ?thesis
    using recover_layout [OF G ws _ k known_entries [OF i ws], of "[]" now wr] same by (auto simp: store_ok_def)
qed

text \<open>A crash between the sealing of the copy and the end of the compaction leaves one sealed pack too many.\<close>

lemma touch_log_log:
  "map_of (touch_log p fs) (tombstone_log_path q) =
    (if q = p \<and> map_of fs (tombstone_log_path q) = None then Some [] else map_of fs (tombstone_log_path q))"
  by (auto simp: touch_log_def file_simps split: option.splits)

lemma recover_left_over:
  assumes G: "layout_ok D G s" and lo: "left_over G s s1"
  shows "\<exists>s2 s3. recover_and_open_current_pack D now (s1\<lparr>writer := wr\<rparr>) = (Inr (), s2) \<and>
    layout_ok D G s3 \<and> left_over G s3 s2 \<and> contents D s3 = contents D s"
proof -
  let ?w = "pack_id (writer s)" and ?fs = "packs_dir s1"
  have p: "packs_ok D G ?w (packs_dir s)" and l: "logs_ok G (view (conn s)) (packs_dir s)"
    and i: "index_ok D G (view (conn s))" and k: "keyed (conn s)"
    using G by (simp_all add: layout_ok_def)
  obtain ws where ws: "G ?w = Some ws" using packs_okD(8) [OF p] by blast
  have f: "map_of ?fs (pack_path_open q) = map_of (packs_dir s) (pack_path_open q)" and c: "canonical ?fs" and s1: "conn s1 = conn s" for q
    using lo by (simp_all add: left_over_def)
  let ?W = "\<lparr>pack_id = ?w, file_pos = length (body D ws), pack_offset = length (body D ws)\<rparr>"
  have open_file: "map_of ?fs (pack_path_open ?w) = Some (body D ws)" using packs_okD(5) [OF p ws] by (simp add: f)
  have "set (opens ?fs) = {?w}" by (rule open_packs [OF p c]) (simp only: f)
  moreover have "whole_frame D (body D ws @ []) (length (body D ws)) = None" by (rule whole_frame_short) simp
  ultimately obtain t where run: "recover_and_open_current_pack D now (s1\<lparr>writer := wr\<rparr>) =
      (Inr (), s1\<lparr>writer := wr, packs_dir := touch_log ?w ?fs, conn := t, writer := ?W\<rparr>)" (is "_ = (_, ?s2)")
    and t: "keyed t" "view t = view (conn s)"
    using recover_run [of "s1\<lparr>writer := wr\<rparr>" ?w ws D "[]" now] packs_okD(4) [OF p ws] open_file k
      known_entries [OF i ws] by (auto simp: update_triv s1)
  let ?s3 = "s\<lparr>packs_dir := touch_log ?w (packs_dir s), conn := t, writer := ?W\<rparr>"
  have L: "layout_ok D G ?s3"
    using touch_log_ok(1) [OF p] touch_log_ok(2) [OF l] ws t i by (simp add: layout_ok_def writer_ok_def)
  moreover have "left_over G ?s3 ?s2"
    using lo touch_log_files(3) [OF c] ws unfolding left_over_def pack_store.simps pack_store.surjective touch_log_files(1,2) touch_log_log
    by (auto simp: touch_log_files(1,2) touch_log_log)
  moreover have "contents D ?s3 h = contents D s h" for h
    by (rule contents_same [OF G L _ exI [of _ "[]"]]) (simp_all add: t(2))
  ultimately show ?thesis using run by blast
qed

lemma boot_left_over:
  assumes "layout_ok D G s" "left_over G s s1"
  shows "\<exists>s'. boot_pack_store D False now (s1\<lparr>writer := wr\<rparr>) = (Inr (), s') \<and> store_ok D s' \<and> contents D s' = contents D s"
proof -
  obtain s2 s3 where r: "recover_and_open_current_pack D now (s1\<lparr>writer := wr\<rparr>) = (Inr (), s2)"
    "layout_ok D G s3" "left_over G s3 s2" "contents D s3 = contents D s"
    using recover_left_over [OF assms] by blast
  with sweep_ok [OF r(2,3)] show ?thesis by (simp add: boot_pack_store_def io_bind_def)
qed

text \<open>Opening is followed by the sweep, which a sound state passes unchanged.\<close>

lemma boot_ok:
  assumes "recover_and_open_current_pack D now s = (Inr (), s1)" "store_ok D s1"
  shows "\<exists>s'. boot_pack_store D False now s = (Inr (), s') \<and> store_ok D s' \<and> contents D s' = contents D s1"
proof -
  obtain G where "layout_ok D G s1" using assms(2) by (auto simp: store_ok_def)
  from sweep_ok [OF this left_over_refl [OF this]] assms(1) show ?thesis by (simp add: boot_pack_store_def io_bind_def)
qed

end
