(* ===== verification/PackSession.thy ===== *)
theory PackSession
  imports PackMaintenance
begin

text \<open>
  The attachment store over its whole life: the steps that calls, crashes and boots take, the states
  they reach, and what the store promises a caller over any sequence of them.
\<close>

section \<open>Crashes around the swap of a compaction\<close>

text \<open>The copy is sealed and the table has not changed; the table has changed and the old pack is there still.\<close>

definition crashed_sealed :: "digests \<Rightarrow> 32 word \<Rightarrow> open_pack \<Rightarrow> pack_store \<Rightarrow> pack_store" where
  "crashed_sealed D src wr s = (snd (compact_files D src s))\<lparr>writer := wr\<rparr>"

definition crashed_swapped :: "digests \<Rightarrow> 32 word \<Rightarrow> open_pack \<Rightarrow> pack_store \<Rightarrow> pack_store" where
  "crashed_swapped D src wr s =
     (case compact_files D src s of
        (Inr (dst, offs), s1) \<Rightarrow> s1\<lparr>conn := compact_swap src dst offs (conn s1), writer := wr\<rparr>
      | (Inl _, s1) \<Rightarrow> s1\<lparr>writer := wr\<rparr>)"

lemma left_over_sealed:
  assumes c: "compaction D G s src dst content qs"
  shows "left_over G s (copied_files D dst qs n s)"
proof -
  note d = compactionD [OF c]
  have "map_of (packs_dir s) (pack_path_open dst) = None" using packs_okD(3) [OF d(9)] d(6) by simp
  moreover have "map_of (packs_dir s) (tombstone_log_path q) = None" if "G q = None" for q
    using logs_okD(2) [OF d(12), of q] that by blast
  ultimately show ?thesis using d(4) packs_okD(1) [OF d(9)] by (auto simp: left_over_def copied_files_def file_simps)
qed

lemma left_over_swapped:
  assumes c: "compaction D G s src dst content qs"
  shows "left_over (G(src := None, dst \<mapsto> qs)) (compacted D src dst qs n s)
    ((copied_files D dst qs n s)\<lparr>conn := conn (compacted D src dst qs n s)\<rparr>)"
proof -
  note d = compactionD [OF c]
  have "map_of (packs_dir s) (tombstone_log_path q) = None" if "G q = None" for q
    using logs_okD(2) [OF d(12), of q] that by blast
  with d(5,7) packs_okD(1) [OF d(9)] show ?thesis
    by (auto simp: left_over_def copied_files_def compacted_def file_simps)
qed

lemma crash_compact:
  assumes "store_ok D s" "room s" "src \<noteq> pack_id (writer s)" "map_of (packs_dir s) (pack_path_sealed src) \<noteq> None"
  shows "\<exists>s'. boot_pack_store D False now (crashed_sealed D src wr s) = (Inr (), s') \<and> store_ok D s' \<and>
      contents D s' = contents D s"
    and "\<exists>s'. boot_pack_store D False now (crashed_swapped D src wr s) = (Inr (), s') \<and> store_ok D s' \<and>
      (\<forall>h. contents D s' h = (if dead_in s src h then None else contents D s h))"
proof -
  let ?dst = "next_pack_id (packs_dir s)"
  obtain G where G: "layout_ok D G s" using assms(1) by (auto simp: store_ok_def)
  then have p: "packs_ok D G (pack_id (writer s)) (packs_dir s)" by (simp add: layout_ok_def)
  obtain ps where "G src = Some ps" using packs_okD(6) [OF p assms(3)] assms(4) by blast
  then obtain content qs n where c: "compaction D G s src ?dst content qs"
    and run: "compact_files D src s = (Inr (?dst, map (\<lambda>(h, p, off, len). (h, off)) (entries D ?dst 0 qs)), copied_files D ?dst qs n s)"
    using compact_layout [OF G assms(2,3)] by blast
  show "\<exists>s'. boot_pack_store D False now (crashed_sealed D src wr s) = (Inr (), s') \<and> store_ok D s' \<and>
      contents D s' = contents D s"
    using boot_left_over [OF G left_over_sealed [OF c, of n], of now wr] run by (simp add: crashed_sealed_def)
  have "crashed_swapped D src wr s = ((copied_files D ?dst qs n s)\<lparr>conn := conn (compacted D src ?dst qs n s)\<rparr>)\<lparr>writer := wr\<rparr>"
    by (simp add: crashed_swapped_def run copied_files_def compacted_def)
  then show "\<exists>s'. boot_pack_store D False now (crashed_swapped D src wr s) = (Inr (), s') \<and> store_ok D s' \<and>
      (\<forall>h. contents D s' h = (if dead_in s src h then None else contents D s h))"
    using boot_left_over [OF compacted_layout [OF c, of n] left_over_swapped [OF c, of n], of now wr]
      compacted_contents [OF c, of n] by auto
qed

text \<open>A crash between the renaming of a sealed pack and the creation of the next one: opening goes on where
  the rotation stopped.\<close>

definition crashed_renamed :: "digests \<Rightarrow> open_pack \<Rightarrow> pack_store \<Rightarrow> pack_store" where
  "crashed_renamed D wr s = (snd (seal_open_pack D s))\<lparr>writer := wr\<rparr>"

lemma crash_renamed:
  assumes "store_ok D s" "room s"
  shows "\<exists>s'. boot_pack_store D False now (crashed_renamed D wr s) = (Inr (), s') \<and> store_ok D s' \<and> contents D s' = contents D s"
proof -
  obtain G where G: "layout_ok D G s" using assms(1) by (auto simp: store_ok_def)
  let ?w = "pack_id (writer s)"
  have p: "packs_ok D G ?w (packs_dir s)" using G by (simp add: layout_ok_def)
  obtain ps where ps: "G ?w = Some ps" using packs_okD(8) [OF p] by blast
  obtain n where seal: "seal_open_pack D s = (Inr (),
      s\<lparr>packs_dir := AList.update (pack_path_sealed ?w) (body D ps @ tail_bytes D n) (AList.delete (pack_path_open ?w) (packs_dir s)),
        writer := (writer s)\<lparr>file_pos := pack_offset (writer s) + TAIL_LEN\<rparr>\<rparr>)" (is "_ = (_, ?s1)")
    using seal_run [OF G ps] by blast
  have "canonical (packs_dir ?s1)" using packs_okD(1) [OF p] by simp
  then have "p \<notin> set (opens (packs_dir ?s1))" for p
    unfolding opens_iff list_packs_iff(2) [OF \<open>canonical (packs_dir ?s1)\<close>] using packs_okD(3) [OF p] by (simp add: file_simps)
  then have "opens (packs_dir ?s1) = []" by (cases "opens (packs_dir ?s1)") auto
  then have same: "recover_and_open_current_pack D now (?s1\<lparr>writer := wr\<rparr>) = rotate_pack D s"
    if "rotate_pack D s = (Inr (), s2)" for s2
    using that
    by (auto simp: recover_and_open_current_pack_def opens_def [symmetric] rotate_pack_def io_bind_def seal
        create_new_open_pack_def Let_def split: if_splits)
  obtain s2 G2 where s2: "rotate_pack D s = (Inr (), s2)" "layout_ok D G2 s2" "contents D s2 = contents D s"
    using rotate_ok [OF G assms(2)] by blast
  have "recover_and_open_current_pack D now (crashed_renamed D wr s) = (Inr (), s2)"
    using same [OF s2(1)] s2(1) by (simp add: crashed_renamed_def seal)
  with s2 show ?thesis using boot_ok [of D now _ s2] by (auto simp: store_ok_def)
qed

section \<open>Steps\<close>

datatype crash =
    InWrite crash_point
  | InCopy bytes
  | SealedCopy "32 word"
  | Swapped "32 word"
  | Renamed

text \<open>What a crash leaves on disk, with the writer gone.\<close>

definition crash_state :: "digests \<Rightarrow> crash \<Rightarrow> open_pack \<Rightarrow> pack_store \<Rightarrow> pack_store" where
  "crash_state D c wr s =
     (case c of
        InWrite cp \<Rightarrow> crashed D cp wr s
      | InCopy bs \<Rightarrow> \<lparr>packs_dir = AList.update (pack_path_open (next_pack_id (packs_dir s))) bs (packs_dir s),
                      conn = conn s, writer = wr\<rparr>
      | SealedCopy src \<Rightarrow> crashed_sealed D src wr s
      | Swapped src \<Rightarrow> crashed_swapped D src wr s
      | Renamed \<Rightarrow> crashed_renamed D wr s)"

definition crash_possible :: "digests \<Rightarrow> crash \<Rightarrow> pack_store \<Rightarrow> bool" where
  "crash_possible D c s =
     (case c of
        InWrite cp \<Rightarrow> crash_ok D cp s
      | InCopy bs \<Rightarrow> room s
      | SealedCopy src \<Rightarrow> room s \<and> src \<noteq> pack_id (writer s) \<and> map_of (packs_dir s) (pack_path_sealed src) \<noteq> None
      | Swapped src \<Rightarrow> room s \<and> src \<noteq> pack_id (writer s) \<and> map_of (packs_dir s) (pack_path_sealed src) \<noteq> None
      | Renamed \<Rightarrow> room s)"

datatype pack_event =
    EvPut nat bytes
  | EvTombstone bytes
  | EvTombstoneAll
  | EvRotate
  | EvGc "nat \<Rightarrow> nat \<Rightarrow> bool"
  | EvSweep
  | EvRebuild
  | EvCrash crash

inductive pack_step :: "digests \<Rightarrow> pack_event \<Rightarrow> pack_store \<Rightarrow> pack_store \<Rightarrow> bool" for D where
  step_put: "fits bs \<Longrightarrow> room s \<Longrightarrow> put D target now NoFault bs s = (r, s') \<Longrightarrow> pack_step D (EvPut target bs) s s'"
| step_tombstone: "pack_step D (EvTombstone h) s (tombstone now h s)"
| step_tombstone_all: "tombstone_all_live now s = (n, s') \<Longrightarrow> pack_step D EvTombstoneAll s s'"
| step_rotate: "room s \<Longrightarrow> rotate_open_pack D s = (r, s') \<Longrightarrow> pack_step D EvRotate s s'"
| step_gc: "room_for (length (list_packs (packs_dir s))) s \<Longrightarrow> run_gc D sparse s = (r, s') \<Longrightarrow> pack_step D (EvGc sparse) s s'"
| step_sweep: "sweep_orphan_sealed_packs s = (n, s') \<Longrightarrow> pack_step D EvSweep s s'"
| step_rebuild: "run_rebuild_index D now s = (r, s') \<Longrightarrow> pack_step D EvRebuild s s'"
| step_crash: "crash_possible D c s \<Longrightarrow> boot_pack_store D False now (crash_state D c wr s) = (r, s') \<Longrightarrow>
    pack_step D (EvCrash c) s s'"

text \<open>What each step may do to the contents.\<close>

definition dropped :: "('k \<rightharpoonup> 'v \<times> bool) \<Rightarrow> ('k \<rightharpoonup> 'v \<times> bool) \<Rightarrow> bool" where
  "dropped C C' \<longleftrightarrow> (\<forall>k. C' k = C k \<or> C' k = None \<and> (\<exists>x. C k = Some (x, False)))"

fun contents_step :: "digests \<Rightarrow> pack_event \<Rightarrow> (bytes \<rightharpoonup> bytes \<times> bool) \<Rightarrow> (bytes \<rightharpoonup> bytes \<times> bool) \<Rightarrow> bool" where
  "contents_step D (EvPut _ bs) C C' \<longleftrightarrow> C' = put_spec (blob_hash D bs) bs C"
| "contents_step D (EvTombstone h) C C' \<longleftrightarrow> C' = tombstone_spec h C"
| "contents_step D EvTombstoneAll C C' \<longleftrightarrow> C' = tombstone_all_spec C"
| "contents_step D (EvGc _) C C' \<longleftrightarrow> dropped C C'"
| "contents_step D (EvCrash (InWrite cp)) C C' \<longleftrightarrow> C' = crash_spec D cp C"
| "contents_step D (EvCrash (Swapped _)) C C' \<longleftrightarrow> dropped C C'"
| "contents_step D _ C C' \<longleftrightarrow> C' = C"

lemma rebuild_ok:
  assumes "store_ok D s"
  shows "\<exists>stats s'. run_rebuild_index D now s = (Inr stats, s') \<and> store_ok D s' \<and> contents D s' = contents D s"
proof -
  obtain G where G: "layout_ok D G s" using assms by (auto simp: store_ok_def)
  then have "keyed (conn s)" by (simp add: layout_ok_def)
  from rebuild_restores [OF G this, of now] show ?thesis by (auto simp: store_ok_def)
qed

lemma dead_contents:
  assumes "store_ok D s" "dead_in s p h"
  shows "\<exists>x. contents D s h = Some (x, False)"
  using assms contents_view unfolding store_ok_def dead_in_def by (metis (full_types))

lemma gc_dropped:
  assumes "store_ok D s" "\<And>h. contents D s' h = (if Q h then None else contents D s h)" "\<And>h. Q h \<Longrightarrow> \<exists>p. dead_in s p h"
  shows "dropped (contents D s) (contents D s')"
  using assms(2,3) dead_contents [OF assms(1)] unfolding dropped_def by metis

lemma recover_write:
  assumes "store_ok D s" "crash_ok D cp s"
  shows "\<exists>s'. recover_and_open_current_pack D now (crashed D cp wr s) = (Inr (), s') \<and> store_ok D s' \<and>
    contents D s' = crash_spec D cp (contents D s)"
proof (cases "\<exists>bs. cp = NoRow bs")
  case True
  with recover_no_row [OF assms(1)] assms(2) show ?thesis by (auto simp: crash_ok_def crash_spec_def)
next
  case False
  then have "crash_spec D cp (contents D s) = contents D s" by (cases cp) (simp_all add: crash_spec_def)
  with recover_torn [OF assms] False show ?thesis by auto
qed

lemma boot_crash:
  assumes s: "store_ok D s" and c: "crash_possible D c s"
  shows "\<exists>s'. boot_pack_store D False now (crash_state D c wr s) = (Inr (), s') \<and> store_ok D s' \<and>
    contents_step D (EvCrash c) (contents D s) (contents D s')"
proof (cases c)
  case (InWrite cp)
  then obtain s1 where "recover_and_open_current_pack D now (crashed D cp wr s) = (Inr (), s1)" "store_ok D s1"
    "contents D s1 = crash_spec D cp (contents D s)"
    using recover_write [OF s, of cp now wr] c by (auto simp: crash_possible_def)
  with boot_ok [of D now "crashed D cp wr s" s1] InWrite show ?thesis by (auto simp: crash_state_def)
next
  case (InCopy bs)
  then have "room s" using c by (simp add: crash_possible_def)
  from recover_torn_copy [OF s this, of now bs wr] InCopy show ?thesis
    using boot_ok by (fastforce simp: crash_state_def)
next
  case (SealedCopy src)
  with crash_compact(1) [OF s, of src now wr] c show ?thesis by (auto simp: crash_possible_def crash_state_def)
next
  case (Swapped src)
  then obtain s' where "boot_pack_store D False now (crashed_swapped D src wr s) = (Inr (), s')" "store_ok D s'"
    "\<And>h. contents D s' h = (if dead_in s src h then None else contents D s h)"
    using crash_compact(2) [OF s, of src now wr] c by (auto simp: crash_possible_def)
  with gc_dropped [OF s, of s' "dead_in s src"] Swapped show ?thesis by (auto simp: crash_state_def)
next
  case Renamed
  with crash_renamed [OF s, of now wr] c show ?thesis by (auto simp: crash_possible_def crash_state_def)
qed

theorem pack_step_ok:
  assumes "pack_step D ev s s'" "store_ok D s" "hash_ok D"
  shows "store_ok D s' \<and> contents_step D ev (contents D s) (contents D s')"
  using assms(1)
proof cases
  case (step_put bs target now r)
  with put_ok [OF assms(2,3) step_put(2,3), of target now] show ?thesis by auto
next
  case (step_tombstone h now)
  with tombstone_ok [OF assms(2,3)] show ?thesis by simp
next
  case (step_tombstone_all now n)
  with tombstone_all_live_ok [OF assms(2,3), of now] show ?thesis by simp
next
  case (step_rotate r)
  with rotate_open_pack_ok [OF assms(2) step_rotate(2)] show ?thesis by auto
next
  case (step_gc sparse r)
  then obtain "store_ok D s'"
    "\<And>h. contents D s' h = (if garbage sparse (sealed_ids (list_packs (packs_dir s))) s h then None else contents D s h)"
    using run_gc_ok [OF assms(2) step_gc(2), of sparse] by auto
  with gc_dropped [OF assms(2), of s' "garbage sparse (sealed_ids (list_packs (packs_dir s))) s"] step_gc(1)
  show ?thesis by (auto simp: garbage_def)
next
  case (step_sweep n)
  obtain G where G: "layout_ok D G s" using assms(2) by (auto simp: store_ok_def)
  from sweep_ok [OF G left_over_refl [OF G]] step_sweep show ?thesis by simp
next
  case (step_rebuild now r)
  with rebuild_ok [OF assms(2), of now] show ?thesis by auto
next
  case (step_crash c now wr r)
  with boot_crash [OF assms(2) step_crash(2), of now wr] show ?thesis by auto
qed

section \<open>The interface\<close>

text \<open>Sequences of steps of any kind.\<close>

inductive runs :: "('e \<Rightarrow> 's \<Rightarrow> 's \<Rightarrow> bool) \<Rightarrow> 'e list \<Rightarrow> 's \<Rightarrow> 's \<Rightarrow> bool" for step where
  runs_none: "runs step [] s s"
| runs_more: "step e s s1 \<Longrightarrow> runs step es s1 s' \<Longrightarrow> runs step (e # es) s s'"

inductive_cases runs_ConsE: "runs step (e # es) s s'"

text \<open>
  A store of values under keys, of which a caller sees the live ones. Each step changes the abstract
  store as its specification says, and reading never fails.
\<close>

locale blob_store =
  fixes step :: "'e \<Rightarrow> 's \<Rightarrow> 's \<Rightarrow> bool"
    and inv :: "'s \<Rightarrow> bool"
    and abs_of :: "'s \<Rightarrow> 'k \<rightharpoonup> 'v \<times> bool"
    and spec :: "'e \<Rightarrow> ('k \<rightharpoonup> 'v \<times> bool) \<Rightarrow> ('k \<rightharpoonup> 'v \<times> bool) \<Rightarrow> bool"
    and get :: "'k \<Rightarrow> 's \<Rightarrow> 'err + 'v option"
  assumes step_inv: "inv s \<Longrightarrow> step e s s' \<Longrightarrow> inv s'"
    and step_spec: "inv s \<Longrightarrow> step e s s' \<Longrightarrow> spec e (abs_of s) (abs_of s')"
    and get_spec: "inv s \<Longrightarrow> get k s = Inr (case abs_of s k of Some (x, True) \<Rightarrow> Some x | _ \<Rightarrow> None)"
begin

lemma runs_inv: "runs step es s s' \<Longrightarrow> inv s \<Longrightarrow> inv s'"
  by (induction rule: runs.induct) (auto intro: step_inv)

lemma runs_spec: "runs step es s s' \<Longrightarrow> inv s \<Longrightarrow> runs spec es (abs_of s) (abs_of s')"
  by (induction rule: runs.induct) (auto intro: runs.intros step_inv step_spec)

lemma runs_pred:
  assumes "runs step es s s'" "inv s" "P (abs_of s)" "\<And>e C C'. e \<in> set es \<Longrightarrow> spec e C C' \<Longrightarrow> P C \<Longrightarrow> P C'"
  shows "P (abs_of s')"
  using assms
proof (induction rule: runs.induct)
  case (runs_more e s s1 es s')
  have "P (abs_of s1)"
    using runs_more.prems(3) [OF _ step_spec [OF runs_more.prems(1) runs_more.hyps(1)] runs_more.prems(2)] by simp
  with step_inv [OF runs_more.prems(1) runs_more.hyps(1)] show ?case
  proof (rule runs_more.IH)
    show "P C'" if "f \<in> set es" "spec f C C'" "P C" for f C C'
      using that by (intro runs_more.prems(3) [OF _ that(2,3)]) simp
  qed
qed simp

lemma runs_keep:
  assumes "runs step es s s'" "inv s" "abs_of s k = Some (x, True)"
    and "\<And>e C C'. e \<in> set es \<Longrightarrow> spec e C C' \<Longrightarrow> C k = Some (x, True) \<Longrightarrow> C' k = Some (x, True)"
  shows "get k s' = Inr (Some x)"
  using runs_pred [where P = "\<lambda>C. C k = Some (x, True)", OF assms(1-3)] assms(4) get_spec [OF runs_inv [OF assms(1,2)]] by simp

lemma runs_gone:
  assumes "runs step es s s'" "inv s" "\<forall>x. abs_of s k \<noteq> Some (x, True)"
    and "\<And>e C C'. e \<in> set es \<Longrightarrow> spec e C C' \<Longrightarrow> \<forall>x. C k \<noteq> Some (x, True) \<Longrightarrow> \<forall>x. C' k \<noteq> Some (x, True)"
  shows "get k s' = Inr None"
  using runs_pred [where P = "\<lambda>C. \<forall>x. C k \<noteq> Some (x, True)", OF assms(1-3)] assms(4)
    get_spec [OF runs_inv [OF assms(1,2)], of k] by (auto split: option.splits bool.splits)

end

interpretation pack: blob_store "pack_step D" "\<lambda>s. store_ok D s \<and> hash_ok D" "contents D" "contents_step D" "get_blob D" for D
proof
  fix s e s' k assume s: "store_ok D s \<and> hash_ok D"
  show "get_blob D k s = Inr (case contents D s k of Some (x, True) \<Rightarrow> Some x | _ \<Rightarrow> None)"
    using get_contents s by blast
  assume "pack_step D e s s'"
  with pack_step_ok s show "store_ok D s' \<and> hash_ok D" "contents_step D e (contents D s) (contents D s')" by blast+
qed

text \<open>The steps that tombstone a hash, and those that put it.\<close>

fun tombstones :: "bytes \<Rightarrow> pack_event \<Rightarrow> bool" where
  "tombstones h (EvTombstone k) \<longleftrightarrow> k = h"
| "tombstones h EvTombstoneAll \<longleftrightarrow> True"
| "tombstones h _ \<longleftrightarrow> False"

fun puts :: "digests \<Rightarrow> bytes \<Rightarrow> pack_event \<Rightarrow> bool" where
  "puts D h (EvPut _ bs) \<longleftrightarrow> blob_hash D bs = h"
| "puts D h (EvCrash (InWrite (NoRow bs))) \<longleftrightarrow> blob_hash D bs = h"
| "puts D h _ \<longleftrightarrow> False"

lemma dropped_live: "dropped C C' \<Longrightarrow> C k = Some (x, True) \<longleftrightarrow> C' k = Some (x, True)"
  unfolding dropped_def by (metis option.distinct(1) option.inject prod.inject)

lemma put_spec_live: "C h = Some (x, True) \<Longrightarrow> put_spec k bs C h = Some (x, True)"
  by (auto simp: put_spec_def)

lemma contents_step_live:
  assumes "contents_step D e C C'" "C h = Some (x, True)" "\<not> tombstones h e"
  shows "C' h = Some (x, True)"
  using assms
  by (induction D e C C' rule: contents_step.induct)
    (auto simp: put_spec_live dropped_live tombstone_spec_def crash_spec_def split: crash_point.splits)

lemma contents_step_dead:
  assumes "contents_step D e C C'" "\<forall>x. C h \<noteq> Some (x, True)" "\<not> puts D h e"
  shows "\<forall>x. C' h \<noteq> Some (x, True)"
  using assms
  by (induction D e C C' rule: contents_step.induct)
    (auto simp: put_spec_def dropped_live tombstone_spec_def tombstone_all_spec_def crash_spec_def split: crash_point.splits)

text \<open>The states that a store can be in: a new directory, and all steps from there.\<close>

definition reachable :: "digests \<Rightarrow> pack_store \<Rightarrow> bool" where
  "reachable D s \<longleftrightarrow> (\<exists>es now wr s0. boot_pack_store D False now \<lparr>packs_dir = [], conn = [], writer = wr\<rparr> = (Inr (), s0) \<and>
     runs (pack_step D) es s0 s)"

lemma boot_empty:
  "\<exists>s. boot_pack_store D False now \<lparr>packs_dir = [], conn = [], writer = wr\<rparr> = (Inr (), s) \<and> store_ok D s \<and>
    contents D s = Map.empty"
  using open_empty [of D now wr] boot_ok by fastforce

lemma reachable_ok:
  assumes "hash_ok D" "reachable D s"
  shows "store_ok D s"
proof -
  obtain es now wr s0 where r: "boot_pack_store D False now \<lparr>packs_dir = [], conn = [], writer = wr\<rparr> = (Inr (), s0)"
    "runs (pack_step D) es s0 s"
    using assms(2) unfolding reachable_def by blast
  then have "store_ok D s0" using boot_empty [of D now wr] by auto
  with pack.runs_inv [OF r(2)] assms(1) show ?thesis by blast
qed

end
