(* ===== verification/PackRequests.thy ===== *)
theory PackRequests
  imports PackSession
begin

text \<open>
  Two requests that combine operations: reading while a compaction moves the blob, and clearing the
  whole cache.
\<close>

section \<open>Reading during a compaction\<close>

lemma get_attempt_live:
  assumes "view t h = Some (p, off, len, False)" "read_frame_payload D fs p off len = Inr x" "blob_hash D x = h"
  shows "get_attempts D h n l ((t, fs) # seen) = Inr (Some x)"
proof -
  obtain r where "select_row h t = Some r" "pack_file_id r = p" "row_offset r = off" "row_length r = len" "tombstoned_at r = None"
    using assms(1) by (auto simp: view_def row_place_def)
  with assms(2,3) show ?thesis by simp
qed

lemma get_attempt_moved:
  assumes "view t h = Some (p, off, len, False)" "read_frame_payload D fs p off len = Inl NotFound"
  shows "get_attempts D h 0 None ((t, fs) # seen) = get_attempts D h 1 (Some (p, off)) seen"
proof -
  obtain r where "select_row h t = Some r" "pack_file_id r = p" "row_offset r = off" "row_length r = len" "tombstoned_at r = None"
    using assms(1) by (auto simp: view_def row_place_def)
  with assms(2) show ?thesis by simp
qed

lemma get_attempt_none:
  assumes "\<And>p off len. view t h \<noteq> Some (p, off, len, False)"
  shows "get_attempts D h n l ((t, fs) # seen) = Inr None"
proof (cases "select_row h t")
  case (Some r)
  then have "tombstoned_at r \<noteq> None" using assms [of "pack_file_id r" "row_offset r" "row_length r"] select_view [OF Some] by auto
  with Some show ?thesis by simp
qed simp

text \<open>A live blob is at its place.\<close>

lemma contents_live:
  assumes "layout_ok D G s" "contents D s h = Some (x, True)"
  obtains p off len where "view (conn s) h = Some (p, off, len, False)"
    "read_frame_payload D (packs_dir s) p off len = Inr x" "blob_hash D x = h"
proof -
  obtain p off len where v: "view (conn s) h = Some (p, off, len, False)" "read_frame_payload D (packs_dir s) p off len = Inr x"
    using assms(2) by (auto simp: contents_def split: option.splits sum.splits)
  moreover have "store_ok D s" using assms(1) by (auto simp: store_ok_def)
  ultimately show thesis using that contents_hash [OF _ assms(2)] by blast
qed

lemma get_during_compaction:
  assumes "store_ok D s" "room s" "src \<noteq> pack_id (writer s)" "map_of (packs_dir s) (pack_path_sealed src) \<noteq> None"
    and run: "compact_pack D src s = (Inr (), s')"
  shows "get_attempts D h 0 None ((conn s, packs_dir s') # (conn s', packs_dir s') # seen) = get_blob D h s"
proof -
  let ?dst = "next_pack_id (packs_dir s)"
  obtain G where G: "layout_ok D G s" using assms(1) by (auto simp: store_ok_def)
  then have p: "packs_ok D G (pack_id (writer s)) (packs_dir s)" by (simp add: layout_ok_def)
  obtain ps where "G src = Some ps" using packs_okD(6) [OF p assms(3)] assms(4) by blast
  then obtain content qs n where c: "compaction D G s src ?dst content qs" and s': "s' = compacted D src ?dst qs n s"
    using compact_layout [OF G assms(2,3)] run by auto
  note L = compacted_layout [OF c, of n, folded s']
  show ?thesis
  proof (cases "\<exists>x. contents D s h = Some (x, True)")
    case False
    then have "view (conn s) h \<noteq> Some (q, off, len, False)" for q off len
      using contents_view [OF G, of h q off len False] by auto
    from get_attempt_none [OF this] False show ?thesis
      unfolding get_contents [OF assms(1)] by (auto split: option.split bool.split)
  next
    case True
    then obtain x where x: "contents D s h = Some (x, True)" by blast
    obtain q off len where v: "view (conn s) h = Some (q, off, len, False)" "blob_hash D x = h"
      using contents_live [OF G x] .
    have "\<not> dead_in s src h" using v(1) by (simp add: dead_in_def)
    then have x': "contents D s' h = Some (x, True)" using compacted_contents [OF c, of n h] x s' by simp
    obtain q' off' len' where v': "view (conn s') h = Some (q', off', len', False)"
      "read_frame_payload D (packs_dir s') q' off' len' = Inr x"
      using contents_live [OF L x'] .
    have "get_attempts D h 0 None ((conn s, packs_dir s') # (conn s', packs_dir s') # seen) = Inr (Some x)"
    proof (cases "q = src")
      case True
      have "map_of (packs_dir s) (pack_path_open src) = None" using packs_okD(3) [OF p assms(3)] .
      then have "read_frame_payload D (packs_dir s') src off len = Inl NotFound"
        using compactionD(5) [OF c] by (simp add: s' compacted_def read_frame_payload_def file_simps)
      then show ?thesis
        using get_attempt_moved [OF v(1)] get_attempt_live [OF v' v(2)] True by simp
    next
      case False
      moreover have "q \<noteq> ?dst" using compactionD(14) [OF c v(1)] .
      ultimately have "view (conn s') h = view (conn s) h" using compaction_view(4) [OF c, of q] v(1) s' by simp
      with v v' show ?thesis using get_attempt_live [OF v(1)] by simp
    qed
    with x show ?thesis unfolding get_contents [OF assms(1)] by simp
  qed
qed

section \<open>Clearing the cache\<close>

lemma all_dead_density:
  assumes "r \<in> set t" "pack_file_id r = p" "\<forall>r \<in> set t. tombstoned_at r \<noteq> None"
  shows "\<exists>n b. pack_density t p = (n, n, b) \<and> n \<noteq> 0"
proof -
  have "filter (\<lambda>r. tombstoned_at r \<noteq> None) (filter (\<lambda>r. pack_file_id r = p) t) = filter (\<lambda>r. pack_file_id r = p) t"
    by (rule filter_True) (use assms(3) in simp)
  moreover have "filter (\<lambda>r. pack_file_id r = p) t \<noteq> []" using assms(1,2) by (auto simp: filter_empty_conv)
  ultimately show ?thesis by (simp add: pack_density_def Let_def)
qed

lemma open_pack_empty:
  assumes "layout_ok D G s" "pack_offset (writer s) = 0"
  shows "view (conn s) h \<noteq> Some (pack_id (writer s), off, len, b)"
proof
  assume "view (conn s) h = Some (pack_id (writer s), off, len, b)"
  from view_entry [OF assms(1) this] obtain ps where ps: "G (pack_id (writer s)) = Some ps"
    "(h, pack_id (writer s), off, len) \<in> set (entries D (pack_id (writer s)) 0 ps)" by blast
  have "body D ps = []" using assms ps(1) by (simp add: layout_ok_def writer_ok_def)
  then have "ps = []" by (cases ps) (auto simp: frame_def frame_header_def FRAME_MAGIC_def)
  with ps(2) show False by simp
qed

lemma all_garbage:
  assumes s: "store_ok D s" and w: "pack_offset (writer s) = 0" and dead: "\<And>h x. contents D s h \<noteq> Some (x, True)"
    and sparse: "\<And>n. n \<noteq> 0 \<Longrightarrow> sparse n n" and h: "contents D s h \<noteq> None"
  shows "garbage sparse (sealed_ids (list_packs (packs_dir s))) s h"
proof -
  obtain G where G: "layout_ok D G s" using s by (auto simp: store_ok_def)
  then have p: "packs_ok D G (pack_id (writer s)) (packs_dir s)" and k: "keyed (conn s)" by (simp_all add: layout_ok_def)
  have tomb: "tombstoned_at r \<noteq> None" if r: "r \<in> set (conn s)" for r
  proof
    assume "tombstoned_at r = None"
    then have "view (conn s) (content_hash r) = Some (pack_file_id r, row_offset r, row_length r, False)"
      using select_view [OF select_row_keyed [OF k r]] by simp
    from contents_view [OF G this] dead show False by metis
  qed
  obtain r where r: "select_row h (conn s) = Some r" using h by (auto simp: contents_def view_def split: option.splits)
  then have mem: "r \<in> set (conn s)" using select_row_hash by blast
  let ?p = "pack_file_id r"
  have v: "view (conn s) h = Some (?p, row_offset r, row_length r, True)" using select_view [OF r] tomb [OF mem] by simp
  then have "?p \<noteq> pack_id (writer s)" using open_pack_empty [OF G w, of h] by metis
  moreover obtain ps where "G ?p = Some ps" using view_entry [OF G v] by blast
  ultimately have "?p \<in> sealed_ids (list_packs (packs_dir s))"
    using packs_okD(7) [OF p] list_packs_iff(1) [OF packs_okD(1) [OF p]] by (fastforce simp: sealed_ids_def)
  moreover have "sparse_pack sparse s ?p"
    using all_dead_density [OF mem refl] tomb sparse by (auto simp: sparse_pack_def)
  ultimately show ?thesis using v by (auto simp: garbage_def dead_in_def)
qed

lemma clear_cache_ok:
  assumes s: "store_ok D s" "hash_ok D" "room s" and sparse: "\<And>n. n \<noteq> 0 \<Longrightarrow> sparse n n"
    and r: "room_for (length (list_packs (packs_dir s2))) s2" and s2: "s2 = snd (rotate_open_pack D (snd (tombstone_all_live now s)))"
  shows "\<exists>st s'. handle_clear_cache D sparse now s = (st, s') \<and> store_ok D s' \<and> contents D s' = Map.empty"
proof -
  obtain n s1 where s1: "tombstone_all_live now s = (n, s1)" by fastforce
  note t = tombstone_all_live_ok [OF s(1,2), of now, unfolded s1 snd_conv]
  have "room s1" using s(3) t(4) by (simp add: room_def)
  from rotate_open_pack_ok [OF t(1) this]
  have rot: "store_ok D s2" "contents D s2 = contents D s1" "pack_offset (writer s2) = 0" by (auto simp: s2 s1)
  have dead: "contents D s2 h \<noteq> Some (x, True)" for h x by (auto simp: rot(2) t(2) tombstone_all_spec_def)
  obtain st s3 where gc: "run_gc D sparse s2 = (Inr st, s3)" "store_ok D s3"
    "\<And>h. contents D s3 h = (if garbage sparse (sealed_ids (list_packs (packs_dir s2))) s2 h then None else contents D s2 h)"
    using run_gc_ok [OF rot(1) r, of sparse] by blast
  have "contents D s3 h = None" for h
    using all_garbage [where h = h and sparse = sparse, OF rot(1,3) dead sparse] by (cases "contents D s2 h") (auto simp: gc(3))
  then have "contents D s3 = Map.empty" by blast
  moreover have "handle_clear_cache D sparse now s = ((n, bytes_reclaimed st), s3)"
    using gc(1) by (simp add: handle_clear_cache_def s1 run_gc_pass_def s2)
  ultimately show ?thesis using gc(2) by blast
qed

end
