(* ===== verification/PackProperties.thy ===== *)
theory PackProperties
  imports PackRequests
begin

text \<open>
  The properties of the attachment store, each with a small store that meets its hypotheses, and the
  places where calls that overlap or fail lose data.
\<close>

section \<open>A small store\<close>

text \<open>Digests that can be computed: the first bytes as checksum, the bytes filled up to 32 as hash.\<close>

definition demo_digests :: digests where
  "demo_digests = \<lparr>xxh3_64 = (\<lambda>b. word_of_int (from_le b)), blob_hash = (\<lambda>b. take 32 (b @ replicate 32 0)), crc32 = (\<lambda>b. 7)\<rparr>"

definition demo_writer :: open_pack where
  "demo_writer = \<lparr>pack_id = 0, file_pos = 0, pack_offset = 0\<rparr>"

definition demo_new :: pack_store where
  "demo_new = snd (boot_pack_store demo_digests False 0 \<lparr>packs_dir = [], conn = [], writer = demo_writer\<rparr>)"

text \<open>Two blobs, the first in a sealed pack.\<close>

definition demo_one :: pack_store where
  "demo_one = snd (put demo_digests 40 1 NoFault [1, 2, 3] demo_new)"

definition demo_store :: pack_store where
  "demo_store = snd (put demo_digests 40 1 NoFault [4, 5, 6, 7, 8, 9] demo_one)"

abbreviation demo_hash :: bytes where
  "demo_hash \<equiv> blob_hash demo_digests [1, 2, 3]"

text \<open>And the first one tombstoned.\<close>

definition demo_dead :: pack_store where
  "demo_dead = tombstone 2 demo_hash demo_store"

lemma demo_hash_ok: "hash_ok demo_digests"
  by (simp add: hash_ok_def demo_digests_def min_def)

lemma demo_new_ok: "store_ok demo_digests demo_new"
  using boot_empty [of demo_digests 0 demo_writer] by (auto simp: demo_new_def)

lemma demo_fits: "fits [1, 2, 3]" "fits [4, 5, 6, 7, 8, 9]" "fits [7, 7]"
  by (simp_all add: fits_def MAX_FRAME_PAYLOAD_def)

lemma demo_room: "room demo_new" "room demo_one" "room demo_store" "room demo_dead"
  by code_simp+

lemma demo_one_ok: "store_ok demo_digests demo_one"
  using put_ok [OF demo_new_ok demo_hash_ok demo_fits(1) demo_room(1), of 40 1] by (auto simp: demo_one_def)

lemma demo_store_ok: "store_ok demo_digests demo_store"
  using put_ok [OF demo_one_ok demo_hash_ok demo_fits(2) demo_room(2), of 40 1] by (auto simp: demo_store_def)

lemma demo_dead_ok: "store_ok demo_digests demo_dead"
  using tombstone_ok(1) [OF demo_store_ok demo_hash_ok] by (simp add: demo_dead_def)

lemma demo_runs: "runs (pack_step demo_digests) [EvPut 40 [1, 2, 3], EvPut 40 [4, 5, 6, 7, 8, 9]] demo_new demo_store"
proof -
  have a: "pack_step demo_digests (EvPut 40 [1, 2, 3]) demo_new demo_one"
    unfolding demo_one_def by (rule step_put [OF demo_fits(1) demo_room(1) prod.collapse [symmetric]])
  have b: "pack_step demo_digests (EvPut 40 [4, 5, 6, 7, 8, 9]) demo_one demo_store"
    unfolding demo_store_def by (rule step_put [OF demo_fits(2) demo_room(2) prod.collapse [symmetric]])
  show ?thesis by (rule runs_more, rule a, rule runs_more, rule b, rule runs_none)
qed

lemma demo_reachable: "reachable demo_digests demo_store"
proof -
  have "boot_pack_store demo_digests False 0 \<lparr>packs_dir = [], conn = [], writer = demo_writer\<rparr> = (Inr (), demo_new)"
    using boot_empty [of demo_digests 0 demo_writer] by (auto simp: demo_new_def)
  with demo_runs show ?thesis unfolding reachable_def by blast
qed

section \<open>Refinement\<close>

text \<open>
  C12: Every sequence of calls, garbage collections, crashes with the boot after them, sweeps and
  rebuilds keeps the invariant of the store, and its effect on the contents, the map from hashes to
  bytes and whether they are live, is what the specification of each step says.
\<close>

theorem pack_runs_refine:
  assumes "hash_ok D" "store_ok D s" "runs (pack_step D) es s s'"
  shows "store_ok D s' \<and> runs (contents_step D) es (contents D s) (contents D s')"
  using pack.runs_inv [OF assms(3)] pack.runs_spec [OF assms(3)] assms(1,2) by blast

lemma pack_runs_refine_witness:
  "store_ok demo_digests demo_store \<and>
    runs (contents_step demo_digests) [EvPut 40 [1, 2, 3], EvPut 40 [4, 5, 6, 7, 8, 9]]
      (contents demo_digests demo_new) (contents demo_digests demo_store)"
  by (rule pack_runs_refine [OF demo_hash_ok demo_new_ok demo_runs])


lemma demo_more_runs:
  "runs (pack_step demo_digests) [EvTombstone (blob_hash demo_digests [4, 5, 6, 7, 8, 9]), EvRebuild] demo_store
    (snd (run_rebuild_index demo_digests 9 (tombstone 5 (blob_hash demo_digests [4, 5, 6, 7, 8, 9]) demo_store)))"
  by (rule runs_more, rule step_tombstone, rule runs_more, rule step_rebuild, rule prod.collapse [symmetric], rule runs_none)


text \<open>
  A blob that cannot be read, because it was never stored, or tombstoned, or collected, does not
  come back over any sequence of steps in which its bytes are not put again.
\<close>

theorem hidden_blob_stays_hidden:
  assumes "hash_ok D" "reachable D s" "get_blob D h s = Inr None" "runs (pack_step D) es s s'"
    and "list_all (\<lambda>e. \<not> puts D h e) es"
  shows "get_blob D h s' = Inr None"
proof (rule pack.runs_gone [OF assms(4)])
  show ok: "store_ok D s \<and> hash_ok D" using reachable_ok assms(1,2) by blast
  show "\<forall>x. contents D s h \<noteq> Some (x, True)" using assms(3) get_contents ok by auto
  show "\<forall>x. C' h \<noteq> Some (x, True)" if "e \<in> set es" "contents_step D e C C'" "\<forall>x. C h \<noteq> Some (x, True)" for e C C'
    using contents_step_dead [OF that(2,3)] that(1) assms(5) by (auto simp: list_all_iff)
qed

lemma hidden_blob_stays_hidden_witness:
  "get_blob demo_digests (blob_hash demo_digests [7, 7])
    (snd (run_rebuild_index demo_digests 9 (tombstone 5 (blob_hash demo_digests [4, 5, 6, 7, 8, 9]) demo_store))) = Inr None"
proof (rule hidden_blob_stays_hidden [OF demo_hash_ok demo_reachable _ demo_more_runs])
  show "get_blob demo_digests (blob_hash demo_digests [7, 7]) demo_store = Inr None" by code_simp
qed simp

section \<open>Single calls\<close>

text \<open>
  In every state that the store can be in, reading a hash returns without an error, and what it
  returns has that hash.
\<close>

theorem reachable_get_total:
  assumes "hash_ok D" "reachable D s"
  shows "\<exists>r. get_blob D h s = Inr r \<and> (case r of Some x \<Rightarrow> blob_hash D x = h | None \<Rightarrow> True)"
proof -
  have ok: "store_ok D s" using reachable_ok assms by blast
  show ?thesis unfolding get_contents [OF ok]
    using contents_hash [OF ok, of h] by (auto split: option.splits bool.splits)
qed

lemma reachable_get_total_witness:
  "\<exists>r. get_blob demo_digests demo_hash demo_store = Inr r \<and> (case r of Some x \<Rightarrow> blob_hash demo_digests x = demo_hash | None \<Rightarrow> True)"
  by (rule reachable_get_total [OF demo_hash_ok demo_reachable])

text \<open>
  C18: Putting bytes returns their hash, reading that hash then returns the bytes (unless other bytes
  with the same hash were there before), and no other blob changes, whether the bytes are new,
  tombstoned or live, and whether the write rotates the pack or not.
\<close>

theorem put_get:
  assumes "store_ok D s" "hash_ok D" "fits bs" "room s"
    and "\<And>x live. contents D s (blob_hash D bs) = Some (x, live) \<Longrightarrow> x = bs"
  shows "\<exists>s'. put D target now NoFault bs s = (Inr (blob_hash D bs), s') \<and> store_ok D s' \<and>
    get_blob D (blob_hash D bs) s' = Inr (Some bs) \<and>
    (\<forall>h. h \<noteq> blob_hash D bs \<longrightarrow> get_blob D h s' = get_blob D h s)"
proof -
  obtain s' where s': "put D target now NoFault bs s = (Inr (blob_hash D bs), s')" "store_ok D s'"
    "contents D s' = put_spec (blob_hash D bs) bs (contents D s)"
    using put_ok [OF assms(1-4)] by blast
  have "(case contents D s (blob_hash D bs) of None \<Rightarrow> bs | Some (x, _) \<Rightarrow> x) = bs"
    using assms(5) by (auto split: option.splits)
  then have "get_blob D (blob_hash D bs) s' = Inr (Some bs)"
    unfolding get_contents [OF s'(2)] s'(3) by (simp add: put_spec_def)
  moreover have "get_blob D h s' = get_blob D h s" if "h \<noteq> blob_hash D bs" for h
    using that unfolding get_contents [OF s'(2)] get_contents [OF assms(1)] s'(3) by (simp add: put_spec_def)
  ultimately show ?thesis using s' by blast
qed

lemma put_get_witness:
  "\<exists>s'. put demo_digests 40 1 NoFault [1, 2, 3] demo_dead = (Inr demo_hash, s') \<and> store_ok demo_digests s' \<and>
    get_blob demo_digests demo_hash s' = Inr (Some [1, 2, 3])"
proof -
  have "contents demo_digests demo_dead demo_hash = Some ([1, 2, 3], False)" by code_simp
  then show ?thesis using put_get [OF demo_dead_ok demo_hash_ok demo_fits(1) demo_room(4), of 40 1] by auto
qed

text \<open>
  C20: A garbage collection returns, keeps the invariant, and drops exactly the tombstoned blobs of the
  sealed packs whose share of tombstoned rows reaches the threshold; every other blob, live or not,
  is what it was.
\<close>

theorem gc_drops_garbage:
  assumes "store_ok D s" "room_for (length (list_packs (packs_dir s))) s"
  shows "\<exists>stats s'. run_gc D sparse s = (Inr stats, s') \<and> store_ok D s' \<and>
    (\<forall>h. contents D s' h = (if garbage sparse {p. (p, True) \<in> set (list_packs (packs_dir s))} s h then None else contents D s h))"
  using run_gc_ok [OF assms, of sparse] unfolding sealed_ids_def by blast

lemma gc_drops_garbage_witness:
  "\<exists>stats s'. run_gc demo_digests (\<lambda>dead rows. 4 * dead \<ge> rows) demo_dead = (Inr stats, s') \<and>
    contents demo_digests s' demo_hash = None"
proof -
  have r: "room_for (length (list_packs (packs_dir demo_dead))) demo_dead" by code_simp
  have v: "view (conn demo_dead) demo_hash = Some (0, 0, 3, True)" by code_simp
  have d: "pack_density (conn demo_dead) 0 = (1, 1, 3)" by code_simp
  have "(0, True) \<in> set (list_packs (packs_dir demo_dead))" by code_simp
  with v d have "garbage (\<lambda>dead rows. 4 * dead \<ge> rows) {p. (p, True) \<in> set (list_packs (packs_dir demo_dead))} demo_dead demo_hash"
    by (auto simp: garbage_def dead_in_def sparse_pack_def)
  with gc_drops_garbage [OF demo_dead_ok r, of "\<lambda>dead rows. 4 * dead \<ge> rows"] show ?thesis by auto
qed

text \<open>
  Clearing the cache removes every blob: with a threshold that a pack of tombstoned rows alone
  reaches, no row is left, those of the pack that was open included.
\<close>

theorem clear_cache_empties:
  assumes "store_ok D s" "hash_ok D" "room s" "\<And>n. n \<noteq> 0 \<Longrightarrow> sparse n n"
    and "s2 = snd (rotate_open_pack D (snd (tombstone_all_live now s)))" "room_for (length (list_packs (packs_dir s2))) s2"
  shows "\<exists>reply s'. handle_clear_cache D sparse now s = (reply, s') \<and> store_ok D s' \<and> conn s' = []"
proof -
  obtain st s' where s': "handle_clear_cache D sparse now s = (st, s')" "store_ok D s'" "contents D s' = Map.empty"
    using clear_cache_ok [where sparse = sparse, OF assms(1-4,6,5)] by blast
  obtain G where G: "layout_ok D G s'" using s'(2) by (auto simp: store_ok_def)
  then have "keyed (conn s')" by (simp add: layout_ok_def)
  moreover have "view (conn s') h = None" for h using contents_None [OF G, of h] s'(3) by simp
  ultimately have "conn s' = []" using view_None [of "conn s'"] by (cases "conn s'") auto
  with s' show ?thesis by blast
qed

lemma clear_cache_empties_witness:
  "\<exists>reply s'. handle_clear_cache demo_digests (\<lambda>dead rows. 4 * dead \<ge> rows) 3 demo_store = (reply, s') \<and> conn s' = []"
proof -
  let ?s2 = "snd (rotate_open_pack demo_digests (snd (tombstone_all_live 3 demo_store)))"
  have "room_for (length (list_packs (packs_dir ?s2))) ?s2" by code_simp
  from clear_cache_empties [where sparse = "\<lambda>dead rows. 4 * dead \<ge> rows", OF demo_store_ok demo_hash_ok demo_room(3) _ refl this]
  show ?thesis by auto
qed

text \<open>
  A read that looks up the row before a compaction moves its blob and opens the file after it
  looks the row up again and returns what it would have returned without the compaction.
\<close>

theorem get_survives_compaction:
  assumes "store_ok D s" "room s" "src \<noteq> pack_id (writer s)" "map_of (packs_dir s) (pack_path_sealed src) \<noteq> None"
    and "compact_pack D src s = (Inr (), s')"
  shows "get_attempts D h 0 None ((conn s, packs_dir s') # (conn s', packs_dir s') # seen) = get_blob D h s"
  by (rule get_during_compaction [OF assms])

lemma get_survives_compaction_witness:
  "get_attempts demo_digests demo_hash 0 None
    [(conn demo_store, packs_dir (snd (compact_pack demo_digests 0 demo_store))),
     (conn (snd (compact_pack demo_digests 0 demo_store)), packs_dir (snd (compact_pack demo_digests 0 demo_store)))] =
    Inr (Some [1, 2, 3])"
proof -
  have "(0 :: 32 word) \<noteq> pack_id (writer demo_store)" by code_simp
  moreover have "map_of (packs_dir demo_store) (pack_path_sealed 0) \<noteq> None" by code_simp
  moreover have "fst (compact_pack demo_digests 0 demo_store) = Inr ()" by code_simp
  then have "compact_pack demo_digests 0 demo_store = (Inr (), snd (compact_pack demo_digests 0 demo_store))" by (metis prod.collapse)
  ultimately have "get_attempts demo_digests demo_hash 0 None
    [(conn demo_store, packs_dir (snd (compact_pack demo_digests 0 demo_store))),
     (conn (snd (compact_pack demo_digests 0 demo_store)), packs_dir (snd (compact_pack demo_digests 0 demo_store)))] =
      get_blob demo_digests demo_hash demo_store"
    by (rule get_survives_compaction [OF demo_store_ok demo_room(3)])
  also have "\<dots> = Inr (Some [1, 2, 3])" by code_simp
  finally show ?thesis .
qed

section \<open>Crashes and lost tables\<close>

text \<open>
  C19: After a crash in the middle of a write, a rotation or a compaction, opening the store succeeds.
  A torn frame or tail is cut off, a frame whose row was not inserted is indexed, a half-written copy
  and a pack that nothing refers to are removed, and no blob is lost or changed.
\<close>

theorem crash_recovers:
  assumes "store_ok D s" "crash_possible D c s"
  shows "\<exists>s'. boot_pack_store D False now (crash_state D c wr s) = (Inr (), s') \<and> store_ok D s' \<and>
    (\<forall>h x. get_blob D h s = Inr (Some x) \<longrightarrow> get_blob D h s' = Inr (Some x))"
proof -
  obtain s' where s': "boot_pack_store D False now (crash_state D c wr s) = (Inr (), s')" "store_ok D s'"
    "contents_step D (EvCrash c) (contents D s) (contents D s')"
    using boot_crash [OF assms] by blast
  have "get_blob D h s' = Inr (Some x)" if "get_blob D h s = Inr (Some x)" for h x
  proof -
    have "contents D s h = Some (x, True)"
      using that get_contents [OF assms(1)] by (auto split: option.splits bool.splits)
    with contents_step_live [OF s'(3)] show ?thesis unfolding get_contents [OF s'(2)] by simp
  qed
  with s' show ?thesis by blast
qed

lemma crash_recovers_witness:
  "\<exists>s'. boot_pack_store demo_digests False 9 (crash_state demo_digests (InWrite (TornFrame 10 [7, 7])) demo_writer demo_store) = (Inr (), s') \<and>
    get_blob demo_digests demo_hash s' = Inr (Some [1, 2, 3])"
proof -
  have "crash_possible demo_digests (InWrite (TornFrame 10 [7, 7])) demo_store"
    using demo_fits(3) by (simp add: crash_possible_def crash_ok_def)
  moreover have "get_blob demo_digests demo_hash demo_store = Inr (Some [1, 2, 3])" by code_simp
  ultimately show ?thesis using crash_recovers [OF demo_store_ok, of "InWrite (TornFrame 10 [7, 7])" 9 demo_writer] by blast
qed

text \<open>
  C21: When the whole table is lost, opening the store and rebuilding the index give every blob back
  with its bytes, and the tombstones of all sealed packs; only the tombstones of the pack that is open
  are not replayed, and its blobs become live.
\<close>

theorem lost_index_rebuilt:
  assumes "store_ok D s"
  shows "\<exists>s1 stats s2. recover_and_open_current_pack D now (s\<lparr>conn := [], writer := wr\<rparr>) = (Inr (), s1) \<and>
    run_rebuild_index D now s1 = (Inr stats, s2) \<and>
    (\<forall>h. contents D s2 h = map_option (\<lambda>(x, live). (x, live \<or> in_open_pack s h)) (contents D s h))"
  by (rule lost_index [OF assms])

lemma lost_index_rebuilt_witness:
  "\<exists>s1 stats s2. recover_and_open_current_pack demo_digests 9 (demo_dead\<lparr>conn := [], writer := demo_writer\<rparr>) = (Inr (), s1) \<and>
    run_rebuild_index demo_digests 9 s1 = (Inr stats, s2) \<and>
    contents demo_digests s2 demo_hash = Some ([1, 2, 3], False) \<and>
    contents demo_digests s2 (blob_hash demo_digests [4, 5, 6, 7, 8, 9]) = Some ([4, 5, 6, 7, 8, 9], True)"
proof -
  have v: "view (conn demo_dead) demo_hash = Some (0, 0, 3, True)" "pack_id (writer demo_dead) = 1"
    "contents demo_digests demo_dead demo_hash = Some ([1, 2, 3], False)"
    "contents demo_digests demo_dead (blob_hash demo_digests [4, 5, 6, 7, 8, 9]) = Some ([4, 5, 6, 7, 8, 9], True)"
    by code_simp+
  then have "\<not> in_open_pack demo_dead demo_hash" by (simp add: in_open_pack_def)
  with lost_index_rebuilt [OF demo_dead_ok, of 9 demo_writer] v(3,4) show ?thesis by fastforce
qed

text \<open>
  Rebuilding repairs a damaged table: if rows of sealed packs are missing or point to the wrong
  pack, offset or length, or are live though tombstoned, the rebuild gives exactly the old contents back.
\<close>

theorem damaged_index_rebuilt:
  assumes "store_ok D s" "distinct (map content_hash t)"
    and "\<And>r. r \<in> set t \<Longrightarrow> \<exists>q. select_row (content_hash r) (conn s) = Some q \<and> (tombstoned_at q = None \<longrightarrow> tombstoned_at r = None)"
    and "\<And>q. q \<in> set (conn s) \<Longrightarrow> pack_file_id q = pack_id (writer s) \<Longrightarrow> q \<in> set t"
  shows "\<exists>stats s'. run_rebuild_index D now (s\<lparr>conn := t\<rparr>) = (Inr stats, s') \<and> store_ok D s' \<and> contents D s' = contents D s"
proof -
  obtain G where G: "layout_ok D G s" using assms(1) by (auto simp: store_ok_def)
  have k: "keyed t" using assms(2) by (simp add: keyed_def)
  have row: "\<exists>q. select_row h (conn s) = Some q \<and> (tombstoned_at q = None \<longrightarrow> tombstoned_at r = None)" if "select_row h t = Some r" for h r
    using assms(3) [of r] select_row_hash [OF that] by auto
  have "view t h = None" if "view (conn s) h = None" for h
    using that row [of h] by (cases "select_row h t") (fastforce simp: view_def)+
  moreover have "view t h = view (conn s) h" if v: "view (conn s) h = Some (pack_id (writer s), off, len, b)" for h off len b
  proof -
    obtain q where q: "select_row h (conn s) = Some q" "pack_file_id q = pack_id (writer s)"
      using v by (auto simp: view_def row_place_def)
    with select_row_hash [OF q(1)] assms(4) have "q \<in> set t" "content_hash q = h" by auto
    with select_row_keyed [OF k] q(1) show ?thesis by (auto simp: view_def)
  qed
  moreover have "flag (view (conn s) h)" if f: "flag (view t h)" for h
  proof -
    obtain r where r: "select_row h t = Some r" "tombstoned_at r \<noteq> None"
      using f by (cases "select_row h t") (auto simp: view_def row_place_def)
    from row [OF r(1)] r(2) show ?thesis by (auto simp: view_def row_place_def)
  qed
  ultimately show ?thesis using rebuild_restores [OF G k, of now] by (auto simp: store_ok_def)
qed

lemma damaged_index_rebuilt_witness:
  "\<exists>stats s'. run_rebuild_index demo_digests 9
      (demo_dead\<lparr>conn := map (\<lambda>r. if pack_file_id r = 0 then r\<lparr>row_offset := 77, tombstoned_at := None\<rparr> else r) (conn demo_dead)\<rparr>) =
      (Inr stats, s') \<and> contents demo_digests s' = contents demo_digests demo_dead"
proof -
  let ?t = "map (\<lambda>r. if pack_file_id r = 0 then r\<lparr>row_offset := 77, tombstoned_at := None\<rparr> else r) (conn demo_dead)"
  have d: "distinct (map content_hash ?t)" by code_simp
  have "list_all (\<lambda>r. case select_row (content_hash r) (conn demo_dead) of None \<Rightarrow> False
      | Some q \<Rightarrow> tombstoned_at q = None \<longrightarrow> tombstoned_at r = None) ?t" by code_simp
  then have a: "\<exists>q. select_row (content_hash r) (conn demo_dead) = Some q \<and> (tombstoned_at q = None \<longrightarrow> tombstoned_at r = None)"
    if "r \<in> set ?t" for r
    using that by (fastforce simp: list_all_iff split: option.splits)
  have "list_all (\<lambda>q. pack_file_id q = pack_id (writer demo_dead) \<longrightarrow> q \<in> set ?t) (conn demo_dead)" by code_simp
  then have "q \<in> set ?t" if "q \<in> set (conn demo_dead)" "pack_file_id q = pack_id (writer demo_dead)" for q
    using that by (simp add: list_all_iff)
  from damaged_index_rebuilt [OF demo_dead_ok d a this, of 9] show ?thesis by blast
qed

section \<open>Well-formedness\<close>

text \<open>
  C29: In every state that the store can be in, each pack has one file with its canonical name, exactly
  one pack is open, namely the one the writer holds, whose offset and file position are at the end of
  that file, and every hash has at most one row.
\<close>

theorem reachable_well_formed:
  assumes "hash_ok D" "reachable D s"
  shows "canonical (packs_dir s) \<and>
    (map_of (packs_dir s) (pack_path_open p) \<noteq> None \<longleftrightarrow> p = pack_id (writer s)) \<and>
    map_option length (map_of (packs_dir s) (pack_path_open (pack_id (writer s)))) = Some (pack_offset (writer s)) \<and>
    file_pos (writer s) = pack_offset (writer s) \<and> distinct (map content_hash (conn s))"
proof -
  obtain G where G: "layout_ok D G s" using reachable_ok [OF assms] by (auto simp: store_ok_def)
  then have p: "packs_ok D G (pack_id (writer s)) (packs_dir s)" and w: "writer_ok D G (writer s)" and k: "keyed (conn s)"
    by (simp_all add: layout_ok_def)
  obtain ws where ws: "G (pack_id (writer s)) = Some ws" using packs_okD(8) [OF p] by blast
  have "map_of (packs_dir s) (pack_path_open p) \<noteq> None \<longleftrightarrow> p = pack_id (writer s)"
    using packs_okD(3) [OF p, of p] packs_okD(5) [OF p ws] by (cases "p = pack_id (writer s)") auto
  then show ?thesis using packs_okD(1) [OF p] packs_okD(5) [OF p ws] w ws k by (simp add: writer_ok_def keyed_def)
qed

lemma reachable_well_formed_witness:
  "map_option length (map_of (packs_dir demo_store) (pack_path_open (pack_id (writer demo_store)))) = Some 22"
proof -
  have "pack_offset (writer demo_store) = 22" by code_simp
  with reachable_well_formed [OF demo_hash_ok demo_reachable] show ?thesis by simp
qed

section \<open>Lost data\<close>


text \<open>
  When the writer rotates while a compaction runs, its new pack has a higher number than the
  copy; after a crash, opening takes the copy for the writer's pack and deletes the real one.
\<close>

theorem rotation_in_compaction_lost_by_crash:
  "(case compact_create demo_store of (Inr dst, s) \<Rightarrow>
      (let rotated = snd (put demo_digests 40 3 NoFault (replicate 20 9) s)
       in case boot_pack_store demo_digests False 5 rotated of (r, s1) \<Rightarrow>
            get_blob demo_digests (blob_hash demo_digests (replicate 20 9)) rotated = Inr (Some (replicate 20 9)) \<and>
            r = Inr () \<and> get_blob demo_digests (blob_hash demo_digests (replicate 20 9)) s1 = Inl NotFound))"
  by code_simp

text \<open>
  When the row of a frame cannot be inserted, the frame stays in the file but the offset of the
  writer is not moved: the next put stores its row with the offset of the failed one, and its bytes
  cannot be read.
\<close>

theorem failed_insert_breaks_next_put:
  "(case put demo_digests 400 3 SqlFailure [1, 2] demo_new of (r, s1) \<Rightarrow>
      (case put demo_digests 400 3 NoFault [1, 2, 3] s1 of (r2, s2) \<Rightarrow>
        r = Inl Sql \<and> r2 = Inr demo_hash \<and> get_blob demo_digests demo_hash s2 = Inl (Corruption ''length mismatch'')))"
  by code_simp

end
