(* ===== verification/LinkQueue.thy ===== *)
theory LinkQueue
  imports Prelude
begin

text \<open>
  The queue of notifications between the reader of the service pipe and the user interface
  (\<^verbatim>\<open>crates/app/src/notification_queue.rs\<close>): its operations, each the critical section under the
  mutex, and a step relation in which any number of producers and the one consumer interleave at
  every point where the code lets go of the mutex. How an item is classified is a parameter, as the
  trait \<^verbatim>\<open>Classifiable\<close> has it.
\<close>

section \<open>The queue\<close>

datatype 'k notification_class = Coalesce 'k | Drop | MustDeliver

record 'a queue =
  items :: "'a list"
  closed :: bool
  capacity :: nat

definition queue_new :: "nat \<Rightarrow> 'a queue" where
  "queue_new n = \<lparr>items = [], closed = False, capacity = n\<rparr>"

text \<open>The loop over the slots: the first one with the same key takes the new item.\<close>

fun replace_slot :: "('a \<Rightarrow> 'k notification_class) \<Rightarrow> 'k \<Rightarrow> 'a \<Rightarrow> 'a list \<Rightarrow> 'a list option" where
  "replace_slot cls key item [] = None"
| "replace_slot cls key item (slot # slots) =
     (if cls slot = Coalesce key then Some (item # slots)
      else map_option (\<lambda>s. slot # s) (replace_slot cls key item slots))"

text \<open>
  Each operation returns the queue and whether it calls \<^verbatim>\<open>item_available.notify_one()\<close>. The part of
  \<^verbatim>\<open>enqueue_must_deliver\<close> under the mutex also says whether the call returns or has to wait.
\<close>

definition enqueue_coalesce ::
  "('a \<Rightarrow> 'k notification_class) \<Rightarrow> 'k \<Rightarrow> 'a \<Rightarrow> 'a queue \<Rightarrow> 'a queue \<times> bool" where
  "enqueue_coalesce cls key item q =
     (if closed q then (q, False)
      else case replace_slot cls key item (items q) of
        Some slots \<Rightarrow> (q\<lparr>items := slots\<rparr>, True)
      | None \<Rightarrow>
          if length (items q) \<ge> capacity q then (q, False)
          else (q\<lparr>items := items q @ [item]\<rparr>, True))"

definition enqueue_drop :: "'a \<Rightarrow> 'a queue \<Rightarrow> 'a queue \<times> bool" where
  "enqueue_drop item q =
     (if closed q then (q, False)
      else (let kept = (if length (items q) \<ge> capacity q then drop 1 (items q) else items q)
            in (q\<lparr>items := kept @ [item]\<rparr>, True)))"

datatype attempt = Returned | Accepted | Full

definition try_must_deliver :: "'a \<Rightarrow> 'a queue \<Rightarrow> attempt \<times> 'a queue" where
  "try_must_deliver item q =
     (if closed q then (Returned, q)
      else if length (items q) < capacity q then (Accepted, q\<lparr>items := items q @ [item]\<rparr>)
      else (Full, q))"

datatype 'a received = Item 'a | Ended | Empty

definition try_recv :: "'a queue \<Rightarrow> 'a received \<times> 'a queue" where
  "try_recv q =
     (case items q of
        x # xs \<Rightarrow> (Item x, q\<lparr>items := xs\<rparr>)
      | [] \<Rightarrow> (if closed q then (Ended, q) else (Empty, q)))"

definition queue_close :: "'a queue \<Rightarrow> 'a queue" where
  "queue_close q = q\<lparr>closed := True\<rparr>"

section \<open>Tasks\<close>

text \<open>
  A call of \<^verbatim>\<open>enqueue\<close> for an item that must be delivered: it makes a \<^verbatim>\<open>notified()\<close> future, tries under
  the mutex, and waits for the future when the queue is full. The consumer does the same with an empty
  queue; \<open>Polling\<close> is between its critical section and the first poll of its future. The flag of a
  future says that it is ready. As the package tokio documents for \<^verbatim>\<open>Notify\<close>, \<^verbatim>\<open>notify_waiters()\<close>
  readies all futures made before, and \<^verbatim>\<open>notify_one()\<close> readies one that was polled and waits, or else
  leaves a permit, which the next poll takes.
\<close>

datatype 'a producer = Starting 'a | Trying 'a bool | Waiting 'a bool | Done

datatype consumer = Calling | Taking bool | Polling bool | Parked bool | Stopped

record 'a link =
  queue :: "'a queue"
  producers :: "'a producer list"
  consumer :: consumer
  permit :: bool
  delivered :: "'a list"
  accepted :: "'a list"

definition link_new :: "nat \<Rightarrow> 'a link" where
  "link_new n =
     \<lparr>queue = queue_new n, producers = [], consumer = Calling, permit = False,
      delivered = [], accepted = []\<rparr>"

fun wake_producer :: "'a producer \<Rightarrow> 'a producer" where
  "wake_producer (Trying x b) = Trying x True"
| "wake_producer (Waiting x b) = Waiting x True"
| "wake_producer p = p"

fun wake_consumer :: "consumer \<Rightarrow> consumer" where
  "wake_consumer (Taking b) = Taking True"
| "wake_consumer (Polling b) = Polling True"
| "wake_consumer (Parked b) = Parked True"
| "wake_consumer c = c"

definition notify_item :: "'a link \<Rightarrow> 'a link" where
  "notify_item s =
     (if consumer s = Parked False then s\<lparr>consumer := Parked True\<rparr> else s\<lparr>permit := True\<rparr>)"

definition notify_space :: "'a producer list \<Rightarrow> 'a producer list" where
  "notify_space ps = map wake_producer ps"

text \<open>A call of \<^verbatim>\<open>enqueue\<close>; for the two classes that never wait it is done at once.\<close>

definition enqueue :: "('a \<Rightarrow> 'k notification_class) \<Rightarrow> 'a \<Rightarrow> 'a link \<Rightarrow> 'a link" where
  "enqueue cls item s =
     (case cls item of
        Coalesce key \<Rightarrow>
          (let (q, b) = enqueue_coalesce cls key item (queue s)
           in if b then notify_item (s\<lparr>queue := q\<rparr>) else s\<lparr>queue := q\<rparr>)
      | Drop \<Rightarrow>
          (let (q, b) = enqueue_drop item (queue s)
           in if b then notify_item (s\<lparr>queue := q\<rparr>) else s\<lparr>queue := q\<rparr>)
      | MustDeliver \<Rightarrow> s\<lparr>producers := producers s @ [Starting item]\<rparr>)"

text \<open>What a producer does next, and what the consumer does next; \<^verbatim>\<open>None\<close> while it has to wait.\<close>

definition producer_move :: "nat \<Rightarrow> 'a link \<Rightarrow> 'a link option" where
  "producer_move i s =
     (case get (producers s) i of
        Some (Starting x) \<Rightarrow> Some (s\<lparr>producers := (producers s)[i := Trying x False]\<rparr>)
      | Some (Trying x b) \<Rightarrow>
          (case try_must_deliver x (queue s) of
             (Returned, q) \<Rightarrow> Some (s\<lparr>producers := (producers s)[i := Done]\<rparr>)
           | (Accepted, q) \<Rightarrow>
               Some (notify_item (s\<lparr>queue := q, producers := (producers s)[i := Done],
                                    accepted := accepted s @ [x]\<rparr>))
           | (Full, q) \<Rightarrow> Some (s\<lparr>producers := (producers s)[i := Waiting x b]\<rparr>))
      | Some (Waiting x True) \<Rightarrow> Some (s\<lparr>producers := (producers s)[i := Starting x]\<rparr>)
      | _ \<Rightarrow> None)"

definition consumer_move :: "'a link \<Rightarrow> 'a link option" where
  "consumer_move s =
     (case consumer s of
        Calling \<Rightarrow> Some (s\<lparr>consumer := Taking False\<rparr>)
      | Taking b \<Rightarrow>
          (case try_recv (queue s) of
             (Item x, q) \<Rightarrow>
               Some (s\<lparr>queue := q, consumer := Calling, producers := notify_space (producers s),
                       delivered := delivered s @ [x]\<rparr>)
           | (Ended, q) \<Rightarrow> Some (s\<lparr>consumer := Stopped\<rparr>)
           | (Empty, q) \<Rightarrow> Some (s\<lparr>consumer := Polling b\<rparr>))
      | Polling b \<Rightarrow> Some (s\<lparr>consumer := Parked (b \<or> permit s), permit := False\<rparr>)
      | Parked True \<Rightarrow> Some (s\<lparr>consumer := Calling\<rparr>)
      | _ \<Rightarrow> None)"

definition close_link :: "'a link \<Rightarrow> 'a link" where
  "close_link s =
     s\<lparr>queue := queue_close (queue s), consumer := wake_consumer (consumer s),
       producers := notify_space (producers s)\<rparr>"

inductive work_step :: "'a link \<Rightarrow> 'a link \<Rightarrow> bool" where
  produce: "producer_move i s = Some t \<Longrightarrow> work_step s t"
| take_item: "consumer_move s = Some t \<Longrightarrow> work_step s t"

inductive link_step :: "('a \<Rightarrow> 'k notification_class) \<Rightarrow> 'a link \<Rightarrow> 'a link \<Rightarrow> bool"
  for cls :: "'a \<Rightarrow> 'k notification_class" where
  work: "work_step s t \<Longrightarrow> link_step cls s t"
| call: "link_step cls s (enqueue cls x s)"
| close: "link_step cls s (close_link s)"

inductive reachable_link :: "('a \<Rightarrow> 'k notification_class) \<Rightarrow> nat \<Rightarrow> 'a link \<Rightarrow> bool"
  for cls :: "'a \<Rightarrow> 'k notification_class" and n :: nat where
  start: "reachable_link cls n (link_new n)"
| next_state: "reachable_link cls n s \<Longrightarrow> link_step cls s t \<Longrightarrow> reachable_link cls n t"

inductive_cases work_stepE: "work_step s t"

section \<open>Operations one by one\<close>

definition must_items :: "('a \<Rightarrow> 'k notification_class) \<Rightarrow> 'a list \<Rightarrow> 'a list" where
  "must_items cls xs = filter (\<lambda>x. cls x = MustDeliver) xs"

lemma must_items_simps [simp]:
  "must_items cls [] = []" "must_items cls (xs @ ys) = must_items cls xs @ must_items cls ys"
  "must_items cls (x # xs) = (if cls x = MustDeliver then x # must_items cls xs else must_items cls xs)"
  by (simp_all add: must_items_def)

lemma replace_slot_Some:
  assumes "replace_slot cls key item xs = Some ys"
  obtains as slot bs where "xs = as @ slot # bs" "ys = as @ item # bs" "cls slot = Coalesce key"
    "\<forall>a\<in>set as. cls a \<noteq> Coalesce key"
  using assms
proof (induction xs arbitrary: ys thesis)
  case (Cons slot slots)
  show ?case
  proof (cases "cls slot = Coalesce key")
    case True
    with Cons.prems show ?thesis by (auto intro: Cons.prems(1) [of "[]"])
  next
    case False
    with Cons.prems obtain zs where "replace_slot cls key item slots = Some zs" "ys = slot # zs" by auto
    with Cons.IH [of zs] False show ?thesis
      by (metis Cons.prems(1) append_Cons set_ConsD)
  qed
qed simp

lemma length_replace_slot: "replace_slot cls key item xs = Some ys \<Longrightarrow> length ys = length xs"
  by (elim replace_slot_Some) simp

lemma must_items_replace_slot:
  "replace_slot cls key item xs = Some ys \<Longrightarrow> cls item = Coalesce key \<Longrightarrow>
     must_items cls ys = must_items cls xs"
  by (elim replace_slot_Some) simp

text \<open>At capacity a droppable item takes the place of the oldest one, whatever class that one has.\<close>

lemma enqueue_drop_evicts:
  "\<not> closed q \<Longrightarrow> items q = x # xs \<Longrightarrow> capacity q \<le> length (items q) \<Longrightarrow>
     items (fst (enqueue_drop y q)) = xs @ [y]"
  by (simp add: enqueue_drop_def Let_def)

section \<open>Invariant\<close>

text \<open>
  Nobody sleeps for nothing: a waiting producer whose future was not notified faces a full, open
  queue, and a parked consumer an empty, open one.
\<close>

fun producer_ok :: "('a \<Rightarrow> 'k notification_class) \<Rightarrow> 'a queue \<Rightarrow> 'a producer \<Rightarrow> bool" where
  "producer_ok cls q (Starting x) = (cls x = MustDeliver)"
| "producer_ok cls q (Trying x b) = (cls x = MustDeliver)"
| "producer_ok cls q (Waiting x b) =
     (cls x = MustDeliver \<and> (b \<or> capacity q \<le> length (items q) \<and> \<not> closed q))"
| "producer_ok cls q Done = True"

fun consumer_ok :: "'a queue \<Rightarrow> bool \<Rightarrow> consumer \<Rightarrow> bool" where
  "consumer_ok q p (Polling b) = (b \<or> p \<or> items q = [] \<and> \<not> closed q)"
| "consumer_ok q p (Parked b) = (b \<or> items q = [] \<and> \<not> closed q)"
| "consumer_ok q p Stopped = (items q = [] \<and> closed q)"
| "consumer_ok q p c = True"

definition link_ok :: "('a \<Rightarrow> 'k notification_class) \<Rightarrow> nat \<Rightarrow> 'a link \<Rightarrow> bool" where
  "link_ok cls n s =
     (capacity (queue s) = n \<and> length (items (queue s)) \<le> max 1 n \<and>
      list_all (producer_ok cls (queue s)) (producers s) \<and>
      consumer_ok (queue s) (permit s) (consumer s))"

lemma get_list_all: "list_all P xs \<Longrightarrow> get xs i = Some x \<Longrightarrow> P x"
  by (auto simp: get_Some_iff list_all_length)

lemma list_all_upd: "list_all P xs \<Longrightarrow> P x \<Longrightarrow> list_all P (xs[i := x])"
  by (auto simp: list_all_iff dest: set_update_subset_insert [THEN subsetD])

text \<open>Which changes of the queue a waiting producer and a parked consumer outlive.\<close>

lemma producer_ok_mono:
  "producer_ok cls q p \<Longrightarrow> capacity q' = capacity q \<Longrightarrow> closed q' = closed q \<Longrightarrow>
     length (items q) \<le> length (items q') \<Longrightarrow> producer_ok cls q' p"
  by (cases p) auto

lemma producer_ok_woken: "producer_ok cls q p \<Longrightarrow> producer_ok cls q' (wake_producer p)"
  by (cases p) auto

lemma notify_item_fields [simp]:
  "queue (notify_item s) = queue s" "producers (notify_item s) = producers s"
  "delivered (notify_item s) = delivered s" "accepted (notify_item s) = accepted s"
  by (simp_all add: notify_item_def)

lemma consumer_ok_notified:
  "consumer s \<noteq> Stopped \<Longrightarrow>
     consumer_ok q (permit (notify_item s)) (consumer (notify_item s))"
  by (cases "consumer s") (auto simp: notify_item_def)

lemma producers_ok_mono:
  "list_all (producer_ok cls q) ps \<Longrightarrow> capacity q' = capacity q \<Longrightarrow> closed q' = closed q \<Longrightarrow>
     length (items q) \<le> length (items q') \<Longrightarrow> list_all (producer_ok cls q') ps"
  by (auto simp: list_all_iff intro: producer_ok_mono)

lemma producers_ok_woken: "list_all (producer_ok cls q) ps \<Longrightarrow> list_all (producer_ok cls q') (notify_space ps)"
  by (auto simp: list_all_iff notify_space_def intro: producer_ok_woken)

text \<open>What a call that does not wait does to the queue.\<close>

definition quick_change :: "'a queue \<Rightarrow> 'a queue \<Rightarrow> bool \<Rightarrow> bool" where
  "quick_change q q' b =
     (capacity q' = capacity q \<and> closed q' = closed q \<and> length (items q) \<le> length (items q') \<and>
      length (items q') \<le> max (length (items q)) (max 1 (capacity q)) \<and>
      (b \<longrightarrow> \<not> closed q) \<and> (\<not> b \<longrightarrow> q' = q))"

lemma enqueue_coalesce_change:
  "enqueue_coalesce cls key item q = (q', b) \<Longrightarrow> quick_change q q' b"
  by (auto simp: enqueue_coalesce_def quick_change_def length_replace_slot
      split: if_splits option.splits)

lemma enqueue_drop_change: "enqueue_drop item q = (q', b) \<Longrightarrow> quick_change q q' b"
  by (auto simp: enqueue_drop_def quick_change_def Let_def split: if_splits)

lemma link_ok_quick:
  assumes "link_ok cls n s" "quick_change (queue s) q b"
  shows "link_ok cls n (if b then notify_item (s\<lparr>queue := q\<rparr>) else s\<lparr>queue := q\<rparr>)"
proof (cases b)
  case True
  with assms have "consumer s \<noteq> Stopped" by (auto simp: link_ok_def quick_change_def)
  moreover have "list_all (producer_ok cls q) (producers s)"
    using assms by (auto simp: link_ok_def quick_change_def intro: producers_ok_mono)
  ultimately show ?thesis using True assms
    by (auto simp: link_ok_def quick_change_def consumer_ok_notified)
qed (use assms in \<open>simp add: quick_change_def\<close>)

lemma link_ok_enqueue: "link_ok cls n s \<Longrightarrow> link_ok cls n (enqueue cls x s)"
  by (auto simp: enqueue_def Let_def link_ok_quick enqueue_coalesce_change enqueue_drop_change
      split: notification_class.splits prod.splits) (simp add: link_ok_def)

lemma link_ok_producer:
  assumes "link_ok cls n s" "producer_move i s = Some t"
  shows "link_ok cls n t"
proof -
  have ok: "producer_ok cls (queue s) p" if "get (producers s) i = Some p" for p
    using assms(1) that by (auto simp: link_ok_def dest: get_list_all)
  show ?thesis
  proof (cases "\<exists>x b. get (producers s) i = Some (Trying x b)")
    case False
    with assms ok show ?thesis
      by (fastforce simp: producer_move_def link_ok_def
          intro: list_all_upd split: option.splits producer.splits bool.splits)
  next
    case True
    then obtain x b where p: "get (producers s) i = Some (Trying x b)" by blast
    define q where "q = (queue s)\<lparr>items := items (queue s) @ [x]\<rparr>"
    have acc: "link_ok cls n (notify_item (s\<lparr>queue := q, producers := (producers s)[i := Done],
        accepted := accepted s @ [x]\<rparr>))"
      if "\<not> closed (queue s)" "length (items (queue s)) < capacity (queue s)"
    proof -
      have "list_all (producer_ok cls q) (producers s)"
        using assms(1) by (auto simp: link_ok_def q_def intro: producers_ok_mono)
      moreover have "consumer s \<noteq> Stopped" using assms(1) that by (auto simp: link_ok_def)
      ultimately show ?thesis using that assms(1)
        by (auto simp: link_ok_def q_def consumer_ok_notified intro!: list_all_upd)
    qed
    from ok [OF p] assms p acc show ?thesis
      by (auto simp: producer_move_def try_must_deliver_def q_def link_ok_def
          intro!: list_all_upd split: if_splits)
  qed
qed

lemma link_ok_consumer:
  assumes "link_ok cls n s" "consumer_move s = Some t"
  shows "link_ok cls n t"
  using assms
  by (auto simp: consumer_move_def try_recv_def link_ok_def intro: producers_ok_woken
      split: consumer.splits bool.splits list.splits if_splits)

lemma link_ok_step:
  assumes "link_ok cls n s" "link_step cls s t"
  shows "link_ok cls n t"
  using assms(2)
proof (cases rule: link_step.cases)
  case work
  then show ?thesis using assms(1) by (auto elim!: work_stepE intro: link_ok_producer link_ok_consumer)
next
  case (call x)
  then show ?thesis using assms(1) by (simp add: link_ok_enqueue)
next
  case close
  then show ?thesis using assms(1)
    by (cases "consumer s") (auto simp: close_link_def queue_close_def link_ok_def intro: producers_ok_woken)
qed

lemma reachable_link_ok: "reachable_link cls n s \<Longrightarrow> link_ok cls n s"
proof (induction rule: reachable_link.induct)
  case start
  then show ?case by (simp add: link_new_def queue_new_def link_ok_def)
qed (rule link_ok_step)

section \<open>Order and loss\<close>

definition no_drops :: "('a \<Rightarrow> 'k notification_class) \<Rightarrow> bool" where
  "no_drops cls = (\<forall>x. cls x \<noteq> Drop)"

definition in_order :: "('a \<Rightarrow> 'k notification_class) \<Rightarrow> 'a link \<Rightarrow> bool" where
  "in_order cls s =
     (must_items cls (delivered s) @ must_items cls (items (queue s)) = accepted s)"

lemma in_order_enqueue:
  assumes "no_drops cls" "in_order cls s"
  shows "in_order cls (enqueue cls x s)"
proof (cases "cls x")
  case (Coalesce key)
  then have "must_items cls (items (fst (enqueue_coalesce cls key x q))) = must_items cls (items q)" for q
    by (auto simp: enqueue_coalesce_def must_items_replace_slot split: option.splits)
  with Coalesce assms(2) show ?thesis
    by (simp add: enqueue_def in_order_def Let_def case_prod_beta)
qed (use assms in \<open>auto simp: no_drops_def enqueue_def in_order_def\<close>)

lemma in_order_producer:
  assumes "link_ok cls n s" "in_order cls s" "producer_move i s = Some t"
  shows "in_order cls t"
proof -
  have "cls x = MustDeliver" if "get (producers s) i = Some (Trying x b)" for x b
    using assms(1) that by (auto simp: link_ok_def dest: get_list_all)
  with assms(2,3) show ?thesis
    by (auto simp: producer_move_def try_must_deliver_def in_order_def
        split: option.splits producer.splits bool.splits if_splits)
qed

lemma in_order_consumer: "in_order cls s \<Longrightarrow> consumer_move s = Some t \<Longrightarrow> in_order cls t"
  by (auto simp: consumer_move_def try_recv_def in_order_def
      split: consumer.splits bool.splits list.splits if_splits)

lemma in_order_step:
  assumes "no_drops cls" "link_ok cls n s" "in_order cls s" "link_step cls s t"
  shows "in_order cls t"
  using assms(4)
proof (cases rule: link_step.cases)
  case work
  then show ?thesis using assms by (auto elim!: work_stepE intro: in_order_producer in_order_consumer)
next
  case (call x)
  then show ?thesis using assms by (simp add: in_order_enqueue)
qed (use assms(3) in \<open>simp_all add: in_order_def close_link_def queue_close_def\<close>)

lemma reachable_in_order:
  assumes "no_drops cls" "reachable_link cls n s"
  shows "in_order cls s"
  using assms(2)
proof (induction rule: reachable_link.induct)
  case start
  then show ?case by (simp add: link_new_def queue_new_def in_order_def)
next
  case (next_state s t)
  then show ?case using in_order_step [OF assms(1) reachable_link_ok] by blast
qed

text \<open>At most one slot for each key.\<close>

definition key_count :: "('a \<Rightarrow> 'k notification_class) \<Rightarrow> 'k \<Rightarrow> 'a list \<Rightarrow> nat" where
  "key_count cls k xs = length (filter (\<lambda>x. cls x = Coalesce k) xs)"

definition one_slot :: "('a \<Rightarrow> 'k notification_class) \<Rightarrow> 'a list \<Rightarrow> bool" where
  "one_slot cls xs = (\<forall>k. key_count cls k xs \<le> 1)"

lemma key_count_simps [simp]:
  "key_count cls k [] = 0" "key_count cls k (xs @ ys) = key_count cls k xs + key_count cls k ys"
  "key_count cls k (x # xs) = (if cls x = Coalesce k then 1 else 0) + key_count cls k xs"
  by (simp_all add: key_count_def)

lemma replace_slot_None: "replace_slot cls k item xs = None \<longleftrightarrow> key_count cls k xs = 0"
  by (induction xs) auto

lemma key_count_replace_slot:
  "replace_slot cls k item xs = Some ys \<Longrightarrow> cls item = Coalesce k \<Longrightarrow>
     key_count cls j ys = key_count cls j xs"
  by (elim replace_slot_Some) simp

lemma one_slot_suffix: "one_slot cls (x # xs) \<Longrightarrow> one_slot cls xs"
  unfolding one_slot_def by (metis add_leD2 key_count_simps(3))

lemma one_slot_other: "one_slot cls xs \<Longrightarrow> \<forall>k. cls x \<noteq> Coalesce k \<Longrightarrow> one_slot cls (xs @ [x])"
  by (simp add: one_slot_def)

lemma one_slot_enqueue:
  assumes "one_slot cls (items (queue s))"
  shows "one_slot cls (items (queue (enqueue cls x s)))"
proof (cases "cls x")
  case (Coalesce key)
  with assms have "one_slot cls (items (fst (enqueue_coalesce cls key x (queue s))))"
    by (auto simp: enqueue_coalesce_def one_slot_def key_count_replace_slot replace_slot_None
        split: option.splits)
  with Coalesce show ?thesis by (simp add: enqueue_def Let_def case_prod_beta)
next
  case Drop
  moreover have "one_slot cls (drop 1 (items (queue s)))"
    using assms one_slot_suffix by (cases "items (queue s)") auto
  ultimately show ?thesis using assms
    by (auto simp: enqueue_def enqueue_drop_def Let_def intro!: one_slot_other)
qed (use assms in \<open>simp add: enqueue_def\<close>)

lemma one_slot_work:
  assumes "link_ok cls n s" "one_slot cls (items (queue s))" "work_step s t"
  shows "one_slot cls (items (queue t))"
  using assms(3)
proof (cases rule: work_step.cases)
  case (produce i)
  have "cls x = MustDeliver" if "get (producers s) i = Some (Trying x b)" for x b
    using assms(1) that by (auto simp: link_ok_def dest: get_list_all)
  with produce assms(2) show ?thesis
    by (auto simp: producer_move_def try_must_deliver_def intro!: one_slot_other
        split: option.splits producer.splits bool.splits if_splits)
next
  case take_item
  with assms(2) show ?thesis
    by (auto simp: consumer_move_def try_recv_def intro: one_slot_suffix
        split: consumer.splits bool.splits list.splits if_splits)
qed

lemma reachable_one_slot: "reachable_link cls n s \<Longrightarrow> one_slot cls (items (queue s))"
proof (induction rule: reachable_link.induct)
  case start
  then show ?case by (simp add: link_new_def queue_new_def one_slot_def)
next
  case (next_state s t)
  note ok = reachable_link_ok [OF next_state(1)]
  from next_state(2) show ?case
  proof (cases rule: link_step.cases)
    case work
    then show ?thesis using one_slot_work [OF ok next_state(3)] by blast
  next
    case (call x)
    then show ?thesis using one_slot_enqueue [OF next_state(3)] by simp
  qed (use next_state(3) in \<open>simp_all add: close_link_def queue_close_def\<close>)
qed

section \<open>Progress\<close>

text \<open>
  Work left without further calls: an item still to deliver pays for the wake-ups its removal causes,
  a call that has not returned for the wake-up of the consumer.
\<close>

fun producer_work :: "'a producer \<Rightarrow> nat" where
  "producer_work (Starting x) = 2"
| "producer_work (Trying x b) = (if b then 4 else 1)"
| "producer_work (Waiting x b) = (if b then 3 else 0)"
| "producer_work Done = 0"

fun consumer_work :: "consumer \<Rightarrow> nat" where
  "consumer_work Calling = 3"
| "consumer_work (Taking b) = (if b then 6 else 2)"
| "consumer_work (Polling b) = (if b then 5 else 1)"
| "consumer_work (Parked b) = (if b then 4 else 0)"
| "consumer_work Stopped = 0"

definition open_calls :: "'a link \<Rightarrow> nat" where
  "open_calls s = length (filter (\<lambda>p. p \<noteq> Done) (producers s))"

definition work_left :: "'a link \<Rightarrow> nat" where
  "work_left s =
     (length (items (queue s)) + open_calls s) * (4 * length (producers s) + 4) +
     4 * open_calls s + sum_list (map producer_work (producers s)) + consumer_work (consumer s) +
     (if permit s then 4 else 0)"

lemma get_split: "get xs i = Some x \<Longrightarrow> \<exists>as bs. xs = as @ x # bs \<and> (\<forall>y. xs[i := y] = as @ y # bs)"
  by (rule exI [of _ "take i xs"], rule exI [of _ "drop (Suc i) xs"])
    (auto simp: get_Some_iff id_take_nth_drop upd_conv_take_nth_drop)

lemma wake_producer_Done [simp]: "wake_producer p = Done \<longleftrightarrow> p = Done"
  by (cases p) auto

lemma notify_space_calls [simp]:
  "length (notify_space ps) = length ps"
  "length (filter (\<lambda>p. p \<noteq> Done) (notify_space ps)) = length (filter (\<lambda>p. p \<noteq> Done) ps)"
  by (simp_all add: notify_space_def filter_map o_def)

lemma notify_space_work: "sum_list (map producer_work (notify_space ps)) \<le> sum_list (map producer_work ps) + 3 * length ps"
proof (induction ps)
  case (Cons p ps)
  have "producer_work (wake_producer p) \<le> producer_work p + 3" by (cases p) auto
  with Cons show ?case by (simp add: notify_space_def)
qed (simp add: notify_space_def)

lemma notify_item_work: "work_left (notify_item s) \<le> work_left s + 4"
  by (auto simp: notify_item_def work_left_def open_calls_def)

lemma producer_move_work:
  assumes "producer_move i s = Some t"
  shows "work_left t < work_left s"
proof -
  obtain p where p: "get (producers s) i = Some p"
    using assms by (cases "get (producers s) i") (auto simp: producer_move_def)
  obtain as bs where split: "producers s = as @ p # bs" "\<And>y. (producers s)[i := y] = as @ y # bs"
    using get_split [OF p] by blast
  define u where "u x = s\<lparr>queue := (queue s)\<lparr>items := items (queue s) @ [x]\<rparr>,
    producers := as @ Done # bs, accepted := accepted s @ [x]\<rparr>" for x
  have "work_left (u x) + 4 < work_left s" if "p = Trying x b" for x b
    using split that by (auto simp: u_def work_left_def open_calls_def algebra_simps)
  then have accept: "work_left (notify_item (u x)) < work_left s" if "p = Trying x b" for x b
    using notify_item_work [of "u x"] that by fastforce
  show ?thesis
  proof (cases "\<exists>x b. p = Trying x b \<and> fst (try_must_deliver x (queue s)) = Accepted")
    case True
    then show ?thesis using assms p split(2) accept
      by (auto simp: producer_move_def try_must_deliver_def u_def split: if_splits)
  next
    case False
    then show ?thesis using assms p split
      by (auto simp: producer_move_def try_must_deliver_def work_left_def open_calls_def algebra_simps
          split: producer.splits bool.splits if_splits)
  qed
qed

lemma consumer_move_work:
  assumes "consumer_move s = Some t"
  shows "work_left t < work_left s"
  using assms notify_space_work [of "producers s"]
  by (auto simp: consumer_move_def try_recv_def work_left_def open_calls_def algebra_simps
      split: consumer.splits bool.splits list.splits if_splits)

lemma work_step_decreases: "work_step s t \<Longrightarrow> work_left t < work_left s"
  by (auto elim!: work_stepE intro: producer_move_work consumer_move_work)

lemma work_bounded: "(work_step ^^ k) s t \<Longrightarrow> k + work_left t \<le> work_left s"
proof (induction k arbitrary: t)
  case (Suc k)
  then obtain u where "(work_step ^^ k) s u" "work_step u t" by auto
  with Suc.IH work_step_decreases [of u t] show ?case by fastforce
qed simp

text \<open>When nobody can move, every call has returned and the queue is empty.\<close>

lemma stuck_drained:
  assumes ok: "link_ok cls n s" "0 < n" and stuck: "\<nexists>t. work_step s t"
  shows "items (queue s) = [] \<and> (\<forall>p\<in>set (producers s). p = Done)"
proof -
  have "consumer_move s = None" using stuck by (metis not_None_eq take_item)
  then have "consumer s = Parked False \<or> consumer s = Stopped"
    by (auto simp: consumer_move_def try_recv_def split: consumer.splits bool.splits list.splits if_splits)
  with ok(1) have empty: "items (queue s) = []" by (auto simp: link_ok_def)
  moreover have "p = Done" if member: "p \<in> set (producers s)" for p
  proof -
    obtain i where i: "get (producers s) i = Some p" using member by (auto simp: in_set_conv_nth get_Some_iff)
    have "producer_move i s = None" using stuck by (metis not_None_eq produce)
    with i consider "p = Done" | x where "p = Waiting x False"
      by (auto simp: producer_move_def try_must_deliver_def split: producer.splits bool.splits if_splits)
    then show ?thesis
    proof cases
      case 2
      with i ok have "n \<le> length (items (queue s))" by (auto simp: link_ok_def dest: get_list_all)
      with empty ok(2) show ?thesis by simp
    qed
  qed
  ultimately show ?thesis by blast
qed

lemma work_reachable:
  "(work_step ^^ k) s t \<Longrightarrow> reachable_link cls n s \<Longrightarrow> reachable_link cls n t"
proof (induction k arbitrary: t)
  case (Suc k)
  then obtain u where "(work_step ^^ k) s u" "work_step u t" by auto
  with Suc show ?case by (blast intro: next_state work)
qed simp

end
