(* ===== verification/LinkNotification.thy ===== *)
theory LinkNotification
  imports LinkQueue RustNum "HOL-Library.Word"
begin

text \<open>
  The messages the service sends to the user interface (\<^verbatim>\<open>crates/service-api/src\<close>:
  \<^verbatim>\<open>notification.rs\<close>, \<^verbatim>\<open>boot.rs\<close>, \<^verbatim>\<open>error.rs\<close>, the payloads of the other files, and the parsing half of
  \<^verbatim>\<open>framing.rs\<close>). Notifications are modelled with their payloads, their queue class and their
  generation tag. The deserializers of the package serde\_json are parameters.
\<close>

section \<open>Payloads\<close>

type_synonym u32 = "32 word"
type_synonym u64 = "64 word"
type_synonym uuid = "128 word"

datatype json_number = PosInt u64 | NegInt u64 | Float u64

datatype json =
    JNull | JBool bool | JNumber json_number | JString string | JArray "json list"
  | JObject "(string \<times> json) list"

datatype boot_phase_kind =
    KLoadingKey | KOpeningDatabase | KMigrating | KRecoveringPendingOps | KSweepingQueuedDrafts
  | KBackfillingThreadParticipants | KDrainingDraftWal | KOpeningBodyAndInlineStores
  | KOpeningSearchIndex | KRunningInvariantPass

datatype boot_phase =
    LoadingKey | OpeningDatabase | Migrating u32 u32 | RecoveringPendingOps | SweepingQueuedDrafts
  | BackfillingThreadParticipants | DrainingDraftWal | OpeningBodyAndInlineStores
  | OpeningSearchIndex | RunningInvariantPass

fun coalesce_discriminant :: "boot_phase \<Rightarrow> boot_phase_kind" where
  "coalesce_discriminant LoadingKey = KLoadingKey"
| "coalesce_discriminant OpeningDatabase = KOpeningDatabase"
| "coalesce_discriminant (Migrating current todo) = KMigrating"
| "coalesce_discriminant RecoveringPendingOps = KRecoveringPendingOps"
| "coalesce_discriminant SweepingQueuedDrafts = KSweepingQueuedDrafts"
| "coalesce_discriminant BackfillingThreadParticipants = KBackfillingThreadParticipants"
| "coalesce_discriminant DrainingDraftWal = KDrainingDraftWal"
| "coalesce_discriminant OpeningBodyAndInlineStores = KOpeningBodyAndInlineStores"
| "coalesce_discriminant OpeningSearchIndex = KOpeningSearchIndex"
| "coalesce_discriminant RunningInvariantPass = KRunningInvariantPass"

datatype coalesce_key =
    KeyBootProgress boot_phase_kind | KeySyncProgress string | KeyPushEvent string
  | KeyCalendarChanged string | KeyExtractProgress | KeyPrefetchProgress
  | KeyIndexRebuildProgress string | KeyTest string

text \<open>The trait \<^verbatim>\<open>WithGeneration\<close>: every payload has the tag, and reads and writes it alike.\<close>

record with_generation =
  service_generation :: u32

definition generation :: "'p with_generation_scheme \<Rightarrow> u32" where
  "generation p = service_generation p"

definition set_generation :: "u32 \<Rightarrow> 'p with_generation_scheme \<Rightarrow> 'p with_generation_scheme" where
  "set_generation g p = p\<lparr>service_generation := g\<rparr>"

lemma generation_set_generation [simp]: "generation (set_generation g p) = g"
  by (simp add: generation_def set_generation_def)

record boot_progress = with_generation +
  bp_phase :: boot_phase
  bp_message :: "string option"

record remote_failure =
  rf_provider_message :: string
  rf_http_status :: "16 word option"
  rf_retryable :: bool

datatype operation_result =
  Success | LocalOnly | RemoteFailure remote_failure | ConflictRejected string

record operation_outcome = with_generation +
  oo_plan_id :: uuid
  oo_operation_id :: u32
  oo_result :: operation_result

record plan_summary =
  ps_total :: u32
  ps_local_only :: u32
  ps_remote_succeeded :: u32
  ps_remote_failed :: u32
  ps_conflicts :: u32

record action_completed = with_generation +
  ac_plan_id :: uuid
  ac_summary :: plan_summary

record sync_progress = with_generation +
  sp_account_id :: string
  sp_event_name :: string
  sp_payload :: json

datatype sync_result = Completed | Cancelled | Failed string

record sync_completed = with_generation +
  sc_account_id :: string
  sc_run_id :: uuid
  sc_result :: sync_result

datatype sync_pause_reason = NeedsReauth | NeedsAttention

record account_paused_notification = with_generation +
  ap_account_id :: string
  ap_reason :: sync_pause_reason

record push_event = with_generation +
  pe_account_id :: string

text \<open>\<^verbatim>\<open>CalendarSyncResult\<close> has the constructors of \<^verbatim>\<open>SyncResult\<close>.\<close>

record calendar_run_completed = with_generation +
  cr_account_id :: string
  cr_run_id :: uuid
  cr_result :: sync_result
  cr_mutated :: bool

record calendar_changed = with_generation +
  cc_account_id :: string

datatype calendar_operation_result = CalSuccess | CalLocalOnly string | CalFailed string

record calendar_operation_outcome = with_generation +
  co_plan_id :: uuid
  co_operation_id :: u32
  co_result :: calendar_operation_result

record calendar_action_completed = with_generation +
  ca_plan_id :: uuid
  ca_results :: "calendar_operation_outcome list"

record extract_progress = with_generation +
  ep_remaining :: u64
  ep_indexed_in_session :: u64

record extract_completed = with_generation +
  ec_indexed :: u64
  ec_skipped :: u64
  ec_failed :: u64

record prefetch_progress = with_generation +
  pp_remaining :: u64
  pp_fetched_in_session :: u64

record prefetch_completed = with_generation +
  pc_fetched :: u64
  pc_skipped :: u64
  pc_failed :: u64

record eviction_completed = with_generation +
  ev_trigger :: string
  ev_blobs_tombstoned :: u64
  ev_pages_walked :: u64
  ev_superseded :: bool

record gc_completed = with_generation +
  gc_trigger :: string
  gc_packs_compacted :: u32
  gc_blobs_dropped :: u64
  gc_bytes_reclaimed :: u64

record index_rebuild_progress = with_generation +
  ip_rebuild_id :: string
  ip_processed :: u64
  ip_total :: u64

record index_rebuild_completed = with_generation +
  ic_rebuild_id :: string

section \<open>Notifications\<close>

datatype notification =
    BootProgress boot_progress
  | OperationOutcome operation_outcome
  | ActionCompleted action_completed
  | SyncProgress sync_progress
  | SyncCompleted sync_completed
  | AccountPaused account_paused_notification
  | IndexCommitted with_generation
  | PushEvent push_event
  | CalendarRunCompleted calendar_run_completed
  | CalendarChanged calendar_changed
  | CalendarOperationOutcome calendar_operation_outcome
  | CalendarActionCompleted calendar_action_completed
  | ExtractProgress extract_progress
  | ExtractCompleted extract_completed
  | PrefetchProgress prefetch_progress
  | PrefetchCompleted prefetch_completed
  | EvictionCompleted eviction_completed
  | GcCompleted gc_completed
  | IndexRebuildProgress index_rebuild_progress
  | IndexRebuildCompleted index_rebuild_completed

fun classify_notification :: "notification \<Rightarrow> coalesce_key notification_class" where
  "classify_notification (BootProgress p) = Coalesce (KeyBootProgress (coalesce_discriminant (bp_phase p)))"
| "classify_notification (OperationOutcome p) = MustDeliver"
| "classify_notification (ActionCompleted p) = MustDeliver"
| "classify_notification (SyncProgress p) = Coalesce (KeySyncProgress (sp_account_id p))"
| "classify_notification (SyncCompleted p) = MustDeliver"
| "classify_notification (AccountPaused p) = MustDeliver"
| "classify_notification (IndexCommitted p) = MustDeliver"
| "classify_notification (PushEvent p) = Coalesce (KeyPushEvent (pe_account_id p))"
| "classify_notification (CalendarRunCompleted p) = MustDeliver"
| "classify_notification (CalendarChanged p) = Coalesce (KeyCalendarChanged (cc_account_id p))"
| "classify_notification (CalendarOperationOutcome p) = MustDeliver"
| "classify_notification (CalendarActionCompleted p) = MustDeliver"
| "classify_notification (ExtractProgress p) = Coalesce KeyExtractProgress"
| "classify_notification (ExtractCompleted p) = MustDeliver"
| "classify_notification (PrefetchProgress p) = Coalesce KeyPrefetchProgress"
| "classify_notification (PrefetchCompleted p) = MustDeliver"
| "classify_notification (EvictionCompleted p) = MustDeliver"
| "classify_notification (GcCompleted p) = MustDeliver"
| "classify_notification (IndexRebuildProgress p) = Coalesce (KeyIndexRebuildProgress (ip_rebuild_id p))"
| "classify_notification (IndexRebuildCompleted p) = MustDeliver"

fun method_name :: "notification \<Rightarrow> string" where
  "method_name (BootProgress p) = ''boot.progress''"
| "method_name (OperationOutcome p) = ''action.operation_outcome''"
| "method_name (ActionCompleted p) = ''action.completed''"
| "method_name (SyncProgress p) = ''sync.progress''"
| "method_name (SyncCompleted p) = ''sync.completed''"
| "method_name (AccountPaused p) = ''sync.account_paused''"
| "method_name (IndexCommitted p) = ''index.committed''"
| "method_name (PushEvent p) = ''push.event''"
| "method_name (CalendarRunCompleted p) = ''calendar.run_completed''"
| "method_name (CalendarChanged p) = ''calendar.changed''"
| "method_name (CalendarOperationOutcome p) = ''cal_action.operation_outcome''"
| "method_name (CalendarActionCompleted p) = ''cal_action.completed''"
| "method_name (ExtractProgress p) = ''extract.progress''"
| "method_name (ExtractCompleted p) = ''extract.completed''"
| "method_name (PrefetchProgress p) = ''prefetch.progress''"
| "method_name (PrefetchCompleted p) = ''prefetch.completed''"
| "method_name (EvictionCompleted p) = ''eviction.completed''"
| "method_name (GcCompleted p) = ''gc.completed''"
| "method_name (IndexRebuildProgress p) = ''index.rebuild_progress''"
| "method_name (IndexRebuildCompleted p) = ''index.rebuild_completed''"

fun notification_generation :: "notification \<Rightarrow> u32 option" where
  "notification_generation (BootProgress p) = Some (generation p)"
| "notification_generation (OperationOutcome p) = Some (generation p)"
| "notification_generation (ActionCompleted p) = Some (generation p)"
| "notification_generation (SyncProgress p) = Some (generation p)"
| "notification_generation (SyncCompleted p) = Some (generation p)"
| "notification_generation (AccountPaused p) = Some (generation p)"
| "notification_generation (IndexCommitted p) = Some (generation p)"
| "notification_generation (PushEvent p) = Some (generation p)"
| "notification_generation (CalendarRunCompleted p) = Some (generation p)"
| "notification_generation (CalendarChanged p) = Some (generation p)"
| "notification_generation (CalendarOperationOutcome p) = Some (generation p)"
| "notification_generation (CalendarActionCompleted p) = Some (generation p)"
| "notification_generation (ExtractProgress p) = Some (generation p)"
| "notification_generation (ExtractCompleted p) = Some (generation p)"
| "notification_generation (PrefetchProgress p) = Some (generation p)"
| "notification_generation (PrefetchCompleted p) = Some (generation p)"
| "notification_generation (EvictionCompleted p) = Some (generation p)"
| "notification_generation (GcCompleted p) = Some (generation p)"
| "notification_generation (IndexRebuildProgress p) = Some (generation p)"
| "notification_generation (IndexRebuildCompleted p) = Some (generation p)"

fun set_service_generation :: "u32 \<Rightarrow> notification \<Rightarrow> notification" where
  "set_service_generation g (BootProgress p) = BootProgress (set_generation g p)"
| "set_service_generation g (OperationOutcome p) = OperationOutcome (set_generation g p)"
| "set_service_generation g (ActionCompleted p) = ActionCompleted (set_generation g p)"
| "set_service_generation g (SyncProgress p) = SyncProgress (set_generation g p)"
| "set_service_generation g (SyncCompleted p) = SyncCompleted (set_generation g p)"
| "set_service_generation g (AccountPaused p) = AccountPaused (set_generation g p)"
| "set_service_generation g (IndexCommitted p) = IndexCommitted (set_generation g p)"
| "set_service_generation g (PushEvent p) = PushEvent (set_generation g p)"
| "set_service_generation g (CalendarRunCompleted p) = CalendarRunCompleted (set_generation g p)"
| "set_service_generation g (CalendarChanged p) = CalendarChanged (set_generation g p)"
| "set_service_generation g (CalendarOperationOutcome p) = CalendarOperationOutcome (set_generation g p)"
| "set_service_generation g (CalendarActionCompleted p) = CalendarActionCompleted (set_generation g p)"
| "set_service_generation g (ExtractProgress p) = ExtractProgress (set_generation g p)"
| "set_service_generation g (ExtractCompleted p) = ExtractCompleted (set_generation g p)"
| "set_service_generation g (PrefetchProgress p) = PrefetchProgress (set_generation g p)"
| "set_service_generation g (PrefetchCompleted p) = PrefetchCompleted (set_generation g p)"
| "set_service_generation g (EvictionCompleted p) = EvictionCompleted (set_generation g p)"
| "set_service_generation g (GcCompleted p) = GcCompleted (set_generation g p)"
| "set_service_generation g (IndexRebuildProgress p) = IndexRebuildProgress (set_generation g p)"
| "set_service_generation g (IndexRebuildCompleted p) = IndexRebuildCompleted (set_generation g p)"

lemma no_drops_notifications: "no_drops classify_notification"
  unfolding no_drops_def
proof
  show "classify_notification x \<noteq> Drop" for x by (cases x) simp_all
qed

lemma set_generation_fields [simp]:
  "bp_phase (set_generation g bp) = bp_phase bp" "sp_account_id (set_generation g sp) = sp_account_id sp"
  "pe_account_id (set_generation g pe) = pe_account_id pe"
  "cc_account_id (set_generation g cc) = cc_account_id cc"
  "ip_rebuild_id (set_generation g ip) = ip_rebuild_id ip"
  by (simp_all add: set_generation_def)

text \<open>A tag is read back and changes neither the class nor the method.\<close>

lemma tagged_notification [simp]:
  "notification_generation (set_service_generation g x) = Some g"
  "classify_notification (set_service_generation g x) = classify_notification x"
  "method_name (set_service_generation g x) = method_name x"
  by (cases x; simp)+

section \<open>Errors\<close>

datatype boot_exit_code =
  HandshakeFailure | AnotherInstanceRunning | MigrationFailure | KeyLoadFailure | LockIoFailure

fun as_i32 :: "boot_exit_code \<Rightarrow> int" where
  "as_i32 HandshakeFailure = 70"
| "as_i32 AnotherInstanceRunning = 71"
| "as_i32 MigrationFailure = 72"
| "as_i32 KeyLoadFailure = 73"
| "as_i32 LockIoFailure = 74"

definition boot_exit_code_from_i32 :: "int \<Rightarrow> boot_exit_code option" where
  "boot_exit_code_from_i32 code =
     (if code = 70 then Some HandshakeFailure
      else if code = 71 then Some AnotherInstanceRunning
      else if code = 72 then Some MigrationFailure
      else if code = 73 then Some KeyLoadFailure
      else if code = 74 then Some LockIoFailure
      else None)"

lemma exit_code_roundtrip: "boot_exit_code_from_i32 n = Some c \<longleftrightarrow> n = as_i32 c"
  by (cases c) (auto simp: boot_exit_code_from_i32_def)

datatype boot_classification = BootFailure boot_exit_code | UnexpectedExit "int option"

definition from_exit_code :: "int option \<Rightarrow> boot_classification" where
  "from_exit_code code =
     (case code of
        Some n \<Rightarrow>
          (case boot_exit_code_from_i32 n of
             Some c \<Rightarrow> BootFailure c
           | None \<Rightarrow> UnexpectedExit (Some n))
      | None \<Rightarrow> UnexpectedExit None)"

datatype service_error =
    HandlerPanic string string | InvalidParams string string | UnknownMethod string | Internal string
  | Backpressure | ServiceBootFailure boot_exit_code

record rpc_error =
  re_code :: int
  re_message :: string
  re_data :: "json option"

text \<open>The messages are built as \<^verbatim>\<open>format!\<close> builds them; \<^verbatim>\<open>to_value\<close> is the serializer of \<^verbatim>\<open>ServiceError\<close>.\<close>

fun error_code :: "service_error \<Rightarrow> int" where
  "error_code (InvalidParams m msg) = -32602"
| "error_code (UnknownMethod m) = -32601"
| "error_code (HandlerPanic m msg) = -32603"
| "error_code (Internal msg) = -32603"
| "error_code Backpressure = -32000"
| "error_code (ServiceBootFailure c) = -32001"

fun error_message :: "service_error \<Rightarrow> string" where
  "error_message (InvalidParams m msg) = msg"
| "error_message (UnknownMethod m) = ''unknown method: '' @ m"
| "error_message (HandlerPanic m msg) = ''handler panic in '' @ m @ '': '' @ msg"
| "error_message (Internal msg) = msg"
| "error_message Backpressure = ''service at capacity (in-flight admission rejected)''"
| "error_message (ServiceBootFailure c) = ''boot sequence failed (exit code '' @ dec (as_i32 c) @ '')''"

definition rpc_error_from :: "(service_error \<Rightarrow> json option) \<Rightarrow> service_error \<Rightarrow> rpc_error" where
  "rpc_error_from to_value e =
     \<lparr>re_code = error_code e, re_message = error_message e, re_data = to_value e\<rparr>"

definition try_into_service_error ::
  "(json \<Rightarrow> service_error option) \<Rightarrow> rpc_error \<Rightarrow> rpc_error + service_error" where
  "try_into_service_error from_value o1 =
     (case re_data o1 of
        Some v \<Rightarrow> (case from_value v of Some e \<Rightarrow> Inr e | None \<Rightarrow> Inl o1)
      | None \<Rightarrow> Inl o1)"

section \<open>Parsing a message of the service\<close>

record raw_message =
  jsonrpc :: "string option"
  raw_id :: "json option"
  raw_method :: "string option"
  raw_params :: "json option"
  raw_result :: "json option"
  raw_error :: "rpc_error option"

datatype request_parse_error = MalformedJson string | InvalidRequest "u64 option" string

datatype service_response = ResponseSuccess json | ResponseError rpc_error

datatype parsed_service_message =
  Response "u64 option" service_response | ServiceNotification notification

fun extract_u64 :: "json \<Rightarrow> u64 option" where
  "extract_u64 (JNumber (PosInt n)) = Some n"
| "extract_u64 v = None"

definition require_jsonrpc :: "raw_message \<Rightarrow> request_parse_error + unit" where
  "require_jsonrpc raw =
     (if jsonrpc raw = Some ''2.0'' then Inr () else Inl (InvalidRequest None ''jsonrpc must be 2.0''))"

fun parse_response_id :: "json option \<Rightarrow> request_parse_error + u64 option" where
  "parse_response_id None = Inr None"
| "parse_response_id (Some JNull) = Inr None"
| "parse_response_id (Some v) =
     (case extract_u64 v of
        Some n \<Rightarrow> Inr (Some n)
      | None \<Rightarrow> Inl (InvalidRequest None ''response id must be a u64''))"

text \<open>The deserializers, one for each type that is read: lines, notifications, errors and two responses.\<close>

record serde =
  from_str :: "string \<Rightarrow> string + raw_message"
  from_value :: "json \<Rightarrow> string + notification"
  error_from_value :: "json \<Rightarrow> service_error option"
  ping_version :: "json \<Rightarrow> u32 option"
  schema_version :: "json \<Rightarrow> u32 option"

definition parse_service_message ::
  "serde \<Rightarrow> string \<Rightarrow> request_parse_error + parsed_service_message" where
  "parse_service_message S line =
     (case from_str S line of
        Inl e \<Rightarrow> Inl (MalformedJson e)
      | Inr raw \<Rightarrow>
          (case require_jsonrpc raw of
             Inl e \<Rightarrow> Inl e
           | Inr _ \<Rightarrow>
               (case (raw_id raw, raw_method raw) of
                  (Some _, None) \<Rightarrow>
                    (case parse_response_id (raw_id raw) of
                       Inl e \<Rightarrow> Inl e
                     | Inr i \<Rightarrow>
                         Inr (Response i
                           (case raw_error raw of
                              Some e \<Rightarrow> ResponseError e
                            | None \<Rightarrow> ResponseSuccess (case raw_result raw of Some v \<Rightarrow> v | None \<Rightarrow> JNull))))
                | (None, None) \<Rightarrow>
                    (case raw_error raw of
                       Some e \<Rightarrow> Inr (Response None (ResponseError e))
                     | None \<Rightarrow> Inl (InvalidRequest None ''message is neither response nor notification''))
                | (None, Some m) \<Rightarrow>
                    (case from_value S (JObject
                         [(''method'', JString m),
                          (''params'', case raw_params raw of Some v \<Rightarrow> v | None \<Rightarrow> JNull)]) of
                       Inl e \<Rightarrow> Inl (MalformedJson e)
                     | Inr x \<Rightarrow> Inr (ServiceNotification x))
                | (Some _, Some _) \<Rightarrow>
                    Inl (InvalidRequest None ''message is neither response nor notification''))))"

end
