(* ===== verification/LinkWaiters.thy ===== *)
theory LinkWaiters
  imports Prelude
begin

text \<open>
  The waiters for the end of a run (\<^verbatim>\<open>crates/app/src/service_client.rs\<close>: \<^verbatim>\<open>PendingSync\<close>,
  \<^verbatim>\<open>subscribe_or_consume\<close>, \<^verbatim>\<open>route_sync_completed\<close>, the sweeps and \<^verbatim>\<open>fail_pending_syncs\<close>). The code has
  the same operations three times, for mail runs, calendar runs and calendar plans; here they are
  one definition each, for any type of key and of result. The lemmas show which waiter gets which
  result.
\<close>

section \<open>Slots\<close>

text \<open>
  A slot is open, with the waiters subscribed to its broadcast channel, or it keeps a result that
  came before any waiter, with the time it came. \<^verbatim>\<open>received\<close> is what a waiter has got: a result, or
  \<^verbatim>\<open>None\<close> when its channel was closed without one. Times are in seconds.
\<close>

datatype 'r slot = Pending "nat list" | Latched 'r nat

record ('k, 'r) waiters =
  slots :: "'k \<Rightarrow> 'r slot option"
  received :: "nat \<Rightarrow> 'r option option"

definition waiters_new :: "('k, 'r) waiters" where
  "waiters_new = \<lparr>slots = (\<lambda>k. None), received = (\<lambda>w. None)\<rparr>"

definition LATCHED_COMPLETED_TTL :: nat where "LATCHED_COMPLETED_TTL = 30"

text \<open>\<^verbatim>\<open>retain\<close>: a kept result goes when it has reached the age limit.\<close>

definition sweep_latched_completed :: "nat \<Rightarrow> ('k, 'r) waiters \<Rightarrow> ('k, 'r) waiters" where
  "sweep_latched_completed now w =
     w\<lparr>slots := (\<lambda>k. case slots w k of
         Some (Latched r at) \<Rightarrow> if now - at < LATCHED_COMPLETED_TTL then Some (Latched r at) else None
       | slot \<Rightarrow> slot)\<rparr>"

definition deliver :: "nat list \<Rightarrow> 'r option \<Rightarrow> (nat \<Rightarrow> 'r option option) \<Rightarrow> nat \<Rightarrow> 'r option option" where
  "deliver ws r f = (\<lambda>w. if w \<in> set ws then Some r else f w)"

text \<open>The part under the mutex: a kept result is consumed, or the waiter joins the channel.\<close>

definition subscribe :: "nat \<Rightarrow> 'k \<Rightarrow> ('k, 'r) waiters \<Rightarrow> ('k, 'r) waiters" where
  "subscribe i k w =
     (case slots w k of
        Some (Latched r at) \<Rightarrow>
          w\<lparr>slots := (slots w)(k := None), received := (received w)(i := Some (Some r))\<rparr>
      | Some (Pending ws) \<Rightarrow> w\<lparr>slots := (slots w)(k := Some (Pending (ws @ [i])))\<rparr>
      | None \<Rightarrow> w\<lparr>slots := (slots w)(k := Some (Pending [i]))\<rparr>)"

definition subscribe_or_consume :: "nat \<Rightarrow> nat \<Rightarrow> 'k \<Rightarrow> ('k, 'r) waiters \<Rightarrow> ('k, 'r) waiters" where
  "subscribe_or_consume now i k w = subscribe i k (sweep_latched_completed now w)"

definition route_completed :: "nat \<Rightarrow> 'k \<Rightarrow> 'r \<Rightarrow> ('k, 'r) waiters \<Rightarrow> ('k, 'r) waiters" where
  "route_completed now k r w0 =
     (let w = sweep_latched_completed now w0
      in case slots w k of
           Some (Pending ws) \<Rightarrow>
             w\<lparr>slots := (slots w)(k := None), received := deliver ws (Some r) (received w)\<rparr>
         | Some (Latched r' at) \<Rightarrow> w
         | None \<Rightarrow> w\<lparr>slots := (slots w)(k := Some (Latched r now))\<rparr>)"

text \<open>
  \<^verbatim>\<open>clear\<close> drops the senders, so every waiter still in a channel ends without a result. The waiters
  in channels are given as a list, since a channel knows its receivers.
\<close>

definition waiting :: "('k, 'r) waiters \<Rightarrow> nat \<Rightarrow> bool" where
  "waiting w i = (\<exists>k ws. slots w k = Some (Pending ws) \<and> i \<in> set ws)"

definition fail_pending_waiters :: "('k, 'r) waiters \<Rightarrow> ('k, 'r) waiters" where
  "fail_pending_waiters w =
     \<lparr>slots = (\<lambda>k. None), received = (\<lambda>i. if waiting w i then Some None else received w i)\<rparr>"

section \<open>Histories\<close>

text \<open>
  The calls in the order of their critical sections, each with its time. Each subscription is by a
  waiter of its own.
\<close>

datatype ('k, 'r) waiter_call = Subscribe nat 'k | Route 'k 'r | FailAll | Sweep

fun run_call :: "nat \<times> ('k, 'r) waiter_call \<Rightarrow> ('k, 'r) waiters \<Rightarrow> ('k, 'r) waiters" where
  "run_call (t, Subscribe i k) w = subscribe_or_consume t i k w"
| "run_call (t, Route k r) w = route_completed t k r w"
| "run_call (t, FailAll) w = fail_pending_waiters w"
| "run_call (t, Sweep) w = sweep_latched_completed t w"

definition waiter_calls :: "(nat \<times> ('k, 'r) waiter_call) list \<Rightarrow> ('k, 'r) waiters" where
  "waiter_calls cs = fold run_call cs waiters_new"

definition subscribers :: "(nat \<times> ('k, 'r) waiter_call) list \<Rightarrow> nat list" where
  "subscribers cs = concat (map (\<lambda>(t, c). case c of Subscribe i k \<Rightarrow> [i] | _ \<Rightarrow> []) cs)"

lemma waiter_calls_append [simp]: "waiter_calls (cs @ ds) = fold run_call ds (waiter_calls cs)"
  by (simp add: waiter_calls_def)

lemma subscribers_simps [simp]:
  "subscribers [] = []" "subscribers (cs @ ds) = subscribers cs @ subscribers ds"
  "subscribers ((t, Subscribe i k) # cs) = i # subscribers cs"
  "subscribers ((t, Route k r) # cs) = subscribers cs"
  "subscribers ((t, FailAll) # cs) = subscribers cs" "subscribers ((t, Sweep) # cs) = subscribers cs"
  by (simp_all add: subscribers_def)

text \<open>A waiter is in one channel at most, and only until it has got something.\<close>

definition waiters_ok :: "nat set \<Rightarrow> ('k, 'r) waiters \<Rightarrow> bool" where
  "waiters_ok S w =
     (\<forall>k ws i. slots w k = Some (Pending ws) \<longrightarrow> i \<in> set ws \<longrightarrow> i \<in> S \<and> received w i = None \<and>
        (\<forall>k' ws'. slots w k' = Some (Pending ws') \<longrightarrow> i \<in> set ws' \<longrightarrow> k' = k))"

lemma slots_sweep [simp]:
  "slots (sweep_latched_completed t w) k = Some (Pending ws) \<longleftrightarrow> slots w k = Some (Pending ws)"
  "received (sweep_latched_completed t w) = received w"
  by (simp_all add: sweep_latched_completed_def split: option.splits slot.splits)

lemma sweep_pending [simp]:
  "slots w k = Some (Pending ws) \<Longrightarrow> slots (sweep_latched_completed t w) k = Some (Pending ws)"
  by simp

lemma waiters_ok_sweep [simp]: "waiters_ok S (sweep_latched_completed t w) = waiters_ok S w"
  by (simp add: waiters_ok_def)

lemma waiters_ok_subscribe:
  assumes "waiters_ok S w" "i \<notin> S" "received w i = None"
  shows "waiters_ok (insert i S) (subscribe i k w)"
proof -
  have new: "i \<notin> set ws" if "slots w j = Some (Pending ws)" for j ws
    using assms(1,2) that unfolding waiters_ok_def by blast
  show ?thesis using assms new unfolding waiters_ok_def subscribe_def
    by (auto split: option.splits slot.splits if_splits)
qed

lemma waiters_ok_route: "waiters_ok S w \<Longrightarrow> waiters_ok S (route_completed t k r w)"
  by (auto simp: waiters_ok_def route_completed_def Let_def deliver_def
      split: option.splits slot.splits if_splits)

lemma waiters_ok_fail: "waiters_ok S (fail_pending_waiters w)"
  by (simp add: waiters_ok_def fail_pending_waiters_def)

lemma received_call:
  assumes "received w i = None" "\<not> waiting w i" "\<forall>t k. c \<noteq> (t, Subscribe i k)"
  shows "received (run_call c w) i = None \<and> \<not> waiting (run_call c w) i"
proof (cases c)
  case (Pair t d)
  then show ?thesis using assms
    by (cases d) (auto simp: subscribe_or_consume_def subscribe_def route_completed_def
        fail_pending_waiters_def deliver_def waiting_def Let_def split: option.splits slot.splits if_splits)
qed

lemma waiter_calls_ok:
  assumes "distinct (subscribers cs)"
  shows "waiters_ok (set (subscribers cs)) (waiter_calls cs) \<and>
    (\<forall>i. i \<notin> set (subscribers cs) \<longrightarrow> received (waiter_calls cs) i = None \<and> \<not> waiting (waiter_calls cs) i)"
  using assms
proof (induction cs rule: rev_induct)
  case Nil
  then show ?case by (simp add: waiter_calls_def waiters_new_def waiters_ok_def waiting_def)
next
  case (snoc c cs)
  then have IH: "waiters_ok (set (subscribers cs)) (waiter_calls cs)"
    "\<And>i. i \<notin> set (subscribers cs) \<Longrightarrow> received (waiter_calls cs) i = None \<and> \<not> waiting (waiter_calls cs) i"
    by auto
  obtain t d where c: "c = (t, d)" by (cases c)
  have ok: "waiters_ok (set (subscribers (cs @ [c]))) (run_call c (waiter_calls cs))"
    using IH snoc.prems c
    by (cases d) (auto simp: subscribe_or_consume_def waiters_ok_route waiters_ok_fail
        intro!: waiters_ok_subscribe)
  have "received (run_call c (waiter_calls cs)) i = None \<and> \<not> waiting (run_call c (waiter_calls cs)) i"
    if "i \<notin> set (subscribers (cs @ [c]))" for i
    using that c IH(2) [of i] by (intro received_call) (cases d, auto)+
  with ok show ?case by simp
qed

text \<open>What a waiter has got stays; it stays in its channel until a completion or a failure.\<close>

definition concerns :: "'k \<Rightarrow> nat \<times> ('k, 'r) waiter_call \<Rightarrow> bool" where
  "concerns k c = (case snd c of Subscribe i k' \<Rightarrow> k' = k | Route k' r \<Rightarrow> k' = k | FailAll \<Rightarrow> True | Sweep \<Rightarrow> False)"

definition ends :: "'k \<Rightarrow> nat \<times> ('k, 'r) waiter_call \<Rightarrow> bool" where
  "ends k c = (case snd c of Route k' r \<Rightarrow> k' = k | FailAll \<Rightarrow> True | _ \<Rightarrow> False)"

definition in_slot :: "('k, 'r) waiters \<Rightarrow> 'k \<Rightarrow> nat \<Rightarrow> bool" where
  "in_slot w k i = (\<exists>ws. slots w k = Some (Pending ws) \<and> i \<in> set ws)"

lemma in_slot_call:
  assumes "in_slot w k i" "\<not> ends k c"
  shows "in_slot (run_call c w) k i"
proof -
  obtain ws where ws: "slots w k = Some (Pending ws)" "i \<in> set ws" using assms(1) by (auto simp: in_slot_def)
  obtain t d where "c = (t, d)" by (cases c)
  with assms(2) ws show ?thesis
    by (cases d; cases "slots (sweep_latched_completed t w) (case d of Subscribe j k' \<Rightarrow> k' | Route k' r \<Rightarrow> k')")
      (auto simp: in_slot_def ends_def subscribe_or_consume_def subscribe_def route_completed_def Let_def
        split: slot.splits option.splits)
qed

lemma in_slot_calls: "in_slot w k i \<Longrightarrow> \<forall>c\<in>set cs. \<not> ends k c \<Longrightarrow> in_slot (fold run_call cs w) k i"
  by (induction cs arbitrary: w) (auto intro: in_slot_call)

lemma received_stays:
  assumes "waiters_ok S w" "received w i = Some x" "\<forall>t k. c \<noteq> (t, Subscribe i k)"
  shows "received (run_call c w) i = Some x"
proof -
  have nw: "i \<notin> set ws" if "slots w j = Some (Pending ws)" for j ws
    using assms(1,2) that unfolding waiters_ok_def by fastforce
  obtain t d where "c = (t, d)" by (cases c)
  with assms(2,3) nw show ?thesis
    by (cases d) (auto simp: subscribe_or_consume_def subscribe_def route_completed_def deliver_def
        fail_pending_waiters_def waiting_def Let_def split: option.splits slot.splits)
qed

lemma received_kept:
  assumes "distinct (subscribers (as @ bs))" "i \<notin> set (subscribers bs)"
    "received (waiter_calls as) i = Some x"
  shows "received (waiter_calls (as @ bs)) i = Some x"
  using assms
proof (induction bs rule: rev_induct)
  case (snoc c bs)
  obtain t d where c: "c = (t, d)" by (cases c)
  have "waiters_ok (set (subscribers (as @ bs))) (waiter_calls (as @ bs))"
    using snoc.prems(1) by (intro waiter_calls_ok [THEN conjunct1]) auto
  moreover have "received (waiter_calls (as @ bs)) i = Some x"
    using snoc.prems by (intro snoc.IH) auto
  moreover have "\<forall>t k. c \<noteq> (t, Subscribe i k)" using snoc.prems(2) c by (cases d) auto
  ultimately show ?case using received_stays [of _ "waiter_calls (as @ bs)" i x c] by simp
qed simp

section \<open>Who gets a result\<close>

lemma subscribed_state:
  assumes "distinct (subscribers (as @ [(t, Subscribe i k)]))"
  shows "received (waiter_calls (as @ [(t, Subscribe i k)])) i = None \<longleftrightarrow>
         in_slot (waiter_calls (as @ [(t, Subscribe i k)])) k i"
proof -
  have "received (waiter_calls as) i = None" "\<not> waiting (waiter_calls as) i"
    using assms waiter_calls_ok [of as] by auto
  then show ?thesis
    by (auto simp: subscribe_or_consume_def subscribe_def in_slot_def waiting_def
        split: option.splits slot.splits)
qed

text \<open>A waiter that subscribed before the completion.\<close>

lemma early_waiter_served:
  assumes "distinct (subscribers (as @ (t, Subscribe i k) # bs @ (t', Route k r) # cs))"
    and "received (waiter_calls (as @ [(t, Subscribe i k)])) i = None"
    and "\<forall>c\<in>set bs. \<not> ends k c"
  shows "received (waiter_calls (as @ (t, Subscribe i k) # bs @ (t', Route k r) # cs)) i = Some (Some r)"
proof -
  let ?w = "waiter_calls ((as @ [(t, Subscribe i k)]) @ bs)"
  have "in_slot (waiter_calls (as @ [(t, Subscribe i k)])) k i"
    using assms(1,2) by (subst subscribed_state [symmetric]) auto
  then have "in_slot ?w k i" using in_slot_calls assms(3) by (subst waiter_calls_append)
  then obtain ws where "slots ?w k = Some (Pending ws)" "i \<in> set ws" by (auto simp: in_slot_def)
  then have "received (run_call (t', Route k r) ?w) i = Some (Some r)"
    by (simp add: route_completed_def deliver_def Let_def)
  then have "received (waiter_calls (as @ (t, Subscribe i k) # bs @ [(t', Route k r)])) i = Some (Some r)"
    by simp
  then show ?thesis
    using received_kept [of "as @ (t, Subscribe i k) # bs @ [(t', Route k r)]" cs i "Some r"] assms(1)
    by auto
qed

text \<open>The first waiter that comes within the age limit after the completion.\<close>

lemma latched_stays:
  assumes "slots w k = Some (Latched r at)" "\<forall>c\<in>set cs. \<not> concerns k c \<and> fst c - at < LATCHED_COMPLETED_TTL"
  shows "slots (fold run_call cs w) k = Some (Latched r at)"
  using assms
proof (induction cs arbitrary: w)
  case (Cons c cs)
  obtain t d where c: "c = (t, d)" by (cases c)
  with Cons.prems have "slots (run_call c w) k = Some (Latched r at)"
    by (cases d) (auto simp: concerns_def subscribe_or_consume_def subscribe_def route_completed_def
        sweep_latched_completed_def Let_def split: option.splits slot.splits)
  with Cons show ?case by simp
qed simp

lemma late_waiter_served:
  assumes "distinct (subscribers (as @ (t, Route k r) # bs @ (t', Subscribe i k) # cs))"
    and "slots (waiter_calls as) k = None"
    and "\<forall>c\<in>set bs. \<not> concerns k c \<and> fst c - t < LATCHED_COMPLETED_TTL"
    and "t' - t < LATCHED_COMPLETED_TTL"
  shows "received (waiter_calls (as @ (t, Route k r) # bs @ (t', Subscribe i k) # cs)) i = Some (Some r)"
proof -
  have "slots (sweep_latched_completed t (waiter_calls as)) k = None"
    using assms(2) by (simp add: sweep_latched_completed_def)
  then have "slots (run_call (t, Route k r) (waiter_calls as)) k = Some (Latched r t)"
    by (simp add: route_completed_def Let_def)
  from latched_stays [OF this assms(3)]
  have "received (waiter_calls (as @ (t, Route k r) # bs @ [(t', Subscribe i k)])) i = Some (Some r)"
    using assms(4) by (simp add: subscribe_or_consume_def subscribe_def sweep_latched_completed_def)
  then show ?thesis
    using received_kept [of "as @ (t, Route k r) # bs @ [(t', Subscribe i k)]" cs i "Some r"] assms(1)
    by auto
qed

end
