(* ===== verification/LinkFraming.thy ===== *)
theory LinkFraming
  imports RustStr
begin

text \<open>
  The framing of the link between the user interface and the service process
  (\<^verbatim>\<open>crates/service-api/src/framing.rs\<close>): \<^verbatim>\<open>BoundedLineReader\<close>, which cuts the bytes of a pipe
  into lines, and \<^verbatim>\<open>encode_message\<close>, which writes a line. The serializer of the package serde_json
  is a parameter. The lemmas show that the lines are those of the bytes, however the pipe cuts them
  into chunks, that each over-long line gives one error, and that the reader never holds more than
  its limit.
\<close>

section \<open>Valid UTF-8\<close>

text \<open>
  The check of \<^verbatim>\<open>String::from_utf8\<close>: the well-formed byte sequences of the Unicode standard, which
  leaves out overlong forms, surrogates and code points beyond the last one.
\<close>

definition in_range :: "nat \<Rightarrow> nat \<Rightarrow> char \<Rightarrow> bool" where
  "in_range lo hi c = (lo \<le> of_char c \<and> of_char c \<le> hi)"

abbreviation continuation_byte :: "char \<Rightarrow> bool" where
  "continuation_byte \<equiv> in_range 0x80 0xBF"

definition two_bytes :: "char \<Rightarrow> char \<Rightarrow> bool" where
  "two_bytes a b = (in_range 0xC2 0xDF a \<and> continuation_byte b)"

definition three_bytes :: "char \<Rightarrow> char \<Rightarrow> char \<Rightarrow> bool" where
  "three_bytes a b c =
     ((in_range 0xE0 0xE0 a \<and> in_range 0xA0 0xBF b \<or>
       in_range 0xE1 0xEC a \<and> continuation_byte b \<or>
       in_range 0xED 0xED a \<and> in_range 0x80 0x9F b \<or>
       in_range 0xEE 0xEF a \<and> continuation_byte b) \<and> continuation_byte c)"

definition four_bytes :: "char \<Rightarrow> char \<Rightarrow> char \<Rightarrow> char \<Rightarrow> bool" where
  "four_bytes a b c d =
     ((in_range 0xF0 0xF0 a \<and> in_range 0x90 0xBF b \<or>
       in_range 0xF1 0xF3 a \<and> continuation_byte b \<or>
       in_range 0xF4 0xF4 a \<and> in_range 0x80 0x8F b) \<and>
      continuation_byte c \<and> continuation_byte d)"

fun is_utf8 :: "string \<Rightarrow> bool" where
  "is_utf8 [] = True"
| "is_utf8 (a # s) =
     (if in_range 0 0x7F a then is_utf8 s
      else case s of
        b # c # d # r \<Rightarrow>
          (if two_bytes a b then is_utf8 (c # d # r)
           else if three_bytes a b c then is_utf8 (d # r)
           else four_bytes a b c d \<and> is_utf8 r)
      | [b, c] \<Rightarrow> (if two_bytes a b then is_utf8 [c] else three_bytes a b c)
      | [b] \<Rightarrow> two_bytes a b
      | [] \<Rightarrow> False)"

section \<open>The line reader\<close>

datatype frame_error = TooLarge | InvalidUtf8 | Io

text \<open>
  The pipe below the reader is a list of what its reads return: an error, or bytes. No bytes are the
  end of the pipe, and so is a list that is used up. \<^verbatim>\<open>unread\<close> is the buffer of the \<^verbatim>\<open>BufReader\<close>.
\<close>

type_synonym pipe = "(unit + string) list"

record line_reader =
  unread :: string
  source :: pipe
  max_len :: nat
  buffer :: string
  discarding :: bool

definition line_reader_new :: "pipe \<Rightarrow> nat \<Rightarrow> line_reader" where
  "line_reader_new src n =
     \<lparr>unread = [], source = src, max_len = n, buffer = [], discarding = False\<rparr>"

definition fill_buf :: "line_reader \<Rightarrow> (unit + string) \<times> line_reader" where
  "fill_buf r =
     (if unread r \<noteq> [] then (Inr (unread r), r)
      else case source r of
        [] \<Rightarrow> (Inr [], r)
      | Inl e # src \<Rightarrow> (Inl e, r\<lparr>source := src\<rparr>)
      | Inr bs # src \<Rightarrow> (Inr bs, r\<lparr>unread := bs, source := src\<rparr>))"

definition consume :: "nat \<Rightarrow> line_reader \<Rightarrow> line_reader" where
  "consume n r = r\<lparr>unread := drop n (unread r)\<rparr>"

definition newline :: char where "newline = CHR 0x0A"

text \<open>\<^verbatim>\<open>available.iter().position(|byte| *byte == b'\n')\<close>\<close>

definition newline_position :: "string \<Rightarrow> nat option" where
  "newline_position s =
     (let n = length (takeWhile (\<lambda>c. c \<noteq> newline) s)
      in if n < length s then Some n else None)"

definition from_utf8 :: "string \<Rightarrow> frame_error + string option" where
  "from_utf8 s = (if is_utf8 s then Inr (Some s) else Inl InvalidUtf8)"

fun event_size :: "unit + string \<Rightarrow> nat" where
  "event_size (Inl e) = 1"
| "event_size (Inr bs) = Suc (length bs)"

definition unread_size :: "line_reader \<Rightarrow> nat" where
  "unread_size r = length (unread r) + sum_list (map event_size (source r))"

lemma fill_buf_unread: "fill_buf r = (Inr a, r') \<Longrightarrow> unread r' = a"
  by (auto simp: fill_buf_def split: if_splits list.splits sum.splits)

lemma fill_buf_size: "fill_buf r = (x, r') \<Longrightarrow> unread_size r' \<le> unread_size r"
  by (auto simp: fill_buf_def unread_size_def split: if_splits list.splits sum.splits)

lemma unread_size_fields [simp]:
  "unread_size (r\<lparr>buffer := b\<rparr>) = unread_size r"
  "unread_size (r\<lparr>discarding := d\<rparr>) = unread_size r"
  by (simp_all add: unread_size_def)

lemma consume_size:
  "fill_buf r = (Inr a, r') \<Longrightarrow> a \<noteq> [] \<Longrightarrow> 0 < n \<Longrightarrow> unread_size (consume n r') < unread_size r"
  using fill_buf_size [of r "Inr a" r'] fill_buf_unread [of r a r']
  by (cases a) (auto simp: consume_def unread_size_def)

lemma consume_fields [simp]:
  "unread_size (consume n (r\<lparr>buffer := b\<rparr>)) = unread_size (consume n r)"
  "unread_size (consume n (r\<lparr>discarding := d\<rparr>)) = unread_size (consume n r)"
  by (simp_all add: unread_size_def consume_def)

text \<open>
  One round of the loop of \<^verbatim>\<open>next_line\<close>: a return, or the state the next round starts in. The loop
  ends with every call, since a round that goes on takes at least a byte off the pipe.
\<close>

definition line_round ::
  "line_reader \<Rightarrow> ((frame_error + string option) \<times> line_reader) + line_reader" where
  "line_round r =
     (case fill_buf r of
        (Inl e, r1) \<Rightarrow> Inl (Inl Io, r1)
      | (Inr available, r1) \<Rightarrow>
          if available = [] then
            if discarding r1 then Inl (Inr None, r1\<lparr>discarding := False\<rparr>)
            else if buffer r1 = [] then Inl (Inr None, r1)
            else Inl (from_utf8 (buffer r1), r1\<lparr>buffer := []\<rparr>)
          else if discarding r1 then
            (case newline_position available of
               Some pos \<Rightarrow> Inr (consume (pos + 1) (r1\<lparr>discarding := False\<rparr>))
             | None \<Rightarrow> Inr (consume (length available) r1))
          else
            (case newline_position available of
               Some pos \<Rightarrow>
                 if length (buffer r1) + pos > max_len r1
                 then Inl (Inl TooLarge, consume (pos + 1) (r1\<lparr>buffer := []\<rparr>))
                 else Inl (from_utf8 (buffer r1 @ take pos available),
                           (consume (pos + 1) r1)\<lparr>buffer := []\<rparr>)
             | None \<Rightarrow>
                 if length (buffer r1) + length available > max_len r1
                 then Inl (Inl TooLarge,
                           (consume (length available) (r1\<lparr>buffer := []\<rparr>))\<lparr>discarding := True\<rparr>)
                 else Inr (consume (length available)
                             (r1\<lparr>buffer := buffer r1 @ available\<rparr>))))"

lemma line_round_size: "line_round r = Inr r' \<Longrightarrow> unread_size r' < unread_size r"
  by (auto simp: line_round_def consume_size split: prod.splits sum.splits if_splits option.splits)

function next_line :: "line_reader \<Rightarrow> (frame_error + string option) \<times> line_reader" where
  "next_line r = (case line_round r of Inl result \<Rightarrow> result | Inr r' \<Rightarrow> next_line r')"
  by pat_completeness auto
termination
  by (relation "measure unread_size") (auto intro: line_round_size)

declare next_line.simps [simp del]

section \<open>What the reader holds\<close>

lemma fill_buf_fields:
  "fill_buf r = (x, r') \<Longrightarrow>
     buffer r' = buffer r \<and> discarding r' = discarding r \<and> max_len r' = max_len r"
  by (auto simp: fill_buf_def split: if_splits list.splits sum.splits)

lemma consume_simps [simp]:
  "buffer (consume n r) = buffer r" "discarding (consume n r) = discarding r"
  "max_len (consume n r) = max_len r" "source (consume n r) = source r"
  by (simp_all add: consume_def)

lemma newline_position_less: "newline_position s = Some n \<Longrightarrow> n < length s"
  by (simp add: newline_position_def Let_def split: if_splits)

text \<open>Induction over the rounds of a call, with what each round does.\<close>

lemma next_line_rounds:
  assumes "next_line r = (x, r')" "P r"
    and "\<And>r1 r2. P r1 \<Longrightarrow> line_round r1 = Inr r2 \<Longrightarrow> P r2"
    and "\<And>r1. P r1 \<Longrightarrow> line_round r1 = Inl (x, r') \<Longrightarrow> Q"
  shows Q
  using assms(1,2)
proof (induction r rule: next_line.induct)
  case (1 r)
  show ?case
  proof (cases "line_round r")
    case (Inl res)
    with 1(2) have "res = (x, r')" by (simp add: next_line.simps [of r])
    with Inl 1(3) show Q using assms(4) by simp
  next
    case (Inr r2)
    with 1(2) have "next_line r2 = (x, r')" by (simp add: next_line.simps [of r])
    with Inr 1(1,3) show Q using assms(3) by blast
  qed
qed

text \<open>The reader never holds more of a line than its limit, whatever the pipe delivers.\<close>

definition reader_ok :: "line_reader \<Rightarrow> bool" where
  "reader_ok r = (length (buffer r) \<le> max_len r \<and> newline \<notin> set (buffer r) \<and>
                  (discarding r \<longrightarrow> buffer r = []))"

lemma length_takeWhile_less: "length (takeWhile P s) < length s \<longleftrightarrow> (\<exists>x\<in>set s. \<not> P x)"
  by (induction s) auto

lemma newline_position_None: "newline_position s = None \<longleftrightarrow> newline \<notin> set s"
  using length_takeWhile_less [of "\<lambda>c. c \<noteq> newline" s]
  by (auto simp: newline_position_def Let_def)

lemma reader_ok_new [simp]: "reader_ok (line_reader_new src n)"
  by (simp add: reader_ok_def line_reader_new_def)

lemma line_round_ok:
  "reader_ok r \<Longrightarrow> line_round r = Inr r' \<Longrightarrow> reader_ok r' \<and> max_len r' = max_len r"
  by (auto simp: line_round_def reader_ok_def newline_position_None dest: fill_buf_fields
      split: prod.splits sum.splits if_splits option.splits)

lemma line_round_return_ok:
  "reader_ok r \<Longrightarrow> line_round r = Inl (x, r') \<Longrightarrow> reader_ok r' \<and> max_len r' = max_len r"
  by (auto simp: line_round_def reader_ok_def dest: fill_buf_fields
      split: prod.splits sum.splits if_splits option.splits)

lemma next_line_ok:
  assumes "next_line r = (x, r')" "reader_ok r"
  shows "reader_ok r' \<and> max_len r' = max_len r"
  using assms(1)
proof (rule next_line_rounds [where P = "\<lambda>r1. reader_ok r1 \<and> max_len r1 = max_len r"])
  show "reader_ok r \<and> max_len r = max_len r" using assms(2) by simp
qed (auto dest: line_round_ok line_round_return_ok)

section \<open>Lines of a byte sequence\<close>

text \<open>
  What the reader should return for the bytes of the pipe, without chunks and state: the bytes up to
  the next line feed or the end are a line, and a line is too large, badly encoded or a string.
\<close>

definition first_line :: "string \<Rightarrow> string" where
  "first_line s = takeWhile (\<lambda>c. c \<noteq> newline) s"

definition after_line :: "string \<Rightarrow> string" where
  "after_line s = drop (Suc (length (first_line s))) s"

definition line_result :: "nat \<Rightarrow> string \<Rightarrow> frame_error + string" where
  "line_result n l =
     (if length l > n then Inl TooLarge else if is_utf8 l then Inr l else Inl InvalidUtf8)"

lemma length_after_line: "s \<noteq> [] \<Longrightarrow> length (after_line s) < length s"
  by (simp add: after_line_def)

function frames :: "nat \<Rightarrow> string \<Rightarrow> (frame_error + string) list" where
  "frames n s = (if s = [] then [] else line_result n (first_line s) # frames n (after_line s))"
  by pat_completeness auto
termination
  by (relation "measure (length \<circ> snd)") (auto simp: length_after_line)

declare frames.simps [simp del]

definition result_of_line :: "frame_error + string \<Rightarrow> frame_error + string option" where
  "result_of_line l = map_sum (\<lambda>e. e) Some l"

definition next_frame :: "nat \<Rightarrow> string \<Rightarrow> (frame_error + string option) \<times> string" where
  "next_frame n s =
     (if s = [] then (Inr None, []) else (result_of_line (line_result n (first_line s)), after_line s))"

lemma first_line_append:
  "newline \<notin> set a \<Longrightarrow> first_line (a @ s) = a @ first_line s"
  "newline \<in> set a \<Longrightarrow> first_line (a @ s) = first_line a"
  by (induction a) (auto simp: first_line_def)

lemma after_line_append:
  "newline \<notin> set a \<Longrightarrow> after_line (a @ s) = after_line s"
  "newline \<in> set a \<Longrightarrow> after_line (a @ s) = after_line a @ s"
  using length_takeWhile_less [of "\<lambda>c. c \<noteq> newline" a]
  by (auto simp: after_line_def first_line_append) (auto simp: first_line_def)

lemma line_without_newline:
  assumes "newline \<notin> set a"
  shows "first_line a = a" "after_line a = []"
proof -
  show "first_line a = a" using first_line_append(1) [OF assms, of "[]"] by (simp add: first_line_def)
  then show "after_line a = []" by (simp add: after_line_def)
qed

lemma newline_position_Some:
  "newline_position s = Some n \<longleftrightarrow> newline \<in> set s \<and> n = length (first_line s)"
  using length_takeWhile_less [of "\<lambda>c. c \<noteq> newline" s]
  by (auto simp: newline_position_def first_line_def Let_def)

lemma take_first_line [simp]: "take (length (first_line s)) s = first_line s"
  by (simp add: first_line_def takeWhile_eq_take [symmetric])

text \<open>A pipe that delivers bytes and ends; the bytes still to come, and what is left of them.\<close>

definition clean_pipe :: "pipe \<Rightarrow> bool" where
  "clean_pipe src = list_all (\<lambda>x. case x of Inl e \<Rightarrow> False | Inr bs \<Rightarrow> bs \<noteq> []) src"

definition pipe_bytes :: "pipe \<Rightarrow> string" where
  "pipe_bytes src = concat (map (case_sum (\<lambda>e. []) (\<lambda>bs. bs)) src)"

definition left_over_bytes :: "line_reader \<Rightarrow> string" where
  "left_over_bytes r =
     (let rest = unread r @ pipe_bytes (source r)
      in if discarding r then after_line rest else buffer r @ rest)"

lemma fill_buf_clean:
  assumes "fill_buf r = (x, r')" "clean_pipe (source r)"
  obtains a where "x = Inr a" "unread r' = a" "clean_pipe (source r')"
    "a @ pipe_bytes (source r') = unread r @ pipe_bytes (source r)"
    "a = [] \<Longrightarrow> unread r @ pipe_bytes (source r) = []"
  using assms
  by (auto simp: fill_buf_def clean_pipe_def pipe_bytes_def split: if_splits list.splits sum.splits)

lemma consume_bytes:
  assumes "unread r = a" "n = Suc (length (first_line a))" "newline \<in> set a"
  shows "unread (consume n r) = after_line a"
  using assms by (simp add: consume_def after_line_def)

lemma round_goes_on:
  assumes ok: "reader_ok r" "clean_pipe (source r)" and "line_round r = Inr r'"
  shows "clean_pipe (source r') \<and> left_over_bytes r' = left_over_bytes r"
proof -
  obtain x r1 where fill: "fill_buf r = (x, r1)" by (cases "fill_buf r")
  obtain a where a: "x = Inr a" "unread r1 = a" "clean_pipe (source r1)"
    "unread r @ pipe_bytes (source r) = a @ pipe_bytes (source r1)"
    using fill_buf_clean [OF fill ok(2)] by metis
  note fields = fill_buf_fields [OF fill]
  show ?thesis
  proof (cases "discarding r")
    case True
    with ok(1) have "buffer r = []" by (simp add: reader_ok_def)
    with True assms(3) fill a fields show ?thesis
      by (auto simp: line_round_def left_over_bytes_def after_line_append newline_position_None
          newline_position_Some consume_bytes consume_def after_line_def [of a] split: if_splits option.splits)
  next
    case False
    with assms(3) fill a fields show ?thesis
      by (auto simp: line_round_def left_over_bytes_def consume_def split: if_splits option.splits)
  qed
qed

lemma round_returns:
  assumes ok: "reader_ok r" "clean_pipe (source r)" and ret: "line_round r = Inl (x, r')"
  shows "clean_pipe (source r') \<and> next_frame (max_len r) (left_over_bytes r) = (x, left_over_bytes r')"
proof -
  obtain y r1 where fill: "fill_buf r = (y, r1)" by (cases "fill_buf r")
  obtain a where a: "y = Inr a" "unread r1 = a" "clean_pipe (source r1)"
    "unread r @ pipe_bytes (source r) = a @ pipe_bytes (source r1)"
    "a = [] \<Longrightarrow> unread r @ pipe_bytes (source r) = []"
    using fill_buf_clean [OF fill ok(2)] by metis
  note fields = fill_buf_fields [OF fill]
  have nl: "newline \<notin> set (buffer r)" and disc: "discarding r \<Longrightarrow> buffer r = []"
    and len: "length (buffer r) \<le> max_len r"
    using ok(1) by (simp_all add: reader_ok_def)
  show ?thesis
  proof (cases "a = []")
    case True
    with a have "pipe_bytes (source r1) = []" "unread r @ pipe_bytes (source r) = []" by auto
    with True ret fill a fields nl disc len show ?thesis
      by (auto simp: line_round_def left_over_bytes_def next_frame_def line_without_newline
          line_result_def result_of_line_def from_utf8_def split: if_splits)
  next
    case False
    with ret fill a fields have nd: "\<not> discarding r"
      by (auto simp: line_round_def split: option.splits)
    define s where "s = a @ pipe_bytes (source r1)"
    have lo: "left_over_bytes r = buffer r @ s" using nd a(4) by (simp add: left_over_bytes_def s_def)
    have "buffer r @ s \<noteq> []" using False by (simp add: s_def)
    then have nf: "next_frame (max_len r) (left_over_bytes r) =
        (result_of_line (line_result (max_len r) (buffer r @ first_line s)), after_line s)"
      using nl by (auto simp: next_frame_def lo first_line_append after_line_append)
    show ?thesis
    proof (cases "newline \<in> set a")
      case True
      then have "newline_position a = Some (length (first_line a))" by (simp add: newline_position_Some)
      moreover have "first_line s = first_line a" "after_line s = after_line a @ pipe_bytes (source r1)"
        using True by (simp_all add: s_def first_line_append after_line_append)
      ultimately show ?thesis using ret fill a fields nd False nf
        by (auto simp: line_round_def left_over_bytes_def line_result_def result_of_line_def
            from_utf8_def consume_def after_line_def [of a] split: if_splits)
    next
      case no: False
      then have "newline_position a = None" by (simp add: newline_position_None)
      moreover have "first_line s = a @ first_line (pipe_bytes (source r1))"
        "after_line s = after_line (pipe_bytes (source r1))"
        using no by (simp_all add: s_def first_line_append after_line_append)
      ultimately show ?thesis using ret fill a fields nd False nf
        by (auto simp: line_round_def left_over_bytes_def line_result_def result_of_line_def
            consume_def split: if_splits)
    qed
  qed
qed

lemma next_line_refines:
  assumes "next_line r = (x, r')" "reader_ok r" "clean_pipe (source r)"
  shows "clean_pipe (source r') \<and> next_frame (max_len r) (left_over_bytes r) = (x, left_over_bytes r')"
  using assms(1)
proof (rule next_line_rounds [where P = "\<lambda>r1. reader_ok r1 \<and> clean_pipe (source r1) \<and>
    max_len r1 = max_len r \<and> left_over_bytes r1 = left_over_bytes r"])
  fix r1 r2
  assume *: "reader_ok r1 \<and> clean_pipe (source r1) \<and> max_len r1 = max_len r \<and>
      left_over_bytes r1 = left_over_bytes r" "line_round r1 = Inr r2"
  with line_round_ok [of r1 r2] round_goes_on [of r1 r2]
  show "reader_ok r2 \<and> clean_pipe (source r2) \<and> max_len r2 = max_len r \<and>
      left_over_bytes r2 = left_over_bytes r" by simp
next
  fix r1
  assume *: "reader_ok r1 \<and> clean_pipe (source r1) \<and> max_len r1 = max_len r \<and>
      left_over_bytes r1 = left_over_bytes r" "line_round r1 = Inl (x, r')"
  with round_returns [of r1 x r'] show ?thesis by simp
qed (use assms in simp)

section \<open>Reading to the end of the pipe\<close>

text \<open>Bytes on hand, in the pipe or in the buffer; a call that does not report the end uses some.\<close>

definition held_size :: "line_reader \<Rightarrow> nat" where
  "held_size r = unread_size r + length (buffer r)"

lemma fill_buf_error_size: "fill_buf r = (Inl e, r') \<Longrightarrow> unread_size r' < unread_size r"
  by (auto simp: fill_buf_def unread_size_def split: if_splits list.splits sum.splits)

lemma consume_size_exact:
  assumes "fill_buf r = (Inr a, r')" "n \<le> length a"
  shows "unread_size (consume n r') + n \<le> unread_size r"
  using fill_buf_size [OF assms(1)] fill_buf_unread [OF assms(1)] assms(2)
  by (auto simp: consume_def unread_size_def)

lemma round_held_size:
  "line_round r = Inr r' \<Longrightarrow> held_size r' \<le> held_size r"
  "line_round r = Inl (x, r') \<Longrightarrow> x \<noteq> Inr None \<Longrightarrow> held_size r' < held_size r"
proof -
  obtain y r1 where fill: "fill_buf r = (y, r1)" by (cases "fill_buf r")
  note fields = fill_buf_fields [OF fill] and size = fill_buf_size [OF fill]
  have consumed: "y = Inr a \<Longrightarrow> n \<le> length a \<Longrightarrow> unread_size (consume n r1) + n \<le> unread_size r" for a n
    using consume_size_exact fill by blast
  show "line_round r = Inr r' \<Longrightarrow> held_size r' \<le> held_size r"
    using fill fields consumed [OF _ Suc_leI [OF newline_position_less]] consumed [OF _ le_refl]
    by (fastforce simp: line_round_def held_size_def split: sum.splits if_splits option.splits)
  show "line_round r = Inl (x, r') \<Longrightarrow> x \<noteq> Inr None \<Longrightarrow> held_size r' < held_size r"
  proof (cases y)
    case (Inl e)
    assume "line_round r = Inl (x, r')" "x \<noteq> Inr None"
    with Inl fill fields fill_buf_error_size [of r e r1] show ?thesis
      by (auto simp: line_round_def held_size_def)
  next
    case (Inr a)
    assume ret: "line_round r = Inl (x, r')" "x \<noteq> Inr None"
    show ?thesis
    proof (cases "a = []")
      case True
      with ret Inr fill fields size show ?thesis
        by (auto simp: line_round_def held_size_def intro: le_less_trans [of _ "unread_size r"]
            split: if_splits)
    next
      case False
      have "newline_position a = Some n \<Longrightarrow> unread_size (consume (Suc n) r1) < unread_size r" for n
        using consumed [OF Inr Suc_leI [OF newline_position_less [of a n]]] by simp
      moreover have "unread_size (consume (length a) r1) < unread_size r"
        using consumed [OF Inr le_refl] False by (cases a) auto
      ultimately show ?thesis using False ret Inr fill fields
        by (auto simp: line_round_def held_size_def split: if_splits option.splits)
    qed
  qed
qed

lemma next_line_size:
  assumes "next_line r = (x, r')" "x \<noteq> Inr None"
  shows "held_size r' < held_size r"
  using assms(1)
proof (rule next_line_rounds [where P = "\<lambda>r1. held_size r1 \<le> held_size r"])
  show "held_size r2 \<le> held_size r" if "held_size r1 \<le> held_size r" "line_round r1 = Inr r2" for r1 r2
    using round_held_size(1) [OF that(2)] that(1) by simp
  show ?thesis if "held_size r1 \<le> held_size r" "line_round r1 = Inl (x, r')" for r1
    using round_held_size(2) [OF that(2) assms(2)] that(1) by simp
qed simp

text \<open>All results of \<^const>\<open>next_line\<close> up to the first that reports the end.\<close>

function read_lines :: "line_reader \<Rightarrow> (frame_error + string) list" where
  "read_lines r =
     (case next_line r of
        (Inl e, r') \<Rightarrow> Inl e # read_lines r'
      | (Inr (Some l), r') \<Rightarrow> Inr l # read_lines r'
      | (Inr None, r') \<Rightarrow> [])"
  by pat_completeness auto
termination
  by (relation "measure held_size") (auto intro: next_line_size [OF sym])

declare read_lines.simps [simp del]

lemma read_lines_frames:
  "reader_ok r \<Longrightarrow> clean_pipe (source r) \<Longrightarrow> read_lines r = frames (max_len r) (left_over_bytes r)"
proof (induction r rule: read_lines.induct)
  case (1 r)
  obtain x r' where next_line: "next_line r = (x, r')" by (cases "next_line r")
  note keeps = next_line_ok [OF next_line 1(3)] and refines = next_line_refines [OF next_line 1(3,4)]
  show ?case
  proof (cases "left_over_bytes r = []")
    case True
    with next_line refines show ?thesis
      by (auto simp: read_lines.simps [of r] next_frame_def frames.simps)
  next
    case False
    define l where "l = line_result (max_len r) (first_line (left_over_bytes r))"
    have x: "x = result_of_line l" and rest: "left_over_bytes r' = after_line (left_over_bytes r)"
      using refines False by (simp_all add: next_frame_def l_def)
    have "read_lines r = l # read_lines r'"
      using next_line x by (cases l) (auto simp: read_lines.simps [of r] result_of_line_def)
    moreover have "read_lines r' = frames (max_len r) (after_line (left_over_bytes r))"
      using 1(1) [of x r'] 1(2) [of x r'] next_line x keeps refines rest
      by (cases l) (auto simp: result_of_line_def)
    ultimately show ?thesis using False by (subst frames.simps) (simp add: l_def)
  qed
qed

lemma left_over_new [simp]: "left_over_bytes (line_reader_new src n) = pipe_bytes src"
  by (simp add: left_over_bytes_def line_reader_new_def)

lemma line_reader_new_simps [simp]:
  "source (line_reader_new src n) = src" "max_len (line_reader_new src n) = n"
  by (simp_all add: line_reader_new_def)

section \<open>Sources of lines\<close>

text \<open>
  What a client of a reader relies on: the results of its calls depend on the bytes left over only.
\<close>

primrec calls :: "nat \<Rightarrow> ('r \<Rightarrow> 'a \<times> 'r) \<Rightarrow> 'r \<Rightarrow> 'a list" where
  "calls 0 f r = []"
| "calls (Suc k) f r = fst (f r) # calls k f (snd (f r))"

locale line_source =
  fixes next_result :: "'r \<Rightarrow> (frame_error + string option) \<times> 'r"
    and bytes_left :: "'r \<Rightarrow> string"
    and good :: "'r \<Rightarrow> bool"
    and limit :: nat
  assumes good_next: "good r \<Longrightarrow> good (snd (next_result r))"
    and next_result_frame: "good r \<Longrightarrow> fst (next_result r) = fst (next_frame limit (bytes_left r))"
    and next_bytes_left: "good r \<Longrightarrow> bytes_left (snd (next_result r)) = snd (next_frame limit (bytes_left r))"
begin

lemma calls_frames: "good r \<Longrightarrow> calls k next_result r = calls k (next_frame limit) (bytes_left r)"
  by (induction k arbitrary: r) (simp_all add: good_next next_result_frame next_bytes_left)

lemma calls_same_bytes:
  "good r \<Longrightarrow> good q \<Longrightarrow> bytes_left r = bytes_left q \<Longrightarrow> calls k next_result r = calls k next_result q"
  by (simp add: calls_frames)

end

interpretation lines: line_source next_line left_over_bytes
  "\<lambda>r. reader_ok r \<and> clean_pipe (source r) \<and> max_len r = n" n for n
proof unfold_locales
  fix r assume good: "reader_ok r \<and> clean_pipe (source r) \<and> max_len r = n"
  obtain x r' where r': "next_line r = (x, r')" by (cases "next_line r")
  note facts = next_line_ok [OF r'] next_line_refines [OF r']
  show "reader_ok (snd (next_line r)) \<and> clean_pipe (source (snd (next_line r))) \<and> max_len (snd (next_line r)) = n"
    using facts good r' by simp
  show "fst (next_line r) = fst (next_frame n (left_over_bytes r))" using facts good r' by simp
  show "left_over_bytes (snd (next_line r)) = snd (next_frame n (left_over_bytes r))" using facts good r' by simp
qed

section \<open>Writing lines\<close>

definition MAX_FRAME_BYTES :: nat where "MAX_FRAME_BYTES = 4 * 1024 * 1024"

datatype encode_error = SerializeFailed | FrameTooLarge

definition encode_message :: "('v \<Rightarrow> string option) \<Rightarrow> 'v \<Rightarrow> encode_error + string" where
  "encode_message to_vec v =
     (case to_vec v of
        None \<Rightarrow> Inl SerializeFailed
      | Some bytes \<Rightarrow>
          if length bytes > MAX_FRAME_BYTES then Inl FrameTooLarge else Inr (bytes @ [newline]))"

text \<open>
  What the link relies on of the serializer: compact JSON in UTF-8, in which a line feed inside a
  string is written as an escape.
\<close>

definition one_line_utf8 :: "('v \<Rightarrow> string option) \<Rightarrow> bool" where
  "one_line_utf8 to_vec = (\<forall>v bytes. to_vec v = Some bytes \<longrightarrow> newline \<notin> set bytes \<and> is_utf8 bytes)"

lemma frames_encoded:
  assumes "one_line_utf8 to_vec" "list_all2 (\<lambda>v b. encode_message to_vec v = Inr b) vs bs"
  shows "frames MAX_FRAME_BYTES (concat bs) = map (\<lambda>v. Inr (the (to_vec v))) vs"
  using assms(2)
proof (induction rule: list_all2_induct)
  case Nil
  then show ?case by (simp add: frames.simps)
next
  case (Cons v vs b bs)
  then obtain t where t: "to_vec v = Some t" "length t \<le> MAX_FRAME_BYTES" "b = t @ [newline]"
    by (auto simp: encode_message_def split: option.splits if_splits)
  with assms(1) have "newline \<notin> set t" "is_utf8 t" by (auto simp: one_line_utf8_def)
  then have "first_line (concat (b # bs)) = t" "after_line (concat (b # bs)) = concat bs"
    using t by (simp_all add: first_line_append after_line_append) (simp_all add: first_line_def after_line_def)
  moreover have "concat (b # bs) \<noteq> []" using t by simp
  ultimately show ?case using Cons.IH t \<open>is_utf8 t\<close>
    by (subst frames.simps) (simp add: line_result_def)
qed

end
