(* ===== verification/LinkClient.thy ===== *)
theory LinkClient
  imports LinkNotification LinkWaiters LinkFraming
begin

text \<open>
  The client of the service (\<^verbatim>\<open>crates/app/src/service_client.rs\<close>): requests, the task that reads the
  pipe, the heartbeat, and the handling of a crash with the respawn of the service. The tasks
  interleave at every point where the code awaits or lets go of a lock. The model starts when the
  first boot has succeeded. The child process, the clock and the pipe are the environment: exit
  codes, time-outs and the lines that arrive are arguments of the steps. The counters of the code
  are 32 bits wide; they are natural numbers here, which is the same up to \<open>2 ^ 32\<close> crashes.
\<close>

section \<open>Constants and small functions\<close>

definition BACKOFF_INITIAL_SECS :: nat where "BACKOFF_INITIAL_SECS = 1"
definition BACKOFF_MAX_SECS :: nat where "BACKOFF_MAX_SECS = 30"
definition CRASHLOOP_THRESHOLD :: nat where "CRASHLOOP_THRESHOLD = 3"
definition HEARTBEAT_MAX_CONSECUTIVE_MISSES :: nat where "HEARTBEAT_MAX_CONSECUTIVE_MISSES = 3"
definition MAX_CONSECUTIVE_PARSE_ERRORS :: nat where "MAX_CONSECUTIVE_PARSE_ERRORS = 10"
definition NOTIFICATION_QUEUE_CAP :: nat where "NOTIFICATION_QUEUE_CAP = 1024"
definition PROTOCOL_VERSION :: u32 where "PROTOCOL_VERSION = 1"

definition record_consecutive_crash_and_check :: "nat \<Rightarrow> nat \<times> bool" where
  "record_consecutive_crash_and_check counter =
     (counter + 1, CRASHLOOP_THRESHOLD \<le> counter + 1)"

text \<open>The delay to sleep, and the stored value for the next crash.\<close>

definition advance_respawn_backoff :: "nat \<Rightarrow> nat \<times> nat" where
  "advance_respawn_backoff current =
     (let secs = max current BACKOFF_INITIAL_SECS
      in (secs, min (min (secs * 2) (2 ^ 32 - 1)) BACKOFF_MAX_SECS))"

definition reader_should_enqueue :: "nat \<Rightarrow> nat option \<Rightarrow> bool" where
  "reader_should_enqueue captured live = (live = Some captured)"

definition tag_notification_with_generation :: "notification \<Rightarrow> nat \<Rightarrow> notification" where
  "tag_notification_with_generation n g = set_service_generation (of_nat g) n"

definition notification_generation_should_dispatch :: "u32 option \<Rightarrow> u32 \<Rightarrow> bool" where
  "notification_generation_should_dispatch tag current =
     (case tag of Some tagged \<Rightarrow> tagged = current | None \<Rightarrow> True)"

definition notification_should_dispatch :: "notification \<Rightarrow> nat \<Rightarrow> bool" where
  "notification_should_dispatch n current =
     notification_generation_should_dispatch (notification_generation n) (of_nat current)"

datatype client_error =
    IoError | ServiceReported service_error | Timeout | ServiceCrashed | NotConnected
  | VersionMismatch u32 u32 | BootFailed boot_classification | SchemaVersionChanged u32 u32
  | SchemaBaselineMissing | Deserialize

definition client_error_from_rpc :: "serde \<Rightarrow> rpc_error \<Rightarrow> client_error" where
  "client_error_from_rpc S e =
     (case try_into_service_error (error_from_value S) e of
        Inr se \<Rightarrow> ServiceReported se
      | Inl remaining \<Rightarrow> ServiceReported (Internal (re_message remaining)))"

section \<open>State\<close>

text \<open>
  A request is registered in \<^verbatim>\<open>pending\<close>, handed to the writer of a generation, and resolved. It is
  known by its position; \<^verbatim>\<open>next_id\<close> counts from one, so its identifier on the wire is one more.
  \<^verbatim>\<open>answers\<close> holds what was sent on its one-shot channel.
\<close>

type_synonym answer = "client_error + json"

datatype request = Registered | Sent nat | Resolved answer

text \<open>Where a call of \<^verbatim>\<open>handle_crash\<close> stands, with the generation or the exit code it holds.\<close>

datatype handler =
    Checking nat | Picking nat | Took nat | Bumped nat | Reaping nat | Sleeping "int option"
  | Launching | Launched nat | Installed nat | Pinging nat nat | Announced nat | Booting nat nat
  | Finished

datatype service_health = Healthy | Respawning nat nat | PersistentlyFailing

datatype spawn_event =
  ChildSpawned | BootReady u32 | Terminal client_error | HealthChanged service_health

text \<open>The reader of a generation: its parse errors in a row, and the call of \<^verbatim>\<open>enqueue\<close> it is in.\<close>

record reader =
  consecutive_parse_errors :: nat
  enqueuing :: "nat option"

record client =
  running :: "nat option"
  current_generation :: nat
  is_shutting_down :: bool
  first_boot_ready :: "u32 option"
  consecutive_crashes :: nat
  current_backoff_secs :: nat
  pending :: "nat list"
  answers :: "nat \<Rightarrow> answer option"
  requests :: "request list"
  pending_syncs :: "(uuid, sync_result) waiters"
  pending_calendars :: "(uuid, sync_result) waiters"
  pending_calendar_actions :: "(uuid, calendar_action_completed) waiters"
  children :: "nat list"
  readers :: "nat \<Rightarrow> reader option"
  heartbeats :: "nat \<Rightarrow> nat option"
  handlers :: "handler list"
  events :: "spawn_event list"
  notifications :: "notification link"
  dispatched :: "(nat \<times> notification) list"
  enqueued :: "(nat \<times> notification) list"
  launches :: nat
  boots :: nat

definition client_start :: "u32 \<Rightarrow> client" where
  "client_start schema =
     \<lparr>running = Some 1, current_generation = 1, is_shutting_down = False,
      first_boot_ready = Some schema, consecutive_crashes = 0,
      current_backoff_secs = BACKOFF_INITIAL_SECS, pending = [], answers = (\<lambda>i. None), requests = [],
      pending_syncs = waiters_new, pending_calendars = waiters_new,
      pending_calendar_actions = waiters_new, children = [1],
      readers = (\<lambda>g. if g = 1 then Some \<lparr>consecutive_parse_errors = 0, enqueuing = None\<rparr> else None),
      heartbeats = (\<lambda>g. if g = 1 then Some 0 else None), handlers = [], events = [],
      notifications = link_new NOTIFICATION_QUEUE_CAP, dispatched = [], enqueued = [],
      launches = 0, boots = 0\<rparr>"

section \<open>Requests\<close>

definition register_request :: "client \<Rightarrow> client" where
  "register_request s =
     s\<lparr>requests := requests s @ [Registered], pending := length (requests s) # pending s\<rparr>"

definition resolve_request :: "nat \<Rightarrow> answer \<Rightarrow> client \<Rightarrow> client" where
  "resolve_request i r s = s\<lparr>requests := (requests s)[i := Resolved r]\<rparr>"

text \<open>The guard of a request removes its entry when the call ends before the answer.\<close>

definition drop_guard :: "nat \<Rightarrow> client \<Rightarrow> client" where
  "drop_guard i s = s\<lparr>pending := filter (\<lambda>j. j \<noteq> i) (pending s)\<rparr>"

definition request_send :: "nat \<Rightarrow> bool \<Rightarrow> client \<Rightarrow> client option" where
  "request_send i sent s =
     (if get (requests s) i \<noteq> Some Registered then None
      else case running s of
        None \<Rightarrow> Some (resolve_request i (Inl NotConnected) (drop_guard i s))
      | Some g \<Rightarrow>
          if sent then Some (s\<lparr>requests := (requests s)[i := Sent g]\<rparr>)
          else Some (resolve_request i (Inl ServiceCrashed) (drop_guard i s)))"

definition request_answered :: "nat \<Rightarrow> client \<Rightarrow> client option" where
  "request_answered i s =
     (case (get (requests s) i, answers s i) of
        (Some (Sent g), Some r) \<Rightarrow> Some (resolve_request i r s)
      | _ \<Rightarrow> None)"

definition request_timeout :: "nat \<Rightarrow> client \<Rightarrow> client option" where
  "request_timeout i s =
     (case get (requests s) i of
        Some (Sent g) \<Rightarrow> Some (resolve_request i (Inl Timeout) (drop_guard i s))
      | _ \<Rightarrow> None)"

definition dispatch_response :: "serde \<Rightarrow> nat \<Rightarrow> service_response \<Rightarrow> client \<Rightarrow> client" where
  "dispatch_response S i response s =
     (if i \<in> set (pending s) then
        (drop_guard i s)\<lparr>answers := (answers s)(i :=
           Some (case response of
             ResponseSuccess v \<Rightarrow> Inr v
           | ResponseError e \<Rightarrow> Inl (client_error_from_rpc S e)))\<rparr>
      else s)"

definition fail_pending :: "client \<Rightarrow> client" where
  "fail_pending s =
     s\<lparr>pending := [],
       answers := (\<lambda>i. if i \<in> set (pending s) then Some (Inl ServiceCrashed) else answers s i)\<rparr>"

definition fail_waiters :: "client \<Rightarrow> client" where
  "fail_waiters s =
     s\<lparr>pending_syncs := fail_pending_waiters (pending_syncs s),
       pending_calendars := fail_pending_waiters (pending_calendars s),
       pending_calendar_actions := fail_pending_waiters (pending_calendar_actions s)\<rparr>"

definition trigger_crash_handler :: "nat \<Rightarrow> client \<Rightarrow> client" where
  "trigger_crash_handler g s = s\<lparr>handlers := handlers s @ [Checking g]\<rparr>"

section \<open>The reader and the heartbeat\<close>

text \<open>The end of a reader: everybody who waits for an answer is told, and a crash handler starts.\<close>

definition stop_reader :: "nat \<Rightarrow> client \<Rightarrow> client" where
  "stop_reader g s =
     (let s1 = trigger_crash_handler g (fail_waiters (fail_pending s))
      in s1\<lparr>readers := (readers s1)(g := None)\<rparr>)"

definition set_reader :: "nat \<Rightarrow> reader \<Rightarrow> client \<Rightarrow> client" where
  "set_reader g r s = s\<lparr>readers := (readers s)(g := Some r)\<rparr>"

text \<open>
  \<^verbatim>\<open>notifications.enqueue(tagged).await\<close>: a notification that must be delivered can make the reader
  wait, so it notes the call it is in.
\<close>

definition enqueue_notification :: "nat \<Rightarrow> notification \<Rightarrow> client \<Rightarrow> client" where
  "enqueue_notification g n s =
     (let tagged = tag_notification_with_generation n g;
          call = (if classify_notification tagged = MustDeliver then Some (length (producers (notifications s))) else None)
      in s\<lparr>notifications := enqueue classify_notification tagged (notifications s),
           enqueued := enqueued s @ [(g, n)],
           readers := (readers s)(g := Some \<lparr>consecutive_parse_errors = 0, enqueuing = call\<rparr>)\<rparr>)"

definition handle_notification :: "nat \<Rightarrow> nat \<Rightarrow> notification \<Rightarrow> client \<Rightarrow> client" where
  "handle_notification now g n s =
     (if \<not> reader_should_enqueue g (Some (current_generation s)) then s
      else case n of
        SyncCompleted c \<Rightarrow>
          s\<lparr>pending_syncs := route_completed now (sc_run_id c) (sc_result c) (pending_syncs s)\<rparr>
      | CalendarRunCompleted c \<Rightarrow>
          s\<lparr>pending_calendars := route_completed now (cr_run_id c) (cr_result c) (pending_calendars s)\<rparr>
      | CalendarActionCompleted c \<Rightarrow>
          s\<lparr>pending_calendar_actions :=
              route_completed now (ca_plan_id c) c (pending_calendar_actions s)\<rparr>
      | _ \<Rightarrow> enqueue_notification g n s)"

text \<open>One round of \<^verbatim>\<open>reader_task\<close> on what \<^const>\<open>next_line\<close> returned.\<close>

definition reader_round ::
  "serde \<Rightarrow> nat \<Rightarrow> nat \<Rightarrow> frame_error + string option \<Rightarrow> reader \<Rightarrow> client \<Rightarrow> client" where
  "reader_round S now g line r s =
     (case line of
        Inr (Some text1) \<Rightarrow>
          (case parse_service_message S text1 of
             Inr parsed \<Rightarrow>
               (let s1 = set_reader g (r\<lparr>consecutive_parse_errors := 0\<rparr>) s
                in case parsed of
                     Response (Some i) response \<Rightarrow>
                       if i = 0 then s1 else dispatch_response S (unat i - 1) response s1
                   | Response None response \<Rightarrow> s1
                   | ServiceNotification n \<Rightarrow> handle_notification now g n s1)
           | Inl e \<Rightarrow>
               (let errors = consecutive_parse_errors r + 1
                in if MAX_CONSECUTIVE_PARSE_ERRORS \<le> errors then stop_reader g s
                   else set_reader g (r\<lparr>consecutive_parse_errors := errors\<rparr>) s))
      | _ \<Rightarrow> stop_reader g s)"

text \<open>The reader goes on when the call of \<^verbatim>\<open>enqueue\<close> it made has returned.\<close>

definition read_line ::
  "serde \<Rightarrow> nat \<Rightarrow> nat \<Rightarrow> frame_error + string option \<Rightarrow> client \<Rightarrow> client option" where
  "read_line S now g line s =
     (case readers s g of
        None \<Rightarrow> None
      | Some r \<Rightarrow>
          (case enqueuing r of
             Some p \<Rightarrow>
               if get (producers (notifications s)) p = Some Done
               then Some (reader_round S now g line (r\<lparr>enqueuing := None\<rparr>) s) else None
           | None \<Rightarrow> Some (reader_round S now g line r s)))"

text \<open>One round of \<^verbatim>\<open>heartbeat_task\<close>, by what the ping gave.\<close>

datatype ping_result = Pong | BadPong | PingTimeout | PingFailed

definition heartbeat_round :: "nat \<Rightarrow> ping_result \<Rightarrow> client \<Rightarrow> client option" where
  "heartbeat_round g ping s =
     (case heartbeats s g of
        None \<Rightarrow> None
      | Some misses \<Rightarrow>
          Some (case ping of
             Pong \<Rightarrow> s\<lparr>heartbeats := (heartbeats s)(g := Some 0)\<rparr>
           | PingTimeout \<Rightarrow>
               if HEARTBEAT_MAX_CONSECUTIVE_MISSES \<le> misses + 1
               then trigger_crash_handler g (s\<lparr>heartbeats := (heartbeats s)(g := None)\<rparr>)
               else s\<lparr>heartbeats := (heartbeats s)(g := Some (misses + 1))\<rparr>
           | _ \<Rightarrow> trigger_crash_handler g (s\<lparr>heartbeats := (heartbeats s)(g := None)\<rparr>)))"

text \<open>
  The handler of the user interface (\<^verbatim>\<open>update.rs\<close>) takes the next notification the queue delivered
  and drops it when it is of another generation.
\<close>

definition dispatch_notification :: "notification \<Rightarrow> client \<Rightarrow> client" where
  "dispatch_notification n s =
     (if notification_should_dispatch n (current_generation s)
      then s\<lparr>dispatched := dispatched s @ [(current_generation s, n)]\<rparr> else s)"

end
