(* ===== verification/LinkRespawn.thy ===== *)
theory LinkRespawn
  imports LinkClient
begin

text \<open>
  The crash handler of the client (\<^verbatim>\<open>handle_crash\<close>, \<^verbatim>\<open>respawn\<close>, \<^verbatim>\<open>handshake_post_install\<close> and
  \<^verbatim>\<open>tear_down_installed_state\<close> of \<^verbatim>\<open>crates/app/src/service_client.rs\<close>), cut at its awaits and locks,
  and the step relation of the whole client. The lemmas give what every interleaving keeps: one
  service process at most, a bound on the launches without a successful boot, an answer for every
  request of a generation whose crash was handled, and the origin of every dispatched notification.
\<close>

section \<open>The crash handler\<close>

definition set_handler :: "nat \<Rightarrow> handler \<Rightarrow> client \<Rightarrow> client" where
  "set_handler j h s = s\<lparr>handlers := (handlers s)[j := h]\<rparr>"

definition emit :: "spawn_event list \<Rightarrow> client \<Rightarrow> client" where
  "emit es s = s\<lparr>events := events s @ es\<rparr>"

text \<open>
  Aborting the tasks of a generation and killing its process; a reader that was inside a call of
  \<^verbatim>\<open>enqueue\<close> gives it up.
\<close>

definition cancel_enqueue :: "reader option \<Rightarrow> notification link \<Rightarrow> notification link" where
  "cancel_enqueue r l =
     (case r of
        Some rd \<Rightarrow>
          (case enqueuing rd of
             Some p \<Rightarrow> l\<lparr>producers := (producers l)[p := Done]\<rparr>
           | None \<Rightarrow> l)
      | None \<Rightarrow> l)"

definition abort_tasks :: "nat \<Rightarrow> client \<Rightarrow> client" where
  "abort_tasks g s =
     s\<lparr>readers := (readers s)(g := None), heartbeats := (heartbeats s)(g := None),
       notifications := cancel_enqueue (readers s g) (notifications s)\<rparr>"

definition kill_child :: "nat \<Rightarrow> client \<Rightarrow> client" where
  "kill_child g s = s\<lparr>children := filter (\<lambda>c. c \<noteq> g) (children s)\<rparr>"

definition terminal :: "nat \<Rightarrow> client_error \<Rightarrow> client \<Rightarrow> client" where
  "terminal j e s = set_handler j Finished (emit [Terminal e] s)"

text \<open>Up to the backoff: the checks, the state of the dying generation, its requests and its process.\<close>

definition crash_check :: "nat \<Rightarrow> nat \<Rightarrow> client \<Rightarrow> client" where
  "crash_check j g s =
     (if is_shutting_down s \<or> first_boot_ready s = None then set_handler j Finished s
      else set_handler j (Picking g) s)"

definition crash_take :: "nat \<Rightarrow> nat \<Rightarrow> client \<Rightarrow> client" where
  "crash_take j g s =
     (if running s = Some g then set_handler j (Took g) (s\<lparr>running := None\<rparr>)
      else set_handler j Finished s)"

definition crash_bump :: "nat \<Rightarrow> nat \<Rightarrow> client \<Rightarrow> client" where
  "crash_bump j g s =
     set_handler j (Bumped g) (s\<lparr>current_generation := current_generation s + 1\<rparr>)"

definition crash_fail :: "nat \<Rightarrow> nat \<Rightarrow> client \<Rightarrow> client" where
  "crash_fail j g s = set_handler j (Reaping g) (fail_waiters (fail_pending s))"

definition crash_reap :: "nat \<Rightarrow> nat \<Rightarrow> int option \<Rightarrow> client \<Rightarrow> client" where
  "crash_reap j g code s =
     (let s1 = abort_tasks g (kill_child g s)
      in if is_shutting_down s1 then set_handler j Finished s1
         else (let (secs, next) = advance_respawn_backoff (current_backoff_secs s1)
               in set_handler j (Sleeping code)
                    (emit [HealthChanged (Respawning (consecutive_crashes s1 + 1) secs)]
                       (s1\<lparr>current_backoff_secs := next\<rparr>))))"

text \<open>After the backoff: the exit codes that end it, the crash loop guard, or a launch.\<close>

definition crash_decide :: "nat \<Rightarrow> int option \<Rightarrow> client \<Rightarrow> client" where
  "crash_decide j code s =
     (if is_shutting_down s then set_handler j Finished s
      else if code = Some 0 then terminal j (BootFailed (UnexpectedExit (Some 0))) s
      else case Option.bind code boot_exit_code_from_i32 of
        Some c \<Rightarrow> terminal j (BootFailed (BootFailure c)) s
      | None \<Rightarrow>
          (let (n, tripped) = record_consecutive_crash_and_check (consecutive_crashes s);
               s1 = s\<lparr>consecutive_crashes := n\<rparr>
           in if tripped
              then terminal j (BootFailed (from_exit_code code))
                     (emit [HealthChanged PersistentlyFailing] s1)
              else set_handler j Launching s1))"

text \<open>\<^verbatim>\<open>respawn\<close>: the launch, which can fail, and the installation of the new state.\<close>

definition respawn_launch :: "nat \<Rightarrow> bool \<Rightarrow> client \<Rightarrow> client" where
  "respawn_launch j launched s =
     (if is_shutting_down s then set_handler j Finished s
      else if \<not> launched then terminal j IoError s
      else (let g = current_generation s
            in set_handler j (Launched g)
                 (s\<lparr>children := g # children s,
                    readers := (readers s)(g := Some \<lparr>consecutive_parse_errors = 0, enqueuing = None\<rparr>),
                    heartbeats := (heartbeats s)(g := Some 0), launches := launches s + 1\<rparr>)))"

definition respawn_install :: "nat \<Rightarrow> nat \<Rightarrow> client \<Rightarrow> client" where
  "respawn_install j g s =
     (if is_shutting_down s then set_handler j Finished (kill_child g (abort_tasks g s))
      else set_handler j (Installed g) (s\<lparr>running := Some g, current_generation := g\<rparr>))"

text \<open>
  A handshake that failed: a crash is handed to a new crash handler, for the generation that is
  current now; everything else tears the installed state down and ends.
\<close>

definition tear_down_installed_state :: "client \<Rightarrow> client" where
  "tear_down_installed_state s =
     (case running s of
        Some g \<Rightarrow> kill_child g (abort_tasks g (s\<lparr>running := None\<rparr>))
      | None \<Rightarrow> s)"

definition respawn_failed :: "nat \<Rightarrow> client_error \<Rightarrow> client \<Rightarrow> client" where
  "respawn_failed j e s =
     (if e = ServiceCrashed
      then set_handler j Finished (trigger_crash_handler (current_generation s) s)
      else terminal j e (tear_down_installed_state s))"

text \<open>\<^verbatim>\<open>handshake_post_install\<close>: the two requests, each registered and then awaited.\<close>

definition handshake_ping :: "nat \<Rightarrow> nat \<Rightarrow> client \<Rightarrow> client" where
  "handshake_ping j g s = set_handler j (Pinging g (length (requests s))) (register_request s)"

definition handshake_pong :: "serde \<Rightarrow> nat \<Rightarrow> nat \<Rightarrow> answer \<Rightarrow> client \<Rightarrow> client" where
  "handshake_pong S j g r s =
     (case r of
        Inl e \<Rightarrow> respawn_failed j e s
      | Inr v \<Rightarrow>
          (case ping_version S v of
             None \<Rightarrow> respawn_failed j Deserialize s
           | Some version \<Rightarrow>
               if version \<noteq> PROTOCOL_VERSION
               then respawn_failed j (VersionMismatch PROTOCOL_VERSION version) s
               else set_handler j (Announced g) (emit [ChildSpawned] s)))"

definition handshake_boot :: "nat \<Rightarrow> nat \<Rightarrow> client \<Rightarrow> client" where
  "handshake_boot j g s = set_handler j (Booting g (length (requests s))) (register_request s)"

definition handshake_ready :: "serde \<Rightarrow> nat \<Rightarrow> answer \<Rightarrow> client \<Rightarrow> client" where
  "handshake_ready S j r s =
     (case r of
        Inl e \<Rightarrow> respawn_failed j e s
      | Inr v \<Rightarrow>
          (case schema_version S v of
             None \<Rightarrow> respawn_failed j Deserialize s
           | Some now \<Rightarrow>
               (case first_boot_ready s of
                  None \<Rightarrow> respawn_failed j SchemaBaselineMissing s
                | Some was \<Rightarrow>
                    if was \<noteq> now then respawn_failed j (SchemaVersionChanged was now) s
                    else set_handler j Finished
                      (emit ((if 0 < consecutive_crashes s then [HealthChanged Healthy] else []) @
                             [BootReady now])
                        (s\<lparr>consecutive_crashes := 0, current_backoff_secs := BACKOFF_INITIAL_SECS,
                           boots := boots s + 1\<rparr>)))))"

text \<open>
  \<^verbatim>\<open>observe_child_exit\<close> looks at the process of whatever state is installed; with none installed it
  counts as exited. When it wins, the request is dropped.
\<close>

definition child_exit_observed :: "client \<Rightarrow> bool" where
  "child_exit_observed s = (case running s of Some g \<Rightarrow> g \<notin> set (children s) | None \<Rightarrow> True)"

definition abandon_request :: "nat \<Rightarrow> client \<Rightarrow> client" where
  "abandon_request i s = resolve_request i (Inl ServiceCrashed) (drop_guard i s)"

inductive handler_step :: "serde \<Rightarrow> client \<Rightarrow> client \<Rightarrow> bool" for S :: serde where
  check: "get (handlers s) j = Some (Checking g) \<Longrightarrow> handler_step S s (crash_check j g s)"
| take_state: "get (handlers s) j = Some (Picking g) \<Longrightarrow> handler_step S s (crash_take j g s)"
| bump: "get (handlers s) j = Some (Took g) \<Longrightarrow> handler_step S s (crash_bump j g s)"
| fail: "get (handlers s) j = Some (Bumped g) \<Longrightarrow> handler_step S s (crash_fail j g s)"
| reap: "get (handlers s) j = Some (Reaping g) \<Longrightarrow> handler_step S s (crash_reap j g code s)"
| decide: "get (handlers s) j = Some (Sleeping code) \<Longrightarrow> handler_step S s (crash_decide j code s)"
| launch: "get (handlers s) j = Some Launching \<Longrightarrow> handler_step S s (respawn_launch j b s)"
| install: "get (handlers s) j = Some (Launched g) \<Longrightarrow> handler_step S s (respawn_install j g s)"
| ping: "get (handlers s) j = Some (Installed g) \<Longrightarrow> handler_step S s (handshake_ping j g s)"
| pong: "get (handlers s) j = Some (Pinging g i) \<Longrightarrow> get (requests s) i = Some (Resolved r) \<Longrightarrow>
    handler_step S s (handshake_pong S j g r s)"
| boot: "get (handlers s) j = Some (Announced g) \<Longrightarrow> handler_step S s (handshake_boot j g s)"
| ready: "get (handlers s) j = Some (Booting g i) \<Longrightarrow> get (requests s) i = Some (Resolved r) \<Longrightarrow>
    handler_step S s (handshake_ready S j r s)"
| exited: "get (handlers s) j = Some (Booting g i) \<Longrightarrow> child_exit_observed s \<Longrightarrow>
    handler_step S s (respawn_failed j ServiceCrashed (abandon_request i s))"

section \<open>The client\<close>

text \<open>
  The other steps: requests, the reader, the heartbeat, the queue, the user interface, waiters, the
  death of a process and the start of a shutdown. A send fails only when the process is gone, since
  the writer then ends. Handlers never reach a request of another task.
\<close>

inductive client_step :: "serde \<Rightarrow> client \<Rightarrow> client \<Rightarrow> bool" for S :: serde where
  handler: "handler_step S s t \<Longrightarrow> client_step S s t"
| request: "client_step S s (register_request s)"
| send: "request_send i sent s = Some t \<Longrightarrow> sent \<or> (\<exists>g. running s = Some g \<and> g \<notin> set (children s)) \<Longrightarrow>
    client_step S s t"
| answered: "request_answered i s = Some t \<Longrightarrow> client_step S s t"
| timeout: "request_timeout i s = Some t \<Longrightarrow> client_step S s t"
| read: "read_line S now g line s = Some t \<Longrightarrow> client_step S s t"
| beat: "heartbeat_round g p s = Some t \<Longrightarrow> client_step S s t"
| queue_work: "work_step (notifications s) l \<Longrightarrow> client_step S s (s\<lparr>notifications := l\<rparr>)"
| dispatch: "n \<in> set (delivered (notifications s)) \<Longrightarrow> client_step S s (dispatch_notification n s)"
| wait_sync: "client_step S s (s\<lparr>pending_syncs := subscribe_or_consume now w k (pending_syncs s)\<rparr>)"
| wait_calendar:
    "client_step S s (s\<lparr>pending_calendars := subscribe_or_consume now w k (pending_calendars s)\<rparr>)"
| wait_action:
    "client_step S s (s\<lparr>pending_calendar_actions :=
       subscribe_or_consume now w k (pending_calendar_actions s)\<rparr>)"
| die: "client_step S s (kill_child g s)"
| shutdown: "client_step S s (s\<lparr>is_shutting_down := True\<rparr>)"

inductive reachable_client :: "serde \<Rightarrow> u32 \<Rightarrow> client \<Rightarrow> bool" for S :: serde and v :: u32 where
  start: "reachable_client S v (client_start v)"
| later: "reachable_client S v s \<Longrightarrow> client_step S s t \<Longrightarrow> reachable_client S v t"

section \<open>Runs\<close>

text \<open>
  The same steps as functions, so that a run is a list of actions: which task moves, and what the
  environment gives it. A handler is named by its position, with the exit code it reaps, whether a
  launch succeeds, and whether it looks at the process or at its request.
\<close>

definition handler_act :: "serde \<Rightarrow> nat \<Rightarrow> int option \<Rightarrow> bool \<Rightarrow> client \<Rightarrow> client option" where
  "handler_act S j code b s =
     (case get (handlers s) j of
        Some (Checking g) \<Rightarrow> Some (crash_check j g s)
      | Some (Picking g) \<Rightarrow> Some (crash_take j g s)
      | Some (Took g) \<Rightarrow> Some (crash_bump j g s)
      | Some (Bumped g) \<Rightarrow> Some (crash_fail j g s)
      | Some (Reaping g) \<Rightarrow> Some (crash_reap j g code s)
      | Some (Sleeping c) \<Rightarrow> Some (crash_decide j c s)
      | Some Launching \<Rightarrow> Some (respawn_launch j b s)
      | Some (Launched g) \<Rightarrow> Some (respawn_install j g s)
      | Some (Installed g) \<Rightarrow> Some (handshake_ping j g s)
      | Some (Pinging g i) \<Rightarrow>
          (case get (requests s) i of Some (Resolved r) \<Rightarrow> Some (handshake_pong S j g r s) | _ \<Rightarrow> None)
      | Some (Announced g) \<Rightarrow> Some (handshake_boot j g s)
      | Some (Booting g i) \<Rightarrow>
          if b then
            (case get (requests s) i of Some (Resolved r) \<Rightarrow> Some (handshake_ready S j r s) | _ \<Rightarrow> None)
          else if child_exit_observed s
          then Some (respawn_failed j ServiceCrashed (abandon_request i s)) else None
      | _ \<Rightarrow> None)"

lemma handler_act_step: "handler_act S j code b s = Some t \<Longrightarrow> handler_step S s t"
  by (auto simp: handler_act_def intro: handler_step.intros
      split: option.splits handler.splits request.splits if_splits)

datatype client_action =
    Request | Send nat | Answer nat | TimeOut nat
  | Read nat nat "frame_error + string option" | Beat nat ping_result
  | Produce nat | Consume | Dispatch nat | Die nat | Shutdown | Handle nat "int option" bool

fun client_act :: "serde \<Rightarrow> client_action \<Rightarrow> client \<Rightarrow> client option" where
  "client_act S Request s = Some (register_request s)"
| "client_act S (Send i) s = request_send i True s"
| "client_act S (Answer i) s = request_answered i s"
| "client_act S (TimeOut i) s = request_timeout i s"
| "client_act S (Read now g line) s = read_line S now g line s"
| "client_act S (Beat g p) s = heartbeat_round g p s"
| "client_act S (Produce i) s =
     map_option (\<lambda>l. s\<lparr>notifications := l\<rparr>) (producer_move i (notifications s))"
| "client_act S Consume s = map_option (\<lambda>l. s\<lparr>notifications := l\<rparr>) (consumer_move (notifications s))"
| "client_act S (Dispatch i) s =
     map_option (\<lambda>n. dispatch_notification n s) (get (delivered (notifications s)) i)"
| "client_act S (Die g) s = Some (kill_child g s)"
| "client_act S Shutdown s = Some (s\<lparr>is_shutting_down := True\<rparr>)"
| "client_act S (Handle j code b) s = handler_act S j code b s"

lemma client_act_step: "client_act S a s = Some t \<Longrightarrow> client_step S s t"
  by (cases a) (auto intro: client_step.intros work_step.intros handler_act_step simp: get_Some_iff)

fun client_run :: "serde \<Rightarrow> client_action list \<Rightarrow> client \<Rightarrow> client option" where
  "client_run S [] s = Some s"
| "client_run S (a # as) s = Option.bind (client_act S a s) (client_run S as)"

lemma client_run_reachable:
  "reachable_client S v s \<Longrightarrow> client_run S as s = Some t \<Longrightarrow> reachable_client S v t"
proof (induction as arbitrary: s)
  case (Cons a as)
  then obtain u where u: "client_act S a s = Some u" "client_run S as u = Some t"
    by (auto split: bind_splits)
  have "reachable_client S v u"
    using Cons.prems(1) client_act_step [OF u(1)] by (rule reachable_client.later)
  then show ?case using u(2) by (rule Cons.IH)
qed simp

lemma client_run_reaches: "client_run S as (client_start v) = Some t \<Longrightarrow> reachable_client S v t"
  using client_run_reachable [OF reachable_client.start] .

end
