(* ===== verification/LinkOwners.thy ===== *)
theory LinkOwners
  imports LinkRespawn
begin

text \<open>
  What every step of the client keeps of its processes and launches. The handlers of crashes compete for the installed state; one
  that has taken it owns the generation until the next one is installed or the handler ends.
\<close>

section \<open>Owners\<close>

fun holds :: "handler \<Rightarrow> bool" where
  "holds (Took g) = True"
| "holds (Bumped g) = True"
| "holds (Reaping g) = True"
| "holds (Sleeping c) = True"
| "holds Launching = True"
| "holds (Launched g) = True"
| "holds h = False"

fun owned_child :: "handler \<Rightarrow> nat option" where
  "owned_child (Took g) = Some g"
| "owned_child (Bumped g) = Some g"
| "owned_child (Reaping g) = Some g"
| "owned_child (Launched g) = Some g"
| "owned_child h = None"

definition owners :: "client \<Rightarrow> nat" where
  "owners s = (if running s = None then 0 else 1) + length (filter holds (handlers s))"

definition child_owned :: "client \<Rightarrow> nat \<Rightarrow> bool" where
  "child_owned s c = (running s = Some c \<or> (\<exists>h\<in>set (handlers s). owned_child h = Some c))"

definition owners_ok :: "client \<Rightarrow> bool" where
  "owners_ok s =
     (owners s \<le> 1 \<and> distinct (children s) \<and> (\<forall>c\<in>set (children s). child_owned s c) \<and>
      (\<forall>g. running s = Some g \<longrightarrow> g = current_generation s) \<and>
      (\<forall>g. Launched g \<in> set (handlers s) \<longrightarrow> g = current_generation s))"

lemma filter_update:
  assumes "get xs j = Some x"
  shows "length (filter P (xs[j := y])) + (if P x then 1 else 0) =
         length (filter P xs) + (if P y then 1 else 0)"
proof -
  obtain as bs where "xs = as @ x # bs" "xs[j := y] = as @ y # bs" using get_split [OF assms] by blast
  then show ?thesis by simp
qed

lemma set_update: "get xs j = Some x \<Longrightarrow> set xs \<subseteq> insert x (set (xs[j := y]))"
  using get_split [of xs j x] by fastforce

lemma get_in_set: "get xs j = Some x \<Longrightarrow> x \<in> set xs"
  by (auto simp: get_Some_iff)

lemma owned_child_None: "\<not> holds h \<Longrightarrow> owned_child h = None"
  by (cases h) auto

text \<open>A handler that moves: what it held before and after decides.\<close>

lemma set_handler_simps [simp]:
  "running (set_handler j h s) = running s" "children (set_handler j h s) = children s"
  "current_generation (set_handler j h s) = current_generation s"
  "handlers (set_handler j h s) = (handlers s)[j := h]"
  "is_shutting_down (set_handler j h s) = is_shutting_down s"
  by (simp_all add: set_handler_def)

lemma quiet_simps [simp]:
  "running (emit es s) = running s" "children (emit es s) = children s"
  "handlers (emit es s) = handlers s" "current_generation (emit es s) = current_generation s"
  "running (fail_pending s) = running s" "children (fail_pending s) = children s"
  "handlers (fail_pending s) = handlers s" "current_generation (fail_pending s) = current_generation s"
  "running (fail_waiters s) = running s" "children (fail_waiters s) = children s"
  "handlers (fail_waiters s) = handlers s" "current_generation (fail_waiters s) = current_generation s"
  "running (abort_tasks g s) = running s" "children (abort_tasks g s) = children s"
  "handlers (abort_tasks g s) = handlers s" "current_generation (abort_tasks g s) = current_generation s"
  "running (kill_child g s) = running s" "children (kill_child g s) = filter (\<lambda>c. c \<noteq> g) (children s)"
  "handlers (kill_child g s) = handlers s" "current_generation (kill_child g s) = current_generation s"
  "running (register_request s) = running s" "children (register_request s) = children s"
  "handlers (register_request s) = handlers s"
  "current_generation (register_request s) = current_generation s"
  "running (resolve_request i r s) = running s" "children (resolve_request i r s) = children s"
  "handlers (resolve_request i r s) = handlers s" "current_generation (resolve_request i r s) = current_generation s"
  "running (drop_guard i s) = running s" "children (drop_guard i s) = children s"
  "handlers (drop_guard i s) = handlers s" "current_generation (drop_guard i s) = current_generation s"
  "running (trigger_crash_handler g s) = running s" "children (trigger_crash_handler g s) = children s"
  "handlers (trigger_crash_handler g s) = handlers s @ [Checking g]"
  "current_generation (trigger_crash_handler g s) = current_generation s"
  by (simp_all add: emit_def fail_pending_def fail_waiters_def abort_tasks_def kill_child_def
      register_request_def resolve_request_def drop_guard_def trigger_crash_handler_def)

definition same_owner :: "client \<Rightarrow> client \<Rightarrow> bool" where
  "same_owner s t =
     (running t = running s \<and> current_generation t = current_generation s \<and>
      (\<exists>P. children t = filter P (children s)) \<and>
      (handlers t = handlers s \<or> (\<exists>g. handlers t = handlers s @ [Checking g])))"

lemma same_owner_ok: "owners_ok s \<Longrightarrow> same_owner s t \<Longrightarrow> owners_ok t"
  by (auto simp: owners_ok_def same_owner_def owners_def child_owned_def)

lemma handler_moves_ok:
  assumes ok: "owners_ok s" and h: "get (handlers s) j = Some h"
    and t: "handlers t = (handlers s)[j := h']"
    and own: "(if running t = None then 0 else 1) + (if holds h' then 1 else 0) \<le>
              (if running s = None then 0 else 1) + (if holds h then (1::nat) else 0)"
    and children: "distinct (children t)" "set (children t) \<subseteq> set (children s) \<union> {c. owned_child h' = Some c}"
    and kept: "\<forall>c\<in>set (children t). running s = Some c \<or> owned_child h = Some c \<longrightarrow>
               running t = Some c \<or> owned_child h' = Some c"
    and gens: "\<forall>g. running t = Some g \<longrightarrow> g = current_generation t"
      "\<forall>g. h' = Launched g \<longrightarrow> g = current_generation t"
      "current_generation t = current_generation s \<or> holds h"
  shows "owners_ok t"
proof -
  have owners: "owners t \<le> 1"
    using ok own filter_update [OF h, of holds h'] by (simp add: owners_ok_def owners_def t)
  have owned: "child_owned t c" if c: "c \<in> set (children t)" for c
  proof (cases "owned_child h' = Some c")
    case True
    moreover have "j < length (handlers s)" using h by (simp add: get_Some_iff)
    ultimately show ?thesis by (auto simp: child_owned_def t intro!: bexI [of _ h'] set_update_memI)
  next
    case False
    then have "c \<in> set (children s)" using c children(2) by auto
    then have "child_owned s c" using ok by (simp add: owners_ok_def)
    then consider "running s = Some c \<or> owned_child h = Some c"
      | k where "k \<in> set (handlers s)" "k \<noteq> h" "owned_child k = Some c"
      by (auto simp: child_owned_def)
    then show ?thesis
    proof cases
      case 1
      with False kept c show ?thesis by (auto simp: child_owned_def)
    next
      case 2
      with set_update [OF h, of h'] show ?thesis by (auto simp: child_owned_def t)
    qed
  qed
  have "g = current_generation t" if g: "Launched g \<in> set (handlers t)" for g
  proof (cases "h' = Launched g \<or> \<not> holds h")
    case True
    then have "h' = Launched g \<or> Launched g \<in> set (handlers s) \<and> \<not> holds h"
      using g t set_update_subset_insert [of "handlers s" j h'] by auto
    with ok gens show ?thesis by (auto simp: owners_ok_def)
  next
    case False
    obtain as bs where split: "handlers s = as @ h # bs" "handlers t = as @ h' # bs"
      using get_split [OF h] t by metis
    with False g have "Launched g \<in> set (as @ bs)" by auto
    then have "filter holds (as @ bs) \<noteq> []" by (metis filter_empty_conv holds.simps(6))
    then have "0 < length (filter holds as) + length (filter holds bs)" by (auto simp: length_greater_0_conv)
    with False ok split show ?thesis by (simp add: owners_ok_def owners_def)
  qed
  with owners owned children(1) gens show ?thesis by (simp add: owners_ok_def)
qed

text \<open>Moves that neither give nor take: the handler holds nothing before and after.\<close>

lemma handler_idle_ok:
  assumes "owners_ok s" "get (handlers s) j = Some h" "handlers t = (handlers s)[j := h']"
    "\<not> holds h'" "running t = running s" "children t = children s"
    "current_generation t = current_generation s" "\<not> holds h \<or> children s = []"
  shows "owners_ok t"
proof (rule handler_moves_ok [OF assms(1-3)])
  show "\<forall>c\<in>set (children t). running s = Some c \<or> owned_child h = Some c \<longrightarrow>
      running t = Some c \<or> owned_child h' = Some c"
    using assms owned_child_None [of h] by auto
qed (use assms in \<open>auto simp: owners_ok_def\<close>)

lemma holder_alone:
  assumes "owners_ok s" "get (handlers s) j = Some h" "holds h"
  shows "running s = None" "c \<in> set (children s) \<Longrightarrow> owned_child h = Some c"
proof -
  obtain as bs where split: "handlers s = as @ h # bs" using get_split [OF assms(2)] by blast
  then have "(if running s = None then 0 else 1) + length (filter holds (as @ bs)) < owners s"
    using assms(3) by (simp add: owners_def)
  moreover have "owners s \<le> 1" using assms(1) by (simp add: owners_ok_def)
  ultimately have "(if running s = None then 0 else (1::nat)) + length (filter holds (as @ bs)) = 0" by linarith
  then have none: "running s = None" "filter holds (as @ bs) = []"
    by (auto split: if_splits)
  show "running s = None" by (rule none)
  have "owned_child k = None" if "k \<in> set (as @ bs)" for k
    using that none(2) by (intro owned_child_None) (auto simp: filter_empty_conv)
  moreover assume "c \<in> set (children s)"
  ultimately show "owned_child h = Some c"
    using assms(1) none(1) split by (auto simp: owners_ok_def child_owned_def)
qed

lemma holder_no_child: "owners_ok s \<Longrightarrow> get (handlers s) j = Some h \<Longrightarrow> holds h \<Longrightarrow> owned_child h = None \<Longrightarrow> children s = []"
  using holder_alone(2) [of s j h] by (metis last_in_set option.distinct(1))

lemma same_owner_quiet:
  "same_owner s (trigger_crash_handler g s)" "same_owner s (abandon_request i s)"
  "same_owner s (register_request s)" "same_owner s (emit es s)" "same_owner s (kill_child g s)"
  "same_owner s (drop_guard i s)" "same_owner s (resolve_request i r s)"
  by (auto simp: same_owner_def abandon_request_def intro: exI [of _ "\<lambda>x. True"])

lemma get_append_same: "get xs j = Some x \<Longrightarrow> get (xs @ ys) j = Some x"
  by (auto simp: get_Some_iff nth_append)

lemma tear_down_ok: "owners_ok s \<Longrightarrow> owners_ok (tear_down_installed_state s)"
  by (auto simp: tear_down_installed_state_def owners_ok_def owners_def child_owned_def split: option.splits)

lemma tear_down_handlers [simp]: "handlers (tear_down_installed_state s) = handlers s"
  by (simp add: tear_down_installed_state_def split: option.splits)

lemma respawn_failed_ok:
  assumes "owners_ok s" "get (handlers s) j = Some h" "\<not> holds h"
  shows "owners_ok (respawn_failed j e s)"
proof (cases "e = ServiceCrashed")
  case True
  have "owners_ok (trigger_crash_handler (current_generation s) s)"
    using assms(1) same_owner_quiet(1) by (rule same_owner_ok)
  then have "owners_ok (set_handler j Finished (trigger_crash_handler (current_generation s) s))"
    by (rule handler_idle_ok [where h = h and h' = Finished]) (use assms in \<open>auto simp: get_append_same\<close>)
  with True show ?thesis by (simp add: respawn_failed_def)
next
  case False
  have "owners_ok (tear_down_installed_state s)" using assms(1) by (rule tear_down_ok)
  then show ?thesis unfolding respawn_failed_def terminal_def using False assms
    by (auto intro: handler_idle_ok [where h = h and h' = Finished])
qed

lemma crash_decide_ok:
  assumes "owners_ok s" "get (handlers s) j = Some (Sleeping code)"
  shows "owners_ok (crash_decide j code s)"
proof -
  have no: "children s = []" "running s = None"
    using holder_no_child [OF assms] holder_alone(1) [OF assms] by simp_all
  have fin: "owners_ok t" if "handlers t = (handlers s)[j := Finished]" "running t = running s"
    "children t = children s" "current_generation t = current_generation s" for t
    using that no by (intro handler_idle_ok [OF assms]) auto
  have go: "owners_ok t" if "handlers t = (handlers s)[j := Launching]" "running t = running s"
    "children t = children s" "current_generation t = current_generation s" for t
    using that no by (intro handler_moves_ok [OF assms]) auto
  show ?thesis
    by (auto simp: crash_decide_def terminal_def Let_def intro: fin go split: option.splits prod.splits)
qed

lemma crash_reap_ok:
  assumes "owners_ok s" "get (handlers s) j = Some (Reaping g)"
  shows "owners_ok (crash_reap j g code s)"
proof -
  have none: "filter (\<lambda>c. c \<noteq> g) (children s) = []" "running s = None"
    using holder_alone [OF assms] by (auto simp: filter_empty_conv)
  have move: "owners_ok t" if "handlers t = (handlers s)[j := h']" "running t = running s"
    "children t = []" "current_generation t = current_generation s" "h' = Finished \<or> h' = Sleeping code" for t h'
    using that none by (intro handler_moves_ok [OF assms that(1)]) auto
  show ?thesis using none
    by (auto simp: crash_reap_def Let_def intro!: move split: prod.splits)
qed

lemma respawn_launch_ok:
  assumes "owners_ok s" "get (handlers s) j = Some Launching"
  shows "owners_ok (respawn_launch j b s)"
proof -
  have no: "children s = []" "running s = None"
    using holder_no_child [OF assms] holder_alone(1) [OF assms] by simp_all
  have fin: "owners_ok t" if "handlers t = (handlers s)[j := Finished]" "running t = running s"
    "children t = children s" "current_generation t = current_generation s" for t
    using that no by (intro handler_idle_ok [OF assms]) auto
  have go: "owners_ok t" if "handlers t = (handlers s)[j := Launched (current_generation s)]"
    "running t = running s" "children t = [current_generation s]"
    "current_generation t = current_generation s" for t
    using that no by (intro handler_moves_ok [OF assms]) auto
  show ?thesis using no
    by (auto simp: respawn_launch_def terminal_def Let_def intro: fin go)
qed

lemma respawn_install_ok:
  assumes "owners_ok s" "get (handlers s) j = Some (Launched g)"
  shows "owners_ok (respawn_install j g s)"
proof -
  have none: "filter (\<lambda>c. c \<noteq> g) (children s) = []" "set (children s) \<subseteq> {g}" "running s = None"
    using holder_alone [OF assms] by (auto simp: filter_empty_conv)
  have g: "g = current_generation s" using assms by (auto simp: owners_ok_def dest: get_in_set)
  have fin: "owners_ok t" if "handlers t = (handlers s)[j := Finished]" "running t = running s"
    "children t = []" "current_generation t = current_generation s" for t
    using that none by (intro handler_moves_ok [OF assms]) auto
  have go: "owners_ok t" if "handlers t = (handlers s)[j := Installed g]" "running t = Some g"
    "children t = children s" "current_generation t = g" for t
    using that none g assms(1) by (intro handler_moves_ok [OF assms]) (auto simp: owners_ok_def)
  show ?thesis using none by (auto simp: respawn_install_def intro: fin go)
qed

lemma handler_step_ok:
  assumes "handler_step S s t" "owners_ok s"
  shows "owners_ok t"
  using assms
proof (induction rule: handler_step.induct)
  case (check s j g)
  then show ?case by (auto simp: crash_check_def intro: handler_idle_ok)
next
  case (take_state s j g)
  show ?case
  proof (cases "running s = Some g")
    case True
    then show ?thesis unfolding crash_take_def using take_state
      by (simp, intro handler_moves_ok [OF take_state(2,1), where h' = "Took g"]) (auto simp: owners_ok_def)
  qed (use take_state in \<open>auto simp: crash_take_def intro: handler_idle_ok\<close>)
next
  case (bump s j g)
  then show ?case
    using holder_alone(1) [OF bump(2,1)] unfolding crash_bump_def
    by (intro handler_moves_ok [OF bump(2,1), where h' = "Bumped g"]) (auto simp: owners_ok_def)
next
  case (fail s j g)
  then show ?case
    using holder_alone(1) [OF fail(2,1)] unfolding crash_fail_def
    by (intro handler_moves_ok [OF fail(2,1), where h' = "Reaping g"]) (auto simp: owners_ok_def)
next
  case (reap s j g code)
  then show ?case by (intro crash_reap_ok)
next
  case (decide s j code)
  then show ?case by (intro crash_decide_ok)
next
  case (launch s j b)
  then show ?case by (intro respawn_launch_ok)
next
  case (install s j g)
  then show ?case by (intro respawn_install_ok)
next
  case (ping s j g)
  then show ?case by (auto simp: handshake_ping_def intro: handler_idle_ok)
next
  case (pong s j g i r)
  then show ?case
    by (auto simp: handshake_pong_def intro: handler_idle_ok respawn_failed_ok split: sum.splits option.splits)
next
  case (boot s j g)
  then show ?case by (auto simp: handshake_boot_def intro: handler_idle_ok)
next
  case (ready s j g i r)
  then show ?case
    by (auto simp: handshake_ready_def intro: handler_idle_ok respawn_failed_ok split: sum.splits option.splits)
next
  case (exited s j g i)
  have "owners_ok (abandon_request i s)" using exited(3) same_owner_quiet(2) by (rule same_owner_ok)
  with exited show ?case by (auto simp: abandon_request_def intro: respawn_failed_ok)
qed

text \<open>The other tasks leave the owners alone; at most they start a crash handler.\<close>

lemma same_owner_refl: "same_owner s s"
  by (auto simp: same_owner_def intro: exI [of _ "\<lambda>x. True"])

lemma same_ownerI:
  "running t = running s \<Longrightarrow> current_generation t = current_generation s \<Longrightarrow> children t = children s \<Longrightarrow>
     handlers t = handlers s \<or> (\<exists>g. handlers t = handlers s @ [Checking g]) \<Longrightarrow> same_owner s t"
  by (auto simp: same_owner_def intro: exI [of _ "\<lambda>x. True"])

lemma reader_round_owner: "same_owner s (reader_round S now g line r s)"
  by (rule same_ownerI)
    (auto simp: reader_round_def Let_def stop_reader_def set_reader_def dispatch_response_def
      handle_notification_def enqueue_notification_def
      split: sum.splits option.splits parsed_service_message.splits notification.splits)

lemma client_step_ok:
  assumes "client_step S s t" "owners_ok s"
  shows "owners_ok t"
  using assms
proof (induction rule: client_step.induct)
  case (handler s t)
  then show ?case by (rule handler_step_ok)
next
  case (read now g line s t)
  then show ?case
    by (auto simp: read_line_def intro: same_owner_ok reader_round_owner split: option.splits if_splits)
next
  case (die s g)
  then show ?case using same_owner_quiet(5) by (rule same_owner_ok)
qed (auto elim!: same_owner_ok intro!: same_ownerI
    simp: same_owner_quiet request_send_def request_answered_def request_timeout_def heartbeat_round_def
      dispatch_notification_def
    split: if_splits option.splits request.splits ping_result.splits prod.splits)

lemma reachable_owners: "reachable_client S v s \<Longrightarrow> owners_ok s"
proof (induction rule: reachable_client.induct)
  case start
  then show ?case by (simp add: owners_ok_def owners_def child_owned_def client_start_def)
qed (rule client_step_ok)

text \<open>So there is never more than one process.\<close>

lemma owners_one_child:
  assumes "owners_ok s"
  shows "length (children s) \<le> 1"
proof -
  have "c = d" if c: "c \<in> set (children s)" and d: "d \<in> set (children s)" for c d
  proof (cases "running s")
    case None
    with c assms obtain h where hk: "h \<in> set (handlers s)" "owned_child h = Some c"
      by (auto simp: owners_ok_def child_owned_def)
    then obtain j where "get (handlers s) j = Some h" by (auto simp: in_set_conv_nth get_Some_iff)
    moreover have "holds h" using hk(2) owned_child_None [of h] by auto
    ultimately show ?thesis using holder_alone(2) [OF assms, of j h d] d hk(2) by simp
  next
    case (Some g)
    have "filter holds (handlers s) = []" using assms Some by (auto simp: owners_ok_def owners_def)
    then have "child_owned s x \<Longrightarrow> x = g" for x
      using Some owned_child_None by (fastforce simp: child_owned_def filter_empty_conv)
    moreover have "child_owned s c" "child_owned s d" using assms c d by (auto simp: owners_ok_def)
    ultimately show ?thesis by blast
  qed
  then have "card (set (children s)) \<le> 1" by (simp add: card_le_Suc0_iff_eq)
  then show ?thesis using assms by (simp add: owners_ok_def distinct_card)
qed

section \<open>Launches\<close>

text \<open>Each launch is paid for by a crash that stayed below the threshold since the last good boot.\<close>

definition about_to_launch :: "client \<Rightarrow> nat" where
  "about_to_launch s = length (filter (\<lambda>h. h = Launching) (handlers s))"

definition launches_ok :: "client \<Rightarrow> bool" where
  "launches_ok s =
     (launches s + about_to_launch s \<le>
      (CRASHLOOP_THRESHOLD - 1) * boots s + min (consecutive_crashes s) (CRASHLOOP_THRESHOLD - 1))"

definition same_launches :: "client \<Rightarrow> client \<Rightarrow> bool" where
  "same_launches s t =
     (launches t = launches s \<and> boots t = boots s \<and> consecutive_crashes t = consecutive_crashes s)"

lemma launch_fields [simp]:
  "launches (set_handler j h s) = launches s" "boots (set_handler j h s) = boots s"
  "consecutive_crashes (set_handler j h s) = consecutive_crashes s"
  "launches (emit es s) = launches s" "boots (emit es s) = boots s"
  "consecutive_crashes (emit es s) = consecutive_crashes s"
  "launches (fail_pending s) = launches s" "boots (fail_pending s) = boots s"
  "consecutive_crashes (fail_pending s) = consecutive_crashes s"
  "launches (fail_waiters s) = launches s" "boots (fail_waiters s) = boots s"
  "consecutive_crashes (fail_waiters s) = consecutive_crashes s"
  "launches (abort_tasks g s) = launches s" "boots (abort_tasks g s) = boots s"
  "consecutive_crashes (abort_tasks g s) = consecutive_crashes s"
  "launches (kill_child g s) = launches s" "boots (kill_child g s) = boots s"
  "consecutive_crashes (kill_child g s) = consecutive_crashes s"
  "launches (register_request s) = launches s" "boots (register_request s) = boots s"
  "consecutive_crashes (register_request s) = consecutive_crashes s"
  "launches (resolve_request i r s) = launches s" "boots (resolve_request i r s) = boots s"
  "consecutive_crashes (resolve_request i r s) = consecutive_crashes s"
  "launches (drop_guard i s) = launches s" "boots (drop_guard i s) = boots s"
  "consecutive_crashes (drop_guard i s) = consecutive_crashes s"
  "launches (trigger_crash_handler g s) = launches s" "boots (trigger_crash_handler g s) = boots s"
  "consecutive_crashes (trigger_crash_handler g s) = consecutive_crashes s"
  "launches (abandon_request i s) = launches s" "boots (abandon_request i s) = boots s"
  "consecutive_crashes (abandon_request i s) = consecutive_crashes s"
  "launches (tear_down_installed_state s) = launches s" "boots (tear_down_installed_state s) = boots s"
  "consecutive_crashes (tear_down_installed_state s) = consecutive_crashes s"
  by (simp_all add: set_handler_def emit_def fail_pending_def fail_waiters_def abort_tasks_def
      kill_child_def register_request_def resolve_request_def drop_guard_def trigger_crash_handler_def abandon_request_def
      tear_down_installed_state_def split: option.splits)

lemma launches_ok_quiet:
  "launches_ok s \<Longrightarrow> same_launches s t \<Longrightarrow> about_to_launch t \<le> about_to_launch s \<Longrightarrow> launches_ok t"
  by (simp add: launches_ok_def same_launches_def)

lemma about_to_launch_update:
  "get (handlers s) j = Some h \<Longrightarrow> handlers t = (handlers s)[j := h'] \<Longrightarrow>
     about_to_launch t + (if h = Launching then 1 else 0) = about_to_launch s + (if h' = Launching then 1 else 0)"
  using filter_update [of "handlers s" j h "\<lambda>h. h = Launching" h'] by (simp add: about_to_launch_def)

lemma launches_ok_move:
  assumes "launches_ok s" "get (handlers s) j = Some h" "handlers t = (handlers s)[j := h']"
    "h' \<noteq> Launching" "same_launches s t"
  shows "launches_ok t"
  using assms(1,5)
  by (rule launches_ok_quiet) (use about_to_launch_update [OF assms(2,3)] assms(4) in \<open>simp split: if_splits\<close>)

lemma launches_ok_failed:
  assumes "launches_ok s" "get (handlers s) j = Some h"
  shows "launches_ok (respawn_failed j e s)"
proof -
  have "launches_ok (trigger_crash_handler g s)" for g
    using assms(1) by (rule launches_ok_quiet) (simp_all add: about_to_launch_def same_launches_def)
  then have "launches_ok (set_handler j Finished (trigger_crash_handler g s))" for g
    by (rule launches_ok_move [where h = h and h' = Finished])
      (use assms in \<open>simp_all add: get_append_same same_launches_def\<close>)
  moreover have "launches_ok (terminal j e (tear_down_installed_state s))"
    using assms by (rule launches_ok_move [where h' = Finished]) (simp_all add: terminal_def same_launches_def)
  ultimately show ?thesis by (simp add: respawn_failed_def)
qed

lemma crash_decide_launches:
  assumes "launches_ok s" "get (handlers s) j = Some (Sleeping code)"
  shows "launches_ok (crash_decide j code s)"
proof -
  have fin: "launches_ok t" if "handlers t = (handlers s)[j := Finished]" "launches t = launches s"
    "boots t = boots s" "consecutive_crashes s \<le> consecutive_crashes t" for t
    using assms(1) that about_to_launch_update [OF assms(2) that(1)] by (simp add: launches_ok_def)
  have go: "launches_ok t" if "handlers t = (handlers s)[j := Launching]" "launches t = launches s"
    "boots t = boots s" "consecutive_crashes t = consecutive_crashes s + 1" "consecutive_crashes t < CRASHLOOP_THRESHOLD" for t
    using assms(1) that about_to_launch_update [OF assms(2) that(1)]
    by (simp add: launches_ok_def CRASHLOOP_THRESHOLD_def)
  show ?thesis
    by (auto simp: crash_decide_def terminal_def Let_def record_consecutive_crash_and_check_def
        intro: fin go split: option.splits)
qed

lemma respawn_launch_launches:
  assumes "launches_ok s" "get (handlers s) j = Some Launching"
  shows "launches_ok (respawn_launch j b s)"
proof -
  have "launches_ok t" if "handlers t = (handlers s)[j := h']" "launches t \<le> launches s + 1" "h' \<noteq> Launching"
    "boots t = boots s" "consecutive_crashes t = consecutive_crashes s" for t h'
    using assms(1) that about_to_launch_update [OF assms(2) that(1)] by (simp add: launches_ok_def)
  then show ?thesis
    by (auto simp: respawn_launch_def terminal_def Let_def)
qed

lemma handshake_ready_launches:
  assumes "launches_ok s" "get (handlers s) j = Some (Booting g i)"
  shows "launches_ok (handshake_ready S j r s)"
proof -
  have "launches_ok t" if "handlers t = (handlers s)[j := Finished]" "launches t = launches s"
    "boots t = boots s + 1" for t
    using assms(1) that about_to_launch_update [OF assms(2) that(1)]
    by (simp add: launches_ok_def CRASHLOOP_THRESHOLD_def)
  with launches_ok_failed [OF assms] show ?thesis
    by (auto simp: handshake_ready_def split: sum.splits option.splits)
qed

lemma handler_step_launches:
  assumes "handler_step S s t" "launches_ok s"
  shows "launches_ok t"
  using assms
proof (induction rule: handler_step.induct)
  case (check s j g)
  note move = launches_ok_move [OF check(2,1)]
  show ?case unfolding crash_check_def
    by (cases "is_shutting_down s \<or> first_boot_ready s = None")
      (simp_all add: move [where h' = Finished] move [where h' = "Picking g"] same_launches_def)
next
  case (take_state s j g)
  note move = launches_ok_move [OF take_state(2,1)]
  show ?case unfolding crash_take_def
    by (cases "running s = Some g")
      (simp_all add: move [where h' = Finished] move [where h' = "Took g"] same_launches_def)
next
  case (bump s j g)
  show ?case unfolding crash_bump_def
    by (rule launches_ok_move [OF bump(2,1), where h' = "Bumped g"]) (simp_all add: same_launches_def)
next
  case (fail s j g)
  show ?case unfolding crash_fail_def
    by (rule launches_ok_move [OF fail(2,1), where h' = "Reaping g"]) (simp_all add: same_launches_def)
next
  case (reap s j g code)
  note move = launches_ok_move [OF reap(2,1)]
  show ?case unfolding crash_reap_def
    by (simp add: Let_def move [where h' = Finished] move [where h' = "Sleeping code"] same_launches_def
        split: prod.splits)
next
  case (decide s j code)
  then show ?case by (intro crash_decide_launches)
next
  case (launch s j b)
  then show ?case by (intro respawn_launch_launches)
next
  case (install s j g)
  note move = launches_ok_move [OF install(2,1)]
  show ?case unfolding respawn_install_def
    by (cases "is_shutting_down s")
      (simp_all add: move [where h' = Finished] move [where h' = "Installed g"] same_launches_def)
next
  case (ping s j g)
  show ?case unfolding handshake_ping_def
    by (rule launches_ok_move [OF ping(2,1), where h' = "Pinging g (length (requests s))"]) (simp_all add: same_launches_def)
next
  case (pong s j g i r)
  note move = launches_ok_move [OF pong(3,1)]
  show ?case unfolding handshake_pong_def
    by (simp add: move [where h' = "Announced g"] launches_ok_failed [OF pong(3,1)] same_launches_def
        split: sum.splits option.splits)
next
  case (boot s j g)
  show ?case unfolding handshake_boot_def
    by (rule launches_ok_move [OF boot(2,1), where h' = "Booting g (length (requests s))"]) (simp_all add: same_launches_def)
next
  case (ready s j g i r)
  then show ?case by (intro handshake_ready_launches)
next
  case (exited s j g i)
  have "launches_ok (abandon_request i s)"
    using exited(3) by (rule launches_ok_quiet) (simp_all add: about_to_launch_def abandon_request_def same_launches_def)
  then show ?case by (rule launches_ok_failed) (use exited in \<open>simp add: abandon_request_def\<close>)
qed

lemma reader_round_launches: "same_launches s (reader_round S now g line r s)"
  by (auto simp: reader_round_def Let_def stop_reader_def set_reader_def dispatch_response_def
      handle_notification_def enqueue_notification_def same_launches_def
      split: sum.splits option.splits parsed_service_message.splits notification.splits)

lemma same_owner_about: "same_owner s t \<Longrightarrow> about_to_launch t = about_to_launch s"
  by (auto simp: same_owner_def about_to_launch_def)

lemma client_step_other:
  assumes "client_step S s t" "\<not> handler_step S s t"
  shows "same_owner s t \<and> same_launches s t"
  using assms
proof (cases rule: client_step.cases)
  case (read now g line)
  then show ?thesis
    using reader_round_owner reader_round_launches
    by (auto simp: read_line_def split: option.splits if_splits)
next
  case (die g)
  then show ?thesis using same_owner_quiet(5) by (simp add: same_launches_def)
next
  case (send i sent)
  then show ?thesis
    by (auto simp: request_send_def same_launches_def intro!: same_ownerI split: if_splits option.splits)
next
  case (beat g p)
  then show ?thesis
    by (auto simp: heartbeat_round_def same_launches_def intro!: same_ownerI split: if_splits option.splits ping_result.splits)
qed (auto simp: same_launches_def request_answered_def request_timeout_def dispatch_notification_def
    intro!: same_ownerI split: option.splits request.splits)

lemma client_step_launches: "client_step S s t \<Longrightarrow> launches_ok s \<Longrightarrow> launches_ok t"
  using handler_step_launches client_step_other launches_ok_quiet same_owner_about
  by (metis order_refl)

lemma reachable_launches: "reachable_client S v s \<Longrightarrow> launches_ok s"
proof (induction rule: reachable_client.induct)
  case start
  then show ?case by (simp add: launches_ok_def about_to_launch_def client_start_def)
qed (rule client_step_launches)

end
