(* ===== verification/LinkRequests.thy ===== *)
theory LinkRequests
  imports LinkOwners
begin

text \<open>
  Requests of the client: every request without an answer is in the table, and one that was sent to
  a generation is failed when the crash of that generation is handled.
\<close>

section \<open>Requests\<close>

text \<open>
  A request without an answer is pending, and when it was sent to a generation, that generation is
  still installed or held by a handler that will fail the pending requests. A failed handshake tears
  the installed state down without doing so, and reports the end of the service.
\<close>

definition ended :: "client \<Rightarrow> bool" where
  "ended s = (\<exists>e. Terminal e \<in> set (events s))"

definition answerable :: "client \<Rightarrow> nat \<Rightarrow> bool" where
  "answerable s g = (running s = Some g \<or> Took g \<in> set (handlers s) \<or> Bumped g \<in> set (handlers s))"

definition request_ok :: "client \<Rightarrow> nat \<Rightarrow> bool" where
  "request_ok s i =
     (case get (requests s) i of
        None \<Rightarrow> answers s i = None \<and> i \<notin> set (pending s)
      | Some Registered \<Rightarrow> answers s i \<noteq> None \<or> i \<in> set (pending s)
      | Some (Sent g) \<Rightarrow>
          (answers s i \<noteq> None \<or> i \<in> set (pending s)) \<and> (i \<in> set (pending s) \<longrightarrow> ended s \<or> answerable s g)
      | Some (Resolved r) \<Rightarrow> True)"

definition requests_ok :: "client \<Rightarrow> bool" where
  "requests_ok s = (\<forall>i. request_ok s i)"

text \<open>Steps that leave the requests alone and do not take their generation away.\<close>

definition keeps_requests :: "client \<Rightarrow> client \<Rightarrow> bool" where
  "keeps_requests s t =
     (pending t = pending s \<and> answers t = answers s \<and> requests t = requests s \<and> (ended s \<longrightarrow> ended t) \<and>
      (\<not> ended t \<longrightarrow> (\<forall>g. answerable s g \<longrightarrow> answerable t g)))"

lemma requests_ok_pointwise:
  "requests_ok s \<Longrightarrow> (\<And>k. request_ok s k \<Longrightarrow> request_ok t k) \<Longrightarrow> requests_ok t"
  by (simp add: requests_ok_def)

lemma keeps_requests_ok: "requests_ok s \<Longrightarrow> keeps_requests s t \<Longrightarrow> requests_ok t"
  by (erule requests_ok_pointwise)
    (auto simp: request_ok_def keeps_requests_def split: option.splits request.splits)

lemma request_fields [simp]:
  "pending (set_handler j h s) = pending s" "answers (set_handler j h s) = answers s" "requests (set_handler j h s) = requests s"
  "pending (fail_waiters s) = pending s" "answers (fail_waiters s) = answers s" "requests (fail_waiters s) = requests s"
  "pending (abort_tasks g s) = pending s" "answers (abort_tasks g s) = answers s" "requests (abort_tasks g s) = requests s"
  "pending (kill_child g s) = pending s" "answers (kill_child g s) = answers s" "requests (kill_child g s) = requests s"
  "pending (trigger_crash_handler g s) = pending s" "answers (trigger_crash_handler g s) = answers s" "requests (trigger_crash_handler g s) = requests s"
  "pending (tear_down_installed_state s) = pending s" "answers (tear_down_installed_state s) = answers s" "requests (tear_down_installed_state s) = requests s"
  "pending (emit es s) = pending s" "answers (emit es s) = answers s" "requests (emit es s) = requests s"
  by (simp_all add: set_handler_def emit_def fail_waiters_def abort_tasks_def
      kill_child_def trigger_crash_handler_def tear_down_installed_state_def split: option.splits)

lemma event_fields [simp]:
  "events (set_handler j h s) = events s"
  "events (fail_waiters s) = events s"
  "events (abort_tasks g s) = events s"
  "events (kill_child g s) = events s"
  "events (trigger_crash_handler g s) = events s"
  "events (tear_down_installed_state s) = events s"
  "events (fail_pending s) = events s"
  "events (register_request s) = events s"
  "events (resolve_request i r s) = events s"
  "events (drop_guard i s) = events s"
  "events (abandon_request i s) = events s"
  "events (emit es s) = events s @ es"
  by (simp_all add: set_handler_def emit_def fail_pending_def fail_waiters_def abort_tasks_def
      kill_child_def register_request_def resolve_request_def drop_guard_def trigger_crash_handler_def abandon_request_def
      tear_down_installed_state_def split: option.splits)

lemma answerable_update:
  assumes "get (handlers s) j = Some h" "handlers t = (handlers s)[j := h']"
    "running t = running s \<or> running s = None"
    "\<forall>g. h = Took g \<or> h = Bumped g \<longrightarrow> h' = Took g \<or> h' = Bumped g" "answerable s g"
  shows "answerable t g"
proof -
  have "j < length (handlers s)" using assms(1) by (simp add: get_Some_iff)
  then have "h' \<in> set (handlers t)" by (simp add: assms(2) set_update_memI)
  with assms set_update [OF assms(1), of h'] show ?thesis by (auto simp: answerable_def)
qed

lemma keeps_requests_move:
  assumes "get (handlers s) j = Some h" "handlers t = (handlers s)[j := h']"
    "running t = running s \<or> running s = None"
    "\<forall>g. h = Took g \<or> h = Bumped g \<longrightarrow> h' = Took g \<or> h' = Bumped g"
    "pending t = pending s" "answers t = answers s" "requests t = requests s"
    "set (events s) \<subseteq> set (events t)"
  shows "keeps_requests s t"
  using answerable_update [OF assms(1-4)] assms(5-8) by (auto simp: keeps_requests_def ended_def)

lemmas request_simps = request_ok_def ended_def answerable_def

lemma requests_ok_register: "requests_ok s \<Longrightarrow> requests_ok (register_request s)"
proof (erule requests_ok_pointwise)
  fix k assume k: "request_ok s k"
  have new: "get (requests s @ [Registered]) k =
      (if k = length (requests s) then Some Registered else get (requests s) k)"
    by (auto simp: get_def nth_append)
  show "request_ok (register_request s) k"
  proof (cases "k = length (requests s)")
    case True
    then show ?thesis by (simp add: request_ok_def register_request_def get_def)
  next
    case False
    with k show ?thesis
      by (simp add: request_simps register_request_def new cong: option.case_cong request.case_cong)
  qed
qed

lemma requests_ok_fail: "requests_ok s \<Longrightarrow> requests_ok (fail_pending s)"
  by (erule requests_ok_pointwise) (auto simp: request_simps fail_pending_def split: option.splits request.splits)

lemma requests_ok_gone: "requests_ok s \<Longrightarrow> requests_ok (resolve_request i r (drop_guard i s))"
proof (erule requests_ok_pointwise)
  fix k assume "request_ok s k"
  then show "request_ok (resolve_request i r (drop_guard i s)) k"
    by (cases "k = i"; cases "i < length (requests s)")
      (simp_all add: request_simps resolve_request_def drop_guard_def get_None_iff [THEN iffD2]
        cong: option.case_cong request.case_cong)
qed

lemma requests_ok_resolve: "requests_ok s \<Longrightarrow> requests_ok (resolve_request i r s)"
proof (erule requests_ok_pointwise)
  fix k assume "request_ok s k"
  then show "request_ok (resolve_request i r s) k"
    by (cases "k = i \<and> i < length (requests s)")
      (simp_all add: request_simps resolve_request_def cong: option.case_cong request.case_cong)
qed

lemma requests_ok_sent:
  assumes "requests_ok s" "get (requests s) i = Some Registered" "running s = Some g"
  shows "requests_ok (s\<lparr>requests := (requests s)[i := Sent g]\<rparr>)"
  using assms(1)
proof (rule requests_ok_pointwise)
  fix k assume "request_ok s k"
  then show "request_ok (s\<lparr>requests := (requests s)[i := Sent g]\<rparr>) k"
    using assms(2,3) get_Some_less [OF assms(2)]
    by (cases "k = i") (simp_all add: request_simps cong: option.case_cong request.case_cong)
qed

lemma requests_ok_response: "requests_ok s \<Longrightarrow> requests_ok (dispatch_response S i response s)"
proof (erule requests_ok_pointwise)
  fix k assume "request_ok s k"
  then show "request_ok (dispatch_response S i response s) k"
    by (cases "k = i"; cases "i \<in> set (pending s)")
      (auto simp: request_simps dispatch_response_def drop_guard_def split: option.splits request.splits)
qed

lemma requests_ok_trigger: "requests_ok s \<Longrightarrow> requests_ok (trigger_crash_handler g s)"
  by (rule keeps_requests_ok) (auto simp: keeps_requests_def ended_def answerable_def)

lemma requests_ok_move:
  assumes "requests_ok s" "get (handlers s) j = Some h" "handlers t = (handlers s)[j := h']"
    "running t = running s \<or> running s = None"
    "\<forall>g. h = Took g \<or> h = Bumped g \<longrightarrow> h' = Took g \<or> h' = Bumped g"
    "pending t = pending s" "answers t = answers s" "requests t = requests s"
    "set (events s) \<subseteq> set (events t)"
  shows "requests_ok t"
  using assms(1) keeps_requests_move [OF assms(2-9)] by (rule keeps_requests_ok)

lemma ended_ok: "requests_ok s \<Longrightarrow> ended t \<Longrightarrow> pending t = pending s \<Longrightarrow> answers t = answers s \<Longrightarrow>
    requests t = requests s \<Longrightarrow> requests_ok t"
  by (erule requests_ok_pointwise) (auto simp: request_ok_def split: option.splits request.splits)

lemma respawn_failed_requests:
  assumes "requests_ok s" "get (handlers s) j = Some h" "\<not> holds h"
  shows "requests_ok (respawn_failed j e s)"
proof (cases "e = ServiceCrashed")
  case True
  have "requests_ok (trigger_crash_handler g s)" for g using assms(1) by (rule requests_ok_trigger)
  then have "requests_ok (set_handler j Finished (trigger_crash_handler g s))" for g
    by (rule keeps_requests_ok) (use assms in \<open>auto intro!: keeps_requests_move [where h = h and h' = Finished]
      simp: get_append_same\<close>)
  with True show ?thesis by (simp add: respawn_failed_def)
next
  case False
  with assms(1) show ?thesis
    by (intro ended_ok [OF assms(1)]) (auto simp: respawn_failed_def terminal_def ended_def)
qed

lemma handler_step_requests:
  assumes "handler_step S s t" "requests_ok s" "owners_ok s"
  shows "requests_ok t"
  using assms
proof (induction rule: handler_step.induct)
  case (check s j g)
  then show ?case
    by (intro keeps_requests_ok [OF check(2)], cases "is_shutting_down s \<or> first_boot_ready s = None")
      (auto simp: crash_check_def intro: keeps_requests_move)
next
  case (take_state s j g)
  show ?case
  proof (rule keeps_requests_ok [OF take_state(2)], cases "running s = Some g")
    case True
    have "j < length (handlers s)" using take_state(1) by (simp add: get_Some_iff)
    then show "keeps_requests s (crash_take j g s)"
      using True set_update [OF take_state(1), of "Took g"]
      by (auto simp: crash_take_def keeps_requests_def ended_def answerable_def set_handler_def set_update_memI)
  next
    case False
    with take_state(1) show "keeps_requests s (crash_take j g s)"
      by (auto simp: crash_take_def intro: keeps_requests_move)
  qed
next
  case (bump s j g)
  show ?case unfolding crash_bump_def
    by (rule keeps_requests_ok [OF bump(2)], rule keeps_requests_move [OF bump(1), where h' = "Bumped g"])
      (simp_all add: set_handler_def)
next
  case (fail s j g)
  have "requests_ok (fail_pending s)" using fail(2) by (rule requests_ok_fail)
  then show ?case unfolding crash_fail_def
    by (rule requests_ok_pointwise)
      (auto simp: request_ok_def fail_pending_def set_handler_def fail_waiters_def ended_def answerable_def
        split: option.splits request.splits)
next
  case (reap s j g code)
  note move = requests_ok_move [OF reap(2,1)]
  show ?case unfolding crash_reap_def
    by (auto simp: Let_def intro: move [where h' = Finished] move [where h' = "Sleeping code"] split: prod.splits)
next
  case (decide s j code)
  note move = requests_ok_move [OF decide(2,1)]
  show ?case unfolding crash_decide_def
    by (auto simp: Let_def terminal_def set_handler_def emit_def intro: move [where h' = Finished] move [where h' = Launching]
        split: prod.splits option.splits)
next
  case (launch s j b)
  note move = requests_ok_move [OF launch(2,1)]
  show ?case unfolding respawn_launch_def
    by (auto simp: Let_def terminal_def set_handler_def emit_def intro: move [where h' = Finished] move [where h' = "Launched g" for g])
next
  case (install s j g)
  note move = requests_ok_move [OF install(2,1)]
  have "running s = None" using holder_alone(1) [OF install(3,1)] by simp
  then show ?case unfolding respawn_install_def
    by (auto simp: set_handler_def abort_tasks_def kill_child_def intro: move [where h' = Finished] move [where h' = "Installed g"])
next
  case (ping s j g)
  have "requests_ok (register_request s)" using ping(2) by (rule requests_ok_register)
  then show ?case unfolding handshake_ping_def
    by (rule keeps_requests_ok) (use ping in \<open>auto intro: keeps_requests_move\<close>)
next
  case (pong s j g i r)
  note move = requests_ok_move [OF pong(3,1)]
  show ?case unfolding handshake_pong_def
    using respawn_failed_requests [OF pong(3,1)]
    by (auto intro: move [where h' = "Announced g"] split: sum.splits option.splits)
next
  case (boot s j g)
  have "requests_ok (register_request s)" using boot(2) by (rule requests_ok_register)
  then show ?case unfolding handshake_boot_def
    by (rule keeps_requests_ok) (use boot in \<open>auto intro: keeps_requests_move\<close>)
next
  case (ready s j g i r)
  note move = requests_ok_move [OF ready(3,1)]
  show ?case unfolding handshake_ready_def
    using respawn_failed_requests [OF ready(3,1)]
    by (auto simp: set_handler_def emit_def intro: move [where h' = Finished] split: sum.splits option.splits)
next
  case (exited s j g i)
  have "requests_ok (abandon_request i s)" using exited(3) by (simp add: abandon_request_def requests_ok_gone)
  then show ?case by (rule respawn_failed_requests [where h = "Booting g i"]) (use exited in \<open>simp_all add: abandon_request_def\<close>)
qed

lemma reader_round_requests:
  assumes "requests_ok s"
  shows "requests_ok (reader_round S now g line r s)"
proof -
  have same: "requests_ok t" if "keeps_requests s t" for t using assms that by (rule keeps_requests_ok)
  have set_r: "requests_ok (set_reader g r' s)" for r'
    by (rule same) (simp add: set_reader_def keeps_requests_def ended_def answerable_def)
  have "requests_ok (stop_reader g s)"
    by (rule keeps_requests_ok [OF requests_ok_trigger [OF keeps_requests_ok [OF requests_ok_fail [OF assms]]]])
      (auto simp: stop_reader_def Let_def keeps_requests_def ended_def answerable_def)
  moreover have "requests_ok (handle_notification now g n (set_reader g r' s))" for n r'
    by (rule keeps_requests_ok [OF set_r])
      (auto simp: handle_notification_def enqueue_notification_def Let_def keeps_requests_def ended_def
        answerable_def split: notification.splits)
  ultimately show ?thesis using set_r requests_ok_response [OF set_r]
    by (auto simp: reader_round_def Let_def split: sum.splits option.splits parsed_service_message.splits)
qed

lemma client_step_requests:
  assumes "client_step S s t" "requests_ok s" "owners_ok s"
  shows "requests_ok t"
  using assms
proof (induction rule: client_step.induct)
  case (handler s t)
  then show ?case by (rule handler_step_requests)
next
  case (request s)
  then show ?case by (intro requests_ok_register)
next
  case (send i sent s t)
  then show ?case
    by (auto simp: request_send_def requests_ok_gone intro: requests_ok_sent split: if_splits option.splits)
next
  case (answered i s t)
  then show ?case
    by (auto simp: request_answered_def requests_ok_resolve split: option.splits request.splits)
next
  case (timeout i s t)
  then show ?case
    by (auto simp: request_timeout_def requests_ok_gone split: option.splits request.splits)
next
  case (read now g line s t)
  then show ?case
    by (auto simp: read_line_def intro: reader_round_requests split: option.splits if_splits)
next
  case (beat g p s t)
  have "requests_ok (s\<lparr>heartbeats := h\<rparr>)" for h
    by (rule keeps_requests_ok [OF beat(2)]) (simp add: keeps_requests_def ended_def answerable_def)
  with beat show ?case
    by (auto simp: heartbeat_round_def intro: requests_ok_trigger split: option.splits ping_result.splits if_splits)
qed (rule keeps_requests_ok, assumption,
    simp add: keeps_requests_def ended_def answerable_def dispatch_notification_def kill_child_def)+

lemma reachable_requests: "reachable_client S v s \<Longrightarrow> requests_ok s"
proof (induction rule: reachable_client.induct)
  case start
  then show ?case by (simp add: requests_ok_def request_ok_def client_start_def)
next
  case (later s t)
  then show ?case using client_step_requests reachable_owners by blast
qed

end
