(* ===== verification/LinkOrigin.thy ===== *)
theory LinkOrigin
  imports LinkRequests
begin

text \<open>
  Where a notification comes from: everything in the queue carries the tag of the reader that put it
  there, over crashes and respawns, so the filter of the user interface passes only notifications of
  the current generation.
\<close>

section \<open>Notifications\<close>

text \<open>What is anywhere in the queue was enqueued by a reader with the tag of its generation.\<close>

fun producer_item :: "'a producer \<Rightarrow> 'a option" where
  "producer_item (Starting x) = Some x"
| "producer_item (Trying x b) = Some x"
| "producer_item (Waiting x b) = Some x"
| "producer_item Done = None"

definition link_items :: "'a link \<Rightarrow> 'a set" where
  "link_items l =
     set (delivered l) \<union> set (items (queue l)) \<union> {x. \<exists>p\<in>set (producers l). producer_item p = Some x}"

lemma producer_item_wake [simp]: "producer_item (wake_producer p) = producer_item p"
  by (cases p) auto

lemma link_items_update:
  "link_items (l\<lparr>producers := (producers l)[i := p]\<rparr>) \<subseteq> link_items l \<union> set_option (producer_item p)"
  by (auto simp: link_items_def dest!: set_update_subset_insert [THEN subsetD])

lemma link_items_work: "work_step l m \<Longrightarrow> link_items m \<subseteq> link_items l"
proof (elim work_stepE)
  fix i assume "producer_move i l = Some m"
  then show ?thesis
    by (fastforce simp: producer_move_def try_must_deliver_def link_items_def dest!: get_in_set
        dest: set_update_subset_insert [THEN subsetD]
        split: option.splits producer.splits bool.splits if_splits)
next
  assume "consumer_move l = Some m"
  then show ?thesis
    by (fastforce simp: consumer_move_def try_recv_def link_items_def notify_space_def
        split: consumer.splits bool.splits list.splits if_splits)
qed

lemma set_replace_slot: "replace_slot cls key x xs = Some ys \<Longrightarrow> set ys \<subseteq> insert x (set xs)"
  by (elim replace_slot_Some) auto

lemma link_items_enqueue: "link_items (enqueue cls x l) \<subseteq> insert x (link_items l)"
  by (auto simp: enqueue_def enqueue_coalesce_def enqueue_drop_def link_items_def Let_def
      dest: set_replace_slot in_set_dropD
      split: notification_class.splits option.splits if_splits prod.splits)

lemma link_items_cancel: "link_items (cancel_enqueue r l) \<subseteq> link_items l"
  using link_items_update [of l _ Done]
  by (auto simp: cancel_enqueue_def split: option.splits)

type_synonym enqueue_log = "(nat \<times> notification) list"

definition from_reader :: "enqueue_log \<Rightarrow> notification \<Rightarrow> nat \<Rightarrow> bool" where
  "from_reader log n g = (\<exists>m. (g, m) \<in> set log \<and> n = tag_notification_with_generation m g)"

definition dispatch_ok :: "enqueue_log \<Rightarrow> nat \<times> notification \<Rightarrow> bool" where
  "dispatch_ok log d = (\<exists>g. from_reader log (snd d) g \<and> (of_nat g :: u32) = of_nat (fst d))"

definition tags_ok :: "client \<Rightarrow> bool" where
  "tags_ok s =
     ((\<forall>n\<in>link_items (notifications s). \<exists>g. from_reader (enqueued s) n g) \<and>
      (\<forall>g\<in>fst ` set (enqueued s). g \<le> current_generation s) \<and>
      (\<forall>d\<in>set (dispatched s). fst d \<le> current_generation s \<and> dispatch_ok (enqueued s) d))"

text \<open>Steps that add nothing to the queue.\<close>

definition no_news :: "client \<Rightarrow> client \<Rightarrow> bool" where
  "no_news s t =
     (link_items (notifications t) \<subseteq> link_items (notifications s) \<and> enqueued t = enqueued s \<and>
      dispatched t = dispatched s \<and> current_generation s \<le> current_generation t)"

lemma tags_ok_no_news:
  assumes "tags_ok s" "no_news s t"
  shows "tags_ok t"
proof -
  have "current_generation s \<le> current_generation t" using assms(2) by (simp add: no_news_def)
  with assms show ?thesis
    unfolding tags_ok_def no_news_def by (metis (no_types, lifting) order_trans subsetD)
qed

lemma from_reader_append [simp]: "from_reader log n g \<Longrightarrow> from_reader (log @ more_log) n g"
  by (auto simp: from_reader_def)

lemma dispatch_ok_append: "dispatch_ok log d \<Longrightarrow> dispatch_ok (log @ more_log) d"
  unfolding dispatch_ok_def using from_reader_append by blast

lemma tags_ok_enqueue:
  assumes "tags_ok s" "g \<le> current_generation s"
  shows "tags_ok (enqueue_notification g n s)"
proof -
  let ?t = "enqueue_notification g n s" and ?x = "tag_notification_with_generation n g"
  have fields: "notifications ?t = enqueue classify_notification ?x (notifications s)"
    "enqueued ?t = enqueued s @ [(g, n)]" "dispatched ?t = dispatched s"
    "current_generation ?t = current_generation s"
    by (simp_all add: enqueue_notification_def Let_def)
  have "from_reader (enqueued ?t) ?x g" by (auto simp: from_reader_def fields)
  moreover have "\<exists>h. from_reader (enqueued ?t) y h" if "y \<in> link_items (notifications s)" for y
    using assms(1) that fields(2) unfolding tags_ok_def by (metis from_reader_append)
  ultimately have "\<forall>y\<in>link_items (notifications ?t). \<exists>h. from_reader (enqueued ?t) y h"
    using link_items_enqueue [of classify_notification ?x "notifications s"] fields(1) by auto
  moreover have "\<forall>h\<in>fst ` set (enqueued ?t). h \<le> current_generation ?t"
    using assms fields by (auto simp: tags_ok_def)
  moreover have "\<forall>d\<in>set (dispatched ?t). fst d \<le> current_generation ?t \<and> dispatch_ok (enqueued ?t) d"
    using assms(1) fields dispatch_ok_append unfolding tags_ok_def by metis
  ultimately show ?thesis unfolding tags_ok_def by blast
qed

lemma tags_ok_dispatch:
  assumes "tags_ok s" "n \<in> set (delivered (notifications s))"
  shows "tags_ok (dispatch_notification n s)"
proof (cases "notification_should_dispatch n (current_generation s)")
  case True
  have "n \<in> link_items (notifications s)" using assms(2) by (simp add: link_items_def)
  then obtain g where g: "from_reader (enqueued s) n g" using assms(1) by (auto simp: tags_ok_def)
  then have "notification_generation n = Some (of_nat g)"
    by (auto simp: from_reader_def tag_notification_with_generation_def)
  with True have "(of_nat g :: u32) = of_nat (current_generation s)"
    by (simp add: notification_should_dispatch_def notification_generation_should_dispatch_def)
  with g have "dispatch_ok (enqueued s) (current_generation s, n)" by (auto simp: dispatch_ok_def)
  with assms(1) True show ?thesis by (auto simp: tags_ok_def dispatch_notification_def)
qed (use assms(1) in \<open>simp add: dispatch_notification_def\<close>)

lemma news_fields [simp]:
  "notifications (set_handler j h s) = notifications s" "enqueued (set_handler j h s) = enqueued s" "dispatched (set_handler j h s) = dispatched s"
  "notifications (emit es s) = notifications s" "enqueued (emit es s) = enqueued s" "dispatched (emit es s) = dispatched s"
  "notifications (fail_pending s) = notifications s" "enqueued (fail_pending s) = enqueued s" "dispatched (fail_pending s) = dispatched s"
  "notifications (fail_waiters s) = notifications s" "enqueued (fail_waiters s) = enqueued s" "dispatched (fail_waiters s) = dispatched s"
  "notifications (kill_child g s) = notifications s" "enqueued (kill_child g s) = enqueued s" "dispatched (kill_child g s) = dispatched s"
  "notifications (register_request s) = notifications s" "enqueued (register_request s) = enqueued s" "dispatched (register_request s) = dispatched s"
  "notifications (resolve_request i r s) = notifications s" "enqueued (resolve_request i r s) = enqueued s" "dispatched (resolve_request i r s) = dispatched s"
  "notifications (drop_guard i s) = notifications s" "enqueued (drop_guard i s) = enqueued s" "dispatched (drop_guard i s) = dispatched s"
  "notifications (trigger_crash_handler g s) = notifications s" "enqueued (trigger_crash_handler g s) = enqueued s" "dispatched (trigger_crash_handler g s) = dispatched s"
  "notifications (abandon_request i s) = notifications s" "enqueued (abandon_request i s) = enqueued s" "dispatched (abandon_request i s) = dispatched s"
  "enqueued (abort_tasks g s) = enqueued s" "dispatched (abort_tasks g s) = dispatched s"
  "notifications (abort_tasks g s) = cancel_enqueue (readers s g) (notifications s)"
  by (simp_all add: set_handler_def emit_def fail_pending_def fail_waiters_def abort_tasks_def
      kill_child_def register_request_def resolve_request_def drop_guard_def trigger_crash_handler_def abandon_request_def)

lemma no_news_respawn_failed: "no_news s (respawn_failed j e s)"
  using link_items_cancel
  by (auto simp: respawn_failed_def terminal_def tear_down_installed_state_def no_news_def split: option.splits)

lemma handler_step_no_news:
  assumes "handler_step S s t" "owners_ok s"
  shows "no_news s t"
  using assms
proof (induction rule: handler_step.induct)
  case (reap s j g code)
  then show ?case using link_items_cancel
    by (auto simp: crash_reap_def Let_def no_news_def kill_child_def split: prod.splits)
next
  case (install s j g)
  then have "g = current_generation s" by (auto simp: owners_ok_def dest: get_in_set)
  then show ?case using link_items_cancel by (auto simp: respawn_install_def no_news_def)
next
  case (pong s j g i r)
  then show ?case
    using no_news_respawn_failed by (auto simp: handshake_pong_def no_news_def split: sum.splits option.splits)
next
  case (ready s j g i r)
  then show ?case
    using no_news_respawn_failed by (auto simp: handshake_ready_def no_news_def split: sum.splits option.splits)
next
  case (exited s j g i)
  have "no_news (abandon_request i s) (respawn_failed j ServiceCrashed (abandon_request i s))"
    by (rule no_news_respawn_failed)
  then show ?case by (simp add: no_news_def abandon_request_def)
qed (auto simp: crash_check_def crash_take_def crash_bump_def crash_fail_def crash_decide_def respawn_launch_def
    handshake_ping_def handshake_boot_def terminal_def no_news_def Let_def split: option.splits prod.splits)

lemma reader_round_tags:
  assumes "tags_ok s"
  shows "tags_ok (reader_round S now g line r s)"
proof -
  have quiet: "tags_ok t" if "no_news s t" for t using assms that by (rule tags_ok_no_news)
  have "tags_ok (handle_notification now g n (set_reader g r' s))" for n r'
  proof -
    have ok: "tags_ok (set_reader g r' s)" by (rule quiet) (simp add: set_reader_def no_news_def)
    then have "g = current_generation s \<Longrightarrow> tags_ok (enqueue_notification g n (set_reader g r' s))"
      by (rule tags_ok_enqueue) (simp add: set_reader_def)
    moreover have "tags_ok t" if "no_news (set_reader g r' s) t" for t using ok that by (rule tags_ok_no_news)
    ultimately show ?thesis using ok
      by (auto simp: handle_notification_def reader_should_enqueue_def no_news_def set_reader_def
          split: notification.splits)
  qed
  moreover have "no_news s (dispatch_response S i resp (set_reader g r' s))" for i resp r'
    by (simp add: dispatch_response_def set_reader_def no_news_def)
  moreover have "no_news s (set_reader g r' s)" "no_news s (stop_reader g s)" for r'
    by (simp_all add: set_reader_def stop_reader_def Let_def no_news_def)
  ultimately show ?thesis using quiet
    by (auto simp: reader_round_def Let_def split: sum.splits option.splits parsed_service_message.splits)
qed

lemma client_step_tags:
  assumes "client_step S s t" "tags_ok s" "owners_ok s"
  shows "tags_ok t"
  using assms
proof (induction rule: client_step.induct)
  case (handler s t)
  then show ?case using handler_step_no_news tags_ok_no_news by blast
next
  case (read now g line s t)
  then show ?case by (auto simp: read_line_def intro: reader_round_tags split: option.splits if_splits)
next
  case (queue_work s l)
  have "no_news s (s\<lparr>notifications := l\<rparr>)" using link_items_work [OF queue_work(1)] by (simp add: no_news_def)
  with queue_work(2) show ?case by (rule tags_ok_no_news)
next
  case (dispatch n s)
  then show ?case by (intro tags_ok_dispatch)
qed (erule tags_ok_no_news, auto simp: no_news_def request_send_def request_answered_def request_timeout_def heartbeat_round_def
    split: if_splits option.splits request.splits ping_result.splits)+

lemma reachable_tags: "reachable_client S v s \<Longrightarrow> tags_ok s"
proof (induction rule: reachable_client.induct)
  case start
  then show ?case by (simp add: tags_ok_def client_start_def link_new_def link_items_def queue_new_def)
next
  case (later s t)
  then show ?case using client_step_tags reachable_owners by blast
qed

end
