(* ===== verification/LinkProperties.thy ===== *)
theory LinkProperties
  imports LinkOrigin
begin

text \<open>
  The properties of the link between the user interface and the service: lines and messages on the
  pipe, the queue of notifications, the waiters for the end of a run, and the client over crashes
  and respawns of the service.
\<close>

section \<open>Lines\<close>

text \<open>
  C23: However the pipe cuts its bytes into chunks, reading to the end gives the lines of the bytes:
  one string for each line that fits and is valid UTF-8, and exactly one error for each line that is
  too long or badly encoded; the line after an error is not affected.
\<close>

theorem lines_independent_of_chunks:
  assumes "clean_pipe src"
  shows "read_lines (line_reader_new src n) = frames n (pipe_bytes src)"
  using read_lines_frames [of "line_reader_new src n"] assms by simp

theorem lines_independent_of_chunks_witness:
  "read_lines (line_reader_new [Inr ''ab'', Inr ''c'' , Inr [CHR ''d'', CHR 0x0A, CHR ''x'', CHR 0x0A], Inr ''y''] 3) =
     [Inl TooLarge, Inr ''x'', Inr ''y'']"
proof -
  have "frames 3 [CHR ''a'', CHR ''b'', CHR ''c'', CHR ''d'', CHR 0x0A, CHR ''x'', CHR 0x0A, CHR ''y''] =
      [Inl TooLarge, Inr ''x'', Inr ''y'']"
    by code_simp
  then show ?thesis
    using lines_independent_of_chunks
      [of "[Inr ''ab'', Inr ''c'' , Inr [CHR ''d'', CHR 0x0A, CHR ''x'', CHR 0x0A], Inr ''y'']" 3]
    by (simp add: clean_pipe_def pipe_bytes_def)
qed

text \<open>
  C24: Messages that were encoded and written one after the other are read back as they were, in
  order, whatever chunks the pipe delivers.
\<close>

theorem messages_roundtrip:
  assumes "one_line_utf8 to_vec" "list_all2 (\<lambda>v b. encode_message to_vec v = Inr b) vs bs"
    and "clean_pipe src" "pipe_bytes src = concat bs"
  shows "read_lines (line_reader_new src MAX_FRAME_BYTES) = map (\<lambda>v. Inr (the (to_vec v))) vs"
  using read_lines_frames [of "line_reader_new src MAX_FRAME_BYTES"] assms frames_encoded [OF assms(1,2)]
  by simp

theorem messages_roundtrip_witness:
  "read_lines (line_reader_new
     [Inr ''{}'', Inr [CHR 0x0A, CHR ''['', CHR '']''], Inr [CHR 0x0A]] MAX_FRAME_BYTES) = [Inr ''{}'', Inr ''[]'']"
proof -
  define to_vec where "to_vec = (\<lambda>b. Some (if b then ''{}'' else ''[]''))"
  have "one_line_utf8 to_vec"
    by (auto simp: one_line_utf8_def to_vec_def newline_def in_range_def of_char_def)
  moreover have "list_all2 (\<lambda>v b. encode_message to_vec v = Inr b) [True, False]
      [''{}'' @ [newline], ''[]'' @ [newline]]"
    by (simp add: encode_message_def to_vec_def MAX_FRAME_BYTES_def)
  ultimately show ?thesis
    using messages_roundtrip [of to_vec "[True, False]" "[''{}'' @ [newline], ''[]'' @ [newline]]"
        "[Inr ''{}'', Inr [CHR 0x0A, CHR ''['', CHR '']''], Inr [CHR 0x0A]]"]
    by (simp add: clean_pipe_def pipe_bytes_def newline_def to_vec_def)
qed

text \<open>
  After any number of calls on any pipe, read errors included, the reader holds at most as many
  bytes of an unfinished line as its limit allows.
\<close>

theorem reader_memory_bounded:
  "length (buffer (((\<lambda>r. snd (next_line r)) ^^ k) (line_reader_new src n))) \<le> n"
proof -
  have "reader_ok (((\<lambda>r. snd (next_line r)) ^^ k) (line_reader_new src n)) \<and>
      max_len (((\<lambda>r. snd (next_line r)) ^^ k) (line_reader_new src n)) = n"
  proof (induction k)
    case (Suc k)
    then show ?case using next_line_ok [OF surjective_pairing] by simp
  qed simp
  then show ?thesis by (simp add: reader_ok_def)
qed

section \<open>The queue of notifications\<close>

text \<open>A run with one notification that must be delivered, as far as the queue is at rest again.\<close>

definition sample_notification :: notification where
  "sample_notification = IndexCommitted \<lparr>service_generation = 0\<rparr>"

definition sample_states :: "nat \<Rightarrow> notification link" where
  "sample_states k =
     ([enqueue classify_notification sample_notification (link_new 1)] @
      map (\<lambda>(q, ps, c, p, ds).
             \<lparr>queue = \<lparr>items = q, closed = False, capacity = 1\<rparr>, producers = ps, consumer = c, permit = p,
              delivered = ds, accepted = if ps = [Done] then [sample_notification] else []\<rparr>)
        [([], [Trying sample_notification False], Calling, False, []),
         ([sample_notification], [Done], Calling, True, []),
         ([sample_notification], [Done], Taking False, True, []),
         ([], [Done], Calling, True, [sample_notification]),
         ([], [Done], Taking False, True, [sample_notification]),
         ([], [Done], Polling False, True, [sample_notification]),
         ([], [Done], Parked True, False, [sample_notification]),
         ([], [Done], Calling, False, [sample_notification]),
         ([], [Done], Taking False, False, [sample_notification]),
         ([], [Done], Polling False, False, [sample_notification]),
         ([], [Done], Parked False, False, [sample_notification])]) ! k"

lemma sample_steps:
  "work_step (sample_states 0) (sample_states 1)" "work_step (sample_states 1) (sample_states 2)"
  "work_step (sample_states 2) (sample_states 3)" "work_step (sample_states 3) (sample_states 4)"
  "work_step (sample_states 4) (sample_states 5)" "work_step (sample_states 5) (sample_states 6)"
  "work_step (sample_states 6) (sample_states 7)" "work_step (sample_states 7) (sample_states 8)"
  "work_step (sample_states 8) (sample_states 9)" "work_step (sample_states 9) (sample_states 10)"
  "work_step (sample_states 10) (sample_states 11)"
  by (rule produce [where i = 0], simp add: sample_states_def enqueue_def link_new_def queue_new_def
        sample_notification_def producer_move_def try_must_deliver_def notify_item_def get_def)
     (rule produce [where i = 0], simp add: sample_states_def producer_move_def try_must_deliver_def
        notify_item_def get_def,
      (rule take_item, simp add: sample_states_def consumer_move_def try_recv_def notify_space_def)+)

lemma sample_reachable: "reachable_link classify_notification 1 (sample_states 0)"
  using reachable_link.next_state [OF reachable_link.start link_step.call, of classify_notification 1 sample_notification] by (simp add: sample_states_def)

lemma sample_run: "(work_step ^^ 3) (sample_states 0) (sample_states 3)"
    "(work_step ^^ 11) (sample_states 0) (sample_states 11)"
  using sample_steps by (simp_all add: eval_nat_numeral) (blast intro: relcomppI)+

text \<open>
  C16: In every state the queue of the application can reach, the notifications that must be
  delivered have been delivered or are still queued, in the order in which the queue took them: none
  is lost, doubled or overtaken, whatever else is enqueued, coalesced or woken in between.
\<close>

theorem must_deliver_in_order:
  assumes "reachable_link classify_notification n s"
  shows "must_items classify_notification (delivered s) @ must_items classify_notification (items (queue s)) = accepted s"
  using reachable_in_order [OF no_drops_notifications assms] by (simp add: in_order_def)

theorem must_deliver_in_order_witness:
  "must_items classify_notification (items (queue (sample_states 3))) = [sample_notification]"
  using must_deliver_in_order [OF work_reachable [OF sample_run(1) sample_reachable]]
  by (simp add: sample_states_def)

text \<open>
  C6: From every reachable state, without further calls, the producers and the consumer come to
  rest after a bounded number of steps, and then every call of enqueue has returned, the queue is
  empty, and everything it took that must be delivered has been delivered: no wake-up is lost.
\<close>

theorem queue_drains:
  assumes "reachable_link classify_notification n s" "0 < n" "(work_step ^^ k) s t"
  shows "k \<le> work_left s \<and>
    ((\<nexists>u. work_step t u) \<longrightarrow>
       items (queue t) = [] \<and> (\<forall>p\<in>set (producers t). p = Done) \<and>
       must_items classify_notification (delivered t) = accepted t)"
proof -
  have r: "reachable_link classify_notification n t" using assms(3,1) by (rule work_reachable)
  have "in_order classify_notification t" using no_drops_notifications r by (rule reachable_in_order)
  then show ?thesis
    using work_bounded [OF assms(3)] stuck_drained [OF reachable_link_ok [OF r] assms(2)]
    by (auto simp: in_order_def)
qed

theorem queue_drains_witness:
  "11 \<le> work_left (sample_states 0) \<and> must_items classify_notification (delivered (sample_states 11)) = [sample_notification]"
proof -
  have rest: "\<nexists>u. work_step (sample_states 11) u"
  proof
    assume "\<exists>u. work_step (sample_states 11) u"
    then obtain u where "work_step (sample_states 11) u" by blast
    then show False
    proof (cases rule: work_step.cases)
      case (produce i)
      then show False by (cases i) (simp_all add: sample_states_def producer_move_def get_def)
    qed (simp add: sample_states_def consumer_move_def)
  qed
  then show ?thesis
    using queue_drains [OF sample_reachable _ sample_run(2)] by (simp add: sample_states_def)
qed

section \<open>Waiters for the end of a run\<close>



text \<open>
  C40: The second waiter that subscribes after the completion of its run gets nothing: the first one
  took the kept result, and the second waits for a completion that has already come.
\<close>

theorem second_late_waiter_waits:
  assumes "slots (waiter_calls as) k = None" "i \<noteq> j" "received (waiter_calls as) j = None"
  shows "received (waiter_calls (as @ [(t, Route k r), (t, Subscribe i k), (t, Subscribe j k)])) i = Some (Some r) \<and>
    received (waiter_calls (as @ [(t, Route k r), (t, Subscribe i k), (t, Subscribe j k)])) j = None \<and>
    in_slot (waiter_calls (as @ [(t, Route k r), (t, Subscribe i k), (t, Subscribe j k)])) k j"
  using assms
  by (simp add: route_completed_def subscribe_or_consume_def subscribe_def sweep_latched_completed_def
      in_slot_def Let_def LATCHED_COMPLETED_TTL_def)

theorem second_late_waiter_waits_witness:
  "received (waiter_calls [(5, Route ''run'' Completed), (5, Subscribe 1 ''run''), (5, Subscribe 2 ''run'')]) 2 = None"
  using second_late_waiter_waits [of "[]" "''run''" 1 2 5 Completed]
  by (simp add: waiter_calls_def waiters_new_def)

section \<open>Crashes\<close>

text \<open>A run in which a request is sent, a notification applied, and the service crashes.\<close>

definition sample_serde :: serde where
  "sample_serde =
     \<lparr>from_str = (\<lambda>l. Inr \<lparr>jsonrpc = Some ''2.0'', raw_id = if l = ''note'' then None else Some (JNumber (PosInt 1)),
        raw_method = if l = ''note'' then Some ''index.committed'' else None, raw_params = None, raw_result = None,
        raw_error = None\<rparr>),
      from_value = (\<lambda>v. Inr sample_notification), error_from_value = (\<lambda>v. None),
      ping_version = (\<lambda>v. Some 1), schema_version = (\<lambda>v. Some 5)\<rparr>"

lemmas step_simps = client_start_def register_request_def request_send_def get_def read_line_def reader_round_def
  handle_notification_def enqueue_notification_def
  reader_should_enqueue_def tag_notification_with_generation_def sample_notification_def enqueue_def
  link_new_def queue_new_def NOTIFICATION_QUEUE_CAP_def producer_move_def try_must_deliver_def consumer_move_def
  try_recv_def notify_space_def notify_item_def dispatch_notification_def notification_should_dispatch_def
  notification_generation_should_dispatch_def set_generation_def generation_def kill_child_def stop_reader_def
  trigger_crash_handler_def fail_waiters_def fail_pending_def crash_check_def crash_take_def crash_bump_def crash_fail_def
  set_handler_def set_reader_def Let_def ended_def handler_act_def

lemmas respawn_simps = crash_reap_def abort_tasks_def cancel_enqueue_def advance_respawn_backoff_def
  crash_decide_def record_consecutive_crash_and_check_def respawn_launch_def respawn_install_def
  handshake_ping_def handshake_pong_def handshake_boot_def handshake_ready_def respawn_failed_def terminal_def
  tear_down_installed_state_def emit_def request_answered_def resolve_request_def drop_guard_def dispatch_response_def
  CRASHLOOP_THRESHOLD_def

definition sample_run_actions :: "client_action list" where
  "sample_run_actions =
     [Request, Send 0, Read 0 1 (Inr (Some ''note'')), Produce 0, Produce 0, Consume, Consume, Dispatch 0,
      Die 1, Read 0 1 (Inr None), Handle 0 None True, Handle 0 None True, Handle 0 None True,
      Handle 0 None True]"

lemma sample_crash:
  "\<exists>s. client_run sample_serde sample_run_actions (client_start 5) = Some s \<and> \<not> ended s \<and>
     get (requests s) 0 = Some (Sent 1) \<and> running s = None \<and> handlers s = [Reaping 1] \<and>
     current_generation s = 2 \<and>
     dispatched s = [(1, tag_notification_with_generation sample_notification 1)]"
  by (simp add: sample_run_actions_def step_simps sample_serde_def parse_service_message_def require_jsonrpc_def)

text \<open>
  C5: Over all interleavings of crash handlers, readers, heartbeats, requests and shutdowns there is
  at most one service process, at most one owner of the running service, and what is installed is of
  the current generation.
\<close>

theorem one_service_process:
  assumes "reachable_client S v s"
  shows "length (children s) \<le> 1 \<and> owners s \<le> 1 \<and>
    (\<forall>g. running s = Some g \<longrightarrow> g = current_generation s)"
  using reachable_owners [OF assms] owners_one_child by (auto simp: owners_ok_def)

theorem one_service_process_witness:
  "\<exists>s. reachable_client sample_serde 5 s \<and> handlers s = [Reaping 1] \<and> length (children s) \<le> 1 \<and> owners s \<le> 1"
proof -
  obtain s where s: "client_run sample_serde sample_run_actions (client_start 5) = Some s" "handlers s = [Reaping 1]"
    using sample_crash by blast
  with one_service_process [OF client_run_reaches [OF s(1)]] client_run_reaches [OF s(1)]
  show ?thesis by auto
qed



text \<open>
  C14: While the client has not given up, no request hangs on a dead service: a request that was
  sent to a generation has its answer as soon as that generation is no longer installed and its
  crash handler has passed the point where it fails the pending requests.
\<close>

theorem crash_answers_requests:
  assumes "reachable_client S v s" "\<not> ended s" "get (requests s) i = Some (Sent g)"
    and "running s \<noteq> Some g" "Took g \<notin> set (handlers s)" "Bumped g \<notin> set (handlers s)"
  shows "answers s i \<noteq> None"
proof -
  have "request_ok s i" using reachable_requests [OF assms(1)] by (simp add: requests_ok_def)
  with assms show ?thesis by (auto simp: request_ok_def answerable_def)
qed

theorem crash_answers_requests_witness:
  "\<exists>s. reachable_client sample_serde 5 s \<and> get (requests s) 0 = Some (Sent 1) \<and> answers s 0 \<noteq> None"
proof -
  obtain s where s: "client_run sample_serde sample_run_actions (client_start 5) = Some s" "\<not> ended s"
    "get (requests s) 0 = Some (Sent 1)" "running s = None" "handlers s = [Reaping 1]"
    using sample_crash by blast
  with crash_answers_requests [OF client_run_reaches [OF s(1)], of 0 1] client_run_reaches [OF s(1)]
  show ?thesis by auto
qed

text \<open>
  C15: A notification is applied to the user interface only if a reader of the current generation
  read it: nothing of a service that crashed is applied after its crash was handled, however late
  its reader stops and whatever is still queued.
\<close>

theorem dispatch_only_current:
  assumes "reachable_client S v s" "(c, n) \<in> set (dispatched s)" "current_generation s < 2 ^ 32"
  shows "\<exists>m. (c, m) \<in> set (enqueued s) \<and> n = tag_notification_with_generation m c"
proof -
  have ok: "tags_ok s" using assms(1) by (rule reachable_tags)
  then have "c \<le> current_generation s" "dispatch_ok (enqueued s) (c, n)"
    using assms(2) by (auto simp: tags_ok_def)
  then obtain g where g: "from_reader (enqueued s) n g" "(of_nat g :: u32) = of_nat c"
    by (auto simp: dispatch_ok_def)
  then have "g \<le> current_generation s"
    using ok by (force simp: from_reader_def tags_ok_def)
  with g(2) \<open>c \<le> current_generation s\<close> assms(3) have "g = c"
    by (simp add: of_nat_inverse word_of_nat_eq_iff take_bit_nat_eq_self)
  with g(1) show ?thesis by (auto simp: from_reader_def)
qed

theorem dispatch_only_current_witness:
  "\<exists>s. reachable_client sample_serde 5 s \<and> current_generation s = 2 \<and> fst ` set (dispatched s) = {1} \<and>
     (\<exists>m. (1, m) \<in> set (enqueued s))"
proof -
  obtain s where s: "client_run sample_serde sample_run_actions (client_start 5) = Some s"
    "current_generation s = 2" "dispatched s = [(1, tag_notification_with_generation sample_notification 1)]"
    using sample_crash by blast
  with dispatch_only_current [OF client_run_reaches [OF s(1)], of 1] client_run_reaches [OF s(1)]
  show ?thesis by auto
qed

text \<open>
  C37: When the new service crashes between its answer to the ping and the request for its boot, the
  handler of that crash can take the installed state first; the handshake then finds no state,
  reports that it is not connected, and the client gives up after a single crash, though a crash in
  the handshake is meant to be handled like any other.
\<close>

theorem crash_in_handshake_ends_client:
  assumes "parse_service_message S line = Inr (Response (Some 1) (ResponseSuccess pong))"
    and "ping_version S pong = Some PROTOCOL_VERSION"
  shows "\<exists>s. reachable_client S v s \<and> Terminal NotConnected \<in> set (events s) \<and>
    consecutive_crashes s = 1 \<and> \<not> is_shutting_down s \<and> Took 2 \<in> set (handlers s)"
proof -
  define h where "h = (\<lambda>j. Handle j None True)"
  define as where "as = [Die 1, Read 0 1 (Inr None), h 0, h 0, h 0, h 0, h 0, h 0, h 0, h 0, h 0,
     Send 0, Read 0 2 (Inr (Some line)), Answer 0, h 0, Die 2, Read 0 2 (Inr None), h 1, h 1, h 0, Send 1, h 0]"
  have "\<exists>s. client_run S as (client_start v) = Some s \<and> Terminal NotConnected \<in> set (events s) \<and>
    consecutive_crashes s = 1 \<and> \<not> is_shutting_down s \<and> Took 2 \<in> set (handlers s)"
    using assms
    by (simp add: as_def h_def step_simps respawn_simps)
  then show ?thesis using client_run_reaches by blast
qed

theorem crash_in_handshake_ends_client_witness:
  "\<exists>s. reachable_client sample_serde 5 s \<and> Terminal NotConnected \<in> set (events s)"
  using crash_in_handshake_ends_client [of sample_serde "''pong''" JNull 5]
  by (auto simp: sample_serde_def parse_service_message_def require_jsonrpc_def PROTOCOL_VERSION_def)

end
