(* ===== verification/KeyIds.thy ===== *)
theory KeyIds
  imports RustStr
begin

text \<open>
  The commands of the application (\<^verbatim>\<open>crates/cmdk/src/id.rs\<close>) and the stable names they have in files.
\<close>

datatype (plugins only: size) command_id =
    NavNext | NavPrev | NavOpen | NavMsgNext | NavMsgPrev | NavGoInbox | NavGoStarred |
    NavGoSent | NavGoDrafts | NavGoSnoozed | NavGoTrash | NavGoAllMail | NavGoPrimary |
    NavGoUpdates | NavGoPromotions | NavGoSocial | NavGoNewsletters | NavGoTasks |
    NavGoAttachments | NavEscape | NavigateToLabel | EmailArchive | EmailTrash |
    EmailPermanentDelete | EmailSpam | EmailMarkRead | EmailStar | EmailPin | EmailMute |
    EmailUnsubscribe | EmailMoveToFolder | EmailAddLabel | EmailRemoveLabel | EmailSnooze |
    EmailSelectAll | EmailSelectFromHere | ComposeNew | ComposeReply | ComposeReplyAll |
    ComposeForward | TaskCreate | TaskCreateFromEmail | TaskTogglePanel | TaskViewAll |
    ViewToggleSidebar | ViewSetThemeLight | ViewSetThemeDark | ViewSetThemeSystem |
    ViewToggleTaskPanel | ViewReadingPaneRight | ViewReadingPaneBottom | ViewReadingPaneHidden |
    CalendarToggle | SwitchToCalendar | SwitchToMail | CalendarViewDay | CalendarViewWorkWeek |
    CalendarViewWeek | CalendarViewMonth | CalendarToday | CalendarCreateEvent | CalendarPopOut |
    AppSearch | AppAskAi | AppHelp | AppSyncFolder | AppOpenPalette | Undo | SmartFolderSave |
    PinnedSearchesClearAll | AppRebuildSearchIndex

definition TABLE :: "(command_id \<times> string) list" where
  "TABLE =
     [(NavNext, ''nav.next''), (NavPrev, ''nav.prev''), (NavOpen, ''nav.open''),
      (NavMsgNext, ''nav.msgNext''), (NavMsgPrev, ''nav.msgPrev''),
      (NavGoInbox, ''nav.goInbox''), (NavGoStarred, ''nav.goStarred''),
      (NavGoSent, ''nav.goSent''), (NavGoDrafts, ''nav.goDrafts''),
      (NavGoSnoozed, ''nav.goSnoozed''), (NavGoTrash, ''nav.goTrash''),
      (NavGoAllMail, ''nav.goAllMail''), (NavGoPrimary, ''nav.goPrimary''),
      (NavGoUpdates, ''nav.goUpdates''), (NavGoPromotions, ''nav.goPromotions''),
      (NavGoSocial, ''nav.goSocial''), (NavGoNewsletters, ''nav.goNewsletters''),
      (NavGoTasks, ''nav.goTasks''), (NavGoAttachments, ''nav.goAttachments''),
      (NavEscape, ''nav.escape''), (NavigateToLabel, ''nav.goLabel''),
      (EmailArchive, ''email.archive''), (EmailTrash, ''email.trash''),
      (EmailPermanentDelete, ''email.permanentDelete''), (EmailSpam, ''email.spam''),
      (EmailMarkRead, ''email.markRead''), (EmailStar, ''email.star''),
      (EmailPin, ''email.pin''), (EmailMute, ''email.mute''),
      (EmailUnsubscribe, ''email.unsubscribe''), (EmailMoveToFolder, ''email.moveToFolder''),
      (EmailAddLabel, ''email.addLabel''), (EmailRemoveLabel, ''email.removeLabel''),
      (EmailSnooze, ''email.snooze''), (EmailSelectAll, ''email.selectAll''),
      (EmailSelectFromHere, ''email.selectFromHere''), (ComposeNew, ''compose.new''),
      (ComposeReply, ''compose.reply''), (ComposeReplyAll, ''compose.replyAll''),
      (ComposeForward, ''compose.forward''), (TaskCreate, ''task.create''),
      (TaskCreateFromEmail, ''task.createFromEmail''), (TaskTogglePanel, ''task.togglePanel''),
      (TaskViewAll, ''task.viewAll''), (ViewToggleSidebar, ''view.toggleSidebar''),
      (ViewSetThemeLight, ''view.setThemeLight''), (ViewSetThemeDark, ''view.setThemeDark''),
      (ViewSetThemeSystem, ''view.setThemeSystem''),
      (ViewToggleTaskPanel, ''view.toggleTaskPanel''),
      (ViewReadingPaneRight, ''view.readingPaneRight''),
      (ViewReadingPaneBottom, ''view.readingPaneBottom''),
      (ViewReadingPaneHidden, ''view.readingPaneHidden''), (CalendarToggle, ''calendar.toggle''),
      (CalendarViewDay, ''calendar.viewDay''), (CalendarViewWorkWeek, ''calendar.viewWorkWeek''),
      (CalendarViewWeek, ''calendar.viewWeek''), (CalendarViewMonth, ''calendar.viewMonth''),
      (CalendarToday, ''calendar.today''), (CalendarCreateEvent, ''calendar.createEvent''),
      (CalendarPopOut, ''calendar.popOut''), (SwitchToCalendar, ''calendar.switchTo''),
      (SwitchToMail, ''app.switchToMail''), (AppSearch, ''app.search''),
      (AppAskAi, ''app.askAi''), (AppHelp, ''app.help''), (AppSyncFolder, ''app.syncFolder''),
      (AppOpenPalette, ''app.openPalette''), (Undo, ''app.undo''),
      (SmartFolderSave, ''smartFolder.save''),
      (PinnedSearchesClearAll, ''pinnedSearches.clearAll''),
      (AppRebuildSearchIndex, ''app.rebuildSearchIndex'')]"

definition command_id_as_str :: "command_id \<Rightarrow> string" where
  "command_id_as_str i =
     (case List.find (\<lambda>(j, s). j = i) TABLE of Some (j, s) \<Rightarrow> s | None \<Rightarrow> ''unknown'')"

definition command_id_parse :: "string \<Rightarrow> command_id option" where
  "command_id_parse value = map_option fst (List.find (\<lambda>(j, s). s = value) TABLE)"

definition ALL_IDS :: "command_id list" where
  "ALL_IDS =
     [NavNext, NavPrev, NavOpen, NavMsgNext, NavMsgPrev, NavGoInbox, NavGoStarred, NavGoSent,
      NavGoDrafts, NavGoSnoozed, NavGoTrash, NavGoAllMail, NavGoPrimary, NavGoUpdates,
      NavGoPromotions, NavGoSocial, NavGoNewsletters, NavGoTasks, NavGoAttachments, NavEscape,
      NavigateToLabel, EmailArchive, EmailTrash, EmailPermanentDelete, EmailSpam, EmailMarkRead,
      EmailStar, EmailPin, EmailMute, EmailUnsubscribe, EmailMoveToFolder, EmailAddLabel,
      EmailRemoveLabel, EmailSnooze, EmailSelectAll, EmailSelectFromHere, ComposeNew,
      ComposeReply, ComposeReplyAll, ComposeForward, TaskCreate, TaskCreateFromEmail,
      TaskTogglePanel, TaskViewAll, ViewToggleSidebar, ViewSetThemeLight, ViewSetThemeDark,
      ViewSetThemeSystem, ViewToggleTaskPanel, ViewReadingPaneRight, ViewReadingPaneBottom,
      ViewReadingPaneHidden, CalendarToggle, CalendarViewDay, CalendarViewWorkWeek,
      CalendarViewWeek, CalendarViewMonth, CalendarToday, CalendarCreateEvent, CalendarPopOut,
      SwitchToCalendar, SwitchToMail, AppSearch, AppAskAi, AppHelp, AppSyncFolder,
      AppOpenPalette, Undo, SmartFolderSave, PinnedSearchesClearAll, AppRebuildSearchIndex]"

text \<open>The table names every command once, and no name is used twice.\<close>

primrec command_name :: "command_id \<Rightarrow> string" where
  "command_name NavNext = ''nav.next''"
| "command_name NavPrev = ''nav.prev''"
| "command_name NavOpen = ''nav.open''"
| "command_name NavMsgNext = ''nav.msgNext''"
| "command_name NavMsgPrev = ''nav.msgPrev''"
| "command_name NavGoInbox = ''nav.goInbox''"
| "command_name NavGoStarred = ''nav.goStarred''"
| "command_name NavGoSent = ''nav.goSent''"
| "command_name NavGoDrafts = ''nav.goDrafts''"
| "command_name NavGoSnoozed = ''nav.goSnoozed''"
| "command_name NavGoTrash = ''nav.goTrash''"
| "command_name NavGoAllMail = ''nav.goAllMail''"
| "command_name NavGoPrimary = ''nav.goPrimary''"
| "command_name NavGoUpdates = ''nav.goUpdates''"
| "command_name NavGoPromotions = ''nav.goPromotions''"
| "command_name NavGoSocial = ''nav.goSocial''"
| "command_name NavGoNewsletters = ''nav.goNewsletters''"
| "command_name NavGoTasks = ''nav.goTasks''"
| "command_name NavGoAttachments = ''nav.goAttachments''"
| "command_name NavEscape = ''nav.escape''"
| "command_name NavigateToLabel = ''nav.goLabel''"
| "command_name EmailArchive = ''email.archive''"
| "command_name EmailTrash = ''email.trash''"
| "command_name EmailPermanentDelete = ''email.permanentDelete''"
| "command_name EmailSpam = ''email.spam''"
| "command_name EmailMarkRead = ''email.markRead''"
| "command_name EmailStar = ''email.star''"
| "command_name EmailPin = ''email.pin''"
| "command_name EmailMute = ''email.mute''"
| "command_name EmailUnsubscribe = ''email.unsubscribe''"
| "command_name EmailMoveToFolder = ''email.moveToFolder''"
| "command_name EmailAddLabel = ''email.addLabel''"
| "command_name EmailRemoveLabel = ''email.removeLabel''"
| "command_name EmailSnooze = ''email.snooze''"
| "command_name EmailSelectAll = ''email.selectAll''"
| "command_name EmailSelectFromHere = ''email.selectFromHere''"
| "command_name ComposeNew = ''compose.new''"
| "command_name ComposeReply = ''compose.reply''"
| "command_name ComposeReplyAll = ''compose.replyAll''"
| "command_name ComposeForward = ''compose.forward''"
| "command_name TaskCreate = ''task.create''"
| "command_name TaskCreateFromEmail = ''task.createFromEmail''"
| "command_name TaskTogglePanel = ''task.togglePanel''"
| "command_name TaskViewAll = ''task.viewAll''"
| "command_name ViewToggleSidebar = ''view.toggleSidebar''"
| "command_name ViewSetThemeLight = ''view.setThemeLight''"
| "command_name ViewSetThemeDark = ''view.setThemeDark''"
| "command_name ViewSetThemeSystem = ''view.setThemeSystem''"
| "command_name ViewToggleTaskPanel = ''view.toggleTaskPanel''"
| "command_name ViewReadingPaneRight = ''view.readingPaneRight''"
| "command_name ViewReadingPaneBottom = ''view.readingPaneBottom''"
| "command_name ViewReadingPaneHidden = ''view.readingPaneHidden''"
| "command_name CalendarToggle = ''calendar.toggle''"
| "command_name CalendarViewDay = ''calendar.viewDay''"
| "command_name CalendarViewWorkWeek = ''calendar.viewWorkWeek''"
| "command_name CalendarViewWeek = ''calendar.viewWeek''"
| "command_name CalendarViewMonth = ''calendar.viewMonth''"
| "command_name CalendarToday = ''calendar.today''"
| "command_name CalendarCreateEvent = ''calendar.createEvent''"
| "command_name CalendarPopOut = ''calendar.popOut''"
| "command_name SwitchToCalendar = ''calendar.switchTo''"
| "command_name SwitchToMail = ''app.switchToMail''"
| "command_name AppSearch = ''app.search''"
| "command_name AppAskAi = ''app.askAi''"
| "command_name AppHelp = ''app.help''"
| "command_name AppSyncFolder = ''app.syncFolder''"
| "command_name AppOpenPalette = ''app.openPalette''"
| "command_name Undo = ''app.undo''"
| "command_name SmartFolderSave = ''smartFolder.save''"
| "command_name PinnedSearchesClearAll = ''pinnedSearches.clearAll''"
| "command_name AppRebuildSearchIndex = ''app.rebuildSearchIndex''"

definition NAMES :: "string list" where
  "NAMES =
     [''nav.next'', ''nav.prev'', ''nav.open'', ''nav.msgNext'', ''nav.msgPrev'',
      ''nav.goInbox'', ''nav.goStarred'', ''nav.goSent'', ''nav.goDrafts'', ''nav.goSnoozed'',
      ''nav.goTrash'', ''nav.goAllMail'', ''nav.goPrimary'', ''nav.goUpdates'',
      ''nav.goPromotions'', ''nav.goSocial'', ''nav.goNewsletters'', ''nav.goTasks'',
      ''nav.goAttachments'', ''nav.escape'', ''nav.goLabel'', ''email.archive'', ''email.trash'',
      ''email.permanentDelete'', ''email.spam'', ''email.markRead'', ''email.star'',
      ''email.pin'', ''email.mute'', ''email.unsubscribe'', ''email.moveToFolder'',
      ''email.addLabel'', ''email.removeLabel'', ''email.snooze'', ''email.selectAll'',
      ''email.selectFromHere'', ''compose.new'', ''compose.reply'', ''compose.replyAll'',
      ''compose.forward'', ''task.create'', ''task.createFromEmail'', ''task.togglePanel'',
      ''task.viewAll'', ''view.toggleSidebar'', ''view.setThemeLight'', ''view.setThemeDark'',
      ''view.setThemeSystem'', ''view.toggleTaskPanel'', ''view.readingPaneRight'',
      ''view.readingPaneBottom'', ''view.readingPaneHidden'', ''calendar.toggle'',
      ''calendar.viewDay'', ''calendar.viewWorkWeek'', ''calendar.viewWeek'',
      ''calendar.viewMonth'', ''calendar.today'', ''calendar.createEvent'', ''calendar.popOut'',
      ''calendar.switchTo'', ''app.switchToMail'', ''app.search'', ''app.askAi'', ''app.help'',
      ''app.syncFolder'', ''app.openPalette'', ''app.undo'', ''smartFolder.save'',
      ''pinnedSearches.clearAll'', ''app.rebuildSearchIndex'']"

lemma distinct_NAMES: "distinct NAMES"
  by code_simp

lemma names: "map command_name ALL_IDS = NAMES" "TABLE = map (\<lambda>i. (i, command_name i)) ALL_IDS"
  by (simp_all add: ALL_IDS_def NAMES_def TABLE_def)

lemma all_ids: "i \<in> set ALL_IDS"
  by (cases i) (simp_all add: ALL_IDS_def)

lemma distinct_ids: "distinct ALL_IDS"
  using distinct_NAMES by (simp add: names(1) [symmetric] distinct_map)

lemma command_name_inject: "command_name i = command_name j \<longleftrightarrow> i = j"
  using distinct_NAMES all_ids by (auto simp: names(1) [symmetric] distinct_map inj_on_def)

lemma find_entry:
  "List.find (\<lambda>(j, s). j = i) (map (\<lambda>i. (i, f i)) xs) = (if i \<in> set xs then Some (i, f i) else None)"
  by (induction xs) auto

lemma command_id_as_str_name: "command_id_as_str i = command_name i"
  by (simp add: command_id_as_str_def names(2) find_entry all_ids)

lemma command_id_roundtrip: "command_id_parse s = Some i \<longleftrightarrow> s = command_id_as_str i"
proof -
  have "map_option fst (List.find (\<lambda>(j, t). t = s) (map (\<lambda>i. (i, command_name i)) xs)) = Some i \<longleftrightarrow>
      s = command_name i \<and> i \<in> set xs" for xs
    by (induction xs) (auto simp: command_name_inject)
  then show ?thesis by (simp add: command_id_parse_def command_id_as_str_name names(2) all_ids)
qed

end
