(* ===== verification/KeyChords.thy ===== *)
theory KeyChords
  imports RustStr
begin

text \<open>
  Keys, chords and key bindings (\<^verbatim>\<open>crates/cmdk/src/keybinding.rs\<close>) with the text they are stored and
  shown as. A character is its UTF-8 bytes. The lemmas say which bindings are read back from their
  text: all but those with a plus key.
\<close>

section \<open>Keys\<close>

datatype named_key =
    EscapeKey | ArrowUpKey | ArrowDownKey | ArrowLeftKey | ArrowRightKey | EnterKey | TabKey |
    SpaceKey | BackspaceKey | DeleteKey | HomeKey | EndKey | PageUpKey | PageDownKey | F1Key |
    F2Key | F3Key | F4Key | F5Key | F6Key | F7Key | F8Key | F9Key | F10Key | F11Key | F12Key

fun named_key_str :: "named_key \<Rightarrow> string" where
  "named_key_str EscapeKey = ''Escape''"
| "named_key_str ArrowUpKey = ''ArrowUp''"
| "named_key_str ArrowDownKey = ''ArrowDown''"
| "named_key_str ArrowLeftKey = ''ArrowLeft''"
| "named_key_str ArrowRightKey = ''ArrowRight''"
| "named_key_str EnterKey = ''Enter''"
| "named_key_str TabKey = ''Tab''"
| "named_key_str SpaceKey = ''Space''"
| "named_key_str BackspaceKey = ''Backspace''"
| "named_key_str DeleteKey = ''Delete''"
| "named_key_str HomeKey = ''Home''"
| "named_key_str EndKey = ''End''"
| "named_key_str PageUpKey = ''PageUp''"
| "named_key_str PageDownKey = ''PageDown''"
| "named_key_str F1Key = ''F1''"
| "named_key_str F2Key = ''F2''"
| "named_key_str F3Key = ''F3''"
| "named_key_str F4Key = ''F4''"
| "named_key_str F5Key = ''F5''"
| "named_key_str F6Key = ''F6''"
| "named_key_str F7Key = ''F7''"
| "named_key_str F8Key = ''F8''"
| "named_key_str F9Key = ''F9''"
| "named_key_str F10Key = ''F10''"
| "named_key_str F11Key = ''F11''"
| "named_key_str F12Key = ''F12''"

definition named_key_parse :: "string \<Rightarrow> named_key option" where
  "named_key_parse s =
     map_of
       [(''Escape'', EscapeKey), (''ArrowUp'', ArrowUpKey), (''ArrowDown'', ArrowDownKey),
        (''ArrowLeft'', ArrowLeftKey), (''ArrowRight'', ArrowRightKey), (''Enter'', EnterKey),
        (''Tab'', TabKey), (''Space'', SpaceKey), (''Backspace'', BackspaceKey),
        (''Delete'', DeleteKey), (''Home'', HomeKey), (''End'', EndKey),
        (''PageUp'', PageUpKey), (''PageDown'', PageDownKey), (''F1'', F1Key), (''F2'', F2Key),
        (''F3'', F3Key), (''F4'', F4Key), (''F5'', F5Key), (''F6'', F6Key), (''F7'', F7Key),
        (''F8'', F8Key), (''F9'', F9Key), (''F10'', F10Key), (''F11'', F11Key),
        (''F12'', F12Key)] s"

datatype key = KeyChar string | Named named_key

record modifiers =
  cmd_or_ctrl :: bool
  shift :: bool
  alt :: bool

definition MODIFIERS_NONE :: modifiers where
  "MODIFIERS_NONE = \<lparr>cmd_or_ctrl = False, shift = False, alt = False\<rparr>"

definition has_any :: "modifiers \<Rightarrow> bool" where
  "has_any m = (cmd_or_ctrl m \<or> shift m \<or> alt m)"

record chord =
  chord_key :: key
  chord_modifiers :: modifiers

definition chord_of_char :: "string \<Rightarrow> chord" where
  "chord_of_char c = \<lparr>chord_key = KeyChar c, chord_modifiers = MODIFIERS_NONE\<rparr>"

definition chord_named :: "named_key \<Rightarrow> chord" where
  "chord_named n = \<lparr>chord_key = Named n, chord_modifiers = MODIFIERS_NONE\<rparr>"

section \<open>Text of a chord\<close>

definition ascii_upper_char :: "char \<Rightarrow> char" where
  "ascii_upper_char c =
     (let n = of_char c :: nat in if 97 \<le> n \<and> n \<le> 122 then char_of (n - 32) else c)"

fun parse_modifiers :: "string list \<Rightarrow> modifiers \<Rightarrow> string + modifiers" where
  "parse_modifiers [] acc = Inr acc"
| "parse_modifiers (m # ms) acc =
     (if m = ''CmdOrCtrl'' \<or> m = ''Ctrl'' \<or> m = ''Cmd'' then parse_modifiers ms (acc\<lparr>cmd_or_ctrl := True\<rparr>)
      else if m = ''Alt'' then parse_modifiers ms (acc\<lparr>alt := True\<rparr>)
      else if m = ''Shift'' then parse_modifiers ms (acc\<lparr>shift := True\<rparr>)
      else Inl (''unknown modifier: '' @ m))"

definition chord_parse :: "string \<Rightarrow> string + chord" where
  "chord_parse s =
     (let parts = split_char (CHR ''+'') s; key_str = last parts
      in case parse_modifiers (butlast parts) MODIFIERS_NONE of
           Inl e \<Rightarrow> Inl e
         | Inr m \<Rightarrow>
             (case named_key_parse key_str of
                Some n \<Rightarrow> Inr \<lparr>chord_key = Named n, chord_modifiers = m\<rparr>
              | None \<Rightarrow>
                  (case utf8_chars key_str of
                     [c] \<Rightarrow> Inr \<lparr>chord_key = KeyChar (map ascii_lower_char c), chord_modifiers = m\<rparr>
                   | _ \<Rightarrow> Inl (''unknown key: '' @ key_str))))"

definition format_with_modifier_label :: "string \<Rightarrow> chord \<Rightarrow> string" where
  "format_with_modifier_label label c =
     (let m = chord_modifiers c
      in (if cmd_or_ctrl m then label @ ''+'' else []) @
         (if alt m then ''Alt+'' else []) @
         (if shift m then ''Shift+'' else []) @
         (case chord_key c of
            KeyChar k \<Rightarrow> if has_any m then map ascii_upper_char k else k
          | Named n \<Rightarrow> named_key_str n))"

datatype platform = Mac | Windows | Linux

definition chord_display :: "platform \<Rightarrow> chord \<Rightarrow> string" where
  "chord_display p c = format_with_modifier_label (if p = Mac then ''Cmd'' else ''Ctrl'') c"

definition chord_canonical :: "chord \<Rightarrow> string" where
  "chord_canonical c = format_with_modifier_label ''CmdOrCtrl'' c"

section \<open>Bindings\<close>

datatype key_binding = Chord chord | Sequence chord chord

definition binding_key :: "string \<Rightarrow> key_binding" where
  "binding_key c = Chord (chord_of_char c)"

definition binding_named :: "named_key \<Rightarrow> key_binding" where
  "binding_named n = Chord (chord_named n)"

definition binding_cmd_or_ctrl :: "string \<Rightarrow> key_binding" where
  "binding_cmd_or_ctrl c =
     Chord \<lparr>chord_key = KeyChar c, chord_modifiers = \<lparr>cmd_or_ctrl = True, shift = False, alt = False\<rparr>\<rparr>"

definition binding_cmd_or_ctrl_shift :: "string \<Rightarrow> key_binding" where
  "binding_cmd_or_ctrl_shift c =
     Chord \<lparr>chord_key = KeyChar c, chord_modifiers = \<lparr>cmd_or_ctrl = True, shift = True, alt = False\<rparr>\<rparr>"

definition binding_seq :: "string \<Rightarrow> string \<Rightarrow> key_binding" where
  "binding_seq a b = Sequence (chord_of_char a) (chord_of_char b)"

definition binding_parse :: "string \<Rightarrow> string + key_binding" where
  "binding_parse s =
     (case split_once '' then '' s of
        Some (a, b) \<Rightarrow>
          (case chord_parse a of
             Inl e \<Rightarrow> Inl e
           | Inr x \<Rightarrow> (case chord_parse b of Inl e \<Rightarrow> Inl e | Inr y \<Rightarrow> Inr (Sequence x y)))
      | None \<Rightarrow> (case chord_parse s of Inl e \<Rightarrow> Inl e | Inr x \<Rightarrow> Inr (Chord x)))"

fun binding_display :: "platform \<Rightarrow> key_binding \<Rightarrow> string" where
  "binding_display p (Chord c) = chord_display p c"
| "binding_display p (Sequence a b) = chord_display p a @ '' then '' @ chord_display p b"

fun binding_canonical :: "key_binding \<Rightarrow> string" where
  "binding_canonical (Chord c) = chord_canonical c"
| "binding_canonical (Sequence a b) = chord_canonical a @ '' then '' @ chord_canonical b"

section \<open>Reading a binding back\<close>

text \<open>
  What a key can hold: the bytes of one character, in lower case. A multi-byte character starts with a
  byte beyond the continuation bytes.
\<close>

definition rust_char :: "string \<Rightarrow> bool" where
  "rust_char c =
     (case c of
        [] \<Rightarrow> False
      | b # r \<Rightarrow> if r = [] then (of_char b :: nat) < 128 else 192 \<le> (of_char b :: nat) \<and> list_all is_continuation r)"

fun key_ok :: "key \<Rightarrow> bool" where
  "key_ok (KeyChar c) = (rust_char c \<and> map ascii_lower_char c = c)"
| "key_ok (Named n) = True"

fun binding_ok :: "key_binding \<Rightarrow> bool" where
  "binding_ok (Chord c) = key_ok (chord_key c)"
| "binding_ok (Sequence a b) = (key_ok (chord_key a) \<and> key_ok (chord_key b))"

definition plus_chord :: "chord \<Rightarrow> bool" where
  "plus_chord c = (chord_key c = KeyChar ''+'')"

fun plus_binding :: "key_binding \<Rightarrow> bool" where
  "plus_binding (Chord c) = plus_chord c"
| "plus_binding (Sequence a b) = (plus_chord a \<or> plus_chord b)"

lemma lower_upper_char: "ascii_lower_char b = b \<Longrightarrow> ascii_lower_char (ascii_upper_char b) = b"
  by (auto simp: ascii_lower_char_def ascii_upper_char_def Let_def split: if_splits)

lemma lower_upper: "map ascii_lower_char c = c \<Longrightarrow> map ascii_lower_char (map ascii_upper_char c) = c"
  by (induction c) (auto simp: lower_upper_char)

lemma upper_other: "122 < (of_char b :: nat) \<Longrightarrow> ascii_upper_char b = b"
  by (simp add: ascii_upper_char_def Let_def)

lemma upper_small: "(of_char (ascii_upper_char b) :: nat) < 128 \<longleftrightarrow> (of_char b :: nat) < 128"
  by (auto simp: ascii_upper_char_def Let_def)

lemma upper_continuation [simp]: "is_continuation (ascii_upper_char b) = is_continuation b"
  by (auto simp: is_continuation_def ascii_upper_char_def Let_def)

lemma rust_char_upper: "rust_char c \<Longrightarrow> rust_char (map ascii_upper_char c)"
  by (auto simp: rust_char_def upper_small upper_other list_all_iff split: list.splits if_splits)

lemma rust_char_ascii: "rust_char c \<Longrightarrow> b \<in> set c \<Longrightarrow> (of_char b :: nat) < 128 \<Longrightarrow> c = [b]"
  by (auto simp: rust_char_def list_all_iff is_continuation_def Let_def split: list.splits if_splits)

lemma rust_char_plus: "rust_char c \<Longrightarrow> CHR ''+'' \<in> set c \<longleftrightarrow> c = ''+''"
  using rust_char_ascii [of c "CHR ''+''"] by auto

lemma utf8_chars_rust_char: "rust_char c \<Longrightarrow> utf8_chars c = [c]"
  by (cases c) (auto simp: rust_char_def utf8_chars_def list_all_iff dropWhile_eq_Nil_conv [THEN iffD2]
      split: if_splits)

lemma named_key_roundtrip [simp]: "named_key_parse (named_key_str n) = Some n"
  by (cases n) (simp_all add: named_key_parse_def)

lemma named_key_parse_Some: "named_key_parse s = Some n \<Longrightarrow> s = named_key_str n"
  unfolding named_key_parse_def by (drule map_of_SomeD) auto

lemma named_key_str_chars:
  "CHR ''+'' \<notin> set (named_key_str n)" "CHR '' '' \<notin> set (named_key_str n)"
  "\<not> rust_char (named_key_str n)"
  by (cases n; simp add: rust_char_def is_continuation_def)+

lemma named_key_parse_rust_char: "rust_char c \<Longrightarrow> named_key_parse c = None"
  using named_key_parse_Some named_key_str_chars(3) by (cases "named_key_parse c") auto

text \<open>The parts of a chord's text: its modifiers, then its key.\<close>

definition modifier_strs :: "modifiers \<Rightarrow> string list" where
  "modifier_strs m =
     (if cmd_or_ctrl m then [''CmdOrCtrl''] else []) @ (if alt m then [''Alt''] else []) @
     (if shift m then [''Shift''] else [])"

fun key_str :: "modifiers \<Rightarrow> key \<Rightarrow> string" where
  "key_str m (KeyChar k) = (if has_any m then map ascii_upper_char k else k)"
| "key_str m (Named n) = named_key_str n"

lemma chord_canonical_parts:
  "chord_canonical c =
     concat (map (\<lambda>m. m @ ''+'') (modifier_strs (chord_modifiers c))) @ key_str (chord_modifiers c) (chord_key c)"
  by (simp add: chord_canonical_def format_with_modifier_label_def modifier_strs_def Let_def split: key.splits)

lemma split_char_parts:
  "\<forall>a\<in>set as. sep \<notin> set a \<Longrightarrow> split_char sep (concat (map (\<lambda>m. m @ [sep]) as) @ k) = as @ split_char sep k"
  by (induction as) (simp_all add: split_char_append)

lemma modifier_strs_chars:
  "\<forall>a\<in>set (modifier_strs m). CHR ''+'' \<notin> set a" "\<forall>a\<in>set (modifier_strs m). CHR '' '' \<notin> set a"
  by (auto simp: modifier_strs_def)

lemma parse_modifier_strs: "parse_modifiers (modifier_strs m) MODIFIERS_NONE = Inr m"
  by (cases m) (simp add: modifier_strs_def MODIFIERS_NONE_def)

lemma parse_modifiers_unknown:
  "parse_modifiers (modifier_strs m @ [] # ms) acc = Inl ''unknown modifier: ''"
  by (simp add: modifier_strs_def)

lemma key_str_plus:
  assumes "key_ok k"
  shows "key_str m k = ''+'' \<longleftrightarrow> k = KeyChar ''+''" "CHR ''+'' \<in> set (key_str m k) \<Longrightarrow> k = KeyChar ''+''"
proof -
  have upper: "c = ''+''" if "key_ok (KeyChar c)" "map ascii_upper_char c = ''+''" for c
  proof -
    have "map ascii_lower_char ''+'' = c" using that lower_upper [of c] by simp
    then show ?thesis by (simp add: ascii_lower_char_def)
  qed
  show "k = KeyChar ''+''" if "CHR ''+'' \<in> set (key_str m k)"
  proof (cases k)
    case (KeyChar c)
    then have "key_str m k = ''+''"
      using that assms rust_char_plus rust_char_upper by (auto split: if_splits simp del: set_map)
    with KeyChar upper assms show ?thesis by (auto split: if_splits)
  qed (use that named_key_str_chars(1) in auto)
  then show "key_str m k = ''+'' \<longleftrightarrow> k = KeyChar ''+''"
    by (auto simp: ascii_upper_char_def)
qed

lemma parse_key_str:
  assumes "key_ok k" "k \<noteq> KeyChar ''+''"
  shows "chord_parse (chord_canonical \<lparr>chord_key = k, chord_modifiers = m\<rparr>) = Inr \<lparr>chord_key = k, chord_modifiers = m\<rparr>"
proof -
  have "split_char (CHR ''+'') (chord_canonical \<lparr>chord_key = k, chord_modifiers = m\<rparr>) =
      modifier_strs m @ [key_str m k]"
    using split_char_none [of "CHR ''+''" "key_str m k"] key_str_plus(2) [OF assms(1), of m] assms(2)
    by (simp add: chord_canonical_parts split_char_parts modifier_strs_chars) blast
  then have *: "chord_parse (chord_canonical \<lparr>chord_key = k, chord_modifiers = m\<rparr>) =
      (case named_key_parse (key_str m k) of
         Some n \<Rightarrow> Inr \<lparr>chord_key = Named n, chord_modifiers = m\<rparr>
       | None \<Rightarrow>
           (case utf8_chars (key_str m k) of
              [c] \<Rightarrow> Inr \<lparr>chord_key = KeyChar (map ascii_lower_char c), chord_modifiers = m\<rparr>
            | _ \<Rightarrow> Inl (''unknown key: '' @ key_str m k)))"
    by (simp only: chord_parse_def Let_def last_snoc butlast_snoc parse_modifier_strs sum.case)
  show ?thesis
  proof (cases k)
    case (KeyChar c)
    with assms have c: "rust_char (key_str m k)" "map ascii_lower_char (key_str m k) = c"
      using rust_char_upper lower_upper by (auto simp del: map_map)
    with * KeyChar show ?thesis by (simp add: named_key_parse_rust_char utf8_chars_rust_char)
  qed (use * in simp)
qed

lemma parse_plus_chord:
  assumes "plus_chord c"
  shows "chord_parse (chord_canonical c) = Inl ''unknown modifier: ''"
proof -
  have "split_char (CHR ''+'') (chord_canonical c) = modifier_strs (chord_modifiers c) @ [[], []]"
    using assms split_char_parts [OF modifier_strs_chars(1), of "chord_modifiers c" "''+''"]
    by (auto simp: chord_canonical_parts plus_chord_def ascii_upper_char_def)
  then show ?thesis
    using parse_modifiers_unknown [of "chord_modifiers c" "[]"]
    by (simp add: chord_parse_def butlast_append)
qed

lemma parse_canonical_chord:
  "key_ok (chord_key c) \<Longrightarrow>
     chord_parse (chord_canonical c) = (if plus_chord c then Inl ''unknown modifier: '' else Inr c)"
  using parse_plus_chord [of c] parse_key_str [of "chord_key c" "chord_modifiers c"]
  by (cases c) (auto simp: plus_chord_def)

text \<open>A chord's text has a blank at most at its end, so the separator of a sequence is found in its place.\<close>

lemma rust_char_blank: "rust_char c \<Longrightarrow> CHR '' '' \<in> set c \<Longrightarrow> c = '' ''"
  using rust_char_ascii [of c "CHR '' ''"] by auto

lemma canonical_blank:
  assumes "key_ok (chord_key c)"
  shows "CHR '' '' \<notin> set (butlast (chord_canonical c))"
proof -
  have "CHR '' '' \<notin> set (butlast k) \<and> k \<noteq> []" if "k = key_str (chord_modifiers c) (chord_key c)" for k
  proof (cases "chord_key c")
    case (KeyChar x)
    with that assms have "rust_char k" using rust_char_upper by auto
    then have "CHR '' '' \<notin> set (butlast k)" using rust_char_blank [of k] in_set_butlastD by fastforce
    with \<open>rust_char k\<close> show ?thesis by (auto simp: rust_char_def)
  next
    case (Named n)
    with that show ?thesis using named_key_str_chars(2) [of n] by (cases n) auto
  qed
  then show ?thesis
    using modifier_strs_chars(2) [of "chord_modifiers c"]
    by (auto simp: chord_canonical_parts butlast_append)
qed

lemma strip_then: "c \<noteq> CHR '' '' \<or> (\<forall>r. cs \<noteq> ''then '' @ r) \<Longrightarrow> strip_prefix '' then '' (c # cs) = None"
  by (auto simp: strip_prefix_None)

lemma split_once_none: "CHR '' '' \<notin> set (butlast a) \<Longrightarrow> split_once '' then '' a = None"
proof (induction a)
  case (Cons c a)
  have "strip_prefix '' then '' (c # a) = None"
    using Cons.prems by (intro strip_then) (cases a; auto split: if_splits)
  moreover have "CHR '' '' \<notin> set (butlast a)" using Cons.prems by (cases a) (auto split: if_splits)
  ultimately show ?case using Cons.IH by (subst split_once.simps) simp
qed (simp add: split_once.simps strip_prefix_def)

lemma split_once_then:
  "CHR '' '' \<notin> set (butlast a) \<Longrightarrow> split_once '' then '' (a @ '' then '' @ b) = Some (a, b)"
proof (induction a)
  case (Cons c a)
  have "strip_prefix '' then '' (c # a @ '' then '' @ b) = None"
    using Cons.prems by (intro strip_then) (cases a; auto split: if_splits)
  moreover have "CHR '' '' \<notin> set (butlast a)" using Cons.prems by (cases a) (auto split: if_splits)
  ultimately show ?case using Cons.IH by (subst split_once.simps) simp
next
  case Nil
  show ?case by (subst split_once.simps) (simp add: strip_prefix_def)
qed

lemma parse_canonical_binding:
  "binding_ok b \<Longrightarrow>
     binding_parse (binding_canonical b) = (if plus_binding b then Inl ''unknown modifier: '' else Inr b)"
  using split_once_then [OF canonical_blank]
  by (cases b) (auto simp: binding_parse_def canonical_blank split_once_none parse_canonical_chord)

end
