(* ===== verification/KeyTable.thy ===== *)
theory KeyTable
  imports KeyChords "HOL-Library.AList" "HOL-Library.Multiset" "HOL-Library.List_Lexorder"
    "HOL-Library.Char_ord"
begin

text \<open>
  The table of key bindings (\<^verbatim>\<open>BindingTable\<close> of \<^verbatim>\<open>crates/cmdk/src/keybinding.rs\<close>): defaults,
  overrides of the user, the reverse indexes that resolve key presses, and the file the overrides are
  kept in. Hash maps are association lists; where the code iterates over one, the order is that of a
  permutation \<open>sh\<close> that each call gets as an argument, since every hash map has its own order. The
  lemmas show that the indexes are exact, and that a table without conflicts resolves every binding
  to its command.
\<close>

section \<open>The table\<close>

datatype 'c resolve_result = NoMatch | Command 'c | Pending

record 'c binding_table =
  bt_defaults :: "('c \<times> key_binding) list"
  bt_overrides :: "('c \<times> key_binding option) list"
  single_reverse :: "(chord \<times> 'c) list"
  sequence_first_chords :: "(chord \<times> (chord \<times> 'c) list) list"
  bt_platform :: platform

definition binding_for :: "'c binding_table \<Rightarrow> 'c \<Rightarrow> key_binding option" where
  "binding_for t i =
     (case map_of (bt_overrides t) i of
        Some (Some binding) \<Rightarrow> Some binding
      | Some None \<Rightarrow> None
      | None \<Rightarrow> map_of (bt_defaults t) i)"

text \<open>\<^verbatim>\<open>rebuild_reverse\<close>: clear both indexes and enter the binding of every command with a default or an override.\<close>

fun index_binding ::
  "'c \<times> key_binding \<Rightarrow> (chord \<times> 'c) list \<times> (chord \<times> (chord \<times> 'c) list) list \<Rightarrow>
   (chord \<times> 'c) list \<times> (chord \<times> (chord \<times> 'c) list) list" where
  "index_binding (i, Chord c) (single, seqs) = (AList.update c i single, seqs)"
| "index_binding (i, Sequence a b) (single, seqs) =
     (single, AList.update a (AList.update b i (case map_of seqs a of Some m \<Rightarrow> m | None \<Rightarrow> [])) seqs)"

definition effective_bindings :: "('c list \<Rightarrow> 'c list) \<Rightarrow> 'c binding_table \<Rightarrow> ('c \<times> key_binding) list" where
  "effective_bindings sh t =
     List.map_filter (\<lambda>i. map_option (Pair i) (binding_for t i))
       (sh (remdups (map fst (bt_defaults t) @ map fst (bt_overrides t))))"

definition rebuild_reverse :: "('c list \<Rightarrow> 'c list) \<Rightarrow> 'c binding_table \<Rightarrow> 'c binding_table" where
  "rebuild_reverse sh t =
     (let (single, seqs) = fold index_binding (effective_bindings sh t) ([], [])
      in t\<lparr>single_reverse := single, sequence_first_chords := seqs\<rparr>)"

definition table_new :: "('c list \<Rightarrow> 'c list) \<Rightarrow> ('c \<times> key_binding) list \<Rightarrow> platform \<Rightarrow> 'c binding_table" where
  "table_new sh default_bindings p =
     rebuild_reverse sh
       \<lparr>bt_defaults = fold (\<lambda>(i, b). AList.update i b) default_bindings [], bt_overrides = [],
        single_reverse = [], sequence_first_chords = [], bt_platform = p\<rparr>"

definition load_overrides ::
  "('c list \<Rightarrow> 'c list) \<Rightarrow> ('c \<times> key_binding option) list \<Rightarrow> 'c binding_table \<Rightarrow> 'c binding_table" where
  "load_overrides sh overrides t = rebuild_reverse sh (t\<lparr>bt_overrides := overrides\<rparr>)"

definition resolve_chord :: "'c binding_table \<Rightarrow> chord \<Rightarrow> 'c resolve_result" where
  "resolve_chord t c =
     (if map_of (sequence_first_chords t) c \<noteq> None then Pending
      else case map_of (single_reverse t) c of Some i \<Rightarrow> Command i | None \<Rightarrow> NoMatch)"

definition resolve_sequence :: "'c binding_table \<Rightarrow> chord \<Rightarrow> chord \<Rightarrow> 'c option" where
  "resolve_sequence t a b = Option.bind (map_of (sequence_first_chords t) a) (\<lambda>m. map_of m b)"

definition display_binding :: "'c binding_table \<Rightarrow> 'c \<Rightarrow> string option" where
  "display_binding t i = map_option (binding_display (bt_platform t)) (binding_for t i)"

section \<open>Changing bindings\<close>

definition other :: "'c \<Rightarrow> 'c option \<Rightarrow> 'c option" where
  "other i existing = (case existing of Some e \<Rightarrow> if e \<noteq> i then Some e else None | None \<Rightarrow> None)"

definition check_chord_conflict ::
  "('c list \<Rightarrow> 'c list) \<Rightarrow> 'c binding_table \<Rightarrow> 'c \<Rightarrow> chord \<Rightarrow> 'c option" where
  "check_chord_conflict sh t i c =
     (case other i (map_of (single_reverse t) c) of
        Some e \<Rightarrow> Some e
      | None \<Rightarrow>
          (case map_of (sequence_first_chords t) c of
             Some m \<Rightarrow> List.find (\<lambda>cmd. cmd \<noteq> i) (sh (map snd m))
           | None \<Rightarrow> None))"

definition check_sequence_conflict :: "'c binding_table \<Rightarrow> 'c \<Rightarrow> chord \<Rightarrow> chord \<Rightarrow> 'c option" where
  "check_sequence_conflict t i a b =
     (case other i (map_of (single_reverse t) a) of
        Some e \<Rightarrow> Some e
      | None \<Rightarrow> other i (resolve_sequence t a b))"

fun check_conflict ::
  "('c list \<Rightarrow> 'c list) \<Rightarrow> 'c binding_table \<Rightarrow> 'c \<Rightarrow> key_binding \<Rightarrow> 'c option" where
  "check_conflict sh t i (Chord c) = check_chord_conflict sh t i c"
| "check_conflict sh t i (Sequence a b) = check_sequence_conflict t i a b"

text \<open>The two permutations of \<open>set_override\<close> are those of the check and of the rebuild.\<close>

definition set_override ::
  "('c list \<Rightarrow> 'c list) \<Rightarrow> ('c list \<Rightarrow> 'c list) \<Rightarrow> 'c \<Rightarrow> key_binding \<Rightarrow> 'c binding_table \<Rightarrow>
   'c + 'c binding_table" where
  "set_override sc sh i binding t =
     (case check_conflict sc t i binding of
        Some conflict \<Rightarrow> Inl conflict
      | None \<Rightarrow>
          Inr (rebuild_reverse sh (t\<lparr>bt_overrides := AList.update i (Some binding) (bt_overrides t)\<rparr>)))"

definition unbind :: "('c list \<Rightarrow> 'c list) \<Rightarrow> 'c \<Rightarrow> 'c binding_table \<Rightarrow> 'c binding_table" where
  "unbind sh i t = rebuild_reverse sh (t\<lparr>bt_overrides := AList.update i None (bt_overrides t)\<rparr>)"

definition remove_override :: "('c list \<Rightarrow> 'c list) \<Rightarrow> 'c \<Rightarrow> 'c binding_table \<Rightarrow> 'c binding_table" where
  "remove_override sh i t = rebuild_reverse sh (t\<lparr>bt_overrides := AList.delete i (bt_overrides t)\<rparr>)"

definition reset_all :: "('c list \<Rightarrow> 'c list) \<Rightarrow> 'c binding_table \<Rightarrow> 'c binding_table" where
  "reset_all sh t = rebuild_reverse sh (t\<lparr>bt_overrides := []\<rparr>)"

section \<open>The file of overrides\<close>

text \<open>
  The file is absent or has some bytes. JSON and the file system are outside: \<open>to_json\<close> and \<open>from_json\<close>
  are the serializer for \<^verbatim>\<open>OverridesFile\<close>, and a failed operation leaves the file as \<open>IoFailed\<close> says.
\<close>

datatype io_result = IoOk | IoFailed string "string option"

definition collect_map :: "('k \<times> 'v) list \<Rightarrow> ('k \<times> 'v) list" where
  "collect_map kvs = fold (\<lambda>(k, v). AList.update k v) kvs []"

definition overrides_file :: "('c \<Rightarrow> string) \<Rightarrow> 'c binding_table \<Rightarrow> (string \<times> string option) list" where
  "overrides_file as_str t =
     sort_key fst (collect_map (map (\<lambda>(i, b). (as_str i, map_option binding_canonical b)) (bt_overrides t)))"

definition save_overrides ::
  "('c \<Rightarrow> string) \<Rightarrow> ((string \<times> string option) list \<Rightarrow> string) \<Rightarrow> io_result \<Rightarrow> 'c binding_table \<Rightarrow>
   string option \<Rightarrow> (string + unit) \<times> string option" where
  "save_overrides as_str to_json io t file =
     (if bt_overrides t = [] \<and> file = None then (Inr (), None)
      else case io of
        IoFailed e left \<Rightarrow> (Inl e, left)
      | IoOk \<Rightarrow>
          if bt_overrides t = [] then (Inr (), None)
          else (Inr (), Some (to_json (overrides_file as_str t))))"

fun read_entry ::
  "(string \<Rightarrow> 'c option) \<Rightarrow> string \<times> string option \<Rightarrow> ('c \<times> key_binding option) list \<Rightarrow>
   ('c \<times> key_binding option) list" where
  "read_entry parse_id (k, v) overrides =
     (case parse_id k of
        None \<Rightarrow> overrides
      | Some i \<Rightarrow>
          (case v of
             None \<Rightarrow> AList.update i None overrides
           | Some str \<Rightarrow>
               (case binding_parse str of
                  Inr b \<Rightarrow> AList.update i (Some b) overrides
                | Inl e \<Rightarrow> overrides)))"

definition load_overrides_from_file ::
  "('c list \<Rightarrow> 'c list) \<Rightarrow> (string \<Rightarrow> 'c option) \<Rightarrow>
   (string \<Rightarrow> string + (string \<times> string option) list) \<Rightarrow> string + string option \<Rightarrow> 'c binding_table \<Rightarrow>
   (string + unit) \<times> 'c binding_table" where
  "load_overrides_from_file sh parse_id from_json content t =
     (case content of
        Inl e \<Rightarrow> (Inl e, t)
      | Inr None \<Rightarrow> (Inr (), t)
      | Inr (Some bytes) \<Rightarrow>
          (case from_json bytes of
             Inl e \<Rightarrow> (Inl e, t)
           | Inr entries \<Rightarrow> (Inr (), load_overrides sh (fold (read_entry parse_id) entries []) t)))"

section \<open>The indexes are exact\<close>

definition permutes :: "('c list \<Rightarrow> 'c list) \<Rightarrow> bool" where
  "permutes sh = (\<forall>xs. mset (sh xs) = mset xs)"

lemma permutes_set [simp]: "permutes sh \<Longrightarrow> set (sh xs) = set xs"
  unfolding permutes_def by (metis set_mset_mset)

lemma permutes_id [simp]: "permutes (\<lambda>xs. xs)" "permutes rev"
  by (simp_all add: permutes_def)

definition seq_lookup :: "(chord \<times> (chord \<times> 'c) list) list \<Rightarrow> chord \<Rightarrow> chord \<Rightarrow> 'c option" where
  "seq_lookup seqs a b = Option.bind (map_of seqs a) (\<lambda>m. map_of m b)"

definition indexed ::
  "('c \<times> key_binding) set \<Rightarrow> (chord \<times> 'c) list \<Rightarrow> (chord \<times> (chord \<times> 'c) list) list \<Rightarrow> bool" where
  "indexed B single seqs =
     ((\<forall>c i. map_of single c = Some i \<longrightarrow> (i, Chord c) \<in> B) \<and>
      (\<forall>c i. (i, Chord c) \<in> B \<longrightarrow> map_of single c \<noteq> None) \<and>
      (\<forall>a b i. seq_lookup seqs a b = Some i \<longrightarrow> (i, Sequence a b) \<in> B) \<and>
      (\<forall>a b i. (i, Sequence a b) \<in> B \<longrightarrow> seq_lookup seqs a b \<noteq> None) \<and>
      (\<forall>a m. map_of seqs a = Some m \<longrightarrow> m \<noteq> [] \<and> distinct (map fst m)))"

lemma seq_lookup_update:
  "seq_lookup (AList.update a m seqs) a' b = (if a' = a then map_of m b else seq_lookup seqs a' b)"
  by (simp add: seq_lookup_def update_conv')

lemma seq_lookup_entry:
  "map_of (case map_of seqs a of Some m \<Rightarrow> m | None \<Rightarrow> []) b = seq_lookup seqs a b"
  by (simp add: seq_lookup_def split: option.split)

lemma update_nonempty: "AList.update k v m \<noteq> []"
  by (cases m) auto

lemma indexed_step:
  assumes "indexed B single seqs" "index_binding x (single, seqs) = (single', seqs')"
  shows "indexed (insert x B) single' seqs'"
proof (cases "snd x")
  case (Chord c)
  with assms show ?thesis
    by (cases x) (auto simp: indexed_def update_conv' split: if_splits)
next
  case (Sequence a b)
  define m where "m = (case map_of seqs a of Some m \<Rightarrow> m | None \<Rightarrow> [])"
  have "distinct (map fst m)" using assms(1) by (auto simp: indexed_def m_def split: option.split)
  moreover have "map_of m b' = seq_lookup seqs a b'" for b' by (simp add: m_def seq_lookup_entry)
  moreover have "single' = single" "seqs' = AList.update a (AList.update b (fst x) m) seqs"
    using assms(2) Sequence by (cases x; simp add: m_def)+
  moreover have "x = (fst x, Sequence a b)" using Sequence by (cases x) auto
  ultimately show ?thesis using assms(1)
    by (auto simp: indexed_def seq_lookup_update update_conv' update_nonempty distinct_update
        split: if_splits) blast+
qed

lemma indexed_fold: "indexed B single seqs \<Longrightarrow> fold index_binding xs (single, seqs) = (single', seqs') \<Longrightarrow>
   indexed (set xs \<union> B) single' seqs'"
proof (induction xs arbitrary: B single seqs)
  case (Cons x xs)
  obtain s q where x: "index_binding x (single, seqs) = (s, q)" by fastforce
  with Cons.IH [of "insert x B" s q] indexed_step [OF Cons.prems(1) x] Cons.prems(2) show ?case by simp
qed simp

text \<open>The entries of a table are the bindings in force.\<close>

definition bound :: "'c binding_table \<Rightarrow> ('c \<times> key_binding) set" where
  "bound t = {(i, b). binding_for t i = Some b}"

lemma binding_for_keys:
  "binding_for t i = Some b \<Longrightarrow> i \<in> fst ` set (bt_defaults t) \<union> fst ` set (bt_overrides t)"
  by (auto simp: binding_for_def split: option.splits dest!: map_of_SomeD intro: rev_image_eqI)

lemma set_effective_bindings: "permutes sh \<Longrightarrow> set (effective_bindings sh t) = bound t"
proof -
  assume "permutes sh"
  then have "set (effective_bindings sh t) =
      {(i, b). i \<in> fst ` set (bt_defaults t) \<union> fst ` set (bt_overrides t) \<and> binding_for t i = Some b}"
    by (force simp: effective_bindings_def List.map_filter_def)
  then show ?thesis using binding_for_keys [of t] unfolding bound_def by blast
qed

definition table_index_ok :: "'c binding_table \<Rightarrow> bool" where
  "table_index_ok t = indexed (bound t) (single_reverse t) (sequence_first_chords t)"

lemma binding_for_rebuild [simp]: "binding_for (rebuild_reverse sh t) = binding_for t"
  by (simp add: rebuild_reverse_def binding_for_def fun_eq_iff split: prod.split option.split)

lemma rebuild_fields [simp]:
  "bt_defaults (rebuild_reverse sh t) = bt_defaults t" "bt_overrides (rebuild_reverse sh t) = bt_overrides t"
  by (simp_all add: rebuild_reverse_def split: prod.split)

lemma rebuild_index_ok: "permutes sh \<Longrightarrow> table_index_ok (rebuild_reverse sh t)"
proof -
  assume sh: "permutes sh"
  obtain s q where f: "fold index_binding (effective_bindings sh t) ([], []) = (s, q)" by fastforce
  have "indexed {} [] []" by (simp add: indexed_def seq_lookup_def)
  from indexed_fold [OF this f] have "indexed (bound t) s q" by (simp add: set_effective_bindings [OF sh])
  then show ?thesis
    using f by (simp add: table_index_ok_def bound_def) (simp add: rebuild_reverse_def)
qed

section \<open>Conflicts\<close>

text \<open>The rules of the code: which two bindings cannot belong to two commands.\<close>

fun conflicting :: "key_binding \<Rightarrow> key_binding \<Rightarrow> bool" where
  "conflicting (Chord c) (Chord d) = (c = d)"
| "conflicting (Chord c) (Sequence a b) = (c = a)"
| "conflicting (Sequence a b) (Chord c) = (a = c)"
| "conflicting (Sequence a b) (Sequence a' b') = (a = a' \<and> b = b')"

lemma conflicting_sym: "conflicting x y \<longleftrightarrow> conflicting y x"
  by (cases x; cases y) auto

definition conflict_free :: "('c \<Rightarrow> key_binding option) \<Rightarrow> bool" where
  "conflict_free f = (\<forall>i j x y. f i = Some x \<longrightarrow> f j = Some y \<longrightarrow> i \<noteq> j \<longrightarrow> \<not> conflicting x y)"

text \<open>The check is exact on a table whose indexes are: it names a command in conflict if there is one.\<close>

lemma other_Some: "other i e = Some j \<longleftrightarrow> e = Some j \<and> j \<noteq> i"
  by (auto simp: other_def split: option.split)

lemma other_None: "other i e = None \<longleftrightarrow> e = None \<or> e = Some i"
  by (auto simp: other_def split: option.split)

lemma table_indexD:
  assumes "table_index_ok t"
  shows "map_of (single_reverse t) c = Some i \<Longrightarrow> binding_for t i = Some (Chord c)"
    and "binding_for t i = Some (Chord c) \<Longrightarrow> map_of (single_reverse t) c \<noteq> None"
    and "resolve_sequence t a b = Some i \<Longrightarrow> binding_for t i = Some (Sequence a b)"
    and "binding_for t i = Some (Sequence a b) \<Longrightarrow> resolve_sequence t a b \<noteq> None"
    and "map_of (sequence_first_chords t) a = Some m \<Longrightarrow> m \<noteq> [] \<and> distinct (map fst m)"
  using assms unfolding table_index_ok_def indexed_def bound_def resolve_sequence_def seq_lookup_def by blast+

lemma first_chord_values:
  assumes "table_index_ok t" "map_of (sequence_first_chords t) a = Some m"
  shows "j \<in> set (map snd m) \<longleftrightarrow> (\<exists>b. resolve_sequence t a b = Some j)"
  using table_indexD(5) [OF assms] assms(2) by (auto simp: resolve_sequence_def intro: map_of_is_SomeI dest: map_of_SomeD) force

lemma check_conflict_sound:
  assumes "table_index_ok t" "permutes sh" "check_conflict sh t i x = Some j"
  shows "j \<noteq> i \<and> (\<exists>y. binding_for t j = Some y \<and> conflicting x y)"
proof (cases x)
  case (Chord c)
  show ?thesis
  proof (cases "other i (map_of (single_reverse t) c)")
    case None
    with Chord assms(3) obtain m where m: "map_of (sequence_first_chords t) c = Some m"
      "List.find (\<lambda>cmd. cmd \<noteq> i) (sh (map snd m)) = Some j"
      by (auto simp: check_chord_conflict_def split: option.splits)
    then have "j \<noteq> i" "j \<in> set (map snd m)" using assms(2) by (auto simp: find_Some_iff) (metis nth_mem permutes_set set_map)
    with first_chord_values [OF assms(1) m(1)] table_indexD(3) [OF assms(1)] Chord show ?thesis by fastforce
  next
    case (Some e)
    with Chord assms(3) table_indexD(1) [OF assms(1)] show ?thesis by (auto simp: check_chord_conflict_def other_Some)
  qed
next
  case (Sequence a b)
  with assms(3) table_indexD(1,3) [OF assms(1)] show ?thesis
    by (auto simp: check_sequence_conflict_def other_Some other_None split: option.splits)
qed

text \<open>Without conflicts the indexes are the inverse of the bindings.\<close>

lemma index_exact:
  assumes "table_index_ok t" "conflict_free (binding_for t)"
  shows "map_of (single_reverse t) c = Some j \<longleftrightarrow> binding_for t j = Some (Chord c)"
    and "resolve_sequence t a b = Some j \<longleftrightarrow> binding_for t j = Some (Sequence a b)"
proof -
  have unique: "k = j" if "binding_for t k = Some x" "binding_for t j = Some x" for k x
    using assms(2) that conflicting.simps(1,4) unfolding conflict_free_def by (cases x) blast+
  show "map_of (single_reverse t) c = Some j \<longleftrightarrow> binding_for t j = Some (Chord c)"
    using table_indexD(1,2) [OF assms(1)] unique by fast
  show "resolve_sequence t a b = Some j \<longleftrightarrow> binding_for t j = Some (Sequence a b)"
    using table_indexD(3,4) [OF assms(1)] unique by fast
qed

lemma check_conflict_complete:
  assumes ok: "table_index_ok t" "conflict_free (binding_for t)" and sh: "permutes sh"
    and none: "check_conflict sh t i x = None" and y: "binding_for t j = Some y" "j \<noteq> i"
  shows "\<not> conflicting x y"
proof
  assume c: "conflicting x y"
  show False
  proof (cases x)
    case (Chord d)
    have "y \<noteq> Chord d"
    proof
      assume "y = Chord d"
      then have "map_of (single_reverse t) d = Some j" using y index_exact(1) [OF ok] by simp
      with Chord none y(2) show False by (simp add: check_chord_conflict_def other_def)
    qed
    with c Chord obtain a b where s: "y = Sequence a b" "a = d" by (cases y) auto
    then have r: "resolve_sequence t d b = Some j" using y index_exact(2) [OF ok] by simp
    then obtain m where m: "map_of (sequence_first_chords t) d = Some m"
      by (auto simp: resolve_sequence_def bind_eq_Some_conv)
    then have "j \<in> set (sh (map snd m))" using first_chord_values [OF ok(1) m] r sh by auto
    moreover have "List.find (\<lambda>cmd. cmd \<noteq> i) (sh (map snd m)) = None"
      using none Chord m by (simp add: check_chord_conflict_def split: option.splits)
    ultimately show False using y(2) by (auto simp: find_None_iff)
  next
    case (Sequence a b)
    then have "other i (map_of (single_reverse t) a) = None" "other i (resolve_sequence t a b) = None"
      using none by (auto simp: check_sequence_conflict_def split: option.splits)
    moreover have "map_of (single_reverse t) a = Some j \<or> resolve_sequence t a b = Some j"
      using c Sequence y(1) index_exact [OF ok] by (cases y) auto
    ultimately show False using y(2) by (auto simp: other_None)
  qed
qed

section \<open>What resolving promises\<close>

text \<open>
  The interface that the keyboard relies on: a chord runs the command bound to it and otherwise waits
  exactly if it starts a sequence; a second chord runs the command bound to the sequence.
\<close>

locale key_resolver =
  fixes chord_result :: "chord \<Rightarrow> 'c resolve_result" and sequence_result :: "chord \<Rightarrow> chord \<Rightarrow> 'c option"
    and binding_of :: "'c \<Rightarrow> key_binding option"
  assumes chord_command: "chord_result c = Command i \<longleftrightarrow> binding_of i = Some (Chord c)"
    and chord_pending: "chord_result c = Pending \<longleftrightarrow> (\<exists>i b. binding_of i = Some (Sequence c b))"
    and sequence_command: "sequence_result a b = Some i \<longleftrightarrow> binding_of i = Some (Sequence a b)"
begin

lemma one_command: "binding_of i = Some x \<Longrightarrow> binding_of j = Some x \<Longrightarrow> i = j"
proof (cases x)
  case (Chord c)
  assume "binding_of i = Some x" "binding_of j = Some x"
  with Chord show ?thesis using chord_command [of c i] chord_command [of c j] by simp
next
  case (Sequence a b)
  assume "binding_of i = Some x" "binding_of j = Some x"
  with Sequence show ?thesis using sequence_command [of a b i] sequence_command [of a b j] by simp
qed

lemma unbound_no_match:
  "(\<And>i. binding_of i \<noteq> Some (Chord c)) \<Longrightarrow> (\<And>i b. binding_of i \<noteq> Some (Sequence c b)) \<Longrightarrow>
     chord_result c = NoMatch"
  using chord_command chord_pending by (cases "chord_result c") blast+

end

lemma table_resolver:
  assumes "table_index_ok t" "conflict_free (binding_for t)"
  shows "key_resolver (resolve_chord t) (resolve_sequence t) (binding_for t)"
proof
  fix a b i
  show "resolve_sequence t a b = Some i \<longleftrightarrow> binding_for t i = Some (Sequence a b)"
    by (rule index_exact(2) [OF assms])
next
  fix c
  have starts: "map_of (sequence_first_chords t) c \<noteq> None \<longleftrightarrow> (\<exists>i b. binding_for t i = Some (Sequence c b))"
    (is "?l \<longleftrightarrow> ?r")
  proof
    assume ?l
    then obtain m where m: "map_of (sequence_first_chords t) c = Some m" by blast
    then have "\<exists>b i. map_of m b = Some i"
      using table_indexD(5) [OF assms(1) m] by (cases m) (auto intro: exI [of _ "fst (hd m)"])
    then obtain b i where "map_of m b = Some i" by blast
    with m have "resolve_sequence t c b = Some i" by (simp add: resolve_sequence_def)
    then show ?r using index_exact(2) [OF assms] by blast
  next
    assume ?r
    then obtain i b where "resolve_sequence t c b = Some i" using index_exact(2) [OF assms] by blast
    then show ?l by (auto simp: resolve_sequence_def bind_eq_Some_conv)
  qed
  then show "resolve_chord t c = Pending \<longleftrightarrow> (\<exists>i b. binding_for t i = Some (Sequence c b))"
    by (auto simp: resolve_chord_def split: option.splits)
  fix i
  have "binding_for t i = Some (Chord c) \<Longrightarrow> \<not> (\<exists>j b. binding_for t j = Some (Sequence c b))"
    using assms(2) unfolding conflict_free_def
    by (metis conflicting.simps(2) key_binding.distinct(1) option.inject)
  with starts index_exact(1) [OF assms, of c i]
  show "resolve_chord t c = Command i \<longleftrightarrow> binding_for t i = Some (Chord c)"
    by (auto simp: resolve_chord_def split: option.splits)
qed

section \<open>Tables of the application\<close>

lemma binding_for_override:
  "binding_for (t\<lparr>bt_overrides := AList.update i x (bt_overrides t)\<rparr>) j = (if j = i then x else binding_for t j)"
  by (simp add: binding_for_def update_conv' split: option.split)

lemma binding_for_unoverride:
  "binding_for (t\<lparr>bt_overrides := AList.delete i (bt_overrides t)\<rparr>) j =
     (if j = i then map_of (bt_defaults t) i else binding_for t j)"
  by (simp add: binding_for_def delete_conv' split: option.split)

lemma conflict_free_upd:
  assumes "conflict_free f" "\<And>j y. x = Some z \<Longrightarrow> f j = Some y \<Longrightarrow> j \<noteq> i \<Longrightarrow> \<not> conflicting z y"
    and "x = None \<or> x = Some z"
  shows "conflict_free (\<lambda>j. if j = i then x else f j)"
  using assms conflicting_sym unfolding conflict_free_def by (auto split: if_splits)

definition table_ok :: "('c \<times> key_binding) list \<Rightarrow> 'c binding_table \<Rightarrow> bool" where
  "table_ok defs t =
     (table_index_ok t \<and> conflict_free (binding_for t) \<and> map_of (bt_defaults t) = map_of defs)"

lemma collect_map_of: "distinct (map fst kvs) \<Longrightarrow> map_of (fold (\<lambda>(k, v). AList.update k v) kvs m) = map_of m ++ map_of kvs"
proof (induction kvs arbitrary: m)
  case (Cons kv kvs)
  obtain k v where kv: "kv = (k, v)" by fastforce
  with Cons.prems have "map_of kvs k = None" by (simp add: map_of_eq_None_iff)
  with kv Cons show ?case by (auto simp: update_conv' map_add_def fun_eq_iff split: option.split)
qed simp

lemma table_new_ok:
  assumes "permutes sh" "distinct (map fst defs)" "conflict_free (map_of defs)"
  shows "table_ok defs (table_new sh defs p)"
proof -
  have "binding_for (table_new sh defs p) = map_of defs"
    by (simp add: table_new_def binding_for_def collect_map_of [OF assms(2)] fun_eq_iff)
  with assms show ?thesis
    by (simp add: table_ok_def) (simp add: table_new_def rebuild_index_ok collect_map_of)
qed

lemma set_override_ok:
  assumes "table_ok defs t" "permutes sc" "permutes sh" "set_override sc sh i x t = Inr u"
  shows "table_ok defs u"
proof -
  have none: "check_conflict sc t i x = None"
    and u: "u = rebuild_reverse sh (t\<lparr>bt_overrides := AList.update i (Some x) (bt_overrides t)\<rparr>)"
    using assms(4) by (auto simp: set_override_def split: option.splits)
  have "conflict_free (\<lambda>j. if j = i then Some x else binding_for t j)"
    using assms(1) check_conflict_complete [OF _ _ assms(2) none]
    by (intro conflict_free_upd [where z = x]) (auto simp: table_ok_def)
  then show ?thesis using assms(1)
    by (simp add: table_ok_def u rebuild_index_ok assms(3) binding_for_override [abs_def])
qed

lemma unbind_ok:
  assumes "table_ok defs t" "permutes sh"
  shows "table_ok defs (unbind sh i t)"
  using assms conflict_free_upd [of "binding_for t" None undefined i]
  by (simp add: table_ok_def unbind_def rebuild_index_ok binding_for_override [abs_def])

lemma remove_override_ok:
  assumes "table_ok defs t" "permutes sh"
    and "\<And>x j y. map_of defs i = Some x \<Longrightarrow> binding_for t j = Some y \<Longrightarrow> j \<noteq> i \<Longrightarrow> \<not> conflicting x y"
  shows "table_ok defs (remove_override sh i t)"
proof -
  have "conflict_free (\<lambda>j. if j = i then map_of (bt_defaults t) i else binding_for t j)"
    using assms conflict_free_upd [of "binding_for t" "map_of (bt_defaults t) i" _ i]
    by (cases "map_of defs i") (auto simp: table_ok_def)
  with assms(1,2) show ?thesis
    by (simp add: table_ok_def remove_override_def rebuild_index_ok binding_for_unoverride [abs_def])
qed

lemma reset_all_ok:
  assumes "table_ok defs t" "permutes sh" "conflict_free (map_of defs)"
  shows "table_ok defs (reset_all sh t)"
proof -
  have "binding_for (t\<lparr>bt_overrides := []\<rparr>) = map_of (bt_defaults t)"
    by (simp add: binding_for_def fun_eq_iff)
  with assms show ?thesis by (simp add: table_ok_def reset_all_def rebuild_index_ok)
qed

text \<open>
  The tables the user can get to by setting and unbinding keys and by a reset of all. Taking back a
  single override is left out: it can bring a conflict back.
\<close>

inductive reachable_table :: "('c \<times> key_binding) list \<Rightarrow> 'c binding_table \<Rightarrow> bool"
  for defs :: "('c \<times> key_binding) list" where
  fresh: "permutes sh \<Longrightarrow> reachable_table defs (table_new sh defs p)"
| overridden: "reachable_table defs t \<Longrightarrow> permutes sc \<Longrightarrow> permutes sh \<Longrightarrow>
    set_override sc sh i x t = Inr u \<Longrightarrow> reachable_table defs u"
| unbound: "reachable_table defs t \<Longrightarrow> permutes sh \<Longrightarrow> reachable_table defs (unbind sh i t)"
| reset: "reachable_table defs t \<Longrightarrow> permutes sh \<Longrightarrow> reachable_table defs (reset_all sh t)"

lemma reachable_table_ok:
  assumes "reachable_table defs t" "distinct (map fst defs)" "conflict_free (map_of defs)"
  shows "table_ok defs t"
  using assms
  by (induction rule: reachable_table.induct) (auto intro: table_new_ok set_override_ok unbind_ok reset_all_ok)

text \<open>A list of defaults without conflicts.\<close>

lemma conflict_free_list:
  assumes "sorted_wrt (\<lambda>x y. \<not> conflicting x y) (map snd defs)"
  shows "conflict_free (map_of defs)"
  unfolding conflict_free_def
proof (intro allI impI)
  fix i j x y
  assume ij: "map_of defs i = Some x" "map_of defs j = Some y" "i \<noteq> j"
  obtain m n where mn: "m < length defs" "defs ! m = (i, x)" "n < length defs" "defs ! n = (j, y)"
    using ij by (metis in_set_conv_nth map_of_SomeD)
  with ij(3) have "m < n \<or> n < m" by (metis fst_conv nat_neq_iff)
  then show "\<not> conflicting x y"
    using assms mn conflicting_sym [of x y] by (fastforce simp: sorted_wrt_iff_nth_less)
qed

text \<open>When two commands share a chord, the order of the hash map decides which one it runs.\<close>

definition move_last :: "'c \<Rightarrow> 'c list \<Rightarrow> 'c list" where
  "move_last i xs = filter (\<lambda>x. x \<noteq> i) xs @ filter (\<lambda>x. x = i) xs"

lemma permutes_move_last: "permutes (move_last i)"
proof -
  have "mset (filter (\<lambda>x. x \<noteq> i) xs) + mset (filter (\<lambda>x. x = i) xs) = mset xs" for xs
    by (induction xs) auto
  then show ?thesis by (simp add: permutes_def move_last_def)
qed

lemma move_last_distinct: "distinct xs \<Longrightarrow> i \<in> set xs \<Longrightarrow> move_last i xs = filter (\<lambda>x. x \<noteq> i) xs @ [i]"
  by (induction xs) (auto simp: move_last_def filter_empty_conv)

lemma last_binding_wins:
  assumes "binding_for t i = Some (Chord c)" "\<And>k b. binding_for t k \<noteq> Some (Sequence c b)"
  shows "resolve_chord (rebuild_reverse (move_last i) t) c = Command i"
proof -
  let ?ids = "remdups (map fst (bt_defaults t) @ map fst (bt_overrides t))"
  have "i \<in> set ?ids" using binding_for_keys [OF assms(1)] by auto
  then have eff: "effective_bindings (move_last i) t =
      List.map_filter (\<lambda>i. map_option (Pair i) (binding_for t i)) (filter (\<lambda>x. x \<noteq> i) ?ids) @ [(i, Chord c)]"
    using assms(1) by (simp add: effective_bindings_def move_last_distinct List.map_filter_def)
  obtain s q where "fold index_binding (effective_bindings (move_last i) t) ([], []) = (AList.update c i s, q)"
    unfolding eff by (cases "fold index_binding (List.map_filter
        (\<lambda>i. map_option (Pair i) (binding_for t i)) (filter (\<lambda>x. x \<noteq> i) ?ids)) ([], [])") simp
  then have r: "rebuild_reverse (move_last i) t = t\<lparr>single_reverse := AList.update c i s, sequence_first_chords := q\<rparr>"
    by (simp add: rebuild_reverse_def)
  have ok: "table_index_ok (rebuild_reverse (move_last i) t)" by (rule rebuild_index_ok [OF permutes_move_last])
  have "map_of q c = None"
  proof (rule ccontr)
    assume "map_of q c \<noteq> None"
    then obtain m where m: "map_of (sequence_first_chords (rebuild_reverse (move_last i) t)) c = Some m"
      using r by auto
    obtain k where "k \<in> set (map snd m)" using table_indexD(5) [OF ok m] by (cases m) auto
    then obtain b where "resolve_sequence (rebuild_reverse (move_last i) t) c b = Some k"
      using first_chord_values [OF ok m] by blast
    from table_indexD(3) [OF ok this] assms(2) show False by simp
  qed
  with r show ?thesis by (simp add: resolve_chord_def update_conv')
qed

lemma removed_override_ambiguous:
  assumes "table_ok defs t" "map_of defs i = Some (Chord c)" "binding_for t j = Some (Chord c)" "j \<noteq> i"
    and "k = i \<or> k = j"
  shows "resolve_chord (remove_override (move_last k) i t) c = Command k"
proof -
  let ?u = "t\<lparr>bt_overrides := AList.delete i (bt_overrides t)\<rparr>"
  have u: "binding_for ?u l = (if l = i then Some (Chord c) else binding_for t l)" for l
    using assms(1,2) by (simp add: binding_for_unoverride table_ok_def)
  have "binding_for t l \<noteq> Some (Sequence c b)" for l b
    using assms(1,3) unfolding table_ok_def conflict_free_def
    by (metis conflicting.simps(2) key_binding.distinct(1) option.inject)
  then have "resolve_chord (rebuild_reverse (move_last k) ?u) c = Command k"
    using assms(3,4,5) u by (intro last_binding_wins) auto
  then show ?thesis by (simp add: remove_override_def)
qed

section \<open>Saving and loading\<close>

text \<open>What a saved override is after it was loaded: itself, or nothing if its text cannot be read.\<close>

definition restored :: "key_binding option option \<Rightarrow> key_binding option option" where
  "restored x = (case x of Some (Some b) \<Rightarrow> if plus_binding b then None else x | _ \<Rightarrow> x)"

definition overrides_ok :: "('c \<times> key_binding option) list \<Rightarrow> bool" where
  "overrides_ok ovs = (distinct (map fst ovs) \<and> (\<forall>(i, x)\<in>set ovs. pred_option binding_ok x))"

lemma map_of_read_entries:
  assumes "\<And>k i. parse_id k = Some i \<longleftrightarrow> k = as_str i" "distinct (map fst es)"
  shows "map_of (fold (read_entry parse_id) es m) i =
    (case map_of es (as_str i) of
       None \<Rightarrow> map_of m i
     | Some None \<Rightarrow> Some None
     | Some (Some str) \<Rightarrow> (case binding_parse str of Inr b \<Rightarrow> Some (Some b) | Inl e \<Rightarrow> map_of m i))"
  using assms(2)
proof (induction es arbitrary: m)
  case (Cons kv es)
  obtain k v where kv: "kv = (k, v)" by fastforce
  with Cons.prems have fresh: "map_of es k = None" by (simp add: map_of_eq_None_iff)
  show ?case
  proof (cases "k = as_str i")
    case True
    then have "parse_id k = Some i" using assms(1) by simp
    with kv True fresh Cons show ?thesis
      by (auto simp: update_conv' split: option.splits sum.splits)
  next
    case False
    then have "map_of (read_entry parse_id kv m) i = map_of m i"
      using kv assms(1) [of k] by (auto simp: update_conv' split: option.splits sum.splits)
    with kv False Cons show ?thesis by (auto split: option.splits sum.splits)
  qed
qed simp

lemma distinct_collect_map [simp]: "distinct (map fst (collect_map kvs))"
proof -
  have "distinct (map fst m) \<Longrightarrow> distinct (map fst (fold (\<lambda>(k, v). AList.update k v) kvs m))" for m
    by (induction kvs arbitrary: m) (auto simp: distinct_update)
  then show ?thesis by (simp add: collect_map_def)
qed

lemma map_of_sort_key: "distinct (map fst kvs) \<Longrightarrow> map_of (sort_key fst kvs) = map_of kvs"
  by (subst map_of_inject_set) (simp_all add: distinct_map)

lemma map_of_inj_keys:
  "inj f \<Longrightarrow> map_of (map (\<lambda>(i, b). (f i, g b)) kvs) (f i) = map_option g (map_of kvs i)"
  by (induction kvs) (auto simp: inj_eq)

lemma map_of_overrides_file:
  assumes "inj as_str" "distinct (map fst (bt_overrides t))"
  shows "map_of (overrides_file as_str t) (as_str i) =
    map_option (map_option binding_canonical) (map_of (bt_overrides t) i)"
proof -
  have "distinct (map fst (map (\<lambda>(i, b). (as_str i, map_option binding_canonical b)) (bt_overrides t)))"
    using assms by (auto simp: distinct_map comp_def case_prod_beta inj_on_def)
  then show ?thesis
    using collect_map_of [of "map (\<lambda>(i, b). (as_str i, map_option binding_canonical b)) (bt_overrides t)" "[]"]
    by (simp add: overrides_file_def map_of_sort_key map_of_inj_keys [OF assms(1)])
      (simp add: collect_map_def map_of_inj_keys [OF assms(1)])
qed

lemma overrides_file_roundtrip:
  assumes "\<And>k i. parse_id k = Some i \<longleftrightarrow> k = as_str i" "overrides_ok (bt_overrides t)"
  shows "map_of (fold (read_entry parse_id) (overrides_file as_str t) []) i = restored (map_of (bt_overrides t) i)"
proof -
  have inj: "inj as_str" using assms(1) by (metis injI option.inject)
  have "distinct (map fst (overrides_file as_str t))"
    by (simp add: overrides_file_def distinct_map [of fst "sort_key _ _"] distinct_map [THEN iffD1, OF distinct_collect_map])
  note read = map_of_read_entries [OF assms(1) this, of "[]" i]
    map_of_overrides_file [OF inj, of t i]
  have "pred_option binding_ok x" if "map_of (bt_overrides t) i = Some x" for x
    using map_of_SomeD [OF that] assms(2) by (auto simp: overrides_ok_def)
  then show ?thesis
    using read assms(2) by (auto simp: restored_def overrides_ok_def parse_canonical_binding split: option.splits)
qed

end
