(* ===== verification/KeyDispatch.thy ===== *)
theory KeyDispatch
  imports CmdRegistry
begin

text \<open>
  From a key press to a command (\<^verbatim>\<open>crates/app/src/handlers/keyboard.rs\<close> and the key conversion of
  \<^verbatim>\<open>crates/app/src/command_dispatch.rs\<close>): what the palette, the settings, the typeahead and a focused
  widget take for themselves, the pending first chord of a sequence, and the resolution by the table.
  The message a handler passes on is the outcome. The keys and modifiers of the package iced are data:
  the named keys the code mentions and one for all others, and the answers of the methods it calls.
\<close>

section \<open>Keys of the toolkit\<close>

datatype iced_named =
    IEscape | IArrowUp | IArrowDown | IArrowLeft | IArrowRight | IEnter | ITab | ISpace |
    IBackspace | IDelete | IHome | IEnd | IPageUp | IPageDown | IF1 | IF2 | IF3 | IF4 | IF5 |
    IF6 | IF7 | IF8 | IF9 | IF10 | IF11 | IF12 | IOther

datatype iced_key = Character string | INamed iced_named | Unidentified

record iced_modifiers =
  command :: bool
  control :: bool
  imod_shift :: bool
  imod_alt :: bool

fun iced_named_to_cp :: "iced_named \<Rightarrow> named_key option" where
  "iced_named_to_cp IEscape = Some EscapeKey"
| "iced_named_to_cp IArrowUp = Some ArrowUpKey"
| "iced_named_to_cp IArrowDown = Some ArrowDownKey"
| "iced_named_to_cp IArrowLeft = Some ArrowLeftKey"
| "iced_named_to_cp IArrowRight = Some ArrowRightKey"
| "iced_named_to_cp IEnter = Some EnterKey"
| "iced_named_to_cp ITab = Some TabKey"
| "iced_named_to_cp ISpace = Some SpaceKey"
| "iced_named_to_cp IBackspace = Some BackspaceKey"
| "iced_named_to_cp IDelete = Some DeleteKey"
| "iced_named_to_cp IHome = Some HomeKey"
| "iced_named_to_cp IEnd = Some EndKey"
| "iced_named_to_cp IPageUp = Some PageUpKey"
| "iced_named_to_cp IPageDown = Some PageDownKey"
| "iced_named_to_cp IF1 = Some F1Key"
| "iced_named_to_cp IF2 = Some F2Key"
| "iced_named_to_cp IF3 = Some F3Key"
| "iced_named_to_cp IF4 = Some F4Key"
| "iced_named_to_cp IF5 = Some F5Key"
| "iced_named_to_cp IF6 = Some F6Key"
| "iced_named_to_cp IF7 = Some F7Key"
| "iced_named_to_cp IF8 = Some F8Key"
| "iced_named_to_cp IF9 = Some F9Key"
| "iced_named_to_cp IF10 = Some F10Key"
| "iced_named_to_cp IF11 = Some F11Key"
| "iced_named_to_cp IF12 = Some F12Key"
| "iced_named_to_cp IOther = None"

definition chord_modifiers_of :: "iced_modifiers \<Rightarrow> modifiers" where
  "chord_modifiers_of m = \<lparr>cmd_or_ctrl = command m \<or> control m, shift = imod_shift m, alt = imod_alt m\<rparr>"

definition iced_key_to_chord :: "iced_key \<Rightarrow> iced_modifiers \<Rightarrow> chord option" where
  "iced_key_to_chord k m =
     (case k of
        Character c \<Rightarrow>
          (case utf8_chars c of
             [] \<Rightarrow> None
           | ch # _ \<Rightarrow>
               Some \<lparr>chord_key = KeyChar (map ascii_lower_char ch), chord_modifiers = chord_modifiers_of m\<rparr>)
      | INamed n \<Rightarrow>
          map_option (\<lambda>cp. \<lparr>chord_key = Named cp, chord_modifiers = chord_modifiers_of m\<rparr>) (iced_named_to_cp n)
      | Unidentified \<Rightarrow> None)"

definition has_command_modifier :: "iced_modifiers \<Rightarrow> bool" where
  "has_command_modifier m = (command m \<or> control m)"

section \<open>The keyboard handler\<close>

record compose_dialogs =
  link_dialog_open :: bool
  link_url :: string
  link_text :: string
  discard_confirm_open :: bool
  save_group_dialog_open :: bool
  save_group_name :: string
  save_group_error :: "string option"
  save_group_in_flight :: bool

datatype pop_out_window = MessageViewWindow | ComposeWindow compose_dialogs | CalendarWindow

record keyboard =
  main_window_id :: nat
  pop_out_windows :: "(nat \<times> pop_out_window) list"
  palette_is_open :: bool
  show_settings :: bool
  pending_discard :: bool
  focused_filter :: "nat option"
  active_sheet :: bool
  typeahead_visible :: bool
  typeahead_selected :: nat
  pending_chord :: "chord option"
  binding_table_of :: "command_id binding_table"

datatype key_outcome =
    Ignored
  | ClosePalette | PaletteSelectNext | PaletteSelectPrev | PaletteConfirm
  | CancelDiscardEditorChanges | FilterCleared nat | CloseSheet | CloseSettings
  | TypeaheadUp | TypeaheadDown | TypeaheadSelect nat | TypeaheadDismiss
  | CloseWindow nat
  | ExecuteCommand command_id

datatype key_event =
    KeyPressed iced_key iced_modifiers bool nat
  | PendingChordTimeout

definition is_command_available :: "command_registry \<Rightarrow> command_context \<Rightarrow> command_id \<Rightarrow> bool" where
  "is_command_available r ctx i = (case registry_get r i of Some d \<Rightarrow> is_available d ctx | None \<Rightarrow> False)"

fun handle_palette_key :: "iced_key \<Rightarrow> key_outcome" where
  "handle_palette_key (INamed IEscape) = ClosePalette"
| "handle_palette_key (INamed IArrowDown) = PaletteSelectNext"
| "handle_palette_key (INamed IArrowUp) = PaletteSelectPrev"
| "handle_palette_key (INamed IEnter) = PaletteConfirm"
| "handle_palette_key _ = Ignored"

definition handle_settings_key :: "iced_key \<Rightarrow> keyboard \<Rightarrow> key_outcome" where
  "handle_settings_key k st =
     (if k = INamed IEscape then
        if pending_discard st then CancelDiscardEditorChanges
        else (case focused_filter st of
                Some f \<Rightarrow> FilterCleared f
              | None \<Rightarrow> if active_sheet st then CloseSheet else CloseSettings)
      else Ignored)"

fun typeahead_key :: "iced_key \<Rightarrow> keyboard \<Rightarrow> key_outcome option" where
  "typeahead_key (INamed IArrowUp) st = Some TypeaheadUp"
| "typeahead_key (INamed IArrowDown) st = Some TypeaheadDown"
| "typeahead_key (INamed ITab) st = Some (TypeaheadSelect (typeahead_selected st))"
| "typeahead_key (INamed IEscape) st = Some TypeaheadDismiss"
| "typeahead_key _ st = None"

definition try_resolve_single_chord ::
  "(command_id \<Rightarrow> bool) \<Rightarrow> chord \<Rightarrow> keyboard \<Rightarrow> key_outcome \<times> keyboard" where
  "try_resolve_single_chord available c st =
     (case resolve_chord (binding_table_of st) c of
        Command i \<Rightarrow> (if available i then ExecuteCommand i else Ignored, st)
      | Pending \<Rightarrow> (Ignored, st\<lparr>pending_chord := Some c\<rparr>)
      | NoMatch \<Rightarrow> (Ignored, st))"

definition resolve_press :: "(command_id \<Rightarrow> bool) \<Rightarrow> chord \<Rightarrow> keyboard \<Rightarrow> key_outcome \<times> keyboard" where
  "resolve_press available c st =
     (case pending_chord st of
        Some a \<Rightarrow>
          (let st1 = st\<lparr>pending_chord := None\<rparr>
           in case resolve_sequence (binding_table_of st1) a c of
                Some i \<Rightarrow> (if available i then ExecuteCommand i else Ignored, st1)
              | None \<Rightarrow> try_resolve_single_chord available c st1)
      | None \<Rightarrow> try_resolve_single_chord available c st)"

definition handle_key_pressed ::
  "(command_id \<Rightarrow> bool) \<Rightarrow> iced_key \<Rightarrow> iced_modifiers \<Rightarrow> bool \<Rightarrow> keyboard \<Rightarrow> key_outcome \<times> keyboard" where
  "handle_key_pressed available k m captured st =
     (if palette_is_open st then (handle_palette_key k, st)
      else if show_settings st then (handle_settings_key k st, st)
      else case (if typeahead_visible st then typeahead_key k st else None) of
        Some outcome \<Rightarrow> (outcome, st)
      | None \<Rightarrow>
          if captured \<and> \<not> has_command_modifier m then (Ignored, st)
          else (case iced_key_to_chord k m of
                  None \<Rightarrow> (Ignored, st)
                | Some c \<Rightarrow> resolve_press available c st))"

text \<open>Escape in a pop-out window first closes a dialog of its compose window, then the window.\<close>

definition close_compose_dialog :: "compose_dialogs \<Rightarrow> compose_dialogs option" where
  "close_compose_dialog d =
     (if link_dialog_open d then Some (d\<lparr>link_dialog_open := False, link_url := [], link_text := []\<rparr>)
      else if discard_confirm_open d then Some (d\<lparr>discard_confirm_open := False\<rparr>)
      else if save_group_dialog_open d
      then Some (d\<lparr>save_group_dialog_open := False, save_group_name := [], save_group_error := None,
                   save_group_in_flight := False\<rparr>)
      else None)"

fun handle_key_event :: "(command_id \<Rightarrow> bool) \<Rightarrow> key_event \<Rightarrow> keyboard \<Rightarrow> key_outcome \<times> keyboard" where
  "handle_key_event available (KeyPressed k m captured w) st =
     (if k = INamed IEscape \<and> w \<noteq> main_window_id st then
        (case map_of (pop_out_windows st) w of
           Some (ComposeWindow d) \<Rightarrow>
             (case close_compose_dialog d of
                Some d' \<Rightarrow>
                  (Ignored, st\<lparr>pop_out_windows := AList.update w (ComposeWindow d') (pop_out_windows st)\<rparr>)
              | None \<Rightarrow> (CloseWindow w, st))
         | Some _ \<Rightarrow> (CloseWindow w, st)
         | None \<Rightarrow> handle_key_pressed available k m captured st)
      else handle_key_pressed available k m captured st)"
| "handle_key_event available PendingChordTimeout st = (Ignored, st\<lparr>pending_chord := None\<rparr>)"

section \<open>What a press runs\<close>

text \<open>The press is neither taken by the palette, the settings, the typeahead or a widget, nor Escape in a pop-out.\<close>

definition reaches_table :: "iced_key \<Rightarrow> iced_modifiers \<Rightarrow> bool \<Rightarrow> nat \<Rightarrow> keyboard \<Rightarrow> bool" where
  "reaches_table k m captured w st =
     (\<not> palette_is_open st \<and> \<not> show_settings st \<and>
      (typeahead_visible st \<longrightarrow> typeahead_key k st = None) \<and> (captured \<longrightarrow> has_command_modifier m) \<and>
      (k = INamed IEscape \<longrightarrow> w = main_window_id st))"

lemma press_reaches_table:
  "reaches_table k m captured w st \<Longrightarrow> iced_key_to_chord k m = Some c \<Longrightarrow>
     handle_key_event available (KeyPressed k m captured w) st = resolve_press available c st"
  by (auto simp: reaches_table_def handle_key_pressed_def)

text \<open>The command that a chord is for, with the chord that is pending before it.\<close>

definition meant_by :: "(command_id \<Rightarrow> key_binding option) \<Rightarrow> chord option \<Rightarrow> chord \<Rightarrow> command_id \<Rightarrow> bool" where
  "meant_by binding pending c i =
     (case pending of
        None \<Rightarrow> binding i = Some (Chord c)
      | Some a \<Rightarrow>
          binding i = Some (Sequence a c) \<or>
          (\<forall>j. binding j \<noteq> Some (Sequence a c)) \<and> binding i = Some (Chord c))"

lemma single_chord_runs:
  assumes "key_resolver (resolve_chord (binding_table_of st)) (resolve_sequence (binding_table_of st)) binding"
  shows "fst (try_resolve_single_chord available c st) = ExecuteCommand i \<longleftrightarrow>
      available i \<and> binding i = Some (Chord c)"
    and "pending_chord (snd (try_resolve_single_chord available c st)) =
      (if \<exists>j b. binding j = Some (Sequence c b) then Some c else pending_chord st)"
  using key_resolver.chord_command [OF assms, of c i] key_resolver.chord_pending [OF assms, of c]
  by (cases "resolve_chord (binding_table_of st) c"; auto simp: try_resolve_single_chord_def)+

lemma press_runs:
  assumes "key_resolver (resolve_chord (binding_table_of st)) (resolve_sequence (binding_table_of st)) binding"
  shows "fst (resolve_press available c st) = ExecuteCommand i \<longleftrightarrow>
      available i \<and> meant_by binding (pending_chord st) c i"
proof (cases "pending_chord st")
  case None
  then show ?thesis using single_chord_runs(1) [OF assms] by (simp add: resolve_press_def meant_by_def)
next
  case (Some a)
  have single: "fst (try_resolve_single_chord available c (st\<lparr>pending_chord := None\<rparr>)) = ExecuteCommand i \<longleftrightarrow>
      available i \<and> binding i = Some (Chord c)"
    using assms by (intro single_chord_runs(1)) simp
  note seq = key_resolver.sequence_command [OF assms, of a c]
  show ?thesis
  proof (cases "resolve_sequence (binding_table_of st) a c")
    case None
    with seq have "\<forall>j. binding j \<noteq> Some (Sequence a c)" by (metis option.distinct(1))
    with None Some single show ?thesis by (simp add: resolve_press_def meant_by_def)
  next
    case (Some j)
    with seq [of j] seq [of i] \<open>pending_chord st = Some a\<close> show ?thesis
      by (auto simp: resolve_press_def meant_by_def)
  qed
qed

lemma press_pending:
  assumes "key_resolver (resolve_chord (binding_table_of st)) (resolve_sequence (binding_table_of st)) binding"
    and "pending_chord st = None"
  shows "pending_chord (snd (resolve_press available c st)) =
    (if \<exists>j b. binding j = Some (Sequence c b) then Some c else None)"
  using single_chord_runs(2) [OF assms(1), of available c] assms(2) by (simp add: resolve_press_def)

section \<open>The default bindings\<close>

lemma conflict_free_defaults: "conflict_free (map_of (default_bindings registry_new))"
  by (rule conflict_free_list [OF default_bindings_apart])

lemma distinct_defaults: "distinct (map fst (default_bindings registry_new))"
  by (rule distinct_default_ids [OF distinct_registry])

lemma reachable_defaults:
  "reachable_table (default_bindings registry_new) t \<Longrightarrow> table_ok (default_bindings registry_new) t"
  by (rule reachable_table_ok [OF _ distinct_defaults conflict_free_defaults])

lemma reachable_resolver:
  "reachable_table (default_bindings registry_new) t \<Longrightarrow>
     key_resolver (resolve_chord t) (resolve_sequence t) (binding_for t)"
  using reachable_defaults [of t] by (auto simp: table_ok_def intro: table_resolver)

definition default_table :: "command_id binding_table" where
  "default_table = table_new (\<lambda>xs. xs) (default_bindings registry_new) Linux"

lemma default_table_reachable: "reachable_table (default_bindings registry_new) default_table"
  unfolding default_table_def by (rule fresh) simp

interpretation default_keys: key_resolver "resolve_chord default_table" "resolve_sequence default_table"
  "binding_for default_table"
  by (rule reachable_resolver [OF default_table_reachable])

lemma binding_for_fresh: "binding_for (table_new sh (default_bindings registry_new) p) i =
    map_of (default_bindings registry_new) i"
  by (simp add: table_new_def binding_for_def collect_map_of [OF distinct_defaults])

end
