(* ===== verification/CmdPalette.thy ===== *)
theory CmdPalette
  imports CmdRegistry
begin

text \<open>
  The ranking of the command palette (\<^verbatim>\<open>registry/core.rs\<close>, \<^verbatim>\<open>registry/scoring.rs\<close>, \<^verbatim>\<open>registry/usage.rs\<close> of
  \<^verbatim>\<open>crates/cmdk/src\<close>) and its undo stack (\<^verbatim>\<open>undo.rs\<close>). Scores and counts are \<^verbatim>\<open>u32\<close>, written as natural
  numbers with their limit. The matcher of the package nucleo is the record \<open>matcher\<close> of parameters.
\<close>

section \<open>Usage\<close>

definition usage_count :: "usage_tracker \<Rightarrow> command_id \<Rightarrow> nat" where
  "usage_count u i = (case map_of u i of Some n \<Rightarrow> n | None \<Rightarrow> 0)"

definition record_usage :: "command_id \<Rightarrow> usage_tracker \<Rightarrow> usage_tracker" where
  "record_usage i u = AList.update i ((usage_count u i + 1) mod 2 ^ 32) u"

definition usage_to_map :: "usage_tracker \<Rightarrow> (string \<times> nat) list" where
  "usage_to_map u = map (\<lambda>(i, n). (command_id_as_str i, n)) u"

definition load_from_map :: "(string \<times> nat) list \<Rightarrow> usage_tracker \<Rightarrow> usage_tracker" where
  "load_from_map m u =
     fold (\<lambda>(k, n) u. case command_id_parse k of Some i \<Rightarrow> AList.update i n u | None \<Rightarrow> u) m u"

section \<open>Scores\<close>

definition input_mode_for :: "command_descriptor \<Rightarrow> input_mode" where
  "input_mode_for d = (case desc_schema d of Some s \<Rightarrow> Parameterized s | None \<Rightarrow> Direct)"

definition build_command_haystack :: "string \<Rightarrow> string \<Rightarrow> string list \<Rightarrow> string" where
  "build_command_haystack category label keywords =
     category @ '' > '' @ label @ concat (map (\<lambda>kw. '' '' @ kw) keywords)"

definition email_view_relevance :: "command_context \<Rightarrow> nat" where
  "email_view_relevance ctx =
     (if current_view ctx \<in> {Inbox, Starred, Sent, Drafts, Snoozed, Trash, Spam, AllMail, SidebarItem,
          SmartFolder, Bundle, Attachments, Search, PinnedSearch} then 4 else 1)"

definition compose_view_relevance :: "command_context \<Rightarrow> nat" where
  "compose_view_relevance ctx =
     (if composer_is_open ctx then 4
      else if current_view ctx = Drafts then 3
      else if current_view ctx = Inbox \<or> current_view ctx = Sent then 2
      else 1)"

definition category_relevance :: "string \<Rightarrow> command_context \<Rightarrow> nat" where
  "category_relevance category ctx =
     (if category = ''Email'' then email_view_relevance ctx
      else if category = ''Compose'' then compose_view_relevance ctx
      else if category = ''Navigation'' then 2
      else if category = ''Tasks'' then (if current_view ctx = Tasks then 4 else 1)
      else if category = ''View'' then 1
      else if category = ''App'' then 1
      else 0)"

definition focused_region_boost :: "string \<Rightarrow> command_context \<Rightarrow> nat" where
  "focused_region_boost category ctx =
     (if category = ''Compose'' \<and> focused_region_of ctx = Some Composer then 10
      else if category = ''Email'' \<and> focused_region_of ctx \<in> {Some ThreadList, Some ReadingPane} then 10
      else if category = ''Navigation'' \<and> focused_region_of ctx = Some Sidebar then 5
      else 0)"

definition context_boost :: "command_descriptor \<Rightarrow> command_context \<Rightarrow> nat" where
  "context_boost d ctx =
     category_relevance (desc_category d) ctx * 5 + focused_region_boost (desc_category d) ctx"

definition saturating_add :: "nat \<Rightarrow> nat \<Rightarrow> nat" where
  "saturating_add a b = min (a + b) (2 ^ 32 - 1)"

text \<open>The number of significant bits; \<^verbatim>\<open>leading_zeros\<close> is 32 less that.\<close>

fun bit_len :: "nat \<Rightarrow> nat" where
  "bit_len n = (if n = 0 then 0 else Suc (bit_len (n div 2)))"

declare bit_len.simps [simp del]

definition leading_zeros :: "nat \<Rightarrow> nat" where
  "leading_zeros n = 32 - bit_len n"

definition recency_bonus :: "nat \<Rightarrow> nat" where
  "recency_bonus n = (if n = 0 then 0 else (32 - leading_zeros (saturating_add n 1)) * 8)"

section \<open>Queries\<close>

record command_match =
  match_id :: command_id
  match_label :: string
  match_palette_label :: string
  match_category :: string
  match_keybinding :: "string option"
  match_available :: bool
  match_input_mode :: input_mode
  match_score :: nat
  match_positions :: "nat list"
  recency_score :: nat

text \<open>For a query: its number of atoms, the score of a haystack, and the indices the matcher appends.\<close>

record matcher =
  atoms :: "string \<Rightarrow> nat"
  pattern_score :: "string \<Rightarrow> string \<Rightarrow> nat option"
  pattern_indices :: "string \<Rightarrow> string \<Rightarrow> nat list"

definition empty_match :: "platform \<Rightarrow> command_registry \<Rightarrow> command_context \<Rightarrow> command_descriptor \<Rightarrow> command_match" where
  "empty_match p r ctx d =
     \<lparr>match_id = desc_id d, match_label = resolved_label ctx d,
      match_palette_label = resolved_palette_label ctx d, match_category = desc_category d,
      match_keybinding = map_option (binding_display p) (desc_keybinding d),
      match_available = is_available d ctx, match_input_mode = input_mode_for d, match_score = 0,
      match_positions = [], recency_score = usage_count (usage r) (desc_id d)\<rparr>"

definition empty_rank :: "command_context \<Rightarrow> command_match \<Rightarrow> bool \<times> int \<times> int \<times> string \<times> string" where
  "empty_rank ctx a =
     (\<not> match_available a, - int (recency_score a), - int (category_relevance (match_category a) ctx),
      match_category a, match_label a)"

definition query_empty :: "platform \<Rightarrow> command_registry \<Rightarrow> command_context \<Rightarrow> command_match list" where
  "query_empty p r ctx = sort_key (empty_rank ctx) (map (empty_match p r ctx) (descriptors r))"

definition fuzzy_score :: "command_registry \<Rightarrow> command_context \<Rightarrow> command_descriptor \<Rightarrow> nat \<Rightarrow> nat" where
  "fuzzy_score r ctx d raw =
     saturating_add (saturating_add (saturating_add raw (context_boost d ctx))
       (if is_available d ctx then 1000 else 0)) (recency_bonus (usage_count (usage r) (desc_id d)))"

definition command_haystack :: "command_context \<Rightarrow> command_descriptor \<Rightarrow> string" where
  "command_haystack ctx d =
     build_command_haystack (desc_category d) (resolved_label ctx d) (desc_keywords d)"

definition fuzzy_match ::
  "matcher \<Rightarrow> platform \<Rightarrow> command_registry \<Rightarrow> command_context \<Rightarrow> string \<Rightarrow> command_descriptor \<Rightarrow>
   command_match option" where
  "fuzzy_match M p r ctx q d =
     (let haystack = command_haystack ctx d
      in map_option (\<lambda>raw. (empty_match p r ctx d)
             \<lparr>match_score := fuzzy_score r ctx d raw,
              match_positions := remdups_adj (sort (replicate (2 * atoms M q) 0 @ pattern_indices M q haystack))\<rparr>)
           (pattern_score M q haystack))"

definition query_fuzzy ::
  "matcher \<Rightarrow> platform \<Rightarrow> command_registry \<Rightarrow> command_context \<Rightarrow> string \<Rightarrow> command_match list" where
  "query_fuzzy M p r ctx q =
     sort_key (\<lambda>a. - int (match_score a)) (List.map_filter (fuzzy_match M p r ctx q) (descriptors r))"

definition palette_query ::
  "matcher \<Rightarrow> platform \<Rightarrow> command_registry \<Rightarrow> command_context \<Rightarrow> string \<Rightarrow> command_match list" where
  "palette_query M p r ctx q = (if q = [] then query_empty p r ctx else query_fuzzy M p r ctx q)"

text \<open>The options of a parameter step are searched the same way, without the bonuses.\<close>

record option_item =
  option_id :: string
  item_label :: string
  item_path :: "string list option"
  item_keywords :: "string list option"
  disabled :: bool

record option_match =
  matched_item :: option_item
  option_score :: nat
  match_text :: string
  option_positions :: "nat list"

definition join_path :: "string list \<Rightarrow> string" where
  "join_path segments = concat (map (\<lambda>s. s @ '' > '') segments)"

definition build_haystack :: "option_item \<Rightarrow> string" where
  "build_haystack item =
     (case item_path item of Some p \<Rightarrow> if p = [] then '' > '' else join_path p | None \<Rightarrow> []) @
     item_label item @
     (case item_keywords item of Some kws \<Rightarrow> concat (map (\<lambda>kw. '' '' @ kw) kws) | None \<Rightarrow> [])"

definition search_options_fuzzy :: "matcher \<Rightarrow> option_item list \<Rightarrow> string \<Rightarrow> option_match list" where
  "search_options_fuzzy M its q =
     sort_key (\<lambda>a. - int (option_score a))
       (List.map_filter
          (\<lambda>item. map_option (\<lambda>score.
               \<lparr>matched_item = item, option_score = score, match_text = build_haystack item,
                option_positions =
                  remdups_adj (sort (replicate (2 * atoms M q) 0 @ pattern_indices M q (build_haystack item)))\<rparr>)
             (pattern_score M q (build_haystack item)))
          its)"

definition search_options :: "matcher \<Rightarrow> option_item list \<Rightarrow> string \<Rightarrow> option_match list" where
  "search_options M its q =
     (if q = [] then
        map (\<lambda>item. \<lparr>matched_item = item, option_score = 0, match_text = build_haystack item, option_positions = []\<rparr>) its
      else search_options_fuzzy M its q)"

section \<open>Parameters\<close>

datatype param_error = UnknownCommand | NotParameterized | OutOfBounds | WrongPriorSelections

definition validate_param_request ::
  "command_registry \<Rightarrow> command_id \<Rightarrow> nat \<Rightarrow> string list \<Rightarrow> param_error + param_def" where
  "validate_param_request r i index prior =
     (case registry_get r i of
        None \<Rightarrow> Inl UnknownCommand
      | Some d \<Rightarrow>
          (case desc_schema d of
             None \<Rightarrow> Inl NotParameterized
           | Some s \<Rightarrow>
               (case param_at s index of
                  None \<Rightarrow> Inl OutOfBounds
                | Some p \<Rightarrow> if length prior \<noteq> index then Inl WrongPriorSelections else Inr p)))"

section \<open>Undo\<close>

record 'a undo_entry =
  entry_description :: string
  payloads :: "'a list"

record 'a action_undo =
  undo_entries :: "'a undo_entry list"
  undo_capacity :: nat

definition action_undo_new :: "nat \<Rightarrow> 'a action_undo" where
  "action_undo_new n = \<lparr>undo_entries = [], undo_capacity = n\<rparr>"

definition action_undo_push :: "string \<Rightarrow> 'a list \<Rightarrow> 'a action_undo \<Rightarrow> 'a action_undo" where
  "action_undo_push text ps u =
     (let kept = (if length (undo_entries u) \<ge> undo_capacity u then drop 1 (undo_entries u) else undo_entries u)
      in u\<lparr>undo_entries := kept @ [\<lparr>entry_description = text, payloads = ps\<rparr>]\<rparr>)"

definition action_undo_pop :: "'a action_undo \<Rightarrow> 'a undo_entry option \<times> 'a action_undo" where
  "action_undo_pop u =
     (if undo_entries u = [] then (None, u)
      else (Some (last (undo_entries u)), u\<lparr>undo_entries := butlast (undo_entries u)\<rparr>))"

definition action_undo_peek :: "'a action_undo \<Rightarrow> 'a undo_entry option" where
  "action_undo_peek u = (if undo_entries u = [] then None else Some (last (undo_entries u)))"

definition action_undo_clear :: "'a action_undo \<Rightarrow> 'a action_undo" where
  "action_undo_clear u = u\<lparr>undo_entries := []\<rparr>"

section \<open>Bounds of the scores\<close>

lemma bit_len_bound: "n < 2 ^ k \<Longrightarrow> bit_len n \<le> k"
proof (induction k arbitrary: n)
  case (Suc k)
  then have "bit_len (n div 2) \<le> k" by (simp add: less_mult_imp_div_less)
  then show ?case by (subst bit_len.simps) simp
qed (simp add: bit_len.simps)

lemma recency_bonus_bound: "recency_bonus n \<le> 256"
proof -
  have "saturating_add n 1 < 2 ^ 32" by (simp add: saturating_add_def)
  then have "32 - leading_zeros (saturating_add n 1) \<le> 32" by simp
  then show ?thesis by (simp add: recency_bonus_def)
qed

lemma category_relevance_bound: "category_relevance c ctx \<le> 4"
  by (simp add: category_relevance_def email_view_relevance_def compose_view_relevance_def)

lemma context_boost_bound: "context_boost d ctx \<le> 30"
proof -
  have "focused_region_boost (desc_category d) ctx \<le> 10" by (simp add: focused_region_boost_def)
  moreover have "category_relevance (desc_category d) ctx \<le> 4" by (rule category_relevance_bound)
  ultimately show ?thesis unfolding context_boost_def by linarith
qed

text \<open>An enabled command gets at least 1000 points over its raw score, a disabled one at most 286.\<close>

lemma enabled_score: "is_available d ctx \<Longrightarrow> min (raw + 1000) (2 ^ 32 - 1) \<le> fuzzy_score r ctx d raw"
  by (simp add: fuzzy_score_def saturating_add_def)

lemma disabled_score:
  assumes "\<not> is_available d ctx"
  shows "fuzzy_score r ctx d raw \<le> raw + 286"
proof -
  have "fuzzy_score r ctx d raw \<le> raw + context_boost d ctx + recency_bonus (usage_count (usage r) (desc_id d))"
    using assms by (simp add: fuzzy_score_def saturating_add_def)
  with context_boost_bound [of d ctx] recency_bonus_bound [of "usage_count (usage r) (desc_id d)"]
  show ?thesis by linarith
qed

lemma enabled_above_disabled:
  assumes "is_available d ctx" "\<not> is_available e ctx" "raw_e < raw_d + 714" "raw_e + 286 < 2 ^ 32 - 1"
  shows "fuzzy_score r ctx e raw_e < fuzzy_score r ctx d raw_d"
  using enabled_score [OF assms(1), of raw_d r] disabled_score [OF assms(2), of r raw_e] assms(3,4)
  by linarith

section \<open>Order of the results\<close>

lemma sorted_wrt_sort_key:
  assumes "\<And>a b. f a \<le> f b \<Longrightarrow> P a b"
  shows "sorted_wrt P (sort_key f xs)"
proof -
  have "sorted_wrt (\<lambda>a b. f a \<le> f b) (sort_key f xs)"
    using sorted_sort_key [of f xs] by (simp add: sorted_wrt_map)
  then show ?thesis using assms by (rule sorted_wrt_mono_rel [rotated])
qed

lemma empty_rank_order:
  "empty_rank ctx a \<le> empty_rank ctx b \<Longrightarrow>
     (match_available b \<longrightarrow> match_available a) \<and>
     (match_available a = match_available b \<longrightarrow> recency_score b \<le> recency_score a)"
  by (auto simp: empty_rank_def less_eq_prod_def)

lemma sorted_before:
  assumes "sorted_wrt P xs" "a \<in> set xs" "b \<in> set xs" "\<not> P b a" "a \<noteq> b"
  shows "\<exists>us vs ws. xs = us @ a # vs @ b # ws"
proof -
  obtain us vs where xs: "xs = us @ a # vs" using split_list [OF assms(2)] by blast
  have "b \<notin> set us" using assms(1,4) xs by (auto simp: sorted_wrt_append)
  with assms(3,5) xs have "b \<in> set vs" by auto
  then show ?thesis using split_list [of b vs] xs by blast
qed

lemma query_fuzzy_sorted: "sorted_wrt (\<lambda>x y. match_score y \<le> match_score x) (query_fuzzy M p r ctx q)"
  unfolding query_fuzzy_def by (rule sorted_wrt_sort_key) simp

lemma query_fuzzy_set: "set (query_fuzzy M p r ctx q) = {a. \<exists>d\<in>set (descriptors r). fuzzy_match M p r ctx q d = Some a}"
  by (force simp: query_fuzzy_def List.map_filter_def)

lemma registry_ids: "mset (map desc_id (descriptors registry_new)) = mset ALL_IDS"
proof -
  have "set (map desc_id (descriptors registry_new)) = set ALL_IDS"
    using all_ids all_registered by blast
  then show ?thesis using distinct_registry distinct_ids set_eq_iff_mset_eq_distinct by blast
qed

end
