(* ===== verification/KeyProperties.thy ===== *)
theory KeyProperties
  imports KeyDispatch CmdPalette
begin

text \<open>The properties of key bindings and of the command palette.\<close>

section \<open>Pressing keys\<close>

lemma palette_key_no_command: "handle_palette_key k \<noteq> ExecuteCommand i"
  by (cases k rule: handle_palette_key.cases) simp_all

lemma settings_key_no_command: "handle_settings_key k st \<noteq> ExecuteCommand i"
  by (simp add: handle_settings_key_def split: option.split)

lemma typeahead_key_no_command: "typeahead_key k st \<noteq> Some (ExecuteCommand i)"
  by (cases "(k, st)" rule: typeahead_key.cases) simp_all

lemma command_from_chord:
  "fst (handle_key_event available (KeyPressed k m captured w) st) = ExecuteCommand i \<Longrightarrow>
     \<exists>c. iced_key_to_chord k m = Some c \<and> fst (resolve_press available c st) = ExecuteCommand i"
  using palette_key_no_command settings_key_no_command typeahead_key_no_command
  by (auto simp: handle_key_pressed_def split: if_splits option.splits pop_out_window.splits)

text \<open>
  C17: In every table the user can get to by setting and unbinding keys and resetting them all, whatever
  the order of the hash maps, a key press that nothing else takes runs a command if and only if the
  command is available and the pressed chord is its binding, or completes its two-chord binding after
  the pending chord; a chord that completes nothing counts as a first one. After a first chord the
  keyboard waits if and only if the chord starts a binding.
\<close>

theorem key_press_runs:
  assumes "reachable_table (default_bindings registry_new) (binding_table_of st)"
    and "reaches_table k m captured w st" "iced_key_to_chord k m = Some c"
  shows "(fst (handle_key_event available (KeyPressed k m captured w) st) = ExecuteCommand i) =
      (available i \<and> meant_by (binding_for (binding_table_of st)) (pending_chord st) c i) \<and>
    (pending_chord st = None \<longrightarrow>
      pending_chord (snd (handle_key_event available (KeyPressed k m captured w) st)) =
        (if \<exists>j b. binding_for (binding_table_of st) j = Some (Sequence c b) then Some c else None))"
  using press_runs [OF reachable_resolver [OF assms(1)]] press_pending [OF reachable_resolver [OF assms(1)]]
    press_reaches_table [OF assms(2,3)] by simp

definition sample_keyboard :: keyboard where
  "sample_keyboard =
     \<lparr>main_window_id = 0, pop_out_windows = [], palette_is_open = False, show_settings = False,
      pending_discard = False, focused_filter = None, active_sheet = False, typeahead_visible = False,
      typeahead_selected = 0, pending_chord = None, binding_table_of = default_table\<rparr>"

definition no_modifiers :: iced_modifiers where
  "no_modifiers = \<lparr>command = False, control = False, imod_shift = False, imod_alt = False\<rparr>"

lemma default_binding:
  "(i, b) \<in> set (default_bindings registry_new) \<Longrightarrow> binding_for (table_new sh (default_bindings registry_new) p) i = Some b"
  using distinct_defaults by (simp add: binding_for_fresh)

lemma some_defaults:
  "(NavNext, binding_key ''j'') \<in> set (default_bindings registry_new)"
  "(EmailTrash, binding_key ''#'') \<in> set (default_bindings registry_new)"
  "(EmailSpam, binding_key ''!'') \<in> set (default_bindings registry_new)"
  "(AppHelp, binding_key ''?'') \<in> set (default_bindings registry_new)"
  by (simp_all add: default_bindings_def registry_defs List.map_filter_def)

theorem key_press_runs_witness:
  "fst (handle_key_event (\<lambda>i. True) (KeyPressed (Character ''j'') no_modifiers False 0) sample_keyboard) =
     ExecuteCommand NavNext"
proof -
  have "reaches_table (Character ''j'') no_modifiers False 0 sample_keyboard"
    by (simp add: reaches_table_def sample_keyboard_def)
  moreover have "iced_key_to_chord (Character ''j'') no_modifiers = Some (chord_of_char ''j'')"
    by (simp add: iced_key_to_chord_def utf8_chars_def chord_of_char_def chord_modifiers_of_def
        no_modifiers_def MODIFIERS_NONE_def ascii_lower_char_def)
  moreover have "meant_by (binding_for default_table) None (chord_of_char ''j'') NavNext"
    using default_binding [OF some_defaults(1)] by (simp add: meant_by_def default_table_def binding_key_def)
  ultimately show ?thesis
    using key_press_runs [of sample_keyboard "Character ''j''" no_modifiers False 0 "chord_of_char ''j''" "\<lambda>i. True" NavNext]
      default_table_reachable by (simp add: sample_keyboard_def)
qed

text \<open>
  C39: With the default bindings, a press with Shift never deletes, marks as spam or opens the help,
  whose keys are number sign, exclamation mark and question mark without modifiers: on a keyboard that
  has these characters on shifted keys the three bindings do not work.
\<close>

theorem shifted_symbols_unreachable:
  assumes "binding_table_of st = table_new sh (default_bindings registry_new) p" "permutes sh"
    and "imod_shift m" "i \<in> {EmailTrash, EmailSpam, AppHelp}"
  shows "fst (handle_key_event available (KeyPressed k m captured w) st) \<noteq> ExecuteCommand i"
proof
  assume "fst (handle_key_event available (KeyPressed k m captured w) st) = ExecuteCommand i"
  then obtain c where c: "iced_key_to_chord k m = Some c" "fst (resolve_press available c st) = ExecuteCommand i"
    using command_from_chord by blast
  have "shift (chord_modifiers c)"
    using c(1) assms(3)
    by (auto simp: iced_key_to_chord_def chord_modifiers_of_def split: iced_key.splits list.splits)
  moreover have "reachable_table (default_bindings registry_new) (binding_table_of st)"
    unfolding assms(1) using assms(2) by (rule fresh)
  then have "meant_by (binding_for (binding_table_of st)) (pending_chord st) c i"
    using press_runs [OF reachable_resolver] c(2) by blast
  moreover have "\<exists>s. binding_for (binding_table_of st) i = Some (binding_key s)"
    using assms(1,4) some_defaults default_binding by auto
  ultimately show False
    by (auto simp: meant_by_def binding_key_def chord_of_char_def MODIFIERS_NONE_def split: option.splits)
qed

theorem shifted_symbols_unreachable_witness:
  "fst (handle_key_event (\<lambda>i. True) (KeyPressed (Character ''?'') (no_modifiers\<lparr>imod_shift := True\<rparr>) False 0)
     sample_keyboard) \<noteq> ExecuteCommand AppHelp"
  by (rule shifted_symbols_unreachable [where sh = "\<lambda>xs. xs" and p = Linux])
    (simp_all add: sample_keyboard_def default_table_def)

section \<open>Changing bindings\<close>

text \<open>
  C27: The text of a binding is read back as the binding, except that a binding with a plus key cannot
  be read: the reader takes the sign for the separator.
\<close>

theorem binding_text_roundtrip:
  assumes "binding_ok b"
  shows "binding_parse (binding_canonical b) = (if plus_binding b then Inl ''unknown modifier: '' else Inr b)"
  using assms by (rule parse_canonical_binding)

theorem binding_text_roundtrip_witness:
  "binding_parse ''g then Shift+ArrowUp'' =
     Inr (Sequence (chord_of_char ''g'')
       \<lparr>chord_key = Named ArrowUpKey, chord_modifiers = \<lparr>cmd_or_ctrl = False, shift = True, alt = False\<rparr>\<rparr>) \<and>
   binding_parse ''+'' = Inl ''unknown modifier: ''"
  using binding_text_roundtrip [of "Sequence (chord_of_char ''g'')
       \<lparr>chord_key = Named ArrowUpKey, chord_modifiers = \<lparr>cmd_or_ctrl = False, shift = True, alt = False\<rparr>\<rparr>"]
    binding_text_roundtrip [of "binding_key ''+''"]
  by (simp add: chord_of_char_def binding_key_def MODIFIERS_NONE_def rust_char_def ascii_lower_char_def plus_chord_def
      chord_canonical_def format_with_modifier_label_def has_any_def)

text \<open>
  C26: After saving the overrides and starting again every command has the binding it had, except one
  that was bound to a plus key: it falls back to its default binding, without a check for conflicts.
\<close>

theorem overrides_survive_restart:
  assumes "reachable_table (default_bindings registry_new) t" "overrides_ok (bt_overrides t)"
    and "from_json (to_json (overrides_file command_id_as_str t)) = Inr (overrides_file command_id_as_str t)"
    and "save_overrides command_id_as_str to_json IoOk t file = (Inr (), saved)"
    and "load_overrides_from_file sh command_id_parse from_json (Inr saved)
      (table_new sh' (default_bindings registry_new) p) = (Inr (), u)"
  shows "binding_for u i =
    (if \<exists>b. map_of (bt_overrides t) i = Some (Some b) \<and> plus_binding b
     then map_of (default_bindings registry_new) i else binding_for t i)"
proof -
  let ?fresh = "table_new sh' (default_bindings registry_new) p"
  have defaults: "map_of (bt_defaults t) = map_of (default_bindings registry_new)"
    using reachable_defaults [OF assms(1)] by (simp add: table_ok_def)
  show ?thesis
  proof (cases "bt_overrides t = []")
    case True
    with assms(4) have "saved = None" by (auto simp: save_overrides_def split: if_splits)
    with assms(5) have "u = ?fresh" by (simp add: load_overrides_from_file_def)
    with True defaults show ?thesis by (simp add: binding_for_fresh) (simp add: binding_for_def)
  next
    case False
    with assms(4) have "saved = Some (to_json (overrides_file command_id_as_str t))"
      by (auto simp: save_overrides_def split: if_splits)
    with assms(3,5) have u: "u = load_overrides sh (fold (read_entry command_id_parse) (overrides_file command_id_as_str t) []) ?fresh"
      by (simp add: load_overrides_from_file_def)
    have "map_of (fold (read_entry command_id_parse) (overrides_file command_id_as_str t) []) i =
        restored (map_of (bt_overrides t) i)"
      by (rule overrides_file_roundtrip [OF command_id_roundtrip assms(2)])
    then show ?thesis using defaults binding_for_fresh [of sh' p i]
      by (auto simp: u load_overrides_def binding_for_def restored_def table_new_def split: option.splits)
  qed
qed

theorem overrides_survive_restart_witness:
  "binding_for (snd (load_overrides_from_file (\<lambda>xs. xs) command_id_parse (\<lambda>bytes. Inr [(''nav.next'', None)])
     (Inr (Some ''{}'')) default_table)) NavNext = None"
proof -
  let ?t = "unbind (\<lambda>xs. xs) NavNext default_table"
  have ovs: "bt_overrides ?t = [(NavNext, None)]"
    by (simp add: unbind_def default_table_def table_new_def)
  then have stored: "overrides_file command_id_as_str ?t = [(''nav.next'', None)]"
    by (simp add: overrides_file_def collect_map_def command_id_as_str_name)
  let ?from = "\<lambda>bytes :: string. Inr [(''nav.next'', None)] :: string + (string \<times> string option) list"
  let ?u = "snd (load_overrides_from_file (\<lambda>xs. xs) command_id_parse ?from (Inr (Some ''{}'')) default_table)"
  have "reachable_table (default_bindings registry_new) ?t"
    using default_table_reachable by (rule unbound) simp
  moreover have "overrides_ok (bt_overrides ?t)" by (simp add: ovs overrides_ok_def)
  moreover have "save_overrides command_id_as_str (\<lambda>entries. ''{}'') IoOk ?t None = (Inr (), Some ''{}'')"
    by (simp add: save_overrides_def ovs)
  moreover have "load_overrides_from_file (\<lambda>xs. xs) command_id_parse ?from (Inr (Some ''{}''))
      (table_new (\<lambda>xs. xs) (default_bindings registry_new) Linux) = (Inr (), ?u)"
    by (simp add: load_overrides_from_file_def default_table_def)
  ultimately have "binding_for ?u NavNext = binding_for ?t NavNext"
    using overrides_survive_restart [of ?t ?from "\<lambda>entries. ''{}''"] stored ovs by fastforce
  then show ?thesis by (simp add: binding_for_def ovs)
qed

text \<open>
  C38: Taking back one override can bring back a conflict that setting a binding refuses: when another
  command has got the default chord of the command in the meantime, both have it, and the order of a
  hash map decides which one the chord runs.
\<close>

theorem removed_override_conflicts:
  assumes "reachable_table defs t" "distinct (map fst defs)" "conflict_free (map_of defs)"
    and "map_of defs i = Some (Chord c)" "binding_for t j = Some (Chord c)" "j \<noteq> i"
  shows "binding_for (remove_override sh i t) i = binding_for (remove_override sh i t) j \<and>
    (\<exists>sh1. permutes sh1 \<and> resolve_chord (remove_override sh1 i t) c = Command i) \<and>
    (\<exists>sh2. permutes sh2 \<and> resolve_chord (remove_override sh2 i t) c = Command j)"
proof -
  have ok: "table_ok defs t" using assms(1-3) by (rule reachable_table_ok)
  have "binding_for (remove_override sh i t) i = binding_for (remove_override sh i t) j"
    using ok assms(4-6) by (simp add: remove_override_def binding_for_unoverride table_ok_def)
  moreover have "resolve_chord (remove_override (move_last i) i t) c = Command i"
    "resolve_chord (remove_override (move_last j) i t) c = Command j"
    using removed_override_ambiguous [OF ok assms(4-6)] by simp_all
  ultimately show ?thesis using permutes_move_last [of i] permutes_move_last [of j] by metis
qed

definition two_defaults :: "(nat \<times> key_binding) list" where
  "two_defaults = [(0, binding_key ''j''), (1, binding_key ''i'')]"

theorem removed_override_conflicts_witness:
  "\<exists>t. reachable_table two_defaults t \<and>
     binding_for (remove_override rev 0 t) 0 = binding_for (remove_override rev 0 t) 1"
proof -
  define t0 where "t0 = table_new (\<lambda>xs. xs) two_defaults Linux"
  define t1 where "t1 = unbind (\<lambda>xs. xs) 0 t0"
  have simps: "\<And>c d. chord_of_char c = chord_of_char d \<longleftrightarrow> c = d" by (simp add: chord_of_char_def)
  have "\<exists>t. set_override (\<lambda>xs. xs) (\<lambda>xs. xs) 1 (binding_key ''j'') t1 = Inr t \<and>
      binding_for t 1 = Some (Chord (chord_of_char ''j''))"
    by (simp add: set_override_def t1_def t0_def unbind_def table_new_def two_defaults_def rebuild_reverse_def
        effective_bindings_def binding_for_def binding_key_def check_chord_conflict_def other_def simps List.map_filter_def)
  then obtain t where t: "set_override (\<lambda>xs. xs) (\<lambda>xs. xs) 1 (binding_key ''j'') t1 = Inr t"
    "binding_for t 1 = Some (Chord (chord_of_char ''j''))" by blast
  have "reachable_table two_defaults t1" unfolding t1_def t0_def by (intro unbound fresh) simp_all
  then have "reachable_table two_defaults t" by (rule overridden [OF _ _ _ t(1)]) simp_all
  moreover have "conflict_free (map_of two_defaults)"
    by (rule conflict_free_list) (simp add: two_defaults_def binding_key_def simps)
  ultimately show ?thesis
    using removed_override_conflicts [of two_defaults t 0 "chord_of_char ''j''" 1 rev] t(2)
    by (auto simp: two_defaults_def binding_key_def)
qed

section \<open>The palette\<close>

text \<open>
  With an empty query the palette lists every command exactly once, the available ones first and
  among those that are equally available the more used ones first.
\<close>

theorem palette_lists_commands:
  "mset (map match_id (palette_query M p (registry_new\<lparr>usage := u\<rparr>) ctx [])) = mset ALL_IDS \<and>
   sorted_wrt (\<lambda>a b. (match_available b \<longrightarrow> match_available a) \<and>
       (match_available a = match_available b \<longrightarrow> recency_score b \<le> recency_score a))
     (palette_query M p (registry_new\<lparr>usage := u\<rparr>) ctx [])"
proof
  show "mset (map match_id (palette_query M p (registry_new\<lparr>usage := u\<rparr>) ctx [])) = mset ALL_IDS"
    using registry_ids
    by (simp add: palette_query_def query_empty_def empty_match_def multiset.map_comp comp_def)
  show "sorted_wrt (\<lambda>a b. (match_available b \<longrightarrow> match_available a) \<and>
       (match_available a = match_available b \<longrightarrow> recency_score b \<le> recency_score a))
     (palette_query M p (registry_new\<lparr>usage := u\<rparr>) ctx [])"
    unfolding palette_query_def query_empty_def
    using sorted_wrt_sort_key [of "empty_rank ctx", OF empty_rank_order] by simp
qed

text \<open>
  C28: In the results of a query an enabled command is in front of a disabled one that matches equally
  well, or better by up to 713 points, however often the disabled one was used and whatever the view
  and the focus are: the bonus for availability outweighs all others.
\<close>

theorem enabled_first:
  assumes "d \<in> set (descriptors r)" "e \<in> set (descriptors r)" "is_available d ctx" "\<not> is_available e ctx"
    and "pattern_score M q (command_haystack ctx d) = Some raw_d"
    and "pattern_score M q (command_haystack ctx e) = Some raw_e"
    and "raw_e < raw_d + 714" "raw_e + 286 < 2 ^ 32 - 1"
    and "fuzzy_match M p r ctx q d = Some a" "fuzzy_match M p r ctx q e = Some b"
  shows "\<exists>us vs ws. query_fuzzy M p r ctx q = us @ a # vs @ b # ws"
proof -
  have "match_score b < match_score a"
    using enabled_above_disabled [OF assms(3,4,7,8)] assms(5,6,9,10) by (auto simp: fuzzy_match_def Let_def)
  moreover have "a \<in> set (query_fuzzy M p r ctx q)" "b \<in> set (query_fuzzy M p r ctx q)"
    using assms by (auto simp: query_fuzzy_set)
  ultimately show ?thesis using sorted_before [OF query_fuzzy_sorted] by fastforce
qed

definition sample_context :: command_context where
  "sample_context =
     \<lparr>selected_thread_ids = [], active_message_id = None, current_view = Inbox, current_item_id = None,
      active_account_id = None, context_provider = None, thread_is_read = None, thread_is_starred = None,
      thread_is_muted = None, thread_is_pinned = None, thread_is_draft = None, thread_in_trash = None,
      thread_in_spam = None, is_online = True, composer_is_open = False, focused_region_of = None,
      search_query = None, active_pinned_search = None, has_pinned_searches = False,
      may_remove_items = None, may_set_seen = None, may_set_keywords = None, may_submit = None\<rparr>"

theorem enabled_first_witness:
  "\<exists>us vs ws. map match_id (query_fuzzy \<lparr>atoms = (\<lambda>q. 1), pattern_score = (\<lambda>q h. Some 5), pattern_indices = (\<lambda>q h. [])\<rparr>
     Linux \<lparr>descriptors = [desc EmailStar ''Star'' ''Email'' None needs_selection, desc NavNext ''Next'' ''Other'' None always],
            usage = [(EmailStar, 1000000)]\<rparr> sample_context ''s'') = us @ NavNext # vs @ EmailStar # ws"
proof -
  let ?M = "\<lparr>atoms = (\<lambda>q. 1), pattern_score = (\<lambda>q h. Some 5), pattern_indices = (\<lambda>q h. [])\<rparr>"
  let ?e = "desc EmailStar ''Star'' ''Email'' None needs_selection"
  let ?d = "desc NavNext ''Next'' ''Other'' None always"
  let ?r = "\<lparr>descriptors = [?e, ?d], usage = [(EmailStar, 1000000)]\<rparr>"
  obtain a b where ab: "fuzzy_match ?M Linux ?r sample_context ''s'' ?d = Some a"
    "fuzzy_match ?M Linux ?r sample_context ''s'' ?e = Some b" "match_id a = NavNext" "match_id b = EmailStar"
    by (simp add: fuzzy_match_def Let_def empty_match_def)
  have "is_available ?d sample_context" "\<not> is_available ?e sample_context"
    by (simp_all add: desc_def desc_kw_def always_def needs_selection_def has_selection_def sample_context_def)
  then obtain us vs ws where "query_fuzzy ?M Linux ?r sample_context ''s'' = us @ a # vs @ b # ws"
    using enabled_first [of ?d ?r ?e sample_context ?M "''s''" 5 5 Linux a b] ab by auto
  then have "map match_id (query_fuzzy ?M Linux ?r sample_context ''s'') =
      map match_id us @ NavNext # map match_id vs @ EmailStar # map match_id ws"
    using ab(3,4) by simp
  then show ?thesis by blast
qed

end
